(* ===== verification/Prelude.thy ===== *)
theory Prelude
  imports Main "HOL-Library.AList" "HOL-Library.Word"
begin

text \<open>
  Shared vocabulary of the development.

  \<^item> \<open>umap\<close>: a C++ \<^verbatim>\<open>std::unordered_map\<close> as an association list with distinct keys. The order of
    the list stands for the (unspecified) iteration order of the container; lookups, insertions
    and erasures do not depend on it.
  \<^item> \<open>uset\<close>: a \<^verbatim>\<open>std::unordered_set\<close> as a distinct list.
  \<^item> \<open>result\<close> monad: a stateful operation returns a result and the new state; an error ends the
    sequence but keeps the state reached so far, as an early \<^verbatim>\<open>return\<close> in the C++ code does.
\<close>

named_theorems umap_simps \<open>lookup, insertion and erasure in unordered maps\<close>
named_theorems state_defs \<open>definitions of state-passing operations\<close>

section \<open>Unordered maps\<close>

type_synonym ('k, 'v) umap = "('k \<times> 'v) list"

abbreviation umap_keys :: "('k, 'v) umap \<Rightarrow> 'k set" where
  "umap_keys m \<equiv> dom (map_of m)"

definition umap_wf :: "('k, 'v) umap \<Rightarrow> bool" where
  "umap_wf m \<longleftrightarrow> distinct (map fst m)"

text \<open>\<^verbatim>\<open>m[k] = v\<close>, \<^verbatim>\<open>m.erase(k)\<close>, and \<^verbatim>\<open>m.insert({k, v})\<close>, which keeps an existing entry.\<close>

definition umap_put :: "'k \<Rightarrow> 'v \<Rightarrow> ('k, 'v) umap \<Rightarrow> ('k, 'v) umap" where
  "umap_put k v m = AList.update k v m"

definition umap_erase :: "'k \<Rightarrow> ('k, 'v) umap \<Rightarrow> ('k, 'v) umap" where
  "umap_erase k m = AList.delete k m"

definition umap_insert :: "'k \<Rightarrow> 'v \<Rightarrow> ('k, 'v) umap \<Rightarrow> ('k, 'v) umap" where
  "umap_insert k v m = (case map_of m k of None \<Rightarrow> umap_put k v m | Some _ \<Rightarrow> m)"

text \<open>
  \<^verbatim>\<open>m[k]\<close> used as an expression: \<open>umap_at\<close> is the element read, with the value-initialised element
  \<open>d\<close> when the key is absent, and \<open>umap_touch\<close> is the map afterwards, which then holds \<open>d\<close> at \<open>k\<close>.
\<close>

definition umap_at :: "'v \<Rightarrow> 'k \<Rightarrow> ('k, 'v) umap \<Rightarrow> 'v" where
  "umap_at d k m = (case map_of m k of None \<Rightarrow> d | Some v \<Rightarrow> v)"

definition umap_touch :: "'v \<Rightarrow> 'k \<Rightarrow> ('k, 'v) umap \<Rightarrow> ('k, 'v) umap" where
  "umap_touch d k m = umap_insert k d m"

lemma map_of_umap_put [simp, umap_simps]:
  "map_of (umap_put k v m) = (map_of m)(k \<mapsto> v)"
  by (simp add: umap_put_def update_conv')

lemma map_of_umap_erase [simp, umap_simps]:
  "map_of (umap_erase k m) = (map_of m)(k := None)"
  by (simp add: umap_erase_def delete_conv')

lemma map_of_umap_insert [umap_simps]:
  "map_of (umap_insert k v m) = (if k \<in> umap_keys m then map_of m else (map_of m)(k \<mapsto> v))"
  by (auto simp: umap_insert_def split: option.splits)

lemma map_of_umap_touch [umap_simps]:
  "map_of (umap_touch d k m) = (map_of m)(k \<mapsto> umap_at d k m)"
  by (auto simp: umap_touch_def umap_at_def map_of_umap_insert fun_eq_iff split: option.splits)

lemma umap_wf_Nil [simp]: "umap_wf []"
  by (simp add: umap_wf_def)

lemma umap_wf_put [simp]: "umap_wf m \<Longrightarrow> umap_wf (umap_put k v m)"
  by (simp add: umap_wf_def umap_put_def distinct_update)

lemma umap_wf_erase [simp]: "umap_wf m \<Longrightarrow> umap_wf (umap_erase k m)"
  by (simp add: umap_wf_def umap_erase_def distinct_delete)

lemma umap_wf_insert [simp]: "umap_wf m \<Longrightarrow> umap_wf (umap_insert k v m)"
  by (simp add: umap_insert_def split: option.splits)

lemma umap_wf_touch [simp]: "umap_wf m \<Longrightarrow> umap_wf (umap_touch d k m)"
  by (simp add: umap_touch_def)

lemma umap_wf_in_set: "umap_wf m \<Longrightarrow> (k, v) \<in> set m \<longleftrightarrow> map_of m k = Some v"
  by (auto simp: umap_wf_def dest: map_of_SomeD intro: map_of_is_SomeI)

lemma umap_empty_iff: "m = [] \<longleftrightarrow> umap_keys m = {}"
  by (cases m) auto

lemma set_umap_put:
  "umap_wf m \<Longrightarrow> set (umap_put k v m) = {(k', v') \<in> set m. k' \<noteq> k} \<union> {(k, v)}"
  using umap_wf_in_set [of m] umap_wf_in_set [OF umap_wf_put [of m k v]]
  by (auto split: if_splits)

lemma set_umap_erase: "set (umap_erase k m) = {(k', v') \<in> set m. k' \<noteq> k}"
  by (auto simp: umap_erase_def AList.delete_eq)

lemma umap_at_simps [simp]:
  "map_of m k = Some v \<Longrightarrow> umap_at d k m = v"
  "map_of m k = None \<Longrightarrow> umap_at d k m = d"
  by (simp_all add: umap_at_def)

lemma umap_at_updates [simp]:
  "umap_at d k (umap_put k' v m) = (if k = k' then v else umap_at d k m)"
  "umap_at d k (umap_erase k' m) = (if k = k' then d else umap_at d k m)"
  "umap_at d k (umap_touch d k' m) = umap_at d k m"
  by (auto simp: umap_at_def map_of_umap_touch)

lemma umap_put_not_Nil [simp]: "umap_put k v m \<noteq> []"
  by (simp add: umap_empty_iff)

lemma umap_card: "umap_wf m \<Longrightarrow> card (umap_keys m) = length m"
  unfolding umap_wf_def dom_map_of_conv_image_fst
  by (metis distinct_card length_map set_map)

section \<open>Searching a list\<close>

lemma find_unique: "y \<in> set xs \<Longrightarrow> P y \<Longrightarrow> (\<And>x. x \<in> set xs \<Longrightarrow> P x \<Longrightarrow> x = y) \<Longrightarrow> find P xs = Some y"
proof (induction xs)
  case (Cons x xs)
  show ?case
  proof (cases "P x")
    case True
    then show ?thesis using Cons.prems(3) [of x] by simp
  next
    case False
    then have "y \<in> set xs" using Cons.prems(1,2) by auto
    then have "find P xs = Some y" by (rule Cons.IH [OF _ Cons.prems(2,3)]) simp_all
    then show ?thesis using False by simp
  qed
qed simp

section \<open>Unordered sets\<close>

type_synonym 'a uset = "'a list"

definition uset_insert :: "'a \<Rightarrow> 'a uset \<Rightarrow> 'a uset" where
  "uset_insert x s = (if x \<in> set s then s else s @ [x])"

definition uset_erase :: "'a \<Rightarrow> 'a uset \<Rightarrow> 'a uset" where
  "uset_erase x s = removeAll x s"

lemma set_uset_insert [simp]: "set (uset_insert x s) = insert x (set s)"
  by (auto simp: uset_insert_def)

lemma set_uset_erase [simp]: "set (uset_erase x s) = set s - {x}"
  by (simp add: uset_erase_def)

lemma distinct_uset_insert [simp]: "distinct s \<Longrightarrow> distinct (uset_insert x s)"
  by (simp add: uset_insert_def)

lemma distinct_uset_erase [simp]: "distinct s \<Longrightarrow> distinct (uset_erase x s)"
  by (simp add: uset_erase_def distinct_removeAll)

section \<open>Sequencing with early return\<close>

text \<open>
  \<open>bindE\<close> runs the second operation only when the first one succeeded; \<open>forE\<close> is a C++ loop whose
  body may \<^verbatim>\<open>return\<close> an error, which leaves the elements after it untouched.
\<close>

definition bindE ::
  "('s \<Rightarrow> ('e + 'a) \<times> 's) \<Rightarrow> ('a \<Rightarrow> 's \<Rightarrow> ('e + 'b) \<times> 's) \<Rightarrow> 's \<Rightarrow> ('e + 'b) \<times> 's" where
  "bindE f g s = (case f s of (Inl e, s') \<Rightarrow> (Inl e, s') | (Inr a, s') \<Rightarrow> g a s')"

fun forE :: "('a \<Rightarrow> 's \<Rightarrow> ('e + unit) \<times> 's) \<Rightarrow> 'a list \<Rightarrow> 's \<Rightarrow> ('e + unit) \<times> 's" where
  "forE body [] s = (Inr (), s)"
| "forE body (x # xs) s =
     (case body x s of (Inl e, s') \<Rightarrow> (Inl e, s') | (Inr _, s') \<Rightarrow> forE body xs s')"

lemma forE_invariant:
  assumes "I s" and "\<And>x s. x \<in> set xs \<Longrightarrow> I s \<Longrightarrow> I (snd (body x s))"
  shows "I (snd (forE body xs s))"
  using assms
proof (induction xs arbitrary: s)
  case (Cons x xs)
  have "I (snd (body x s))" using Cons.prems by simp
  then show ?case
    using Cons.IH Cons.prems(2) by (auto split: prod.splits sum.splits)
qed simp

lemma forE_append:
  "forE body (xs @ ys) s =
     (case forE body xs s of (Inl e, s') \<Rightarrow> (Inl e, s') | (Inr _, s') \<Rightarrow> forE body ys s')"
  by (induction xs arbitrary: s) (auto split: prod.splits sum.splits)

lemma forE_progress:
  assumes "fst (forE body xs s) = Inr ()" and "I s"
    and "\<And>x s. x \<in> set xs \<Longrightarrow> I s \<Longrightarrow> fst (body x s) = Inr () \<Longrightarrow> I (snd (body x s))"
    and "\<And>x s. x \<in> set xs \<Longrightarrow> I s \<Longrightarrow> fst (body x s) = Inr () \<Longrightarrow> P x (snd (body x s))"
    and "\<And>x y s. y \<in> set xs \<Longrightarrow> I s \<Longrightarrow> P x s \<Longrightarrow> fst (body y s) = Inr () \<Longrightarrow> P x (snd (body y s))"
  shows "\<forall>x \<in> set xs. P x (snd (forE body xs s))"
proof -
  have "I s \<Longrightarrow> fst (forE body ys s) = Inr () \<Longrightarrow> set ys \<subseteq> set xs \<Longrightarrow> (\<forall>x \<in> X. P x s) \<Longrightarrow>
      \<forall>x \<in> X \<union> set ys. P x (snd (forE body ys s))" for ys X
  proof (induction ys arbitrary: s X)
    case (Cons y ys)
    obtain r s' where b: "body y s = (r, s')" by (cases "body y s")
    with Cons.prems(2) have r: "r = Inr ()" by (cases r) auto
    have I': "I s'" using assms(3)[of y s] Cons.prems b r by simp
    have P': "\<forall>x \<in> insert y X. P x s'"
      using assms(4)[of y s] assms(5)[of y s] Cons.prems b r by auto
    have "\<forall>x \<in> insert y X \<union> set ys. P x (snd (forE body ys s'))"
      by (rule Cons.IH [OF I']) (use Cons.prems P' b r in auto)
    then show ?case using b r by auto
  qed simp
  from this [of xs "{}"] show ?thesis using assms by simp
qed

end
