(* ===== verification/Float_Model.thy ===== *)
theory Float_Model
  imports Complex_Main Prelude
begin

text \<open>
  The C++ \<^verbatim>\<open>float\<close> and \<^verbatim>\<open>double\<close> arithmetic the vehicle code uses, as IEEE 754 binary32 and
  binary64: a value is NaN, an infinity or a rational; every operation is the exact rational
  operation followed by one rounding to nearest, ties to even, with gradual underflow and overflow
  to infinity. The sign of zero is not represented: no modelled operation lets it be observed.
  A cast to an integer type truncates; where the C++ standard leaves the cast undefined (NaN,
  infinity, out of range) the result is \<open>None\<close>.
\<close>

datatype fp = FNaN | FNegInf | FFin rat | FPosInf

section \<open>Comparisons\<close>

fun fp_lt :: "fp \<Rightarrow> fp \<Rightarrow> bool" where
  "fp_lt (FFin a) (FFin b) = (a < b)"
| "fp_lt FNegInf (FFin _) = True"
| "fp_lt FNegInf FPosInf = True"
| "fp_lt (FFin _) FPosInf = True"
| "fp_lt _ _ = False"

definition fp_eq :: "fp \<Rightarrow> fp \<Rightarrow> bool" where
  "fp_eq a b \<longleftrightarrow> a = b \<and> a \<noteq> FNaN"

definition fp_le :: "fp \<Rightarrow> fp \<Rightarrow> bool" where
  "fp_le a b \<longleftrightarrow> fp_lt a b \<or> fp_eq a b"

lemma fp_lt_irrefl [simp]: "\<not> fp_lt a a"
  by (cases a) auto

lemma fp_lt_trans: "fp_lt a b \<Longrightarrow> fp_lt b c \<Longrightarrow> fp_lt a c"
  by (cases a; cases b; cases c) auto

lemma fp_total: "a \<noteq> FNaN \<Longrightarrow> b \<noteq> FNaN \<Longrightarrow> fp_lt a b \<or> a = b \<or> fp_lt b a"
  by (cases a; cases b) auto

lemma fp_NaN [simp]: "\<not> fp_lt FNaN a" "\<not> fp_lt a FNaN" "\<not> fp_eq FNaN a" "\<not> fp_eq a FNaN"
    "\<not> fp_le FNaN a" "\<not> fp_le a FNaN"
  by (cases a; simp add: fp_eq_def fp_le_def)+

lemma fp_eq_refl [simp]: "fp_eq a a \<longleftrightarrow> a \<noteq> FNaN"
  by (simp add: fp_eq_def)

lemma fp_le_FFin [simp]: "fp_le (FFin a) (FFin b) \<longleftrightarrow> a \<le> b"
  by (auto simp: fp_le_def fp_eq_def)

lemma fp_le_trans: "fp_le a b \<Longrightarrow> fp_le b c \<Longrightarrow> fp_le a c"
  by (cases a; cases b; cases c) (auto simp: fp_le_def fp_eq_def)

lemma fp_not_lt: "a \<noteq> FNaN \<Longrightarrow> b \<noteq> FNaN \<Longrightarrow> \<not> fp_lt a b \<longleftrightarrow> fp_le b a"
  by (cases a; cases b) (auto simp: fp_le_def fp_eq_def)

section \<open>Rounding\<close>

text \<open>\<open>precision\<close> significand bits, least exponent of a unit in the last place, greatest exponent.\<close>

record fp_format =
  precision :: nat
  min_ulp :: int
  max_exp :: int

definition binary32 :: fp_format where
  "binary32 = \<lparr>precision = 24, min_ulp = -149, max_exp = 127\<rparr>"

definition binary64 :: fp_format where
  "binary64 = \<lparr>precision = 53, min_ulp = -1074, max_exp = 1023\<rparr>"

definition pow2 :: "int \<Rightarrow> rat" where
  "pow2 e = (if 0 \<le> e then 2 ^ nat e else 1 / 2 ^ nat (- e))"

function bitlen :: "int \<Rightarrow> int" where
  "bitlen n = (if n \<le> 0 then 0 else 1 + bitlen (n div 2))"
  by pat_completeness auto
termination
  by (relation "measure nat") auto

declare bitlen.simps [simp del]

text \<open>The binary exponent of a positive rational: \<open>pow2 (ilog2 x) \<le> x < pow2 (ilog2 x + 1)\<close>.\<close>

definition ilog2 :: "rat \<Rightarrow> int" where
  "ilog2 x = (let (a, b) = quotient_of x; e = bitlen a - bitlen b
              in if pow2 e \<le> x then e else e - 1)"

definition round_half_even :: "rat \<Rightarrow> int" where
  "round_half_even x = (let n = \<lfloor>x\<rfloor>; d = x - of_int n
     in if d < 1 / 2 then n else if 1 / 2 < d then n + 1 else if even n then n else n + 1)"

definition fl :: "fp_format \<Rightarrow> rat \<Rightarrow> fp" where
  "fl F x =
     (if x = 0 then FFin 0
      else let q = pow2 (max (ilog2 \<bar>x\<bar> - int (precision F) + 1) (min_ulp F));
               y = of_int (round_half_even (x / q)) * q
           in if pow2 (max_exp F + 1) \<le> \<bar>y\<bar> then (if 0 < x then FPosInf else FNegInf)
              else FFin y)"

section \<open>Arithmetic\<close>

fun fp_neg :: "fp \<Rightarrow> fp" where
  "fp_neg FNaN = FNaN"
| "fp_neg FPosInf = FNegInf"
| "fp_neg FNegInf = FPosInf"
| "fp_neg (FFin a) = FFin (- a)"

definition fp_abs :: "fp \<Rightarrow> fp" where
  "fp_abs a = (if fp_lt a (FFin 0) then fp_neg a else a)"

fun fp_sub :: "fp_format \<Rightarrow> fp \<Rightarrow> fp \<Rightarrow> fp" where
  "fp_sub F (FFin a) (FFin b) = fl F (a - b)"
| "fp_sub F (FFin _) b = fp_neg b"
| "fp_sub F a (FFin _) = a"
| "fp_sub F FPosInf FNegInf = FPosInf"
| "fp_sub F FNegInf FPosInf = FNegInf"
| "fp_sub F _ _ = FNaN"

text \<open>The sign of a product or quotient with an infinite operand.\<close>

definition fp_inf :: "fp \<Rightarrow> fp \<Rightarrow> fp" where
  "fp_inf a b = (if fp_lt a (FFin 0) = fp_lt b (FFin 0) then FPosInf else FNegInf)"

fun fp_mul :: "fp_format \<Rightarrow> fp \<Rightarrow> fp \<Rightarrow> fp" where
  "fp_mul F (FFin a) (FFin b) = fl F (a * b)"
| "fp_mul F FNaN _ = FNaN"
| "fp_mul F _ FNaN = FNaN"
| "fp_mul F a b = (if a = FFin 0 \<or> b = FFin 0 then FNaN else fp_inf a b)"

fun fp_div :: "fp_format \<Rightarrow> fp \<Rightarrow> fp \<Rightarrow> fp" where
  "fp_div F (FFin a) (FFin b) =
     (if b = 0 then (if a = 0 then FNaN else if 0 < a then FPosInf else FNegInf) else fl F (a / b))"
| "fp_div F FNaN _ = FNaN"
| "fp_div F _ FNaN = FNaN"
| "fp_div F (FFin _) _ = FFin 0"
| "fp_div F a (FFin b) = fp_inf a (FFin b)"
| "fp_div F _ _ = FNaN"

text \<open>\<^verbatim>\<open>std::round\<close>: to the nearest integer, halfway cases away from zero.\<close>

fun fp_round :: "fp \<Rightarrow> fp" where
  "fp_round (FFin a) = FFin (sgn a * of_int \<lfloor>\<bar>a\<bar> + 1 / 2\<rfloor>)"
| "fp_round a = a"

definition fp_ceil :: "fp \<Rightarrow> fp" where
  "fp_ceil a = (case a of FFin r \<Rightarrow> FFin (of_int \<lceil>r\<rceil>) | _ \<Rightarrow> a)"

definition fp_of_int :: "fp_format \<Rightarrow> int \<Rightarrow> fp" where
  "fp_of_int F i = fl F (of_int i)"

definition rat_trunc :: "rat \<Rightarrow> int" where
  "rat_trunc a = (if 0 \<le> a then \<lfloor>a\<rfloor> else \<lceil>a\<rceil>)"

text \<open>\<^verbatim>\<open>static_cast\<close> to a signed integer of \<open>w\<close> bits.\<close>

definition fp_to_int :: "nat \<Rightarrow> fp \<Rightarrow> int option" where
  "fp_to_int w a =
     (case a of FFin r \<Rightarrow>
        (let i = rat_trunc r in
         if - (2 ^ (w - 1)) \<le> i \<and> i < 2 ^ (w - 1) then Some i else None)
      | _ \<Rightarrow> None)"

section \<open>Exactness on small integers\<close>

lemma pow2_add: "pow2 (a + b) = pow2 a * pow2 b"
proof -
  have "pow2 e = 2 powi e" for e
    by (simp add: pow2_def power_int_def inverse_eq_divide power_one_over [symmetric])
  then show ?thesis by (simp add: power_int_add)
qed

lemma pow2_pos [simp]: "0 < pow2 e"
  by (simp add: pow2_def)

lemma pow2_neq_0 [simp]: "pow2 e \<noteq> 0"
  using pow2_pos [of e] by linarith

lemma pow2_mono: "a \<le> b \<Longrightarrow> pow2 a \<le> pow2 b"
proof -
  assume "a \<le> b"
  then have "pow2 b = pow2 a * 2 ^ nat (b - a)"
    using pow2_add [of a "b - a"] by (simp add: pow2_def)
  moreover have "(1::rat) \<le> 2 ^ nat (b - a)" by simp
  ultimately show ?thesis
    using mult_left_mono [of 1 "2 ^ nat (b - a)" "pow2 a"] by simp
qed

lemma pow2_nat [simp]: "pow2 (int n) = 2 ^ n"
  by (simp add: pow2_def)

lemma bitlen_nonneg [simp]: "0 \<le> bitlen n"
  by (induction n rule: bitlen.induct) (subst bitlen.simps, simp)

lemma bitlen_bounds: "0 < n \<Longrightarrow> 2 ^ nat (bitlen n) \<le> 2 * n \<and> n < 2 ^ nat (bitlen n)"
proof (induction n rule: bitlen.induct)
  case (1 n)
  have e: "nat (bitlen n) = Suc (nat (bitlen (n div 2)))"
    using "1.prems" by (simp add: bitlen.simps [of n] nat_add_distrib)
  show ?case
  proof (cases "n = 1")
    case True
    then show ?thesis by (simp add: bitlen.simps)
  next
    case False
    with "1" have "2 ^ nat (bitlen (n div 2)) \<le> 2 * (n div 2)" "n div 2 < 2 ^ nat (bitlen (n div 2))"
      by auto
    then show ?thesis unfolding e power_Suc by linarith
  qed
qed

lemma ilog2_int_less:
  assumes "0 < i" "i < 2 ^ n"
  shows "ilog2 (of_int i) < int n"
proof -
  let ?l = "nat (bitlen i)"
  have q: "quotient_of (of_int i) = (i, 1)" by (metis quotient_of_int Rat.of_int_def)
  have one: "bitlen 1 = 1" by (simp add: bitlen.simps)
  have "?l \<le> n"
  proof -
    have "2 ^ ?l \<le> 2 * i" using bitlen_bounds assms by simp
    also have "2 * i < 2 ^ Suc n" using assms by simp
    finally have "?l < Suc n" by (simp only: power_strict_increasing_iff)
    then show ?thesis by simp
  qed
  then have "bitlen i \<le> int n" by simp
  then show ?thesis
    unfolding ilog2_def q using one by (simp add: Let_def)
qed

lemma round_half_even_of_int [simp]: "round_half_even (of_int i) = i"
  by (simp add: round_half_even_def)

text \<open>An integer below \<open>2 ^ precision\<close> in absolute value is represented exactly.\<close>

lemma fl_of_int_exact:
  assumes "\<bar>i\<bar> < 2 ^ precision F" "min_ulp F \<le> 0" "int (precision F) \<le> max_exp F + 1"
  shows "fl F (of_int i) = FFin (of_int i)"
proof (cases "i = 0")
  case False
  define e where "e = max (ilog2 \<bar>of_int i\<bar> - int (precision F) + 1) (min_ulp F)"
  have "ilog2 (of_int \<bar>i\<bar>) < int (precision F)"
    using ilog2_int_less [of "\<bar>i\<bar>"] False assms(1) by simp
  then have "e \<le> 0" using assms(2) by (simp add: e_def)
  then have inv: "of_int i / pow2 e = of_int (i * 2 ^ nat (- e))"
    by (auto simp: pow2_def field_simps)
  have y: "of_int (round_half_even (of_int i / pow2 e)) * pow2 e = (of_int i :: rat)"
  proof -
    have "of_int (round_half_even (of_int i / pow2 e)) * pow2 e = (of_int i / pow2 e) * pow2 e"
      by (simp only: inv round_half_even_of_int)
    then show ?thesis by simp
  qed
  have "of_int \<bar>i\<bar> < (of_int (2 ^ precision F) :: rat)"
    using assms(1) by (simp only: of_int_less_iff)
  then have "\<bar>of_int i\<bar> < pow2 (int (precision F))" by simp
  also have "\<dots> \<le> pow2 (max_exp F + 1)" using assms(3) by (rule pow2_mono)
  finally have "\<not> pow2 (max_exp F + 1) \<le> \<bar>of_int i\<bar>" by simp
  then show ?thesis using False y unfolding fl_def e_def [symmetric] by (simp add: Let_def)
qed (simp add: fl_def)

lemma fp_of_int_binary32: "\<bar>i\<bar> < 2 ^ 24 \<Longrightarrow> fp_of_int binary32 i = FFin (of_int i)"
  unfolding fp_of_int_def by (rule fl_of_int_exact) (simp_all add: binary32_def)

lemma fp_of_int_binary64: "\<bar>i\<bar> < 2 ^ 53 \<Longrightarrow> fp_of_int binary64 i = FFin (of_int i)"
  unfolding fp_of_int_def by (rule fl_of_int_exact) (simp_all add: binary64_def)

lemma fp_mul_of_int_binary64:
  "\<bar>i * j\<bar> < 2 ^ 53 \<Longrightarrow> fp_mul binary64 (FFin (of_int i)) (FFin (of_int j)) = FFin (of_int (i * j))"
  using fp_of_int_binary64 [of "i * j"] by (simp add: fp_of_int_def)

lemma fp_ceil_of_int [simp]: "fp_ceil (FFin (of_int i)) = FFin (of_int i)"
  by (simp add: fp_ceil_def)

lemma fp_round_of_int [simp]: "fp_round (FFin (of_int i)) = FFin (of_int i)"
proof -
  have "\<lfloor>of_int \<bar>i\<bar> + 1 / 2 :: rat\<rfloor> = \<bar>i\<bar>" by linarith
  then have "\<lfloor>\<bar>of_int i\<bar> + 1 / 2 :: rat\<rfloor> = \<bar>i\<bar>" by simp
  then show ?thesis by (simp add: sgn_if)
qed

lemma fp_to_int_of_int [simp]:
  "- (2 ^ (w - 1)) \<le> i \<Longrightarrow> i < 2 ^ (w - 1) \<Longrightarrow> fp_to_int w (FFin (of_int i)) = Some i"
  by (simp add: fp_to_int_def rat_trunc_def Let_def)

lemma fp_to_int_bounds:
  "fp_to_int w a = Some i \<Longrightarrow> - (2 ^ (w - 1)) \<le> i \<and> i < 2 ^ (w - 1)"
  by (auto simp: fp_to_int_def Let_def split: fp.splits if_splits)

end
