(* ===== verification/Vehicle_Types.thy ===== *)
theory Vehicle_Types
  imports Float_Model
begin

unbundle bit_operations_syntax

text \<open>
  The data of the vehicle HAL interface: the parcelables and enumerations of
  \<^verbatim>\<open>automotive/vehicle/aidl\<close> and \<^verbatim>\<open>aidl_property\<close>, and the error type of \<^verbatim>\<open>VehicleUtils.h\<close>.

  Property and area identifiers are 32-bit words, because the code masks their bits. The integers
  inside a property value, timestamps and request identifiers are \<open>int\<close>: they are compared, stored
  and copied, and where the code computes with them the model writes out the width. Floating point
  fields are \<open>fp\<close> values.
\<close>

type_synonym int32 = "32 word"

section \<open>Enumerations\<close>

text \<open>
  \<open>VendorCode\<close> stands for a value outside the enumerators, which the code creates by casts such as
  \<^verbatim>\<open>(StatusCode)VENDOR_ERROR_CODE\<close>.
\<close>

datatype StatusCode =
    OK | TRY_AGAIN | INVALID_ARG | NOT_AVAILABLE | ACCESS_DENIED | INTERNAL_ERROR
  | NOT_AVAILABLE_DISABLED | NOT_AVAILABLE_SPEED_LOW | NOT_AVAILABLE_SPEED_HIGH
  | NOT_AVAILABLE_POOR_VISIBILITY | NOT_AVAILABLE_SAFETY | NOT_AVAILABLE_SUBSYSTEM_NOT_CONNECTED
  | VendorCode int

datatype VehiclePropertyStatus =
    AVAILABLE | UNAVAILABLE | ERROR | STATUS_DISABLED | STATUS_SPEED_LOW | STATUS_SPEED_HIGH
  | STATUS_POOR_VISIBILITY | STATUS_SAFETY | STATUS_SUBSYSTEM_NOT_CONNECTED

datatype VehiclePropertyAccess = ACCESS_NONE | READ | WRITE | READ_WRITE

datatype VehiclePropertyChangeMode = STATIC | ON_CHANGE | CONTINUOUS

text \<open>
  The type, group and area bit fields of a property identifier. The C++ enumerations may hold any
  masked value; the last constructor of each type is a value that is no enumerator.
\<close>

datatype VehiclePropertyType =
    T_STRING | T_BOOLEAN | T_INT32 | T_INT32_VEC | T_INT64 | T_INT64_VEC | T_FLOAT | T_FLOAT_VEC
  | T_BYTES | T_MIXED | T_UNKNOWN int32

datatype VehiclePropertyGroup = SYSTEM | VENDOR | BACKPORTED | GROUP_UNKNOWN int32

datatype VehicleArea =
    AREA_GLOBAL | AREA_WINDOW | AREA_MIRROR | AREA_SEAT | AREA_DOOR | AREA_WHEEL | AREA_VENDOR
  | AREA_UNKNOWN int32

section \<open>Parcelables\<close>

record RawPropValues =
  int32Values :: "int list"
  floatValues :: "fp list"
  int64Values :: "int list"
  byteValues :: "8 word list"
  stringValue :: string

record VehiclePropValue =
  pv_timestamp :: int
  pv_areaId :: int32
  pv_prop :: int32
  pv_status :: VehiclePropertyStatus
  pv_value :: RawPropValues

record HasSupportedValueInfo =
  hasMinSupportedValue :: bool
  hasMaxSupportedValue :: bool
  hasSupportedValuesList :: bool

record VehicleAreaConfig =
  ac_areaId :: int32
  ac_minInt32Value :: int
  ac_maxInt32Value :: int
  ac_minInt64Value :: int
  ac_maxInt64Value :: int
  ac_minFloatValue :: fp
  ac_maxFloatValue :: fp
  ac_access :: VehiclePropertyAccess
  ac_supportVariableUpdateRate :: bool
  ac_hasSupportedValueInfo :: "HasSupportedValueInfo option"
  ac_supportedEnumValues :: "int list option"

record VehiclePropConfig =
  pc_prop :: int32
  pc_access :: VehiclePropertyAccess
  pc_changeMode :: VehiclePropertyChangeMode
  pc_areaConfigs :: "VehicleAreaConfig list"
  pc_configArray :: "int list"
  pc_minSampleRate :: fp
  pc_maxSampleRate :: fp

record SubscribeOptions =
  so_propId :: int32
  so_areaIds :: "int32 list"
  so_sampleRate :: fp
  so_resolution :: fp
  so_enableVariableUpdateRate :: bool

text \<open>
  \<^verbatim>\<open>operator==\<close> of \<^verbatim>\<open>RawPropValues\<close> compares the fields in order. On the float vector it is the
  floating point comparison, so a value holding a NaN differs from itself.
\<close>

definition raw_eq :: "RawPropValues \<Rightarrow> RawPropValues \<Rightarrow> bool" where
  "raw_eq a b \<longleftrightarrow> int32Values a = int32Values b \<and> list_all2 fp_eq (floatValues a) (floatValues b) \<and>
     int64Values a = int64Values b \<and> byteValues a = byteValues b \<and> stringValue a = stringValue b"

definition raw_default :: RawPropValues where
  "raw_default = \<lparr>int32Values = [], floatValues = [], int64Values = [], byteValues = [],
     stringValue = []\<rparr>"

definition no_NaN :: "RawPropValues \<Rightarrow> bool" where
  "no_NaN a \<longleftrightarrow> FNaN \<notin> set (floatValues a)"

lemma list_all2_fp_eq: "list_all2 fp_eq xs ys \<longleftrightarrow> xs = ys \<and> FNaN \<notin> set xs"
  by (induction xs arbitrary: ys) (auto simp: fp_eq_def list_all2_Cons1)

lemma raw_eq_iff: "raw_eq a b \<longleftrightarrow> a = b \<and> no_NaN a"
  by (auto simp: raw_eq_def list_all2_fp_eq no_NaN_def)

lemma raw_eq_refl: "no_NaN a \<Longrightarrow> raw_eq a a"
  by (simp add: raw_eq_iff)

section \<open>Results\<close>

text \<open>
  \<^verbatim>\<open>VhalResult<T>\<close>: a \<^verbatim>\<open>StatusCode\<close> as the error, or a value. Error messages are not modelled.
\<close>

type_synonym 'a VhalResult = "StatusCode + 'a"

definition getErrorCode :: "'a VhalResult \<Rightarrow> StatusCode" where
  "getErrorCode r = (case r of Inr _ \<Rightarrow> OK | Inl e \<Rightarrow> e)"

text \<open>\<^verbatim>\<open>ndk::ScopedAStatus\<close>: the status a binder call returns.\<close>

datatype ExceptionCode = EX_NULL_POINTER | EX_TRANSACTION_FAILED

datatype ScopedAStatus = StatusOk | StatusException ExceptionCode | StatusServiceSpecific StatusCode

definition toScopedAStatus :: "'a VhalResult \<Rightarrow> ScopedAStatus" where
  "toScopedAStatus r = (case r of Inr _ \<Rightarrow> StatusOk | Inl e \<Rightarrow> StatusServiceSpecific e)"

lemma getErrorCode_simps [simp]: "getErrorCode (Inr a) = OK" "getErrorCode (Inl e) = e"
  by (simp_all add: getErrorCode_def)

lemma toScopedAStatus_simps [simp]:
  "toScopedAStatus (Inr a) = StatusOk" "toScopedAStatus (Inl e) = StatusServiceSpecific e"
  by (simp_all add: toScopedAStatus_def)

section \<open>Property and area identifiers\<close>

text \<open>\<^verbatim>\<open>struct PropIdAreaId\<close>, the key of most maps; its order is the lexicographic one.\<close>

datatype PropIdAreaId = PropIdAreaId (propId: int32) (areaId: int32)

instantiation PropIdAreaId :: linorder
begin

definition less_eq_PropIdAreaId :: "PropIdAreaId \<Rightarrow> PropIdAreaId \<Rightarrow> bool" where
  "less_eq_PropIdAreaId a b \<longleftrightarrow> propId a < propId b \<or> propId a = propId b \<and> areaId a \<le> areaId b"

definition less_PropIdAreaId :: "PropIdAreaId \<Rightarrow> PropIdAreaId \<Rightarrow> bool" where
  "less_PropIdAreaId a b \<longleftrightarrow> propId a < propId b \<or> propId a = propId b \<and> areaId a < areaId b"

instance
  by standard
    (auto simp: less_eq_PropIdAreaId_def less_PropIdAreaId_def intro: PropIdAreaId.expand)

end

definition key_of :: "VehiclePropValue \<Rightarrow> PropIdAreaId" where
  "key_of v = PropIdAreaId (pv_prop v) (pv_areaId v)"

end
