(* ===== verification/Vehicle_Utils.thy ===== *)
theory Vehicle_Utils
  imports Vehicle_Types
begin

text \<open>
  \<^verbatim>\<open>utils/common/include/VehicleUtils.h\<close> and \<^verbatim>\<open>utils/common/src/VehicleUtils.cpp\<close>: decoding of property
  identifiers, area configuration lookup, validation of a property value against its
  configuration, and rounding to a client's resolution.
\<close>

section \<open>Bit fields of a property identifier\<close>

definition TYPE_MASK :: int32 where "TYPE_MASK = 0x00ff0000"
definition GROUP_MASK :: int32 where "GROUP_MASK = 0xf0000000"
definition AREA_MASK :: int32 where "AREA_MASK = 0x0f000000"

definition getPropType :: "int32 \<Rightarrow> VehiclePropertyType" where
  "getPropType prop = (let t = prop AND TYPE_MASK in
     if t = 0x00100000 then T_STRING else if t = 0x00200000 then T_BOOLEAN
     else if t = 0x00400000 then T_INT32 else if t = 0x00410000 then T_INT32_VEC
     else if t = 0x00500000 then T_INT64 else if t = 0x00510000 then T_INT64_VEC
     else if t = 0x00600000 then T_FLOAT else if t = 0x00610000 then T_FLOAT_VEC
     else if t = 0x00700000 then T_BYTES else if t = 0x00e00000 then T_MIXED
     else T_UNKNOWN t)"

definition getPropGroup :: "int32 \<Rightarrow> VehiclePropertyGroup" where
  "getPropGroup prop = (let g = prop AND GROUP_MASK in
     if g = 0x10000000 then SYSTEM else if g = 0x20000000 then VENDOR
     else if g = 0x30000000 then BACKPORTED else GROUP_UNKNOWN g)"

definition getPropArea :: "int32 \<Rightarrow> VehicleArea" where
  "getPropArea prop = (let a = prop AND AREA_MASK in
     if a = 0x01000000 then AREA_GLOBAL else if a = 0x03000000 then AREA_WINDOW
     else if a = 0x04000000 then AREA_MIRROR else if a = 0x05000000 then AREA_SEAT
     else if a = 0x06000000 then AREA_DOOR else if a = 0x07000000 then AREA_WHEEL
     else if a = 0x08000000 then AREA_VENDOR else AREA_UNKNOWN a)"

definition isGlobalProp :: "int32 \<Rightarrow> bool" where
  "isGlobalProp prop \<longleftrightarrow> getPropArea prop = AREA_GLOBAL"

definition isSystemProp :: "int32 \<Rightarrow> bool" where
  "isSystemProp prop \<longleftrightarrow> SYSTEM = getPropGroup prop"

text \<open>The three fields share no bit, so changing one leaves the others as they were.\<close>

lemma masks_disjoint:
  "TYPE_MASK AND GROUP_MASK = 0" "TYPE_MASK AND AREA_MASK = 0" "GROUP_MASK AND AREA_MASK = 0"
  by (simp_all add: TYPE_MASK_def GROUP_MASK_def AREA_MASK_def)

lemma and_disjoint_masks:
  fixes m n x g :: "'a :: len word"
  assumes "m AND n = 0"
  shows "((x AND NOT m) OR (g AND m)) AND n = x AND n"
proof (rule bit_word_eqI)
  fix k assume "k < LENGTH('a)"
  moreover have "\<not> (bit m k \<and> bit n k)"
    using arg_cong [OF assms, of "\<lambda>w. bit w k"] by (simp add: bit_and_iff)
  ultimately show "bit (((x AND NOT m) OR (g AND m)) AND n) k = bit (x AND n) k"
    by (auto simp: bit_simps)
qed

section \<open>Area configurations\<close>

definition getAreaConfig :: "int32 \<Rightarrow> int32 \<Rightarrow> VehiclePropConfig \<Rightarrow> VehicleAreaConfig option" where
  "getAreaConfig pId aId config =
     (if length (pc_areaConfigs config) = 0 then None
      else if isGlobalProp pId then Some (pc_areaConfigs config ! 0)
      else find (\<lambda>c. ac_areaId c = aId) (pc_areaConfigs config))"

definition getAreaConfigForValue ::
  "VehiclePropValue \<Rightarrow> VehiclePropConfig \<Rightarrow> VehicleAreaConfig option" where
  "getAreaConfigForValue v config = getAreaConfig (pv_prop v) (pv_areaId v) config"

lemma getAreaConfig_Some:
  "getAreaConfig p a cfg = Some c \<Longrightarrow> c \<in> set (pc_areaConfigs cfg) \<and> (isGlobalProp p \<or> ac_areaId c = a)"
  by (auto simp: getAreaConfig_def find_Some_iff split: if_splits)

lemma getAreaConfig_None:
  "getAreaConfig p a cfg = None \<longleftrightarrow>
     pc_areaConfigs cfg = [] \<or> \<not> isGlobalProp p \<and> a \<notin> ac_areaId ` set (pc_areaConfigs cfg)"
  by (auto simp: getAreaConfig_def find_None_iff)

section \<open>Creating and measuring values\<close>

definition resize :: "nat \<Rightarrow> 'a \<Rightarrow> 'a list \<Rightarrow> 'a list" where
  "resize n d xs = take n xs @ replicate (n - length xs) d"

definition createVehiclePropValueVec :: "VehiclePropertyType \<Rightarrow> nat \<Rightarrow> VehiclePropValue" where
  "createVehiclePropValueVec ty vecSize =
     \<lparr>pv_timestamp = 0, pv_areaId = 0, pv_prop = 0, pv_status = AVAILABLE,
      pv_value = (case ty of
          T_INT32 \<Rightarrow> raw_default\<lparr>int32Values := resize 1 0 []\<rparr>
        | T_BOOLEAN \<Rightarrow> raw_default\<lparr>int32Values := resize 1 0 []\<rparr>
        | T_INT32_VEC \<Rightarrow> raw_default\<lparr>int32Values := resize vecSize 0 []\<rparr>
        | T_FLOAT \<Rightarrow> raw_default\<lparr>floatValues := resize 1 (FFin 0) []\<rparr>
        | T_FLOAT_VEC \<Rightarrow> raw_default\<lparr>floatValues := resize vecSize (FFin 0) []\<rparr>
        | T_INT64 \<Rightarrow> raw_default\<lparr>int64Values := resize 1 0 []\<rparr>
        | T_INT64_VEC \<Rightarrow> raw_default\<lparr>int64Values := resize vecSize 0 []\<rparr>
        | T_BYTES \<Rightarrow> raw_default\<lparr>byteValues := resize vecSize 0 []\<rparr>
        | T_STRING \<Rightarrow> raw_default | T_MIXED \<Rightarrow> raw_default
        | T_UNKNOWN _ \<Rightarrow> raw_default)\<rparr>"

definition createVehiclePropValue :: "VehiclePropertyType \<Rightarrow> VehiclePropValue" where
  "createVehiclePropValue ty = createVehiclePropValueVec ty 1"

definition getVehicleRawValueVectorSize :: "RawPropValues \<Rightarrow> VehiclePropertyType \<Rightarrow> nat" where
  "getVehicleRawValueVectorSize v ty = (case ty of
       T_INT32 \<Rightarrow> min (length (int32Values v)) 1
     | T_BOOLEAN \<Rightarrow> min (length (int32Values v)) 1
     | T_FLOAT \<Rightarrow> min (length (floatValues v)) 1
     | T_INT64 \<Rightarrow> min (length (int64Values v)) 1
     | T_INT32_VEC \<Rightarrow> length (int32Values v)
     | T_FLOAT_VEC \<Rightarrow> length (floatValues v)
     | T_INT64_VEC \<Rightarrow> length (int64Values v)
     | T_BYTES \<Rightarrow> length (byteValues v)
     | T_STRING \<Rightarrow> 0 | T_MIXED \<Rightarrow> 0 | T_UNKNOWN _ \<Rightarrow> 0)"

definition copyVehicleRawValue :: "RawPropValues \<Rightarrow> RawPropValues \<Rightarrow> RawPropValues" where
  "copyVehicleRawValue dest src = dest\<lparr>int32Values := int32Values src, floatValues := floatValues src,
     int64Values := int64Values src, byteValues := byteValues src, stringValue := stringValue src\<rparr>"

text \<open>The \<^verbatim>\<open>sizeof\<close> terms are 8 for the timestamp and 4 for each of area, property and status.\<close>

definition getVehiclePropValueSize :: "VehiclePropValue \<Rightarrow> nat" where
  "getVehiclePropValueSize p = 8 + 4 + 4 + 4 + length (int32Values (pv_value p)) * 4 +
     length (int64Values (pv_value p)) * 8 + length (floatValues (pv_value p)) * 4 +
     length (byteValues (pv_value p)) * 1 + length (stringValue (pv_value p))"

section \<open>Validation against the configuration\<close>

text \<open>
  The reason of a \<^verbatim>\<open>Result<void>\<close> error. Reading \<^verbatim>\<open>configArray\<close> past its end is undefined behaviour of
  the C++ code; the model makes that the outcome \<open>None\<close>.
\<close>

datatype CheckError =
    ExpectOne VehiclePropertyType | ExpectAtLeastOne VehiclePropertyType
  | MixedInt32 nat nat | MixedInt64 nat nat | MixedFloat nat nat | MixedByte nat nat
  | UnknownType int32 | Int32OutOfRange int | Int64OutOfRange int | FloatOutOfRange fp

text \<open>\<^verbatim>\<open>static_cast<size_t>\<close> of an \<^verbatim>\<open>int32_t\<close> and the 64-bit additions wrap around.\<close>

definition to_size_t :: "int \<Rightarrow> nat" where
  "to_size_t i = nat (i mod 2 ^ 64)"

definition size_add :: "nat \<Rightarrow> nat \<Rightarrow> nat" where
  "size_add a b = (a + b) mod 2 ^ 64"

definition checkVendorMixedPropValue ::
  "VehiclePropValue \<Rightarrow> VehiclePropConfig \<Rightarrow> (CheckError + unit) option" where
  "checkVendorMixedPropValue v config =
     (let ca = pc_configArray config; val = pv_value v;
          int32Count = size_add ((if ca ! 1 = 1 then 1 else 0) + (if ca ! 2 = 1 then 1 else 0))
                                (to_size_t (ca ! 3));
          int64Count = size_add (if ca ! 4 = 1 then 1 else 0) (to_size_t (ca ! 5));
          floatCount = size_add (if ca ! 6 = 1 then 1 else 0) (to_size_t (ca ! 7));
          byteCount = to_size_t (ca ! 8)
      in if length ca < 4 then None
         else if length (int32Values val) \<noteq> int32Count
           then Some (Inl (MixedInt32 (length (int32Values val)) int32Count))
         else if length ca < 6 then None
         else if length (int64Values val) \<noteq> int64Count
           then Some (Inl (MixedInt64 (length (int64Values val)) int64Count))
         else if length ca < 8 then None
         else if length (floatValues val) \<noteq> floatCount
           then Some (Inl (MixedFloat (length (floatValues val)) floatCount))
         else if length ca < 9 then None
         else if byteCount \<noteq> 0 \<and> length (byteValues val) \<noteq> byteCount
           then Some (Inl (MixedByte (length (byteValues val)) byteCount))
         else Some (Inr ()))"

definition checkPropValue ::
  "VehiclePropValue \<Rightarrow> VehiclePropConfig \<Rightarrow> (CheckError + unit) option" where
  "checkPropValue v config =
     (let ty = getPropType (pv_prop v); val = pv_value v in
      case ty of
        T_BOOLEAN \<Rightarrow> Some (if length (int32Values val) \<noteq> 1 then Inl (ExpectOne ty) else Inr ())
      | T_INT32 \<Rightarrow> Some (if length (int32Values val) \<noteq> 1 then Inl (ExpectOne ty) else Inr ())
      | T_INT32_VEC \<Rightarrow>
          Some (if length (int32Values val) < 1 then Inl (ExpectAtLeastOne ty) else Inr ())
      | T_INT64 \<Rightarrow> Some (if length (int64Values val) \<noteq> 1 then Inl (ExpectOne ty) else Inr ())
      | T_INT64_VEC \<Rightarrow>
          Some (if length (int64Values val) < 1 then Inl (ExpectAtLeastOne ty) else Inr ())
      | T_FLOAT \<Rightarrow> Some (if length (floatValues val) \<noteq> 1 then Inl (ExpectOne ty) else Inr ())
      | T_FLOAT_VEC \<Rightarrow>
          Some (if length (floatValues val) < 1 then Inl (ExpectAtLeastOne ty) else Inr ())
      | T_BYTES \<Rightarrow> Some (Inr ())
      | T_STRING \<Rightarrow> Some (Inr ())
      | T_MIXED \<Rightarrow>
          (if getPropGroup (pv_prop v) = VENDOR then checkVendorMixedPropValue v config
           else Some (Inr ()))
      | T_UNKNOWN t \<Rightarrow> Some (Inl (UnknownType t)))"

fun first_outside :: "('a \<Rightarrow> bool) \<Rightarrow> ('a \<Rightarrow> CheckError) \<Rightarrow> 'a list \<Rightarrow> CheckError + unit" where
  "first_outside bad err [] = Inr ()"
| "first_outside bad err (x # xs) = (if bad x then Inl (err x) else first_outside bad err xs)"

definition checkInt32Range :: "int list \<Rightarrow> VehicleAreaConfig \<Rightarrow> CheckError + unit" where
  "checkInt32Range xs ac =
     (if ac_minInt32Value ac = 0 \<and> ac_maxInt32Value ac = 0 then Inr ()
      else first_outside (\<lambda>i. i < ac_minInt32Value ac \<or> i > ac_maxInt32Value ac) Int32OutOfRange xs)"

definition checkInt64Range :: "int list \<Rightarrow> VehicleAreaConfig \<Rightarrow> CheckError + unit" where
  "checkInt64Range xs ac =
     (if ac_minInt64Value ac = 0 \<and> ac_maxInt64Value ac = 0 then Inr ()
      else first_outside (\<lambda>i. i < ac_minInt64Value ac \<or> i > ac_maxInt64Value ac) Int64OutOfRange xs)"

definition checkFloatRange :: "fp list \<Rightarrow> VehicleAreaConfig \<Rightarrow> CheckError + unit" where
  "checkFloatRange xs ac =
     (if fp_eq (ac_minFloatValue ac) (FFin 0) \<and> fp_eq (ac_maxFloatValue ac) (FFin 0) then Inr ()
      else first_outside (\<lambda>f. fp_lt f (ac_minFloatValue ac) \<or> fp_lt (ac_maxFloatValue ac) f)
             FloatOutOfRange xs)"

definition checkValueRange ::
  "VehiclePropValue \<Rightarrow> VehicleAreaConfig option \<Rightarrow> CheckError + unit" where
  "checkValueRange v areaConfig = (case areaConfig of None \<Rightarrow> Inr () | Some ac \<Rightarrow>
     (case getPropType (pv_prop v) of
        T_INT32 \<Rightarrow> checkInt32Range (int32Values (pv_value v)) ac
      | T_INT32_VEC \<Rightarrow> checkInt32Range (int32Values (pv_value v)) ac
      | T_INT64 \<Rightarrow> checkInt64Range (int64Values (pv_value v)) ac
      | T_INT64_VEC \<Rightarrow> checkInt64Range (int64Values (pv_value v)) ac
      | T_FLOAT \<Rightarrow> checkFloatRange (floatValues (pv_value v)) ac
      | T_FLOAT_VEC \<Rightarrow> checkFloatRange (floatValues (pv_value v)) ac
      | _ \<Rightarrow> Inr ()))"

lemma first_outside_ok: "first_outside bad err xs = Inr () \<longleftrightarrow> (\<forall>x \<in> set xs. \<not> bad x)"
  by (induction xs) auto

lemma first_outside_error:
  "first_outside bad err xs = Inl e \<Longrightarrow> \<exists>x \<in> set xs. bad x \<and> e = err x"
  by (induction xs) (auto split: if_splits)

section \<open>Rounding to a resolution\<close>

text \<open>
  \<^verbatim>\<open>(T)((std::round(x / resolution)) * resolution)\<close> in single precision: an integer operand is first
  converted to \<^verbatim>\<open>float\<close>, and the final cast of an unrepresentable value is undefined (\<open>None\<close>).
\<close>

definition round_element :: "fp \<Rightarrow> fp \<Rightarrow> fp" where
  "round_element x resolution = fp_mul binary32 (fp_round (fp_div binary32 x resolution)) resolution"

definition round_int :: "nat \<Rightarrow> fp \<Rightarrow> int \<Rightarrow> int option" where
  "round_int w resolution i = fp_to_int w (round_element (fp_of_int binary32 i) resolution)"

fun all_Some :: "'a option list \<Rightarrow> 'a list option" where
  "all_Some [] = Some []"
| "all_Some (None # xs) = None"
| "all_Some (Some x # xs) = map_option ((#) x) (all_Some xs)"

definition roundIntsToNearestResolution :: "nat \<Rightarrow> int list \<Rightarrow> fp \<Rightarrow> int list option" where
  "roundIntsToNearestResolution w xs resolution =
     (if fp_eq resolution (FFin 0) then Some xs else all_Some (map (round_int w resolution) xs))"

definition roundFloatsToNearestResolution :: "fp list \<Rightarrow> fp \<Rightarrow> fp list" where
  "roundFloatsToNearestResolution xs resolution =
     (if fp_eq resolution (FFin 0) then xs else map (\<lambda>x. round_element x resolution) xs)"

definition sanitizeByResolution :: "RawPropValues \<Rightarrow> fp \<Rightarrow> RawPropValues option" where
  "sanitizeByResolution v resolution =
     (case roundIntsToNearestResolution 32 (int32Values v) resolution of None \<Rightarrow> None
      | Some i32 \<Rightarrow>
     (case roundIntsToNearestResolution 64 (int64Values v) resolution of None \<Rightarrow> None
      | Some i64 \<Rightarrow> Some (v\<lparr>int32Values := i32,
          floatValues := roundFloatsToNearestResolution (floatValues v) resolution,
          int64Values := i64\<rparr>)))"

lemma all_Some_map: "(\<And>x. x \<in> set xs \<Longrightarrow> f x = Some (g x)) \<Longrightarrow> all_Some (map f xs) = Some (map g xs)"
  by (induction xs) auto

lemma all_Some_length: "all_Some xs = Some ys \<Longrightarrow> length ys = length xs"
  by (induction xs arbitrary: ys rule: all_Some.induct) auto

lemma sanitize_zero [simp]: "sanitizeByResolution v (FFin 0) = Some v"
  by (simp add: sanitizeByResolution_def roundIntsToNearestResolution_def
      roundFloatsToNearestResolution_def)

lemma sanitize_shape:
  "sanitizeByResolution v r = Some v' \<Longrightarrow>
     length (int32Values v') = length (int32Values v) \<and>
     length (floatValues v') = length (floatValues v) \<and>
     length (int64Values v') = length (int64Values v) \<and>
     byteValues v' = byteValues v \<and> stringValue v' = stringValue v"
  by (auto simp: sanitizeByResolution_def roundIntsToNearestResolution_def
      roundFloatsToNearestResolution_def dest: all_Some_length split: option.splits if_splits)

lemma round_int_one:
  assumes "\<bar>i\<bar> < 2 ^ 24" "26 \<le> w"
  shows "round_int w (FFin 1) i = Some i"
proof -
  have f: "fp_of_int binary32 i = FFin (of_int i)" using assms(1) by (rule fp_of_int_binary32)
  have d: "fl binary32 (of_int i) = FFin (of_int i)"
    using f by (simp add: fp_of_int_def)
  have b: "(2::int) ^ 25 \<le> 2 ^ (w - 1)" using assms(2) by (intro power_increasing) auto
  have "fp_to_int w (FFin (of_int i)) = Some i"
    by (rule fp_to_int_of_int) (use assms(1) b in auto)
  moreover have "fp_round (fp_div binary32 (FFin (of_int i)) (FFin 1)) = FFin (of_int i)"
    by (simp add: d del: fp_round.simps)
  ultimately show ?thesis by (simp add: round_int_def round_element_def f d)
qed

end
