(* ===== verification/Hardware_Interface.thy ===== *)
theory Hardware_Interface
  imports Vehicle_Utils
begin

text \<open>
  \<^verbatim>\<open>hardware/include/IVehicleHardware.h\<close>: the interface between the vehicle HAL and a hardware. A hardware
  is a record of operations on a state of type \<open>'h\<close>; the default implementations of the interface are
  the \<open>default_\<close> definitions. The callbacks a caller passes are identities (\<open>nat\<close>), because the hardware
  calls them later: what it calls them with is part of the operations of the implementation.

  The locale \<open>vehicle_hardware\<close> states what the subscription manager relies on.
\<close>

section \<open>Requests and results\<close>

record GetValueRequest =
  gr_requestId :: int
  gr_prop :: VehiclePropValue

record SetValueRequest =
  sr_requestId :: int
  sr_value :: VehiclePropValue

record GetValueResult =
  gres_requestId :: int
  gres_status :: StatusCode
  gres_prop :: "VehiclePropValue option"

record SetValueResult =
  sres_requestId :: int
  sres_status :: StatusCode

record SetValueErrorEvent =
  ev_errorCode :: StatusCode
  ev_propId :: int32
  ev_areaId :: int32

record MinMaxSupportedValueResult =
  mm_status :: StatusCode
  mm_minSupportedValue :: "RawPropValues option"
  mm_maxSupportedValue :: "RawPropValues option"

record SupportedValuesListResult =
  svl_status :: StatusCode
  svl_supportedValuesList :: "RawPropValues list option"

section \<open>The interface\<close>

record 'h VehicleHardware =
  hw_getAllPropertyConfigs :: "'h \<Rightarrow> VehiclePropConfig list"
  hw_getPropertyConfig :: "'h \<Rightarrow> int32 \<Rightarrow> VehiclePropConfig option"
  hw_setValues :: "nat \<Rightarrow> SetValueRequest list \<Rightarrow> 'h \<Rightarrow> StatusCode \<times> 'h"
  hw_getValues :: "nat \<Rightarrow> GetValueRequest list \<Rightarrow> 'h \<Rightarrow> StatusCode \<times> 'h"
  hw_checkHealth :: "'h \<Rightarrow> StatusCode"
  hw_subscribe :: "SubscribeOptions \<Rightarrow> 'h \<Rightarrow> StatusCode \<times> 'h"
  hw_unsubscribe :: "int32 \<Rightarrow> int32 \<Rightarrow> 'h \<Rightarrow> StatusCode \<times> 'h"
  hw_updateSampleRate :: "int32 \<Rightarrow> int32 \<Rightarrow> fp \<Rightarrow> 'h \<Rightarrow> StatusCode \<times> 'h"
  hw_getMinMaxSupportedValues :: "PropIdAreaId list \<Rightarrow> 'h \<Rightarrow> MinMaxSupportedValueResult list"
  hw_getSupportedValuesLists :: "PropIdAreaId list \<Rightarrow> 'h \<Rightarrow> SupportedValuesListResult list"
  hw_subscribeSupportedValueChange :: "PropIdAreaId list \<Rightarrow> 'h \<Rightarrow> StatusCode \<times> 'h"
  hw_unsubscribeSupportedValueChange :: "PropIdAreaId list \<Rightarrow> 'h \<Rightarrow> StatusCode \<times> 'h"

definition default_getPropertyConfig ::
  "('h \<Rightarrow> VehiclePropConfig list) \<Rightarrow> 'h \<Rightarrow> int32 \<Rightarrow> VehiclePropConfig option" where
  "default_getPropertyConfig getAll h p = find (\<lambda>config. pc_prop config = p) (getAll h)"

definition default_subscribe :: "SubscribeOptions \<Rightarrow> 'h \<Rightarrow> StatusCode \<times> 'h" where
  "default_subscribe options h = (OK, h)"

definition default_unsubscribe :: "int32 \<Rightarrow> int32 \<Rightarrow> 'h \<Rightarrow> StatusCode \<times> 'h" where
  "default_unsubscribe p a h = (OK, h)"

definition default_updateSampleRate :: "int32 \<Rightarrow> int32 \<Rightarrow> fp \<Rightarrow> 'h \<Rightarrow> StatusCode \<times> 'h" where
  "default_updateSampleRate p a sampleRate h = (OK, h)"

definition default_getMinMaxSupportedValues ::
  "PropIdAreaId list \<Rightarrow> 'h \<Rightarrow> MinMaxSupportedValueResult list" where
  "default_getMinMaxSupportedValues ks h = []"

definition default_getSupportedValuesLists ::
  "PropIdAreaId list \<Rightarrow> 'h \<Rightarrow> SupportedValuesListResult list" where
  "default_getSupportedValuesLists ks h = []"

definition default_subscribeSupportedValueChange :: "PropIdAreaId list \<Rightarrow> 'h \<Rightarrow> StatusCode \<times> 'h" where
  "default_subscribeSupportedValueChange ks h = (OK, h)"

definition default_unsubscribeSupportedValueChange :: "PropIdAreaId list \<Rightarrow> 'h \<Rightarrow> StatusCode \<times> 'h" where
  "default_unsubscribeSupportedValueChange ks h = (OK, h)"

section \<open>The contract\<close>

text \<open>
  \<open>delivers h k\<close>: the hardware reports the events of \<open>k\<close>. \<open>subscribable h p\<close>: the hardware knows the
  property and it is not static. Subscribing one area either starts its events or fails and leaves
  everything as it was, and changing the positive rate of an area that is delivered does not fail; unsubscribing always succeeds and stops the events of that area only; a
  sample rate update starts and stops nothing.
\<close>

locale vehicle_hardware =
  fixes hw :: "'h VehicleHardware"
    and delivers :: "'h \<Rightarrow> PropIdAreaId \<Rightarrow> bool"
    and subscribable :: "'h \<Rightarrow> int32 \<Rightarrow> bool"
    and hw_ok :: "'h \<Rightarrow> bool"
  assumes subscribe_ok: "hw_ok h \<Longrightarrow> so_areaIds options = [a] \<Longrightarrow> subscribable h (so_propId options) \<Longrightarrow>
      fst (hw_subscribe hw options h) = OK \<Longrightarrow>
      delivers (snd (hw_subscribe hw options h)) k \<longleftrightarrow> k = PropIdAreaId (so_propId options) a \<or> delivers h k"
    and subscribe_fails: "hw_ok h \<Longrightarrow> so_areaIds options = [a] \<Longrightarrow>
      fst (hw_subscribe hw options h) \<noteq> OK \<Longrightarrow> delivers (snd (hw_subscribe hw options h)) k \<longleftrightarrow> delivers h k"
    and subscribe_again: "hw_ok h \<Longrightarrow> so_areaIds options = [a] \<Longrightarrow> subscribable h (so_propId options) \<Longrightarrow>
      delivers h (PropIdAreaId (so_propId options) a) \<Longrightarrow> \<not> fp_eq (so_sampleRate options) (FFin 0) \<Longrightarrow>
      fst (hw_subscribe hw options h) = OK"
    and unsubscribe_ok: "hw_ok h \<Longrightarrow> fst (hw_unsubscribe hw p a h) = OK"
    and unsubscribe_delivers: "hw_ok h \<Longrightarrow>
      delivers (snd (hw_unsubscribe hw p a h)) k \<longleftrightarrow> delivers h k \<and> k \<noteq> PropIdAreaId p a"
    and update_ok: "hw_ok h \<Longrightarrow> fst (hw_updateSampleRate hw p a r h) = OK"
    and update_delivers: "hw_ok h \<Longrightarrow> delivers (snd (hw_updateSampleRate hw p a r h)) k \<longleftrightarrow> delivers h k"
    and hw_ok_subscribe: "hw_ok h \<Longrightarrow> hw_ok (snd (hw_subscribe hw options h))"
    and hw_ok_unsubscribe: "hw_ok h \<Longrightarrow> hw_ok (snd (hw_unsubscribe hw p a h))"
    and hw_ok_update: "hw_ok h \<Longrightarrow> hw_ok (snd (hw_updateSampleRate hw p a r h))"
    and subscribable_subscribe: "hw_ok h \<Longrightarrow>
      subscribable (snd (hw_subscribe hw options h)) q = subscribable h q"
    and subscribable_unsubscribe: "hw_ok h \<Longrightarrow>
      subscribable (snd (hw_unsubscribe hw p a h)) q = subscribable h q"
    and subscribable_update: "hw_ok h \<Longrightarrow>
      subscribable (snd (hw_updateSampleRate hw p a r h)) q = subscribable h q"
    and supported_value_ops: "hw_ok h \<Longrightarrow>
      f = hw_subscribeSupportedValueChange hw ks \<or> f = hw_unsubscribeSupportedValueChange hw ks \<Longrightarrow>
      hw_ok (snd (f h)) \<and> subscribable (snd (f h)) = subscribable h \<and> delivers (snd (f h)) = delivers h"
begin

lemmas hw_ok_ops = hw_ok_subscribe hw_ok_unsubscribe hw_ok_update
lemmas subscribable_ops = subscribable_subscribe subscribable_unsubscribe subscribable_update

end

end
