(* ===== verification/Subscription_Manager.thy ===== *)
theory Subscription_Manager
  imports Hardware_Interface
begin

text \<open>
  \<^verbatim>\<open>vhal/SubscriptionManager\<close>: which client is subscribed to which [propId, areaId], the combined
  configuration the hardware is asked for, and the routing of hardware events to the clients.

  The manager is a record that holds the state of the hardware it drives, since its operations call
  the hardware in the middle of their work. A client is the address of its binder, a callback the
  pair of its \<^verbatim>\<open>shared_ptr\<close> and its binder. \<open>log10f\<close> is \<^verbatim>\<open>std::log10\<close> on \<^verbatim>\<open>float\<close>.
\<close>

section \<open>State\<close>

type_synonym ClientIdType = nat

record VehicleCallback =
  cbPtr :: nat
  cbBinder :: ClientIdType

record SubConfig =
  sc_sampleRateHz :: fp
  sc_resolution :: fp
  sc_enableVur :: bool

record ContSubConfigs =
  mMaxSampleRateHz :: fp
  mMinRequiredResolution :: fp
  mEnableVur :: bool
  mConfigByClient :: "(ClientIdType, SubConfig) umap"

record 'h SubscriptionManager =
  mVehicleHardware :: 'h
  mClientsByPropIdAreaId :: "(PropIdAreaId, (ClientIdType, VehicleCallback) umap) umap"
  mSubscribedPropsByClient :: "(ClientIdType, PropIdAreaId uset) umap"
  mContSubConfigsByPropIdArea :: "(PropIdAreaId, ContSubConfigs) umap"
  mContSubValuesByCallback :: "(VehicleCallback, VehiclePropValue list) umap"
  mSupportedValueChangeClientsByPropIdAreaId ::
    "(PropIdAreaId, (ClientIdType, VehicleCallback) umap) umap"
  mSupportedValueChangePropIdAreaIdsByClient :: "(ClientIdType, PropIdAreaId uset) umap"

text \<open>\<^verbatim>\<open>std::numeric_limits<float>::max()\<close>, and a value-initialised \<^verbatim>\<open>ContSubConfigs\<close>.\<close>

definition FLT_MAX :: fp where
  "FLT_MAX = FFin ((2 ^ 24 - 1) * 2 ^ 104)"

definition emptyContSubConfigs :: ContSubConfigs where
  "emptyContSubConfigs = \<lparr>mMaxSampleRateHz = FFin 0, mMinRequiredResolution = FLT_MAX,
     mEnableVur = False, mConfigByClient = []\<rparr>"

definition newSubscriptionManager :: "'h \<Rightarrow> 'h SubscriptionManager" where
  "newSubscriptionManager h = \<lparr>mVehicleHardware = h, mClientsByPropIdAreaId = [],
     mSubscribedPropsByClient = [], mContSubConfigsByPropIdArea = [], mContSubValuesByCallback = [],
     mSupportedValueChangeClientsByPropIdAreaId = [],
     mSupportedValueChangePropIdAreaIdsByClient = []\<rparr>"

section \<open>Checking subscribe options\<close>

definition EPSILON :: fp where "EPSILON = fl binary32 (1 / 10000000)"
definition ONE_SECOND_IN_NANOS :: fp where "ONE_SECOND_IN_NANOS = fl binary32 1000000000"

text \<open>
  \<open>Inl ()\<close> is the error. \<open>Inr None\<close> is a success whose interval is the value of an undefined cast: a
  NaN rate passes both comparisons.
\<close>

definition getIntervalNanos :: "fp \<Rightarrow> unit + int option" where
  "getIntervalNanos sampleRateHz =
     (if fp_le sampleRateHz (FFin 0) then Inl ()
      else if fp_le sampleRateHz
                (fp_div binary32 ONE_SECOND_IN_NANOS (fp_of_int binary32 (2 ^ 63 - 1))) then Inl ()
      else Inr (fp_to_int 64 (fp_div binary32 ONE_SECOND_IN_NANOS sampleRateHz)))"

definition checkSampleRateHz :: "fp \<Rightarrow> bool" where
  "checkSampleRateHz sampleRateHz = (case getIntervalNanos sampleRateHz of Inl _ \<Rightarrow> False | Inr _ \<Rightarrow> True)"

definition checkResolution :: "(fp \<Rightarrow> fp) \<Rightarrow> fp \<Rightarrow> bool" where
  "checkResolution log10f resolution =
     (if fp_eq resolution (FFin 0) then True
      else let log = log10f resolution in fp_lt (fp_abs (fp_sub binary32 log (fp_round log))) EPSILON)"

definition newSubscribeOptions :: "int32 \<Rightarrow> int32 \<Rightarrow> fp \<Rightarrow> fp \<Rightarrow> bool \<Rightarrow> SubscribeOptions" where
  "newSubscribeOptions p a sampleRateHz resolution enableVur =
     \<lparr>so_propId = p, so_areaIds = [a], so_sampleRate = sampleRateHz, so_resolution = resolution,
      so_enableVariableUpdateRate = enableVur\<rparr>"

section \<open>Combined configuration of a continuous property\<close>

definition combineStep :: "SubConfig \<Rightarrow> fp \<times> fp \<times> bool \<Rightarrow> fp \<times> fp \<times> bool" where
  "combineStep c acc = (let (rate, res, vur) = acc in
     (if fp_lt rate (sc_sampleRateHz c) then sc_sampleRateHz c else rate,
      if fp_lt (sc_resolution c) res then sc_resolution c else res,
      if \<not> sc_enableVur c then False else vur))"

definition refreshCombinedConfig :: "ContSubConfigs \<Rightarrow> ContSubConfigs" where
  "refreshCombinedConfig cfg =
     (let (rate, res, vur) = fold combineStep (map snd (mConfigByClient cfg)) (FFin 0, FLT_MAX, True) in
      cfg\<lparr>mMaxSampleRateHz := rate, mMinRequiredResolution := res, mEnableVur := vur\<rparr>)"

definition addClient :: "ClientIdType \<Rightarrow> SubConfig \<Rightarrow> ContSubConfigs \<Rightarrow> ContSubConfigs" where
  "addClient clientId subConfig cfg =
     refreshCombinedConfig (cfg\<lparr>mConfigByClient := umap_put clientId subConfig (mConfigByClient cfg)\<rparr>)"

definition removeClient :: "ClientIdType \<Rightarrow> ContSubConfigs \<Rightarrow> ContSubConfigs" where
  "removeClient clientId cfg =
     refreshCombinedConfig (cfg\<lparr>mConfigByClient := umap_erase clientId (mConfigByClient cfg)\<rparr>)"

definition isVurEnabledForClient :: "ClientIdType \<Rightarrow> ContSubConfigs \<Rightarrow> bool" where
  "isVurEnabledForClient clientId cfg =
     (case map_of (mConfigByClient cfg) clientId of None \<Rightarrow> False | Some c \<Rightarrow> sc_enableVur c)"

definition getResolutionForClient :: "ClientIdType \<Rightarrow> ContSubConfigs \<Rightarrow> fp" where
  "getResolutionForClient clientId cfg =
     (case map_of (mConfigByClient cfg) clientId of None \<Rightarrow> FFin 0 | Some c \<Rightarrow> sc_resolution c)"

section \<open>Subscribing\<close>

text \<open>A call of a hardware operation: a status other than \<open>OK\<close> is returned as the error.\<close>

definition callHardware ::
  "('h \<Rightarrow> StatusCode \<times> 'h) \<Rightarrow> 'h SubscriptionManager \<Rightarrow> unit VhalResult \<times> 'h SubscriptionManager" where
  "callHardware f sm = (case f (mVehicleHardware sm) of (status, h) \<Rightarrow>
     (if status \<noteq> OK then Inl status else Inr (), sm\<lparr>mVehicleHardware := h\<rparr>))"

definition putContConfig ::
  "PropIdAreaId \<Rightarrow> ContSubConfigs \<Rightarrow> 'h SubscriptionManager \<Rightarrow> 'h SubscriptionManager" where
  "putContConfig k cfg sm =
     sm\<lparr>mContSubConfigsByPropIdArea := umap_put k cfg (mContSubConfigsByPropIdArea sm)\<rparr>"

definition touchContConfig :: "PropIdAreaId \<Rightarrow> 'h SubscriptionManager \<Rightarrow> 'h SubscriptionManager" where
  "touchContConfig k sm = sm\<lparr>mContSubConfigsByPropIdArea :=
     umap_touch emptyContSubConfigs k (mContSubConfigsByPropIdArea sm)\<rparr>"

definition contConfig :: "PropIdAreaId \<Rightarrow> 'h SubscriptionManager \<Rightarrow> ContSubConfigs" where
  "contConfig k sm = umap_at emptyContSubConfigs k (mContSubConfigsByPropIdArea sm)"

definition addOnChangeSubscriberLocked ::
  "'h VehicleHardware \<Rightarrow> PropIdAreaId \<Rightarrow> 'h SubscriptionManager \<Rightarrow>
     unit VhalResult \<times> 'h SubscriptionManager" where
  "addOnChangeSubscriberLocked hw k sm =
     (if map_of (mClientsByPropIdAreaId sm) k \<noteq> None then (Inr (), sm)
      else callHardware (hw_subscribe hw
             (newSubscribeOptions (propId k) (areaId k) (FFin 0) (FFin 0) False)) sm)"

definition updateContSubConfigsLocked ::
  "'h VehicleHardware \<Rightarrow> PropIdAreaId \<Rightarrow> ContSubConfigs \<Rightarrow> 'h SubscriptionManager \<Rightarrow>
     unit VhalResult \<times> 'h SubscriptionManager" where
  "updateContSubConfigsLocked hw k newConfig sm0 =
    (let oldConfig = contConfig k sm0; sm = touchContConfig k sm0;
         newRateHz = mMaxSampleRateHz newConfig; oldRateHz = mMaxSampleRateHz oldConfig;
         newResolution = mMinRequiredResolution newConfig;
         oldResolution = mMinRequiredResolution oldConfig in
     if fp_eq newRateHz oldRateHz \<and> fp_eq newResolution oldResolution \<and>
        mEnableVur newConfig = mEnableVur oldConfig
     then (Inr (), putContConfig k newConfig sm)
     else
       bindE
         (\<lambda>sm. if \<not> fp_eq newRateHz oldRateHz
               then callHardware (hw_updateSampleRate hw (propId k) (areaId k) newRateHz) sm
               else (Inr (), sm))
         (\<lambda>_. bindE
           (\<lambda>sm. if \<not> fp_eq newRateHz (FFin 0)
                 then callHardware (hw_subscribe hw (newSubscribeOptions (propId k) (areaId k)
                        newRateHz newResolution (mEnableVur newConfig))) sm
                 else callHardware (hw_unsubscribe hw (propId k) (areaId k)) sm)
           (\<lambda>_ sm. (Inr (), putContConfig k newConfig sm))) sm)"

definition addContinuousSubscriberLocked ::
  "'h VehicleHardware \<Rightarrow> ClientIdType \<Rightarrow> PropIdAreaId \<Rightarrow> fp \<Rightarrow> fp \<Rightarrow> bool \<Rightarrow> 'h SubscriptionManager \<Rightarrow>
     unit VhalResult \<times> 'h SubscriptionManager" where
  "addContinuousSubscriberLocked hw clientId k sampleRateHz resolution enableVur sm =
     updateContSubConfigsLocked hw k
       (addClient clientId \<lparr>sc_sampleRateHz = sampleRateHz, sc_resolution = resolution,
          sc_enableVur = enableVur\<rparr> (contConfig k sm)) (touchContConfig k sm)"

definition removeContinuousSubscriberLocked ::
  "'h VehicleHardware \<Rightarrow> ClientIdType \<Rightarrow> PropIdAreaId \<Rightarrow> 'h SubscriptionManager \<Rightarrow>
     unit VhalResult \<times> 'h SubscriptionManager" where
  "removeContinuousSubscriberLocked hw clientId k sm =
     updateContSubConfigsLocked hw k (removeClient clientId (contConfig k sm)) (touchContConfig k sm)"

definition removeOnChangeSubscriberLocked ::
  "'h VehicleHardware \<Rightarrow> PropIdAreaId \<Rightarrow> 'h SubscriptionManager \<Rightarrow>
     unit VhalResult \<times> 'h SubscriptionManager" where
  "removeOnChangeSubscriberLocked hw k sm0 =
    (let sm = sm0\<lparr>mClientsByPropIdAreaId := umap_touch [] k (mClientsByPropIdAreaId sm0)\<rparr> in
     if length (umap_at [] k (mClientsByPropIdAreaId sm0)) > 1 then (Inr (), sm)
     else callHardware (hw_unsubscribe hw (propId k) (areaId k)) sm)"

definition recordSubscription ::
  "VehicleCallback \<Rightarrow> PropIdAreaId \<Rightarrow> 'h SubscriptionManager \<Rightarrow> 'h SubscriptionManager" where
  "recordSubscription cb k sm = sm\<lparr>
     mSubscribedPropsByClient := umap_put (cbBinder cb)
       (uset_insert k (umap_at [] (cbBinder cb) (mSubscribedPropsByClient sm))) (mSubscribedPropsByClient sm),
     mClientsByPropIdAreaId := umap_put k
       (umap_put (cbBinder cb) cb (umap_at [] k (mClientsByPropIdAreaId sm))) (mClientsByPropIdAreaId sm)\<rparr>"

definition checkOptions :: "(fp \<Rightarrow> fp) \<Rightarrow> SubscribeOptions list \<Rightarrow> bool \<Rightarrow> bool" where
  "checkOptions log10f options isContinuousProperty =
     (\<forall>option \<in> set options.
        (isContinuousProperty \<longrightarrow> checkSampleRateHz (so_sampleRate option) \<and>
           checkResolution log10f (so_resolution option)) \<and>
        so_areaIds option \<noteq> [])"

definition subscribeArea ::
  "'h VehicleHardware \<Rightarrow> VehicleCallback \<Rightarrow> bool \<Rightarrow> SubscribeOptions \<Rightarrow> int32 \<Rightarrow> 'h SubscriptionManager \<Rightarrow>
     unit VhalResult \<times> 'h SubscriptionManager" where
  "subscribeArea hw cb isContinuousProperty option a =
    (let k = PropIdAreaId (so_propId option) a in
     bindE
       (if isContinuousProperty
        then addContinuousSubscriberLocked hw (cbBinder cb) k (so_sampleRate option)
               (so_resolution option) (so_enableVariableUpdateRate option)
        else addOnChangeSubscriberLocked hw k)
       (\<lambda>_ sm. (Inr (), recordSubscription cb k sm)))"

definition subscribe ::
  "(fp \<Rightarrow> fp) \<Rightarrow> 'h VehicleHardware \<Rightarrow> VehicleCallback \<Rightarrow> SubscribeOptions list \<Rightarrow> bool \<Rightarrow>
     'h SubscriptionManager \<Rightarrow> unit VhalResult \<times> 'h SubscriptionManager" where
  "subscribe log10f hw cb options isContinuousProperty sm =
     (if \<not> checkOptions log10f options isContinuousProperty then (Inl INVALID_ARG, sm)
      else forE (\<lambda>option. forE (subscribeArea hw cb isContinuousProperty option) (so_areaIds option))
             options sm)"

section \<open>Unsubscribing\<close>

definition dropClient :: "ClientIdType \<Rightarrow> PropIdAreaId \<Rightarrow> 'h SubscriptionManager \<Rightarrow> 'h SubscriptionManager" where
  "dropClient clientId k sm =
    (let clients = umap_erase clientId (umap_at [] k (mClientsByPropIdAreaId sm));
         sm1 = sm\<lparr>mClientsByPropIdAreaId := umap_put k clients (mClientsByPropIdAreaId sm)\<rparr> in
     if clients = [] then
       sm1\<lparr>mClientsByPropIdAreaId := umap_erase k (mClientsByPropIdAreaId sm1),
           mContSubConfigsByPropIdArea := umap_erase k (mContSubConfigsByPropIdArea sm1)\<rparr>
     else sm1)"

definition unsubscribePropIdAreaIdLocked ::
  "'h VehicleHardware \<Rightarrow> ClientIdType \<Rightarrow> PropIdAreaId \<Rightarrow> 'h SubscriptionManager \<Rightarrow>
     unit VhalResult \<times> 'h SubscriptionManager" where
  "unsubscribePropIdAreaIdLocked hw clientId k sm =
     (if map_of (mContSubConfigsByPropIdArea sm) k \<noteq> None then
        bindE (removeContinuousSubscriberLocked hw clientId k) (\<lambda>_ sm. (Inr (), dropClient clientId k sm)) sm
      else if map_of (mClientsByPropIdAreaId sm) k = None then (Inr (), sm)
      else bindE (removeOnChangeSubscriberLocked hw k) (\<lambda>_ sm. (Inr (), dropClient clientId k sm)) sm)"

text \<open>The two overloads of \<open>unsubscribe\<close>: from some properties, and from everything (below).\<close>

definition eraseSubscribedProp ::
  "ClientIdType \<Rightarrow> PropIdAreaId \<Rightarrow> 'h SubscriptionManager \<Rightarrow> 'h SubscriptionManager" where
  "eraseSubscribedProp clientId k sm = sm\<lparr>mSubscribedPropsByClient := umap_put clientId
     (uset_erase k (umap_at [] clientId (mSubscribedPropsByClient sm))) (mSubscribedPropsByClient sm)\<rparr>"

definition eraseIfEmpty :: "ClientIdType \<Rightarrow> 'h SubscriptionManager \<Rightarrow> 'h SubscriptionManager" where
  "eraseIfEmpty clientId sm =
     (if umap_at [] clientId (mSubscribedPropsByClient sm) = []
      then sm\<lparr>mSubscribedPropsByClient := umap_erase clientId (mSubscribedPropsByClient sm)\<rparr> else sm)"

definition unsubscribeOne ::
  "'h VehicleHardware \<Rightarrow> ClientIdType \<Rightarrow> PropIdAreaId \<Rightarrow> 'h SubscriptionManager \<Rightarrow>
     unit VhalResult \<times> 'h SubscriptionManager" where
  "unsubscribeOne hw clientId k = bindE (unsubscribePropIdAreaIdLocked hw clientId k)
     (\<lambda>_ sm. (Inr (), eraseSubscribedProp clientId k sm))"

definition unsubscribe ::
  "'h VehicleHardware \<Rightarrow> ClientIdType \<Rightarrow> int32 list \<Rightarrow> 'h SubscriptionManager \<Rightarrow>
     unit VhalResult \<times> 'h SubscriptionManager" where
  "unsubscribe hw clientId propIds sm =
    (case map_of (mSubscribedPropsByClient sm) clientId of
       None \<Rightarrow> (Inr (), sm)
     | Some subscribed \<Rightarrow>
       bindE
         (forE (unsubscribeOne hw clientId) (filter (\<lambda>k. propId k \<in> set propIds) subscribed))
         (\<lambda>_ sm. (Inr (), eraseIfEmpty clientId sm)) sm)"

section \<open>Supported value changes\<close>

definition subscribeSupportedValueChange ::
  "'h VehicleHardware \<Rightarrow> VehicleCallback \<Rightarrow> PropIdAreaId list \<Rightarrow> 'h SubscriptionManager \<Rightarrow>
     unit VhalResult \<times> 'h SubscriptionManager" where
  "subscribeSupportedValueChange hw cb ks =
     bindE (callHardware (hw_subscribeSupportedValueChange hw ks))
       (\<lambda>_ sm. (Inr (), fold (\<lambda>k sm. sm\<lparr>
          mSupportedValueChangeClientsByPropIdAreaId := umap_put k
            (umap_put (cbBinder cb) cb (umap_at [] k (mSupportedValueChangeClientsByPropIdAreaId sm)))
            (mSupportedValueChangeClientsByPropIdAreaId sm),
          mSupportedValueChangePropIdAreaIdsByClient := umap_put (cbBinder cb)
            (uset_insert k (umap_at [] (cbBinder cb) (mSupportedValueChangePropIdAreaIdsByClient sm)))
            (mSupportedValueChangePropIdAreaIdsByClient sm)\<rparr>) ks sm))"

definition soleClient :: "ClientIdType \<Rightarrow> 'h SubscriptionManager \<Rightarrow> PropIdAreaId \<Rightarrow> bool" where
  "soleClient clientId sm k = (case map_of (mSupportedValueChangeClientsByPropIdAreaId sm) k of
     None \<Rightarrow> False
   | Some clients \<Rightarrow> length clients = 1 \<and> map_of clients clientId \<noteq> None)"

definition forgetSupportedValueChange ::
  "ClientIdType \<Rightarrow> PropIdAreaId \<Rightarrow> 'h SubscriptionManager \<Rightarrow> 'h SubscriptionManager" where
  "forgetSupportedValueChange clientId k sm =
    (let m = mSupportedValueChangeClientsByPropIdAreaId sm;
         m1 = (if map_of m k \<noteq> None then umap_put k (umap_erase clientId (umap_at [] k m)) m else m);
         m2 = umap_touch [] k m1;
         m3 = (if umap_at [] k m2 = [] then umap_erase k m2 else m2);
         n = mSupportedValueChangePropIdAreaIdsByClient sm;
         n1 = umap_put clientId (uset_erase k (umap_at [] clientId n)) n;
         n2 = (if umap_at [] clientId n1 = [] then umap_erase clientId n1 else n1) in
     sm\<lparr>mSupportedValueChangeClientsByPropIdAreaId := m3,
        mSupportedValueChangePropIdAreaIdsByClient := n2\<rparr>)"

definition unsubscribeSupportedValueChange ::
  "'h VehicleHardware \<Rightarrow> ClientIdType \<Rightarrow> PropIdAreaId list \<Rightarrow> 'h SubscriptionManager \<Rightarrow>
     unit VhalResult \<times> 'h SubscriptionManager" where
  "unsubscribeSupportedValueChange hw clientId ks sm =
    (let toUnsubscribe = filter (soleClient clientId sm) ks in
     bindE
       (\<lambda>sm. if toUnsubscribe \<noteq> []
             then callHardware (hw_unsubscribeSupportedValueChange hw toUnsubscribe) sm
             else (Inr (), sm))
       (\<lambda>_ sm. (Inr (), fold (forgetSupportedValueChange clientId) ks sm)) sm)"

definition unsubscribeAll ::
  "'h VehicleHardware \<Rightarrow> ClientIdType \<Rightarrow> 'h SubscriptionManager \<Rightarrow>
     unit VhalResult \<times> 'h SubscriptionManager" where
  "unsubscribeAll hw clientId =
     bindE
       (\<lambda>sm. case map_of (mSubscribedPropsByClient sm) clientId of
          None \<Rightarrow> (Inr (), sm)
        | Some ks \<Rightarrow> bindE (forE (unsubscribePropIdAreaIdLocked hw clientId) ks)
            (\<lambda>_ sm. (Inr (), sm\<lparr>mSubscribedPropsByClient :=
               umap_erase clientId (mSubscribedPropsByClient sm)\<rparr>)) sm)
       (\<lambda>_ sm. case map_of (mSupportedValueChangePropIdAreaIdsByClient sm) clientId of
          None \<Rightarrow> (Inr (), sm)
        | Some ks \<Rightarrow> unsubscribeSupportedValueChange hw clientId ks sm)"

section \<open>Routing of events\<close>

text \<open>
  The values of a callback form an \<^verbatim>\<open>unordered_set\<close> that compares property and area only, so \<open>insert\<close>
  of a value whose key is present changes nothing.
\<close>

definition findValue :: "VehiclePropValue \<Rightarrow> VehiclePropValue list \<Rightarrow> VehiclePropValue option" where
  "findValue v vs = find (\<lambda>w. pv_prop w = pv_prop v \<and> pv_areaId w = pv_areaId v) vs"

definition insertValue :: "VehiclePropValue \<Rightarrow> VehiclePropValue list \<Rightarrow> VehiclePropValue list" where
  "insertValue v vs = (case findValue v vs of None \<Rightarrow> vs @ [v] | Some _ \<Rightarrow> vs)"

definition isValueUpdatedLocked ::
  "VehicleCallback \<Rightarrow> VehiclePropValue \<Rightarrow> 'h SubscriptionManager \<Rightarrow> bool \<times> 'h SubscriptionManager" where
  "isValueUpdatedLocked cb v sm =
    (let vs = umap_at [] cb (mContSubValuesByCallback sm);
         touched = sm\<lparr>mContSubValuesByCallback := umap_touch [] cb (mContSubValuesByCallback sm)\<rparr>;
         inserted = sm\<lparr>mContSubValuesByCallback :=
                      umap_put cb (insertValue v vs) (mContSubValuesByCallback sm)\<rparr> in
     case findValue v vs of
       None \<Rightarrow> (True, inserted)
     | Some it \<Rightarrow>
       if pv_timestamp it > pv_timestamp v then (False, touched)
       else if raw_eq (pv_value it) (pv_value v) \<and> pv_status it = pv_status v then (False, inserted)
       else (True, inserted))"

text \<open>
  \<open>sendTo\<close> is the body of the inner loop, for one client and one value; \<open>None\<close> is the undefined cast
  of \<open>sanitizeByResolution\<close>.
\<close>

definition sendTo ::
  "VehiclePropValue \<Rightarrow> ClientIdType \<times> VehicleCallback \<Rightarrow>
     (VehicleCallback, VehiclePropValue list) umap \<times> 'h SubscriptionManager \<Rightarrow>
     ((VehicleCallback, VehiclePropValue list) umap \<times> 'h SubscriptionManager) option" where
  "sendTo v entry acc =
    (let (client, cb) = entry; (clients, sm0) = acc; k = key_of v;
         subConfigs = contConfig k sm0; sm = touchContConfig k sm0 in
     case sanitizeByResolution (pv_value v) (getResolutionForClient client subConfigs) of
       None \<Rightarrow> None
     | Some val \<Rightarrow>
       let newValue = v\<lparr>pv_value := val\<rparr>;
           push = umap_put cb (umap_at [] cb clients @ [newValue]) clients in
       if isVurEnabledForClient client subConfigs \<and> \<not> mEnableVur subConfigs then
         (case isValueUpdatedLocked cb newValue sm of (updated, sm') \<Rightarrow>
            Some (if updated then push else clients, sm'))
       else Some (push, sm))"

fun foldO :: "('a \<Rightarrow> 's \<Rightarrow> 's option) \<Rightarrow> 'a list \<Rightarrow> 's \<Rightarrow> 's option" where
  "foldO f [] s = Some s"
| "foldO f (x # xs) s = (case f x s of None \<Rightarrow> None | Some s' \<Rightarrow> foldO f xs s')"

definition getSubscribedClients ::
  "VehiclePropValue list \<Rightarrow> 'h SubscriptionManager \<Rightarrow>
     ((VehicleCallback, VehiclePropValue list) umap \<times> 'h SubscriptionManager) option" where
  "getSubscribedClients updatedValues sm =
     foldO (\<lambda>v acc. case map_of (mClientsByPropIdAreaId (snd acc)) (key_of v) of
               None \<Rightarrow> Some acc
             | Some cs \<Rightarrow> foldO (sendTo v) cs acc) updatedValues ([], sm)"

definition getSubscribedClientsForErrorEvents ::
  "SetValueErrorEvent list \<Rightarrow> 'h SubscriptionManager \<Rightarrow> (VehicleCallback, SetValueErrorEvent list) umap" where
  "getSubscribedClientsForErrorEvents errorEvents sm =
     fold (\<lambda>e clients. case map_of (mClientsByPropIdAreaId sm) (PropIdAreaId (ev_propId e) (ev_areaId e)) of
               None \<Rightarrow> clients
             | Some cs \<Rightarrow> fold (\<lambda>(_, cb) clients. umap_put cb (umap_at [] cb clients @ [e]) clients) cs clients)
       errorEvents []"

definition getSubscribedClientsForSupportedValueChange ::
  "PropIdAreaId list \<Rightarrow> 'h SubscriptionManager \<Rightarrow> (VehicleCallback, PropIdAreaId list) umap" where
  "getSubscribedClientsForSupportedValueChange ks sm =
     fold (\<lambda>k clients. case map_of (mSupportedValueChangeClientsByPropIdAreaId sm) k of
               None \<Rightarrow> clients
             | Some cs \<Rightarrow> fold (\<lambda>(_, cb) clients. umap_put cb (umap_at [] cb clients @ [k]) clients) cs clients)
       ks []"

definition isEmpty :: "'h SubscriptionManager \<Rightarrow> bool" where
  "isEmpty sm \<longleftrightarrow> mSubscribedPropsByClient sm = [] \<and> mClientsByPropIdAreaId sm = [] \<and>
     mSupportedValueChangeClientsByPropIdAreaId sm = [] \<and>
     mSupportedValueChangePropIdAreaIdsByClient sm = []"

definition countPropertyChangeClients :: "'h SubscriptionManager \<Rightarrow> nat" where
  "countPropertyChangeClients sm = length (mSubscribedPropsByClient sm)"

definition countSupportedValueChangeClients :: "'h SubscriptionManager \<Rightarrow> nat" where
  "countSupportedValueChangeClients sm = length (mSupportedValueChangePropIdAreaIdsByClient sm)"

section \<open>Abstract view and invariant\<close>

definition clientsOf :: "'h SubscriptionManager \<Rightarrow> PropIdAreaId \<Rightarrow> ClientIdType set" where
  "clientsOf sm k = umap_keys (umap_at [] k (mClientsByPropIdAreaId sm))"

definition propsOf :: "'h SubscriptionManager \<Rightarrow> ClientIdType \<Rightarrow> PropIdAreaId set" where
  "propsOf sm c = set (umap_at [] c (mSubscribedPropsByClient sm))"

text \<open>Every client has a positive rate, and the combined rate is zero only when there is no client.\<close>

definition cfg_ok :: "ContSubConfigs \<Rightarrow> bool" where
  "cfg_ok cfg \<longleftrightarrow> umap_wf (mConfigByClient cfg) \<and> mMaxSampleRateHz cfg \<noteq> FNaN \<and>
     (\<forall>c \<in> snd ` set (mConfigByClient cfg). fp_lt (FFin 0) (sc_sampleRateHz c)) \<and>
     (mMaxSampleRateHz cfg = FFin 0 \<longleftrightarrow> mConfigByClient cfg = [])"

text \<open>
  \<open>mode p\<close> tells whether property \<open>p\<close> is continuous. The two client maps are inverse to each other,
  except for the pairs in \<open>X\<close> whose reverse entry a running unsubscription has yet to erase,
  have no empty entries, and the combined configurations are those of the continuous properties.
\<close>

definition sub_inv ::
  "(int32 \<Rightarrow> bool) \<Rightarrow> (PropIdAreaId \<times> ClientIdType) set \<Rightarrow> 'h SubscriptionManager \<Rightarrow> bool" where
  "sub_inv mode X sm \<longleftrightarrow>
     (\<forall>k m. map_of (mClientsByPropIdAreaId sm) k = Some m \<longrightarrow> umap_wf m \<and> m \<noteq> []) \<and>
     (\<forall>k c. c \<in> clientsOf sm k \<longleftrightarrow> k \<in> propsOf sm c \<and> (k, c) \<notin> X) \<and>
     (\<forall>k cfg. map_of (mContSubConfigsByPropIdArea sm) k = Some cfg \<longrightarrow>
        mode (propId k) \<and> cfg_ok cfg \<and> umap_keys (mConfigByClient cfg) = clientsOf sm k) \<and>
     (\<forall>k. clientsOf sm k \<noteq> {} \<longrightarrow> mode (propId k) \<longrightarrow> map_of (mContSubConfigsByPropIdArea sm) k \<noteq> None) \<and>
     (\<forall>c ks. map_of (mSubscribedPropsByClient sm) c = Some ks \<longrightarrow> distinct ks)"

definition synced ::
  "('h \<Rightarrow> PropIdAreaId \<Rightarrow> bool) \<Rightarrow> ('h \<Rightarrow> int32 \<Rightarrow> bool) \<Rightarrow> ('h \<Rightarrow> bool) \<Rightarrow> 'h SubscriptionManager \<Rightarrow> bool" where
  "synced delivers subscribable hw_ok sm \<longleftrightarrow> hw_ok (mVehicleHardware sm) \<and>
     (\<forall>k. delivers (mVehicleHardware sm) k \<longleftrightarrow> clientsOf sm k \<noteq> {}) \<and>
     (\<forall>k. clientsOf sm k \<noteq> {} \<longrightarrow> subscribable (mVehicleHardware sm) (propId k))"

lemma sub_inv_new [simp]: "sub_inv mode {} (newSubscriptionManager h)"
  by (simp add: sub_inv_def newSubscriptionManager_def clientsOf_def propsOf_def umap_at_def)

lemma cfg_ok_empty [simp]: "cfg_ok emptyContSubConfigs"
  by (simp add: cfg_ok_def emptyContSubConfigs_def)

lemma map_of_touchContConfig [simp]:
  "map_of (mContSubConfigsByPropIdArea (touchContConfig k sm)) =
     (map_of (mContSubConfigsByPropIdArea sm))(k \<mapsto> contConfig k sm)"
  by (simp add: touchContConfig_def contConfig_def map_of_umap_touch)

lemma contConfig_touch [simp]: "contConfig j (touchContConfig k sm) = contConfig j sm"
  by (auto simp: contConfig_def touchContConfig_def umap_at_def map_of_umap_touch)

lemma map_of_putContConfig [simp]:
  "map_of (mContSubConfigsByPropIdArea (putContConfig k cfg sm)) =
     (map_of (mContSubConfigsByPropIdArea sm))(k \<mapsto> cfg)"
  by (simp add: putContConfig_def)

lemma sm_frames [simp]:
  "mVehicleHardware (touchContConfig k sm) = mVehicleHardware sm"
  "mVehicleHardware (putContConfig k cfg sm) = mVehicleHardware sm"
  "clientsOf (touchContConfig k sm) = clientsOf sm" "clientsOf (putContConfig k cfg sm) = clientsOf sm"
  "propsOf (touchContConfig k sm) = propsOf sm" "propsOf (putContConfig k cfg sm) = propsOf sm"
  "mClientsByPropIdAreaId (touchContConfig k sm) = mClientsByPropIdAreaId sm"
  "mClientsByPropIdAreaId (putContConfig k cfg sm) = mClientsByPropIdAreaId sm"
  "mSubscribedPropsByClient (touchContConfig k sm) = mSubscribedPropsByClient sm"
  "mSubscribedPropsByClient (putContConfig k cfg sm) = mSubscribedPropsByClient sm"
  by (simp_all add: touchContConfig_def putContConfig_def clientsOf_def propsOf_def fun_eq_iff)

lemma callHardware_simps [simp]:
  "fst (callHardware f sm) =
     (if fst (f (mVehicleHardware sm)) \<noteq> OK then Inl (fst (f (mVehicleHardware sm))) else Inr ())"
  "snd (callHardware f sm) = sm\<lparr>mVehicleHardware := snd (f (mVehicleHardware sm))\<rparr>"
  by (simp_all add: callHardware_def case_prod_unfold)

lemma clientsOf_hw [simp]:
  "clientsOf (sm\<lparr>mVehicleHardware := h\<rparr>) = clientsOf sm" "propsOf (sm\<lparr>mVehicleHardware := h\<rparr>) = propsOf sm"
  by (simp_all add: clientsOf_def propsOf_def fun_eq_iff)

lemma fst_bindE: "fst (bindE f g s) = (case fst (f s) of Inl e \<Rightarrow> Inl e | Inr a \<Rightarrow> fst (g a (snd (f s))))"
  by (auto simp: bindE_def split: prod.splits sum.splits)

lemma snd_bindE: "snd (bindE f g s) = (case fst (f s) of Inl e \<Rightarrow> snd (f s) | Inr a \<Rightarrow> snd (g a (snd (f s))))"
  by (auto simp: bindE_def split: prod.splits sum.splits)

section \<open>The combined configuration\<close>

lemma combine_rate_pos:
  assumes "\<forall>c \<in> set cs. fp_lt (FFin 0) (sc_sampleRateHz c)"
    and "fp_lt (FFin 0) (fst acc) \<or> fst acc = FFin 0 \<and> cs \<noteq> []"
  shows "fp_lt (FFin 0) (fst (fold combineStep cs acc))"
  using assms
proof (induction cs arbitrary: acc)
  case (Cons c cs)
  have "fp_lt (FFin 0) (fst (combineStep c acc))"
    using Cons.prems by (auto simp: combineStep_def split: prod.splits)
  then show ?case using Cons by simp
qed simp

lemma refresh_simps:
  "mConfigByClient (refreshCombinedConfig cfg) = mConfigByClient cfg"
  "mMaxSampleRateHz (refreshCombinedConfig cfg) =
     fst (fold combineStep (map snd (mConfigByClient cfg)) (FFin 0, FLT_MAX, True))"
  "mMinRequiredResolution (refreshCombinedConfig cfg) =
     fst (snd (fold combineStep (map snd (mConfigByClient cfg)) (FFin 0, FLT_MAX, True)))"
  "mEnableVur (refreshCombinedConfig cfg) =
     snd (snd (fold combineStep (map snd (mConfigByClient cfg)) (FFin 0, FLT_MAX, True)))"
  by (simp_all add: refreshCombinedConfig_def case_prod_unfold Let_def)

lemma cfg_ok_refresh:
  assumes "umap_wf (mConfigByClient cfg)"
    and "\<forall>c \<in> snd ` set (mConfigByClient cfg). fp_lt (FFin 0) (sc_sampleRateHz c)"
  shows "cfg_ok (refreshCombinedConfig cfg)"
proof (cases "mConfigByClient cfg = []")
  case False
  have "fp_lt (FFin 0) (fst (fold combineStep (map snd (mConfigByClient cfg)) (FFin 0, FLT_MAX, True)))"
    by (rule combine_rate_pos) (use assms False in auto)
  then show ?thesis using assms False by (auto simp: cfg_ok_def refresh_simps)
qed (simp add: cfg_ok_def refresh_simps)

lemma cfg_ok_addClient:
  "cfg_ok cfg \<Longrightarrow> fp_lt (FFin 0) (sc_sampleRateHz sub) \<Longrightarrow> cfg_ok (addClient c sub cfg)"
  unfolding addClient_def by (rule cfg_ok_refresh) (auto simp: cfg_ok_def set_umap_put)

lemma cfg_ok_removeClient: "cfg_ok cfg \<Longrightarrow> cfg_ok (removeClient c cfg)"
  unfolding removeClient_def by (rule cfg_ok_refresh) (auto simp: cfg_ok_def set_umap_erase)

lemma keys_addClient [simp]:
  "umap_keys (mConfigByClient (addClient c sub cfg)) = insert c (umap_keys (mConfigByClient cfg))"
  "umap_keys (mConfigByClient (removeClient c cfg)) = umap_keys (mConfigByClient cfg) - {c}"
  by (auto simp: addClient_def removeClient_def refresh_simps)

text \<open>What the combination computes: the greatest rate, the finest resolution, VUR only if all agree.\<close>

lemma combine_bounds:
  assumes "FNaN \<notin> (sc_sampleRateHz ` set cs \<union> sc_resolution ` set cs)" "fst acc \<noteq> FNaN"
    and "fst (snd acc) \<noteq> FNaN"
  shows "(\<forall>c \<in> set cs. fp_le (sc_sampleRateHz c) (fst (fold combineStep cs acc))) \<and>
    fp_le (fst acc) (fst (fold combineStep cs acc)) \<and>
    fst (fold combineStep cs acc) \<in> insert (fst acc) (sc_sampleRateHz ` set cs) \<and>
    (\<forall>c \<in> set cs. fp_le (fst (snd (fold combineStep cs acc))) (sc_resolution c)) \<and>
    fp_le (fst (snd (fold combineStep cs acc))) (fst (snd acc)) \<and>
    fst (snd (fold combineStep cs acc)) \<in> insert (fst (snd acc)) (sc_resolution ` set cs) \<and>
    (snd (snd (fold combineStep cs acc)) \<longleftrightarrow> snd (snd acc) \<and> (\<forall>c \<in> set cs. sc_enableVur c))"
  using assms
proof (induction cs arbitrary: acc)
  case Nil
  then show ?case by (simp add: fp_le_def)
next
  case (Cons c cs)
  define acc' where "acc' = combineStep c acc"
  have n: "fst acc' \<noteq> FNaN" "fst (snd acc') \<noteq> FNaN"
    using Cons.prems by (auto simp: acc'_def combineStep_def split: prod.splits)
  have b: "fp_le (sc_sampleRateHz c) (fst acc')" "fp_le (fst acc) (fst acc')"
    "fst acc' \<in> {fst acc, sc_sampleRateHz c}"
    "fp_le (fst (snd acc')) (sc_resolution c)" "fp_le (fst (snd acc')) (fst (snd acc))"
    "fst (snd acc') \<in> {fst (snd acc), sc_resolution c}"
    "snd (snd acc') \<longleftrightarrow> snd (snd acc) \<and> sc_enableVur c"
    using Cons.prems fp_not_lt
    by (auto simp: acc'_def combineStep_def fp_le_def split: prod.splits)
  have ih: "(\<forall>c \<in> set cs. fp_le (sc_sampleRateHz c) (fst (fold combineStep cs acc'))) \<and>
    fp_le (fst acc') (fst (fold combineStep cs acc')) \<and>
    fst (fold combineStep cs acc') \<in> insert (fst acc') (sc_sampleRateHz ` set cs) \<and>
    (\<forall>c \<in> set cs. fp_le (fst (snd (fold combineStep cs acc'))) (sc_resolution c)) \<and>
    fp_le (fst (snd (fold combineStep cs acc'))) (fst (snd acc')) \<and>
    fst (snd (fold combineStep cs acc')) \<in> insert (fst (snd acc')) (sc_resolution ` set cs) \<and>
    (snd (snd (fold combineStep cs acc')) \<longleftrightarrow> snd (snd acc') \<and> (\<forall>c \<in> set cs. sc_enableVur c))"
    by (rule Cons.IH) (use Cons.prems n in auto)
  have "fp_le (sc_sampleRateHz c) (fst (fold combineStep cs acc'))"
    "fp_le (fst acc) (fst (fold combineStep cs acc'))"
    "fp_le (fst (snd (fold combineStep cs acc'))) (sc_resolution c)"
    "fp_le (fst (snd (fold combineStep cs acc'))) (fst (snd acc))"
    using ih b fp_le_trans by blast+
  then show ?case using ih b unfolding acc'_def [symmetric] fold_simps by auto
qed

section \<open>Keeping the hardware in step\<close>

lemma sub_inv_cont:
  "sub_inv mode X sm \<Longrightarrow> mode (propId k) \<Longrightarrow>
     cfg_ok (contConfig k sm) \<and> umap_keys (mConfigByClient (contConfig k sm)) = clientsOf sm k"
proof (cases "map_of (mContSubConfigsByPropIdArea sm) k")
  case None
  assume "sub_inv mode X sm" "mode (propId k)"
  then have "clientsOf sm k = {}" using None unfolding sub_inv_def by metis
  then show ?thesis using None by (simp add: contConfig_def emptyContSubConfigs_def cfg_ok_def)
next
  case (Some cfg)
  assume "sub_inv mode X sm"
  then show ?thesis using Some by (simp add: contConfig_def sub_inv_def)
qed

lemma sub_inv_clients:
  "sub_inv mode X sm \<Longrightarrow> map_of (mClientsByPropIdAreaId sm) k = None \<longleftrightarrow> clientsOf sm k = {}"
proof (cases "map_of (mClientsByPropIdAreaId sm) k")
  case (Some m)
  assume "sub_inv mode X sm"
  then have "m \<noteq> []" using Some by (simp add: sub_inv_def)
  then show ?thesis using Some by (simp add: clientsOf_def)
qed (simp add: clientsOf_def)

lemma sub_inv_has_cont:
  "sub_inv mode X sm \<Longrightarrow> clientsOf sm k \<noteq> {} \<Longrightarrow> mode (propId k) \<Longrightarrow>
     map_of (mContSubConfigsByPropIdArea sm) k \<noteq> None"
  unfolding sub_inv_def by blast

lemma sub_inv_wf: "sub_inv mode X sm \<Longrightarrow> umap_wf (umap_at [] k (mClientsByPropIdAreaId sm))"
  by (auto simp: sub_inv_def umap_at_def split: option.splits)

text \<open>The effect of recording and of dropping a client on the abstract view.\<close>

lemma clientsOf_record [simp]:
  "clientsOf (recordSubscription cb k sm) j =
     (if j = k then insert (cbBinder cb) (clientsOf sm k) else clientsOf sm j)"
  by (auto simp: clientsOf_def recordSubscription_def umap_at_def)

lemma propsOf_record [simp]:
  "propsOf (recordSubscription cb k sm) c =
     (if c = cbBinder cb then insert k (propsOf sm c) else propsOf sm c)"
  by (auto simp: propsOf_def recordSubscription_def umap_at_def)

lemma record_frames [simp]:
  "mVehicleHardware (recordSubscription cb k sm) = mVehicleHardware sm"
  "mContSubConfigsByPropIdArea (recordSubscription cb k sm) = mContSubConfigsByPropIdArea sm"
  by (simp_all add: recordSubscription_def)

lemma clientsOf_dropClient [simp]:
  "clientsOf (dropClient c k sm) j = (if j = k then clientsOf sm k - {c} else clientsOf sm j)"
proof -
  define cl where "cl = umap_erase c (umap_at [] k (mClientsByPropIdAreaId sm))"
  have e: "umap_keys cl = clientsOf sm k - {c}" by (auto simp: cl_def clientsOf_def)
  then have "cl = [] \<Longrightarrow> clientsOf sm k - {c} = {}" by simp
  then show ?thesis
    using e by (simp add: clientsOf_def dropClient_def Let_def cl_def [symmetric])
qed

lemma drop_frames [simp]:
  "mVehicleHardware (dropClient c k sm) = mVehicleHardware sm"
  "mSubscribedPropsByClient (dropClient c k sm) = mSubscribedPropsByClient sm"
  "propsOf (dropClient c k sm) = propsOf sm"
  by (auto simp: dropClient_def Let_def propsOf_def fun_eq_iff)

lemma map_of_cont_dropClient:
  "map_of (mContSubConfigsByPropIdArea (dropClient c k sm)) =
     (if clientsOf sm k \<subseteq> {c} then (map_of (mContSubConfigsByPropIdArea sm))(k := None)
      else map_of (mContSubConfigsByPropIdArea sm))"
proof -
  have "umap_erase c (umap_at [] k (mClientsByPropIdAreaId sm)) = [] \<longleftrightarrow> clientsOf sm k \<subseteq> {c}"
    by (subst umap_empty_iff) (auto simp: clientsOf_def)
  then show ?thesis by (auto simp: dropClient_def Let_def)
qed

lemma map_of_clients_dropClient:
  "map_of (mClientsByPropIdAreaId (dropClient c k sm)) j =
     (if j = k then
        (if clientsOf sm k \<subseteq> {c} then None else Some (umap_erase c (umap_at [] k (mClientsByPropIdAreaId sm))))
      else map_of (mClientsByPropIdAreaId sm) j)"
proof -
  have "umap_erase c (umap_at [] k (mClientsByPropIdAreaId sm)) = [] \<longleftrightarrow> clientsOf sm k \<subseteq> {c}"
    by (subst umap_empty_iff) (auto simp: clientsOf_def)
  then show ?thesis by (auto simp: dropClient_def Let_def)
qed

lemma checkSampleRate_pos: "checkSampleRateHz r \<Longrightarrow> r \<noteq> FNaN \<Longrightarrow> fp_lt (FFin 0) r"
  using fp_total [of "FFin 0" r] by (auto simp: checkSampleRateHz_def getIntervalNanos_def fp_le_def
      fp_eq_def split: if_splits)

text \<open>The invariant depends on three maps only.\<close>

lemma sub_inv_cong:
  assumes "map_of (mClientsByPropIdAreaId sm') = map_of (mClientsByPropIdAreaId sm)"
    "map_of (mSubscribedPropsByClient sm') = map_of (mSubscribedPropsByClient sm)"
    "map_of (mContSubConfigsByPropIdArea sm') = map_of (mContSubConfigsByPropIdArea sm)"
  shows "sub_inv mode X sm' = sub_inv mode X sm" "clientsOf sm' = clientsOf sm" "propsOf sm' = propsOf sm"
proof -
  show c: "clientsOf sm' = clientsOf sm" "propsOf sm' = propsOf sm"
    using assms by (simp_all add: clientsOf_def propsOf_def umap_at_def fun_eq_iff)
  show "sub_inv mode X sm' = sub_inv mode X sm"
    using assms by (simp add: sub_inv_def c)
qed

lemma sub_inv_forget:
  assumes inv: "sub_inv mode X sm" and X: "X \<subseteq> {(k, c) |k. k \<notin> set ks'}"
    and new: "map_of (mSubscribedPropsByClient sm') = m" "m c = Some ks' \<or> m c = None \<and> ks' = []"
      "\<And>d. d \<noteq> c \<Longrightarrow> m d = map_of (mSubscribedPropsByClient sm) d"
    and ks: "set ks' = {k \<in> propsOf sm c. (k, c) \<notin> X}" "distinct ks'"
    and same: "mClientsByPropIdAreaId sm' = mClientsByPropIdAreaId sm"
      "mContSubConfigsByPropIdArea sm' = mContSubConfigsByPropIdArea sm"
  shows "sub_inv mode {} sm'" "clientsOf sm' = clientsOf sm" "propsOf sm' = (propsOf sm)(c := set ks')"
proof -
  show cl: "clientsOf sm' = clientsOf sm" using same by (simp add: clientsOf_def fun_eq_iff)
  show pr: "propsOf sm' = (propsOf sm)(c := set ks')"
    using new by (auto simp: propsOf_def umap_at_def fun_eq_iff)
  have "d \<in> clientsOf sm' k \<longleftrightarrow> k \<in> propsOf sm' d" for d k
    using inv X ks(1) unfolding sub_inv_def cl pr by auto
  moreover have "distinct xs" if "map_of (mSubscribedPropsByClient sm') d = Some xs" for d xs
    using that new ks(2) inv by (cases "d = c") (auto simp: sub_inv_def)
  ultimately show "sub_inv mode {} sm'"
    using inv same unfolding sub_inv_def cl by auto
qed

lemma forget_frames [simp]:
  "mVehicleHardware (forgetSupportedValueChange c k sm) = mVehicleHardware sm"
  "mClientsByPropIdAreaId (forgetSupportedValueChange c k sm) = mClientsByPropIdAreaId sm"
  "mSubscribedPropsByClient (forgetSupportedValueChange c k sm) = mSubscribedPropsByClient sm"
  "mContSubConfigsByPropIdArea (forgetSupportedValueChange c k sm) = mContSubConfigsByPropIdArea sm"
  by (simp_all add: forgetSupportedValueChange_def Let_def)

lemma fold_frame: "(\<And>x s. f (g x s) = f s) \<Longrightarrow> f (fold g xs s) = f s"
  by (induction xs arbitrary: s) simp_all

lemma fold_forget_frames [simp]:
  "mVehicleHardware (fold (forgetSupportedValueChange c) ks sm) = mVehicleHardware sm"
  "mClientsByPropIdAreaId (fold (forgetSupportedValueChange c) ks sm) = mClientsByPropIdAreaId sm"
  "mSubscribedPropsByClient (fold (forgetSupportedValueChange c) ks sm) = mSubscribedPropsByClient sm"
  "mContSubConfigsByPropIdArea (fold (forgetSupportedValueChange c) ks sm) = mContSubConfigsByPropIdArea sm"
  by (rule fold_frame; simp)+

text \<open>Delivering an event of a continuous property changes no map but the last values.\<close>

lemma isValueUpdated_frames [simp]:
  "mVehicleHardware (snd (isValueUpdatedLocked cb v sm)) = mVehicleHardware sm"
  "mClientsByPropIdAreaId (snd (isValueUpdatedLocked cb v sm)) = mClientsByPropIdAreaId sm"
  "mSubscribedPropsByClient (snd (isValueUpdatedLocked cb v sm)) = mSubscribedPropsByClient sm"
  "mContSubConfigsByPropIdArea (snd (isValueUpdatedLocked cb v sm)) = mContSubConfigsByPropIdArea sm"
  by (simp_all add: isValueUpdatedLocked_def Let_def split: option.splits)

lemma sendTo_frames:
  assumes "sendTo v entry acc = Some acc'"
  shows "mVehicleHardware (snd acc') = mVehicleHardware (snd acc)"
    "mClientsByPropIdAreaId (snd acc') = mClientsByPropIdAreaId (snd acc)"
    "mSubscribedPropsByClient (snd acc') = mSubscribedPropsByClient (snd acc)"
    "mContSubConfigsByPropIdArea (snd acc') =
       mContSubConfigsByPropIdArea (touchContConfig (key_of v) (snd acc))"
  using assms by (auto simp: sendTo_def Let_def case_prod_unfold split: option.splits if_splits)

lemma foldO_invariant:
  "foldO f xs s = Some s' \<Longrightarrow> I s \<Longrightarrow> (\<And>x s s'. x \<in> set xs \<Longrightarrow> I s \<Longrightarrow> f x s = Some s' \<Longrightarrow> I s') \<Longrightarrow> I s'"
proof (induction xs arbitrary: s)
  case (Cons x xs)
  then obtain s1 where "f x s = Some s1" "foldO f xs s1 = Some s'" by (auto split: option.splits)
  then show ?case using Cons.IH [of s1] Cons.prems(2,3) by (metis list.set_intros(1) list.set_intros(2))
qed simp

lemma getSubscribedClients_same:
  assumes inv: "sub_inv mode {} sm" and cont: "\<forall>v \<in> set vs. mode (pv_prop v)"
    and get: "getSubscribedClients vs sm = Some (out, sm')"
  shows "sub_inv mode {} sm' \<and> clientsOf sm' = clientsOf sm \<and> mVehicleHardware sm' = mVehicleHardware sm"
proof -
  define I where "I = (\<lambda>acc :: (VehicleCallback, VehiclePropValue list) umap \<times> 'a SubscriptionManager.
    mVehicleHardware (snd acc) = mVehicleHardware sm \<and>
    mClientsByPropIdAreaId (snd acc) = mClientsByPropIdAreaId sm \<and>
    mSubscribedPropsByClient (snd acc) = mSubscribedPropsByClient sm \<and>
    map_of (mContSubConfigsByPropIdArea (snd acc)) = map_of (mContSubConfigsByPropIdArea sm))"
  have send: "I acc'" if "v \<in> set vs" "map_of (mClientsByPropIdAreaId sm) (key_of v) \<noteq> None"
    "I acc" "sendTo v entry acc = Some acc'" for v entry acc acc'
  proof -
    have "map_of (mContSubConfigsByPropIdArea sm) (key_of v) \<noteq> None"
      using that(1,2) cont sub_inv_has_cont [OF inv, of "key_of v"] sub_inv_clients [OF inv, of "key_of v"]
      by (auto simp: key_of_def)
    then have "map_of (mContSubConfigsByPropIdArea (touchContConfig (key_of v) (snd acc))) =
        map_of (mContSubConfigsByPropIdArea sm)"
      using that(3) by (auto simp: I_def contConfig_def)
    then show ?thesis using sendTo_frames [OF that(4)] that(3) by (simp add: I_def)
  qed
  have "I (out, sm')"
  proof (rule foldO_invariant [OF get [unfolded getSubscribedClients_def]])
    show "I ([], sm)" by (simp add: I_def)
    fix v acc acc'
    assume v: "v \<in> set vs" and I: "I acc" and step: "(case map_of (mClientsByPropIdAreaId (snd acc)) (key_of v) of
        None \<Rightarrow> Some acc | Some cs \<Rightarrow> foldO (sendTo v) cs acc) = Some acc'"
    show "I acc'"
    proof (cases "map_of (mClientsByPropIdAreaId (snd acc)) (key_of v)")
      case None
      then show ?thesis using step I by simp
    next
      case (Some cs)
      then have c: "map_of (mClientsByPropIdAreaId sm) (key_of v) \<noteq> None" using I by (simp add: I_def)
      have "foldO (sendTo v) cs acc = Some acc'" using step Some by simp
      then show ?thesis using I by (rule foldO_invariant) (use send [OF v c] in blast)
    qed
  qed
  then show ?thesis using inv sub_inv_cong [of sm' sm] by (auto simp: I_def)
qed

text \<open>The operations of the class, and what a run of them requires of its arguments.\<close>

datatype SubscriptionOp =
    SubscribeOp VehicleCallback "SubscribeOptions list" bool
  | UnsubscribeOp ClientIdType "int32 list"
  | UnsubscribeAllOp ClientIdType
  | SubscribeSupportedOp VehicleCallback "PropIdAreaId list"
  | UnsubscribeSupportedOp ClientIdType "PropIdAreaId list"
  | DeliverOp "VehiclePropValue list"

fun run_sub_op ::
  "(fp \<Rightarrow> fp) \<Rightarrow> 'h VehicleHardware \<Rightarrow> SubscriptionOp \<Rightarrow> 'h SubscriptionManager \<Rightarrow> 'h SubscriptionManager" where
  "run_sub_op log10f hw (SubscribeOp cb options cont) sm = snd (subscribe log10f hw cb options cont sm)"
| "run_sub_op log10f hw (UnsubscribeOp c ps) sm = snd (unsubscribe hw c ps sm)"
| "run_sub_op log10f hw (UnsubscribeAllOp c) sm = snd (unsubscribeAll hw c sm)"
| "run_sub_op log10f hw (SubscribeSupportedOp cb ks) sm = snd (subscribeSupportedValueChange hw cb ks sm)"
| "run_sub_op log10f hw (UnsubscribeSupportedOp c ks) sm = snd (unsubscribeSupportedValueChange hw c ks sm)"
| "run_sub_op log10f hw (DeliverOp vs) sm =
     (case getSubscribedClients vs sm of None \<Rightarrow> sm | Some (_, sm') \<Rightarrow> sm')"

text \<open>
  A client subscribes a property in its own mode, to properties the hardware can deliver, at a rate
  that is a number; the delivered events are those of continuous properties (the theorem
  \<open>on_change_event_breaks_sync\<close> shows that this restriction is needed).
\<close>

fun sub_op_fits :: "(int32 \<Rightarrow> bool) \<Rightarrow> (int32 \<Rightarrow> bool) \<Rightarrow> SubscriptionOp \<Rightarrow> bool" where
  "sub_op_fits mode known (SubscribeOp cb options cont) =
     (\<forall>option \<in> set options. mode (so_propId option) = cont \<and> known (so_propId option) \<and>
        so_sampleRate option \<noteq> FNaN)"
| "sub_op_fits mode known (DeliverOp vs) = (\<forall>v \<in> set vs. mode (pv_prop v))"
| "sub_op_fits mode known _ = True"

context vehicle_hardware
begin

lemma update_cont:
  fixes sm :: "'h SubscriptionManager" and k :: PropIdAreaId and new :: ContSubConfigs
  defines "h \<equiv> mVehicleHardware sm" and "old \<equiv> contConfig k sm"
    and "res \<equiv> updateContSubConfigsLocked hw k new sm"
  assumes ok: "hw_ok h" "subscribable h (propId k)" and cfg: "cfg_ok new" "cfg_ok old"
    and del: "delivers h k \<longleftrightarrow> mConfigByClient old \<noteq> []"
  shows "mClientsByPropIdAreaId (snd res) = mClientsByPropIdAreaId sm \<and>
    mSubscribedPropsByClient (snd res) = mSubscribedPropsByClient sm \<and>
    hw_ok (mVehicleHardware (snd res)) \<and> subscribable (mVehicleHardware (snd res)) = subscribable h \<and>
    map_of (mContSubConfigsByPropIdArea (snd res)) = (map_of (mContSubConfigsByPropIdArea sm))
      (k \<mapsto> if fst res = Inr () then new else old) \<and>
    (\<forall>j. delivers (mVehicleHardware (snd res)) j \<longleftrightarrow>
       (if fst res = Inr () \<and> j = k then mConfigByClient new \<noteq> [] else delivers h j)) \<and>
    (delivers h k \<longrightarrow> fst res = Inr ())"
proof -
  have z: "fp_eq (mMaxSampleRateHz new) (FFin 0) \<longleftrightarrow> mConfigByClient new = []"
    "fp_eq (mMaxSampleRateHz old) (FFin 0) \<longleftrightarrow> mConfigByClient old = []"
    using cfg by (auto simp: cfg_ok_def fp_eq_def)
  have eq: "fp_eq (mMaxSampleRateHz new) (mMaxSampleRateHz old) \<Longrightarrow>
      mConfigByClient new = [] \<longleftrightarrow> mConfigByClient old = []"
    using cfg by (auto simp: cfg_ok_def fp_eq_def)
  define so where "so = newSubscribeOptions (propId k) (areaId k) (mMaxSampleRateHz new)
    (mMinRequiredResolution new) (mEnableVur new)"
  have so: "so_areaIds so = [areaId k]" "so_propId so = propId k" "so_sampleRate so = mMaxSampleRateHz new"
    by (simp_all add: so_def newSubscribeOptions_def)
  show ?thesis
  proof (cases "fp_eq (mMaxSampleRateHz new) (mMaxSampleRateHz old)")
    case True
    then show ?thesis
      using ok eq [OF True] del z subscribe_ok [OF ok(1) so(1), of k] subscribe_ok [OF ok(1) so(1)]
        subscribe_fails [OF ok(1) so(1)] subscribe_again [OF ok(1) so(1)] unsubscribe_ok [OF ok(1), of "propId k" "areaId k"]
        unsubscribe_delivers [OF ok(1), of "propId k" "areaId k"]
      unfolding res_def updateContSubConfigsLocked_def Let_def old_def [symmetric] so_def [symmetric]
      by (auto simp: fst_bindE snd_bindE h_def [symmetric] old_def [symmetric] so fun_eq_iff
          hw_ok_ops subscribable_ops)
  next
    case False
    define h1 where "h1 = snd (hw_updateSampleRate hw (propId k) (areaId k) (mMaxSampleRateHz new) h)"
    have u: "fst (hw_updateSampleRate hw (propId k) (areaId k) (mMaxSampleRateHz new) h) = OK"
      using update_ok ok by simp
    have ok1: "hw_ok h1" "subscribable h1 = subscribable h" "delivers h1 = delivers h"
      using ok hw_ok_update subscribable_update update_delivers by (auto simp: h1_def fun_eq_iff)
    show ?thesis
      using ok1 del z False ok u subscribe_ok [OF ok1(1) so(1)]
        subscribe_fails [OF ok1(1) so(1)] subscribe_again [OF ok1(1) so(1)] unsubscribe_ok [OF ok1(1), of "propId k" "areaId k"]
        unsubscribe_delivers [OF ok1(1), of "propId k" "areaId k"]
      unfolding res_def updateContSubConfigsLocked_def Let_def old_def [symmetric] so_def [symmetric]
      by (auto simp: fst_bindE snd_bindE h_def [symmetric] h1_def [symmetric] old_def [symmetric] so
          fun_eq_iff hw_ok_ops subscribable_ops)
  qed
qed

text \<open>What the two ways of adding a subscriber leave behind, whether or not the hardware accepted.\<close>

lemma addContinuousSubscriber_step:
  fixes sm :: "'h SubscriptionManager" and c k rate res vur
  defines "h \<equiv> mVehicleHardware sm" and "op \<equiv> addContinuousSubscriberLocked hw c k rate res vur sm"
  assumes inv: "sub_inv mode {} sm" and mode: "mode (propId k)" and rate: "fp_lt (FFin 0) rate"
    and ok: "hw_ok h" and sub: "subscribable h (propId k)"
    and del: "\<And>j. delivers h j \<longleftrightarrow> clientsOf sm j \<noteq> {}"
  shows "mClientsByPropIdAreaId (snd op) = mClientsByPropIdAreaId sm \<and>
    mSubscribedPropsByClient (snd op) = mSubscribedPropsByClient sm \<and>
    hw_ok (mVehicleHardware (snd op)) \<and> subscribable (mVehicleHardware (snd op)) = subscribable h \<and>
    (\<forall>j. delivers (mVehicleHardware (snd op)) j \<longleftrightarrow> fst op = Inr () \<and> j = k \<or> clientsOf sm j \<noteq> {}) \<and>
    (\<exists>cfg. map_of (mContSubConfigsByPropIdArea (snd op)) = (map_of (mContSubConfigsByPropIdArea sm))(k \<mapsto> cfg) \<and>
       cfg_ok cfg \<and> umap_keys (mConfigByClient cfg) =
         (if fst op = Inr () then insert c (clientsOf sm k) else clientsOf sm k))"
proof -
  define old where "old = contConfig k sm"
  define sub' where "sub' = \<lparr>sc_sampleRateHz = rate, sc_resolution = res,
    sc_enableVur = vur\<rparr>"
  have old: "cfg_ok old" "umap_keys (mConfigByClient old) = clientsOf sm k"
    using sub_inv_cont [OF inv, of k] mode by (auto simp: old_def)
  define new where "new = addClient (c) sub' old"
  have new: "cfg_ok new" "umap_keys (mConfigByClient new) = insert (c) (clientsOf sm k)"
    using cfg_ok_addClient [OF old(1)] rate old(2) by (simp_all add: sub'_def new_def)
  have at: "contConfig k sm = old" "contConfig k (touchContConfig k sm) = old"
    by (simp_all add: old_def)
  have nonempty: "mConfigByClient new \<noteq> []" "mConfigByClient old \<noteq> [] \<longleftrightarrow> clientsOf sm k \<noteq> {}"
    by (simp_all only: umap_empty_iff new(2) old(2)) blast
  have op: "op = updateContSubConfigsLocked hw k new (touchContConfig k sm)"
    by (simp add: op_def addContinuousSubscriberLocked_def sub'_def old_def new_def)
  have "hw_ok (mVehicleHardware (touchContConfig k sm))"
    "subscribable (mVehicleHardware (touchContConfig k sm)) (propId k)"
    "cfg_ok (contConfig k (touchContConfig k sm))"
    "delivers (mVehicleHardware (touchContConfig k sm)) k \<longleftrightarrow>
       mConfigByClient (contConfig k (touchContConfig k sm)) \<noteq> []"
    using ok sub old(1) nonempty(2) del by (auto simp: at h_def [symmetric])
  note u = update_cont [OF this(1,2) new(1) this(3,4), folded op]
  have c1: "map_of (mContSubConfigsByPropIdArea (snd op)) =
      (map_of (mContSubConfigsByPropIdArea sm))(k \<mapsto> if fst op = Inr () then new else old)"
    using u by (simp add: at)
  have c2: "\<forall>j. delivers (mVehicleHardware (snd op)) j \<longleftrightarrow> fst op = Inr () \<and> j = k \<or> clientsOf sm j \<noteq> {}"
    using u nonempty(1) del by (simp add: h_def [symmetric]) blast
  have c3: "cfg_ok (if fst op = Inr () then new else old)"
    "umap_keys (mConfigByClient (if fst op = Inr () then new else old)) =
       (if fst op = Inr () then insert (c) (clientsOf sm k) else clientsOf sm k)"
    using new old by simp_all
  have c4: "mClientsByPropIdAreaId (snd op) = mClientsByPropIdAreaId sm"
    "mSubscribedPropsByClient (snd op) = mSubscribedPropsByClient sm"
    "hw_ok (mVehicleHardware (snd op))" "subscribable (mVehicleHardware (snd op)) = subscribable h"
    using u by (simp_all add: h_def [symmetric])
  show ?thesis
    by (intro conjI exI [of _ "if fst op = Inr () then new else old"] c2 c3 c4 impI)
      (simp only: c1)
qed

lemma addOnChangeSubscriber_step:
  fixes sm :: "'h SubscriptionManager" and k
  defines "h \<equiv> mVehicleHardware sm" and "op \<equiv> addOnChangeSubscriberLocked hw k sm"
  assumes inv: "sub_inv mode {} sm" and ok: "hw_ok h" and sub: "subscribable h (propId k)"
    and del: "\<And>j. delivers h j \<longleftrightarrow> clientsOf sm j \<noteq> {}"
  shows "mClientsByPropIdAreaId (snd op) = mClientsByPropIdAreaId sm \<and>
    mSubscribedPropsByClient (snd op) = mSubscribedPropsByClient sm \<and>
    hw_ok (mVehicleHardware (snd op)) \<and> subscribable (mVehicleHardware (snd op)) = subscribable h \<and>
    (\<forall>j. delivers (mVehicleHardware (snd op)) j \<longleftrightarrow> fst op = Inr () \<and> j = k \<or> clientsOf sm j \<noteq> {}) \<and>
    map_of (mContSubConfigsByPropIdArea (snd op)) = map_of (mContSubConfigsByPropIdArea sm)"
proof -
  define so where "so = newSubscribeOptions (propId k) (areaId k) (FFin 0) (FFin 0) False"
  have so: "so_areaIds so = [areaId k]" "so_propId so = propId k" by (simp_all add: so_def newSubscribeOptions_def)
  have kc: "map_of (mClientsByPropIdAreaId sm) k = None \<longleftrightarrow> clientsOf sm k = {}"
    using sub_inv_clients [OF inv, of k] by simp
  show ?thesis
    using ok sub kc del subscribe_ok [OF ok so(1)] subscribe_fails [OF ok so(1)]
    unfolding op_def addOnChangeSubscriberLocked_def so_def [symmetric]
    by (auto simp: h_def [symmetric] so hw_ok_ops subscribable_ops fun_eq_iff)
qed

lemma subscribeArea_step:
  fixes sm :: "'h SubscriptionManager" and option cb a cont
  defines "h \<equiv> mVehicleHardware sm" and "k \<equiv> PropIdAreaId (so_propId option) a"
    and "res \<equiv> subscribeArea hw cb cont option a sm"
  assumes inv: "sub_inv mode {} sm" "synced delivers subscribable hw_ok sm" and sub: "subscribable h (so_propId option)"
    and mode: "mode (so_propId option) = cont"
    and rate: "cont \<Longrightarrow> fp_lt (FFin 0) (so_sampleRate option)"
  shows "sub_inv mode {} (snd res) \<and> synced delivers subscribable hw_ok (snd res) \<and>
    subscribable (mVehicleHardware (snd res)) = subscribable h \<and>
    (\<forall>j. clientsOf (snd res) j =
       (if fst res = Inr () \<and> j = k then insert (cbBinder cb) (clientsOf sm k) else clientsOf sm j))"
proof -
  have k: "propId k = so_propId option" "areaId k = a" "PropIdAreaId (so_propId option) a = k"
    by (simp_all add: k_def)
  define op where "op = (if cont
    then addContinuousSubscriberLocked hw (cbBinder cb) k (so_sampleRate option)
           (so_resolution option) (so_enableVariableUpdateRate option)
    else addOnChangeSubscriberLocked hw k) sm"
  have ok: "hw_ok h" and del: "\<And>j. delivers h j \<longleftrightarrow> clientsOf sm j \<noteq> {}"
    using inv(2) by (auto simp: synced_def h_def)
  have sb: "\<And>j. clientsOf sm j \<noteq> {} \<Longrightarrow> subscribable h (propId j)"
    using inv(2) by (simp add: synced_def h_def)
  have res: "fst res = fst op" "snd res = (if fst op = Inr () then recordSubscription cb k (snd op) else snd op)"
    unfolding res_def subscribeArea_def Let_def k_def [symmetric] op_def
    by (auto simp: fst_bindE snd_bindE split: sum.splits)
  have step: "mClientsByPropIdAreaId (snd op) = mClientsByPropIdAreaId sm \<and>
    mSubscribedPropsByClient (snd op) = mSubscribedPropsByClient sm \<and>
    hw_ok (mVehicleHardware (snd op)) \<and> subscribable (mVehicleHardware (snd op)) = subscribable h \<and>
    (\<forall>j. delivers (mVehicleHardware (snd op)) j \<longleftrightarrow>
       fst op = Inr () \<and> j = k \<or> clientsOf sm j \<noteq> {}) \<and>
    (\<exists>cfg. map_of (mContSubConfigsByPropIdArea (snd op)) = (if cont
       then (map_of (mContSubConfigsByPropIdArea sm))(k \<mapsto> cfg)
       else map_of (mContSubConfigsByPropIdArea sm)) \<and> (cont \<longrightarrow> cfg_ok cfg \<and>
         umap_keys (mConfigByClient cfg) =
           (if fst op = Inr () then insert (cbBinder cb) (clientsOf sm k) else clientsOf sm k)))"
  proof (cases cont)
    case True
    then show ?thesis
      using addContinuousSubscriber_step [OF inv(1), of k "so_sampleRate option" "cbBinder cb"
          "so_resolution option" "so_enableVariableUpdateRate option"] mode rate ok sub del
      by (simp add: op_def k h_def [symmetric])
  next
    case False
    then show ?thesis
      using addOnChangeSubscriber_step [OF inv(1), of k] ok sub del
      by (simp add: op_def k h_def [symmetric])
  qed
  have st: "mClientsByPropIdAreaId (snd op) = mClientsByPropIdAreaId sm"
    "mSubscribedPropsByClient (snd op) = mSubscribedPropsByClient sm"
    using step by simp_all
  have frames: "clientsOf (snd op) = clientsOf sm" "propsOf (snd op) = propsOf sm"
    using step by (auto simp: clientsOf_def propsOf_def fun_eq_iff)
  obtain cfg where cfg: "map_of (mContSubConfigsByPropIdArea (snd op)) = (if cont
       then (map_of (mContSubConfigsByPropIdArea sm))(k \<mapsto> cfg)
       else map_of (mContSubConfigsByPropIdArea sm))" "cont \<Longrightarrow> cfg_ok cfg \<and>
         umap_keys (mConfigByClient cfg) =
           (if fst op = Inr () then insert (cbBinder cb) (clientsOf sm k) else clientsOf sm k)"
    using step by blast
  have wf: "umap_wf (umap_at [] k (mClientsByPropIdAreaId sm))"
    using sub_inv_wf [OF inv(1)] .
  show ?thesis
  proof (cases "fst op = Inr ()")
    case True
    have nc: "\<not> cont \<Longrightarrow> map_of (mContSubConfigsByPropIdArea sm) k = None"
      using inv(1) mode k(1) unfolding sub_inv_def by (metis not_Some_eq)
    have "sub_inv mode {} (recordSubscription cb k (snd op))"
      unfolding sub_inv_def
    proof (intro conjI)
      show "\<forall>j m. map_of (mClientsByPropIdAreaId (recordSubscription cb k (snd op))) j = Some m \<longrightarrow>
          umap_wf m \<and> m \<noteq> []"
        using inv(1) wf step by (simp add: recordSubscription_def sub_inv_def)
      show "\<forall>j c. c \<in> clientsOf (recordSubscription cb k (snd op)) j \<longleftrightarrow>
          j \<in> propsOf (recordSubscription cb k (snd op)) c \<and> (j, c) \<notin> {}"
        using inv(1) by (auto simp: frames sub_inv_def)
      show "\<forall>j cfg. map_of (mContSubConfigsByPropIdArea (recordSubscription cb k (snd op))) j = Some cfg \<longrightarrow>
          mode (propId j) \<and> cfg_ok cfg \<and>
          umap_keys (mConfigByClient cfg) = clientsOf (recordSubscription cb k (snd op)) j"
        using inv(1) cfg True mode k nc unfolding sub_inv_def by (cases cont) (auto simp: frames)
      show "\<forall>j. clientsOf (recordSubscription cb k (snd op)) j \<noteq> {} \<longrightarrow> mode (propId j) \<longrightarrow>
          map_of (mContSubConfigsByPropIdArea (recordSubscription cb k (snd op))) j \<noteq> None"
        using inv(1) cfg mode k unfolding sub_inv_def by (cases cont) (auto simp: frames)
      show "\<forall>c ks. map_of (mSubscribedPropsByClient (recordSubscription cb k (snd op))) c = Some ks \<longrightarrow> distinct ks"
        using inv(1) step
        by (auto simp: recordSubscription_def sub_inv_def umap_at_def split: option.splits)
    qed
    moreover have "synced delivers subscribable hw_ok (recordSubscription cb k (snd op))"
      using True step sb sub k(1) by (simp add: synced_def frames)
    ultimately show ?thesis using True step by (simp add: res frames)
  next
    case False
    have "sub_inv mode {} (snd op)"
      using inv(1) cfg False mode k(1) unfolding sub_inv_def frames st by (cases cont) auto
    moreover have "synced delivers subscribable hw_ok (snd op)"
      using False step sb by (simp add: synced_def frames)
    ultimately show ?thesis using False step by (simp add: res frames)
  qed
qed

text \<open>The same for removing one, which the hardware cannot refuse.\<close>

lemma removeOnChangeSubscriber_step:
  fixes sm :: "'h SubscriptionManager" and k c
  defines "h \<equiv> mVehicleHardware sm" and "op \<equiv> removeOnChangeSubscriberLocked hw k sm"
  assumes inv: "sub_inv mode X sm" and ok: "hw_ok h" "subscribable h (propId k)"
    and del: "\<And>j. delivers h j \<longleftrightarrow> clientsOf sm j \<noteq> {}" and c: "c \<in> clientsOf sm k"
  shows "fst op = Inr () \<and> clientsOf (snd op) = clientsOf sm \<and>
    mSubscribedPropsByClient (snd op) = mSubscribedPropsByClient sm \<and>
    map_of (mClientsByPropIdAreaId (snd op)) = map_of (mClientsByPropIdAreaId sm) \<and>
    hw_ok (mVehicleHardware (snd op)) \<and> subscribable (mVehicleHardware (snd op)) = subscribable h \<and>
    (\<forall>j. delivers (mVehicleHardware (snd op)) j \<longleftrightarrow>
       (if j = k then clientsOf sm k - {c} \<noteq> {} else clientsOf sm j \<noteq> {})) \<and>
    map_of (mContSubConfigsByPropIdArea (snd op)) = map_of (mContSubConfigsByPropIdArea sm)"
proof -
  have kc: "map_of (mClientsByPropIdAreaId sm) k \<noteq> None" using sub_inv_clients [OF inv, of k] c by auto
  define m where "m = umap_at [] k (mClientsByPropIdAreaId sm)"
  have k: "umap_keys m = clientsOf sm k" by (simp add: m_def clientsOf_def)
  have fin: "finite (clientsOf sm k)" unfolding k [symmetric] by (rule finite_dom_map_of)
  have "length m = card (clientsOf sm k)"
    using umap_card [OF sub_inv_wf [OF inv], of k] k by (simp add: m_def)
  also have "\<dots> = Suc (card (clientsOf sm k - {c}))" by (rule card_Suc_Diff1 [OF fin c, symmetric])
  finally have "length m > 1 \<longleftrightarrow> card (clientsOf sm k - {c}) \<noteq> 0" by simp
  then have len: "length m > 1 \<longleftrightarrow> clientsOf sm k - {c} \<noteq> {}"
    using fin by (simp only: card_eq_0_iff) blast
  have at: "map_of (umap_touch [] k (mClientsByPropIdAreaId sm)) = map_of (mClientsByPropIdAreaId sm)"
    using kc by (auto simp: map_of_umap_touch fun_eq_iff)
  have cl: "clientsOf (sm\<lparr>mClientsByPropIdAreaId := umap_touch [] k (mClientsByPropIdAreaId sm)\<rparr>) = clientsOf sm"
    by (simp add: clientsOf_def fun_eq_iff)
  show ?thesis
    using ok del len c unsubscribe_ok [OF ok(1)] unsubscribe_delivers [OF ok(1)]
    unfolding op_def removeOnChangeSubscriberLocked_def Let_def m_def [symmetric]
    by (auto simp: h_def [symmetric] at cl hw_ok_ops subscribable_ops fun_eq_iff)
qed

lemma removeContinuousSubscriber_step:
  fixes sm :: "'h SubscriptionManager" and k c
  defines "h \<equiv> mVehicleHardware sm" and "op \<equiv> removeContinuousSubscriberLocked hw c k sm"
  assumes inv: "sub_inv mode X sm" and ok: "hw_ok h" "subscribable h (propId k)"
    and del: "\<And>j. delivers h j \<longleftrightarrow> clientsOf sm j \<noteq> {}" and c: "c \<in> clientsOf sm k"
    and some: "map_of (mContSubConfigsByPropIdArea sm) k = Some cfg0"
  shows "fst op = Inr () \<and> clientsOf (snd op) = clientsOf sm \<and>
    mSubscribedPropsByClient (snd op) = mSubscribedPropsByClient sm \<and>
    map_of (mClientsByPropIdAreaId (snd op)) = map_of (mClientsByPropIdAreaId sm) \<and>
    hw_ok (mVehicleHardware (snd op)) \<and> subscribable (mVehicleHardware (snd op)) = subscribable h \<and>
    (\<forall>j. delivers (mVehicleHardware (snd op)) j \<longleftrightarrow>
       (if j = k then clientsOf sm k - {c} \<noteq> {} else clientsOf sm j \<noteq> {})) \<and>
    (\<exists>cfg. map_of (mContSubConfigsByPropIdArea (snd op)) = (map_of (mContSubConfigsByPropIdArea sm))(k \<mapsto> cfg) \<and>
       mode (propId k) \<and> cfg_ok cfg \<and> umap_keys (mConfigByClient cfg) = clientsOf sm k - {c})"
proof -
  define old where "old = contConfig k sm"
  define new where "new = removeClient c old"
  have md: "mode (propId k)" using inv some by (auto simp: sub_inv_def)
  have old: "cfg_ok old" "umap_keys (mConfigByClient old) = clientsOf sm k"
    using sub_inv_cont [OF inv md] by (simp_all add: old_def)
  have new: "cfg_ok new" "umap_keys (mConfigByClient new) = clientsOf sm k - {c}"
    using cfg_ok_removeClient [OF old(1)] old(2) by (simp_all add: new_def)
  have ne: "mConfigByClient new \<noteq> [] \<longleftrightarrow> clientsOf sm k - {c} \<noteq> {}" "mConfigByClient old \<noteq> []"
    using c by (auto simp only: umap_empty_iff new(2) old(2))
  have op: "op = updateContSubConfigsLocked hw k new (touchContConfig k sm)"
    by (simp add: op_def removeContinuousSubscriberLocked_def old_def new_def)
  have at: "contConfig k (touchContConfig k sm) = old" by (simp add: old_def)
  have dk: "delivers h k" using del c by auto
  note u = update_cont [of "touchContConfig k sm" k new, unfolded at, folded op]
  have u': "fst op = Inr ()" "mClientsByPropIdAreaId (snd op) = mClientsByPropIdAreaId sm"
    "mSubscribedPropsByClient (snd op) = mSubscribedPropsByClient sm"
    "hw_ok (mVehicleHardware (snd op))" "subscribable (mVehicleHardware (snd op)) = subscribable h"
    "map_of (mContSubConfigsByPropIdArea (snd op)) = (map_of (mContSubConfigsByPropIdArea sm))(k \<mapsto> new)"
    "\<forall>j. delivers (mVehicleHardware (snd op)) j \<longleftrightarrow>
       (if j = k then mConfigByClient new \<noteq> [] else delivers h j)"
    using u new old ok dk ne by (simp_all add: h_def [symmetric])
  have "clientsOf (snd op) = clientsOf sm" using u'(2) by (simp add: clientsOf_def fun_eq_iff)
  then show ?thesis using u' ne del md new by auto
qed

text \<open>Forgetting the client then loses exactly its entry for the property, which is the exception recorded.\<close>

lemma dropClient_clients_wf:
  assumes inv: "sub_inv mode X sm" and cl: "clientsOf sm1 = clientsOf sm"
    and clients: "map_of (mClientsByPropIdAreaId sm1) = map_of (mClientsByPropIdAreaId sm)"
    and m: "map_of (mClientsByPropIdAreaId (dropClient c k sm1)) j = Some m"
  shows "umap_wf m \<and> m \<noteq> []"
proof (cases "j = k")
  case True
  have at: "umap_at [] k (mClientsByPropIdAreaId sm1) = umap_at [] k (mClientsByPropIdAreaId sm)"
    using clients by (simp add: umap_at_def)
  have m': "m = umap_erase c (umap_at [] k (mClientsByPropIdAreaId sm))" "\<not> clientsOf sm k \<subseteq> {c}"
    using m True clients cl unfolding map_of_clients_dropClient at by (auto split: if_splits)
  have "umap_keys m = clientsOf sm k - {c}" by (auto simp: m'(1) clientsOf_def)
  then have "m \<noteq> []" using m'(2) by auto
  then show ?thesis using umap_wf_erase [OF sub_inv_wf [OF inv, of k]] m'(1) by simp
next
  case False
  then show ?thesis using m clients inv by (simp add: map_of_clients_dropClient sub_inv_def)
qed

lemma dropClient_cont:
  assumes cl: "clientsOf sm1 = clientsOf sm"
    and cont: "map_of (mContSubConfigsByPropIdArea sm1) = map_of (mContSubConfigsByPropIdArea sm) \<and>
       map_of (mContSubConfigsByPropIdArea sm) k = None \<or>
     (\<exists>cfg. map_of (mContSubConfigsByPropIdArea sm1) = (map_of (mContSubConfigsByPropIdArea sm))(k \<mapsto> cfg) \<and>
        mode (propId k) \<and> cfg_ok cfg \<and> umap_keys (mConfigByClient cfg) = clientsOf sm k - {c})"
  shows "j \<noteq> k \<Longrightarrow>
      map_of (mContSubConfigsByPropIdArea (dropClient c k sm1)) j = map_of (mContSubConfigsByPropIdArea sm) j"
    and "map_of (mContSubConfigsByPropIdArea (dropClient c k sm1)) k = None \<and>
        map_of (mContSubConfigsByPropIdArea sm) k = None \<or>
      map_of (mContSubConfigsByPropIdArea (dropClient c k sm1)) k = None \<and> clientsOf sm k \<subseteq> {c} \<or>
      (\<exists>cfg. map_of (mContSubConfigsByPropIdArea (dropClient c k sm1)) k = Some cfg \<and>
         mode (propId k) \<and> cfg_ok cfg \<and> umap_keys (mConfigByClient cfg) = clientsOf sm k - {c})"
proof -
  show "map_of (mContSubConfigsByPropIdArea (dropClient c k sm1)) j = map_of (mContSubConfigsByPropIdArea sm) j"
    if "j \<noteq> k"
    using cont that by (elim disjE exE conjE) (simp_all add: map_of_cont_dropClient)
qed (use cont in \<open>unfold map_of_cont_dropClient cl, cases "clientsOf sm k \<subseteq> {c}", auto\<close>)

lemma dropClient_inv:
  fixes sm sm1 :: "'h SubscriptionManager" and k c
  assumes inv: "sub_inv mode X sm" and cl: "clientsOf sm1 = clientsOf sm"
    and clients: "map_of (mClientsByPropIdAreaId sm1) = map_of (mClientsByPropIdAreaId sm)"
    and props: "mSubscribedPropsByClient sm1 = mSubscribedPropsByClient sm"
    and cont: "map_of (mContSubConfigsByPropIdArea sm1) = map_of (mContSubConfigsByPropIdArea sm) \<and>
       map_of (mContSubConfigsByPropIdArea sm) k = None \<or>
     (\<exists>cfg. map_of (mContSubConfigsByPropIdArea sm1) = (map_of (mContSubConfigsByPropIdArea sm))(k \<mapsto> cfg) \<and>
        mode (propId k) \<and> cfg_ok cfg \<and> umap_keys (mConfigByClient cfg) = clientsOf sm k - {c})"
  shows "sub_inv mode (insert (k, c) X) (dropClient c k sm1)"
proof -
  have fr: "clientsOf (dropClient c k sm1) = (clientsOf sm)(k := clientsOf sm k - {c})"
    "mSubscribedPropsByClient (dropClient c k sm1) = mSubscribedPropsByClient sm"
    using cl props by (auto simp: fun_eq_iff)
  then have pr: "propsOf (dropClient c k sm1) = propsOf sm" by (simp add: propsOf_def fun_eq_iff)
  note other = dropClient_cont(1) [where mode = mode and k = k and c = c, OF cl cont]
    and at_k = dropClient_cont(2) [where mode = mode and k = k and c = c, OF cl cont]
  have i3: "mode (propId j) \<and> cfg_ok cfg \<and> umap_keys (mConfigByClient cfg) = clientsOf sm j"
    if "map_of (mContSubConfigsByPropIdArea sm) j = Some cfg" for j cfg
    using inv that by (simp add: sub_inv_def)
  have i4: "map_of (mContSubConfigsByPropIdArea sm) j \<noteq> None" if "clientsOf sm j \<noteq> {}" "mode (propId j)" for j
    using inv that by (simp add: sub_inv_def)
  have "mode (propId j) \<and> cfg_ok cfg \<and> umap_keys (mConfigByClient cfg) = clientsOf (dropClient c k sm1) j"
    if m: "map_of (mContSubConfigsByPropIdArea (dropClient c k sm1)) j = Some cfg" for j cfg
    using at_k other [of j] m i3 [of j cfg] unfolding fr
    by (cases "j = k"; elim disjE exE conjE; simp)
  moreover have "map_of (mContSubConfigsByPropIdArea (dropClient c k sm1)) j \<noteq> None"
    if m: "clientsOf (dropClient c k sm1) j \<noteq> {}" "mode (propId j)" for j
    using at_k other [of j] m i4 [of j] unfolding fr
    by (cases "j = k"; elim disjE exE conjE; force)
  moreover have "d \<in> clientsOf (dropClient c k sm1) j \<longleftrightarrow>
      j \<in> propsOf (dropClient c k sm1) d \<and> (j, d) \<notin> insert (k, c) X" for j d
    using inv unfolding sub_inv_def fr pr by auto
  moreover have "distinct ks" if "map_of (mSubscribedPropsByClient (dropClient c k sm1)) d = Some ks" for d ks
    using inv that unfolding sub_inv_def fr by blast
  ultimately show ?thesis
    using dropClient_clients_wf [OF inv cl clients, where c = c and k = k] unfolding sub_inv_def by blast
qed

lemma unsubscribeArea_step:
  fixes sm :: "'h SubscriptionManager" and k c
  defines "h \<equiv> mVehicleHardware sm" and "res \<equiv> unsubscribePropIdAreaIdLocked hw c k sm"
  assumes inv: "sub_inv mode X sm" "synced delivers subscribable hw_ok sm" and c: "c \<in> clientsOf sm k"
  shows "fst res = Inr () \<and> sub_inv mode (insert (k, c) X) (snd res) \<and>
    synced delivers subscribable hw_ok (snd res) \<and> subscribable (mVehicleHardware (snd res)) = subscribable h \<and>
    mSubscribedPropsByClient (snd res) = mSubscribedPropsByClient sm \<and>
    clientsOf (snd res) = (clientsOf sm)(k := clientsOf sm k - {c})"
proof -
  have ok: "hw_ok h" "subscribable h (propId k)" and del: "\<And>j. delivers h j \<longleftrightarrow> clientsOf sm j \<noteq> {}"
    using inv(2) c by (auto simp: synced_def h_def)
  define op where "op = (if map_of (mContSubConfigsByPropIdArea sm) k \<noteq> None
    then removeContinuousSubscriberLocked hw c k sm else removeOnChangeSubscriberLocked hw k sm)"
  have kc: "map_of (mClientsByPropIdAreaId sm) k \<noteq> None" using sub_inv_clients [OF inv(1), of k] c by auto
  have "fst op = Inr () \<and> clientsOf (snd op) = clientsOf sm \<and>
    mSubscribedPropsByClient (snd op) = mSubscribedPropsByClient sm \<and>
    map_of (mClientsByPropIdAreaId (snd op)) = map_of (mClientsByPropIdAreaId sm) \<and>
    hw_ok (mVehicleHardware (snd op)) \<and> subscribable (mVehicleHardware (snd op)) = subscribable h \<and>
    (\<forall>j. delivers (mVehicleHardware (snd op)) j \<longleftrightarrow>
       (if j = k then clientsOf sm k - {c} \<noteq> {} else clientsOf sm j \<noteq> {})) \<and>
    (map_of (mContSubConfigsByPropIdArea (snd op)) = map_of (mContSubConfigsByPropIdArea sm) \<and>
       map_of (mContSubConfigsByPropIdArea sm) k = None \<or>
     (\<exists>cfg. map_of (mContSubConfigsByPropIdArea (snd op)) = (map_of (mContSubConfigsByPropIdArea sm))(k \<mapsto> cfg) \<and>
        mode (propId k) \<and> cfg_ok cfg \<and> umap_keys (mConfigByClient cfg) = clientsOf sm k - {c}))"
  proof (cases "map_of (mContSubConfigsByPropIdArea sm) k")
    case None
    then show ?thesis
      using removeOnChangeSubscriber_step [OF inv(1), of k c] ok del c
      by (simp add: op_def h_def [symmetric])
  next
    case (Some cfg0)
    then show ?thesis
      using removeContinuousSubscriber_step [OF inv(1), of k c cfg0] ok del c
      by (simp add: op_def h_def [symmetric])
  qed
  note op_facts = this
  have res: "fst res = Inr ()" "snd res = dropClient c k (snd op)"
    using op_facts kc unfolding res_def unsubscribePropIdAreaIdLocked_def op_def
    by (auto simp: fst_bindE snd_bindE split: if_splits sum.splits)
  have fr: "clientsOf (snd res) = (clientsOf sm)(k := clientsOf sm k - {c})"
    "mSubscribedPropsByClient (snd res) = mSubscribedPropsByClient sm"
    using op_facts by (auto simp: res fun_eq_iff)
  have "sub_inv mode (insert (k, c) X) (snd res)"
    unfolding res using op_facts by (intro dropClient_inv [OF inv(1)]) blast+
  moreover have "synced delivers subscribable hw_ok (snd res)"
    using op_facts inv(2) unfolding synced_def fr by (auto simp: res h_def)
  ultimately show ?thesis using fr res op_facts by simp
qed

definition good :: "(int32 \<Rightarrow> bool) \<Rightarrow> (PropIdAreaId \<times> ClientIdType) set \<Rightarrow> 'h \<Rightarrow> 'h SubscriptionManager \<Rightarrow> bool" where
  "good mode X h sm \<longleftrightarrow> sub_inv mode X sm \<and> synced delivers subscribable hw_ok sm \<and>
     subscribable (mVehicleHardware sm) = subscribable h"

lemma goodI_frame:
  assumes "good mode X h sm" "sub_inv mode Y sm'" "clientsOf sm' = clientsOf sm"
    "hw_ok (mVehicleHardware sm')" "delivers (mVehicleHardware sm') = delivers (mVehicleHardware sm)"
    "subscribable (mVehicleHardware sm') = subscribable (mVehicleHardware sm)"
  shows "good mode Y h sm'"
  using assms unfolding good_def synced_def by metis

lemma subscribe_good:
  assumes "good mode {} h sm"
    and "\<forall>option \<in> set options. mode (so_propId option) = cont \<and> subscribable h (so_propId option) \<and>
      so_sampleRate option \<noteq> FNaN"
  shows "good mode {} h (snd (subscribe log10f hw cb options cont sm))"
proof (cases "checkOptions log10f options cont")
  case False
  then show ?thesis using assms by (simp add: subscribe_def)
next
  case True
  have "good mode {} h (snd (forE (\<lambda>option. forE (subscribeArea hw cb cont option) (so_areaIds option)) options sm))"
  proof (rule forE_invariant [of "good mode {} h"])
    fix option s assume o: "option \<in> set options" and g: "good mode {} h s"
    have rate: "cont \<Longrightarrow> fp_lt (FFin 0) (so_sampleRate option)"
      using True o assms(2) by (auto simp: checkOptions_def intro: checkSampleRate_pos)
    show "good mode {} h (snd (forE (subscribeArea hw cb cont option) (so_areaIds option) s))"
    proof (rule forE_invariant [of "good mode {} h"])
      fix a s assume g: "good mode {} h s"
      then show "good mode {} h (snd (subscribeArea hw cb cont option a s))"
        using subscribeArea_step [of mode s option cont cb a] o assms(2) rate
        by (auto simp: good_def)
    qed (rule g)
  qed (rule assms(1))
  then show ?thesis using True by (simp add: subscribe_def)
qed

lemma unsubscribeOne_good:
  assumes "good mode {} h sm" "k \<in> propsOf sm c"
  shows "fst (unsubscribeOne hw c k sm) = Inr () \<and> good mode {} h (snd (unsubscribeOne hw c k sm)) \<and>
    clientsOf (snd (unsubscribeOne hw c k sm)) = (clientsOf sm)(k := clientsOf sm k - {c}) \<and>
    propsOf (snd (unsubscribeOne hw c k sm)) = (propsOf sm)(c := propsOf sm c - {k})"
proof -
  have inv: "sub_inv mode {} sm" "synced delivers subscribable hw_ok sm" using assms by (auto simp: good_def)
  then have c: "c \<in> clientsOf sm k" using assms(2) by (auto simp: sub_inv_def)
  define sm1 where "sm1 = snd (unsubscribePropIdAreaIdLocked hw c k sm)"
  note u = unsubscribeArea_step [OF inv c, folded sm1_def]
  define sm2 where "sm2 = eraseSubscribedProp c k sm1"
  have b: "fst (unsubscribeOne hw c k sm) = Inr ()" "snd (unsubscribeOne hw c k sm) = sm2"
    using u by (simp_all add: unsubscribeOne_def fst_bindE snd_bindE sm1_def [symmetric] sm2_def)
  have d: "distinct (uset_erase k (umap_at [] c (mSubscribedPropsByClient sm1)))"
    using u by (auto simp: sub_inv_def umap_at_def split: option.splits)
  have f: "sub_inv mode {} sm2 \<and> clientsOf sm2 = clientsOf sm1 \<and> propsOf sm2 = (propsOf sm1)(c := propsOf sm1 c - {k})"
    using sub_inv_forget [of mode "insert (k, c) {}" sm1 c
        "uset_erase k (umap_at [] c (mSubscribedPropsByClient sm1))" sm2] u d
    by (simp add: sm2_def eraseSubscribedProp_def propsOf_def set_diff_eq)
  have pr: "propsOf sm1 = propsOf sm" using u by (simp add: propsOf_def fun_eq_iff)
  have "good mode {(k, c)} h sm1" using u assms(1) by (simp add: good_def)
  then have "good mode {} h sm2"
    by (rule goodI_frame) (use f u in \<open>simp_all add: sm2_def eraseSubscribedProp_def synced_def\<close>)
  then show ?thesis using f u pr by (simp add: b)
qed

lemma unsubscribe_loop:
  assumes "good mode {} h sm" "distinct ks" "set ks \<subseteq> propsOf sm c"
  shows "fst (forE (unsubscribeOne hw c) ks sm) = Inr () \<and>
    good mode {} h (snd (forE (unsubscribeOne hw c) ks sm)) \<and>
    (\<forall>j. clientsOf (snd (forE (unsubscribeOne hw c) ks sm)) j =
       (if j \<in> set ks then clientsOf sm j - {c} else clientsOf sm j))"
  using assms
proof (induction ks arbitrary: sm)
  case (Cons k ks)
  define sm2 where "sm2 = snd (unsubscribeOne hw c k sm)"
  have b: "unsubscribeOne hw c k sm = (Inr (), sm2)" "good mode {} h sm2"
    "clientsOf sm2 = (clientsOf sm)(k := clientsOf sm k - {c})" "propsOf sm2 = (propsOf sm)(c := propsOf sm c - {k})"
    using unsubscribeOne_good [OF Cons.prems(1), of k c] Cons.prems(3) by (auto simp: sm2_def prod_eq_iff)
  have "set ks \<subseteq> propsOf sm2 c" "distinct ks" using b Cons.prems by auto
  from Cons.IH [OF b(2) this(2) this(1)] show ?case
    using b(1,3) Cons.prems(2) by (simp add: fun_eq_iff) 
qed simp

lemma eraseIfEmpty_good:
  assumes "good mode {} h sm"
  shows "good mode {} h (eraseIfEmpty c sm)" "clientsOf (eraseIfEmpty c sm) = clientsOf sm"
proof -
  define sm2 where "sm2 = eraseIfEmpty c sm"
  have inv: "sub_inv mode {} sm" using assms by (simp add: good_def)
  have f: "sub_inv mode {} sm2 \<and> clientsOf sm2 = clientsOf sm"
  proof (cases "umap_at [] c (mSubscribedPropsByClient sm) = []")
    case True
    then show ?thesis
      using sub_inv_forget [OF inv, of c "[]" sm2 "(map_of (mSubscribedPropsByClient sm))(c := None)"]
      by (simp add: sm2_def eraseIfEmpty_def propsOf_def)
  next
    case False
    then show ?thesis using inv by (simp add: sm2_def eraseIfEmpty_def)
  qed
  have h: "mVehicleHardware sm2 = mVehicleHardware sm" by (simp add: sm2_def eraseIfEmpty_def)
  show "clientsOf (eraseIfEmpty c sm) = clientsOf sm" using f by (simp add: sm2_def)
  have "good mode {} h sm2"
    by (rule goodI_frame [OF assms]) (use f h assms in \<open>auto simp: good_def synced_def\<close>)
  then show "good mode {} h (eraseIfEmpty c sm)" by (simp add: sm2_def)
qed

lemma unsubscribe_good:
  assumes "good mode {} h sm"
  shows "fst (unsubscribe hw c ps sm) = Inr () \<and> good mode {} h (snd (unsubscribe hw c ps sm)) \<and>
    (\<forall>j. clientsOf (snd (unsubscribe hw c ps sm)) j =
       (if propId j \<in> set ps then clientsOf sm j - {c} else clientsOf sm j))"
proof (cases "map_of (mSubscribedPropsByClient sm) c")
  case None
  have "c \<notin> clientsOf sm j" for j
    using assms None by (auto simp: good_def sub_inv_def propsOf_def)
  then show ?thesis using None assms by (simp add: unsubscribe_def)
next
  case (Some subscribed)
  define ks where "ks = filter (\<lambda>k. propId k \<in> set ps) subscribed"
  define sm1 where "sm1 = snd (forE (unsubscribeOne hw c) ks sm)"
  have inv: "sub_inv mode {} sm" using assms by (simp add: good_def)
  have pr: "propsOf sm c = set subscribed" using Some by (simp add: propsOf_def)
  have "distinct ks" "set ks \<subseteq> propsOf sm c" using inv Some pr by (auto simp: ks_def sub_inv_def)
  note l = unsubscribe_loop [OF assms this, folded sm1_def]
  have r: "fst (unsubscribe hw c ps sm) = Inr ()" "snd (unsubscribe hw c ps sm) = eraseIfEmpty c sm1"
    using l Some by (simp_all add: unsubscribe_def fst_bindE snd_bindE ks_def [symmetric] sm1_def [symmetric])
  have "j \<in> set ks \<longleftrightarrow> propId j \<in> set ps \<and> c \<in> clientsOf sm j" for j
    using inv pr by (auto simp: ks_def sub_inv_def)
  then have "clientsOf sm1 j = (if propId j \<in> set ps then clientsOf sm j - {c} else clientsOf sm j)" for j
    using l by auto
  then show ?thesis using r l eraseIfEmpty_good [of mode h sm1 c] by simp
qed

text \<open>Unsubscribing from everything erases the client's set only at the end.\<close>

lemma unsubscribeAll_loop:
  assumes "good mode X h sm" "distinct ks" "set ks \<subseteq> {k. c \<in> clientsOf sm k}"
  shows "fst (forE (unsubscribePropIdAreaIdLocked hw c) ks sm) = Inr () \<and>
    good mode (X \<union> {(k, c) |k. k \<in> set ks}) h (snd (forE (unsubscribePropIdAreaIdLocked hw c) ks sm)) \<and>
    mSubscribedPropsByClient (snd (forE (unsubscribePropIdAreaIdLocked hw c) ks sm)) = mSubscribedPropsByClient sm \<and>
    (\<forall>j. clientsOf (snd (forE (unsubscribePropIdAreaIdLocked hw c) ks sm)) j =
       (if j \<in> set ks then clientsOf sm j - {c} else clientsOf sm j))"
  using assms
proof (induction ks arbitrary: sm X)
  case (Cons k ks)
  define sm2 where "sm2 = snd (unsubscribePropIdAreaIdLocked hw c k sm)"
  have g: "sub_inv mode X sm" "synced delivers subscribable hw_ok sm" "c \<in> clientsOf sm k"
    using Cons.prems by (auto simp: good_def)
  note u = unsubscribeArea_step [OF g, folded sm2_def]
  have b: "unsubscribePropIdAreaIdLocked hw c k sm = (Inr (), sm2)" "good mode (insert (k, c) X) h sm2"
    "clientsOf sm2 = (clientsOf sm)(k := clientsOf sm k - {c})"
    "mSubscribedPropsByClient sm2 = mSubscribedPropsByClient sm"
    using u Cons.prems(1) by (auto simp: sm2_def prod_eq_iff good_def)
  have X: "insert (k, c) X \<union> {(k, c) |k. k \<in> set ks} = X \<union> {(k', c) |k'. k' \<in> set (k # ks)}" by auto
  have "set ks \<subseteq> {k. c \<in> clientsOf sm2 k}" "distinct ks" using b Cons.prems by auto
  from Cons.IH [OF b(2) this(2) this(1)] show ?case
    using b(1,3,4) Cons.prems(2) unfolding X by (simp add: fun_eq_iff)
qed simp

lemma unsubscribeSupported_good:
  assumes "good mode {} h sm"
  shows "good mode {} h (snd (unsubscribeSupportedValueChange hw c ks sm)) \<and>
    clientsOf (snd (unsubscribeSupportedValueChange hw c ks sm)) = clientsOf sm"
proof -
  define ts where "ts = filter (soleClient c sm) ks"
  define h1 where "h1 = (if ts = [] then mVehicleHardware sm
    else snd (hw_unsubscribeSupportedValueChange hw ts (mVehicleHardware sm)))"
  have ok: "hw_ok (mVehicleHardware sm)" using assms by (simp add: good_def synced_def)
  have h1: "hw_ok h1" "subscribable h1 = subscribable (mVehicleHardware sm)" "delivers h1 = delivers (mVehicleHardware sm)"
    using supported_value_ops [OF ok, of _ ts] ok by (auto simp: h1_def)
  define sm' where "sm' = snd (unsubscribeSupportedValueChange hw c ks sm)"
  have fr: "mVehicleHardware sm' = h1" "mClientsByPropIdAreaId sm' = mClientsByPropIdAreaId sm"
    "mSubscribedPropsByClient sm' = mSubscribedPropsByClient sm"
    "mContSubConfigsByPropIdArea sm' = mContSubConfigsByPropIdArea sm"
    by (auto simp: sm'_def unsubscribeSupportedValueChange_def Let_def ts_def [symmetric] h1_def snd_bindE
        split: sum.splits)
  have "sub_inv mode {} sm'" "clientsOf sm' = clientsOf sm"
    using sub_inv_cong [of sm' sm] fr assms by (simp_all add: good_def)
  moreover have "good mode {} h sm'"
    by (rule goodI_frame [OF assms]) (use calculation fr h1 in simp_all)
  ultimately show ?thesis by (simp add: sm'_def)
qed

lemma subscribeSupported_good:
  assumes "good mode {} h sm"
  shows "good mode {} h (snd (subscribeSupportedValueChange hw cb ks sm)) \<and>
    clientsOf (snd (subscribeSupportedValueChange hw cb ks sm)) = clientsOf sm"
proof -
  define h1 where "h1 = snd (hw_subscribeSupportedValueChange hw ks (mVehicleHardware sm))"
  have ok: "hw_ok (mVehicleHardware sm)" using assms by (simp add: good_def synced_def)
  have h1: "hw_ok h1" "subscribable h1 = subscribable (mVehicleHardware sm)" "delivers h1 = delivers (mVehicleHardware sm)"
    using supported_value_ops [OF ok, of _ ks] by (auto simp: h1_def)
  define sm' where "sm' = snd (subscribeSupportedValueChange hw cb ks sm)"
  have fr: "mVehicleHardware sm' = h1" "mClientsByPropIdAreaId sm' = mClientsByPropIdAreaId sm"
    "mSubscribedPropsByClient sm' = mSubscribedPropsByClient sm"
    "mContSubConfigsByPropIdArea sm' = mContSubConfigsByPropIdArea sm"
    by (simp_all add: sm'_def subscribeSupportedValueChange_def snd_bindE h1_def fold_frame [of mVehicleHardware]
        fold_frame [of mClientsByPropIdAreaId] fold_frame [of mSubscribedPropsByClient]
        fold_frame [of mContSubConfigsByPropIdArea])
  have "sub_inv mode {} sm'" "clientsOf sm' = clientsOf sm"
    using sub_inv_cong [of sm' sm] fr assms by (simp_all add: good_def)
  moreover have "good mode {} h sm'"
    by (rule goodI_frame [OF assms]) (use calculation fr h1 in simp_all)
  ultimately show ?thesis by (simp add: sm'_def)
qed

lemma unsubscribeAll_good:
  assumes "good mode {} h sm"
  shows "good mode {} h (snd (unsubscribeAll hw c sm)) \<and>
    (\<forall>j. clientsOf (snd (unsubscribeAll hw c sm)) j = clientsOf sm j - {c})"
proof -
  define first where "first = (case map_of (mSubscribedPropsByClient sm) c of
      None \<Rightarrow> (Inr () :: unit VhalResult, sm)
    | Some ks \<Rightarrow> bindE (forE (unsubscribePropIdAreaIdLocked hw c) ks)
        (\<lambda>_ sm. (Inr (), sm\<lparr>mSubscribedPropsByClient := umap_erase c (mSubscribedPropsByClient sm)\<rparr>)) sm)"
  have inv: "sub_inv mode {} sm" using assms by (simp add: good_def)
  have "fst first = Inr () \<and> good mode {} h (snd first) \<and> (\<forall>j. clientsOf (snd first) j = clientsOf sm j - {c})"
  proof (cases "map_of (mSubscribedPropsByClient sm) c")
    case None
    then have "c \<notin> clientsOf sm j" for j using inv by (auto simp: sub_inv_def propsOf_def)
    then show ?thesis using None assms by (simp add: first_def)
  next
    case (Some ks)
    have pr: "propsOf sm c = set ks" using Some by (simp add: propsOf_def)
    then have ks: "distinct ks" "set ks = {k. c \<in> clientsOf sm k}" using inv Some by (auto simp: sub_inv_def)
    define sm1 where "sm1 = snd (forE (unsubscribePropIdAreaIdLocked hw c) ks sm)"
    define sm2 where "sm2 = sm1\<lparr>mSubscribedPropsByClient := umap_erase c (mSubscribedPropsByClient sm1)\<rparr>"
    have "set ks \<subseteq> {k. c \<in> clientsOf sm k}" using ks(2) by simp
    note l = unsubscribeAll_loop [OF assms ks(1) this, folded sm1_def]
    have f: "fst first = Inr ()" "snd first = sm2"
      using l Some by (simp_all add: first_def fst_bindE snd_bindE sm1_def [symmetric] sm2_def)
    have i1: "sub_inv mode {(k, c) |k. k \<in> set ks} sm1" using l by (simp add: good_def)
    have p1: "propsOf sm1 c = set ks" using l pr by (simp add: propsOf_def)
    have s2: "sub_inv mode {} sm2 \<and> clientsOf sm2 = clientsOf sm1"
      using sub_inv_forget [OF i1, of c "[]" sm2 "(map_of (mSubscribedPropsByClient sm1))(c := None)"] p1
      by (auto simp: sm2_def)
    have g1: "good mode {(k, c) |k. k \<in> set ks} h sm1" using l by simp
    have "good mode {} h sm2"
      by (rule goodI_frame [OF g1]) (use s2 g1 in \<open>auto simp: sm2_def good_def synced_def\<close>)
    moreover have "clientsOf sm2 j = clientsOf sm j - {c}" for j
      using l s2 ks(2) by auto
    ultimately show ?thesis using f by simp
  qed
  moreover have "snd (unsubscribeAll hw c sm) = (case map_of (mSupportedValueChangePropIdAreaIdsByClient (snd first)) c of
        None \<Rightarrow> snd first | Some ks \<Rightarrow> snd (unsubscribeSupportedValueChange hw c ks (snd first)))"
    if "fst first = Inr ()"
    using that unfolding unsubscribeAll_def snd_bindE first_def [symmetric] by (auto split: option.splits)
  ultimately show ?thesis
    using unsubscribeSupported_good [of mode h "snd first" c] by (auto split: option.splits)
qed

lemma run_sub_op_good:
  assumes "good mode {} h sm" "sub_op_fits mode (subscribable h) op"
  shows "good mode {} h (run_sub_op log10f hw op sm)"
proof (cases op)
  case (DeliverOp vs)
  then show ?thesis
  proof (cases "getSubscribedClients vs sm")
    case (Some r)
    obtain out sm' where r: "getSubscribedClients vs sm = Some (out, sm')" using Some by (cases r) auto
    have inv: "sub_inv mode {} sm" using assms by (simp add: good_def)
    have "\<forall>v \<in> set vs. mode (pv_prop v)" using assms(2) DeliverOp by simp
    note d = getSubscribedClients_same [OF inv this r]
    have "good mode {} h sm'"
      by (rule goodI_frame [OF assms(1)]) (use d assms(1) in \<open>auto simp: good_def synced_def\<close>)
    then show ?thesis using r DeliverOp by simp
  qed (simp add: assms)
qed (use assms in \<open>simp_all add: subscribe_good unsubscribe_good unsubscribeAll_good
    subscribeSupported_good unsubscribeSupported_good\<close>)

lemma run_sub_ops_good:
  assumes "good mode {} h sm" "\<forall>op \<in> set ops. sub_op_fits mode (subscribable h) op"
  shows "good mode {} h (fold (run_sub_op log10f hw) ops sm)"
  using assms by (induction ops arbitrary: sm) (simp_all add: run_sub_op_good)

lemma good_new:
  assumes "hw_ok h" "\<And>k. \<not> delivers h k"
  shows "good mode {} h (newSubscriptionManager h)"
  using assms by (simp add: good_def synced_def newSubscriptionManager_def clientsOf_def umap_at_def
      sub_inv_new [unfolded newSubscriptionManager_def])

text \<open>The consequence a user of the manager relies on.\<close>

lemma run_in_sync:
  assumes "hw_ok h" "\<And>k. \<not> delivers h k" "\<forall>op \<in> set ops. sub_op_fits mode (subscribable h) op"
    and "sm = fold (run_sub_op log10f hw) ops (newSubscriptionManager h)"
  shows "delivers (mVehicleHardware sm) k \<longleftrightarrow> clientsOf sm k \<noteq> {}"
    "c \<in> clientsOf sm k \<longleftrightarrow> k \<in> propsOf sm c"
  using run_sub_ops_good [OF good_new [OF assms(1,2)] assms(3), of log10f] assms(4)
  by (auto simp: good_def synced_def sub_inv_def)

lemma run_unsubscribe_ok:
  assumes "hw_ok h" "\<And>k. \<not> delivers h k" "\<forall>op \<in> set ops. sub_op_fits mode (subscribable h) op"
    and "sm = fold (run_sub_op log10f hw) ops (newSubscriptionManager h)"
  shows "fst (unsubscribe hw c ps sm) = Inr ()"
    "clientsOf (snd (unsubscribe hw c ps sm)) k = (if propId k \<in> set ps then clientsOf sm k - {c} else clientsOf sm k)"
    "delivers (mVehicleHardware (snd (unsubscribe hw c ps sm))) k \<longleftrightarrow>
       clientsOf (snd (unsubscribe hw c ps sm)) k \<noteq> {}"
  using unsubscribe_good [OF run_sub_ops_good [OF good_new [OF assms(1,2)] assms(3), of log10f], of c ps]
    assms(4) by (auto simp: good_def synced_def)

end

section \<open>Routing\<close>

text \<open>What one client is sent for one value.\<close>

definition routed :: "'h SubscriptionManager \<Rightarrow> ClientIdType \<Rightarrow> VehiclePropValue \<Rightarrow> VehiclePropValue list" where
  "routed sm c v = (if c \<in> clientsOf sm (key_of v) then
     (case sanitizeByResolution (pv_value v) (getResolutionForClient c (contConfig (key_of v) sm)) of
        None \<Rightarrow> [] | Some val \<Rightarrow> [v\<lparr>pv_value := val\<rparr>]) else [])"

definition vur_filtered :: "'h SubscriptionManager \<Rightarrow> ClientIdType \<Rightarrow> VehiclePropValue \<Rightarrow> bool" where
  "vur_filtered sm c v \<longleftrightarrow> isVurEnabledForClient c (contConfig (key_of v) sm) \<and> \<not> mEnableVur (contConfig (key_of v) sm)"

definition sanitizable :: "'h SubscriptionManager \<Rightarrow> VehiclePropValue \<Rightarrow> bool" where
  "sanitizable sm v \<longleftrightarrow> (\<forall>c \<in> clientsOf sm (key_of v).
     sanitizeByResolution (pv_value v) (getResolutionForClient c (contConfig (key_of v) sm)) \<noteq> None)"

lemma sendTo_total:
  assumes "sanitizeByResolution (pv_value v) (getResolutionForClient c' (contConfig (key_of v) sm)) = Some val"
    and "contConfig (key_of v) (snd acc) = contConfig (key_of v) sm"
  shows "\<exists>acc'. sendTo v (c', cb') acc = Some acc' \<and>
    (\<forall>cb. cb \<noteq> cb' \<longrightarrow> umap_at [] cb (fst acc') = umap_at [] cb (fst acc)) \<and>
    (\<not> vur_filtered sm c' v \<longrightarrow>
       umap_at [] cb' (fst acc') = umap_at [] cb' (fst acc) @ [v\<lparr>pv_value := val\<rparr>])"
  using assms by (cases acc) (auto simp: sendTo_def Let_def vur_filtered_def split: prod.splits)

lemma contConfig_frame: "mContSubConfigsByPropIdArea sm' = mContSubConfigsByPropIdArea sm \<Longrightarrow>
    contConfig k sm' = contConfig k sm"
  by (simp add: contConfig_def)

lemma route_value:
  assumes "\<forall>(c', cb') \<in> set cs. c' \<in> clientsOf sm (key_of v) \<and> (cb' = cb \<longleftrightarrow> c' = c)" "distinct (map fst cs)"
    and "sanitizable sm v" "\<not> vur_filtered sm c v" "\<And>k. contConfig k (snd acc) = contConfig k sm"
  shows "\<exists>acc'. foldO (sendTo v) cs acc = Some acc' \<and>
    umap_at [] cb (fst acc') = umap_at [] cb (fst acc) @ (if c \<in> fst ` set cs then routed sm c v else []) \<and>
    (\<forall>k. contConfig k (snd acc') = contConfig k sm) \<and>
    mClientsByPropIdAreaId (snd acc') = mClientsByPropIdAreaId (snd acc)"
  using assms
proof (induction cs arbitrary: acc)
  case (Cons e cs)
  obtain c' cb' where e: "e = (c', cb')" by (cases e)
  have c': "c' \<in> clientsOf sm (key_of v)" "cb' = cb \<longleftrightarrow> c' = c" using Cons.prems(1) e by auto
  then obtain val where val: "sanitizeByResolution (pv_value v)
      (getResolutionForClient c' (contConfig (key_of v) sm)) = Some val"
    using Cons.prems(3) by (auto simp: sanitizable_def)
  obtain acc1 where acc1: "sendTo v (c', cb') acc = Some acc1"
    "cb \<noteq> cb' \<Longrightarrow> umap_at [] cb (fst acc1) = umap_at [] cb (fst acc)"
    "c' = c \<Longrightarrow> umap_at [] cb (fst acc1) = umap_at [] cb (fst acc) @ [v\<lparr>pv_value := val\<rparr>]"
    using sendTo_total [OF val, of acc cb'] Cons.prems(4,5) c'(2) by blast
  have cfg: "\<And>k. contConfig k (snd acc1) = contConfig k sm"
    using sendTo_frames(4) [OF acc1(1)] Cons.prems(5)
    by (metis contConfig_frame contConfig_touch)
  have rt: "c' = c \<Longrightarrow> routed sm c v = [v\<lparr>pv_value := val\<rparr>]" using c'(1) val by (simp add: routed_def)
  obtain acc2 where acc2: "foldO (sendTo v) cs acc1 = Some acc2"
    "umap_at [] cb (fst acc2) = umap_at [] cb (fst acc1) @ (if c \<in> fst ` set cs then routed sm c v else [])"
    "\<forall>k. contConfig k (snd acc2) = contConfig k sm"
    "mClientsByPropIdAreaId (snd acc2) = mClientsByPropIdAreaId (snd acc1)"
    using Cons.IH [of acc1] Cons.prems cfg by auto
  have "c' = c \<Longrightarrow> c \<notin> fst ` set cs" using Cons.prems(2) e by auto
  then show ?case
    using acc1 acc2 rt c'(2) sendTo_frames(2) [OF acc1(1)] by (auto simp: e)
qed simp

lemma route_values:
  assumes wf: "\<And>k m. map_of (mClientsByPropIdAreaId sm) k = Some m \<Longrightarrow> umap_wf m"
    and own: "\<And>k m c' cb'. map_of (mClientsByPropIdAreaId sm) k = Some m \<Longrightarrow> map_of m c' = Some cb' \<Longrightarrow>
        cb' = cb \<longleftrightarrow> c' = c"
    and vs: "\<forall>v \<in> set vs. sanitizable sm v \<and> \<not> vur_filtered sm c v"
    and acc: "\<And>k. contConfig k (snd acc) = contConfig k sm"
      "mClientsByPropIdAreaId (snd acc) = mClientsByPropIdAreaId sm"
  shows "\<exists>acc'. foldO (\<lambda>v acc. case map_of (mClientsByPropIdAreaId (snd acc)) (key_of v) of
               None \<Rightarrow> Some acc | Some cs \<Rightarrow> foldO (sendTo v) cs acc) vs acc = Some acc' \<and>
    umap_at [] cb (fst acc') = umap_at [] cb (fst acc) @ concat (map (routed sm c) vs)"
  using vs acc
proof (induction vs arbitrary: acc)
  case (Cons v vs)
  show ?case
  proof (cases "map_of (mClientsByPropIdAreaId sm) (key_of v)")
    case None
    then have "routed sm c v = []" by (simp add: routed_def clientsOf_def)
    then show ?thesis using None Cons by simp
  next
    case (Some cs)
    have wfc: "umap_wf cs" using wf Some by blast
    have keys: "umap_keys cs = clientsOf sm (key_of v)" using Some by (simp add: clientsOf_def)
    have e: "\<forall>(c', cb') \<in> set cs. c' \<in> clientsOf sm (key_of v) \<and> (cb' = cb \<longleftrightarrow> c' = c)"
      using own [OF Some] keys umap_wf_in_set [OF wfc] by (auto 4 3 simp: keys [symmetric])
    have d: "distinct (map fst cs)" using wfc by (simp add: umap_wf_def)
    obtain acc1 where a: "foldO (sendTo v) cs acc = Some acc1"
      "umap_at [] cb (fst acc1) = umap_at [] cb (fst acc) @ (if c \<in> fst ` set cs then routed sm c v else [])"
      "\<And>k. contConfig k (snd acc1) = contConfig k sm"
      "mClientsByPropIdAreaId (snd acc1) = mClientsByPropIdAreaId sm"
      using route_value [OF e d, of acc] Cons.prems by auto
    have "(if c \<in> fst ` set cs then routed sm c v else []) = routed sm c v"
      using keys by (simp add: routed_def dom_map_of_conv_image_fst)
    then show ?thesis
      using Cons.IH [of acc1] Cons.prems(1,3) a Some by auto
  qed
qed simp

lemma findValue_snoc: "findValue v vs = None \<Longrightarrow> findValue v (vs @ [v]) = Some v"
  by (induction vs) (auto simp: findValue_def split: if_splits)

section \<open>Properties\<close>

text \<open>
  Claim C10 (combined_config_spec). The configuration the hardware is asked for after adding a client has
  the greatest of the clients' sample rates (at least zero), the finest of their resolutions, and
  variable update rate exactly when every client enables it.
\<close>
theorem combined_config_spec:
  assumes "cfg' = addClient clientId sub cfg"
    and "\<forall>c \<in> snd ` set (mConfigByClient cfg'). sc_sampleRateHz c \<noteq> FNaN \<and> sc_resolution c \<noteq> FNaN"
  shows "(\<forall>c \<in> snd ` set (mConfigByClient cfg'). fp_le (sc_sampleRateHz c) (mMaxSampleRateHz cfg') \<and>
      fp_le (mMinRequiredResolution cfg') (sc_resolution c)) \<and>
    (mMaxSampleRateHz cfg' = FFin 0 \<or> (\<exists>c \<in> snd ` set (mConfigByClient cfg'). mMaxSampleRateHz cfg' = sc_sampleRateHz c)) \<and>
    (mMinRequiredResolution cfg' = FLT_MAX \<or>
       (\<exists>c \<in> snd ` set (mConfigByClient cfg'). mMinRequiredResolution cfg' = sc_resolution c)) \<and>
    (mEnableVur cfg' \<longleftrightarrow> (\<forall>c \<in> snd ` set (mConfigByClient cfg'). sc_enableVur c))"
proof -
  define m where "m = map snd (mConfigByClient cfg')"
  have f: "mMaxSampleRateHz cfg' = fst (fold combineStep m (FFin 0, FLT_MAX, True))"
    "mMinRequiredResolution cfg' = fst (snd (fold combineStep m (FFin 0, FLT_MAX, True)))"
    "mEnableVur cfg' = snd (snd (fold combineStep m (FFin 0, FLT_MAX, True)))"
    by (simp_all add: assms(1) addClient_def refresh_simps m_def)
  have s: "snd ` set (mConfigByClient cfg') = set m" by (simp add: m_def)
  have "FNaN \<notin> sc_sampleRateHz ` set m \<union> sc_resolution ` set m" using assms(2) s by force
  from combine_bounds [OF this, of "(FFin 0, FLT_MAX, True)"] show ?thesis
    unfolding f s by (auto simp: FLT_MAX_def)
qed


text \<open>
  The filter of variable update rate remembers the first value it
  saw of a property area and no other: after any further values have passed the filter, a value that
  differs from the last one but equals the first one is dropped, so the client is left with a stale
  value. (\<^verbatim>\<open>unordered_set::insert\<close> does not replace an equal key.)
\<close>
theorem vur_compares_with_first_value:
  assumes "findValue v (umap_at [] cb (mContSubValuesByCallback sm)) = None"
    and "\<forall>w \<in> set ws. key_of w = key_of v"
    and "key_of v' = key_of v" "raw_eq (pv_value v) (pv_value v')" "pv_status v' = pv_status v"
  shows "fst (isValueUpdatedLocked cb v' (fold (\<lambda>w s. snd (isValueUpdatedLocked cb w s)) (v # ws) sm)) = False"
proof -
  have keep: "findValue v (umap_at [] cb (mContSubValuesByCallback
      (fold (\<lambda>w s. snd (isValueUpdatedLocked cb w s)) ws s))) = Some v"
    if "findValue v (umap_at [] cb (mContSubValuesByCallback s)) = Some v" "\<forall>w \<in> set ws. key_of w = key_of v"
    for ws and s :: "'a SubscriptionManager"
    using that
  proof (induction ws arbitrary: s)
    case (Cons w ws)
    have fw: "findValue w = findValue v" using Cons.prems(2) by (simp add: findValue_def key_of_def fun_eq_iff)
    have "findValue v (umap_at [] cb (mContSubValuesByCallback (snd (isValueUpdatedLocked cb w s)))) = Some v"
      using Cons.prems(1) by (simp add: isValueUpdatedLocked_def Let_def fw insertValue_def)
    then show ?case using Cons by simp
  qed simp
  have "findValue v (umap_at [] cb (mContSubValuesByCallback (snd (isValueUpdatedLocked cb v sm)))) = Some v"
    using assms(1) by (simp add: isValueUpdatedLocked_def Let_def insertValue_def findValue_snoc)
  then have k: "findValue v (umap_at [] cb (mContSubValuesByCallback
      (fold (\<lambda>w s. snd (isValueUpdatedLocked cb w s)) (v # ws) sm))) = Some v"
    using keep assms(2) by simp
  have "findValue v' = findValue v" using assms(3) by (simp add: findValue_def key_of_def fun_eq_iff)
  then show ?thesis
    using k assms(4,5) by (simp add: isValueUpdatedLocked_def Let_def)
qed

section \<open>Witnesses\<close>

theorem combined_config_spec_witness:
  "mMaxSampleRateHz (addClient 2 \<lparr>sc_sampleRateHz = FFin 5, sc_resolution = FFin 1, sc_enableVur = True\<rparr>
     (addClient 1 \<lparr>sc_sampleRateHz = FFin 3, sc_resolution = FFin 0, sc_enableVur = False\<rparr>
       emptyContSubConfigs)) = FFin 5 \<and>
   \<not> mEnableVur (addClient 2 \<lparr>sc_sampleRateHz = FFin 5, sc_resolution = FFin 1, sc_enableVur = True\<rparr>
     (addClient 1 \<lparr>sc_sampleRateHz = FFin 3, sc_resolution = FFin 0, sc_enableVur = False\<rparr>
       emptyContSubConfigs))"
proof -
  define cfg where "cfg = addClient 2 \<lparr>sc_sampleRateHz = FFin 5, sc_resolution = FFin 1, sc_enableVur = True\<rparr>
     (addClient 1 \<lparr>sc_sampleRateHz = FFin 3, sc_resolution = FFin 0, sc_enableVur = False\<rparr> emptyContSubConfigs)"
  have m: "snd ` set (mConfigByClient cfg) =
      {\<lparr>sc_sampleRateHz = FFin 3, sc_resolution = FFin 0, sc_enableVur = False\<rparr>,
       \<lparr>sc_sampleRateHz = FFin 5, sc_resolution = FFin 1, sc_enableVur = True\<rparr>}"
    by (simp add: cfg_def addClient_def refresh_simps emptyContSubConfigs_def umap_put_def)
  show ?thesis
    using combined_config_spec [OF cfg_def] unfolding cfg_def [symmetric] m by auto
qed

text \<open>Client 7, with callback (1, 7), subscribed to one INT32 area, which is an on-change property.\<close>

definition sample_callback :: VehicleCallback where
  "sample_callback = \<lparr>cbPtr = 1, cbBinder = 7\<rparr>"

definition sample_event :: "int \<Rightarrow> int \<Rightarrow> VehiclePropValue" where
  "sample_event t i = \<lparr>pv_timestamp = t, pv_areaId = 0, pv_prop = 0x11400400, pv_status = AVAILABLE,
     pv_value = raw_default\<lparr>int32Values := [i]\<rparr>\<rparr>"

definition sample_manager :: "unit SubscriptionManager" where
  "sample_manager = recordSubscription sample_callback (PropIdAreaId 0x11400400 0) (newSubscriptionManager ())"


theorem vur_compares_with_first_value_witness:
  "fst (isValueUpdatedLocked sample_callback (sample_event 3 5)
     (fold (\<lambda>w s. snd (isValueUpdatedLocked sample_callback w s)) (sample_event 1 5 # [sample_event 2 6])
       (newSubscriptionManager ()))) = False"
proof (rule vur_compares_with_first_value)
  show "findValue (sample_event 1 5) (umap_at [] sample_callback
      (mContSubValuesByCallback (newSubscriptionManager ()))) = None"
    by (simp add: newSubscriptionManager_def findValue_def umap_at_def)
  show "raw_eq (pv_value (sample_event 1 5)) (pv_value (sample_event 3 5))"
    by (simp add: raw_eq_def sample_event_def raw_default_def)
qed (simp_all add: key_of_def sample_event_def)

end
