(* ===== verification/Property_Store.thy ===== *)
theory Property_Store
  imports Vehicle_Utils
begin

text \<open>
  \<^verbatim>\<open>utils/common/VehiclePropertyStore\<close>: configurations and current values, one record per property and
  in it one value per record identifier (area and token). The mutex of the class makes every
  operation atomic, so an operation is a function of the store. The value pool is a theory of
  its own, \<open>Value_Pool\<close>: here a pooled copy is the value itself.

  A callback is modelled by what it is called with: \<open>writeValue\<close> and \<open>refreshTimestamps\<close> return the
  list of \<open>StoreEvent\<close>s. The clock is a parameter of the operations that read it.
\<close>

section \<open>State\<close>

datatype RecordId = RecordId (rid_area: int32) (rid_token: int)

type_synonym TokenFunction = "VehiclePropValue \<Rightarrow> int"

record Record =
  rec_propConfig :: VehiclePropConfig
  rec_tokenFunction :: "TokenFunction option"
  rec_values :: "(RecordId, VehiclePropValue) umap"

datatype EventMode = ON_VALUE_CHANGE | ALWAYS | NEVER

datatype StoreEvent = OnValueChange VehiclePropValue | OnValuesChange "VehiclePropValue list"

record VehiclePropertyStore =
  mRecordsByPropId :: "(int32, Record) umap"
  mOnValueChangeCallback :: bool \<comment> \<open>whether a callback is set\<close>
  mOnValuesChangeCallback :: bool

definition emptyStore :: VehiclePropertyStore where
  "emptyStore = \<lparr>mRecordsByPropId = [], mOnValueChangeCallback = False,
     mOnValuesChangeCallback = False\<rparr>"

section \<open>Operations\<close>

definition getRecordLocked :: "int32 \<Rightarrow> VehiclePropertyStore \<Rightarrow> Record option" where
  "getRecordLocked p st = map_of (mRecordsByPropId st) p"

definition getRecordIdLocked :: "VehiclePropValue \<Rightarrow> Record \<Rightarrow> RecordId" where
  "getRecordIdLocked v r = RecordId (if isGlobalProp (pv_prop v) then 0 else pv_areaId v)
     (case rec_tokenFunction r of None \<Rightarrow> 0 | Some f \<Rightarrow> f v)"

definition readValueLocked :: "RecordId \<Rightarrow> Record \<Rightarrow> VehiclePropValue VhalResult" where
  "readValueLocked recId r =
     (case map_of (rec_values r) recId of Some v \<Rightarrow> Inr v | None \<Rightarrow> Inl NOT_AVAILABLE)"

definition registerProperty ::
  "VehiclePropConfig \<Rightarrow> TokenFunction option \<Rightarrow> VehiclePropertyStore \<Rightarrow> VehiclePropertyStore" where
  "registerProperty config tokenFunc st = st\<lparr>mRecordsByPropId := umap_put (pc_prop config)
     \<lparr>rec_propConfig = config, rec_tokenFunction = tokenFunc, rec_values = []\<rparr> (mRecordsByPropId st)\<rparr>"

text \<open>The record of property \<open>p\<close> with its values replaced.\<close>

definition putRecord :: "int32 \<Rightarrow> Record \<Rightarrow> VehiclePropertyStore \<Rightarrow> VehiclePropertyStore" where
  "putRecord p r st = st\<lparr>mRecordsByPropId := umap_put p r (mRecordsByPropId st)\<rparr>"

definition writeValue ::
  "int \<Rightarrow> VehiclePropValue \<Rightarrow> bool \<Rightarrow> EventMode \<Rightarrow> bool \<Rightarrow> VehiclePropertyStore \<Rightarrow>
     unit VhalResult \<times> StoreEvent list \<times> VehiclePropertyStore" where
  "writeValue now v0 updateStatus eventMode useCurrentTimestamp st =
    (let v1 = (if useCurrentTimestamp then v0\<lparr>pv_timestamp := now\<rparr> else v0); p = pv_prop v1 in
     case getRecordLocked p st of
       None \<Rightarrow> (Inl INVALID_ARG, [], st)
     | Some r \<Rightarrow>
       if \<not> isGlobalProp p \<and> getAreaConfigForValue v1 (rec_propConfig r) = None
       then (Inl INVALID_ARG, [], st)
       else
         let recId = getRecordIdLocked v1 r; old = map_of (rec_values r) recId in
         if (case old of Some o' \<Rightarrow> pv_timestamp o' > pv_timestamp v1 | None \<Rightarrow> False)
         then (Inl INVALID_ARG, [], st)
         else
           let v2 = (if updateStatus then v1
                     else v1\<lparr>pv_status := (case old of Some o' \<Rightarrow> pv_status o' | None \<Rightarrow> AVAILABLE)\<rparr>);
               valueUpdated = (case old of None \<Rightarrow> True
                 | Some o' \<Rightarrow> \<not> raw_eq (pv_value o') (pv_value v2) \<or> pv_status o' \<noteq> pv_status v2);
               st' = putRecord p (r\<lparr>rec_values := umap_put recId v2 (rec_values r)\<rparr>) st;
               events = (if eventMode = NEVER then []
                 else if \<not> mOnValuesChangeCallback st \<and> \<not> mOnValueChangeCallback st then []
                 else if eventMode = ALWAYS \<or> valueUpdated
                 then (if mOnValuesChangeCallback st then [OnValuesChange [v2]] else [OnValueChange v2])
                 else [])
           in (Inr (), events, st'))"

text \<open>
  One iteration of the loop of \<open>refreshTimestamps\<close>; \<open>clock\<close> gives the reading of
  \<^verbatim>\<open>elapsedRealtimeNano()\<close> in the iteration for a key.
\<close>

definition refreshOne ::
  "(PropIdAreaId \<Rightarrow> int) \<Rightarrow> PropIdAreaId \<times> EventMode \<Rightarrow> VehiclePropertyStore \<times> VehiclePropValue list \<Rightarrow>
     VehiclePropertyStore \<times> VehiclePropValue list" where
  "refreshOne clock entry acc =
    (let (k, eventMode) = entry; (st, updated) = acc in
     case getRecordLocked (propId k) st of
       None \<Rightarrow> (st, updated)
     | Some r \<Rightarrow>
       let q = \<lparr>pv_timestamp = 0, pv_areaId = areaId k, pv_prop = propId k, pv_status = AVAILABLE,
                pv_value = raw_default\<rparr>;
           recId = getRecordIdLocked q r in
       case map_of (rec_values r) recId of
         None \<Rightarrow> (st, updated)
       | Some v \<Rightarrow>
         let v' = v\<lparr>pv_timestamp := clock k\<rparr> in
         (putRecord (propId k) (r\<lparr>rec_values := umap_put recId v' (rec_values r)\<rparr>) st,
          if eventMode = ALWAYS then updated @ [v'] else updated))"

definition refreshTimestamps ::
  "(PropIdAreaId \<Rightarrow> int) \<Rightarrow> (PropIdAreaId, EventMode) umap \<Rightarrow> VehiclePropertyStore \<Rightarrow>
     StoreEvent list \<times> VehiclePropertyStore" where
  "refreshTimestamps clock modes st =
    (let (st', updated) = fold (refreshOne clock) modes (st, []) in
     (if updated = [] then []
      else if \<not> mOnValuesChangeCallback st \<and> \<not> mOnValueChangeCallback st then []
      else if mOnValuesChangeCallback st then [OnValuesChange updated]
      else map OnValueChange updated, st'))"

definition refreshTimestamp ::
  "(PropIdAreaId \<Rightarrow> int) \<Rightarrow> int32 \<Rightarrow> int32 \<Rightarrow> EventMode \<Rightarrow> VehiclePropertyStore \<Rightarrow>
     StoreEvent list \<times> VehiclePropertyStore" where
  "refreshTimestamp clock p a eventMode st =
     refreshTimestamps clock (umap_put (PropIdAreaId p a) eventMode []) st"

definition removeValue :: "VehiclePropValue \<Rightarrow> VehiclePropertyStore \<Rightarrow> VehiclePropertyStore" where
  "removeValue v st = (case getRecordLocked (pv_prop v) st of None \<Rightarrow> st
     | Some r \<Rightarrow> putRecord (pv_prop v)
         (r\<lparr>rec_values := umap_erase (getRecordIdLocked v r) (rec_values r)\<rparr>) st)"

definition removeValuesForProperty :: "int32 \<Rightarrow> VehiclePropertyStore \<Rightarrow> VehiclePropertyStore" where
  "removeValuesForProperty p st = (case getRecordLocked p st of None \<Rightarrow> st
     | Some r \<Rightarrow> putRecord p (r\<lparr>rec_values := []\<rparr>) st)"

definition readAllValues :: "VehiclePropertyStore \<Rightarrow> VehiclePropValue list" where
  "readAllValues st = concat (map (\<lambda>(_, r). map snd (rec_values r)) (mRecordsByPropId st))"

definition readValuesForProperty ::
  "int32 \<Rightarrow> VehiclePropertyStore \<Rightarrow> VehiclePropValue list VhalResult" where
  "readValuesForProperty p st = (case getRecordLocked p st of None \<Rightarrow> Inl INVALID_ARG
     | Some r \<Rightarrow> Inr (map snd (rec_values r)))"

definition readValue ::
  "VehiclePropValue \<Rightarrow> VehiclePropertyStore \<Rightarrow> VehiclePropValue VhalResult" where
  "readValue v st = (case getRecordLocked (pv_prop v) st of None \<Rightarrow> Inl INVALID_ARG
     | Some r \<Rightarrow> readValueLocked (getRecordIdLocked v r) r)"

definition readValueById ::
  "int32 \<Rightarrow> int32 \<Rightarrow> int \<Rightarrow> VehiclePropertyStore \<Rightarrow> VehiclePropValue VhalResult" where
  "readValueById p a token st = (case getRecordLocked p st of None \<Rightarrow> Inl INVALID_ARG
     | Some r \<Rightarrow> readValueLocked (RecordId (if isGlobalProp p then 0 else a) token) r)"

definition getAllConfigs :: "VehiclePropertyStore \<Rightarrow> VehiclePropConfig list" where
  "getAllConfigs st = map (\<lambda>(_, r). rec_propConfig r) (mRecordsByPropId st)"

definition getPropConfig :: "int32 \<Rightarrow> VehiclePropertyStore \<Rightarrow> VehiclePropConfig VhalResult" where
  "getPropConfig p st =
     (case getRecordLocked p st of None \<Rightarrow> Inl INVALID_ARG | Some r \<Rightarrow> Inr (rec_propConfig r))"

definition setOnValueChangeCallback :: "bool \<Rightarrow> VehiclePropertyStore \<Rightarrow> VehiclePropertyStore" where
  "setOnValueChangeCallback callback st = st\<lparr>mOnValueChangeCallback := callback\<rparr>"

definition setOnValuesChangeCallback :: "bool \<Rightarrow> VehiclePropertyStore \<Rightarrow> VehiclePropertyStore" where
  "setOnValuesChangeCallback callback st = st\<lparr>mOnValuesChangeCallback := callback\<rparr>"

lemmas store_op_defs [state_defs] =
  registerProperty_def writeValue_def removeValue_def removeValuesForProperty_def
  readValue_def readValueById_def getPropConfig_def readValuesForProperty_def

section \<open>The abstract store\<close>

text \<open>What a store holds: the value at a property and a record identifier.\<close>

definition stored :: "VehiclePropertyStore \<Rightarrow> int32 \<Rightarrow> RecordId \<Rightarrow> VehiclePropValue option" where
  "stored st p rid = (case getRecordLocked p st of None \<Rightarrow> None | Some r \<Rightarrow> map_of (rec_values r) rid)"

text \<open>The record identifier \<open>getRecordIdLocked\<close> computes for a value, in the store.\<close>

definition record_id :: "VehiclePropertyStore \<Rightarrow> VehiclePropValue \<Rightarrow> RecordId" where
  "record_id st v = (case getRecordLocked (pv_prop v) st of None \<Rightarrow> RecordId 0 0
     | Some r \<Rightarrow> getRecordIdLocked v r)"

text \<open>
  A value is filed under the identifier computed from it when it was written. The status may be set
  after that, and a refresh changes the time stamp where it is: \<open>refreshed\<close> says whether there may have
  been one.
\<close>

definition filed :: "bool \<Rightarrow> Record \<Rightarrow> RecordId \<Rightarrow> VehiclePropValue \<Rightarrow> bool" where
  "filed refreshed r rid v \<longleftrightarrow> (\<exists>t s. (refreshed \<or> t = pv_timestamp v) \<and>
     rid = getRecordIdLocked (v\<lparr>pv_timestamp := t, pv_status := s\<rparr>) r)"

definition keyed :: "bool \<Rightarrow> VehiclePropertyStore \<Rightarrow> bool" where
  "keyed refreshed st \<longleftrightarrow> (\<forall>p r rid v. getRecordLocked p st = Some r \<longrightarrow>
     map_of (rec_values r) rid = Some v \<longrightarrow> filed refreshed r rid v)"

definition store_wf :: "VehiclePropertyStore \<Rightarrow> bool" where
  "store_wf st \<longleftrightarrow> umap_wf (mRecordsByPropId st) \<and> keyed True st \<and>
     (\<forall>p r. getRecordLocked p st = Some r \<longrightarrow> umap_wf (rec_values r) \<and> pc_prop (rec_propConfig r) = p \<and>
       (\<forall>rid v. map_of (rec_values r) rid = Some v \<longrightarrow>
          pv_prop v = p \<and> (isGlobalProp p \<or> getAreaConfigForValue v (rec_propConfig r) \<noteq> None)))"

lemma filed_area: "filed b r rid v \<Longrightarrow> rid_area rid = (if isGlobalProp (pv_prop v) then 0 else pv_areaId v)"
  by (auto simp: filed_def getRecordIdLocked_def)

lemma filed_mono: "filed b r rid v \<Longrightarrow> filed True r rid v"
  by (auto simp: filed_def)

lemma filed_values [simp]: "filed b (r\<lparr>rec_values := vs\<rparr>) = filed b r"
  by (simp add: filed_def getRecordIdLocked_def fun_eq_iff)

lemma filed_own: "filed b r (getRecordIdLocked v r) v"
  unfolding filed_def by (rule exI [of _ "pv_timestamp v"], rule exI [of _ "pv_status v"]) simp

lemma filed_status: "filed b r (getRecordIdLocked v r) (v\<lparr>pv_status := s\<rparr>)"
  unfolding filed_def by (rule exI [of _ "pv_timestamp v"], rule exI [of _ "pv_status v"]) simp

lemma filed_refreshed: "filed b r rid v \<Longrightarrow> filed True r rid (v\<lparr>pv_timestamp := t\<rparr>)"
  unfolding filed_def by auto

lemma keyedD:
  "keyed b st \<Longrightarrow> getRecordLocked p st = Some r \<Longrightarrow> map_of (rec_values r) rid = Some v \<Longrightarrow> filed b r rid v"
  by (simp add: keyed_def)

text \<open>The identifier is that of the stored value itself, where the token does not read what may change.\<close>

lemma filed_id:
  assumes "filed b r rid v" and "\<And>f w s. rec_tokenFunction r = Some f \<Longrightarrow> f (w\<lparr>pv_status := s\<rparr>) = f w"
    and "\<And>f w t. b \<Longrightarrow> rec_tokenFunction r = Some f \<Longrightarrow> f (w\<lparr>pv_timestamp := t\<rparr>) = f w"
  shows "rid = getRecordIdLocked v r"
proof -
  obtain t s where t: "b \<or> t = pv_timestamp v"
    and rid: "rid = getRecordIdLocked (v\<lparr>pv_timestamp := t, pv_status := s\<rparr>) r"
    using assms(1) by (auto simp: filed_def)
  have "f (v\<lparr>pv_timestamp := t, pv_status := s\<rparr>) = f v" if "rec_tokenFunction r = Some f" for f
    using assms(2) [OF that, where w = "v\<lparr>pv_timestamp := t\<rparr>" and s = s] assms(3) [OF _ that, where w = v and t = t] t
    by (cases b) auto
  then show ?thesis by (simp add: rid getRecordIdLocked_def split: option.split)
qed

lemma getRecordLocked_putRecord [simp]:
  "getRecordLocked q (putRecord p r st) = (if q = p then Some r else getRecordLocked q st)"
  by (simp add: getRecordLocked_def putRecord_def)

lemma getRecordLocked_register [simp]:
  "getRecordLocked q (registerProperty c f st) =
     (if q = pc_prop c then Some \<lparr>rec_propConfig = c, rec_tokenFunction = f, rec_values = []\<rparr>
      else getRecordLocked q st)"
  by (simp add: getRecordLocked_def registerProperty_def)

lemma stored_putRecord [simp]:
  "stored (putRecord p r st) q rid = (if q = p then map_of (rec_values r) rid else stored st q rid)"
  by (simp add: stored_def)

lemma putRecord_callbacks [simp]:
  "mOnValueChangeCallback (putRecord p r st) = mOnValueChangeCallback st"
  "mOnValuesChangeCallback (putRecord p r st) = mOnValuesChangeCallback st"
  by (simp_all add: putRecord_def)

lemma store_wf_empty: "store_wf emptyStore"
  by (simp add: store_wf_def keyed_def emptyStore_def getRecordLocked_def)

lemma store_wf_record:
  "store_wf st \<Longrightarrow> getRecordLocked p st = Some r \<Longrightarrow> umap_wf (rec_values r) \<and> pc_prop (rec_propConfig r) = p"
  by (simp add: store_wf_def)

lemma store_wf_putRecord:
  assumes "store_wf st" "umap_wf (rec_values r)" "pc_prop (rec_propConfig r) = p"
    and "\<And>rid v. map_of (rec_values r) rid = Some v \<Longrightarrow> pv_prop v = p \<and> filed True r rid v \<and>
        (isGlobalProp p \<or> getAreaConfigForValue v (rec_propConfig r) \<noteq> None)"
  shows "store_wf (putRecord p r st)"
proof -
  have "umap_wf (mRecordsByPropId (putRecord p r st))"
    using assms(1) by (simp add: store_wf_def putRecord_def)
  then show ?thesis
    using assms unfolding store_wf_def keyed_def by (simp split: if_splits)
qed

lemma store_wf_filed:
  "store_wf st \<Longrightarrow> getRecordLocked p st = Some r \<Longrightarrow> map_of (rec_values r) rid = Some v \<Longrightarrow> filed True r rid v"
  unfolding store_wf_def using keyedD by blast

lemma store_wf_values:
  assumes "store_wf st" "getRecordLocked p st = Some r" "map_of (rec_values r) rid = Some v"
  shows "pv_prop v = p \<and> rid_area rid = (if isGlobalProp p then 0 else pv_areaId v) \<and>
     (isGlobalProp p \<or> getAreaConfigForValue v (rec_propConfig r) \<noteq> None)"
proof -
  have "pv_prop v = p \<and> (isGlobalProp p \<or> getAreaConfigForValue v (rec_propConfig r) \<noteq> None)"
    using assms by (simp add: store_wf_def)
  then show ?thesis using filed_area [OF store_wf_filed [OF assms]] by simp
qed

text \<open>Putting one value that carries its own key keeps a record well-formed.\<close>

lemma store_wf_put_value:
  assumes wf: "store_wf st" and r: "getRecordLocked p st = Some r" and "pv_prop v = p"
    and "filed True r rid v"
    and "isGlobalProp p \<or> getAreaConfigForValue v (rec_propConfig r) \<noteq> None"
  shows "store_wf (putRecord p (r\<lparr>rec_values := umap_put rid v (rec_values r)\<rparr>) st)"
  by (rule store_wf_putRecord [OF wf])
    (use assms store_wf_record [OF wf r] store_wf_values [OF wf r] store_wf_filed [OF wf r] in
      \<open>auto split: if_splits\<close>)

lemma keyed_putRecord:
  assumes "keyed b st" "\<And>rid v. map_of (rec_values r) rid = Some v \<Longrightarrow> filed b r rid v"
  shows "keyed b (putRecord p r st)"
  using assms unfolding keyed_def by (simp split: if_splits)

lemma keyed_put_value:
  assumes "keyed b st" "getRecordLocked p st = Some r" "filed b r rid v"
  shows "keyed b (putRecord p (r\<lparr>rec_values := umap_put rid v (rec_values r)\<rparr>) st)"
  by (rule keyed_putRecord [OF assms(1)]) (use assms keyedD [OF assms(1,2)] in \<open>auto split: if_splits\<close>)

section \<open>Preservation of well-formedness\<close>

lemma store_wf_register: "store_wf st \<Longrightarrow> store_wf (registerProperty c f st)"
proof -
  assume wf: "store_wf st"
  then have "umap_wf (mRecordsByPropId (registerProperty c f st))"
    by (simp add: store_wf_def registerProperty_def)
  then show ?thesis using wf unfolding store_wf_def keyed_def by simp
qed

lemma store_wf_write:
  assumes "store_wf st"
  shows "store_wf (snd (snd (writeValue now v u m c st)))"
proof -
  have area: "getAreaConfigForValue (v\<lparr>pv_timestamp := t\<rparr>) cfg = getAreaConfigForValue v cfg"
    "getAreaConfigForValue (v\<lparr>pv_status := s\<rparr>) cfg = getAreaConfigForValue v cfg"
    "getAreaConfigForValue (v\<lparr>pv_timestamp := t, pv_status := s\<rparr>) cfg = getAreaConfigForValue v cfg"
    for t s cfg by (simp_all add: getAreaConfigForValue_def)
  from assms show ?thesis
    by (auto simp: writeValue_def Let_def area intro!: store_wf_put_value filed_own filed_status
        split: option.splits if_splits)
qed

lemma store_wf_refreshOne:
  assumes "store_wf (fst acc)" shows "store_wf (fst (refreshOne clock e acc))"
proof -
  obtain k m where e: "e = (k, m)" by (cases e)
  obtain st us where acc: "acc = (st, us)" by (cases acc)
  have area: "getAreaConfigForValue (v\<lparr>pv_timestamp := t\<rparr>) cfg = getAreaConfigForValue v cfg"
    for t v cfg by (simp add: getAreaConfigForValue_def)
  from assms show ?thesis unfolding e acc
    by (auto simp: refreshOne_def Let_def area split: option.splits
        intro!: store_wf_put_value filed_refreshed dest: store_wf_values store_wf_filed)
qed

lemma store_wf_fold_refresh:
  "store_wf (fst acc) \<Longrightarrow> store_wf (fst (fold (refreshOne clock) ms acc))"
  by (induction ms arbitrary: acc) (simp_all add: store_wf_refreshOne)

lemma store_wf_refresh: "store_wf st \<Longrightarrow> store_wf (snd (refreshTimestamps clock ms st))"
  using store_wf_fold_refresh [of "(st, [])" clock ms]
  by (auto simp: refreshTimestamps_def split: prod.splits)

lemma store_wf_removeValue: "store_wf st \<Longrightarrow> store_wf (removeValue v st)"
  by (auto simp: removeValue_def split: option.splits intro!: store_wf_putRecord
      dest: store_wf_record store_wf_values store_wf_filed split: if_splits)

lemma store_wf_removeValues: "store_wf st \<Longrightarrow> store_wf (removeValuesForProperty p st)"
  by (auto simp: removeValuesForProperty_def split: option.splits intro!: store_wf_putRecord
      dest: store_wf_record)

text \<open>
  The operations of the class as a datatype, and a store reached from the constructor by any
  sequence of them.
\<close>

datatype StoreOp =
    Register VehiclePropConfig "TokenFunction option"
  | Write int VehiclePropValue bool EventMode bool
  | Refresh "PropIdAreaId \<Rightarrow> int" "(PropIdAreaId, EventMode) umap"
  | RemoveValue VehiclePropValue
  | RemoveValues int32
  | SetCallback bool
  | SetBatchCallback bool

fun run_store_op :: "StoreOp \<Rightarrow> VehiclePropertyStore \<Rightarrow> VehiclePropertyStore" where
  "run_store_op (Register c f) st = registerProperty c f st"
| "run_store_op (Write now v u m t) st = snd (snd (writeValue now v u m t st))"
| "run_store_op (Refresh clock ms) st = snd (refreshTimestamps clock ms st)"
| "run_store_op (RemoveValue v) st = removeValue v st"
| "run_store_op (RemoveValues p) st = removeValuesForProperty p st"
| "run_store_op (SetCallback b) st = setOnValueChangeCallback b st"
| "run_store_op (SetBatchCallback b) st = setOnValuesChangeCallback b st"

lemma store_wf_callbacks [simp]:
  "store_wf (setOnValueChangeCallback b st) = store_wf st"
  "store_wf (setOnValuesChangeCallback b st) = store_wf st"
  by (simp_all add: store_wf_def keyed_def setOnValueChangeCallback_def setOnValuesChangeCallback_def
      getRecordLocked_def)

lemma store_wf_run: "store_wf st \<Longrightarrow> store_wf (run_store_op op st)"
  by (cases op) (simp_all add: store_wf_register store_wf_refresh store_wf_removeValue
      store_wf_removeValues store_wf_write)

lemma store_wf_runs: "store_wf st \<Longrightarrow> store_wf (fold run_store_op ops st)"
  by (induction ops arbitrary: st) (simp_all add: store_wf_run)

text \<open>Without a refresh the identifiers stay those of the time stamps as well.\<close>

fun refreshes :: "StoreOp \<Rightarrow> bool" where
  "refreshes (Refresh clock ms) = True"
| "refreshes _ = False"

lemma keyed_write: "keyed b st \<Longrightarrow> keyed b (snd (snd (writeValue now v u m c st)))"
  by (auto simp: writeValue_def Let_def intro!: keyed_put_value filed_own filed_status
      split: option.splits if_splits)

lemma keyed_run: "keyed b st \<Longrightarrow> \<not> refreshes op \<Longrightarrow> keyed b (run_store_op op st)"
proof (cases op)
  case (Register c f)
  assume "keyed b st"
  then show ?thesis unfolding Register keyed_def by simp
next
  case (Write now v u m t)
  assume "keyed b st"
  then show ?thesis using keyed_write unfolding Write by simp
next
  case (RemoveValue v)
  assume "keyed b st"
  then show ?thesis unfolding RemoveValue
    by (auto simp: removeValue_def split: option.split intro!: keyed_putRecord dest: keyedD split: if_splits)
next
  case (RemoveValues p)
  assume "keyed b st"
  then show ?thesis unfolding RemoveValues
    by (auto simp: removeValuesForProperty_def split: option.split intro!: keyed_putRecord)
qed (auto simp: keyed_def setOnValueChangeCallback_def setOnValuesChangeCallback_def getRecordLocked_def)

lemma keyed_runs: "keyed b st \<Longrightarrow> \<forall>op \<in> set ops. \<not> refreshes op \<Longrightarrow> keyed b (fold run_store_op ops st)"
  by (induction ops arbitrary: st) (simp_all add: keyed_run)

section \<open>What a write does\<close>

text \<open>
  The value a successful write leaves in the store: the written one, time-stamped if asked, with the
  status of the value it replaces unless the caller updates the status.
\<close>

definition written :: "int \<Rightarrow> VehiclePropValue \<Rightarrow> bool \<Rightarrow> bool \<Rightarrow> VehiclePropertyStore \<Rightarrow> VehiclePropValue" where
  "written now v u c st =
     (let v1 = (if c then v\<lparr>pv_timestamp := now\<rparr> else v) in
      if u then v1
      else v1\<lparr>pv_status := (case stored st (pv_prop v) (record_id st v1) of
                               Some o' \<Rightarrow> pv_status o' | None \<Rightarrow> AVAILABLE)\<rparr>)"

text \<open>When a write is accepted: the property is registered with that area, and no newer value is stored.\<close>

definition accepts :: "VehiclePropertyStore \<Rightarrow> VehiclePropValue \<Rightarrow> bool" where
  "accepts st v \<longleftrightarrow>
     (\<exists>r. getRecordLocked (pv_prop v) st = Some r \<and>
        (isGlobalProp (pv_prop v) \<or> getAreaConfigForValue v (rec_propConfig r) \<noteq> None)) \<and>
     (\<forall>o'. stored st (pv_prop v) (record_id st v) = Some o' \<longrightarrow> pv_timestamp o' \<le> pv_timestamp v)"

text \<open>The time stamp is set first; the rest of the write does not read the clock.\<close>

abbreviation stamped :: "int \<Rightarrow> bool \<Rightarrow> VehiclePropValue \<Rightarrow> VehiclePropValue" where
  "stamped now c v \<equiv> (if c then v\<lparr>pv_timestamp := now\<rparr> else v)"

lemma writeValue_stamped: "writeValue now v u m c st = writeValue now (stamped now c v) u m False st"
  by (simp add: writeValue_def)

lemma written_stamped: "written now v u c st = written now (stamped now c v) u False st"
  by (simp add: written_def Let_def)

lemma writeValue_accepted_eq:
  assumes "accepts st v" "getRecordLocked (pv_prop v) st = Some r"
  shows "fst (writeValue now v u m False st) = Inr () \<and>
    snd (snd (writeValue now v u m False st)) = putRecord (pv_prop v)
      (r\<lparr>rec_values := umap_put (record_id st v) (written now v u False st) (rec_values r)\<rparr>) st"
proof -
  have rid: "record_id st v = getRecordIdLocked v r"
    and st: "stored st (pv_prop v) rid' = map_of (rec_values r) rid'" for rid'
    using assms(2) by (simp_all add: record_id_def stored_def)
  show ?thesis
  proof (cases "map_of (rec_values r) (getRecordIdLocked v r)")
    case None
    with assms show ?thesis
      by (auto simp: writeValue_def accepts_def written_def st rid Let_def)
  next
    case (Some o')
    with assms show ?thesis
      by (auto simp: writeValue_def accepts_def written_def st rid Let_def)
  qed
qed

lemma accepts_record: "accepts st v \<Longrightarrow> \<exists>r. getRecordLocked (pv_prop v) st = Some r"
  by (auto simp: accepts_def)

lemma writeValue_accepted:
  assumes "accepts st (stamped now c v)"
  shows "fst (writeValue now v u m c st) = Inr ()"
    and "stored (snd (snd (writeValue now v u m c st))) (pv_prop v) (record_id st (stamped now c v)) =
           Some (written now v u c st)"
    and "(q, rid) \<noteq> (pv_prop v, record_id st (stamped now c v)) \<Longrightarrow>
         stored (snd (snd (writeValue now v u m c st))) q rid = stored st q rid"
proof -
  have p: "pv_prop (stamped now c v) = pv_prop v" by simp
  obtain r where r: "getRecordLocked (pv_prop (stamped now c v)) st = Some r"
    using accepts_record [OF assms] by blast
  note eq = writeValue_accepted_eq [OF assms r, of now u m]
  show "fst (writeValue now v u m c st) = Inr ()"
    using eq by (subst writeValue_stamped) simp
  show "stored (snd (snd (writeValue now v u m c st))) (pv_prop v) (record_id st (stamped now c v)) =
      Some (written now v u c st)"
    using eq by (subst writeValue_stamped, subst written_stamped) (simp add: p)
  assume "(q, rid) \<noteq> (pv_prop v, record_id st (stamped now c v))"
  then show "stored (snd (snd (writeValue now v u m c st))) q rid = stored st q rid"
    using eq r by (subst writeValue_stamped) (auto simp: p stored_def)
qed

lemma writeValue_rejected:
  assumes "\<not> accepts st (stamped now c v)"
  shows "writeValue now v u m c st = (Inl INVALID_ARG, [], st)"
proof -
  define w where "w = stamped now c v"
  have "writeValue now w u m False st = (Inl INVALID_ARG, [], st)"
  proof (cases "getRecordLocked (pv_prop w) st")
    case None
    then show ?thesis by (simp add: writeValue_def)
  next
    case (Some r)
    have "record_id st w = getRecordIdLocked w r" using Some by (simp add: record_id_def)
    with Some assms [folded w_def] show ?thesis
      by (auto simp: writeValue_def accepts_def stored_def Let_def split: option.splits)
  qed
  then show ?thesis using writeValue_stamped [of now v u m c st] by (simp add: w_def)
qed

lemma record_id_write [simp]: "record_id (snd (snd (writeValue now v u m c st))) w = record_id st w"
proof (cases "accepts st (stamped now c v)")
  case True
  then obtain r where r: "getRecordLocked (pv_prop (stamped now c v)) st = Some r"
    using accepts_record by blast
  show ?thesis
    using writeValue_accepted_eq [OF True r, of now u m] r
    by (subst writeValue_stamped) (auto simp: record_id_def getRecordIdLocked_def)
next
  case False
  then show ?thesis by (simp add: writeValue_rejected)
qed

section \<open>The store interface\<close>

text \<open>
  What a client of a keyed store with time stamps relies on: a write is rejected without effect, or it
  leaves the result of the write at its key and every other key as it was; the result is not older than
  what it replaces and depends on nothing else, and writes do not change what the key of a write is.
\<close>

locale timed_store =
  fixes lookup :: "'s \<Rightarrow> 'k \<Rightarrow> 'v option"
    and put :: "'c \<Rightarrow> 's \<Rightarrow> ('e + unit) \<times> 's"
    and key :: "'s \<Rightarrow> 'c \<Rightarrow> 'k"
    and result :: "'c \<Rightarrow> 'v option \<Rightarrow> 'v"
    and stamp :: "'v \<Rightarrow> int"
  assumes write_error: "put c s = (Inl e, s') \<Longrightarrow> s' = s"
    and write_ok: "put c s = (Inr (), s') \<Longrightarrow>
      lookup s' = (lookup s)(key s c \<mapsto> result c (lookup s (key s c)))"
    and write_newer: "put c s = (Inr (), s') \<Longrightarrow> lookup s (key s c) = Some w \<Longrightarrow>
      stamp w \<le> stamp (result c (Some w))"
    and key_write: "key (snd (put c s)) d = key s d"
begin

definition map_write :: "'s \<Rightarrow> 'c \<Rightarrow> ('k \<Rightarrow> 'v option) \<Rightarrow> 'k \<Rightarrow> 'v option" where
  "map_write s c m = m(key s c \<mapsto> result c (m (key s c)))"

lemma write_monotone:
  assumes "lookup s k = Some w"
  shows "\<exists>w'. lookup (snd (put c s)) k = Some w' \<and> stamp w \<le> stamp w'"
proof -
  obtain r s' where wr: "put c s = (r, s')" by (cases "put c s")
  show ?thesis
  proof (cases r)
    case (Inl e)
    with wr write_error assms show ?thesis by fastforce
  next
    case (Inr u)
    then have ok: "put c s = (Inr (), s')" using wr by simp
    show ?thesis using write_ok [OF ok] write_newer [OF ok] assms wr by auto
  qed
qed

text \<open>Along any sequence of writes, whichever of them fail, a stored value is only replaced by one that is
  at least as new.\<close>

lemma writes_monotone:
  "lookup s k = Some w \<Longrightarrow> \<exists>w'. lookup (fold (\<lambda>c s. snd (put c s)) cs s) k = Some w' \<and> stamp w \<le> stamp w'"
proof (induction cs arbitrary: s w)
  case (Cons c cs)
  obtain w1 where "lookup (snd (put c s)) k = Some w1" "stamp w \<le> stamp w1"
    using write_monotone [OF Cons.prems] by blast
  with Cons.IH [of "snd (put c s)" w1] show ?case using order_trans by fastforce
qed simp

text \<open>A sequence of writes that all succeed acts on the store as on a map.\<close>

lemma map_write_write: "map_write (snd (put c s)) = map_write s"
  by (simp add: map_write_def key_write fun_eq_iff)

lemma writes_map:
  "fst (forE put cs s) = Inr () \<Longrightarrow> lookup (snd (forE put cs s)) = fold (map_write s) cs (lookup s)"
proof (induction cs arbitrary: s)
  case (Cons c cs)
  then obtain s1 where 1: "put c s = (Inr (), s1)" "fst (forE put cs s1) = Inr ()"
    by (auto split: prod.splits sum.splits)
  have "lookup s1 = map_write s c (lookup s)" using write_ok [OF 1(1)] by (simp add: map_write_def)
  moreover have "map_write s1 = map_write s" using map_write_write [of c s] 1(1) by simp
  ultimately show ?case using Cons.IH [OF 1(2)] 1(1) by simp
qed simp

lemma map_writes_other: "(\<And>c. c \<in> set cs \<Longrightarrow> key s c \<noteq> k) \<Longrightarrow> fold (map_write s) cs m k = m k"
proof (induction cs arbitrary: m)
  case (Cons c cs)
  have "map_write s c m k = m k" using Cons.prems [of c] by (auto simp: map_write_def)
  then show ?case using Cons.IH [of "map_write s c m"] Cons.prems by simp
qed simp

lemma last_write:
  assumes "fst (forE put (cs @ c # ds) s) = Inr ()" "\<And>d. d \<in> set ds \<Longrightarrow> key s d \<noteq> key s c"
  shows "\<exists>old. lookup (snd (forE put (cs @ c # ds) s)) (key s c) = Some (result c old)"
proof -
  have "fold (map_write s) (cs @ c # ds) (lookup s) (key s c) =
      map_write s c (fold (map_write s) cs (lookup s)) (key s c)"
    using map_writes_other [of ds s "key s c"] assms(2) by simp
  then show ?thesis unfolding writes_map [OF assms(1)] by (auto simp: map_write_def)
qed

end

text \<open>One call of \<open>writeValue\<close>: its arguments and the reading of the clock.\<close>

record WriteCall =
  wc_now :: int
  wc_value :: VehiclePropValue
  wc_updateStatus :: bool
  wc_eventMode :: EventMode
  wc_useCurrentTimestamp :: bool

definition store_lookup :: "VehiclePropertyStore \<Rightarrow> int32 \<times> RecordId \<Rightarrow> VehiclePropValue option" where
  "store_lookup st k = stored st (fst k) (snd k)"

definition store_write :: "WriteCall \<Rightarrow> VehiclePropertyStore \<Rightarrow> unit VhalResult \<times> VehiclePropertyStore" where
  "store_write c st = (case writeValue (wc_now c) (wc_value c) (wc_updateStatus c) (wc_eventMode c)
       (wc_useCurrentTimestamp c) st of (r, _, st') \<Rightarrow> (r, st'))"

text \<open>The value a call presents, the key it goes to, and what it leaves there in place of an old value.\<close>

definition presented :: "WriteCall \<Rightarrow> VehiclePropValue" where
  "presented c = stamped (wc_now c) (wc_useCurrentTimestamp c) (wc_value c)"

definition store_key :: "VehiclePropertyStore \<Rightarrow> WriteCall \<Rightarrow> int32 \<times> RecordId" where
  "store_key st c = (pv_prop (wc_value c), record_id st (presented c))"

definition left_by :: "WriteCall \<Rightarrow> VehiclePropValue option \<Rightarrow> VehiclePropValue" where
  "left_by c old = (if wc_updateStatus c then presented c
     else (presented c)\<lparr>pv_status := (case old of Some w \<Rightarrow> pv_status w | None \<Rightarrow> AVAILABLE)\<rparr>)"

lemma store_write_simps:
  "fst (store_write c st) = fst (writeValue (wc_now c) (wc_value c) (wc_updateStatus c) (wc_eventMode c)
     (wc_useCurrentTimestamp c) st)"
  "snd (store_write c st) = snd (snd (writeValue (wc_now c) (wc_value c) (wc_updateStatus c) (wc_eventMode c)
     (wc_useCurrentTimestamp c) st))"
  by (simp_all add: store_write_def split: prod.splits)

lemma store_write_rejected: "\<not> accepts st (presented c) \<Longrightarrow> store_write c st = (Inl INVALID_ARG, st)"
  by (simp add: presented_def store_write_def writeValue_rejected)

lemma store_write_accepted:
  assumes "accepts st (presented c)"
  shows "fst (store_write c st) = Inr ()"
    and "store_lookup (snd (store_write c st)) = (store_lookup st)(store_key st c \<mapsto>
       left_by c (store_lookup st (store_key st c)))"
proof -
  note w = writeValue_accepted [OF assms [unfolded presented_def], where u = "wc_updateStatus c" and m = "wc_eventMode c"]
  show "fst (store_write c st) = Inr ()" using w(1) by (simp add: store_write_simps)
  have "left_by c (store_lookup st (store_key st c)) =
      written (wc_now c) (wc_value c) (wc_updateStatus c) (wc_useCurrentTimestamp c) st"
    by (auto simp: left_by_def written_def store_lookup_def store_key_def presented_def Let_def)
  with w(2,3) show "store_lookup (snd (store_write c st)) = (store_lookup st)(store_key st c \<mapsto>
      left_by c (store_lookup st (store_key st c)))"
    by (auto simp: fun_eq_iff store_write_simps store_lookup_def store_key_def presented_def)
qed

lemma written_fields [simp]:
  "pv_prop (written now v u c st) = pv_prop v"
  "pv_areaId (written now v u c st) = pv_areaId v"
  "pv_value (written now v u c st) = pv_value v"
  "pv_timestamp (written now v u c st) = pv_timestamp (stamped now c v)"
  by (simp_all add: written_def Let_def)

lemma left_by_fields [simp]: "pv_timestamp (left_by c old) = pv_timestamp (presented c)"
  by (simp add: left_by_def)

interpretation ps: timed_store store_lookup store_write store_key left_by pv_timestamp
proof
  fix c s e s' w d
  show "store_write c s = (Inl e, s') \<Longrightarrow> s' = s"
    using store_write_accepted(1) [of s c] store_write_rejected [of s c] by (cases "accepts s (presented c)") auto
  show "store_key (snd (store_write c s)) d = store_key s d"
    by (simp add: store_key_def store_write_simps)
  assume ok: "store_write c s = (Inr (), s')"
  then have acc: "accepts s (presented c)" using store_write_rejected [of s c] by fastforce
  show "store_lookup s' = (store_lookup s)(store_key s c \<mapsto> left_by c (store_lookup s (store_key s c)))"
    using store_write_accepted(2) [OF acc] ok by simp
  show "store_lookup s (store_key s c) = Some w \<Longrightarrow> pv_timestamp w \<le> pv_timestamp (left_by c (Some w))"
    using acc by (simp add: accepts_def store_lookup_def store_key_def presented_def split: if_splits)
qed

text \<open>The map a store behaves as: each write leaves its result at its key.\<close>

definition map_write :: "VehiclePropertyStore \<Rightarrow> WriteCall \<Rightarrow>
    (int32 \<times> RecordId \<Rightarrow> VehiclePropValue option) \<Rightarrow> int32 \<times> RecordId \<Rightarrow> VehiclePropValue option" where
  "map_write st c m = m(store_key st c \<mapsto> left_by c (m (store_key st c)))"

lemma map_write_eq: "ps.map_write = map_write"
  by (simp add: fun_eq_iff ps.map_write_def map_write_def)

section \<open>Events and refreshes\<close>

text \<open>Whether a write changes the stored value or its status (time stamps aside).\<close>

definition changes :: "VehiclePropertyStore \<Rightarrow> VehiclePropValue \<Rightarrow> RecordId \<Rightarrow> bool" where
  "changes st w rid = (case stored st (pv_prop w) rid of None \<Rightarrow> True
     | Some o' \<Rightarrow> \<not> raw_eq (pv_value o') (pv_value w) \<or> pv_status o' \<noteq> pv_status w)"

text \<open>The values handed to the callbacks by a list of events.\<close>

fun event_values :: "StoreEvent list \<Rightarrow> VehiclePropValue list" where
  "event_values [] = []"
| "event_values (OnValueChange v # es) = v # event_values es"
| "event_values (OnValuesChange vs # es) = vs @ event_values es"

lemma event_values_map [simp]: "event_values (map OnValueChange vs) = vs"
  by (induction vs) auto

lemma event_values_append: "event_values (es @ fs) = event_values es @ event_values fs"
  by (induction es rule: event_values.induct) auto

lemma writeValue_events_eq:
  assumes "accepts st v"
  shows "event_values (fst (snd (writeValue now v u m False st))) =
    (if m \<noteq> NEVER \<and> (mOnValuesChangeCallback st \<or> mOnValueChangeCallback st) \<and>
        (m = ALWAYS \<or> changes st (written now v u False st) (record_id st v))
     then [written now v u False st] else [])"
proof -
  obtain r where r: "getRecordLocked (pv_prop v) st = Some r" using accepts_record [OF assms] by blast
  have rid: "record_id st v = getRecordIdLocked v r"
    and st: "stored st (pv_prop v) rid' = map_of (rec_values r) rid'" for rid'
    using r by (simp_all add: record_id_def stored_def)
  show ?thesis
  proof (cases "map_of (rec_values r) (getRecordIdLocked v r)")
    case None
    with assms r show ?thesis
      by (auto simp: writeValue_def accepts_def written_def changes_def st rid Let_def)
  next
    case (Some o')
    with assms r show ?thesis
      by (auto simp: writeValue_def accepts_def written_def changes_def st rid Let_def)
  qed
qed

text \<open>A refresh changes nothing but time stamps.\<close>

abbreviation unstamped :: "VehiclePropValue \<Rightarrow> VehiclePropValue" where
  "unstamped v \<equiv> v\<lparr>pv_timestamp := 0\<rparr>"

lemma refreshOne_unstamped:
  "map_option unstamped (stored (fst (refreshOne clock e acc)) p rid) =
     map_option unstamped (stored (fst acc) p rid)"
  by (auto simp: refreshOne_def Let_def stored_def split: prod.splits option.splits)

lemma refresh_unstamped_fold:
  "map_option unstamped (stored (fst (fold (refreshOne clock) ms acc)) p rid) =
     map_option unstamped (stored (fst acc) p rid)"
  by (induction ms arbitrary: acc) (simp_all add: refreshOne_unstamped)

lemma refresh_unstamped:
  "map_option unstamped (stored (snd (refreshTimestamps clock ms st)) p rid) =
     map_option unstamped (stored st p rid)"
  using refresh_unstamped_fold [of clock ms "(st, [])" p rid]
  by (auto simp: refreshTimestamps_def split: prod.splits)

section \<open>Properties\<close>

text \<open>
  Claim C6 (store_reachable_wf). In every store reached from the constructor by any operations, each
  property has one record and each record one value per record identifier; every stored value belongs to
  the property of its record, has a configured area unless the property is global, and is filed under the
  area and token that were computed from it when it was written: its status may have been set since, and its
  time stamp only if a refresh was among the operations.
\<close>
theorem store_reachable_wf:
  "store_wf (fold run_store_op ops emptyStore) \<and>
   ((\<forall>op \<in> set ops. \<not> refreshes op) \<longrightarrow> keyed False (fold run_store_op ops emptyStore)) \<and>
   (\<forall>p r rid v. getRecordLocked p (fold run_store_op ops emptyStore) = Some r \<longrightarrow>
      map_of (rec_values r) rid = Some v \<longrightarrow>
      (\<forall>f w s t. rec_tokenFunction r = Some f \<longrightarrow> f (w\<lparr>pv_status := s\<rparr>) = f w \<and>
         (f (w\<lparr>pv_timestamp := t\<rparr>) = f w \<or> (\<forall>op \<in> set ops. \<not> refreshes op))) \<longrightarrow>
      rid = getRecordIdLocked v r)"
proof (intro conjI allI impI)
  let ?st = "fold run_store_op ops emptyStore"
  have empty: "keyed False emptyStore" by (simp add: keyed_def emptyStore_def getRecordLocked_def)
  show wf: "store_wf ?st" by (rule store_wf_runs [OF store_wf_empty])
  show k: "keyed False ?st" if "\<forall>op \<in> set ops. \<not> refreshes op" using keyed_runs [OF empty that] .
  fix p r rid v
  assume r: "getRecordLocked p ?st = Some r" "map_of (rec_values r) rid = Some v"
    and f: "\<forall>f w s t. rec_tokenFunction r = Some f \<longrightarrow> f (w\<lparr>pv_status := s\<rparr>) = f w \<and>
      (f (w\<lparr>pv_timestamp := t\<rparr>) = f w \<or> (\<forall>op \<in> set ops. \<not> refreshes op))"
  show "rid = getRecordIdLocked v r"
  proof (cases "\<forall>op \<in> set ops. \<not> refreshes op")
    case True
    show ?thesis by (rule filed_id [OF keyedD [OF k [OF True] r]]) (use f in blast)+
  next
    case False
    show ?thesis by (rule filed_id [OF store_wf_filed [OF wf r]]) (use f False in blast)+
  qed
qed

text \<open>
  A write that returns ok makes the value readable, with the status the
  \<open>updateStatus\<close> flag asks for and the current time if \<open>useCurrentTimestamp\<close>; every other property
  and record identifier keeps its value.
\<close>
theorem read_after_write:
  assumes "fst (writeValue now v u m c st) = Inr ()"
  shows "readValue (if c then v\<lparr>pv_timestamp := now\<rparr> else v) (snd (snd (writeValue now v u m c st))) =
           Inr (written now v u c st) \<and>
         (\<forall>q rid. (q, rid) \<noteq> (pv_prop v, record_id st (stamped now c v)) \<longrightarrow>
            stored (snd (snd (writeValue now v u m c st))) q rid = stored st q rid)"
proof -
  have acc: "accepts st (stamped now c v)"
    using assms writeValue_rejected [where st = st and c = c and now = now and v = v] by fastforce
  let ?st = "snd (snd (writeValue now v u m c st))"
  have at: "stored ?st (pv_prop v) (record_id st (stamped now c v)) = Some (written now v u c st)"
    by (rule writeValue_accepted(2) [OF acc])
  obtain r where r: "getRecordLocked (pv_prop v) ?st = Some r"
    using at by (auto simp: stored_def split: option.splits)
  have "record_id ?st (stamped now c v) = getRecordIdLocked (stamped now c v) r"
    using r by (auto simp: record_id_def)
  then have "map_of (rec_values r) (getRecordIdLocked (stamped now c v) r) =
      Some (written now v u c st)"
    using at r by (simp add: stored_def)
  then have "readValue (stamped now c v) ?st = Inr (written now v u c st)"
    using r by (auto simp: readValue_def readValueLocked_def)
  with writeValue_accepted(3) [OF acc] show ?thesis by blast
qed

text \<open>
  A write older than the value stored at its key returns
  \<open>INVALID_ARG\<close>, calls no callback and leaves the store as it was.
\<close>
theorem outdated_write_rejected:
  assumes "stored st (pv_prop v) (record_id st v) = Some w" "pv_timestamp v < pv_timestamp w"
  shows "writeValue now v u m False st = (Inl INVALID_ARG, [], st)"
  using writeValue_rejected [of st False now v u m] assms by (auto simp: accepts_def)

text \<open>
  Claim C5 (store_time_monotone). Whatever writes are made, each with its own flags, clock reading and
  outcome, a stored value stays or is replaced by one that is not older.
\<close>
theorem store_time_monotone:
  assumes "stored st p rid = Some w"
  shows "\<exists>w'. stored (fold (\<lambda>c s. snd (store_write c s)) calls st) p rid = Some w' \<and>
           pv_timestamp w \<le> pv_timestamp w'"
  using ps.writes_monotone [of st "(p, rid)" w calls] assms by (simp add: store_lookup_def)

text \<open>
  Claim C4 (store_last_write_wins). A sequence of writes that all succeed, each with its own flags and
  clock reading, leaves the store equal to the map in which each write in turn put its value at its key,
  under the status it replaces unless it updates the status. So the last write to a key is the value there,
  with the time stamp it was given or the clock when it asked for the current time.
\<close>
theorem store_last_write_wins:
  assumes "fst (forE store_write calls st) = Inr ()"
  shows "store_lookup (snd (forE store_write calls st)) = fold (map_write st) calls (store_lookup st) \<and>
    (\<forall>before c after. calls = before @ c # after \<longrightarrow> (\<forall>d \<in> set after. store_key st d \<noteq> store_key st c) \<longrightarrow>
      (\<exists>w. stored (snd (forE store_write calls st)) (pv_prop (wc_value c)) (record_id st (presented c)) = Some w \<and>
         pv_prop w = pv_prop (wc_value c) \<and> pv_areaId w = pv_areaId (wc_value c) \<and>
         pv_value w = pv_value (wc_value c) \<and>
         pv_timestamp w = (if wc_useCurrentTimestamp c then wc_now c else pv_timestamp (wc_value c)) \<and>
         (wc_updateStatus c \<longrightarrow> pv_status w = pv_status (wc_value c))))"
proof (intro conjI allI impI)
  show "store_lookup (snd (forE store_write calls st)) = fold (map_write st) calls (store_lookup st)"
    using ps.writes_map [OF assms] by (simp add: map_write_eq)
  fix before c after
  assume "calls = before @ c # after" and "\<forall>d \<in> set after. store_key st d \<noteq> store_key st c"
  then obtain old where "store_lookup (snd (forE store_write calls st)) (store_key st c) = Some (left_by c old)"
    using ps.last_write [of before c after st] assms by blast
  then have "stored (snd (forE store_write calls st)) (pv_prop (wc_value c)) (record_id st (presented c)) =
      Some (left_by c old)"
    by (simp add: store_lookup_def store_key_def)
  then show "\<exists>w. stored (snd (forE store_write calls st)) (pv_prop (wc_value c)) (record_id st (presented c)) = Some w \<and>
      pv_prop w = pv_prop (wc_value c) \<and> pv_areaId w = pv_areaId (wc_value c) \<and>
      pv_value w = pv_value (wc_value c) \<and>
      pv_timestamp w = (if wc_useCurrentTimestamp c then wc_now c else pv_timestamp (wc_value c)) \<and>
      (wc_updateStatus c \<longrightarrow> pv_status w = pv_status (wc_value c))"
    by (simp add: left_by_def presented_def)
qed

text \<open>
  The callback runs exactly when the write was accepted, a callback is set,
  the event mode is not \<open>NEVER\<close>, and the mode is \<open>ALWAYS\<close> or the value or status changed; then it
  gets exactly the value that is now stored.
\<close>
theorem write_event_exact:
  "event_values (fst (snd (writeValue now v u m c st))) =
     (if fst (writeValue now v u m c st) = Inr () \<and> m \<noteq> NEVER \<and>
         (mOnValuesChangeCallback st \<or> mOnValueChangeCallback st) \<and>
         (m = ALWAYS \<or> changes st (written now v u c st) (record_id st (stamped now c v)))
      then [written now v u c st] else [])"
proof (cases "accepts st (stamped now c v)")
  case True
  then show ?thesis
    using writeValue_events_eq [OF True, of now u m] writeValue_accepted(1) [OF True, of u m]
    by (subst writeValue_stamped, subst (1 2) written_stamped) simp
next
  case False
  then show ?thesis by (simp add: writeValue_rejected)
qed

section \<open>Witnesses\<close>

text \<open>A store with one global INT32 property (0x11400400) and a value written at time 10.\<close>

definition sample_config :: VehiclePropConfig where
  "sample_config = \<lparr>pc_prop = 0x11400400, pc_access = READ_WRITE, pc_changeMode = ON_CHANGE,
     pc_areaConfigs = [], pc_configArray = [], pc_minSampleRate = FFin 0, pc_maxSampleRate = FFin 0\<rparr>"

definition sample_value :: "int \<Rightarrow> int \<Rightarrow> VehiclePropValue" where
  "sample_value t i = \<lparr>pv_timestamp = t, pv_areaId = 0, pv_prop = 0x11400400, pv_status = AVAILABLE,
     pv_value = raw_default\<lparr>int32Values := [i]\<rparr>\<rparr>"

definition sample_store :: VehiclePropertyStore where
  "sample_store = setOnValueChangeCallback True (registerProperty sample_config None emptyStore)"

definition sample_store10 :: VehiclePropertyStore where
  "sample_store10 = snd (snd (writeValue 0 (sample_value 10 1) False ON_VALUE_CHANGE False sample_store))"

lemmas sample_defs = sample_config_def sample_value_def sample_store_def sample_store10_def

lemma sample_write_ok:
  "fst (writeValue 0 (sample_value 10 1) False ON_VALUE_CHANGE False sample_store) = Inr ()"
  by code_simp

lemma sample_stored:
  "stored sample_store10 0x11400400 (RecordId 0 0) = Some (sample_value 10 1)"
  by code_simp

lemma sample_record_id: "record_id sample_store10 (sample_value t i) = RecordId 0 0"
proof -
  have r: "map_option (\<lambda>r. Option.is_none (rec_tokenFunction r))
      (getRecordLocked 0x11400400 sample_store10) = Some True"
    by code_simp
  have g: "isGlobalProp 0x11400400" by code_simp
  show ?thesis using r g
    by (auto simp: record_id_def getRecordIdLocked_def sample_value_def Option.is_none_def)
qed

theorem read_after_write_witness:
  "readValue (sample_value 10 1) (snd (snd (writeValue 0 (sample_value 10 1) False ON_VALUE_CHANGE False
     sample_store))) = Inr (written 0 (sample_value 10 1) False False sample_store)"
  using read_after_write [OF sample_write_ok] by simp

theorem outdated_write_rejected_witness:
  "writeValue 0 (sample_value 9 2) False ALWAYS False sample_store10 = (Inl INVALID_ARG, [], sample_store10)"
proof (rule outdated_write_rejected)
  show "stored sample_store10 (pv_prop (sample_value 9 2)) (record_id sample_store10 (sample_value 9 2)) =
      Some (sample_value 10 1)"
    using sample_stored sample_record_id by (simp add: sample_value_def)
  show "pv_timestamp (sample_value 9 2) < pv_timestamp (sample_value 10 1)"
    by (simp add: sample_value_def)
qed

definition sample_calls :: "WriteCall list" where
  "sample_calls =
     [\<lparr>wc_now = 30, wc_value = sample_value 0 2, wc_updateStatus = False, wc_eventMode = ALWAYS, wc_useCurrentTimestamp = True\<rparr>,
      \<lparr>wc_now = 31, wc_value = sample_value 40 3, wc_updateStatus = True, wc_eventMode = NEVER, wc_useCurrentTimestamp = False\<rparr>]"

theorem store_time_monotone_witness:
  "\<exists>w'. stored (fold (\<lambda>c s. snd (store_write c s)) (sample_calls @ sample_calls) sample_store10)
     0x11400400 (RecordId 0 0) = Some w' \<and> 10 \<le> pv_timestamp w'"
proof -
  have "pv_timestamp (sample_value 10 1) = 10" by (simp add: sample_value_def)
  then show ?thesis using store_time_monotone [OF sample_stored, of "sample_calls @ sample_calls"] by metis
qed

theorem store_reachable_wf_witness:
  "store_wf (fold run_store_op [Register sample_config (Some pv_timestamp), Write 30 (sample_value 0 2) False ALWAYS True,
     Refresh (\<lambda>_. 35) [(PropIdAreaId 0x11400400 0, ALWAYS)]] emptyStore) \<and>
   keyed False (fold run_store_op [Register sample_config (Some pv_timestamp),
     Write 30 (sample_value 0 2) False ALWAYS True] emptyStore)"
proof
  show "keyed False (fold run_store_op [Register sample_config (Some pv_timestamp),
      Write 30 (sample_value 0 2) False ALWAYS True] emptyStore)"
    by (rule mp [OF conjunct1 [OF conjunct2 [OF store_reachable_wf]]]) simp
qed (rule conjunct1 [OF store_reachable_wf])

theorem store_last_write_wins_witness:
  "\<exists>w. stored (snd (forE store_write sample_calls sample_store10)) 0x11400400 (RecordId 0 0) = Some w \<and>
     pv_value w = raw_default\<lparr>int32Values := [3]\<rparr> \<and> pv_timestamp w = 40"
proof -
  have "fst (forE store_write sample_calls sample_store10) = Inr ()" by code_simp
  from conjunct2 [OF store_last_write_wins [OF this], rule_format, of "[hd sample_calls]" "last sample_calls" "[]"]
  show ?thesis using sample_record_id [of 40 3] by (auto simp: sample_calls_def sample_value_def presented_def)
qed

end
