(* ===== verification/Recurrent_Timer.thy ===== *)
theory Recurrent_Timer
  imports Vehicle_Types "HOL-Library.Signed_Division" "HOL-Library.Word"
begin

text \<open>
  \<^verbatim>\<open>utils/common/RecurrentTimer\<close>: callbacks called at a fixed interval. The timer drives an Android
  \<^verbatim>\<open>Looper\<close>, which is not part of the repository: an operation returns the calls it makes on the looper,
  in order, and \<open>handleMessage\<close> is the operation the looper runs for a message. A callback is the
  identity of its \<^verbatim>\<open>shared_ptr\<close>; \<^verbatim>\<open>uptimeNanos()\<close> is an argument.

  The outcome \<open>None\<close> is undefined behaviour of the C++ code: a division by a zero interval, or the
  dereference of a missing \<^verbatim>\<open>CallbackInfo\<close>. The callback counter is a \<^verbatim>\<open>std::atomic<int>\<close>, whose increment
  wraps around: it and the identifiers taken from it are 32-bit words, and \<open>INVALID_ID\<close> is one of them.
\<close>

section \<open>State\<close>

type_synonym CallbackId = "32 word"

datatype LooperCall = SendMessageAtTime int CallbackId | RemoveMessages CallbackId

record CallbackInfo =
  ci_callback :: nat
  ci_intervalInNanos :: int
  ci_nextTimeInNanos :: int

record RecurrentTimer =
  mCallbackId :: CallbackId
  mIdByCallback :: "(nat, CallbackId) umap"
  mCallbackInfoById :: "(CallbackId, CallbackInfo) umap"

definition newTimer :: RecurrentTimer where
  "newTimer = \<lparr>mCallbackId = 0, mIdByCallback = [], mCallbackInfoById = []\<rparr>"

section \<open>Operations\<close>

definition INVALID_ID :: CallbackId where "INVALID_ID = -1"

definition getCallbackIdLocked :: "nat \<Rightarrow> RecurrentTimer \<Rightarrow> CallbackId" where
  "getCallbackIdLocked cb t = (case map_of (mIdByCallback t) cb of Some i \<Rightarrow> i | None \<Rightarrow> INVALID_ID)"

text \<open>
  \<^verbatim>\<open>ceil(uptimeNanos() / intervalInNanos) * intervalInNanos\<close>: an integer division, then \<^verbatim>\<open>double\<close>
  arithmetic, then a conversion to \<^verbatim>\<open>int64_t\<close>.
\<close>

definition alignedTime :: "int \<Rightarrow> int \<Rightarrow> int option" where
  "alignedTime now interval = (if interval = 0 then None else
     fp_to_int 64 (fp_mul binary64 (fp_ceil (fp_of_int binary64 (now sdiv interval)))
                                   (fp_of_int binary64 interval)))"

definition registerTimerCallback ::
  "int \<Rightarrow> int \<Rightarrow> nat \<Rightarrow> RecurrentTimer \<Rightarrow> (LooperCall list \<times> RecurrentTimer) option" where
  "registerTimerCallback now interval cb t =
    (let existing = getCallbackIdLocked cb t;
         callbackId = (if existing = INVALID_ID then mCallbackId t else existing);
         t1 = (if existing = INVALID_ID
               then t\<lparr>mCallbackId := mCallbackId t + 1,
                      mIdByCallback := umap_insert cb callbackId (mIdByCallback t)\<rparr>
               else t);
         calls = (if existing = INVALID_ID then [] else [RemoveMessages callbackId]) in
     if existing \<noteq> INVALID_ID \<and> map_of (mCallbackInfoById t) existing = None then None
     else case alignedTime now interval of
       None \<Rightarrow> None
     | Some next \<Rightarrow>
       let info = \<lparr>ci_callback = cb, ci_intervalInNanos = interval, ci_nextTimeInNanos = next\<rparr> in
       Some (calls @ [SendMessageAtTime next callbackId],
             t1\<lparr>mCallbackInfoById := umap_insert callbackId info (mCallbackInfoById t1)\<rparr>))"

definition unregisterTimerCallback ::
  "nat \<Rightarrow> RecurrentTimer \<Rightarrow> LooperCall list \<times> RecurrentTimer" where
  "unregisterTimerCallback cb t =
    (let callbackId = getCallbackIdLocked cb t in
     if callbackId = INVALID_ID then ([], t)
     else ([RemoveMessages callbackId],
           t\<lparr>mCallbackInfoById := umap_erase callbackId (mCallbackInfoById t),
             mIdByCallback := umap_erase cb (mIdByCallback t)\<rparr>))"

text \<open>
  \<^verbatim>\<open>intervalCount\<close> is a \<^verbatim>\<open>size_t\<close>, so the product and the sum are taken modulo \<open>2 ^ 64\<close> and the sum is
  read back as an \<^verbatim>\<open>int64_t\<close>.
\<close>

definition to_int64 :: "int \<Rightarrow> int" where
  "to_int64 x = (x + 2 ^ 63) mod 2 ^ 64 - 2 ^ 63"

definition advance :: "int \<Rightarrow> int \<Rightarrow> int \<Rightarrow> int" where
  "advance now next interval =
     (let intervalCount = ((now - next) sdiv interval + 1) mod 2 ^ 64 in
      to_int64 (next + intervalCount * interval))"

text \<open>The result: the callback called, if any, the calls on the looper and the timer afterwards.\<close>

definition handleMessage ::
  "int \<Rightarrow> CallbackId \<Rightarrow> RecurrentTimer \<Rightarrow> (nat option \<times> LooperCall list \<times> RecurrentTimer) option" where
  "handleMessage now what t =
    (case map_of (mCallbackInfoById t) what of
       None \<Rightarrow> Some (None, [], t)
     | Some info \<Rightarrow>
       if ci_intervalInNanos info = 0 then None else
       let next = advance now (ci_nextTimeInNanos info) (ci_intervalInNanos info) in
       Some (Some (ci_callback info), [SendMessageAtTime next what],
         t\<lparr>mCallbackInfoById := umap_put what (info\<lparr>ci_nextTimeInNanos := next\<rparr>) (mCallbackInfoById t)\<rparr>))"

section \<open>Invariant\<close>

text \<open>
  The two maps describe the same registrations: identifiers are below the counter, every registered
  callback has an information record naming it, and every record belongs to a registered callback. The
  order of identifiers is the one in which the counter hands them out, so \<open>INVALID_ID\<close> is the last one.
\<close>

definition timer_wf :: "RecurrentTimer \<Rightarrow> bool" where
  "timer_wf t \<longleftrightarrow> umap_wf (mIdByCallback t) \<and> umap_wf (mCallbackInfoById t) \<and>
     (\<forall>cb i. map_of (mIdByCallback t) cb = Some i \<longrightarrow> i < mCallbackId t \<and>
        (\<exists>info. map_of (mCallbackInfoById t) i = Some info \<and> ci_callback info = cb)) \<and>
     (\<forall>i info. map_of (mCallbackInfoById t) i = Some info \<longrightarrow> ci_intervalInNanos info \<noteq> 0 \<and>
        map_of (mIdByCallback t) (ci_callback info) = Some i)"

definition registered :: "nat \<Rightarrow> RecurrentTimer \<Rightarrow> CallbackInfo option" where
  "registered cb t = Option.bind (map_of (mIdByCallback t) cb) (map_of (mCallbackInfoById t))"

lemma below_counter: "(i :: CallbackId) < n \<Longrightarrow> i \<noteq> INVALID_ID"
  unfolding INVALID_ID_def by (metis not_less word_order.extremum)

lemma counter_step:
  assumes "(n :: CallbackId) \<noteq> INVALID_ID"
  shows "unat (n + 1) = Suc (unat n)" and "i < n + 1 \<longleftrightarrow> i < n \<or> i = n"
proof -
  have "1 + n \<noteq> 0" using assms unfolding INVALID_ID_def by (metis add.commute eq_neg_iff_add_eq_0)
  then show u: "unat (n + 1) = Suc (unat n)" using unatSuc [of n] by (simp add: add.commute)
  show "i < n + 1 \<longleftrightarrow> i < n \<or> i = n"
    unfolding word_less_nat_alt u by (auto simp: less_Suc_eq word_unat_eq_iff)
qed

lemma timer_wf_new [simp]: "timer_wf newTimer"
  by (simp add: timer_wf_def newTimer_def)

lemma getCallbackId_wf:
  "timer_wf t \<Longrightarrow> getCallbackIdLocked cb t = INVALID_ID \<longleftrightarrow> map_of (mIdByCallback t) cb = None"
  by (fastforce simp: getCallbackIdLocked_def timer_wf_def dest: below_counter split: option.splits)

lemma alignedTime_nonzero: "alignedTime now interval = Some next \<Longrightarrow> interval \<noteq> 0"
  by (auto simp: alignedTime_def)

lemma timer_wf_id:
  "timer_wf t \<Longrightarrow> map_of (mIdByCallback t) cb = Some i \<Longrightarrow>
     i \<noteq> INVALID_ID \<and> (\<exists>info. map_of (mCallbackInfoById t) i = Some info \<and> ci_callback info = cb)"
  by (fastforce simp: timer_wf_def dest: below_counter)

lemma register_fresh:
  assumes "timer_wf t" "map_of (mIdByCallback t) cb = None"
  shows "registerTimerCallback now interval cb t =
    map_option (\<lambda>next. ([SendMessageAtTime next (mCallbackId t)],
      t\<lparr>mCallbackId := mCallbackId t + 1,
        mIdByCallback := umap_put cb (mCallbackId t) (mIdByCallback t),
        mCallbackInfoById := umap_put (mCallbackId t) \<lparr>ci_callback = cb,
          ci_intervalInNanos = interval, ci_nextTimeInNanos = next\<rparr> (mCallbackInfoById t)\<rparr>))
      (alignedTime now interval)"
proof -
  have "map_of (mCallbackInfoById t) (mCallbackId t) = None"
    using assms(1) by (cases "map_of (mCallbackInfoById t) (mCallbackId t)")
      (fastforce simp: timer_wf_def)+
  then show ?thesis
    using assms by (simp add: registerTimerCallback_def Let_def getCallbackId_wf umap_insert_def
        split: option.splits)
qed

lemma register_again:
  assumes "timer_wf t" "map_of (mIdByCallback t) cb = Some i"
  shows "registerTimerCallback now interval cb t =
    map_option (\<lambda>next. ([RemoveMessages i, SendMessageAtTime next i], t)) (alignedTime now interval)"
  using timer_wf_id [OF assms] assms
  by (auto simp: registerTimerCallback_def Let_def getCallbackIdLocked_def umap_insert_def
      split: option.splits)

lemma timer_wf_register:
  assumes wf: "timer_wf t" and r: "registerTimerCallback now interval cb t = Some (calls, t')"
    and n: "mCallbackId t \<noteq> INVALID_ID"
  shows "timer_wf t' \<and> (mCallbackId t' = mCallbackId t \<or> mCallbackId t' = mCallbackId t + 1)"
proof (cases "map_of (mIdByCallback t) cb")
  case None
  then obtain next' where n': "alignedTime now interval = Some next'"
    and t': "t' = t\<lparr>mCallbackId := mCallbackId t + 1,
        mIdByCallback := umap_put cb (mCallbackId t) (mIdByCallback t),
        mCallbackInfoById := umap_put (mCallbackId t) \<lparr>ci_callback = cb,
          ci_intervalInNanos = interval, ci_nextTimeInNanos = next'\<rparr> (mCallbackInfoById t)\<rparr>"
    using r register_fresh [OF wf] by auto
  have ids: "i < mCallbackId t \<and> (\<exists>info. map_of (mCallbackInfoById t) i = Some info \<and> ci_callback info = cb')"
    if "map_of (mIdByCallback t) cb' = Some i" for cb' i using wf that by (simp add: timer_wf_def)
  have infos: "ci_intervalInNanos info \<noteq> 0 \<and> map_of (mIdByCallback t) (ci_callback info) = Some i"
    if "map_of (mCallbackInfoById t) i = Some info" for i info using wf that by (simp add: timer_wf_def)
  have fresh: "map_of (mIdByCallback t) cb' \<noteq> Some (mCallbackId t)" for cb' using ids by blast
  have cb: "ci_callback info \<noteq> cb" if "map_of (mCallbackInfoById t) i = Some info" for i info
    using infos [OF that] None by auto
  have "umap_wf (mIdByCallback t') \<and> umap_wf (mCallbackInfoById t')" using wf by (simp add: t' timer_wf_def)
  moreover have "i < mCallbackId t' \<and> (\<exists>info. map_of (mCallbackInfoById t') i = Some info \<and> ci_callback info = cb')"
    if "map_of (mIdByCallback t') cb' = Some i" for cb' i
    using that ids [of cb' i] fresh [of cb'] by (auto simp: t' counter_step(2) [OF n] split: if_splits)
  moreover have "ci_intervalInNanos info \<noteq> 0 \<and> map_of (mIdByCallback t') (ci_callback info) = Some i"
    if "map_of (mCallbackInfoById t') i = Some info" for i info
    using that infos [of i info] cb [of i info] alignedTime_nonzero [OF n'] by (auto simp: t' split: if_splits)
  ultimately have "timer_wf t'" unfolding timer_wf_def by blast
  then show ?thesis by (simp add: t')
next
  case (Some i)
  then show ?thesis
    using r register_again [OF wf Some, of now interval] wf by auto
qed

lemma counter_unregister [simp]: "mCallbackId (snd (unregisterTimerCallback cb t)) = mCallbackId t"
  by (simp add: unregisterTimerCallback_def Let_def)

lemma counter_handle: "handleMessage now what t = Some (called, calls, t') \<Longrightarrow> mCallbackId t' = mCallbackId t"
  by (auto simp: handleMessage_def Let_def split: option.splits if_splits)

lemma timer_wf_unregister: "timer_wf t \<Longrightarrow> timer_wf (snd (unregisterTimerCallback cb t))"
proof (cases "map_of (mIdByCallback t) cb")
  case None
  assume "timer_wf t"
  then show ?thesis
    using None by (simp add: unregisterTimerCallback_def Let_def getCallbackIdLocked_def)
next
  case (Some i)
  assume wf: "timer_wf t"
  have "getCallbackIdLocked cb t = i" using Some by (simp add: getCallbackIdLocked_def)
  moreover have "i \<noteq> INVALID_ID" using timer_wf_id [OF wf Some] by simp
  ultimately show ?thesis
    using wf Some by (auto simp: unregisterTimerCallback_def Let_def timer_wf_def)
      (metis option.inject)+
qed

lemma timer_wf_handle:
  assumes wf: "timer_wf t"
  shows "\<exists>r. handleMessage now what t = Some r \<and> timer_wf (snd (snd r))"
proof (cases "map_of (mCallbackInfoById t) what")
  case None
  then show ?thesis using wf by (simp add: handleMessage_def)
next
  case (Some info)
  then have "ci_intervalInNanos info \<noteq> 0" using wf by (auto simp: timer_wf_def)
  then show ?thesis
    using wf Some by (auto simp: handleMessage_def Let_def timer_wf_def) (metis option.inject)
qed

section \<open>Reachable timers\<close>

text \<open>A timer reached from the constructor, and the number of registrations made on the way.\<close>

inductive timer_reachable :: "nat \<Rightarrow> RecurrentTimer \<Rightarrow> bool" where
  timer_init: "timer_reachable 0 newTimer"
| timer_register: "timer_reachable n t \<Longrightarrow>
    registerTimerCallback now interval cb t = Some (calls, t') \<Longrightarrow> timer_reachable (Suc n) t'"
| timer_unregister: "timer_reachable n t \<Longrightarrow> unregisterTimerCallback cb t = (calls, t') \<Longrightarrow> timer_reachable n t'"
| timer_message: "timer_reachable n t \<Longrightarrow> handleMessage now what t = Some (called, calls, t') \<Longrightarrow>
    timer_reachable n t'"

text \<open>Below the number of identifiers, the counter has not wrapped around.\<close>

lemma id_below: "unat (i :: CallbackId) < 2 ^ 32 - 1 \<Longrightarrow> i \<noteq> INVALID_ID"
  by (auto simp: INVALID_ID_def unsigned_minus_1_eq_mask mask_eq_exp_minus_1)

lemma timer_reachable_counter: "timer_reachable n t \<Longrightarrow> n < 2 ^ 32 \<Longrightarrow> timer_wf t \<and> unat (mCallbackId t) \<le> n"
proof (induction rule: timer_reachable.induct)
  case timer_init
  then show ?case by simp (simp add: newTimer_def)
next
  case (timer_register n t now interval cb calls t')
  then have wf: "timer_wf t" and n: "unat (mCallbackId t) \<le> n" "n < 2 ^ 32 - 1" by simp_all
  then have new: "mCallbackId t \<noteq> INVALID_ID" by (intro id_below) simp
  show ?case
    using timer_wf_register [OF wf timer_register.hyps(2) new] n counter_step(1) [OF new]
    by (elim conjE disjE) simp_all
next
  case (timer_unregister n t cb calls t')
  then show ?case using timer_wf_unregister [of t cb] counter_unregister [of cb t] by simp
next
  case (timer_message n t now what called calls t')
  then show ?case using timer_wf_handle [of t now what] counter_handle [OF timer_message.hyps(2)] by auto
qed

lemma timer_reachable_wf: "timer_reachable n t \<Longrightarrow> n < 2 ^ 32 \<Longrightarrow> timer_wf t"
  using timer_reachable_counter by blast

lemma to_int64_id: "- (2 ^ 63) \<le> x \<Longrightarrow> x < 2 ^ 63 \<Longrightarrow> to_int64 x = x"
  by (simp add: to_int64_def)

lemma to_int64_cong: "to_int64 (a + (b mod 2 ^ 64) * c) = to_int64 (a + b * c)"
  unfolding to_int64_def by (metis (no_types, opaque_lifting) add.commute mod_add_right_eq mod_mult_left_eq)

lemma advance_eq:
  assumes "0 < interval" "next \<le> now" "0 \<le> next" "now + interval < 2 ^ 63"
  shows "advance now next interval = now + interval - (now - next) mod interval"
proof -
  have "(now - next) sdiv interval = (now - next) div interval"
    using assms by (cases "now = next") (auto simp: signed_divide_int_def)
  then have "next + ((now - next) sdiv interval + 1) * interval =
      next + ((now - next) div interval * interval) + interval"
    by (simp add: algebra_simps)
  also have "\<dots> = now + interval - (now - next) mod interval"
    by (simp add: minus_mod_eq_div_mult [symmetric])
  finally have e: "next + ((now - next) sdiv interval + 1) * interval =
      now + interval - (now - next) mod interval" .
  have "0 \<le> (now - next) mod interval" "(now - next) mod interval < interval" using assms by simp_all
  then show ?thesis
    using assms unfolding advance_def Let_def to_int64_cong e by (intro to_int64_id) linarith+
qed

lemma alignedTime_eq:
  assumes "0 < interval" "0 \<le> now" "now < 2 ^ 53" "interval < 2 ^ 53"
  shows "alignedTime now interval = Some (now div interval * interval)"
proof -
  have d: "now sdiv interval = now div interval"
    using assms by (cases "now = 0") (auto simp: signed_divide_int_def)
  have q0: "0 \<le> now div interval"
    using assms by (simp add: pos_imp_zdiv_nonneg_iff)
  have m: "0 \<le> now div interval * interval" "now div interval * interval \<le> now"
    using assms q0 by (simp_all add: minus_mod_eq_div_mult [symmetric] zmod_le_nonneg_dividend)
  have "now div interval * 1 \<le> now div interval * interval"
    using q0 assms by (intro mult_left_mono) auto
  then have q: "0 \<le> now div interval" "now div interval \<le> now" using q0 m by auto
  have "fp_of_int binary64 (now div interval) = FFin (of_int (now div interval))"
    "fp_of_int binary64 interval = FFin (of_int interval)"
    "fp_mul binary64 (FFin (of_int (now div interval))) (FFin (of_int interval)) =
       FFin (of_int (now div interval * interval))"
    using assms q m fp_of_int_binary64 [of "now div interval"] fp_of_int_binary64 [of interval]
      fp_mul_of_int_binary64 [of "now div interval" interval]
    by (simp_all del: fp_mul.simps)
  moreover have "fp_to_int 64 (FFin (of_int (now div interval * interval))) =
      Some (now div interval * interval)"
    using assms m by (intro fp_to_int_of_int) auto
  ultimately show ?thesis
    using assms by (simp add: alignedTime_def d del: of_int_mult)
qed

section \<open>Properties\<close>

text \<open>
  In every timer reached by fewer than \<open>2 ^ 32\<close> registrations, handling a message is defined and keeps the
  two maps consistent, and registering a callback is undefined only when the alignment arithmetic
  is (a zero interval, or a time out of range).
\<close>
theorem timer_never_undefined:
  assumes "timer_reachable n t" "n < 2 ^ 32"
  shows "timer_wf t \<and> (\<exists>r. handleMessage now what t = Some r \<and> timer_wf (snd (snd r))) \<and>
    (registerTimerCallback now interval cb t = None \<longleftrightarrow> alignedTime now interval = None)"
proof -
  have wf: "timer_wf t" using timer_reachable_wf [OF assms] .
  then have "registerTimerCallback now interval cb t = None \<longleftrightarrow> alignedTime now interval = None"
    using register_fresh [OF wf, of cb now interval] register_again [OF wf, of cb _ now interval]
    by (cases "map_of (mIdByCallback t) cb") auto
  then show ?thesis using wf timer_wf_handle [OF wf] by blast
qed

text \<open>
  Claim C9 (timer_schedule). In a timer reached by fewer than \<open>2 ^ 32 - 1\<close> registrations, which the 32-bit
  counter of identifiers tells apart, registering a new callback with a positive interval schedules it at
  the last multiple of the interval that is not after the current time. When its message is handled, the
  callback is called once and scheduled again strictly after the time of the call, at most one interval
  later, and still on the same grid of times. Times and interval are below \<open>2 ^ 53\<close> nanoseconds (104 days),
  where the conversions to \<^verbatim>\<open>double\<close> are exact and no 64-bit arithmetic wraps around.
\<close>
theorem timer_schedule:
  assumes "timer_reachable n t" "n < 2 ^ 32 - 1" "registered cb t = None"
    and "0 < interval" "0 \<le> now" "now \<le> later" "later < 2 ^ 53" "interval < 2 ^ 53"
  shows "\<exists>t' what start next t''.
    registerTimerCallback now interval cb t = Some ([SendMessageAtTime start what], t') \<and>
    registered cb t' = Some \<lparr>ci_callback = cb, ci_intervalInNanos = interval, ci_nextTimeInNanos = start\<rparr> \<and>
    start \<le> now \<and> now < start + interval \<and> interval dvd start \<and>
    handleMessage later what t' = Some (Some cb, [SendMessageAtTime next what], t'') \<and>
    later < next \<and> next \<le> later + interval \<and> interval dvd next"
proof -
  have wf: "timer_wf t" using timer_reachable_wf [OF assms(1)] assms(2) by simp
  have none: "map_of (mIdByCallback t) cb = None"
    using timer_wf_id [OF wf, of cb] assms(3) by (fastforce simp: registered_def split: bind_splits)
  define start where "start = now div interval * interval"
  have a: "alignedTime now interval = Some start"
    using alignedTime_eq assms by (simp add: start_def)
  have s: "start \<le> now" "now < start + interval" "0 \<le> start"
    using assms(4,5) pos_mod_bound [of interval now]
    unfolding start_def minus_mod_eq_div_mult [symmetric] by (auto simp: zmod_le_nonneg_dividend)
  define nxt where "nxt = advance later start interval"
  have e: "nxt = later + interval - (later - start) mod interval"
    unfolding nxt_def by (rule advance_eq) (use assms s in auto)
  have "nxt = start + (later - start) div interval * interval + interval"
    unfolding e minus_mod_eq_div_mult [symmetric] by simp
  then have "interval dvd nxt" by (simp add: start_def)
  moreover have "later < nxt" "nxt \<le> later + interval"
    using assms(4) pos_mod_bound [of interval "later - start"] by (auto simp: e)
  moreover have "interval dvd start" by (simp add: start_def)
  ultimately show ?thesis
    using s assms(4)
    by (simp add: registered_def register_fresh [OF wf none] a handleMessage_def Let_def nxt_def [symmetric])
qed

text \<open>
  Registering a callback that is already registered does not
  override the interval: the stored record, with the old interval and its old next time, stays as it
  was (\<^verbatim>\<open>unordered_map::insert\<close> does not replace), and only one message is sent at the new time. The
  comment in \<^verbatim>\<open>RecurrentTimer.h\<close> promises that the interval is overridden.
\<close>
theorem reregistration_keeps_interval:
  assumes "timer_reachable n t" "n < 2 ^ 32" "registered cb t = Some info"
    and "registerTimerCallback now interval cb t = Some (calls, t')"
  shows "registered cb t' = Some info \<and>
    (\<exists>what start. calls = [RemoveMessages what, SendMessageAtTime start what] \<and>
       alignedTime now interval = Some start)"
proof -
  have wf: "timer_wf t" using timer_reachable_wf [OF assms(1,2)] .
  obtain i where "map_of (mIdByCallback t) cb = Some i"
    using assms(3) by (auto simp: registered_def split: bind_splits)
  from register_again [OF wf this, of now interval] show ?thesis
    using assms(3,4) by (cases "alignedTime now interval") auto
qed

text \<open>
  After a callback was unregistered, no message calls it, not even
  one that was already in the looper's queue.
\<close>
theorem unregistered_not_called:
  assumes "timer_reachable n t" "n < 2 ^ 32"
  shows "fst (the (handleMessage now what (snd (unregisterTimerCallback cb t)))) \<noteq> Some cb"
proof -
  have wf: "timer_wf t" using timer_reachable_wf [OF assms] .
  let ?t = "snd (unregisterTimerCallback cb t)"
  have wf': "timer_wf ?t" using timer_wf_unregister [OF wf] .
  have none: "map_of (mIdByCallback ?t) cb = None"
    using getCallbackId_wf [OF wf, of cb] by (auto simp: unregisterTimerCallback_def Let_def)
  show ?thesis
  proof (cases "map_of (mCallbackInfoById ?t) what")
    case None
    then show ?thesis by (simp add: handleMessage_def)
  next
    case (Some info)
    then have "map_of (mIdByCallback ?t) (ci_callback info) = Some what" "ci_intervalInNanos info \<noteq> 0"
      using wf' by (auto simp: timer_wf_def)
    then show ?thesis using none Some by (auto simp: handleMessage_def Let_def)
  qed
qed

text \<open>
  The identifier handed out after \<open>2 ^ 32 - 1\<close> registrations is \<open>INVALID_ID\<close>: the callback that gets it is
  scheduled, but the timer does not find it again and cannot stop it.
\<close>

lemma invalid_id_registered:
  assumes "mCallbackId t = INVALID_ID" "map_of (mIdByCallback t) cb = None"
    and "registerTimerCallback now interval cb t = Some (calls, t')"
  shows "map_of (mIdByCallback t') cb = Some INVALID_ID \<and> unregisterTimerCallback cb t' = ([], t')"
  using assms by (auto simp: registerTimerCallback_def unregisterTimerCallback_def getCallbackIdLocked_def
      Let_def umap_insert_def split: option.splits)

section \<open>Witnesses\<close>

definition sample_timer :: RecurrentTimer where
  "sample_timer = snd (the (registerTimerCallback 1050 100 5 newTimer))"

lemma sample_timer_eq: "registerTimerCallback 1050 100 5 newTimer = Some ([SendMessageAtTime 1000 0], sample_timer)"
  by (simp add: sample_timer_def newTimer_def register_fresh [OF timer_wf_new [unfolded newTimer_def]]
      alignedTime_eq)

lemma sample_timer_reachable: "timer_reachable 1 sample_timer"
  unfolding One_nat_def by (rule timer_register [OF timer_init sample_timer_eq])

theorem timer_never_undefined_witness: "timer_wf sample_timer"
  using timer_never_undefined [OF sample_timer_reachable] by simp

theorem timer_schedule_witness:
  "\<exists>t' what start next t''. registerTimerCallback 1050 100 5 newTimer =
      Some ([SendMessageAtTime start what], t') \<and>
    handleMessage 2345 what t' = Some (Some 5, [SendMessageAtTime next what], t'') \<and> 2345 < next \<and> next \<le> 2445"
proof -
  have "registered 5 newTimer = None" by (simp add: registered_def newTimer_def)
  from timer_schedule [OF timer_init _ this, of 100 1050 2345] show ?thesis by fastforce
qed

theorem reregistration_keeps_interval_witness:
  "registered 5 (snd (the (registerTimerCallback 1050 20 5 sample_timer))) =
     Some \<lparr>ci_callback = 5, ci_intervalInNanos = 100, ci_nextTimeInNanos = 1000\<rparr>"
proof -
  have st: "sample_timer = \<lparr>mCallbackId = 1, mIdByCallback = [(5, 0)],
      mCallbackInfoById = [(0, \<lparr>ci_callback = 5, ci_intervalInNanos = 100, ci_nextTimeInNanos = 1000\<rparr>)]\<rparr>"
    using sample_timer_eq
    by (simp add: newTimer_def register_fresh [OF timer_wf_new [unfolded newTimer_def]] alignedTime_eq
        umap_put_def)
  have r: "registered 5 sample_timer =
      Some \<lparr>ci_callback = 5, ci_intervalInNanos = 100, ci_nextTimeInNanos = 1000\<rparr>"
    by (simp add: st registered_def)
  have "map_of (mIdByCallback sample_timer) 5 = Some 0" by (simp add: st)
  from register_again [OF timer_reachable_wf [OF sample_timer_reachable, simplified] this, of 1050 20]
  have "registerTimerCallback 1050 20 5 sample_timer =
      Some ([RemoveMessages 0, SendMessageAtTime 1040 0], sample_timer)"
    by (simp add: alignedTime_eq)
  from reregistration_keeps_interval [OF sample_timer_reachable _ r this] this show ?thesis by simp
qed

theorem unregistered_not_called_witness:
  "fst (the (handleMessage 2000 0 (snd (unregisterTimerCallback 5 sample_timer)))) \<noteq> Some 5"
  by (rule unregistered_not_called [OF sample_timer_reachable]) simp

end
