(* ===== verification/Concurrent_Queue.thy ===== *)
theory Concurrent_Queue
  imports Prelude
begin

text \<open>
  \<^verbatim>\<open>utils/common/include/ConcurrentQueue.h\<close>: a queue that can be deactivated, and the batching consumer
  whose worker thread takes everything from the queue once per interval. Each queue operation is
  atomic (it holds the lock). The worker thread is a program counter: it and the other threads
  take their steps in any order, and \<open>consumer_step\<close> is the step relation of the whole.
\<close>

section \<open>The queue\<close>

record 'a ConcurrentQueue =
  mQueue :: "'a list"
  mIsActive :: bool

definition newQueue :: "'a ConcurrentQueue" where
  "newQueue = \<lparr>mQueue = [], mIsActive = True\<rparr>"

text \<open>\<open>waitForItems\<close> blocks (\<open>None\<close>) while the queue is empty and active.\<close>

definition waitForItems :: "'a ConcurrentQueue \<Rightarrow> bool option" where
  "waitForItems q = (if mQueue q = [] \<and> mIsActive q then None else Some (mIsActive q))"

definition flush :: "'a ConcurrentQueue \<Rightarrow> 'a list \<times> 'a ConcurrentQueue" where
  "flush q = (mQueue q, q\<lparr>mQueue := []\<rparr>)"

definition pushAll :: "'a list \<Rightarrow> 'a ConcurrentQueue \<Rightarrow> 'a ConcurrentQueue" where
  "pushAll items q = (if \<not> mIsActive q then q else q\<lparr>mQueue := mQueue q @ items\<rparr>)"

definition push :: "'a \<Rightarrow> 'a ConcurrentQueue \<Rightarrow> 'a ConcurrentQueue" where
  "push item q = (if \<not> mIsActive q then q else q\<lparr>mQueue := mQueue q @ [item]\<rparr>)"

definition deactivate :: "'a ConcurrentQueue \<Rightarrow> 'a ConcurrentQueue" where
  "deactivate q = q\<lparr>mIsActive := False\<rparr>"

section \<open>The batching consumer\<close>

datatype ConsumerState = INIT | RUNNING | STOP_REQUESTED | STOPPED

datatype WorkerPC = Start | LoopHead | Waiting | Sleeping | Flushing | Exiting | Finished

record 'a BatchingConsumer =
  mState :: ConsumerState
  mWorker :: WorkerPC
  mSource :: "'a ConcurrentQueue"
  delivered :: "'a list list"   \<comment> \<open>the arguments of \<^verbatim>\<open>onBatchReceived\<close>, in order\<close>

definition newConsumer :: "'a BatchingConsumer" where
  "newConsumer = \<lparr>mState = INIT, mWorker = Start, mSource = newQueue, delivered = []\<rparr>"

definition requestStop :: "'a BatchingConsumer \<Rightarrow> 'a BatchingConsumer" where
  "requestStop b = b\<lparr>mState := STOP_REQUESTED\<rparr>"

text \<open>One step of \<open>runInternal\<close>; \<open>None\<close> when the thread is blocked or has ended.\<close>

definition runInternal :: "'a BatchingConsumer \<Rightarrow> 'a BatchingConsumer option" where
  "runInternal b = (case mWorker b of
     Start \<Rightarrow> Some (b\<lparr>mWorker := if mState b = INIT then LoopHead else Exiting, mState := RUNNING\<rparr>)
   | LoopHead \<Rightarrow> Some (b\<lparr>mWorker := if mState b = RUNNING then Waiting else Exiting\<rparr>)
   | Waiting \<Rightarrow> (case waitForItems (mSource b) of None \<Rightarrow> None
       | Some _ \<Rightarrow> Some (b\<lparr>mWorker := if mState b = STOP_REQUESTED then Exiting else Sleeping\<rparr>))
   | Sleeping \<Rightarrow> Some (b\<lparr>mWorker := if mState b = STOP_REQUESTED then Exiting else Flushing\<rparr>)
   | Flushing \<Rightarrow> (case flush (mSource b) of (items, q) \<Rightarrow>
       Some (b\<lparr>mSource := q, mWorker := LoopHead,
               delivered := (if length items > 0 then delivered b @ [items] else delivered b)\<rparr>))
   | Exiting \<Rightarrow> Some (b\<lparr>mState := STOPPED, mWorker := Finished\<rparr>)
   | Finished \<Rightarrow> None)"

inductive consumer_step :: "'a list \<Rightarrow> 'a BatchingConsumer \<Rightarrow> 'a BatchingConsumer \<Rightarrow> bool" where
  worker: "runInternal b = Some b' \<Longrightarrow> consumer_step [] b b'"
| pushed: "mIsActive (mSource b) \<Longrightarrow> consumer_step items b (b\<lparr>mSource := pushAll items (mSource b)\<rparr>)"
| ignored: "\<not> mIsActive (mSource b) \<Longrightarrow> consumer_step [] b (b\<lparr>mSource := pushAll items (mSource b)\<rparr>)"
| stopping: "consumer_step [] b (requestStop b)"
| deactivating: "consumer_step [] b (b\<lparr>mSource := deactivate (mSource b)\<rparr>)"

inductive_cases consumer_stepE: "consumer_step items b b'"

inductive consumer_run :: "'a list \<Rightarrow> 'a BatchingConsumer \<Rightarrow> 'a BatchingConsumer \<Rightarrow> bool" where
  run_start: "consumer_run [] b b"
| run_step: "consumer_run items b b' \<Longrightarrow> consumer_step items' b' b'' \<Longrightarrow> consumer_run (items @ items') b b''"

section \<open>Queue lemmas\<close>

lemma queue_simps [simp]:
  "mQueue (pushAll items q) = (if mIsActive q then mQueue q @ items else mQueue q)"
  "mIsActive (pushAll items q) = mIsActive q"
  "mQueue (push x q) = (if mIsActive q then mQueue q @ [x] else mQueue q)"
  "mIsActive (push x q) = mIsActive q"
  "mQueue (deactivate q) = mQueue q" "mIsActive (deactivate q) = False"
  "mQueue newQueue = []" "mIsActive newQueue = True"
  by (simp_all add: pushAll_def push_def deactivate_def newQueue_def)

lemma flush_simps [simp]: "fst (flush q) = mQueue q" "mQueue (snd (flush q)) = []"
    "mIsActive (snd (flush q)) = mIsActive q"
  by (simp_all add: flush_def)

lemma worker_fifo:
  "runInternal b = Some b' \<Longrightarrow>
     concat (delivered b') @ mQueue (mSource b') = concat (delivered b) @ mQueue (mSource b) \<and>
     ([] \<notin> set (delivered b) \<longrightarrow> [] \<notin> set (delivered b'))"
  by (auto simp: runInternal_def flush_def split: WorkerPC.splits option.splits if_splits)

lemma step_fifo:
  "consumer_step items b b' \<Longrightarrow>
     concat (delivered b') @ mQueue (mSource b') = concat (delivered b) @ mQueue (mSource b) @ items \<and>
     ([] \<notin> set (delivered b) \<longrightarrow> [] \<notin> set (delivered b'))"
proof (induction rule: consumer_step.induct)
  case (worker b b')
  then show ?case using worker_fifo [of b b'] by simp
qed (simp_all add: requestStop_def)

text \<open>A worker that has left the loop ends without delivering anything more.\<close>

definition draining :: "'a BatchingConsumer \<Rightarrow> bool" where
  "draining b \<longleftrightarrow> (mState b = STOP_REQUESTED \<or> mState b = STOPPED \<and> mWorker b = Finished) \<and>
     mWorker b \<noteq> Start \<and> mWorker b \<noteq> Flushing"

lemma draining_step:
  "consumer_step items b b' \<Longrightarrow> draining b \<Longrightarrow> draining b' \<and> delivered b' = delivered b"
proof (induction rule: consumer_step.induct)
  case (worker b b')
  then show ?case
    by (cases "mState b")
      (auto simp: runInternal_def draining_def split: WorkerPC.splits option.splits if_splits)
qed (auto simp: draining_def requestStop_def)

lemma draining_run:
  "consumer_run items b b' \<Longrightarrow> draining b \<Longrightarrow> draining b' \<and> delivered b' = delivered b"
  by (induction rule: consumer_run.induct) (auto dest: draining_step)

section \<open>Properties\<close>

text \<open>
  Claim C12 (consumer_fifo). In every interleaving of the worker, the producers and the stop requests, the
  batches the consumer delivered, followed by what is still queued, are exactly the items accepted by
  the queue, in their order; no batch is empty.
\<close>
theorem consumer_fifo:
  assumes "consumer_run items newConsumer b"
  shows "concat (delivered b) @ mQueue (mSource b) = items \<and> [] \<notin> set (delivered b)"
  using assms
proof (induction items "newConsumer :: 'a BatchingConsumer" b rule: consumer_run.induct)
  case (run_start)
  then show ?case by (simp add: newConsumer_def)
next
  case (run_step items b' items' b'')
  then show ?case using step_fifo [OF run_step(3)] by simp
qed

text \<open>
  After a stop was requested while the worker was not about to flush, whatever
  happens next, no batch is delivered any more.
\<close>
theorem stop_is_final:
  assumes "mWorker b \<noteq> Start" "mWorker b \<noteq> Flushing"
    and "consumer_run items (requestStop b) b'"
  shows "delivered b' = delivered b"
  using draining_run [OF assms(3)] assms(1,2) by (simp add: draining_def requestStop_def)

text \<open>
  Claim C13 (stop_terminates). Once a stop is requested and the queue is deactivated, the worker is never
  blocked, and at most three of its own steps bring it to its end.
\<close>
theorem stop_terminates:
  assumes "mState b = STOP_REQUESTED" "\<not> mIsActive (mSource b)" "mWorker b \<noteq> Finished" "mWorker b \<noteq> Start"
  shows "\<exists>n \<le> 3. \<exists>b'. ((\<lambda>x. Option.bind x runInternal) ^^ n) (Some b) = Some b' \<and>
    mWorker b' = Finished \<and> mState b' = STOPPED"
proof -
  have exit: "runInternal c = Some (c\<lparr>mState := STOPPED, mWorker := Finished\<rparr>)" if "mWorker c = Exiting" for c :: "'a BatchingConsumer"
    using that by (simp add: runInternal_def)
  have out: "runInternal c = Some (c\<lparr>mWorker := Exiting\<rparr>)"
    if "mWorker c \<in> {LoopHead, Waiting, Sleeping}" "mState c = STOP_REQUESTED" "\<not> mIsActive (mSource c)"
    for c :: "'a BatchingConsumer"
    using that by (auto simp: runInternal_def waitForItems_def)
  consider "mWorker b = Exiting" | "mWorker b \<in> {LoopHead, Waiting, Sleeping}" | "mWorker b = Flushing"
    using assms(3,4) by (cases "mWorker b") auto
  then show ?thesis
  proof cases
    case 1
    then show ?thesis using exit by (intro exI [of _ 1]) simp
  next
    case 2
    then show ?thesis using out [OF 2 assms(1,2)] exit [of "b\<lparr>mWorker := Exiting\<rparr>"]
      by (intro exI [of _ 2]) (simp add: numeral_2_eq_2)
  next
    case 3
    obtain c where c: "runInternal b = Some c" "mWorker c = LoopHead" "mState c = STOP_REQUESTED"
      "\<not> mIsActive (mSource c)"
      using 3 assms by (auto simp: runInternal_def flush_def)
    then show ?thesis using out [of c] exit [of "c\<lparr>mWorker := Exiting\<rparr>"]
      by (intro exI [of _ 3]) (simp add: numeral_3_eq_3)
  qed
qed

section \<open>Witnesses\<close>

lemma sample_consumer_run:
  "consumer_run ([] @ [1, 2]) newConsumer (newConsumer\<lparr>mSource := pushAll [1, 2 :: nat] newQueue\<rparr>)"
  using run_step [OF run_start pushed [of newConsumer "[1, 2 :: nat]"]] by (simp add: newConsumer_def)

theorem consumer_fifo_witness:
  "mQueue (mSource (newConsumer\<lparr>mSource := pushAll [1, 2 :: nat] newQueue\<rparr>)) = [1, 2]"
  using consumer_fifo [OF sample_consumer_run] by (simp add: newConsumer_def)

theorem stop_is_final_witness:
  "delivered (requestStop (newConsumer\<lparr>mWorker := Waiting\<rparr>)) = ([] :: nat list list)"
  using stop_is_final [of "newConsumer\<lparr>mWorker := Waiting\<rparr>", OF _ _ run_start] by (simp add: newConsumer_def)

theorem stop_terminates_witness:
  "\<exists>n \<le> 3. \<exists>b'. ((\<lambda>x. Option.bind x runInternal) ^^ n)
     (Some (\<lparr>mState = STOP_REQUESTED, mWorker = Flushing, mSource = \<lparr>mQueue = [1 :: nat], mIsActive = False\<rparr>,
       delivered = []\<rparr> :: nat BatchingConsumer)) = Some b' \<and> mWorker b' = Finished \<and> mState b' = STOPPED"
  by (rule stop_terminates) simp_all

end
