(* ===== verification/Fake_Obd2.thy ===== *)
theory Fake_Obd2
  imports Property_Store
begin

text \<open>
  \<^verbatim>\<open>fake_impl/obd2frame\<close>: the sensor store that lays out an OBD2 frame with its bitmask
  (\<^verbatim>\<open>Obd2SensorStore\<close>), and the live and freeze frames the emulator keeps in the property store
  (\<^verbatim>\<open>FakeObd2Frame\<close>). Freeze frames are stored under their timestamp.

  The sizes of the vectors come from the property configuration: \<open>None\<close> stands for reading
  a configuration array that is too short, and for a vector that cannot be allocated. Clock readings and the object
  that the value pool hands out are parameters.
\<close>

section \<open>The sensor store\<close>

record BitmaskInVector =
  mStorage :: "8 word list"
  mNumBits :: nat

definition bitmaskResize :: "nat \<Rightarrow> BitmaskInVector" where
  "bitmaskResize numBits = \<lparr>mStorage = replicate ((numBits + 7) div 8) 0, mNumBits = numBits\<rparr>"

definition bitmaskSet :: "nat \<Rightarrow> bool \<Rightarrow> BitmaskInVector \<Rightarrow> (unit + unit) \<times> BitmaskInVector" where
  "bitmaskSet index v m =
    (let byteIndex = index div 8; bitIndex = index mod 8 in
     if index \<ge> mNumBits m then (Inl (), m)
     else
       let byte = mStorage m ! byteIndex;
           newValue = (if v then byte OR push_bit bitIndex 1 else byte AND NOT (push_bit bitIndex 1)) in
       (Inr (), m\<lparr>mStorage := (mStorage m)[byteIndex := newValue]\<rparr>))"

definition bitmaskGet :: "nat \<Rightarrow> BitmaskInVector \<Rightarrow> unit + bool" where
  "bitmaskGet index m =
    (if index \<ge> mNumBits m then Inl ()
     else Inr ((mStorage m ! (index div 8)) AND push_bit (index mod 8) 1 \<noteq> 0))"

record Obd2SensorStore =
  mIntegerSensors :: "int list"
  mFloatSensors :: "fp list"
  mSensorsBitmask :: BitmaskInVector

text \<open>The last enumerators of \<^verbatim>\<open>DiagnosticIntegerSensorIndex\<close> and \<^verbatim>\<open>DiagnosticFloatSensorIndex\<close>.\<close>

definition lastIntegerSensorIndex :: nat where "lastIntegerSensorIndex = 31"
definition lastFloatSensorIndex :: nat where "lastFloatSensorIndex = 70"

text \<open>
  The numbers of vendor sensors are \<^verbatim>\<open>size_t\<close>; the sums wrap, and a vector of \<open>2^60\<close> elements cannot be
  allocated.
\<close>

definition newObd2SensorStore :: "nat \<Rightarrow> nat \<Rightarrow> Obd2SensorStore option" where
  "newObd2SensorStore numVendorIntegerSensors numVendorFloatSensors =
    (let numIntegers = (lastIntegerSensorIndex + 1 + numVendorIntegerSensors) mod 2 ^ 64;
         numFloats = (lastFloatSensorIndex + 1 + numVendorFloatSensors) mod 2 ^ 64 in
     if numIntegers \<ge> 2 ^ 60 \<or> numFloats \<ge> 2 ^ 60 then None
     else Some \<lparr>mIntegerSensors = replicate numIntegers 0, mFloatSensors = replicate numFloats (FFin 0),
       mSensorsBitmask = bitmaskResize (numIntegers + numFloats)\<rparr>)"

definition setIntegerSensor :: "nat \<Rightarrow> int \<Rightarrow> Obd2SensorStore \<Rightarrow> StatusCode \<times> Obd2SensorStore" where
  "setIntegerSensor index v s =
    (if index \<ge> length (mIntegerSensors s) then (INVALID_ARG, s)
     else
       let s1 = s\<lparr>mIntegerSensors := (mIntegerSensors s)[index := v]\<rparr>;
           (result, mask) = bitmaskSet index True (mSensorsBitmask s1);
           s2 = s1\<lparr>mSensorsBitmask := mask\<rparr> in
       (case result of Inl _ \<Rightarrow> (INVALID_ARG, s2) | Inr _ \<Rightarrow> (OK, s2)))"

definition setFloatSensor :: "nat \<Rightarrow> fp \<Rightarrow> Obd2SensorStore \<Rightarrow> StatusCode \<times> Obd2SensorStore" where
  "setFloatSensor index v s =
    (if index \<ge> length (mFloatSensors s) then (INVALID_ARG, s)
     else
       let s1 = s\<lparr>mFloatSensors := (mFloatSensors s)[index := v]\<rparr>;
           (result, mask) = bitmaskSet (index + length (mIntegerSensors s1)) True (mSensorsBitmask s1);
           s2 = s1\<lparr>mSensorsBitmask := mask\<rparr> in
       (case result of Inl _ \<Rightarrow> (INVALID_ARG, s2) | Inr _ \<Rightarrow> (OK, s2)))"

definition getSensorProperty :: "int \<Rightarrow> string \<Rightarrow> Obd2SensorStore \<Rightarrow> VehiclePropValue" where
  "getSensorProperty now dtc s = \<lparr>pv_timestamp = now, pv_areaId = 0, pv_prop = 0, pv_status = AVAILABLE,
     pv_value = \<lparr>int32Values = mIntegerSensors s, floatValues = mFloatSensors s, int64Values = [],
       byteValues = mStorage (mSensorsBitmask s), stringValue = dtc\<rparr>\<rparr>"

section \<open>The frames\<close>

definition OBD2_LIVE_FRAME :: int32 where "OBD2_LIVE_FRAME = 0x11e00d00"
definition OBD2_FREEZE_FRAME :: int32 where "OBD2_FREEZE_FRAME = 0x11e00d01"
definition OBD2_FREEZE_FRAME_INFO :: int32 where "OBD2_FREEZE_FRAME_INFO = 0x11e00d02"
definition OBD2_FREEZE_FRAME_CLEAR :: int32 where "OBD2_FREEZE_FRAME_CLEAR = 0x11e00d03"

text \<open>A literal of type \<^verbatim>\<open>double\<close> passed as a \<^verbatim>\<open>float\<close>.\<close>

definition doubleToFloat :: "rat \<Rightarrow> fp" where
  "doubleToFloat x = (case fl binary64 x of FFin r \<Rightarrow> fl binary32 r | y \<Rightarrow> y)"

text \<open>
  The sensors of the default frame, by the index of their enumerator: first the integers, from
  \<^verbatim>\<open>FUEL_SYSTEM_STATUS\<close> to \<^verbatim>\<open>FUEL_TYPE\<close>, then the floats, from \<^verbatim>\<open>CALCULATED_ENGINE_LOAD\<close> to
  \<^verbatim>\<open>COMMANDED_THROTTLE_ACTUATOR\<close>.
\<close>

definition defaultIntegerSensors :: "(nat \<times> int) list" where
  "defaultIntegerSensors = [(0, 2), (1, 0), (2, 0),
     (3, 0x1 OR push_bit 4 1 OR push_bit 12 1 OR push_bit 16 1),
     (4, 35), (5, 4), (6, 1), (7, 500), (8, 0), (9, 51), (10, 365), (11, 30), (12, 12), (13, 18), (16, 1), (21, 1)]"

definition defaultFloatSensors :: "(nat \<times> rat) list" where
  "defaultFloatSensors = [(0, 0.153), (2, -0.16), (3, -0.16), (4, -0.16), (5, -0.16), (7, 7.5), (8, 1250), (9, 40),
     (10, 2.5), (12, 19.75), (13, 0.265), (42, 0.824), (43, -0.373), (44, 190), (50, 3), (51, 0.306), (53, 0.188),
     (54, 0.094), (56, 0.024)]"

definition fillDefaultObd2Frame :: "nat \<Rightarrow> nat \<Rightarrow> Obd2SensorStore option" where
  "fillDefaultObd2Frame numVendorIntegerSensors numVendorFloatSensors =
    map_option (\<lambda>s. fold (\<lambda>(i, x). snd \<circ> setFloatSensor i (doubleToFloat x)) defaultFloatSensors
        (fold (\<lambda>(i, x). snd \<circ> setIntegerSensor i x) defaultIntegerSensors s))
      (newObd2SensorStore numVendorIntegerSensors numVendorFloatSensors)"

definition frameFromConfig :: "VehiclePropConfig \<Rightarrow> Obd2SensorStore option" where
  "frameFromConfig propConfig = (if length (pc_configArray propConfig) < 2 then None
     else fillDefaultObd2Frame (to_size_t (pc_configArray propConfig ! 0)) (to_size_t (pc_configArray propConfig ! 1)))"

text \<open>The results of the writes are ignored.\<close>

definition initObd2LiveFrame ::
  "int \<Rightarrow> VehiclePropConfig \<Rightarrow> VehiclePropertyStore \<Rightarrow> VehiclePropertyStore option" where
  "initObd2LiveFrame now propConfig st = map_option
     (\<lambda>s. snd (snd (writeValue now ((getSensorProperty now [] s)\<lparr>pv_prop := OBD2_LIVE_FRAME\<rparr>)
        True ON_VALUE_CHANGE False st)))
     (frameFromConfig propConfig)"

definition sampleDtcs :: "string list" where
  "sampleDtcs = [''P0070'', ''P0102'', ''P0123'']"

definition writeFreezeFrame ::
  "(string \<Rightarrow> int) \<Rightarrow> Obd2SensorStore \<Rightarrow> string \<Rightarrow> VehiclePropertyStore \<Rightarrow> VehiclePropertyStore" where
  "writeFreezeFrame clock s dtc st = snd (snd (writeValue (clock dtc)
     ((getSensorProperty (clock dtc) dtc s)\<lparr>pv_prop := OBD2_FREEZE_FRAME\<rparr>) True ON_VALUE_CHANGE False st))"

definition initObd2FreezeFrame ::
  "(string \<Rightarrow> int) \<Rightarrow> VehiclePropConfig \<Rightarrow> VehiclePropertyStore \<Rightarrow> VehiclePropertyStore option" where
  "initObd2FreezeFrame clock propConfig st = map_option
     (\<lambda>s. fold (writeFreezeFrame clock s) sampleDtcs st) (frameFromConfig propConfig)"

definition getObd2FreezeFrame ::
  "VehiclePropValue \<Rightarrow> VehiclePropertyStore \<Rightarrow> VehiclePropValue VhalResult" where
  "getObd2FreezeFrame requestedPropValue st =
    (if length (int64Values (pv_value requestedPropValue)) \<noteq> 1 then Inl INVALID_ARG
     else case readValuesForProperty OBD2_FREEZE_FRAME st of
       Inl _ \<Rightarrow> Inl INTERNAL_ERROR
     | Inr vs \<Rightarrow>
       if vs = [] then Inl NOT_AVAILABLE
       else case readValueById OBD2_FREEZE_FRAME 0 (int64Values (pv_value requestedPropValue) ! 0) st of
         Inl _ \<Rightarrow> Inl INVALID_ARG
       | Inr v \<Rightarrow> Inr v)"

text \<open>
  \<open>pooled\<close> is the object that the pool gives for the type \<^verbatim>\<open>INT64_VEC\<close> and the number of timestamps: its area and
  status are not set.
\<close>

definition getObd2DtcInfo ::
  "(VehiclePropertyType \<Rightarrow> nat \<Rightarrow> VehiclePropValue) \<Rightarrow> VehiclePropertyStore \<Rightarrow> VehiclePropValue VhalResult" where
  "getObd2DtcInfo pooled st =
    (case readValuesForProperty OBD2_FREEZE_FRAME st of
       Inl _ \<Rightarrow> Inl INTERNAL_ERROR
     | Inr vs \<Rightarrow>
       let timestamps = map pv_timestamp vs; outValue = pooled T_INT64_VEC (length timestamps) in
       Inr (outValue\<lparr>pv_prop := OBD2_FREEZE_FRAME_INFO,
                     pv_value := (pv_value outValue)\<lparr>int64Values := timestamps\<rparr>\<rparr>))"

fun clearFrames :: "int list \<Rightarrow> VehiclePropertyStore \<Rightarrow> unit VhalResult \<times> VehiclePropertyStore" where
  "clearFrames [] st = (Inr (), st)"
| "clearFrames (t # ts) st = (case readValueById OBD2_FREEZE_FRAME 0 t st of
     Inl _ \<Rightarrow> (Inl INVALID_ARG, st)
   | Inr v \<Rightarrow> clearFrames ts (removeValue v st))"

definition clearObd2FreezeFrames ::
  "VehiclePropValue \<Rightarrow> VehiclePropertyStore \<Rightarrow> unit VhalResult \<times> VehiclePropertyStore" where
  "clearObd2FreezeFrames v st =
    (if int64Values (pv_value v) = [] then (Inr (), removeValuesForProperty OBD2_FREEZE_FRAME st)
     else clearFrames (int64Values (pv_value v)) st)"

definition isDiagnosticProperty :: "VehiclePropConfig \<Rightarrow> bool" where
  "isDiagnosticProperty cfg \<longleftrightarrow> pc_prop cfg = OBD2_LIVE_FRAME \<or> pc_prop cfg = OBD2_FREEZE_FRAME \<or>
     pc_prop cfg = OBD2_FREEZE_FRAME_CLEAR \<or> pc_prop cfg = OBD2_FREEZE_FRAME_INFO"

section \<open>The layout of a frame\<close>

datatype SensorOp = SetInteger nat int | SetFloat nat fp

primrec runSensorOp :: "SensorOp \<Rightarrow> Obd2SensorStore \<Rightarrow> Obd2SensorStore" where
  "runSensorOp (SetInteger i v) s = snd (setIntegerSensor i v s)"
| "runSensorOp (SetFloat i v) s = snd (setFloatSensor i v s)"

text \<open>The assignments to integer and to float sensors, the last one first.\<close>

fun integerOps :: "SensorOp list \<Rightarrow> (nat \<times> int) list" where
  "integerOps [] = []"
| "integerOps (SetInteger i v # ops) = integerOps ops @ [(i, v)]"
| "integerOps (SetFloat i v # ops) = integerOps ops"

fun floatOps :: "SensorOp list \<Rightarrow> (nat \<times> fp) list" where
  "floatOps [] = []"
| "floatOps (SetFloat i v # ops) = floatOps ops @ [(i, v)]"
| "floatOps (SetInteger i v # ops) = floatOps ops"

definition frame_bit :: "8 word list \<Rightarrow> nat \<Rightarrow> bool" where
  "frame_bit bytes j \<longleftrightarrow> bit (bytes ! (j div 8)) (j mod 8)"

lemma bit_exp_word8: "n < 8 \<Longrightarrow> bit (2 ^ m :: 8 word) n \<longleftrightarrow> n = m"
  by (auto simp: bit_exp_iff possible_bit_def)

lemma frame_bit_set:
  assumes "i < 8 * length bytes" "j < 8 * length bytes"
  shows "frame_bit (bytes[i div 8 := (bytes ! (i div 8)) OR push_bit (i mod 8) 1]) j \<longleftrightarrow> j = i \<or> frame_bit bytes j"
proof -
  have "j = i \<longleftrightarrow> j div 8 = i div 8 \<and> j mod 8 = i mod 8" by (metis div_mult_mod_eq)
  moreover have "i div 8 < length bytes" using assms(1) by (simp add: less_mult_imp_div_less mult.commute)
  ultimately show ?thesis
    by (auto simp: frame_bit_def nth_list_update bit_or_iff bit_exp_word8)
qed

definition frame_ok :: "nat \<Rightarrow> nat \<Rightarrow> SensorOp list \<Rightarrow> Obd2SensorStore \<Rightarrow> bool" where
  "frame_ok ni nf ops s \<longleftrightarrow> length (mIntegerSensors s) = ni \<and> length (mFloatSensors s) = nf \<and>
     mNumBits (mSensorsBitmask s) = ni + nf \<and> length (mStorage (mSensorsBitmask s)) = (ni + nf + 7) div 8 \<and>
     (\<forall>i < ni. mIntegerSensors s ! i = (case map_of (integerOps ops) i of None \<Rightarrow> 0 | Some v \<Rightarrow> v)) \<and>
     (\<forall>i < nf. mFloatSensors s ! i = (case map_of (floatOps ops) i of None \<Rightarrow> FFin 0 | Some v \<Rightarrow> v)) \<and>
     (\<forall>j < 8 * ((ni + nf + 7) div 8). frame_bit (mStorage (mSensorsBitmask s)) j \<longleftrightarrow>
        j < ni \<and> map_of (integerOps ops) j \<noteq> None \<or>
        ni \<le> j \<and> j < ni + nf \<and> map_of (floatOps ops) (j - ni) \<noteq> None)"

lemma frame_ok_new: "newObd2SensorStore ni nf = Some s \<Longrightarrow>
   frame_ok ((lastIntegerSensorIndex + 1 + ni) mod 2 ^ 64) ((lastFloatSensorIndex + 1 + nf) mod 2 ^ 64) [] s"
  by (auto simp: newObd2SensorStore_def Let_def frame_ok_def bitmaskResize_def frame_bit_def less_mult_imp_div_less mult.commute split: if_splits)

lemma ops_append:
  "integerOps (ops @ ops') = integerOps ops' @ integerOps ops" "floatOps (ops @ ops') = floatOps ops' @ floatOps ops"
  by (induction ops rule: integerOps.induct) auto

lemma num_bytes: "j < n \<Longrightarrow> j < 8 * ((n + 7) div (8 :: nat))"
  by linarith

lemma frame_ok_step:
  assumes "frame_ok ni nf ops s" shows "frame_ok ni nf (ops @ [op]) (runSensorOp op s)"
proof (cases op)
  case (SetInteger i v)
  show ?thesis
  proof (cases "i < ni")
    case True
    have i: "i < 8 * ((ni + nf + 7) div 8)" using True by (intro num_bytes) simp
    then show ?thesis
      using assms True frame_bit_set [of i "mStorage (mSensorsBitmask s)"]
      by (auto simp: SetInteger frame_ok_def setIntegerSensor_def bitmaskSet_def Let_def ops_append nth_list_update)
  qed (use assms in \<open>auto simp: SetInteger frame_ok_def setIntegerSensor_def ops_append\<close>)
next
  case (SetFloat i v)
  show ?thesis
  proof (cases "i < nf")
    case True
    have i: "i + ni < 8 * ((ni + nf + 7) div 8)" using True by (intro num_bytes) simp
    have j: "(j - ni = i \<and> ni \<le> j) \<longleftrightarrow> j = i + ni" for j by auto
    show ?thesis
      using assms True i frame_bit_set [of "i + ni" "mStorage (mSensorsBitmask s)"] 
      by (auto simp: SetFloat frame_ok_def setFloatSensor_def bitmaskSet_def Let_def ops_append nth_list_update)
  qed (use assms in \<open>auto simp: SetFloat frame_ok_def setFloatSensor_def ops_append\<close>)
qed

lemma frame_ok_run:
  "frame_ok ni nf ops s \<Longrightarrow> frame_ok ni nf (ops @ ops') (fold runSensorOp ops' s)"
proof (induction ops' arbitrary: ops s)
  case (Cons op ops')
  then show ?case using Cons.IH [OF frame_ok_step [OF Cons.prems]] by simp
qed simp

text \<open>
  Claim C20 (frame_layout). After any assignments to the sensors, a frame has one entry for each sensor, holding the
  last value assigned to it, and its bitmask has exactly the bits of the assigned sensors: the integer sensors
  first, then the float sensors. Assignments out of range change nothing.
\<close>

theorem frame_layout:
  assumes "newObd2SensorStore vi vf = Some s0" "ni = (32 + vi) mod 2 ^ 64" "nf = (71 + vf) mod 2 ^ 64"
    and "val = pv_value (getSensorProperty now dtc (fold runSensorOp ops s0))"
  shows "length (int32Values val) = ni \<and> length (floatValues val) = nf \<and> length (byteValues val) = (ni + nf + 7) div 8 \<and>
    (\<forall>i < ni. int32Values val ! i = (case map_of (integerOps ops) i of None \<Rightarrow> 0 | Some v \<Rightarrow> v)) \<and>
    (\<forall>i < nf. floatValues val ! i = (case map_of (floatOps ops) i of None \<Rightarrow> FFin 0 | Some v \<Rightarrow> v)) \<and>
    (\<forall>i < ni. bit (byteValues val ! (i div 8)) (i mod 8) \<longleftrightarrow> i \<in> fst ` set (integerOps ops)) \<and>
    (\<forall>i < nf. bit (byteValues val ! ((ni + i) div 8)) ((ni + i) mod 8) \<longleftrightarrow> i \<in> fst ` set (floatOps ops)) \<and>
    (\<forall>j. ni + nf \<le> j \<and> j < 8 * length (byteValues val) \<longrightarrow> \<not> bit (byteValues val ! (j div 8)) (j mod 8))"
proof -
  define s where "s = fold runSensorOp ops s0"
  have "frame_ok ni nf ops s"
    using frame_ok_run [OF frame_ok_new [OF assms(1)], of ops] assms(2,3)
    by (simp add: s_def lastIntegerSensorIndex_def lastFloatSensorIndex_def)
  note ok = this [unfolded frame_ok_def]
  have val: "int32Values val = mIntegerSensors s" "floatValues val = mFloatSensors s"
    "byteValues val = mStorage (mSensorsBitmask s)"
    by (simp_all add: assms(4) s_def getSensorProperty_def)
  have bits: "bit (byteValues val ! (j div 8)) (j mod 8) \<longleftrightarrow> j < ni \<and> j \<in> fst ` set (integerOps ops) \<or>
      ni \<le> j \<and> j < ni + nf \<and> j - ni \<in> fst ` set (floatOps ops)" if "j < 8 * ((ni + nf + 7) div 8)" for j
    using ok that unfolding val frame_bit_def map_of_eq_None_iff by blast
  have "bit (byteValues val ! (i div 8)) (i mod 8) \<longleftrightarrow> i \<in> fst ` set (integerOps ops)" if "i < ni" for i
    using bits [OF num_bytes, of i] that by simp
  moreover have "bit (byteValues val ! ((ni + i) div 8)) ((ni + i) mod 8) \<longleftrightarrow> i \<in> fst ` set (floatOps ops)" if "i < nf" for i
    using bits [OF num_bytes, of "ni + i"] that by simp
  moreover have "\<not> bit (byteValues val ! (j div 8)) (j mod 8)" if "ni + nf \<le> j \<and> j < 8 * length (byteValues val)" for j
    using bits [of j] that ok by (simp add: val)
  ultimately show ?thesis using ok unfolding val by blast
qed

section \<open>The freeze frames\<close>

definition freezeFrame :: "VehiclePropertyStore \<Rightarrow> int \<Rightarrow> VehiclePropValue option" where
  "freezeFrame st t = stored st OBD2_FREEZE_FRAME (RecordId 0 t)"

definition frames_ok :: "VehiclePropertyStore \<Rightarrow> bool" where
  "frames_ok st \<longleftrightarrow> store_wf st \<and> (\<exists>r. getRecordLocked OBD2_FREEZE_FRAME st = Some r \<and>
     rec_tokenFunction r = Some pv_timestamp \<and>
     (\<forall>rid v. map_of (rec_values r) rid = Some v \<longrightarrow> rid = RecordId 0 (pv_timestamp v)))"

lemma global_frame [simp]: "isGlobalProp OBD2_FREEZE_FRAME"
  by code_simp

lemma frames_okE:
  assumes "frames_ok st"
  obtains r where "store_wf st" "getRecordLocked OBD2_FREEZE_FRAME st = Some r" "rec_tokenFunction r = Some pv_timestamp"
    "freezeFrame st = (\<lambda>t. map_of (rec_values r) (RecordId 0 t))" "umap_wf (rec_values r)"
    "\<And>rid v. map_of (rec_values r) rid = Some v \<Longrightarrow> rid = RecordId 0 (pv_timestamp v)"
    "\<And>v. v \<in> snd ` set (rec_values r) \<longleftrightarrow> freezeFrame st (pv_timestamp v) = Some v"
proof -
  from assms obtain r where r: "store_wf st" "getRecordLocked OBD2_FREEZE_FRAME st = Some r"
    "rec_tokenFunction r = Some pv_timestamp"
    "\<And>rid v. map_of (rec_values r) rid = Some v \<Longrightarrow> rid = RecordId 0 (pv_timestamp v)"
    unfolding frames_ok_def by blast
  have f: "freezeFrame st = (\<lambda>t. map_of (rec_values r) (RecordId 0 t))"
    using r(2) by (simp add: freezeFrame_def stored_def fun_eq_iff)
  have w: "umap_wf (rec_values r)" using store_wf_record [OF r(1,2)] by blast
  have "v \<in> snd ` set (rec_values r) \<longleftrightarrow> freezeFrame st (pv_timestamp v) = Some v" for v
  proof
    assume "v \<in> snd ` set (rec_values r)"
    then obtain k where "(k, v) \<in> set (rec_values r)" by auto
    then have "map_of (rec_values r) k = Some v" using umap_wf_in_set [OF w] by simp
    then show "freezeFrame st (pv_timestamp v) = Some v" using r(4) by (simp add: f)
  next
    assume "freezeFrame st (pv_timestamp v) = Some v"
    then show "v \<in> snd ` set (rec_values r)" using map_of_SomeD unfolding f by force
  qed
  with that r w f show thesis by blast
qed

lemma freezeFrame_timestamp: "frames_ok st \<Longrightarrow> freezeFrame st t = Some v \<Longrightarrow> pv_timestamp v = t \<and> pv_prop v = OBD2_FREEZE_FRAME"
  by (elim frames_okE) (use store_wf_values in fastforce)

lemma readFrame: "frames_ok st \<Longrightarrow> readValueById OBD2_FREEZE_FRAME 0 t st =
    (case freezeFrame st t of None \<Rightarrow> Inl NOT_AVAILABLE | Some v \<Rightarrow> Inr v)"
  by (elim frames_okE) (simp add: readValueById_def readValueLocked_def)

lemma readFrames:
  assumes "frames_ok st"
  obtains vs where "readValuesForProperty OBD2_FREEZE_FRAME st = Inr vs"
    "\<And>v. v \<in> set vs \<longleftrightarrow> freezeFrame st (pv_timestamp v) = Some v" "distinct (map pv_timestamp vs)"
    "vs = [] \<longleftrightarrow> (\<forall>t. freezeFrame st t = None)"
proof -
  from assms obtain r where r: "getRecordLocked OBD2_FREEZE_FRAME st = Some r" "umap_wf (rec_values r)"
    "\<And>rid v. map_of (rec_values r) rid = Some v \<Longrightarrow> rid = RecordId 0 (pv_timestamp v)"
    "\<And>v. v \<in> snd ` set (rec_values r) \<longleftrightarrow> freezeFrame st (pv_timestamp v) = Some v"
    by (rule frames_okE) blast
  have "map (\<lambda>kv. RecordId 0 (pv_timestamp (snd kv))) (rec_values r) = map fst (rec_values r)"
    by (rule map_cong) (use r(3) umap_wf_in_set [OF r(2)] in force)+
  then have d: "distinct (map (RecordId 0 \<circ> (\<lambda>kv. pv_timestamp (snd kv))) (rec_values r))"
    using r(2) unfolding umap_wf_def comp_def by metis
  have "distinct (map pv_timestamp (map snd (rec_values r)))"
    using d unfolding map_map distinct_map by (auto simp: comp_def inj_on_def)
  moreover have "rec_values r = [] \<longleftrightarrow> (\<forall>t. freezeFrame st t = None)"
  proof
    assume "\<forall>t. freezeFrame st t = None"
    then have "v \<notin> snd ` set (rec_values r)" for v using r(4) by simp
    then show "rec_values r = []" by (cases "rec_values r") auto
  qed (use r(1) in \<open>simp add: freezeFrame_def stored_def\<close>)
  ultimately show thesis
    using that [of "map snd (rec_values r)"] r(1,4) by (simp add: readValuesForProperty_def)
qed

lemma frames_ok_put:
  assumes "frames_ok st" "getRecordLocked OBD2_FREEZE_FRAME st = Some r"
    and "store_wf (putRecord OBD2_FREEZE_FRAME (r\<lparr>rec_values := vs\<rparr>) st)"
    and "\<And>rid v. map_of vs rid = Some v \<Longrightarrow> rid = RecordId 0 (pv_timestamp v)"
  shows "frames_ok (putRecord OBD2_FREEZE_FRAME (r\<lparr>rec_values := vs\<rparr>) st)"
  using assms unfolding frames_ok_def by auto

lemma removeFrame:
  assumes "frames_ok st" "freezeFrame st t = Some v"
  shows "frames_ok (removeValue v st)" "freezeFrame (removeValue v st) = (freezeFrame st)(t := None)"
proof -
  note v = freezeFrame_timestamp [OF assms]
  from assms(1) obtain r where r: "store_wf st" "getRecordLocked OBD2_FREEZE_FRAME st = Some r"
    "rec_tokenFunction r = Some pv_timestamp"
    "\<And>rid v. map_of (rec_values r) rid = Some v \<Longrightarrow> rid = RecordId 0 (pv_timestamp v)"
    "freezeFrame st = (\<lambda>t. map_of (rec_values r) (RecordId 0 t))"
    by (rule frames_okE) blast
  have rv: "removeValue v st = putRecord OBD2_FREEZE_FRAME (r\<lparr>rec_values := umap_erase (RecordId 0 t) (rec_values r)\<rparr>) st"
    using v r(2,3) by (simp add: removeValue_def getRecordIdLocked_def)
  show "frames_ok (removeValue v st)"
    unfolding rv by (rule frames_ok_put [OF assms(1) r(2)])
      (use r(4) store_wf_removeValue [OF r(1), of v] in \<open>auto simp: rv split: if_splits\<close>)
  show "freezeFrame (removeValue v st) = (freezeFrame st)(t := None)"
    unfolding r(5) by (simp add: rv freezeFrame_def fun_eq_iff)
qed

lemma clearFrames_spec:
  assumes "frames_ok st"
  shows "frames_ok (snd (clearFrames ts st)) \<and>
    (\<exists>n \<le> length ts. freezeFrame (snd (clearFrames ts st)) = (\<lambda>t. if t \<in> set (take n ts) then None else freezeFrame st t) \<and>
       distinct (take n ts) \<and> (\<forall>t \<in> set (take n ts). freezeFrame st t \<noteq> None) \<and>
       (if n = length ts then fst (clearFrames ts st) = Inr ()
        else fst (clearFrames ts st) = Inl INVALID_ARG \<and> (ts ! n \<in> set (take n ts) \<or> freezeFrame st (ts ! n) = None)))"
  using assms
proof (induction ts arbitrary: st)
  case Nil
  then show ?case by simp
next
  case (Cons t ts)
  show ?case
  proof (cases "freezeFrame st t")
    case None
    have "clearFrames (t # ts) st = (Inl INVALID_ARG, st)" using readFrame [OF Cons.prems, of t] None by simp
    then show ?thesis using Cons.prems None by (auto intro!: exI [of _ 0])
  next
    case (Some v)
    have c: "clearFrames (t # ts) st = clearFrames ts (removeValue v st)"
      using readFrame [OF Cons.prems, of t] Some by simp
    note f = removeFrame [OF Cons.prems Some]
    from Cons.IH [OF f(1)] obtain n where n: "n \<le> length ts" "frames_ok (snd (clearFrames ts (removeValue v st)))"
      "freezeFrame (snd (clearFrames ts (removeValue v st))) =
         (\<lambda>u. if u \<in> set (take n ts) then None else freezeFrame (removeValue v st) u)"
      "distinct (take n ts)" "\<forall>u \<in> set (take n ts). freezeFrame (removeValue v st) u \<noteq> None"
      "if n = length ts then fst (clearFrames ts (removeValue v st)) = Inr ()
       else fst (clearFrames ts (removeValue v st)) = Inl INVALID_ARG \<and>
         (ts ! n \<in> set (take n ts) \<or> freezeFrame (removeValue v st) (ts ! n) = None)"
      by blast
    have "t \<notin> set (take n ts)" using n(5) f(2) by auto
    then show ?thesis
      unfolding c using n f(2) Some
      by (intro conjI exI [of _ "Suc n"]) (auto split: if_splits)
  qed
qed

lemma clear_ok:
  assumes "frames_ok st" "v = propValue"
  shows "frames_ok (snd (clearObd2FreezeFrames v st))"
proof (cases "int64Values (pv_value v) = []")
  case True
  from assms(1) obtain r where r: "store_wf st" "getRecordLocked OBD2_FREEZE_FRAME st = Some r" by (rule frames_okE) blast
  have "removeValuesForProperty OBD2_FREEZE_FRAME st = putRecord OBD2_FREEZE_FRAME (r\<lparr>rec_values := []\<rparr>) st"
    using r(2) by (simp add: removeValuesForProperty_def)
  then show ?thesis
    using frames_ok_put [OF assms(1) r(2), of "[]"] store_wf_removeValues [OF r(1), of OBD2_FREEZE_FRAME] True
    by (simp add: clearObd2FreezeFrames_def)
qed (use clearFrames_spec [OF assms(1), of "int64Values (pv_value v)"] in \<open>simp add: clearObd2FreezeFrames_def\<close>)

lemma clear_all:
  assumes "frames_ok st" shows "freezeFrame (removeValuesForProperty OBD2_FREEZE_FRAME st) t = None"
  using assms by (elim frames_okE) (simp add: removeValuesForProperty_def freezeFrame_def)

text \<open>Writing a frame: it is stored under its timestamp.\<close>

lemma writeFreezeFrame_ok:
  assumes "frames_ok st"
  shows "frames_ok (writeFreezeFrame clock s dtc st)"
    and "freezeFrame (writeFreezeFrame clock s dtc st) =
      (freezeFrame st)(clock dtc \<mapsto> (getSensorProperty (clock dtc) dtc s)\<lparr>pv_prop := OBD2_FREEZE_FRAME\<rparr>)"
proof -
  define v where "v = (getSensorProperty (clock dtc) dtc s)\<lparr>pv_prop := OBD2_FREEZE_FRAME\<rparr>"
  from assms obtain r where r: "store_wf st" "getRecordLocked OBD2_FREEZE_FRAME st = Some r"
    "rec_tokenFunction r = Some pv_timestamp"
    "\<And>rid v. map_of (rec_values r) rid = Some v \<Longrightarrow> rid = RecordId 0 (pv_timestamp v)"
    "freezeFrame st = (\<lambda>t. map_of (rec_values r) (RecordId 0 t))"
    by (rule frames_okE) blast
  have v: "pv_prop v = OBD2_FREEZE_FRAME" "pv_timestamp v = clock dtc" "getRecordIdLocked v r = RecordId 0 (clock dtc)"
    using r(3) by (simp_all add: v_def getSensorProperty_def getRecordIdLocked_def)
  have w: "writeFreezeFrame clock s dtc st =
      putRecord OBD2_FREEZE_FRAME (r\<lparr>rec_values := umap_put (RecordId 0 (clock dtc)) v (rec_values r)\<rparr>) st"
    unfolding writeFreezeFrame_def v_def [symmetric]
    using r(2) r(4) [of "RecordId 0 (clock dtc)"] v by (auto simp: writeValue_def Let_def split: option.split)
  have "store_wf (writeFreezeFrame clock s dtc st)"
    unfolding writeFreezeFrame_def by (rule store_wf_write [OF r(1)])
  then show "frames_ok (writeFreezeFrame clock s dtc st)"
    unfolding w by (intro frames_ok_put [OF assms r(2)]) (use r(4) v in \<open>auto split: if_splits\<close>)
  show "freezeFrame (writeFreezeFrame clock s dtc st) =
      (freezeFrame st)(clock dtc \<mapsto> (getSensorProperty (clock dtc) dtc s)\<lparr>pv_prop := OBD2_FREEZE_FRAME\<rparr>)"
    unfolding r(5) v_def [symmetric] by (simp add: w freezeFrame_def fun_eq_iff)
qed

lemma initObd2FreezeFrame_ok:
  assumes "frames_ok st" "initObd2FreezeFrame clock config st = Some st'"
  shows "frames_ok st' \<and> {t. freezeFrame st' t \<noteq> None} = {t. freezeFrame st t \<noteq> None} \<union> clock ` set sampleDtcs"
proof -
  obtain s where s: "st' = fold (writeFreezeFrame clock s) sampleDtcs st"
    using assms(2) by (auto simp: initObd2FreezeFrame_def)
  have "frames_ok st \<Longrightarrow> frames_ok (fold (writeFreezeFrame clock s) dtcs st) \<and>
      {t. freezeFrame (fold (writeFreezeFrame clock s) dtcs st) t \<noteq> None} = {t. freezeFrame st t \<noteq> None} \<union> clock ` set dtcs"
    for dtcs st
    by (induction dtcs arbitrary: st) (auto simp: writeFreezeFrame_ok split: if_splits)
  then show ?thesis using assms(1) by (simp add: s)
qed

text \<open>
  Freeze frames are kept by timestamp. The list of trouble codes has the timestamp of each
  stored frame once; a frame can be read by its timestamp, a wrong timestamp is an invalid argument, and without any
  frame the answer is not available. Clearing without timestamps removes all frames; clearing timestamps stops at the
  first one that is not (or no longer) stored, with the frames before it removed. The initial frames are those of the
  three sample codes.
\<close>

theorem freeze_frames:
  assumes "frames_ok st" "clearObd2FreezeFrames v st = (result, st')" "ts = int64Values (pv_value v)"
  shows "(\<exists>info. getObd2DtcInfo pooled st = Inr info \<and> distinct (int64Values (pv_value info)) \<and>
      set (int64Values (pv_value info)) = {t. freezeFrame st t \<noteq> None}) \<and>
    (\<forall>t. ts = [t] \<longrightarrow> getObd2FreezeFrame v st = (case freezeFrame st t of
       Some frame \<Rightarrow> Inr frame | None \<Rightarrow> Inl (if \<forall>t. freezeFrame st t = None then NOT_AVAILABLE else INVALID_ARG))) \<and>
    (\<forall>t frame. freezeFrame st t = Some frame \<longrightarrow> pv_timestamp frame = t) \<and>
    frames_ok st' \<and> (ts = [] \<longrightarrow> result = Inr () \<and> (\<forall>t. freezeFrame st' t = None)) \<and>
    (ts \<noteq> [] \<longrightarrow> (\<exists>n \<le> length ts. freezeFrame st' = (\<lambda>t. if t \<in> set (take n ts) then None else freezeFrame st t) \<and>
       distinct (take n ts) \<and> (\<forall>t \<in> set (take n ts). freezeFrame st t \<noteq> None) \<and>
       (if n = length ts then result = Inr ()
        else result = Inl INVALID_ARG \<and> (ts ! n \<in> set (take n ts) \<or> freezeFrame st (ts ! n) = None)))) \<and>
    (\<forall>clock config st''. initObd2FreezeFrame clock config st = Some st'' \<longrightarrow> frames_ok st'' \<and>
       {t. freezeFrame st'' t \<noteq> None} = {t. freezeFrame st t \<noteq> None} \<union> clock ` {''P0070'', ''P0102'', ''P0123''})"
proof -
  obtain vs where vs: "readValuesForProperty OBD2_FREEZE_FRAME st = Inr vs"
    "\<And>v. v \<in> set vs \<longleftrightarrow> freezeFrame st (pv_timestamp v) = Some v" "distinct (map pv_timestamp vs)"
    "vs = [] \<longleftrightarrow> (\<forall>t. freezeFrame st t = None)"
    using readFrames [OF assms(1)] by blast
  have "pv_timestamp ` set vs = {t. freezeFrame st t \<noteq> None}"
  proof (intro set_eqI iffI)
    fix t assume "t \<in> {t. freezeFrame st t \<noteq> None}"
    then obtain w where "freezeFrame st t = Some w" by auto
    then show "t \<in> pv_timestamp ` set vs" using vs(2) [of w] freezeFrame_timestamp [OF assms(1), of t w] by auto
  qed (auto simp: vs(2))
  then have info: "\<exists>info. getObd2DtcInfo pooled st = Inr info \<and> distinct (int64Values (pv_value info)) \<and>
      set (int64Values (pv_value info)) = {t. freezeFrame st t \<noteq> None}"
    using vs(1,3) by (simp add: getObd2DtcInfo_def Let_def)
  have "getObd2FreezeFrame v st = (case freezeFrame st t of
       Some frame \<Rightarrow> Inr frame | None \<Rightarrow> Inl (if \<forall>t. freezeFrame st t = None then NOT_AVAILABLE else INVALID_ARG))"
    if "ts = [t]" for t
    using that vs(1,4) readFrame [OF assms(1), of t] assms(3) 
    by (auto simp: getObd2FreezeFrame_def split: option.split)
  then have get: "\<forall>t. ts = [t] \<longrightarrow> getObd2FreezeFrame v st = (case freezeFrame st t of
       Some frame \<Rightarrow> Inr frame | None \<Rightarrow> Inl (if \<forall>t. freezeFrame st t = None then NOT_AVAILABLE else INVALID_ARG))"
    by blast
  have times: "\<forall>t frame. freezeFrame st t = Some frame \<longrightarrow> pv_timestamp frame = t"
    using freezeFrame_timestamp [OF assms(1)] by blast
  have ok: "frames_ok st'" using clear_ok [OF assms(1), of v] assms(2) by simp
  have clear: "ts = [] \<longrightarrow> result = Inr () \<and> (\<forall>t. freezeFrame st' t = None)"
    using assms(2,3) clear_all [OF assms(1)] by (auto simp: clearObd2FreezeFrames_def)
  have steps: "clearFrames ts st = (result, st')" if "ts \<noteq> []"
    using that assms(2,3) by (simp add: clearObd2FreezeFrames_def)
  have each: "ts \<noteq> [] \<longrightarrow> (\<exists>n \<le> length ts. freezeFrame st' = (\<lambda>t. if t \<in> set (take n ts) then None else freezeFrame st t) \<and>
       distinct (take n ts) \<and> (\<forall>t \<in> set (take n ts). freezeFrame st t \<noteq> None) \<and>
       (if n = length ts then result = Inr ()
        else result = Inl INVALID_ARG \<and> (ts ! n \<in> set (take n ts) \<or> freezeFrame st (ts ! n) = None)))"
  proof
    assume "ts \<noteq> []"
    show "\<exists>n \<le> length ts. freezeFrame st' = (\<lambda>t. if t \<in> set (take n ts) then None else freezeFrame st t) \<and>
       distinct (take n ts) \<and> (\<forall>t \<in> set (take n ts). freezeFrame st t \<noteq> None) \<and>
       (if n = length ts then result = Inr ()
        else result = Inl INVALID_ARG \<and> (ts ! n \<in> set (take n ts) \<or> freezeFrame st (ts ! n) = None))"
      using clearFrames_spec [OF assms(1), of ts, THEN conjunct2] unfolding steps [OF \<open>ts \<noteq> []\<close>] fst_conv snd_conv .
  qed
  have "set sampleDtcs = {''P0070'', ''P0102'', ''P0123''}" by (simp add: sampleDtcs_def)
  then have init: "\<forall>clock config st''. initObd2FreezeFrame clock config st = Some st'' \<longrightarrow> frames_ok st'' \<and>
       {t. freezeFrame st'' t \<noteq> None} = {t. freezeFrame st t \<noteq> None} \<union> clock ` {''P0070'', ''P0102'', ''P0123''}"
    using initObd2FreezeFrame_ok [OF assms(1)] by metis
  from info get times ok clear each init show ?thesis by (intro conjI)
qed

section \<open>Witnesses\<close>

lemma frames_ok_register:
  "store_wf st \<Longrightarrow> pc_prop c = OBD2_FREEZE_FRAME \<Longrightarrow> frames_ok (registerProperty c (Some pv_timestamp) st)"
  using store_wf_register [of st c "Some pv_timestamp"] by (simp add: frames_ok_def)

definition sample_frame_config :: VehiclePropConfig where
  "sample_frame_config = \<lparr>pc_prop = 0x11e00d01, pc_access = READ, pc_changeMode = ON_CHANGE,
     pc_areaConfigs = [], pc_configArray = [0, 0], pc_minSampleRate = FFin 0, pc_maxSampleRate = FFin 0\<rparr>"

definition sample_frame_store :: VehiclePropertyStore where
  "sample_frame_store = fold (\<lambda>t. writeFreezeFrame (\<lambda>dtc. t)
     \<lparr>mIntegerSensors = [], mFloatSensors = [], mSensorsBitmask = bitmaskResize 0\<rparr> ''P0070'') [5, 7]
     (registerProperty sample_frame_config (Some pv_timestamp) emptyStore)"

lemma sample_frame_store_ok: "frames_ok sample_frame_store"
  unfolding sample_frame_store_def
  by (simp add: writeFreezeFrame_ok frames_ok_register store_wf_empty sample_frame_config_def OBD2_FREEZE_FRAME_def)

lemma sample_frames: "freezeFrame sample_frame_store t \<noteq> None \<longleftrightarrow> t = 5 \<or> t = 7"
proof -
  have "frames_ok (registerProperty sample_frame_config (Some pv_timestamp) emptyStore)"
    by (simp add: frames_ok_register store_wf_empty sample_frame_config_def OBD2_FREEZE_FRAME_def)
  moreover have "freezeFrame (registerProperty sample_frame_config (Some pv_timestamp) emptyStore) t = None"
    by (simp add: freezeFrame_def stored_def sample_frame_config_def emptyStore_def getRecordLocked_def
        registerProperty_def OBD2_FREEZE_FRAME_def)
  ultimately show ?thesis by (simp add: sample_frame_store_def writeFreezeFrame_ok)
qed

text \<open>Clearing the frames 5 and 9: the first one is removed, the second one is not there.\<close>

definition sample_clear :: VehiclePropValue where
  "sample_clear = \<lparr>pv_timestamp = 0, pv_areaId = 0, pv_prop = 0x11e00d03, pv_status = AVAILABLE,
     pv_value = raw_default\<lparr>int64Values := [5, 9]\<rparr>\<rparr>"

theorem freeze_frames_witness:
  "\<exists>st. clearObd2FreezeFrames sample_clear sample_frame_store = (Inl INVALID_ARG, st) \<and>
     (\<forall>t. freezeFrame st t \<noteq> None \<longleftrightarrow> t = 7)"
proof -
  obtain result st where r: "clearObd2FreezeFrames sample_clear sample_frame_store = (result, st)" by fastforce
  define ts :: "int list" where "ts = [5, 9]"
  have ts: "ts = int64Values (pv_value sample_clear)" "ts \<noteq> []" by (simp_all add: ts_def sample_clear_def)
  from freeze_frames [OF sample_frame_store_ok r ts(1), of "\<lambda>ty n. sample_clear"] ts(2)
  obtain n where n: "n \<le> length ts" "freezeFrame st = (\<lambda>t. if t \<in> set (take n ts) then None else freezeFrame sample_frame_store t)"
    "\<forall>t \<in> set (take n ts). freezeFrame sample_frame_store t \<noteq> None"
    "if n = length ts then result = Inr ()
     else result = Inl INVALID_ARG \<and> (ts ! n \<in> set (take n ts) \<or> freezeFrame sample_frame_store (ts ! n) = None)"
    by blast
  have "n \<noteq> 2" using n(3) sample_frames [of 9] by (auto simp: ts_def)
  moreover have "n \<noteq> 0"
  proof
    assume "n = 0"
    with n(4) sample_frames [of 5] show False by (simp add: ts_def)
  qed
  ultimately have "n = 1" using n(1) by (simp add: ts_def)
  then have "result = Inl INVALID_ARG" "freezeFrame st = (freezeFrame sample_frame_store)(5 := None)"
    using n(2,4) by (auto simp: ts_def fun_eq_iff)
  then show ?thesis using sample_frames r by auto
qed

theorem frame_layout_witness:
  "let val = pv_value (getSensorProperty 3 ''P0070'' (fold runSensorOp [SetInteger 4 35, SetFloat 1 (FFin 20), SetInteger 99 3]
      (the (newObd2SensorStore 0 0)))) in
   int32Values val ! 4 = 35 \<and> floatValues val ! 1 = FFin 20 \<and> bit (byteValues val ! 0) 4 \<and> \<not> bit (byteValues val ! 0) 5 \<and>
   bit (byteValues val ! 4) 1"
proof -
  have "newObd2SensorStore 0 0 = Some (the (newObd2SensorStore 0 0))"
    by (simp add: newObd2SensorStore_def lastIntegerSensorIndex_def lastFloatSensorIndex_def)
  note frame = frame_layout [OF this refl refl refl, of 3 "''P0070''" "[SetInteger 4 35, SetFloat 1 (FFin 20), SetInteger 99 3]",
    THEN conjunct2, THEN conjunct2, THEN conjunct2]
  show ?thesis unfolding Let_def
    using frame [THEN conjunct1, rule_format, of 4] frame [THEN conjunct2, THEN conjunct1, rule_format, of 1]
      frame [THEN conjunct2, THEN conjunct2, THEN conjunct1, rule_format, of 4]
      frame [THEN conjunct2, THEN conjunct2, THEN conjunct1, rule_format, of 5]
      frame [THEN conjunct2, THEN conjunct2, THEN conjunct2, THEN conjunct1, rule_format, of 1]
    by simp
qed

end
