(* ===== verification/User_Hal.thy ===== *)
theory User_Hal
  imports Vehicle_Utils
begin

text \<open>
  \<^verbatim>\<open>fake_impl/userhal\<close>: the parser and printer of the user management messages (\<^verbatim>\<open>UserHalHelper\<close>) and the
  emulated user HAL (\<^verbatim>\<open>FakeUserHal\<close>), which answers user management requests with responses stored
  before through debug commands.

  A \<^verbatim>\<open>Result<T>\<close>, whose error carries a message only, is a sum with a unit on the left. Where the code
  resizes a vector to a negative count converted to \<^verbatim>\<open>size_t\<close>, \<^verbatim>\<open>std::vector::resize\<close> throws and the
  process aborts: such results are options, \<open>None\<close> being the abort. The clock is a parameter.
\<close>

section \<open>Messages\<close>

datatype InitialUserInfoRequestType =
    REQUEST_UNKNOWN | FIRST_BOOT | FIRST_BOOT_AFTER_OTA | COLD_BOOT | RESUME

datatype InitialUserInfoResponseAction = ACTION_DEFAULT | ACTION_SWITCH | ACTION_CREATE

datatype SwitchUserMessageType =
    MESSAGE_UNKNOWN | LEGACY_ANDROID_SWITCH | ANDROID_SWITCH | VEHICLE_RESPONSE | VEHICLE_REQUEST
  | ANDROID_POST_SWITCH

datatype UserStatus = SUCCESS | FAILURE

datatype UserIdentificationAssociationType =
    ASSOCIATION_INVALID | KEY_FOB | CUSTOM_1 | CUSTOM_2 | CUSTOM_3 | CUSTOM_4

datatype UserIdentificationAssociationSetValue =
    SET_INVALID | ASSOCIATE_CURRENT_USER | DISASSOCIATE_CURRENT_USER | DISASSOCIATE_ALL_USERS

datatype UserIdentificationAssociationValue =
    ASSOCIATION_UNKNOWN | ASSOCIATED_CURRENT_USER | ASSOCIATED_ANOTHER_USER | NOT_ASSOCIATED_ANY_USER

record UserInfo =
  ui_userId :: int
  ui_flags :: int

record UsersInfo =
  us_currentUser :: UserInfo
  us_numberUsers :: int
  us_existingUsers :: "UserInfo list"

record InitialUserInfoRequest =
  iuq_requestId :: int
  iuq_requestType :: InitialUserInfoRequestType
  iuq_usersInfo :: UsersInfo

record SwitchUserRequest =
  suq_requestId :: int
  suq_messageType :: SwitchUserMessageType
  suq_targetUser :: UserInfo
  suq_usersInfo :: UsersInfo

record CreateUserRequest =
  cuq_requestId :: int
  cuq_newUserInfo :: UserInfo
  cuq_newUserName :: string
  cuq_usersInfo :: UsersInfo

record RemoveUserRequest =
  ruq_requestId :: int
  ruq_removedUserInfo :: UserInfo
  ruq_usersInfo :: UsersInfo

record UserIdentificationGetRequest =
  igq_requestId :: int
  igq_userInfo :: UserInfo
  igq_numberAssociationTypes :: int
  igq_associationTypes :: "UserIdentificationAssociationType list"

record UserIdentificationSetRequest =
  isq_requestId :: int
  isq_userInfo :: UserInfo
  isq_numberAssociations :: int
  isq_associations :: "(UserIdentificationAssociationType \<times> UserIdentificationAssociationSetValue) list"

record InitialUserInfoResponse =
  iur_requestId :: int
  iur_action :: InitialUserInfoResponseAction
  iur_userToSwitchOrCreate :: UserInfo
  iur_userLocales :: string
  iur_userNameToCreate :: string

record SwitchUserResponse =
  sur_requestId :: int
  sur_messageType :: SwitchUserMessageType
  sur_status :: UserStatus
  sur_errorMessage :: string

record CreateUserResponse =
  cur_requestId :: int
  cur_status :: UserStatus
  cur_errorMessage :: string

record UserIdentificationResponse =
  uir_requestId :: int
  uir_numberAssociation :: int
  uir_associations :: "(UserIdentificationAssociationType \<times> UserIdentificationAssociationValue) list"
  uir_errorMessage :: string

definition INITIAL_USER_INFO :: int32 where "INITIAL_USER_INFO = 0x11e00f07"
definition SWITCH_USER :: int32 where "SWITCH_USER = 0x11e00f08"
definition CREATE_USER :: int32 where "CREATE_USER = 0x11e00f09"
definition REMOVE_USER :: int32 where "REMOVE_USER = 0x11e00f0a"
definition USER_IDENTIFICATION_ASSOCIATION :: int32 where "USER_IDENTIFICATION_ASSOCIATION = 0x11e00f0b"

text \<open>The integer of each enumerator, and the enumerators in order (\<^verbatim>\<open>enum_range\<close>).\<close>

primrec requestTypeInt :: "InitialUserInfoRequestType \<Rightarrow> int" where
  "requestTypeInt REQUEST_UNKNOWN = 0" | "requestTypeInt FIRST_BOOT = 1"
| "requestTypeInt FIRST_BOOT_AFTER_OTA = 2" | "requestTypeInt COLD_BOOT = 3" | "requestTypeInt RESUME = 4"

primrec actionInt :: "InitialUserInfoResponseAction \<Rightarrow> int" where
  "actionInt ACTION_DEFAULT = 0" | "actionInt ACTION_SWITCH = 1" | "actionInt ACTION_CREATE = 2"

primrec messageTypeInt :: "SwitchUserMessageType \<Rightarrow> int" where
  "messageTypeInt MESSAGE_UNKNOWN = 0" | "messageTypeInt LEGACY_ANDROID_SWITCH = 1"
| "messageTypeInt ANDROID_SWITCH = 2" | "messageTypeInt VEHICLE_RESPONSE = 3"
| "messageTypeInt VEHICLE_REQUEST = 4" | "messageTypeInt ANDROID_POST_SWITCH = 5"

primrec userStatusInt :: "UserStatus \<Rightarrow> int" where
  "userStatusInt SUCCESS = 1" | "userStatusInt FAILURE = 2"

primrec associationTypeInt :: "UserIdentificationAssociationType \<Rightarrow> int" where
  "associationTypeInt ASSOCIATION_INVALID = 0" | "associationTypeInt KEY_FOB = 1"
| "associationTypeInt CUSTOM_1 = 101" | "associationTypeInt CUSTOM_2 = 102"
| "associationTypeInt CUSTOM_3 = 103" | "associationTypeInt CUSTOM_4 = 104"

primrec setValueInt :: "UserIdentificationAssociationSetValue \<Rightarrow> int" where
  "setValueInt SET_INVALID = 0" | "setValueInt ASSOCIATE_CURRENT_USER = 1"
| "setValueInt DISASSOCIATE_CURRENT_USER = 2" | "setValueInt DISASSOCIATE_ALL_USERS = 3"

primrec associationValueInt :: "UserIdentificationAssociationValue \<Rightarrow> int" where
  "associationValueInt ASSOCIATION_UNKNOWN = 1" | "associationValueInt ASSOCIATED_CURRENT_USER = 2"
| "associationValueInt ASSOCIATED_ANOTHER_USER = 3" | "associationValueInt NOT_ASSOCIATED_ANY_USER = 4"

definition requestTypes :: "InitialUserInfoRequestType list" where
  "requestTypes = [REQUEST_UNKNOWN, FIRST_BOOT, FIRST_BOOT_AFTER_OTA, COLD_BOOT, RESUME]"

definition messageTypes :: "SwitchUserMessageType list" where
  "messageTypes = [MESSAGE_UNKNOWN, LEGACY_ANDROID_SWITCH, ANDROID_SWITCH, VEHICLE_RESPONSE, VEHICLE_REQUEST,
     ANDROID_POST_SWITCH]"

definition associationTypes :: "UserIdentificationAssociationType list" where
  "associationTypes = [ASSOCIATION_INVALID, KEY_FOB, CUSTOM_1, CUSTOM_2, CUSTOM_3, CUSTOM_4]"

definition setValues_range :: "UserIdentificationAssociationSetValue list" where
  "setValues_range = [SET_INVALID, ASSOCIATE_CURRENT_USER, DISASSOCIATE_CURRENT_USER, DISASSOCIATE_ALL_USERS]"

section \<open>Parsing\<close>

definition verifyAndCast :: "('e \<Rightarrow> int) \<Rightarrow> 'e list \<Rightarrow> int \<Rightarrow> unit + 'e" where
  "verifyAndCast toInt enumerators val = (case find (\<lambda>e. toInt e = val) enumerators of None \<Rightarrow> Inl () | Some e \<Rightarrow> Inr e)"

text \<open>
  \<open>verifyPropValue\<close>: the first check, that the property is an enumerator of \<^verbatim>\<open>VehicleProperty\<close>, is implied
  by the second one, because it is called with enumerators only.
\<close>

definition verifyPropValue :: "VehiclePropValue \<Rightarrow> int32 \<Rightarrow> nat \<Rightarrow> unit + unit" where
  "verifyPropValue v vehicleProperty minInt32Values =
    (if pv_prop v \<noteq> vehicleProperty then Inl ()
     else if length (int32Values (pv_value v)) < minInt32Values then Inl ()
     else Inr ())"

definition USER_FLAGS :: int where "USER_FLAGS = 0x3f"

definition parseUserInfo :: "int list \<Rightarrow> nat \<Rightarrow> unit + UserInfo" where
  "parseUserInfo xs startPos =
    (if length xs < startPos + 2 then Inl ()
     else if (xs ! (startPos + 1)) AND NOT USER_FLAGS \<noteq> 0 then Inl ()
     else Inr \<lparr>ui_userId = xs ! startPos, ui_flags = xs ! (startPos + 1)\<rparr>)"

fun parseExistingUsers :: "int list \<Rightarrow> nat \<Rightarrow> nat \<Rightarrow> unit + UserInfo list" where
  "parseExistingUsers xs pos 0 = Inr []"
| "parseExistingUsers xs pos (Suc n) = (case parseUserInfo xs pos of
     Inl e \<Rightarrow> Inl e
   | Inr u \<Rightarrow> (case parseExistingUsers xs (pos + 2) n of Inl e \<Rightarrow> Inl e | Inr us \<Rightarrow> Inr (u # us)))"

definition parseUsersInfo :: "int list \<Rightarrow> nat \<Rightarrow> (unit + UsersInfo) option" where
  "parseUsersInfo xs startPos =
    (if length xs < startPos + 3 then Some (Inl ())
     else case parseUserInfo xs startPos of
       Inl e \<Rightarrow> Some (Inl e)
     | Inr current \<Rightarrow>
       let n = xs ! (startPos + 2) in
       if n < 0 then None
       else case parseExistingUsers xs (startPos + 3) (nat n) of
         Inl e \<Rightarrow> Some (Inl e)
       | Inr us \<Rightarrow> Some (Inr \<lparr>us_currentUser = current, us_numberUsers = n, us_existingUsers = us\<rparr>))"

text \<open>\<^verbatim>\<open>size_t\<close> arithmetic wraps, and no vector can be resized to \<open>2^60\<close> elements.\<close>

fun castEach :: "('a \<Rightarrow> unit + 'b) \<Rightarrow> 'a list \<Rightarrow> unit + 'b list" where
  "castEach f [] = Inr []"
| "castEach f (x # xs) = (case f x of Inl e \<Rightarrow> Inl e
     | Inr y \<Rightarrow> (case castEach f xs of Inl e \<Rightarrow> Inl e | Inr ys \<Rightarrow> Inr (y # ys)))"

definition parseUserAssociationTypes ::
  "int list \<Rightarrow> nat \<Rightarrow> nat \<Rightarrow> (unit + UserIdentificationAssociationType list) option" where
  "parseUserAssociationTypes xs startPos n =
    (if length xs < to_size_t (int startPos + int n) then Some (Inl ())
     else if n \<ge> 2 ^ 60 then None
     else Some (castEach (verifyAndCast associationTypeInt associationTypes)
       (map (\<lambda>i. xs ! (startPos + i)) [0..<n])))"

definition parseUserAssociations ::
  "int list \<Rightarrow> nat \<Rightarrow> nat \<Rightarrow>
     (unit + (UserIdentificationAssociationType \<times> UserIdentificationAssociationSetValue) list) option" where
  "parseUserAssociations xs startPos n =
    (if length xs < to_size_t (int startPos + int n * 2) then Some (Inl ())
     else if n \<ge> 2 ^ 60 then None
     else Some (castEach (\<lambda>(t, v). case verifyAndCast associationTypeInt associationTypes t of
         Inl e \<Rightarrow> Inl e
       | Inr ty \<Rightarrow> (case verifyAndCast setValueInt setValues_range v of Inl e \<Rightarrow> Inl e | Inr val \<Rightarrow> Inr (ty, val)))
       (map (\<lambda>i. (xs ! (startPos + 2 * i), xs ! (startPos + 2 * i + 1))) [0..<n])))"

text \<open>Sequencing of fallible steps, one of which may abort.\<close>

definition andThen :: "('e + 'a) option \<Rightarrow> ('a \<Rightarrow> ('e + 'b) option) \<Rightarrow> ('e + 'b) option" where
  "andThen m f = (case m of None \<Rightarrow> None | Some (Inl e) \<Rightarrow> Some (Inl e) | Some (Inr a) \<Rightarrow> f a)"

lemma andThen_simps [simp]:
  "andThen None f = None" "andThen (Some (Inl e)) f = Some (Inl e)" "andThen (Some (Inr a)) f = f a"
  by (simp_all add: andThen_def)

lemma andThen_Inr:
  "andThen m f = Some (Inr b) \<longleftrightarrow> (\<exists>a. m = Some (Inr a) \<and> f a = Some (Inr b))"
  by (auto simp: andThen_def split: option.splits sum.splits)

lemma andThen_None: "andThen m f = None \<longleftrightarrow> m = None \<or> (\<exists>a. m = Some (Inr a) \<and> f a = None)"
  by (auto simp: andThen_def split: option.splits sum.splits)

definition toInitialUserInfoRequest :: "VehiclePropValue \<Rightarrow> (unit + InitialUserInfoRequest) option" where
  "toInitialUserInfoRequest v = (let xs = int32Values (pv_value v) in
     andThen (Some (verifyPropValue v INITIAL_USER_INFO 2)) (\<lambda>_.
     andThen (Some (verifyAndCast requestTypeInt requestTypes (xs ! 1))) (\<lambda>ty.
     andThen (parseUsersInfo xs 2) (\<lambda>us.
     Some (Inr \<lparr>iuq_requestId = xs ! 0, iuq_requestType = ty, iuq_usersInfo = us\<rparr>)))))"

definition toSwitchUserRequest :: "VehiclePropValue \<Rightarrow> (unit + SwitchUserRequest) option" where
  "toSwitchUserRequest v = (let xs = int32Values (pv_value v) in
     andThen (Some (verifyPropValue v SWITCH_USER 2)) (\<lambda>_.
     andThen (Some (verifyAndCast messageTypeInt messageTypes (xs ! 1))) (\<lambda>ty.
     if ty \<noteq> LEGACY_ANDROID_SWITCH \<and> ty \<noteq> ANDROID_SWITCH \<and> ty \<noteq> ANDROID_POST_SWITCH then Some (Inl ())
     else andThen (Some (parseUserInfo xs 2)) (\<lambda>target.
     andThen (parseUsersInfo xs 4) (\<lambda>us.
     Some (Inr \<lparr>suq_requestId = xs ! 0, suq_messageType = ty, suq_targetUser = target, suq_usersInfo = us\<rparr>))))))"

definition toCreateUserRequest :: "VehiclePropValue \<Rightarrow> (unit + CreateUserRequest) option" where
  "toCreateUserRequest v = (let xs = int32Values (pv_value v) in
     andThen (Some (verifyPropValue v CREATE_USER 1)) (\<lambda>_.
     andThen (Some (parseUserInfo xs 1)) (\<lambda>u.
     andThen (parseUsersInfo xs 3) (\<lambda>us.
     Some (Inr \<lparr>cuq_requestId = xs ! 0, cuq_newUserInfo = u, cuq_newUserName = stringValue (pv_value v),
                cuq_usersInfo = us\<rparr>)))))"

definition toRemoveUserRequest :: "VehiclePropValue \<Rightarrow> (unit + RemoveUserRequest) option" where
  "toRemoveUserRequest v = (let xs = int32Values (pv_value v) in
     andThen (Some (verifyPropValue v REMOVE_USER 1)) (\<lambda>_.
     andThen (Some (parseUserInfo xs 1)) (\<lambda>u.
     andThen (parseUsersInfo xs 3) (\<lambda>us.
     Some (Inr \<lparr>ruq_requestId = xs ! 0, ruq_removedUserInfo = u, ruq_usersInfo = us\<rparr>)))))"

definition toUserIdentificationGetRequest :: "VehiclePropValue \<Rightarrow> (unit + UserIdentificationGetRequest) option" where
  "toUserIdentificationGetRequest v = (let xs = int32Values (pv_value v) in
     andThen (Some (verifyPropValue v USER_IDENTIFICATION_ASSOCIATION 4)) (\<lambda>_.
     andThen (Some (parseUserInfo xs 1)) (\<lambda>u.
     andThen (parseUserAssociationTypes xs 4 (to_size_t (xs ! 3))) (\<lambda>types.
     Some (Inr \<lparr>igq_requestId = xs ! 0, igq_userInfo = u, igq_numberAssociationTypes = xs ! 3,
                igq_associationTypes = types\<rparr>)))))"

definition toUserIdentificationSetRequest :: "VehiclePropValue \<Rightarrow> (unit + UserIdentificationSetRequest) option" where
  "toUserIdentificationSetRequest v = (let xs = int32Values (pv_value v) in
     andThen (Some (verifyPropValue v USER_IDENTIFICATION_ASSOCIATION 4)) (\<lambda>_.
     andThen (Some (parseUserInfo xs 1)) (\<lambda>u.
     andThen (parseUserAssociations xs 4 (to_size_t (xs ! 3))) (\<lambda>assocs.
     Some (Inr \<lparr>isq_requestId = xs ! 0, isq_userInfo = u, isq_numberAssociations = xs ! 3,
                isq_associations = assocs\<rparr>)))))"

section \<open>Printing\<close>

text \<open>All the properties are of mixed type: \<^verbatim>\<open>obtain\<close> gives a new, empty value.\<close>

definition messageValue :: "int \<Rightarrow> int32 \<Rightarrow> int list \<Rightarrow> string \<Rightarrow> VehiclePropValue" where
  "messageValue now p xs s = \<lparr>pv_timestamp = now, pv_areaId = 0, pv_prop = p, pv_status = AVAILABLE,
     pv_value = raw_default\<lparr>int32Values := xs, stringValue := s\<rparr>\<rparr>"

definition switchUserRequestValue :: "int \<Rightarrow> SwitchUserRequest \<Rightarrow> unit + VehiclePropValue" where
  "switchUserRequestValue now request =
    (if suq_messageType request \<noteq> VEHICLE_REQUEST then Inl ()
     else Inr (messageValue now SWITCH_USER [suq_requestId request, messageTypeInt (suq_messageType request),
       ui_userId (suq_targetUser request)] []))"

definition kSeparator :: string where "kSeparator = ''||''"

definition initialUserInfoResponseValue :: "int \<Rightarrow> InitialUserInfoResponse \<Rightarrow> VehiclePropValue" where
  "initialUserInfoResponseValue now response = messageValue now INITIAL_USER_INFO
     [iur_requestId response, actionInt (iur_action response), ui_userId (iur_userToSwitchOrCreate response),
      ui_flags (iur_userToSwitchOrCreate response)]
     (iur_userLocales response @ kSeparator @ iur_userNameToCreate response)"

definition switchUserResponseValue :: "int \<Rightarrow> SwitchUserResponse \<Rightarrow> VehiclePropValue" where
  "switchUserResponseValue now response = messageValue now SWITCH_USER
     [sur_requestId response, messageTypeInt (sur_messageType response), userStatusInt (sur_status response)]
     (if sur_status response = FAILURE then sur_errorMessage response else [])"

definition createUserResponseValue :: "int \<Rightarrow> CreateUserResponse \<Rightarrow> VehiclePropValue" where
  "createUserResponseValue now response = messageValue now CREATE_USER
     [cur_requestId response, userStatusInt (cur_status response)]
     (if cur_status response = FAILURE then cur_errorMessage response else [])"

text \<open>
  \<open>None\<close>: the number of associations is negative, or larger than the vector that is read. (The size
  \<^verbatim>\<open>2 + numberAssociation * 2\<close> is an \<^verbatim>\<open>int32_t\<close> that overflows from \<open>2^30 - 1\<close> associations on.)
\<close>

definition userIdentificationResponseValue :: "int \<Rightarrow> UserIdentificationResponse \<Rightarrow> VehiclePropValue option" where
  "userIdentificationResponseValue now response =
    (let n = uir_numberAssociation response in
     if n < 0 \<or> n \<ge> 2 ^ 30 - 1 \<or> nat n > length (uir_associations response) then None
     else Some (messageValue now USER_IDENTIFICATION_ASSOCIATION
       ([uir_requestId response, n] @
        concat (map (\<lambda>(t, v). [associationTypeInt t, associationValueInt v]) (take (nat n) (uir_associations response))))
       (uir_errorMessage response)))"

section \<open>The emulated user HAL\<close>

record FakeUserHal =
  mInitialUserResponseFromCmd :: "VehiclePropValue option"
  mSwitchUserResponseFromCmd :: "VehiclePropValue option"
  mCreateUserResponseFromCmd :: "VehiclePropValue option"
  mSetUserIdentificationAssociationResponseFromCmd :: "VehiclePropValue option"

definition newFakeUserHal :: FakeUserHal where
  "newFakeUserHal = \<lparr>mInitialUserResponseFromCmd = None, mSwitchUserResponseFromCmd = None,
     mCreateUserResponseFromCmd = None, mSetUserIdentificationAssociationResponseFromCmd = None\<rparr>"

text \<open>
  A result is a status or a value that may be null (\<open>None\<close>). The outer option of the operations is
  undefined behaviour: writing the request identifier into an empty vector, or negating the least
  \<^verbatim>\<open>int32_t\<close>.
\<close>

type_synonym ValueResultType = "VehiclePropValue option VhalResult"

definition getRequestId :: "VehiclePropValue \<Rightarrow> int VhalResult" where
  "getRequestId v = (case int32Values (pv_value v) of [] \<Rightarrow> Inl INVALID_ARG | i # _ \<Rightarrow> Inr i)"

definition getSwitchUserMessageType :: "VehiclePropValue \<Rightarrow> SwitchUserMessageType VhalResult" where
  "getSwitchUserMessageType v =
    (if length (int32Values (pv_value v)) < 2 then Inl INVALID_ARG
     else case verifyAndCast messageTypeInt messageTypes (int32Values (pv_value v) ! 1) of
       Inl _ \<Rightarrow> Inl INVALID_ARG | Inr ty \<Rightarrow> Inr ty)"

definition isSupported :: "int32 \<Rightarrow> bool" where
  "isSupported p \<longleftrightarrow> p \<in> {INITIAL_USER_INFO, SWITCH_USER, CREATE_USER, REMOVE_USER, USER_IDENTIFICATION_ASSOCIATION}"

definition setRequestId :: "int \<Rightarrow> VehiclePropValue \<Rightarrow> VehiclePropValue option" where
  "setRequestId i v = (if int32Values (pv_value v) = [] then None
     else Some (v\<lparr>pv_value := (pv_value v)\<lparr>int32Values := (int32Values (pv_value v))[0 := i]\<rparr>\<rparr>))"

definition defaultUserIdentificationAssociation :: "VehiclePropValue \<Rightarrow> ValueResultType" where
  "defaultUserIdentificationAssociation request = Inl NOT_AVAILABLE"

definition sendUserHalResponse :: "VehiclePropValue \<Rightarrow> int \<Rightarrow> ValueResultType option" where
  "sendUserHalResponse response requestId =
    (if pv_areaId response = 1
     then map_option (\<lambda>r. Inr (Some (r\<lparr>pv_areaId := 0\<rparr>))) (setRequestId requestId response)
     else if pv_areaId response = 2
     then (if requestId = - (2 ^ 31) then None
           else map_option (\<lambda>r. Inr (Some (r\<lparr>pv_areaId := 0\<rparr>))) (setRequestId (- requestId) response))
     else if pv_areaId response = 3 then Some (Inl NOT_AVAILABLE)
     else Some (Inl INTERNAL_ERROR))"

definition onSetInitialUserInfoResponse ::
  "int \<Rightarrow> VehiclePropValue \<Rightarrow> FakeUserHal \<Rightarrow> (ValueResultType \<times> FakeUserHal) option" where
  "onSetInitialUserInfoResponse now v hal =
    (case getRequestId v of
       Inl e \<Rightarrow> Some (Inl e, hal)
     | Inr requestId \<Rightarrow>
       if pv_areaId v \<noteq> 0 then Some (Inr None, hal\<lparr>mInitialUserResponseFromCmd := Some v\<rparr>)
       else case mInitialUserResponseFromCmd hal of
         Some response \<Rightarrow> map_option (\<lambda>r. (r, hal\<lparr>mInitialUserResponseFromCmd := None\<rparr>))
           (sendUserHalResponse response requestId)
       | None \<Rightarrow> Some (Inr (Some (initialUserInfoResponseValue now \<lparr>iur_requestId = requestId,
           iur_action = ACTION_DEFAULT, iur_userToSwitchOrCreate = \<lparr>ui_userId = 0, ui_flags = 0\<rparr>,
           iur_userLocales = [], iur_userNameToCreate = []\<rparr>)), hal))"

definition onSetSwitchUserResponse ::
  "int \<Rightarrow> VehiclePropValue \<Rightarrow> FakeUserHal \<Rightarrow> (ValueResultType \<times> FakeUserHal) option" where
  "onSetSwitchUserResponse now v hal =
    (case getRequestId v of
       Inl e \<Rightarrow> Some (Inl e, hal)
     | Inr requestId \<Rightarrow> (case getSwitchUserMessageType v of
       Inl e \<Rightarrow> Some (Inl e, hal)
     | Inr messageType \<Rightarrow>
       if pv_areaId v \<noteq> 0
       then (if messageType = VEHICLE_REQUEST then Some (Inr (Some v), hal)
             else Some (Inr None, hal\<lparr>mSwitchUserResponseFromCmd := Some v\<rparr>))
       else case mSwitchUserResponseFromCmd hal of
         Some response \<Rightarrow> map_option (\<lambda>r. (r, hal\<lparr>mSwitchUserResponseFromCmd := None\<rparr>))
           (sendUserHalResponse response requestId)
       | None \<Rightarrow>
         if messageType = LEGACY_ANDROID_SWITCH \<or> messageType = ANDROID_POST_SWITCH then Some (Inr None, hal)
         else Some (Inr (Some (switchUserResponseValue now \<lparr>sur_requestId = requestId,
           sur_messageType = VEHICLE_RESPONSE, sur_status = SUCCESS, sur_errorMessage = []\<rparr>)), hal)))"

definition onSetCreateUserResponse ::
  "int \<Rightarrow> VehiclePropValue \<Rightarrow> FakeUserHal \<Rightarrow> (ValueResultType \<times> FakeUserHal) option" where
  "onSetCreateUserResponse now v hal =
    (case getRequestId v of
       Inl e \<Rightarrow> Some (Inl e, hal)
     | Inr requestId \<Rightarrow>
       if pv_areaId v \<noteq> 0 then Some (Inr None, hal\<lparr>mCreateUserResponseFromCmd := Some v\<rparr>)
       else case mCreateUserResponseFromCmd hal of
         Some response \<Rightarrow> map_option (\<lambda>r. (r, hal\<lparr>mCreateUserResponseFromCmd := None\<rparr>))
           (sendUserHalResponse response requestId)
       | None \<Rightarrow> Some (Inr (Some (createUserResponseValue now
           \<lparr>cur_requestId = requestId, cur_status = SUCCESS, cur_errorMessage = []\<rparr>)), hal))"

definition onSetUserIdentificationAssociation ::
  "VehiclePropValue \<Rightarrow> FakeUserHal \<Rightarrow> (ValueResultType \<times> FakeUserHal) option" where
  "onSetUserIdentificationAssociation v hal =
    (case getRequestId v of
       Inl e \<Rightarrow> Some (Inl e, hal)
     | Inr requestId \<Rightarrow>
       if pv_areaId v \<noteq> 0
       then Some (Inr None, hal\<lparr>mSetUserIdentificationAssociationResponseFromCmd := Some v\<rparr>)
       else case mSetUserIdentificationAssociationResponseFromCmd hal of
         Some response \<Rightarrow> map_option (\<lambda>r. (r, hal)) (sendUserHalResponse response requestId)
       | None \<Rightarrow> Some (defaultUserIdentificationAssociation v, hal))"

definition onGetUserIdentificationAssociation :: "VehiclePropValue \<Rightarrow> FakeUserHal \<Rightarrow> ValueResultType option" where
  "onGetUserIdentificationAssociation v hal =
    (case mSetUserIdentificationAssociationResponseFromCmd hal of
       None \<Rightarrow> Some (defaultUserIdentificationAssociation v)
     | Some response \<Rightarrow> (case getRequestId v of
         Inl e \<Rightarrow> Some (Inl e)
       | Inr requestId \<Rightarrow> map_option (\<lambda>r. Inr (Some r)) (setRequestId requestId response)))"

definition onSetProperty ::
  "int \<Rightarrow> VehiclePropValue \<Rightarrow> FakeUserHal \<Rightarrow> (ValueResultType \<times> FakeUserHal) option" where
  "onSetProperty now v hal =
    (if pv_prop v = INITIAL_USER_INFO then onSetInitialUserInfoResponse now v hal
     else if pv_prop v = SWITCH_USER then onSetSwitchUserResponse now v hal
     else if pv_prop v = CREATE_USER then onSetCreateUserResponse now v hal
     else if pv_prop v = REMOVE_USER then Some (Inr None, hal)
     else if pv_prop v = USER_IDENTIFICATION_ASSOCIATION then onSetUserIdentificationAssociation v hal
     else Some (Inl INVALID_ARG, hal))"

definition onGetProperty :: "VehiclePropValue \<Rightarrow> FakeUserHal \<Rightarrow> ValueResultType option" where
  "onGetProperty v hal =
    (if pv_prop v \<in> {INITIAL_USER_INFO, SWITCH_USER, CREATE_USER, REMOVE_USER} then Some (Inl INVALID_ARG)
     else if pv_prop v = USER_IDENTIFICATION_ASSOCIATION then onGetUserIdentificationAssociation v hal
     else Some (Inl INVALID_ARG))"

section \<open>The layout of the messages\<close>

text \<open>
  The layout that the comments of \<^verbatim>\<open>VehicleProperty\<close> give, as encoders; \<open>valid\<close> is what a parser accepts.
  A parser from a position returns a value exactly when the integers there start with its encoding.
\<close>

locale prefix_parser =
  fixes parse :: "int list \<Rightarrow> nat \<Rightarrow> (unit + 'a) option"
    and encode :: "'a \<Rightarrow> int list"
    and valid :: "'a \<Rightarrow> bool"
  assumes parse_iff: "parse xs p = Some (Inr a) \<longleftrightarrow> valid a \<and> (\<exists>rest. drop p xs = encode a @ rest)"
begin

lemma parse_encode: "valid a \<Longrightarrow> length pre = p \<Longrightarrow> parse (pre @ encode a @ rest) p = Some (Inr a)"
  by (simp add: parse_iff)

lemma encode_inject: "valid a \<Longrightarrow> valid b \<Longrightarrow> encode a @ r = encode b @ s \<Longrightarrow> a = b \<and> r = s"
  using parse_encode [of a "[]" 0 r] parse_encode [of b "[]" 0 s] by auto

lemma parse_extend: "parse xs p = Some (Inr a) \<Longrightarrow> p \<le> length xs \<Longrightarrow> parse (xs @ ys) p = Some (Inr a)"
  by (auto simp: parse_iff)

text \<open>A message with fixed fields before what the parser reads.\<close>

lemma parse_after_fields:
  assumes "length pre = p"
  shows "take p xs = pre \<and> parse xs p = Some (Inr a) \<longleftrightarrow> valid a \<and> (\<exists>rest. xs = pre @ encode a @ rest)"
proof
  assume l: "take p xs = pre \<and> parse xs p = Some (Inr a)"
  then obtain rest where "drop p xs = encode a @ rest" "valid a" by (auto simp: parse_iff)
  then show "valid a \<and> (\<exists>rest. xs = pre @ encode a @ rest)"
    using l append_take_drop_id [of p xs] by metis
next
  assume "valid a \<and> (\<exists>rest. xs = pre @ encode a @ rest)"
  then show "take p xs = pre \<and> parse xs p = Some (Inr a)"
    using assms by (auto simp: parse_iff)
qed

end

definition userInfoInts :: "UserInfo \<Rightarrow> int list" where
  "userInfoInts u = [ui_userId u, ui_flags u]"

definition valid_user :: "UserInfo \<Rightarrow> bool" where
  "valid_user u \<longleftrightarrow> ui_flags u AND NOT USER_FLAGS = 0"

definition usersInfoInts :: "UsersInfo \<Rightarrow> int list" where
  "usersInfoInts us = userInfoInts (us_currentUser us) @ [us_numberUsers us] @
     concat (map userInfoInts (us_existingUsers us))"

definition valid_users :: "UsersInfo \<Rightarrow> bool" where
  "valid_users us \<longleftrightarrow> valid_user (us_currentUser us) \<and> list_all valid_user (us_existingUsers us) \<and>
     us_numberUsers us = int (length (us_existingUsers us))"

lemma drop_two: "p + 2 \<le> length xs \<Longrightarrow> drop p xs = xs ! p # xs ! (p + 1) # drop (p + 2) xs"
  by (simp add: Cons_nth_drop_Suc)

lemma parseUserInfo_iff:
  "parseUserInfo xs p = Inr u \<longleftrightarrow> valid_user u \<and> (\<exists>rest. drop p xs = userInfoInts u @ rest)"
proof (cases "p + 2 \<le> length xs")
  case True
  have "(\<exists>rest. drop p xs = userInfoInts u @ rest) \<longleftrightarrow> xs ! p = ui_userId u \<and> xs ! (p + 1) = ui_flags u"
    unfolding drop_two [OF True] by (auto simp: userInfoInts_def)
  then show ?thesis
    using True by (cases u) (auto simp: parseUserInfo_def valid_user_def)
next
  case False
  then have "length (drop p xs) < 2" by simp
  then have "drop p xs \<noteq> userInfoInts u @ rest" for rest by (auto simp: userInfoInts_def dest: arg_cong [where f = length])
  then show ?thesis using False by (simp add: parseUserInfo_def)
qed

interpretation user_info: prefix_parser "\<lambda>xs p. Some (parseUserInfo xs p)" userInfoInts valid_user
  by unfold_locales (simp add: parseUserInfo_iff)

lemma parseExistingUsers_iff:
  "parseExistingUsers xs p n = Inr us \<longleftrightarrow> length us = n \<and> list_all valid_user us \<and>
     (\<exists>rest. drop p xs = concat (map userInfoInts us) @ rest)"
proof (induction n arbitrary: p us)
  case 0
  then show ?case by auto
next
  case (Suc n)
  show ?case
  proof
    assume "parseExistingUsers xs p (Suc n) = Inr us"
    then obtain u us' where u: "parseUserInfo xs p = Inr u" and us': "parseExistingUsers xs (p + 2) n = Inr us'"
      and us: "us = u # us'" by (auto split: sum.splits)
    obtain r where r: "valid_user u" "drop p xs = userInfoInts u @ r" using u by (auto simp: parseUserInfo_iff)
    have "drop (p + 2) xs = drop 2 (drop p xs)" by (simp add: add.commute)
    then have "drop (p + 2) xs = r" by (simp add: r(2) userInfoInts_def)
    then show "length us = Suc n \<and> list_all valid_user us \<and> (\<exists>rest. drop p xs = concat (map userInfoInts us) @ rest)"
      using Suc.IH [of "p + 2" us'] us' r us by auto
  next
    assume r: "length us = Suc n \<and> list_all valid_user us \<and> (\<exists>rest. drop p xs = concat (map userInfoInts us) @ rest)"
    then obtain u us' where us: "us = u # us'" by (cases us) auto
    then obtain rest where d: "drop p xs = userInfoInts u @ concat (map userInfoInts us') @ rest" using r by auto
    have "drop (p + 2) xs = drop 2 (drop p xs)" by (simp add: add.commute)
    then have "drop (p + 2) xs = concat (map userInfoInts us') @ rest" by (simp add: d userInfoInts_def)
    then show "parseExistingUsers xs p (Suc n) = Inr us"
      using Suc.IH [of "p + 2" us'] r us d parseUserInfo_iff [of xs p u] by auto
  qed
qed

lemma parseUsersInfo_iff:
  "parseUsersInfo xs p = Some (Inr us) \<longleftrightarrow> valid_users us \<and> (\<exists>rest. drop p xs = usersInfoInts us @ rest)"
proof (cases "p + 3 \<le> length xs")
  case True
  then have d: "drop p xs = xs ! p # xs ! (p + 1) # xs ! (p + 2) # drop (p + 3) xs"
    by (simp add: Cons_nth_drop_Suc numeral_eq_Suc)
  have "parseUsersInfo xs p = Some (Inr us) \<longleftrightarrow> parseUserInfo xs p = Inr (us_currentUser us) \<and> 0 \<le> xs ! (p + 2) \<and>
      us_numberUsers us = xs ! (p + 2) \<and> parseExistingUsers xs (p + 3) (nat (xs ! (p + 2))) = Inr (us_existingUsers us)"
    using True by (cases us) (auto simp: parseUsersInfo_def Let_def split: sum.splits)
  also have "\<dots> \<longleftrightarrow> valid_users us \<and> (\<exists>rest. drop p xs = usersInfoInts us @ rest)"
    unfolding parseUserInfo_iff parseExistingUsers_iff d valid_users_def usersInfoInts_def
    by (auto simp: userInfoInts_def)
  finally show ?thesis .
next
  case False
  then have "length (drop p xs) < 3" by simp
  then have "drop p xs \<noteq> usersInfoInts us @ rest" for rest
    by (auto simp: usersInfoInts_def userInfoInts_def dest: arg_cong [where f = length])
  then show ?thesis using False by (simp add: parseUsersInfo_def)
qed

interpretation users_info: prefix_parser parseUsersInfo usersInfoInts valid_users
  by unfold_locales (simp add: parseUsersInfo_iff)

lemma verifyAndCast_Inr:
  assumes "inj toInt"
  shows "verifyAndCast toInt es x = Inr e \<longleftrightarrow> e \<in> set es \<and> toInt e = x"
proof (cases "find (\<lambda>e. toInt e = x) es")
  case None
  then have "\<forall>e \<in> set es. toInt e \<noteq> x" by (simp add: find_None_iff)
  then show ?thesis using None by (auto simp: verifyAndCast_def)
next
  case (Some d)
  then have "d \<in> set es" "toInt d = x" by (auto simp: find_Some_iff)
  then show ?thesis using Some injD [OF assms] by (auto simp: verifyAndCast_def)
qed

lemma inj_enums [simp]: "inj requestTypeInt" "inj messageTypeInt" "inj associationTypeInt" "inj setValueInt"
  by (rule injI, case_tac x; case_tac y; simp)+

lemma enum_range [simp]:
  "rty \<in> set requestTypes" "mty \<in> set messageTypes" "aty \<in> set associationTypes" "sv \<in> set setValues_range"
     apply (cases rty; simp add: requestTypes_def)
    apply (cases mty; simp add: messageTypes_def)
   apply (cases aty; simp add: associationTypes_def)
  apply (cases sv; simp add: setValues_range_def)
  done

section \<open>Properties of the parser\<close>

lemma drop_userInfo: "drop p xs = userInfoInts u @ r \<Longrightarrow> drop (p + 2) xs = r"
  using drop_drop [of 2 p xs] by (simp add: userInfoInts_def)

text \<open>A user and the users after it, read after the first \<open>p\<close> integers.\<close>

lemma parse_user_and_users:
  "length pre = p \<Longrightarrow> p + 2 = q \<Longrightarrow>
   take p xs = pre \<and> parseUserInfo xs p = Inr u \<and> parseUsersInfo xs q = Some (Inr us) \<longleftrightarrow>
     valid_user u \<and> valid_users us \<and> (\<exists>rest. xs = pre @ userInfoInts u @ usersInfoInts us @ rest)"
  (is "_ \<Longrightarrow> _ \<Longrightarrow> ?l \<longleftrightarrow> ?r")
proof
  assume p: "length pre = p" "p + 2 = q"
  {
    assume l: ?l
    then obtain r where r: "drop p xs = userInfoInts u @ r" "valid_user u" by (auto simp: parseUserInfo_iff)
    have "drop q xs = r" using drop_userInfo [OF r(1)] p by simp
    then obtain rest where "r = usersInfoInts us @ rest" "valid_users us" using l by (auto simp: parseUsersInfo_iff)
    then show ?r using r l append_take_drop_id [of p xs] by metis
  next
    assume ?r
    then show ?l using p by (auto simp: parseUserInfo_iff parseUsersInfo_iff userInfoInts_def)
  }
qed

lemma verifyPropValue_Inr [simp]:
  "verifyPropValue v p n = Inr u \<longleftrightarrow> pv_prop v = p \<and> n \<le> length (int32Values (pv_value v))"
  by (auto simp: verifyPropValue_def)

lemma two_fields: "2 \<le> length xs \<and> xs ! 0 = a \<and> xs ! 1 = b \<longleftrightarrow> take 2 xs = [a, b]"
  by (cases xs; cases "tl xs") (auto simp: numeral_2_eq_2)

lemma one_field: "1 \<le> length xs \<and> xs ! 0 = a \<longleftrightarrow> take 1 xs = [a]"
  by (cases xs) auto

text \<open>Each parser accepts when the fields before the users and the users themselves parse.\<close>

lemma toInitialUserInfoRequest_Inr:
  "toInitialUserInfoRequest v = Some (Inr q) \<longleftrightarrow> pv_prop v = INITIAL_USER_INFO \<and>
     take 2 (int32Values (pv_value v)) = [iuq_requestId q, requestTypeInt (iuq_requestType q)] \<and>
     parseUsersInfo (int32Values (pv_value v)) 2 = Some (Inr (iuq_usersInfo q))"
  unfolding two_fields [symmetric]
  by (cases q) (auto simp: toInitialUserInfoRequest_def Let_def andThen_Inr verifyAndCast_Inr)

lemma toSwitchUserRequest_Inr:
  "toSwitchUserRequest v = Some (Inr q) \<longleftrightarrow> pv_prop v = SWITCH_USER \<and>
     suq_messageType q \<in> {LEGACY_ANDROID_SWITCH, ANDROID_SWITCH, ANDROID_POST_SWITCH} \<and>
     take 2 (int32Values (pv_value v)) = [suq_requestId q, messageTypeInt (suq_messageType q)] \<and>
     parseUserInfo (int32Values (pv_value v)) 2 = Inr (suq_targetUser q) \<and>
     parseUsersInfo (int32Values (pv_value v)) 4 = Some (Inr (suq_usersInfo q))"
proof (cases "verifyAndCast messageTypeInt messageTypes (int32Values (pv_value v) ! 1)")
  case (Inl e)
  then have "messageTypeInt (suq_messageType q) \<noteq> int32Values (pv_value v) ! 1"
    using verifyAndCast_Inr [of messageTypeInt messageTypes "int32Values (pv_value v) ! 1" "suq_messageType q"] by simp
  then show ?thesis
    using Inl two_fields [of "int32Values (pv_value v)" "suq_requestId q" "messageTypeInt (suq_messageType q)"]
    by (simp add: toSwitchUserRequest_def Let_def andThen_Inr)
next
  case (Inr ty)
  then have "int32Values (pv_value v) ! 1 = messageTypeInt ty" by (simp add: verifyAndCast_Inr)
  then have "int32Values (pv_value v) ! 1 = messageTypeInt (suq_messageType q) \<longleftrightarrow> ty = suq_messageType q"
    by (metis inj_enums(2) injD)
  then show ?thesis using Inr
    unfolding two_fields [symmetric]
    by (cases q; simp add: toSwitchUserRequest_def Let_def andThen_Inr) blast
qed

lemma toCreateUserRequest_Inr:
  "toCreateUserRequest v = Some (Inr q) \<longleftrightarrow> pv_prop v = CREATE_USER \<and>
     cuq_newUserName q = stringValue (pv_value v) \<and> take 1 (int32Values (pv_value v)) = [cuq_requestId q] \<and>
     parseUserInfo (int32Values (pv_value v)) 1 = Inr (cuq_newUserInfo q) \<and>
     parseUsersInfo (int32Values (pv_value v)) 3 = Some (Inr (cuq_usersInfo q))"
  unfolding one_field [symmetric]
  by (cases q) (auto simp: toCreateUserRequest_def Let_def andThen_Inr)

lemma toRemoveUserRequest_Inr:
  "toRemoveUserRequest v = Some (Inr q) \<longleftrightarrow> pv_prop v = REMOVE_USER \<and>
     take 1 (int32Values (pv_value v)) = [ruq_requestId q] \<and>
     parseUserInfo (int32Values (pv_value v)) 1 = Inr (ruq_removedUserInfo q) \<and>
     parseUsersInfo (int32Values (pv_value v)) 3 = Some (Inr (ruq_usersInfo q))"
  unfolding one_field [symmetric]
  by (cases q) (auto simp: toRemoveUserRequest_def Let_def andThen_Inr)

text \<open>
  Claim C18 (user_requests_parsed). A user management request is accepted exactly when its integers start with the
  encoding of a valid request, and the parsed request is that one: flags are combinations of the known ones,
  the number of users is the number of entries, and trailing integers are ignored.
\<close>

theorem user_requests_parsed:
  "(toInitialUserInfoRequest v = Some (Inr q1) \<longleftrightarrow> pv_prop v = INITIAL_USER_INFO \<and> valid_users (iuq_usersInfo q1) \<and>
     (\<exists>rest. int32Values (pv_value v) =
        [iuq_requestId q1, requestTypeInt (iuq_requestType q1)] @ usersInfoInts (iuq_usersInfo q1) @ rest)) \<and>
   (toSwitchUserRequest v = Some (Inr q2) \<longleftrightarrow> pv_prop v = SWITCH_USER \<and>
     suq_messageType q2 \<in> {LEGACY_ANDROID_SWITCH, ANDROID_SWITCH, ANDROID_POST_SWITCH} \<and>
     valid_user (suq_targetUser q2) \<and> valid_users (suq_usersInfo q2) \<and>
     (\<exists>rest. int32Values (pv_value v) = [suq_requestId q2, messageTypeInt (suq_messageType q2)] @
        userInfoInts (suq_targetUser q2) @ usersInfoInts (suq_usersInfo q2) @ rest)) \<and>
   (toCreateUserRequest v = Some (Inr q3) \<longleftrightarrow> pv_prop v = CREATE_USER \<and>
     cuq_newUserName q3 = stringValue (pv_value v) \<and> valid_user (cuq_newUserInfo q3) \<and> valid_users (cuq_usersInfo q3) \<and>
     (\<exists>rest. int32Values (pv_value v) =
        [cuq_requestId q3] @ userInfoInts (cuq_newUserInfo q3) @ usersInfoInts (cuq_usersInfo q3) @ rest)) \<and>
   (toRemoveUserRequest v = Some (Inr q4) \<longleftrightarrow> pv_prop v = REMOVE_USER \<and>
     valid_user (ruq_removedUserInfo q4) \<and> valid_users (ruq_usersInfo q4) \<and>
     (\<exists>rest. int32Values (pv_value v) =
        [ruq_requestId q4] @ userInfoInts (ruq_removedUserInfo q4) @ usersInfoInts (ruq_usersInfo q4) @ rest))"
  unfolding toInitialUserInfoRequest_Inr toSwitchUserRequest_Inr toCreateUserRequest_Inr toRemoveUserRequest_Inr
  by (simp add: users_info.parse_after_fields parse_user_and_users)

definition in_int32 :: "int \<Rightarrow> bool" where
  "in_int32 x \<longleftrightarrow> - (2 ^ 31) \<le> x \<and> x < 2 ^ 31"

lemma parseUsersInfo_None:
  "parseUsersInfo xs p = None \<longleftrightarrow> p + 3 \<le> length xs \<and> (xs ! (p + 1)) AND NOT USER_FLAGS = 0 \<and> xs ! (p + 2) < 0"
  by (auto simp: parseUsersInfo_def parseUserInfo_def Let_def split: sum.splits)

lemma verifyAndCast_ok: "(\<exists>e. verifyAndCast toInt es x = Inr e) \<longleftrightarrow> (\<exists>e \<in> set es. toInt e = x)"
  by (auto simp: verifyAndCast_def find_None_iff find_Some_iff split: option.splits)

lemma to_size_t_nonneg: "0 \<le> x \<Longrightarrow> x < 2 ^ 64 \<Longrightarrow> to_size_t x = nat x"
  by (simp add: to_size_t_def)

lemma to_size_t_neg: "- (2 ^ 64) \<le> x \<Longrightarrow> x < 0 \<Longrightarrow> to_size_t x = nat (x + 2 ^ 64)"
proof -
  assume "- (2 ^ 64) \<le> x" "x < 0"
  then have "x mod 2 ^ 64 = (x + 2 ^ 64) mod 2 ^ 64" by simp
  also have "\<dots> = x + 2 ^ 64" using \<open>- (2 ^ 64) \<le> x\<close> \<open>x < 0\<close> by (intro mod_pos_pos_trivial) auto
  finally show ?thesis by (simp add: to_size_t_def)
qed

lemma parseUserAssociationTypes_None:
  assumes "in_int32 n" "length xs < 2 ^ 60" "4 \<le> length xs"
  shows "parseUserAssociationTypes xs 4 (to_size_t n) = None \<longleftrightarrow> - 4 \<le> n \<and> n < 0"
proof (cases "n < 0")
  case False
  then have "to_size_t n = nat n" using assms(1) by (intro to_size_t_nonneg) (auto simp: in_int32_def)
  moreover have "nat n < 2 ^ 60" using assms(1) False by (auto simp: in_int32_def)
  ultimately show ?thesis using False by (simp add: parseUserAssociationTypes_def)
next
  case True
  then have s: "to_size_t n = nat (n + 2 ^ 64)" using assms(1) by (intro to_size_t_neg) (auto simp: in_int32_def)
  have i: "int 4 + int (nat (n + 2 ^ 64)) = 4 + n + 2 ^ 64" using True assms(1) by (simp add: in_int32_def)
  show ?thesis
  proof (cases "- 4 \<le> n")
    case ge: True
    have "to_size_t (4 + n + 2 ^ 64) = nat (4 + n)"
      using ge True mod_add_self2 [of "4 + n" "2 ^ 64"] by (simp add: to_size_t_def mod_pos_pos_trivial)
    moreover have "(2 :: nat) ^ 60 \<le> nat (n + 2 ^ 64)" using ge by simp
    ultimately show ?thesis using ge True assms(3) unfolding parseUserAssociationTypes_def s i by simp
  next
    case False
    have "to_size_t (4 + n + 2 ^ 64) = nat (4 + n + 2 ^ 64)"
      using False assms(1) by (intro to_size_t_nonneg) (auto simp: in_int32_def)
    moreover have "int (length xs) < 4 + n + 2 ^ 64" using assms(1,2) by (simp add: in_int32_def)
    then have "length xs < nat (4 + n + 2 ^ 64)" by linarith
    ultimately show ?thesis using False unfolding parseUserAssociationTypes_def s i by simp
  qed
qed

text \<open>
  The counts of a message are not checked to be positive: the process aborts on a
  request for the initial user with a negative number of users, and on a request for associations whose
  number is between -4 and -1, where the wrapped length check passes.
\<close>

theorem negative_count_aborts:
  assumes "list_all in_int32 (int32Values (pv_value v))" "length (int32Values (pv_value v)) < 2 ^ 60"
  shows "(toInitialUserInfoRequest v = None \<longleftrightarrow> pv_prop v = INITIAL_USER_INFO \<and>
     5 \<le> length (int32Values (pv_value v)) \<and> (\<exists>ty. requestTypeInt ty = int32Values (pv_value v) ! 1) \<and>
     (int32Values (pv_value v) ! 3) AND NOT USER_FLAGS = 0 \<and> int32Values (pv_value v) ! 4 < 0) \<and>
   (toUserIdentificationGetRequest v = None \<longleftrightarrow> pv_prop v = USER_IDENTIFICATION_ASSOCIATION \<and>
     4 \<le> length (int32Values (pv_value v)) \<and> (int32Values (pv_value v) ! 2) AND NOT USER_FLAGS = 0 \<and>
     - 4 \<le> int32Values (pv_value v) ! 3 \<and> int32Values (pv_value v) ! 3 < 0)"
proof -
  define xs where "xs = int32Values (pv_value v)"
  have cast: "(\<exists>e. verifyAndCast requestTypeInt requestTypes x = Inr e) \<longleftrightarrow> (\<exists>ty. requestTypeInt ty = x)" for x
    by (simp add: verifyAndCast_ok Bex_def)
  have "toInitialUserInfoRequest v = None \<longleftrightarrow> pv_prop v = INITIAL_USER_INFO \<and> 2 \<le> length xs \<and>
      (\<exists>e. verifyAndCast requestTypeInt requestTypes (xs ! 1) = Inr e) \<and> parseUsersInfo xs 2 = None"
    by (auto simp: toInitialUserInfoRequest_def Let_def andThen_None xs_def [symmetric])
  moreover have "toUserIdentificationGetRequest v = None \<longleftrightarrow> pv_prop v = USER_IDENTIFICATION_ASSOCIATION \<and>
      4 \<le> length xs \<and> (\<exists>u. parseUserInfo xs 1 = Inr u) \<and> parseUserAssociationTypes xs 4 (to_size_t (xs ! 3)) = None"
    by (auto simp: toUserIdentificationGetRequest_def Let_def andThen_None xs_def [symmetric])
  moreover have "4 \<le> length xs \<Longrightarrow> in_int32 (xs ! 3)" using assms(1) by (simp add: xs_def list_all_length)
  moreover have "4 \<le> length xs \<Longrightarrow> (\<exists>u. parseUserInfo xs 1 = Inr u) \<longleftrightarrow> (xs ! 2) AND NOT USER_FLAGS = 0"
    by (simp add: parseUserInfo_def numeral_2_eq_2)
  ultimately show ?thesis
    using assms(2) parseUserAssociationTypes_None [of "xs ! 3" xs]
    unfolding xs_def [symmetric] cast parseUsersInfo_None by auto
qed

section \<open>The answers of the user HAL\<close>

fun user_hal_run :: "(int \<times> VehiclePropValue) list \<Rightarrow> FakeUserHal \<Rightarrow> FakeUserHal option" where
  "user_hal_run [] hal = Some hal"
| "user_hal_run ((now, v) # ops) hal = (case onSetProperty now v hal of
     None \<Rightarrow> None | Some (_, hal') \<Rightarrow> user_hal_run ops hal')"

text \<open>The last of the messages that count, if it came from a debug command (its area is not 0).\<close>

definition lastIfCommand :: "(VehiclePropValue \<Rightarrow> bool) \<Rightarrow> VehiclePropValue list \<Rightarrow> VehiclePropValue option" where
  "lastIfCommand counts vs = (case rev (filter counts vs) of [] \<Rightarrow> None | v # _ \<Rightarrow> if pv_areaId v \<noteq> 0 then Some v else None)"

text \<open>The messages of a property that have a request identifier.\<close>

definition pendingCommand :: "int32 \<Rightarrow> VehiclePropValue list \<Rightarrow> VehiclePropValue option" where
  "pendingCommand p = lastIfCommand (\<lambda>v. pv_prop v = p \<and> int32Values (pv_value v) \<noteq> [])"

text \<open>
  The messages of a user switch: those with a known message type, except the debug commands that emulate a request of
  the vehicle, which are passed on and not stored.
\<close>

definition switchMessage :: "VehiclePropValue \<Rightarrow> bool" where
  "switchMessage v \<longleftrightarrow> pv_prop v = SWITCH_USER \<and> (\<exists>ty \<in> set messageTypes. getSwitchUserMessageType v = Inr ty \<and>
     \<not> (pv_areaId v \<noteq> 0 \<and> ty = VEHICLE_REQUEST))"

definition pendingSwitch :: "VehiclePropValue list \<Rightarrow> VehiclePropValue option" where
  "pendingSwitch = lastIfCommand switchMessage"

definition lastCommand :: "int32 \<Rightarrow> VehiclePropValue list \<Rightarrow> VehiclePropValue option" where
  "lastCommand p vs = find (\<lambda>v. pv_prop v = p \<and> int32Values (pv_value v) \<noteq> [] \<and> pv_areaId v \<noteq> 0) (rev vs)"

lemma lastIfCommand_snoc:
  "lastIfCommand counts (vs @ [v]) =
     (if counts v then if pv_areaId v \<noteq> 0 then Some v else None else lastIfCommand counts vs)"
  by (simp add: lastIfCommand_def)

lemma lastIfCommand_Some: "lastIfCommand counts vs = Some r \<Longrightarrow> counts r"
  by (induction vs rule: rev_induct) (auto simp: lastIfCommand_snoc split: if_splits, simp add: lastIfCommand_def)

lemma pendingCommand_snoc:
  "pendingCommand p (vs @ [v]) = (if pv_prop v = p \<and> int32Values (pv_value v) \<noteq> []
     then if pv_areaId v \<noteq> 0 then Some v else None else pendingCommand p vs)"
  by (simp add: pendingCommand_def lastIfCommand_snoc)

lemma pendingSwitch_snoc:
  "pendingSwitch (vs @ [v]) =
     (if switchMessage v then if pv_areaId v \<noteq> 0 then Some v else None else pendingSwitch vs)"
  by (simp add: pendingSwitch_def lastIfCommand_snoc)

lemma lastCommand_snoc:
  "lastCommand p (vs @ [v]) = (if pv_prop v = p \<and> int32Values (pv_value v) \<noteq> [] \<and> pv_areaId v \<noteq> 0
     then Some v else lastCommand p vs)"
  by (simp add: lastCommand_def)

lemma user_hal_run_snoc:
  "user_hal_run (ops @ [(now, v)]) hal = (case user_hal_run ops hal of None \<Rightarrow> None
     | Some hal' \<Rightarrow> map_option snd (onSetProperty now v hal'))"
  by (induction ops hal rule: user_hal_run.induct) (auto split: option.splits)

lemma props_distinct [simp]:
  "INITIAL_USER_INFO \<noteq> SWITCH_USER" "INITIAL_USER_INFO \<noteq> CREATE_USER" "INITIAL_USER_INFO \<noteq> REMOVE_USER"
  "INITIAL_USER_INFO \<noteq> USER_IDENTIFICATION_ASSOCIATION" "SWITCH_USER \<noteq> CREATE_USER" "SWITCH_USER \<noteq> INITIAL_USER_INFO"
  "CREATE_USER \<noteq> INITIAL_USER_INFO" "CREATE_USER \<noteq> SWITCH_USER" "CREATE_USER \<noteq> USER_IDENTIFICATION_ASSOCIATION"
  "USER_IDENTIFICATION_ASSOCIATION \<noteq> INITIAL_USER_INFO" "USER_IDENTIFICATION_ASSOCIATION \<noteq> CREATE_USER"
  "USER_IDENTIFICATION_ASSOCIATION \<noteq> SWITCH_USER" "SWITCH_USER \<noteq> USER_IDENTIFICATION_ASSOCIATION"
  "USER_IDENTIFICATION_ASSOCIATION \<noteq> REMOVE_USER" "CREATE_USER \<noteq> REMOVE_USER" "SWITCH_USER \<noteq> REMOVE_USER"
  "REMOVE_USER \<noteq> SWITCH_USER" "REMOVE_USER \<noteq> INITIAL_USER_INFO" "REMOVE_USER \<noteq> CREATE_USER" "REMOVE_USER \<noteq> USER_IDENTIFICATION_ASSOCIATION"
  by (simp_all add: INITIAL_USER_INFO_def SWITCH_USER_def CREATE_USER_def REMOVE_USER_def
      USER_IDENTIFICATION_ASSOCIATION_def)

lemma messageTypes_all: "ty \<in> set messageTypes"
  by (cases ty) (simp_all add: messageTypes_def)

lemma getSwitchUserMessageType_Inr:
  "getSwitchUserMessageType v = Inr ty \<Longrightarrow> \<exists>i j is. int32Values (pv_value v) = i # j # is"
  by (cases "int32Values (pv_value v)" rule: remdups_adj.cases) (auto simp: getSwitchUserMessageType_def split: if_splits)

lemma getSwitchUserMessageType_Inl: "getSwitchUserMessageType v = Inl e \<Longrightarrow> e = INVALID_ARG"
  by (auto simp: getSwitchUserMessageType_def split: if_splits sum.splits)

lemmas user_hal_set_defs = onSetInitialUserInfoResponse_def onSetSwitchUserResponse_def onSetCreateUserResponse_def
  onSetUserIdentificationAssociation_def getRequestId_def

lemma onSet_fields:
  assumes "onSetProperty now v hal = Some (r, hal')"
  shows "mInitialUserResponseFromCmd hal' = (if pv_prop v = INITIAL_USER_INFO \<and> int32Values (pv_value v) \<noteq> []
      then if pv_areaId v \<noteq> 0 then Some v else None else mInitialUserResponseFromCmd hal)"
    and "mCreateUserResponseFromCmd hal' = (if pv_prop v = CREATE_USER \<and> int32Values (pv_value v) \<noteq> []
      then if pv_areaId v \<noteq> 0 then Some v else None else mCreateUserResponseFromCmd hal)"
    and "mSetUserIdentificationAssociationResponseFromCmd hal' =
      (if pv_prop v = USER_IDENTIFICATION_ASSOCIATION \<and> int32Values (pv_value v) \<noteq> [] \<and> pv_areaId v \<noteq> 0
       then Some v else mSetUserIdentificationAssociationResponseFromCmd hal)"
    and "mSwitchUserResponseFromCmd hal' = (if switchMessage v
      then if pv_areaId v \<noteq> 0 then Some v else None else mSwitchUserResponseFromCmd hal)"
  using assms
  by (auto simp: onSetProperty_def user_hal_set_defs switchMessage_def messageTypes_all
      split: if_splits list.splits option.splits sum.splits dest: getSwitchUserMessageType_Inr)

lemma user_hal_run_state:
  "user_hal_run ops newFakeUserHal = Some hal \<Longrightarrow>
     mInitialUserResponseFromCmd hal = pendingCommand INITIAL_USER_INFO (map snd ops) \<and>
     mSwitchUserResponseFromCmd hal = pendingSwitch (map snd ops) \<and>
     mCreateUserResponseFromCmd hal = pendingCommand CREATE_USER (map snd ops) \<and>
     mSetUserIdentificationAssociationResponseFromCmd hal = lastCommand USER_IDENTIFICATION_ASSOCIATION (map snd ops)"
proof (induction ops arbitrary: hal rule: rev_induct)
  case Nil
  then show ?case by (auto simp: newFakeUserHal_def pendingCommand_def pendingSwitch_def lastIfCommand_def lastCommand_def)
next
  case (snoc op ops)
  obtain now v where op: "op = (now, v)" by (cases op)
  from snoc.prems obtain hal0 r where h: "user_hal_run ops newFakeUserHal = Some hal0" "onSetProperty now v hal0 = Some (r, hal)"
    by (auto simp: op user_hal_run_snoc split: option.splits)
  show ?case
    using onSet_fields [OF h(2)] snoc.IH [OF h(1)] by (simp add: op pendingCommand_snoc pendingSwitch_snoc lastCommand_snoc)
qed

text \<open>What a stored response makes of a request: the area of the response says which.\<close>

definition answerFrom :: "VehiclePropValue \<Rightarrow> int \<Rightarrow> ValueResultType" where
  "answerFrom r i = (let reply = (\<lambda>j. Inr (Some (r\<lparr>pv_areaId := 0,
       pv_value := (pv_value r)\<lparr>int32Values := j # tl (int32Values (pv_value r))\<rparr>\<rparr>))) in
     if pv_areaId r = 1 then reply i else if pv_areaId r = 2 then reply (- i)
     else if pv_areaId r = 3 then Inl NOT_AVAILABLE else Inl INTERNAL_ERROR)"

lemma sendUserHalResponse_answer:
  "int32Values (pv_value r) \<noteq> [] \<Longrightarrow> i \<noteq> - (2 ^ 31) \<Longrightarrow> sendUserHalResponse r i = Some (answerFrom r i)"
  by (cases "int32Values (pv_value r)") (auto simp: sendUserHalResponse_def answerFrom_def setRequestId_def Let_def)

lemma commands_nonempty:
  "pendingCommand p vs = Some r \<Longrightarrow> int32Values (pv_value r) \<noteq> []"
  "pendingSwitch vs = Some r \<Longrightarrow> int32Values (pv_value r) \<noteq> []"
  "lastCommand p vs = Some r \<Longrightarrow> int32Values (pv_value r) \<noteq> []"
  by (auto simp: pendingCommand_def pendingSwitch_def lastCommand_def find_Some_iff switchMessage_def
      dest!: lastIfCommand_Some getSwitchUserMessageType_Inr)

text \<open>
  Claim C19 (user_hal_answers). After any sequence of messages, the answer to a request that Android sets (its area is 0, and it
  has a request identifier that an \<^verbatim>\<open>int32_t\<close> can negate) is decided by the last message of its property: a debug command
  is used for exactly the request that follows it; otherwise the default answer is given. The area of a command says what
  becomes of it: 1 answers with the identifier of the request, 2 with the negated one (a wrong one, unless it is 0), 3 with
  NOT_AVAILABLE, and any other area with INTERNAL_ERROR. A user switch with an unknown message type is refused; without a command
  the legacy and the post switch messages are ignored, and so is every removal of a user. For the user identification the last
  command stays.
\<close>

theorem user_hal_answers:
  assumes "user_hal_run ops newFakeUserHal = Some hal" "pv_areaId v = 0" "int32Values (pv_value v) = i # is"
    and "i \<noteq> - (2 ^ 31)"
  shows "(pv_prop v = INITIAL_USER_INFO \<longrightarrow> map_option fst (onSetProperty now v hal) = Some
      (case pendingCommand INITIAL_USER_INFO (map snd ops) of
        Some r \<Rightarrow> answerFrom r i
      | None \<Rightarrow> Inr (Some (messageValue now INITIAL_USER_INFO [i, 0, 0, 0] ''||'')))) \<and>
    (pv_prop v = SWITCH_USER \<longrightarrow> map_option fst (onSetProperty now v hal) = Some
      (case getSwitchUserMessageType v of
        Inl _ \<Rightarrow> Inl INVALID_ARG
      | Inr ty \<Rightarrow> (case pendingSwitch (map snd ops) of
          Some r \<Rightarrow> answerFrom r i
        | None \<Rightarrow> if ty \<in> {LEGACY_ANDROID_SWITCH, ANDROID_POST_SWITCH} then Inr None
                  else Inr (Some (messageValue now SWITCH_USER [i, 3, 1] []))))) \<and>
    (pv_prop v = CREATE_USER \<longrightarrow> map_option fst (onSetProperty now v hal) = Some
      (case pendingCommand CREATE_USER (map snd ops) of
        Some r \<Rightarrow> answerFrom r i | None \<Rightarrow> Inr (Some (messageValue now CREATE_USER [i, 1] [])))) \<and>
    (pv_prop v = REMOVE_USER \<longrightarrow> map_option fst (onSetProperty now v hal) = Some (Inr None)) \<and>
    (pv_prop v = USER_IDENTIFICATION_ASSOCIATION \<longrightarrow> map_option fst (onSetProperty now v hal) = Some
      (case lastCommand USER_IDENTIFICATION_ASSOCIATION (map snd ops) of
        Some r \<Rightarrow> answerFrom r i | None \<Rightarrow> Inl NOT_AVAILABLE))"
  using user_hal_run_state [OF assms(1)] assms(2-4) commands_nonempty
  by (auto simp: onSetProperty_def user_hal_set_defs sendUserHalResponse_answer initialUserInfoResponseValue_def
      createUserResponseValue_def switchUserResponseValue_def kSeparator_def defaultUserIdentificationAssociation_def
      option.map_comp comp_def split: option.split sum.split dest: getSwitchUserMessageType_Inl)

text \<open>
  Area 2 is meant to answer with a wrong request identifier, but its negation of 0 is the right one.
\<close>

lemma wrong_request_id_zero: "pv_areaId r = 2 \<Longrightarrow> answerFrom r 0 = answerFrom (r\<lparr>pv_areaId := 1\<rparr>) 0"
  by (simp add: answerFrom_def Let_def)


section \<open>Witnesses\<close>

text \<open>A debug command that answers the next request for the initial user, and a request of Android.\<close>

definition sample_command :: VehiclePropValue where
  "sample_command = (messageValue 0 INITIAL_USER_INFO [666, 1, 11, 0] ''||'')\<lparr>pv_areaId := 1\<rparr>"

definition sample_user_request :: VehiclePropValue where
  "sample_user_request = messageValue 0 INITIAL_USER_INFO [42, 3, 10, 8, -1] []"

theorem user_hal_answers_witness:
  "map_option fst (onSetProperty 5 sample_user_request
     (the (user_hal_run [(3, sample_command)] newFakeUserHal))) =
   Some (Inr (Some (messageValue 0 INITIAL_USER_INFO [42, 1, 11, 0] ''||'')))"
proof -
  have r: "user_hal_run [(3, sample_command)] newFakeUserHal = Some (newFakeUserHal\<lparr>mInitialUserResponseFromCmd := Some sample_command\<rparr>)"
    by code_simp
  have p: "pendingCommand INITIAL_USER_INFO (map snd [(3 :: int, sample_command)]) = Some sample_command" by code_simp
  have a: "answerFrom sample_command 42 = Inr (Some (messageValue 0 INITIAL_USER_INFO [42, 1, 11, 0] ''||''))" by code_simp
  have "pv_prop sample_user_request = INITIAL_USER_INFO" "pv_areaId sample_user_request = 0"
    "int32Values (pv_value sample_user_request) = 42 # [3, 10, 8, -1]"
    by (simp_all add: sample_user_request_def messageValue_def)
  with user_hal_answers [OF r, of sample_user_request 42 "[3, 10, 8, -1]" 5] r p a show ?thesis by simp
qed

theorem negative_count_aborts_witness: "toInitialUserInfoRequest sample_user_request = None"
proof -
  have "list_all in_int32 (int32Values (pv_value sample_user_request))"
    "length (int32Values (pv_value sample_user_request)) < 2 ^ 60"
    by (simp_all add: sample_user_request_def messageValue_def in_int32_def)
  moreover have "requestTypeInt COLD_BOOT = int32Values (pv_value sample_user_request) ! 1"
    "5 \<le> length (int32Values (pv_value sample_user_request))"
    "(int32Values (pv_value sample_user_request) ! 3) AND NOT USER_FLAGS = 0"
    "int32Values (pv_value sample_user_request) ! 4 < 0" "pv_prop sample_user_request = INITIAL_USER_INFO"
    by code_simp+
  ultimately show ?thesis using negative_count_aborts [of sample_user_request] by blast
qed

end
