(* ===== verification/Fake_Hardware.thy ===== *)
theory Fake_Hardware
  imports Subscription_Manager Property_Store Recurrent_Timer Concurrent_Queue Fake_Obd2 User_Hal
begin

text \<open>
  \<^verbatim>\<open>fake_impl/hardware/FakeVehicleHardware\<close>: configuration, event subscription and periodic refresh,
  supported values and request queues of the reference hardware. It provides the interface
  \<open>vehicle_hardware\<close>. The special properties are the theories \<open>Special_Values\<close>, \<open>Hvac_Power\<close> and \<open>Driver_Assistance\<close>.

  The recurrent timer is the component of the theory \<open>Recurrent_Timer\<close>; the hardware keeps the
  sequence of calls it made on it, and \<open>replay\<close> runs a timer on that sequence. A timer action is the
  identity of its \<^verbatim>\<open>shared_ptr\<close>; \<open>mActionClosures\<close> records the interval the action's closure captured.
  The value of an undefined float-to-integer cast is the parameter \<open>undefCast\<close>.
\<close>

section \<open>State\<close>

datatype TimerCall = RegisterTimer int nat | UnregisterTimer nat

record RefreshInfo =
  ri_eventMode :: EventMode
  ri_intervalInNanos :: int

record ActionForInterval =
  propIdAreaIdsToRefresh :: "PropIdAreaId uset"
  recurrentAction :: nat

record FakeVehicleHardware =
  mServerSidePropStore :: VehiclePropertyStore
  mTimerCalls :: "TimerCall list"
  mNextAction :: nat
  mActionClosures :: "(nat, int) umap"
  mOnPropertyChangeCallback :: bool
  mOnPropertySetErrorCallback :: bool
  mOnSupportedValueChangeCallback :: bool
  mRefreshInfoByPropIdAreaId :: "(PropIdAreaId, RefreshInfo) umap"
  mActionByIntervalInNanos :: "(int, ActionForInterval) umap"
  mSubOnChangePropIdAreaIds :: "PropIdAreaId uset"
  mMinSupportedValueByPropIdAreaId :: "(PropIdAreaId, RawPropValues) umap"
  mMaxSupportedValueByPropIdAreaId :: "(PropIdAreaId, RawPropValues) umap"
  mSupportedValuesByPropIdAreaId :: "(PropIdAreaId, RawPropValues list) umap"
  mPendingGetValueRequests :: "(GetValueRequest \<times> nat) ConcurrentQueue"
  mPendingSetValueRequests :: "(SetValueRequest \<times> nat) ConcurrentQueue"
  hvacPowerDependentProps :: "int32 uset"
  mFakeUserHal :: FakeUserHal
  mAddExtraTestVendorConfigs :: bool
  mPowerControllerServiceAddress :: string

definition newFakeHardware :: FakeVehicleHardware where
  "newFakeHardware = \<lparr>mServerSidePropStore = emptyStore, mTimerCalls = [], mNextAction = 0,
     mActionClosures = [], mOnPropertyChangeCallback = False, mOnPropertySetErrorCallback = False,
     mOnSupportedValueChangeCallback = False, mRefreshInfoByPropIdAreaId = [],
     mActionByIntervalInNanos = [], mSubOnChangePropIdAreaIds = [],
     mMinSupportedValueByPropIdAreaId = [], mMaxSupportedValueByPropIdAreaId = [],
     mSupportedValuesByPropIdAreaId = [], mPendingGetValueRequests = newQueue,
     mPendingSetValueRequests = newQueue, hvacPowerDependentProps = [], mFakeUserHal = newFakeUserHal,
     mAddExtraTestVendorConfigs = False, mPowerControllerServiceAddress = []\<rparr>"

section \<open>Loading the configuration\<close>

record ConfigDeclaration =
  cd_config :: VehiclePropConfig
  cd_initialValue :: RawPropValues
  cd_initialAreaValues :: "(int32, RawPropValues) umap"
  cd_supportedValuesForAreaId :: "(int32, fp list) umap"

definition HVAC_POWER_ON :: int32 where "HVAC_POWER_ON = 0x15200510"
definition AP_POWER_STATE_REQ :: int32 where "AP_POWER_STATE_REQ = 0x11410a00"

text \<open>The initial value of one area, if there is one.\<close>

definition initialValueForArea :: "ConfigDeclaration \<Rightarrow> int32 \<Rightarrow> RawPropValues option" where
  "initialValueForArea config curArea =
     (if cd_initialAreaValues config = [] then
        (if raw_eq (cd_initialValue config) raw_default then None else Some (cd_initialValue config))
      else map_of (cd_initialAreaValues config) curArea)"

definition storePropInitialValue ::
  "int \<Rightarrow> ConfigDeclaration \<Rightarrow> FakeVehicleHardware \<Rightarrow> FakeVehicleHardware" where
  "storePropInitialValue now config h0 =
    (let cfg = cd_config config; p = pc_prop cfg; globalProp = isGlobalProp p;
         areas = (if globalProp then [0] else map ac_areaId (pc_areaConfigs cfg));
         h1 = (if p = HVAC_POWER_ON
               then h0\<lparr>hvacPowerDependentProps :=
                      fold uset_insert (map word_of_int (pc_configArray cfg)) (hvacPowerDependentProps h0)\<rparr>
               else h0) in
     fold (\<lambda>curArea h. case initialValueForArea config curArea of
         None \<Rightarrow> h
       | Some val \<Rightarrow>
         let v = \<lparr>pv_timestamp = now, pv_areaId = curArea, pv_prop = p, pv_status = AVAILABLE, pv_value = val\<rparr> in
         h\<lparr>mServerSidePropStore :=
            snd (snd (writeValue now v True ON_VALUE_CHANGE False (mServerSidePropStore h)))\<rparr>) areas h1)"

definition castTo :: "(fp \<Rightarrow> int) \<Rightarrow> nat \<Rightarrow> fp \<Rightarrow> int" where
  "castTo undefCast w x = (case fp_to_int w x of Some i \<Rightarrow> i | None \<Rightarrow> undefCast x)"

definition createInt32 :: "int \<Rightarrow> RawPropValues" where "createInt32 v = raw_default\<lparr>int32Values := [v]\<rparr>"
definition createInt64 :: "int \<Rightarrow> RawPropValues" where "createInt64 v = raw_default\<lparr>int64Values := [v]\<rparr>"
definition createFloat :: "fp \<Rightarrow> RawPropValues" where "createFloat v = raw_default\<lparr>floatValues := [v]\<rparr>"

text \<open>\<^verbatim>\<open>static_cast<int32_t>\<close> of an \<^verbatim>\<open>int64_t\<close>.\<close>

definition wrap32 :: "int \<Rightarrow> int" where
  "wrap32 x = (x + 2 ^ 31) mod 2 ^ 32 - 2 ^ 31"

definition supportedValuesFor ::
  "(fp \<Rightarrow> int) \<Rightarrow> ConfigDeclaration \<Rightarrow> VehicleAreaConfig \<Rightarrow> VehiclePropertyType \<Rightarrow> RawPropValues list" where
  "supportedValuesFor undefCast config ac ty =
     (case map_of (cd_supportedValuesForAreaId config) (ac_areaId ac) of
        Some fs \<Rightarrow> (case ty of
            T_INT32 \<Rightarrow> map (\<lambda>f. createInt32 (castTo undefCast 32 f)) fs
          | T_INT64 \<Rightarrow> map (\<lambda>f. createInt64 (castTo undefCast 64 f)) fs
          | T_FLOAT \<Rightarrow> map createFloat fs
          | _ \<Rightarrow> [])
      | None \<Rightarrow> (case ty of
            T_INT32 \<Rightarrow> (case ac_supportedEnumValues ac of None \<Rightarrow> [] | Some es \<Rightarrow> map (createInt32 \<circ> wrap32) es)
          | T_INT64 \<Rightarrow> (case ac_supportedEnumValues ac of None \<Rightarrow> [] | Some es \<Rightarrow> map createInt64 es)
          | _ \<Rightarrow> []))"

text \<open>
  The supported values of one area; \<^verbatim>\<open>continue\<close> on a minimum or maximum of another type skips the rest of
  the area.
\<close>

definition loadSupportedValues ::
  "(fp \<Rightarrow> int) \<Rightarrow> ConfigDeclaration \<Rightarrow> VehicleAreaConfig \<Rightarrow> FakeVehicleHardware \<Rightarrow> FakeVehicleHardware" where
  "loadSupportedValues undefCast config ac h0 =
    (let p = pc_prop (cd_config config); ty = getPropType p; k = PropIdAreaId p (ac_areaId ac);
         numeric = ty \<in> {T_INT32, T_INT64, T_FLOAT};
         minValue = (if ty = T_INT32 then createInt32 (ac_minInt32Value ac)
                     else if ty = T_INT64 then createInt64 (ac_minInt64Value ac)
                     else createFloat (ac_minFloatValue ac));
         maxValue = (if ty = T_INT32 then createInt32 (ac_maxInt32Value ac)
                     else if ty = T_INT64 then createInt64 (ac_maxInt64Value ac)
                     else createFloat (ac_maxFloatValue ac)) in
     case ac_hasSupportedValueInfo ac of
       None \<Rightarrow> h0
     | Some info \<Rightarrow>
       if hasMinSupportedValue info \<and> \<not> numeric then h0 else
       let h1 = (if hasMinSupportedValue info
                 then h0\<lparr>mMinSupportedValueByPropIdAreaId := umap_put k minValue (mMinSupportedValueByPropIdAreaId h0)\<rparr>
                 else h0) in
       if hasMaxSupportedValue info \<and> \<not> numeric then h1 else
       let h2 = (if hasMaxSupportedValue info
                 then h1\<lparr>mMaxSupportedValueByPropIdAreaId := umap_put k maxValue (mMaxSupportedValueByPropIdAreaId h1)\<rparr>
                 else h1);
           supported = supportedValuesFor undefCast config ac ty in
       if hasSupportedValuesList info \<and> supported \<noteq> []
       then h2\<lparr>mSupportedValuesByPropIdAreaId := umap_put k supported (mSupportedValuesByPropIdAreaId h2)\<rparr>
       else h2)"

definition initConfig ::
  "(fp \<Rightarrow> int) \<Rightarrow> int \<Rightarrow> int \<Rightarrow> ConfigDeclaration \<Rightarrow> FakeVehicleHardware \<Rightarrow> FakeVehicleHardware" where
  "initConfig undefCast now s2rS2dConfig config h =
    (let cfg0 = cd_config config;
         cfg = (if pc_prop cfg0 = AP_POWER_STATE_REQ
                then cfg0\<lparr>pc_configArray := (pc_configArray cfg0)[0 := s2rS2dConfig]\<rparr> else cfg0);
         tokenFunction = (if pc_prop cfg \<noteq> AP_POWER_STATE_REQ \<and> pc_prop cfg = OBD2_FREEZE_FRAME
                          then Some pv_timestamp else None);
         h1 = h\<lparr>mServerSidePropStore := registerProperty cfg tokenFunction (mServerSidePropStore h)\<rparr> in
     if isDiagnosticProperty cfg then h1
     else fold (loadSupportedValues undefCast config) (pc_areaConfigs cfg)
            (storePropInitialValue now config h1))"

text \<open>
  \<open>init\<close>, over the configuration declarations the loader returned and the address of the power controller that
  the configuration file gives. \<open>obdClock\<close> is the reading of the clock for the freeze frame of a trouble code.
  \<open>None\<close>: a configuration array that the code reads is too short.
\<close>

definition init ::
  "(fp \<Rightarrow> int) \<Rightarrow> int \<Rightarrow> (string \<Rightarrow> int) \<Rightarrow> string \<Rightarrow> int \<Rightarrow> ConfigDeclaration list \<Rightarrow>
     FakeVehicleHardware \<Rightarrow> FakeVehicleHardware option" where
  "init undefCast now obdClock address s2rS2dConfig configs h =
    (if list_ex (\<lambda>c. pc_prop (cd_config c) = AP_POWER_STATE_REQ \<and> pc_configArray (cd_config c) = []) configs then None
     else
       let h1 = fold (initConfig undefCast now s2rS2dConfig) configs (h\<lparr>mPowerControllerServiceAddress := address\<rparr>);
           st = mServerSidePropStore h1 in
       case (case getPropConfig OBD2_LIVE_FRAME st of Inl _ \<Rightarrow> Some st | Inr c \<Rightarrow> initObd2LiveFrame now c st) of
         None \<Rightarrow> None
       | Some st1 \<Rightarrow>
         (case (case getPropConfig OBD2_FREEZE_FRAME st1 of
             Inl _ \<Rightarrow> Some st1 | Inr c \<Rightarrow> initObd2FreezeFrame obdClock c st1) of
           None \<Rightarrow> None
         | Some st2 \<Rightarrow> Some (h1\<lparr>mServerSidePropStore := setOnValuesChangeCallback True st2\<rparr>)))"

definition STARTING_VENDOR_CODE_PROPERTIES_FOR_TEST :: int32 where
  "STARTING_VENDOR_CODE_PROPERTIES_FOR_TEST = 0x3000 OR 0x20000000 OR 0x01000000 OR 0x00400000"

definition ENDING_VENDOR_CODE_PROPERTIES_FOR_TEST :: int32 where
  "ENDING_VENDOR_CODE_PROPERTIES_FOR_TEST = 0x5000 OR 0x20000000 OR 0x01000000 OR 0x00400000"

definition generateVendorConfigs :: "VehiclePropConfig list" where
  "generateVendorConfigs = map (\<lambda>i. \<lparr>pc_prop = word_of_int i, pc_access = READ_WRITE, pc_changeMode = STATIC,
     pc_areaConfigs = [], pc_configArray = [], pc_minSampleRate = FFin 0, pc_maxSampleRate = FFin 0\<rparr>)
     [sint STARTING_VENDOR_CODE_PROPERTIES_FOR_TEST .. sint ENDING_VENDOR_CODE_PROPERTIES_FOR_TEST - 1]"

definition getAllPropertyConfigs :: "FakeVehicleHardware \<Rightarrow> VehiclePropConfig list" where
  "getAllPropertyConfigs h =
     getAllConfigs (mServerSidePropStore h) @ (if mAddExtraTestVendorConfigs h then generateVendorConfigs else [])"

section \<open>Callbacks\<close>

definition registerOnPropertyChangeEvent :: "FakeVehicleHardware \<Rightarrow> FakeVehicleHardware" where
  "registerOnPropertyChangeEvent h =
     (if mOnPropertyChangeCallback h then h else h\<lparr>mOnPropertyChangeCallback := True\<rparr>)"

definition registerOnPropertySetErrorEvent :: "FakeVehicleHardware \<Rightarrow> FakeVehicleHardware" where
  "registerOnPropertySetErrorEvent h =
     (if mOnPropertySetErrorCallback h then h else h\<lparr>mOnPropertySetErrorCallback := True\<rparr>)"

definition registerSupportedValueChangeCallback :: "FakeVehicleHardware \<Rightarrow> FakeVehicleHardware" where
  "registerSupportedValueChangeCallback h =
     (if mOnSupportedValueChangeCallback h then h else h\<lparr>mOnSupportedValueChangeCallback := True\<rparr>)"

definition isSubscribed :: "FakeVehicleHardware \<Rightarrow> PropIdAreaId \<Rightarrow> bool" where
  "isSubscribed h k \<longleftrightarrow> map_of (mRefreshInfoByPropIdAreaId h) k \<noteq> None \<or> k \<in> set (mSubOnChangePropIdAreaIds h)"

text \<open>The calls of \<^verbatim>\<open>mOnPropertyChangeCallback\<close>; the list may be empty.\<close>

definition onValuesChangeCallback :: "VehiclePropValue list \<Rightarrow> FakeVehicleHardware \<Rightarrow> VehiclePropValue list list" where
  "onValuesChangeCallback values h =
     (if \<not> mOnPropertyChangeCallback h then []
      else [filter (\<lambda>v. isSubscribed h (key_of v)) values])"

definition onValueChangeCallback :: "VehiclePropValue \<Rightarrow> FakeVehicleHardware \<Rightarrow> VehiclePropValue list list" where
  "onValueChangeCallback v h = onValuesChangeCallback [v] h"

definition onStoreEvent :: "StoreEvent \<Rightarrow> FakeVehicleHardware \<Rightarrow> VehiclePropValue list list" where
  "onStoreEvent e h = (case e of
     OnValueChange v \<Rightarrow> onValueChangeCallback v h
   | OnValuesChange vs \<Rightarrow> onValuesChangeCallback vs h)"

section \<open>Periodic refresh\<close>

definition defaultRefreshInfo :: RefreshInfo where
  "defaultRefreshInfo = \<lparr>ri_eventMode = ON_VALUE_CHANGE, ri_intervalInNanos = 0\<rparr>"

definition refreshTimestampForInterval ::
  "(PropIdAreaId \<Rightarrow> int) \<Rightarrow> int \<Rightarrow> FakeVehicleHardware \<Rightarrow> VehiclePropValue list list \<times> FakeVehicleHardware" where
  "refreshTimestampForInterval clock interval h =
    (case map_of (mActionByIntervalInNanos h) interval of
       None \<Rightarrow> ([], h)
     | Some action \<Rightarrow>
       let ks = propIdAreaIdsToRefresh action;
           h1 = h\<lparr>mRefreshInfoByPropIdAreaId :=
                  fold (umap_touch defaultRefreshInfo) ks (mRefreshInfoByPropIdAreaId h)\<rparr>;
           modes = fold (\<lambda>k modes. umap_put k
                     (ri_eventMode (umap_at defaultRefreshInfo k (mRefreshInfoByPropIdAreaId h))) modes) ks [];
           (events, store) = refreshTimestamps clock modes (mServerSidePropStore h);
           h2 = h1\<lparr>mServerSidePropStore := store\<rparr> in
       (concat (map (\<lambda>e. onStoreEvent e h2) events), h2))"

text \<open>The timer calls an action: its closure refreshes the interval it captured.\<close>

definition runAction ::
  "(PropIdAreaId \<Rightarrow> int) \<Rightarrow> nat \<Rightarrow> FakeVehicleHardware \<Rightarrow> VehiclePropValue list list \<times> FakeVehicleHardware" where
  "runAction clock action h = (case map_of (mActionClosures h) action of
     None \<Rightarrow> ([], h) | Some interval \<Rightarrow> refreshTimestampForInterval clock interval h)"

definition defaultAction :: ActionForInterval where
  "defaultAction = \<lparr>propIdAreaIdsToRefresh = [], recurrentAction = 0\<rparr>"

definition unregisterRefreshLocked :: "PropIdAreaId \<Rightarrow> FakeVehicleHardware \<Rightarrow> FakeVehicleHardware" where
  "unregisterRefreshLocked k h =
    (case map_of (mRefreshInfoByPropIdAreaId h) k of
       None \<Rightarrow> h
     | Some info \<Rightarrow>
       let interval = ri_intervalInNanos info;
           action = umap_at defaultAction interval (mActionByIntervalInNanos h);
           action' = action\<lparr>propIdAreaIdsToRefresh := uset_erase k (propIdAreaIdsToRefresh action)\<rparr>;
           h1 = h\<lparr>mActionByIntervalInNanos := umap_put interval action' (mActionByIntervalInNanos h)\<rparr>;
           h2 = (if propIdAreaIdsToRefresh action' = []
                 then h1\<lparr>mTimerCalls := mTimerCalls h1 @ [UnregisterTimer (recurrentAction action')],
                         mActionByIntervalInNanos := umap_erase interval (mActionByIntervalInNanos h1)\<rparr>
                 else h1) in
       h2\<lparr>mRefreshInfoByPropIdAreaId := umap_erase k (mRefreshInfoByPropIdAreaId h2)\<rparr>)"

definition intervalOf :: "(fp \<Rightarrow> int) \<Rightarrow> fp \<Rightarrow> int" where
  "intervalOf undefCast sampleRateHz = castTo undefCast 64 (fp_div binary64 (FFin 1000000000) sampleRateHz)"

definition registerRefreshLocked ::
  "(fp \<Rightarrow> int) \<Rightarrow> PropIdAreaId \<Rightarrow> EventMode \<Rightarrow> fp \<Rightarrow> FakeVehicleHardware \<Rightarrow> FakeVehicleHardware" where
  "registerRefreshLocked undefCast k eventMode sampleRateHz h0 =
    (let h = (if map_of (mRefreshInfoByPropIdAreaId h0) k \<noteq> None then unregisterRefreshLocked k h0 else h0);
         interval = intervalOf undefCast sampleRateHz;
         h1 = h\<lparr>mRefreshInfoByPropIdAreaId := umap_put k
                \<lparr>ri_eventMode = eventMode, ri_intervalInNanos = interval\<rparr> (mRefreshInfoByPropIdAreaId h)\<rparr> in
     case map_of (mActionByIntervalInNanos h1) interval of
       Some action \<Rightarrow>
         h1\<lparr>mActionByIntervalInNanos := umap_put interval
            (action\<lparr>propIdAreaIdsToRefresh := uset_insert k (propIdAreaIdsToRefresh action)\<rparr>)
            (mActionByIntervalInNanos h1)\<rparr>
     | None \<Rightarrow>
         let action = mNextAction h1 in
         h1\<lparr>mNextAction := action + 1,
            mActionClosures := umap_put action interval (mActionClosures h1),
            mActionByIntervalInNanos := umap_put interval
              \<lparr>propIdAreaIdsToRefresh = [k], recurrentAction = action\<rparr> (mActionByIntervalInNanos h1),
            mTimerCalls := mTimerCalls h1 @ [RegisterTimer interval action]\<rparr>)"

section \<open>Subscribing\<close>

definition isVariableUpdateRateSupported :: "VehiclePropConfig \<Rightarrow> int32 \<Rightarrow> bool" where
  "isVariableUpdateRateSupported config a =
     (case find (\<lambda>ac. ac_areaId ac = a) (pc_areaConfigs config) of
        None \<Rightarrow> False | Some ac \<Rightarrow> ac_supportVariableUpdateRate ac)"

definition subscribePropIdAreaIdLocked ::
  "(fp \<Rightarrow> int) \<Rightarrow> int32 \<Rightarrow> int32 \<Rightarrow> fp \<Rightarrow> bool \<Rightarrow> VehiclePropConfig \<Rightarrow> FakeVehicleHardware \<Rightarrow>
     StatusCode \<times> FakeVehicleHardware" where
  "subscribePropIdAreaIdLocked undefCast p a sampleRateHz enableVariableUpdateRate config h =
    (let k = PropIdAreaId p a in
     case pc_changeMode config of
       STATIC \<Rightarrow> (OK, h)
     | ON_CHANGE \<Rightarrow> (OK, h\<lparr>mSubOnChangePropIdAreaIds := uset_insert k (mSubOnChangePropIdAreaIds h)\<rparr>)
     | CONTINUOUS \<Rightarrow>
       if fp_eq sampleRateHz (FFin 0) then (INVALID_ARG, h)
       else
         let eventMode = (if isVariableUpdateRateSupported config a \<and> enableVariableUpdateRate
                          then ON_VALUE_CHANGE else ALWAYS) in
         (OK, registerRefreshLocked undefCast k eventMode sampleRateHz h))"

text \<open>A loop whose body returns a status and ends at the first one that is not \<open>OK\<close>.\<close>

fun forStatus :: "('a \<Rightarrow> 's \<Rightarrow> StatusCode \<times> 's) \<Rightarrow> 'a list \<Rightarrow> 's \<Rightarrow> StatusCode \<times> 's" where
  "forStatus body [] s = (OK, s)"
| "forStatus body (x # xs) s =
     (case body x s of (status, s') \<Rightarrow> if status \<noteq> OK then (status, s') else forStatus body xs s')"

definition subscribeHardware ::
  "(fp \<Rightarrow> int) \<Rightarrow> SubscribeOptions \<Rightarrow> FakeVehicleHardware \<Rightarrow> StatusCode \<times> FakeVehicleHardware" where
  "subscribeHardware undefCast options h =
    (case getPropConfig (so_propId options) (mServerSidePropStore h) of
       Inl _ \<Rightarrow> (INVALID_ARG, h)
     | Inr config \<Rightarrow>
       forStatus (\<lambda>a. subscribePropIdAreaIdLocked undefCast (so_propId options) a (so_sampleRate options)
                    (so_enableVariableUpdateRate options) config) (so_areaIds options) h)"

definition unsubscribeHardware ::
  "int32 \<Rightarrow> int32 \<Rightarrow> FakeVehicleHardware \<Rightarrow> StatusCode \<times> FakeVehicleHardware" where
  "unsubscribeHardware p a h =
    (let k = PropIdAreaId p a;
         h1 = (if map_of (mRefreshInfoByPropIdAreaId h) k \<noteq> None then unregisterRefreshLocked k h else h) in
     (OK, h1\<lparr>mSubOnChangePropIdAreaIds := uset_erase k (mSubOnChangePropIdAreaIds h1)\<rparr>))"

section \<open>Supported values, health and requests\<close>

definition getMinMaxSupportedValues ::
  "PropIdAreaId list \<Rightarrow> FakeVehicleHardware \<Rightarrow> MinMaxSupportedValueResult list" where
  "getMinMaxSupportedValues ks h = map (\<lambda>k.
     let minIt = map_of (mMinSupportedValueByPropIdAreaId h) k; maxIt = map_of (mMaxSupportedValueByPropIdAreaId h) k in
     if minIt = None \<and> maxIt = None
     then \<lparr>mm_status = INVALID_ARG, mm_minSupportedValue = None, mm_maxSupportedValue = None\<rparr>
     else \<lparr>mm_status = OK, mm_minSupportedValue = minIt, mm_maxSupportedValue = maxIt\<rparr>) ks"

definition getSupportedValuesLists ::
  "PropIdAreaId list \<Rightarrow> FakeVehicleHardware \<Rightarrow> SupportedValuesListResult list" where
  "getSupportedValuesLists ks h = map (\<lambda>k. case map_of (mSupportedValuesByPropIdAreaId h) k of
       None \<Rightarrow> \<lparr>svl_status = INVALID_ARG, svl_supportedValuesList = None\<rparr>
     | Some vs \<Rightarrow> \<lparr>svl_status = OK, svl_supportedValuesList = Some vs\<rparr>) ks"

definition checkHealth :: "FakeVehicleHardware \<Rightarrow> StatusCode" where
  "checkHealth h = OK"

definition hardwareSetValues ::
  "nat \<Rightarrow> SetValueRequest list \<Rightarrow> FakeVehicleHardware \<Rightarrow> StatusCode \<times> FakeVehicleHardware" where
  "hardwareSetValues callback requests h =
     (OK, fold (\<lambda>r h. h\<lparr>mPendingSetValueRequests := push (r, callback) (mPendingSetValueRequests h)\<rparr>) requests h)"

definition hardwareGetValues ::
  "nat \<Rightarrow> GetValueRequest list \<Rightarrow> FakeVehicleHardware \<Rightarrow> StatusCode \<times> FakeVehicleHardware" where
  "hardwareGetValues callback requests h =
     (OK, fold (\<lambda>r h. h\<lparr>mPendingGetValueRequests := push (r, callback) (mPendingGetValueRequests h)\<rparr>) requests h)"

text \<open>The hardware as an implementation of the interface.\<close>

definition fakeHardware :: "(fp \<Rightarrow> int) \<Rightarrow> FakeVehicleHardware VehicleHardware" where
  "fakeHardware undefCast = \<lparr>
     hw_getAllPropertyConfigs = getAllPropertyConfigs,
     hw_getPropertyConfig = default_getPropertyConfig getAllPropertyConfigs,
     hw_setValues = hardwareSetValues,
     hw_getValues = hardwareGetValues,
     hw_checkHealth = checkHealth,
     hw_subscribe = subscribeHardware undefCast,
     hw_unsubscribe = unsubscribeHardware,
     hw_updateSampleRate = default_updateSampleRate,
     hw_getMinMaxSupportedValues = getMinMaxSupportedValues,
     hw_getSupportedValuesLists = getSupportedValuesLists,
     hw_subscribeSupportedValueChange = default_subscribeSupportedValueChange,
     hw_unsubscribeSupportedValueChange = default_unsubscribeSupportedValueChange\<rparr>"

section \<open>Invariant of the refresh machinery\<close>

text \<open>
  Every refreshed area is in the action of its interval and in no other; an action has at least one
  area, and its closure captured its interval.
\<close>

definition actions_wf :: "FakeVehicleHardware \<Rightarrow> bool" where
  "actions_wf h \<longleftrightarrow>
     (\<forall>k info. map_of (mRefreshInfoByPropIdAreaId h) k = Some info \<longrightarrow>
        (\<exists>a. map_of (mActionByIntervalInNanos h) (ri_intervalInNanos info) = Some a \<and>
             k \<in> set (propIdAreaIdsToRefresh a))) \<and>
     (\<forall>i a. map_of (mActionByIntervalInNanos h) i = Some a \<longrightarrow>
        propIdAreaIdsToRefresh a \<noteq> [] \<and> distinct (propIdAreaIdsToRefresh a) \<and>
        (\<forall>k \<in> set (propIdAreaIdsToRefresh a). \<exists>info. map_of (mRefreshInfoByPropIdAreaId h) k = Some info \<and>
           ri_intervalInNanos info = i) \<and>
        map_of (mActionClosures h) (recurrentAction a) = Some i \<and> recurrentAction a < mNextAction h)"

text \<open>The actions that are registered after a sequence of timer calls, with their intervals.\<close>

definition applyTimerCall :: "TimerCall \<Rightarrow> (nat \<rightharpoonup> int) \<Rightarrow> (nat \<rightharpoonup> int)" where
  "applyTimerCall c m = (case c of RegisterTimer i a \<Rightarrow> m(a \<mapsto> i) | UnregisterTimer a \<Rightarrow> m(a := None))"

definition live :: "TimerCall list \<Rightarrow> nat \<rightharpoonup> int" where
  "live calls = fold applyTimerCall calls Map.empty"

text \<open>No action is registered while it is registered.\<close>

definition fresh_call :: "TimerCall \<Rightarrow> (nat \<rightharpoonup> int) \<Rightarrow> bool" where
  "fresh_call c m = (case c of RegisterTimer i a \<Rightarrow> m a = None | UnregisterTimer a \<Rightarrow> True)"

primrec fresh_calls :: "TimerCall list \<Rightarrow> (nat \<rightharpoonup> int) \<Rightarrow> bool" where
  "fresh_calls [] m = True"
| "fresh_calls (c # cs) m = (fresh_call c m \<and> fresh_calls cs (applyTimerCall c m))"

lemma applyTimerCall_simps [simp]:
  "applyTimerCall (RegisterTimer i a) m = m(a \<mapsto> i)"
  "applyTimerCall (UnregisterTimer a) m = m(a := None)"
  "fresh_call (RegisterTimer i a) m \<longleftrightarrow> m a = None"
  "fresh_call (UnregisterTimer a) m"
  by (simp_all add: applyTimerCall_def fresh_call_def)

lemma fresh_calls_append:
  "fresh_calls (cs @ ds) m \<longleftrightarrow> fresh_calls cs m \<and> fresh_calls ds (fold applyTimerCall cs m)"
  by (induction cs arbitrary: m) simp_all

lemma live_snoc [simp]: "live (cs @ [c]) = applyTimerCall c (live cs)"
  by (simp add: live_def)

definition timer_calls_wf :: "FakeVehicleHardware \<Rightarrow> bool" where
  "timer_calls_wf h \<longleftrightarrow> fresh_calls (mTimerCalls h) Map.empty \<and>
     (\<forall>a i. live (mTimerCalls h) a = Some i \<longleftrightarrow>
        (\<exists>act. map_of (mActionByIntervalInNanos h) i = Some act \<and> recurrentAction act = a))"

definition fake_wf :: "FakeVehicleHardware \<Rightarrow> bool" where
  "fake_wf h \<longleftrightarrow> actions_wf h \<and> timer_calls_wf h"

lemma fake_wf_new [simp]: "fake_wf newFakeHardware"
  by (simp add: fake_wf_def actions_wf_def timer_calls_wf_def newFakeHardware_def live_def)

lemma unregister_store [simp]:
  "mServerSidePropStore (unregisterRefreshLocked k h) = mServerSidePropStore h"
  "mSubOnChangePropIdAreaIds (unregisterRefreshLocked k h) = mSubOnChangePropIdAreaIds h"
  by (simp_all add: unregisterRefreshLocked_def Let_def split: option.splits)

lemma map_of_unregister [simp]:
  "map_of (mRefreshInfoByPropIdAreaId (unregisterRefreshLocked k h)) = (map_of (mRefreshInfoByPropIdAreaId h))(k := None)"
  by (auto simp: unregisterRefreshLocked_def Let_def split: option.splits)

lemma register_store [simp]:
  "mServerSidePropStore (registerRefreshLocked u k m r h) = mServerSidePropStore h"
  "mSubOnChangePropIdAreaIds (registerRefreshLocked u k m r h) = mSubOnChangePropIdAreaIds h"
  by (simp_all add: registerRefreshLocked_def Let_def split: option.splits)

lemma map_of_register [simp]:
  "map_of (mRefreshInfoByPropIdAreaId (registerRefreshLocked u k m r h)) =
     (map_of (mRefreshInfoByPropIdAreaId h))(k \<mapsto> \<lparr>ri_eventMode = m, ri_intervalInNanos = intervalOf u r\<rparr>)"
  by (auto simp: registerRefreshLocked_def Let_def split: option.splits)

lemma fake_wf_cong:
  assumes "map_of (mRefreshInfoByPropIdAreaId h') = map_of (mRefreshInfoByPropIdAreaId h)"
    "map_of (mActionByIntervalInNanos h') = map_of (mActionByIntervalInNanos h)"
    "mActionClosures h' = mActionClosures h" "mNextAction h' = mNextAction h" "mTimerCalls h' = mTimerCalls h"
  shows "fake_wf h' = fake_wf h"
  using assms by (simp add: fake_wf_def actions_wf_def timer_calls_wf_def)

text \<open>Removing an area from its action, as a statement about the maps.\<close>

lemma unregister_cases:
  assumes wf: "fake_wf h" and k: "map_of (mRefreshInfoByPropIdAreaId h) k = Some info"
  obtains act where "map_of (mActionByIntervalInNanos h) (ri_intervalInNanos info) = Some act"
    "set (propIdAreaIdsToRefresh act) = {k}"
    "map_of (mActionByIntervalInNanos (unregisterRefreshLocked k h)) =
       (map_of (mActionByIntervalInNanos h))(ri_intervalInNanos info := None)"
    "mTimerCalls (unregisterRefreshLocked k h) = mTimerCalls h @ [UnregisterTimer (recurrentAction act)]"
    "mActionClosures (unregisterRefreshLocked k h) = mActionClosures h"
    "mNextAction (unregisterRefreshLocked k h) = mNextAction h"
  | act where "map_of (mActionByIntervalInNanos h) (ri_intervalInNanos info) = Some act"
    "uset_erase k (propIdAreaIdsToRefresh act) \<noteq> []"
    "map_of (mActionByIntervalInNanos (unregisterRefreshLocked k h)) =
       (map_of (mActionByIntervalInNanos h))(ri_intervalInNanos info \<mapsto>
          act\<lparr>propIdAreaIdsToRefresh := uset_erase k (propIdAreaIdsToRefresh act)\<rparr>)"
    "mTimerCalls (unregisterRefreshLocked k h) = mTimerCalls h"
    "mActionClosures (unregisterRefreshLocked k h) = mActionClosures h"
    "mNextAction (unregisterRefreshLocked k h) = mNextAction h"
proof -
  obtain act where act: "map_of (mActionByIntervalInNanos h) (ri_intervalInNanos info) = Some act"
    "k \<in> set (propIdAreaIdsToRefresh act)"
    using wf k unfolding fake_wf_def actions_wf_def by blast
  show thesis
  proof (cases "uset_erase k (propIdAreaIdsToRefresh act) = []")
    case True
    then have "set (propIdAreaIdsToRefresh act) = {k}"
      using act(2) set_uset_erase [of k "propIdAreaIdsToRefresh act"] by auto
    then show thesis
      using that(1) act k True by (simp add: unregisterRefreshLocked_def Let_def)
  next
    case False
    then show thesis
      using that(2) act k by (simp add: unregisterRefreshLocked_def Let_def)
  qed
qed

text \<open>The parts of the invariant, as rules.\<close>

lemma actions_wfI:
  assumes "\<And>k info. map_of (mRefreshInfoByPropIdAreaId h) k = Some info \<Longrightarrow>
      \<exists>a. map_of (mActionByIntervalInNanos h) (ri_intervalInNanos info) = Some a \<and> k \<in> set (propIdAreaIdsToRefresh a)"
    and "\<And>i a. map_of (mActionByIntervalInNanos h) i = Some a \<Longrightarrow>
        propIdAreaIdsToRefresh a \<noteq> [] \<and> distinct (propIdAreaIdsToRefresh a)"
    and "\<And>i a. map_of (mActionByIntervalInNanos h) i = Some a \<Longrightarrow>
        map_of (mActionClosures h) (recurrentAction a) = Some i \<and> recurrentAction a < mNextAction h"
    and "\<And>i a k. \<lbrakk>map_of (mActionByIntervalInNanos h) i = Some a; k \<in> set (propIdAreaIdsToRefresh a)\<rbrakk> \<Longrightarrow>
        \<exists>info. map_of (mRefreshInfoByPropIdAreaId h) k = Some info \<and> ri_intervalInNanos info = i"
  shows "actions_wf h"
  unfolding actions_wf_def using assms by blast

lemma actions_wf_area:
  assumes "actions_wf h" "map_of (mRefreshInfoByPropIdAreaId h) k = Some info"
  obtains a where "map_of (mActionByIntervalInNanos h) (ri_intervalInNanos info) = Some a"
    "k \<in> set (propIdAreaIdsToRefresh a)"
  using assms unfolding actions_wf_def by blast

lemma actions_wf_action:
  assumes "actions_wf h" "map_of (mActionByIntervalInNanos h) i = Some a"
  shows "propIdAreaIdsToRefresh a \<noteq> []" "distinct (propIdAreaIdsToRefresh a)"
    "map_of (mActionClosures h) (recurrentAction a) = Some i" "recurrentAction a < mNextAction h"
  using assms unfolding actions_wf_def by blast+

lemma actions_wf_member:
  assumes "actions_wf h" "map_of (mActionByIntervalInNanos h) i = Some a" "k \<in> set (propIdAreaIdsToRefresh a)"
  obtains info where "map_of (mRefreshInfoByPropIdAreaId h) k = Some info" "ri_intervalInNanos info = i"
  using assms unfolding actions_wf_def by blast

lemma actions_wf_unregister:
  assumes wf: "fake_wf h"
  shows "actions_wf (unregisterRefreshLocked k h)"
proof (cases "map_of (mRefreshInfoByPropIdAreaId h) k")
  case None
  then show ?thesis using wf by (simp add: unregisterRefreshLocked_def fake_wf_def)
next
  case (Some info)
  have a: "actions_wf h" using wf by (simp add: fake_wf_def)
  from wf Some show ?thesis
  proof (cases rule: unregister_cases)
    case (1 act)
    note [simp] = 1(3,5,6)
    show ?thesis
    proof (rule actions_wfI)
      fix j i assume j: "map_of (mRefreshInfoByPropIdAreaId (unregisterRefreshLocked k h)) j = Some i"
      then have jk: "j \<noteq> k" "map_of (mRefreshInfoByPropIdAreaId h) j = Some i" by (auto split: if_splits)
      obtain b where b: "map_of (mActionByIntervalInNanos h) (ri_intervalInNanos i) = Some b"
        "j \<in> set (propIdAreaIdsToRefresh b)" using actions_wf_area [OF a jk(2)] .
      have "ri_intervalInNanos i \<noteq> ri_intervalInNanos info"
      proof
        assume "ri_intervalInNanos i = ri_intervalInNanos info"
        then have "b = act" using b(1) 1(1) by simp
        then show False using b(2) jk(1) 1(2) by simp
      qed
      then show "\<exists>a. map_of (mActionByIntervalInNanos (unregisterRefreshLocked k h)) (ri_intervalInNanos i) = Some a \<and>
          j \<in> set (propIdAreaIdsToRefresh a)" using b by simp
    next
      fix i b assume "map_of (mActionByIntervalInNanos (unregisterRefreshLocked k h)) i = Some b"
      then have b: "i \<noteq> ri_intervalInNanos info" "map_of (mActionByIntervalInNanos h) i = Some b"
        by (auto split: if_splits)
      show "propIdAreaIdsToRefresh b \<noteq> [] \<and> distinct (propIdAreaIdsToRefresh b)"
        "map_of (mActionClosures (unregisterRefreshLocked k h)) (recurrentAction b) = Some i \<and>
         recurrentAction b < mNextAction (unregisterRefreshLocked k h)"
        using actions_wf_action [OF a b(2)] by simp_all
    next
      fix i b j assume b': "map_of (mActionByIntervalInNanos (unregisterRefreshLocked k h)) i = Some b"
        and j: "j \<in> set (propIdAreaIdsToRefresh b)"
      from b' have b: "i \<noteq> ri_intervalInNanos info" "map_of (mActionByIntervalInNanos h) i = Some b"
        by (auto split: if_splits)
      obtain inf where "map_of (mRefreshInfoByPropIdAreaId h) j = Some inf" "ri_intervalInNanos inf = i"
        using actions_wf_member [OF a b(2) j] .
      then show "\<exists>inf. map_of (mRefreshInfoByPropIdAreaId (unregisterRefreshLocked k h)) j = Some inf \<and>
          ri_intervalInNanos inf = i" using Some b(1) by auto
    qed
  next
    case (2 act)
    note [simp] = 2(3,5,6)
    show ?thesis
    proof (rule actions_wfI)
      fix j i assume j: "map_of (mRefreshInfoByPropIdAreaId (unregisterRefreshLocked k h)) j = Some i"
      then have jk: "j \<noteq> k" "map_of (mRefreshInfoByPropIdAreaId h) j = Some i" by (auto split: if_splits)
      obtain b where b: "map_of (mActionByIntervalInNanos h) (ri_intervalInNanos i) = Some b"
        "j \<in> set (propIdAreaIdsToRefresh b)" using actions_wf_area [OF a jk(2)] .
      show "\<exists>a. map_of (mActionByIntervalInNanos (unregisterRefreshLocked k h)) (ri_intervalInNanos i) = Some a \<and>
          j \<in> set (propIdAreaIdsToRefresh a)"
        using b jk(1) 2(1) by (cases "ri_intervalInNanos i = ri_intervalInNanos info") auto
    next
      fix i b assume b: "map_of (mActionByIntervalInNanos (unregisterRefreshLocked k h)) i = Some b"
      show "propIdAreaIdsToRefresh b \<noteq> [] \<and> distinct (propIdAreaIdsToRefresh b)"
        "map_of (mActionClosures (unregisterRefreshLocked k h)) (recurrentAction b) = Some i \<and>
         recurrentAction b < mNextAction (unregisterRefreshLocked k h)"
        using b 2(2) actions_wf_action [OF a 2(1)] actions_wf_action [OF a, of i b]
        by (cases "i = ri_intervalInNanos info"; auto)+
    next
      fix i b j assume b: "map_of (mActionByIntervalInNanos (unregisterRefreshLocked k h)) i = Some b"
        and j: "j \<in> set (propIdAreaIdsToRefresh b)"
      show "\<exists>inf. map_of (mRefreshInfoByPropIdAreaId (unregisterRefreshLocked k h)) j = Some inf \<and>
          ri_intervalInNanos inf = i"
      proof (cases "i = ri_intervalInNanos info")
        case True
        then have "j \<noteq> k" "j \<in> set (propIdAreaIdsToRefresh act)" using b j by auto
        then show ?thesis using actions_wf_member [OF a 2(1), of j] True by auto
      next
        case False
        then have "map_of (mActionByIntervalInNanos h) i = Some b" using b by simp
        then show ?thesis using actions_wf_member [OF a _ j] Some False by fastforce
      qed
    qed
  qed
qed

lemma actions_wf_unique:
  assumes "actions_wf h" "map_of (mActionByIntervalInNanos h) i = Some a" "map_of (mActionByIntervalInNanos h) j = Some b"
    "recurrentAction a = recurrentAction b"
  shows "i = j"
  using actions_wf_action(3) [OF assms(1,2)] actions_wf_action(3) [OF assms(1,3)] assms(4) by simp

lemma timer_calls_wfD:
  assumes "timer_calls_wf h"
  shows "fresh_calls (mTimerCalls h) Map.empty"
    "live (mTimerCalls h) a = Some i \<longleftrightarrow>
       (\<exists>act. map_of (mActionByIntervalInNanos h) i = Some act \<and> recurrentAction act = a)"
  using assms unfolding timer_calls_wf_def by blast+

lemma timer_calls_wf_unregister:
  assumes wf: "fake_wf h"
  shows "timer_calls_wf (unregisterRefreshLocked k h)"
proof (cases "map_of (mRefreshInfoByPropIdAreaId h) k")
  case None
  then show ?thesis using wf by (simp add: unregisterRefreshLocked_def fake_wf_def)
next
  case (Some info)
  have a: "actions_wf h" and t: "timer_calls_wf h" using wf by (simp_all add: fake_wf_def)
  from wf Some show ?thesis
  proof (cases rule: unregister_cases)
    case (1 act)
    have "live (mTimerCalls (unregisterRefreshLocked k h)) x = Some i \<longleftrightarrow>
        (\<exists>b. map_of (mActionByIntervalInNanos (unregisterRefreshLocked k h)) i = Some b \<and> recurrentAction b = x)" for x i
    proof -
      have l: "live (mTimerCalls (unregisterRefreshLocked k h)) x = Some i \<longleftrightarrow>
          x \<noteq> recurrentAction act \<and> live (mTimerCalls h) x = Some i"
        unfolding 1(4) by simp
      have r: "map_of (mActionByIntervalInNanos (unregisterRefreshLocked k h)) i = Some b \<longleftrightarrow>
          i \<noteq> ri_intervalInNanos info \<and> map_of (mActionByIntervalInNanos h) i = Some b" for b
        unfolding 1(3) by simp
      show ?thesis
        unfolding l r timer_calls_wfD(2) [OF t]
        using actions_wf_unique [OF a 1(1), of i] 1(1) by (metis option.inject)
    qed
    moreover have "fresh_calls (mTimerCalls (unregisterRefreshLocked k h)) Map.empty"
      using timer_calls_wfD(1) [OF t] by (simp add: 1(4) fresh_calls_append)
    ultimately show ?thesis unfolding timer_calls_wf_def by blast
  next
    case (2 act)
    have "live (mTimerCalls (unregisterRefreshLocked k h)) x = Some i \<longleftrightarrow>
        (\<exists>b. map_of (mActionByIntervalInNanos (unregisterRefreshLocked k h)) i = Some b \<and> recurrentAction b = x)" for x i
      using 2(1) timer_calls_wfD(2) [OF t, of x i] unfolding 2(3,4) by auto
    moreover have "fresh_calls (mTimerCalls (unregisterRefreshLocked k h)) Map.empty"
      using timer_calls_wfD(1) [OF t] by (simp add: 2(4))
    ultimately show ?thesis unfolding timer_calls_wf_def by blast
  qed
qed

lemma fake_wf_unregister [simp]: "fake_wf h \<Longrightarrow> fake_wf (unregisterRefreshLocked k h)"
  using actions_wf_unregister timer_calls_wf_unregister unfolding fake_wf_def by blast

text \<open>Registering an area that is not refreshed; a refreshed area is unregistered first.\<close>

definition registerNew :: "PropIdAreaId \<Rightarrow> EventMode \<Rightarrow> int \<Rightarrow> FakeVehicleHardware \<Rightarrow> FakeVehicleHardware" where
  "registerNew k m interval h =
    (let h1 = h\<lparr>mRefreshInfoByPropIdAreaId := umap_put k
                \<lparr>ri_eventMode = m, ri_intervalInNanos = interval\<rparr> (mRefreshInfoByPropIdAreaId h)\<rparr> in
     case map_of (mActionByIntervalInNanos h1) interval of
       Some action \<Rightarrow>
         h1\<lparr>mActionByIntervalInNanos := umap_put interval
            (action\<lparr>propIdAreaIdsToRefresh := uset_insert k (propIdAreaIdsToRefresh action)\<rparr>)
            (mActionByIntervalInNanos h1)\<rparr>
     | None \<Rightarrow>
         let action = mNextAction h1 in
         h1\<lparr>mNextAction := action + 1,
            mActionClosures := umap_put action interval (mActionClosures h1),
            mActionByIntervalInNanos := umap_put interval
              \<lparr>propIdAreaIdsToRefresh = [k], recurrentAction = action\<rparr> (mActionByIntervalInNanos h1),
            mTimerCalls := mTimerCalls h1 @ [RegisterTimer interval action]\<rparr>)"

lemma register_as_new:
  "registerRefreshLocked u k m r h = registerNew k m (intervalOf u r) (unregisterRefreshLocked k h)"
proof -
  have "(if map_of (mRefreshInfoByPropIdAreaId h) k \<noteq> None then unregisterRefreshLocked k h else h) =
      unregisterRefreshLocked k h"
    by (simp add: unregisterRefreshLocked_def)
  then show ?thesis unfolding registerRefreshLocked_def registerNew_def Let_def by (rule arg_cong)
qed

lemma actions_wf_registerNew:
  assumes a: "actions_wf h" and k: "map_of (mRefreshInfoByPropIdAreaId h) k = None"
  shows "actions_wf (registerNew k m n h)"
proof -
  let ?h = "registerNew k m n h"
  define act where "act = (case map_of (mActionByIntervalInNanos h) n of
      Some b \<Rightarrow> b\<lparr>propIdAreaIdsToRefresh := uset_insert k (propIdAreaIdsToRefresh b)\<rparr>
    | None \<Rightarrow> \<lparr>propIdAreaIdsToRefresh = [k], recurrentAction = mNextAction h\<rparr>)"
  have acts: "map_of (mActionByIntervalInNanos ?h) = (map_of (mActionByIntervalInNanos h))(n \<mapsto> act)"
    by (simp add: act_def registerNew_def Let_def split: option.splits)
  have infos: "map_of (mRefreshInfoByPropIdAreaId ?h) =
      (map_of (mRefreshInfoByPropIdAreaId h))(k \<mapsto> \<lparr>ri_eventMode = m, ri_intervalInNanos = n\<rparr>)"
    by (simp add: registerNew_def Let_def split: option.splits)
  have old: "map_of (mActionClosures ?h) (recurrentAction b) = Some i \<and> recurrentAction b < mNextAction ?h"
    if "map_of (mActionByIntervalInNanos h) i = Some b" for i b
    using actions_wf_action(3,4) [OF a that] by (simp add: registerNew_def Let_def split: option.splits)
  have new: "map_of (mActionClosures ?h) (recurrentAction act) = Some n \<and> recurrentAction act < mNextAction ?h"
    "distinct (propIdAreaIdsToRefresh act)" "k \<in> set (propIdAreaIdsToRefresh act)"
  proof -
    show "map_of (mActionClosures ?h) (recurrentAction act) = Some n \<and> recurrentAction act < mNextAction ?h"
      using old [of n] by (cases "map_of (mActionByIntervalInNanos h) n")
        (simp_all add: act_def registerNew_def Let_def)
    show "distinct (propIdAreaIdsToRefresh act)" "k \<in> set (propIdAreaIdsToRefresh act)"
      using actions_wf_action(2) [OF a, of n] by (simp_all add: act_def split: option.splits)
  qed
  have members: "j = k \<or> (\<exists>b. map_of (mActionByIntervalInNanos h) n = Some b \<and> j \<in> set (propIdAreaIdsToRefresh b))"
    if "j \<in> set (propIdAreaIdsToRefresh act)" for j
    using that by (auto simp: act_def split: option.splits)
  have keeps: "j \<in> set (propIdAreaIdsToRefresh act)"
    if "map_of (mActionByIntervalInNanos h) n = Some b" "j \<in> set (propIdAreaIdsToRefresh b)" for j b
    using that by (simp add: act_def)
  show ?thesis
  proof (rule actions_wfI)
    fix j i assume j: "map_of (mRefreshInfoByPropIdAreaId ?h) j = Some i"
    show "\<exists>b. map_of (mActionByIntervalInNanos ?h) (ri_intervalInNanos i) = Some b \<and> j \<in> set (propIdAreaIdsToRefresh b)"
    proof (cases "j = k")
      case True
      then show ?thesis using j new(3) unfolding infos acts by auto
    next
      case False
      then have "map_of (mRefreshInfoByPropIdAreaId h) j = Some i" using j unfolding infos by simp
      then obtain b where "map_of (mActionByIntervalInNanos h) (ri_intervalInNanos i) = Some b"
        "j \<in> set (propIdAreaIdsToRefresh b)" using actions_wf_area [OF a] by blast
      then show ?thesis using keeps [of b j] unfolding acts by (cases "ri_intervalInNanos i = n") simp_all
    qed
  next
    fix i b assume b: "map_of (mActionByIntervalInNanos ?h) i = Some b"
    show "propIdAreaIdsToRefresh b \<noteq> [] \<and> distinct (propIdAreaIdsToRefresh b)"
      "map_of (mActionClosures ?h) (recurrentAction b) = Some i \<and> recurrentAction b < mNextAction ?h"
      using b new old [of i b] actions_wf_action(1,2) [OF a, of i b] unfolding acts
      by (cases "i = n"; auto)+
  next
    fix i b j assume b: "map_of (mActionByIntervalInNanos ?h) i = Some b" and j: "j \<in> set (propIdAreaIdsToRefresh b)"
    show "\<exists>inf. map_of (mRefreshInfoByPropIdAreaId ?h) j = Some inf \<and> ri_intervalInNanos inf = i"
    proof (cases "j = k \<and> i = n")
      case True
      then show ?thesis unfolding infos by simp
    next
      case False
      then obtain c where c: "map_of (mActionByIntervalInNanos h) i = Some c" "j \<in> set (propIdAreaIdsToRefresh c)"
        using b j members [of j] unfolding acts by (cases "i = n") auto
      obtain inf where "map_of (mRefreshInfoByPropIdAreaId h) j = Some inf" "ri_intervalInNanos inf = i"
        using actions_wf_member [OF a c] .
      then show ?thesis using k unfolding infos by auto
    qed
  qed
qed

lemma timer_calls_wf_registerNew:
  assumes a: "actions_wf h" and t: "timer_calls_wf h"
  shows "timer_calls_wf (registerNew k m n h)"
proof (cases "map_of (mActionByIntervalInNanos h) n")
  case None
  have less: "recurrentAction b < mNextAction h" if "map_of (mActionByIntervalInNanos h) i = Some b" for i b
    using actions_wf_action(4) [OF a that] .
  have "live (mTimerCalls h) (mNextAction h) = None"
    using timer_calls_wfD(2) [OF t, of "mNextAction h"] less by (metis not_Some_eq order.irrefl)
  then have "fresh_calls (mTimerCalls (registerNew k m n h)) Map.empty"
    using None timer_calls_wfD(1) [OF t] by (simp add: registerNew_def Let_def fresh_calls_append live_def)
  moreover have "live (mTimerCalls (registerNew k m n h)) x = Some i \<longleftrightarrow>
      (\<exists>b. map_of (mActionByIntervalInNanos (registerNew k m n h)) i = Some b \<and> recurrentAction b = x)" for x i
    using None timer_calls_wfD(2) [OF t, of x i] less [of i]
    by (auto simp: registerNew_def Let_def)
  ultimately show ?thesis unfolding timer_calls_wf_def by blast
next
  case (Some b)
  then have "live (mTimerCalls (registerNew k m n h)) x = Some i \<longleftrightarrow>
      (\<exists>b. map_of (mActionByIntervalInNanos (registerNew k m n h)) i = Some b \<and> recurrentAction b = x)" for x i
    using timer_calls_wfD(2) [OF t, of x i] by (auto simp: registerNew_def Let_def)
  moreover have "fresh_calls (mTimerCalls (registerNew k m n h)) Map.empty"
    using Some timer_calls_wfD(1) [OF t] by (simp add: registerNew_def Let_def)
  ultimately show ?thesis unfolding timer_calls_wf_def by blast
qed

lemma fake_wf_register [simp]: "fake_wf h \<Longrightarrow> fake_wf (registerRefreshLocked u k m r h)"
  unfolding register_as_new
  using actions_wf_registerNew timer_calls_wf_registerNew fake_wf_unregister map_of_unregister
  unfolding fake_wf_def by (metis fun_upd_same)

section \<open>An event of an on-change property\<close>

text \<open>
  \<^verbatim>\<open>getSubscribedClients\<close> reads the combined configuration of every event with \<^verbatim>\<open>operator[]\<close>, and so leaves an empty one behind for an
  on-change property. The next unsubscription takes it for a continuous property, whose last client is gone.
\<close>

lemma sendTo_no_config:
  assumes "contConfig (key_of v) sm = emptyContSubConfigs"
  shows "\<exists>out'. sendTo v entry (out, sm) = Some (out', touchContConfig (key_of v) sm)"
proof -
  obtain client cb where "entry = (client, cb)" by (cases entry)
  then show ?thesis using assms
    by (simp add: sendTo_def Let_def getResolutionForClient_def isVurEnabledForClient_def emptyContSubConfigs_def
        )
qed

lemma touchContConfig_twice [simp]: "touchContConfig k (touchContConfig k sm) = touchContConfig k sm"
  by (cases "map_of (mContSubConfigsByPropIdArea sm) k") (simp_all add: touchContConfig_def umap_touch_def umap_insert_def)

lemma sendToAll_no_config:
  assumes "contConfig (key_of v) sm = emptyContSubConfigs" and "cs \<noteq> []"
  shows "\<exists>out'. foldO (sendTo v) cs (out, sm) = Some (out', touchContConfig (key_of v) sm)"
  using assms
proof (induction cs arbitrary: out sm)
  case (Cons entry cs)
  obtain out1 where "sendTo v entry (out, sm) = Some (out1, touchContConfig (key_of v) sm)"
    using sendTo_no_config [OF Cons.prems(1)] by blast
  then show ?case using Cons.IH [of "touchContConfig (key_of v) sm" out1] Cons.prems(1) by (cases "cs = []") auto
qed simp

lemma routed_no_config:
  assumes "contConfig (key_of v) sm = emptyContSubConfigs" and "umap_at [] (key_of v) (mClientsByPropIdAreaId sm) \<noteq> []"
  shows "\<exists>out. getSubscribedClients [v] sm = Some (out, touchContConfig (key_of v) sm)"
proof -
  obtain cs where cs: "map_of (mClientsByPropIdAreaId sm) (key_of v) = Some cs" "cs \<noteq> []"
    using assms(2) by (auto simp: umap_at_def split: option.splits)
  obtain out where "foldO (sendTo v) cs ([], sm) = Some (out, touchContConfig (key_of v) sm)"
    using sendToAll_no_config [OF assms(1) cs(2)] by blast
  then show ?thesis using cs(1) by (simp add: getSubscribedClients_def)
qed

context vehicle_hardware
begin

text \<open>Unsubscribing from areas without a configuration, or with an empty one, of any clients.\<close>

lemma remove_empty_config:
  assumes "hw_ok (mVehicleHardware sm)" and "contConfig k sm = emptyContSubConfigs"
  shows "fst (removeContinuousSubscriberLocked hw c k sm) = Inr ()"
    and "mVehicleHardware (snd (removeContinuousSubscriberLocked hw c k sm)) =
      snd (hw_unsubscribe hw (propId k) (areaId k) (mVehicleHardware sm))"
    and "clientsOf (snd (removeContinuousSubscriberLocked hw c k sm)) = clientsOf sm"
    and "j \<noteq> k \<Longrightarrow> map_of (mContSubConfigsByPropIdArea (snd (removeContinuousSubscriberLocked hw c k sm))) j =
      map_of (mContSubConfigsByPropIdArea sm) j"
  using assms unsubscribe_ok [OF assms(1)]
  by (simp_all add: removeContinuousSubscriberLocked_def updateContSubConfigsLocked_def Let_def removeClient_def
      refresh_simps emptyContSubConfigs_def fp_eq_def fst_bindE snd_bindE umap_erase_def FLT_MAX_def)

lemma remove_no_subscription:
  assumes "hw_ok (mVehicleHardware sm)"
  shows "fst (removeOnChangeSubscriberLocked hw k sm) = Inr ()"
    and "mVehicleHardware (snd (removeOnChangeSubscriberLocked hw k sm)) \<in>
      {mVehicleHardware sm, snd (hw_unsubscribe hw (propId k) (areaId k) (mVehicleHardware sm))}"
    and "clientsOf (snd (removeOnChangeSubscriberLocked hw k sm)) = clientsOf sm"
    and "mContSubConfigsByPropIdArea (snd (removeOnChangeSubscriberLocked hw k sm)) = mContSubConfigsByPropIdArea sm"
  using unsubscribe_ok [OF assms]
  by (simp_all add: removeOnChangeSubscriberLocked_def Let_def clientsOf_def fun_eq_iff)

lemma unsubscribe_no_config:
  fixes sm :: "'h SubscriptionManager" and c k
  defines "res \<equiv> unsubscribePropIdAreaIdLocked hw c k sm"
  assumes ok: "hw_ok (mVehicleHardware sm)" and empty: "contConfig k sm = emptyContSubConfigs"
  shows "fst res = Inr () \<and> hw_ok (mVehicleHardware (snd res)) \<and>
    (\<forall>j. delivers (mVehicleHardware (snd res)) j \<longrightarrow> delivers (mVehicleHardware sm) j) \<and>
    (map_of (mContSubConfigsByPropIdArea sm) k \<noteq> None \<longrightarrow> \<not> delivers (mVehicleHardware (snd res)) k) \<and>
    (\<forall>j d. d \<noteq> c \<longrightarrow> d \<in> clientsOf (snd res) j \<longleftrightarrow> d \<in> clientsOf sm j) \<and>
    (\<forall>j. j \<noteq> k \<longrightarrow> map_of (mContSubConfigsByPropIdArea (snd res)) j = map_of (mContSubConfigsByPropIdArea sm) j)"
proof (cases "map_of (mContSubConfigsByPropIdArea sm) k")
  case None
  let ?sm = "snd (removeOnChangeSubscriberLocked hw k sm)"
  show ?thesis
  proof (cases "map_of (mClientsByPropIdAreaId sm) k")
    case None
    then show ?thesis
      using \<open>map_of (mContSubConfigsByPropIdArea sm) k = None\<close> ok by (simp add: res_def unsubscribePropIdAreaIdLocked_def)
  next
    case (Some m)
    then have res: "res = (Inr (), dropClient c k ?sm)"
      using \<open>map_of (mContSubConfigsByPropIdArea sm) k = None\<close> remove_no_subscription(1) [OF ok, of k]
      by (simp add: res_def unsubscribePropIdAreaIdLocked_def bindE_def case_prod_unfold)
    show ?thesis
      using remove_no_subscription [OF ok, of k] None hw_ok_unsubscribe [OF ok] ok unsubscribe_delivers [OF ok]
      by (auto simp: res map_of_cont_dropClient)
  qed
next
  case (Some cfg)
  let ?sm = "snd (removeContinuousSubscriberLocked hw c k sm)"
  have res: "res = (Inr (), dropClient c k ?sm)"
    using Some remove_empty_config(1) [OF ok empty, of c]
    by (simp add: res_def unsubscribePropIdAreaIdLocked_def bindE_def case_prod_unfold)
  show ?thesis
    using remove_empty_config [OF ok empty, where c = c] hw_ok_unsubscribe [OF ok] unsubscribe_delivers [OF ok]
    by (auto simp: res map_of_cont_dropClient)
qed

lemma erase_frames:
  "mVehicleHardware (eraseSubscribedProp c k sm) = mVehicleHardware sm"
  "clientsOf (eraseSubscribedProp c k sm) = clientsOf sm"
  "mContSubConfigsByPropIdArea (eraseSubscribedProp c k sm) = mContSubConfigsByPropIdArea sm"
  "mVehicleHardware (eraseIfEmpty c sm) = mVehicleHardware sm" "clientsOf (eraseIfEmpty c sm) = clientsOf sm"
  by (auto simp: eraseSubscribedProp_def eraseIfEmpty_def clientsOf_def fun_eq_iff)

lemma contConfig_cong:
  "map_of (mContSubConfigsByPropIdArea sm') j = map_of (mContSubConfigsByPropIdArea sm) j \<Longrightarrow> contConfig j sm' = contConfig j sm"
  by (simp add: contConfig_def umap_at_def)

lemma unsubscribe_list_no_config:
  fixes sm :: "'h SubscriptionManager" and c ks
  defines "res \<equiv> forE (unsubscribeOne hw c) ks sm"
  assumes "hw_ok (mVehicleHardware sm)" and "\<forall>j \<in> set ks. contConfig j sm = emptyContSubConfigs" and "distinct ks"
  shows "fst res = Inr () \<and>
    (\<forall>j. delivers (mVehicleHardware (snd res)) j \<longrightarrow> delivers (mVehicleHardware sm) j) \<and>
    (\<forall>k \<in> set ks. map_of (mContSubConfigsByPropIdArea sm) k \<noteq> None \<longrightarrow> \<not> delivers (mVehicleHardware (snd res)) k) \<and>
    (\<forall>j d. d \<noteq> c \<longrightarrow> d \<in> clientsOf (snd res) j \<longleftrightarrow> d \<in> clientsOf sm j)"
  using assms(2-4) unfolding res_def
proof (induction ks arbitrary: sm)
  case (Cons k ks)
  let ?res = "unsubscribePropIdAreaIdLocked hw c k sm"
  define sm1 where "sm1 = eraseSubscribedProp c k (snd ?res)"
  note one = unsubscribe_no_config [where sm = sm and k = k and c = c]
  have r: "unsubscribeOne hw c k sm = (Inr (), sm1)"
    using one Cons.prems(1,2) by (simp add: unsubscribeOne_def bindE_def sm1_def case_prod_unfold)
  have sm1: "hw_ok (mVehicleHardware sm1)"
    "\<And>j. j \<noteq> k \<Longrightarrow> map_of (mContSubConfigsByPropIdArea sm1) j = map_of (mContSubConfigsByPropIdArea sm) j"
    "\<And>j. delivers (mVehicleHardware sm1) j \<Longrightarrow> delivers (mVehicleHardware sm) j"
    "map_of (mContSubConfigsByPropIdArea sm) k \<noteq> None \<Longrightarrow> \<not> delivers (mVehicleHardware sm1) k"
    "\<And>j d. d \<noteq> c \<Longrightarrow> d \<in> clientsOf sm1 j \<longleftrightarrow> d \<in> clientsOf sm j"
    using one Cons.prems(1,2) by (simp_all add: sm1_def erase_frames)
  have "contConfig j sm1 = emptyContSubConfigs" if "j \<in> set ks" for j
    using Cons.prems(2,3) that contConfig_cong [OF sm1(2) [of j]] by (metis distinct.simps(2) list.set_intros(2))
  then have rest: "fst (forE (unsubscribeOne hw c) ks sm1) = Inr () \<and>
      (\<forall>j. delivers (mVehicleHardware (snd (forE (unsubscribeOne hw c) ks sm1))) j \<longrightarrow> delivers (mVehicleHardware sm1) j) \<and>
      (\<forall>k \<in> set ks. map_of (mContSubConfigsByPropIdArea sm1) k \<noteq> None \<longrightarrow>
         \<not> delivers (mVehicleHardware (snd (forE (unsubscribeOne hw c) ks sm1))) k) \<and>
      (\<forall>j d. d \<noteq> c \<longrightarrow> d \<in> clientsOf (snd (forE (unsubscribeOne hw c) ks sm1)) j \<longleftrightarrow> d \<in> clientsOf sm1 j)"
    by (intro Cons.IH) (use sm1(1) Cons.prems(3) in auto)
  have k: "k \<notin> set ks" using Cons.prems(3) by simp
  show ?case using rest sm1 k unfolding forE.simps r by simp metis
qed simp

lemma event_breaks_sync:
  assumes good: "good mode {} h sm" and mode: "\<not> mode (pv_prop v)"
    and c: "c \<in> clientsOf sm (key_of v)" "d \<in> clientsOf sm (key_of v)" "c \<noteq> d"
  shows "\<exists>out routed. getSubscribedClients [v] sm = Some (out, routed) \<and>
    fst (unsubscribe hw c [pv_prop v] routed) = Inr () \<and>
    d \<in> clientsOf (snd (unsubscribe hw c [pv_prop v] routed)) (key_of v) \<and>
    \<not> delivers (mVehicleHardware (snd (unsubscribe hw c [pv_prop v] routed))) (key_of v)"
proof -
  define routed where "routed = touchContConfig (key_of v) sm"
  have inv: "sub_inv mode {} sm" using good by (simp add: good_def)
  have none: "map_of (mContSubConfigsByPropIdArea sm) j = None" if "propId j = pv_prop v" for j
    using inv mode that unfolding sub_inv_def by (metis not_Some_eq)
  then have empty: "contConfig j sm = emptyContSubConfigs" if "propId j = pv_prop v" for j
    using that by (simp add: contConfig_def umap_at_def)
  have key: "propId (key_of v) = pv_prop v" by (simp add: key_of_def)
  have "umap_at [] (key_of v) (mClientsByPropIdAreaId sm) \<noteq> []" using c(1) by (auto simp: clientsOf_def)
  then obtain out where out: "getSubscribedClients [v] sm = Some (out, routed)"
    using routed_no_config [OF empty [OF key]] unfolding routed_def by blast
  have "key_of v \<in> propsOf sm c" using inv c(1) unfolding sub_inv_def by blast
  then obtain ks where ks: "map_of (mSubscribedPropsByClient routed) c = Some ks" "key_of v \<in> set ks"
    by (cases "map_of (mSubscribedPropsByClient sm) c") (auto simp: routed_def propsOf_def umap_at_def)
  define ks' where "ks' = filter (\<lambda>k. propId k = pv_prop v) ks"
  have ks': "key_of v \<in> set ks'" "distinct ks'" "\<forall>j \<in> set ks'. contConfig j routed = emptyContSubConfigs"
    using ks inv key empty by (auto simp: ks'_def routed_def sub_inv_def)
  have "hw_ok (mVehicleHardware routed)" using good by (simp add: routed_def good_def synced_def)
  note all = unsubscribe_list_no_config [OF this ks'(3,2), where c = c]
  have unsub: "unsubscribe hw c [pv_prop v] routed =
      (Inr (), eraseIfEmpty c (snd (forE (unsubscribeOne hw c) ks' routed)))"
    using all ks(1) by (simp add: unsubscribe_def ks'_def [symmetric] bindE_def case_prod_unfold)
  have "map_of (mContSubConfigsByPropIdArea routed) (key_of v) \<noteq> None" by (simp add: routed_def)
  then have "\<not> delivers (mVehicleHardware (snd (forE (unsubscribeOne hw c) ks' routed))) (key_of v)"
    using all ks'(1) by blast
  moreover have "d \<in> clientsOf (snd (forE (unsubscribeOne hw c) ks' routed)) (key_of v)"
    using all c(2,3) by (auto simp: routed_def)
  ultimately show ?thesis
    by (intro exI [of _ out] exI [of _ routed]) (simp add: out unsub erase_frames)
qed

end

section \<open>The hardware provides the interface\<close>

lemma isSubscribed_unregister [simp]:
  "isSubscribed (unregisterRefreshLocked k h) j \<longleftrightarrow>
     j \<noteq> k \<and> map_of (mRefreshInfoByPropIdAreaId h) j \<noteq> None \<or> j \<in> set (mSubOnChangePropIdAreaIds h)"
  by (auto simp: isSubscribed_def)

lemma isSubscribed_register [simp]:
  "isSubscribed (registerRefreshLocked u k m r h) j \<longleftrightarrow> j = k \<or> isSubscribed h j"
  by (auto simp: isSubscribed_def)

lemma fake_wf_onChange [simp]: "fake_wf (h\<lparr>mSubOnChangePropIdAreaIds := s\<rparr>) = fake_wf h"
  by (rule fake_wf_cong) simp_all

lemma isSubscribed_onChange [simp]:
  "isSubscribed (h\<lparr>mSubOnChangePropIdAreaIds := s\<rparr>) j \<longleftrightarrow>
     map_of (mRefreshInfoByPropIdAreaId h) j \<noteq> None \<or> j \<in> set s"
  by (simp add: isSubscribed_def)

lemma subscribeArea_store [simp]:
  "mServerSidePropStore (snd (subscribePropIdAreaIdLocked u p a r e config h)) = mServerSidePropStore h"
  by (simp add: subscribePropIdAreaIdLocked_def Let_def split: VehiclePropertyChangeMode.split)

lemma subscribeArea_wf: "fake_wf h \<Longrightarrow> fake_wf (snd (subscribePropIdAreaIdLocked u p a r e config h))"
  by (simp add: subscribePropIdAreaIdLocked_def Let_def split: VehiclePropertyChangeMode.split)

lemma subscribeArea_delivers:
  "fst (subscribePropIdAreaIdLocked u p a r e config h) = OK \<Longrightarrow> pc_changeMode config \<noteq> STATIC \<Longrightarrow>
     isSubscribed (snd (subscribePropIdAreaIdLocked u p a r e config h)) k \<longleftrightarrow> k = PropIdAreaId p a \<or> isSubscribed h k"
  "fst (subscribePropIdAreaIdLocked u p a r e config h) \<noteq> OK \<Longrightarrow>
     snd (subscribePropIdAreaIdLocked u p a r e config h) = h"
  by (auto simp: subscribePropIdAreaIdLocked_def Let_def isSubscribed_def
      split: VehiclePropertyChangeMode.splits if_splits)

lemma subscribeArea_ok:
  "\<not> fp_eq r (FFin 0) \<Longrightarrow> fst (subscribePropIdAreaIdLocked u p a r e config h) = OK"
  by (simp add: subscribePropIdAreaIdLocked_def Let_def split: VehiclePropertyChangeMode.split)

lemma forStatus_invariant:
  assumes "I s" "\<And>x s. I s \<Longrightarrow> I (snd (body x s))"
  shows "I (snd (forStatus body xs s))"
  using assms(1)
proof (induction xs arbitrary: s)
  case (Cons x xs)
  then have "I (snd (body x s))" using assms(2) by blast
  with Cons.IH show ?case by (auto split: prod.split)
qed simp

lemma subscribeHardware_wf: "fake_wf h \<Longrightarrow> fake_wf (snd (subscribeHardware u options h))"
  unfolding subscribeHardware_def
  by (auto split: sum.split intro!: forStatus_invariant [where I = fake_wf] subscribeArea_wf)

lemma subscribeHardware_store [simp]:
  "mServerSidePropStore (snd (subscribeHardware u options h)) = mServerSidePropStore h"
  unfolding subscribeHardware_def
  by (auto split: sum.split intro!: forStatus_invariant [where I = "\<lambda>x. mServerSidePropStore x = mServerSidePropStore h"])

lemma subscribeHardware_single:
  "so_areaIds options = [a] \<Longrightarrow> subscribeHardware u options h =
     (case getPropConfig (so_propId options) (mServerSidePropStore h) of
        Inl _ \<Rightarrow> (INVALID_ARG, h)
      | Inr config \<Rightarrow> subscribePropIdAreaIdLocked u (so_propId options) a (so_sampleRate options)
                    (so_enableVariableUpdateRate options) config h)"
  by (auto simp: subscribeHardware_def split: sum.split prod.split)

lemma unsubscribeHardware_simps [simp]:
  "fst (unsubscribeHardware p a h) = OK"
  "mServerSidePropStore (snd (unsubscribeHardware p a h)) = mServerSidePropStore h"
  "isSubscribed (snd (unsubscribeHardware p a h)) k \<longleftrightarrow> isSubscribed h k \<and> k \<noteq> PropIdAreaId p a"
  "fake_wf h \<Longrightarrow> fake_wf (snd (unsubscribeHardware p a h))"
  by (auto simp: unsubscribeHardware_def Let_def isSubscribed_def)

definition hardwareSubscribable :: "FakeVehicleHardware \<Rightarrow> int32 \<Rightarrow> bool" where
  "hardwareSubscribable h p \<longleftrightarrow> (case getPropConfig p (mServerSidePropStore h) of
     Inl _ \<Rightarrow> False | Inr config \<Rightarrow> pc_changeMode config \<noteq> STATIC)"

lemma fakeHardware_simps [simp]:
  "hw_subscribe (fakeHardware u) = subscribeHardware u"
  "hw_unsubscribe (fakeHardware u) = unsubscribeHardware"
  "hw_updateSampleRate (fakeHardware u) = default_updateSampleRate"
  "hw_subscribeSupportedValueChange (fakeHardware u) = default_subscribeSupportedValueChange"
  "hw_unsubscribeSupportedValueChange (fakeHardware u) = default_unsubscribeSupportedValueChange"
  by (simp_all add: fakeHardware_def)

interpretation fake: vehicle_hardware "fakeHardware u" isSubscribed hardwareSubscribable fake_wf for u
proof unfold_locales
  fix h k and options :: SubscribeOptions and a
  assume *: "fake_wf h" "so_areaIds options = [a]" "hardwareSubscribable h (so_propId options)"
    "fst (hw_subscribe (fakeHardware u) options h) = OK"
  then show "isSubscribed (snd (hw_subscribe (fakeHardware u) options h)) k \<longleftrightarrow>
      k = PropIdAreaId (so_propId options) a \<or> isSubscribed h k"
    by (auto simp: subscribeHardware_single hardwareSubscribable_def subscribeArea_delivers(1) split: sum.splits)
next
  fix h k and options :: SubscribeOptions and a
  assume "fake_wf h" "so_areaIds options = [a]" "fst (hw_subscribe (fakeHardware u) options h) \<noteq> OK"
  then show "isSubscribed (snd (hw_subscribe (fakeHardware u) options h)) k \<longleftrightarrow> isSubscribed h k"
    by (auto simp: subscribeHardware_single subscribeArea_delivers(2) split: sum.splits)
next
  fix h and options :: SubscribeOptions and a
  assume "fake_wf h" "so_areaIds options = [a]" "hardwareSubscribable h (so_propId options)"
    "isSubscribed h (PropIdAreaId (so_propId options) a)" "\<not> fp_eq (so_sampleRate options) (FFin 0)"
  then show "fst (hw_subscribe (fakeHardware u) options h) = OK"
    by (auto simp: subscribeHardware_single hardwareSubscribable_def subscribeArea_ok split: sum.splits)
qed (auto simp: default_updateSampleRate_def default_subscribeSupportedValueChange_def
    default_unsubscribeSupportedValueChange_def subscribeHardware_wf hardwareSubscribable_def)


section \<open>Properties\<close>

text \<open>
  Claim C2 (hardware_in_sync). The subscription manager over the reference hardware, with nothing subscribed at first: after any sequence of subscriptions,
  unsubscriptions, supported value subscriptions and routed events, the hardware reports the events of an area exactly when some client is
  subscribed to it. The operations are those that \<^verbatim>\<open>DefaultVehicleHal\<close> makes, with three restrictions: every subscription is to properties
  that the hardware knows and that are not static, each always in its own mode (\<open>mode\<close>, continuous or not); no
  sample rate is NaN; and the routed events are those of continuous properties. Without the second one or the third one the statement fails.
\<close>

theorem hardware_in_sync:
  assumes "fake_wf h" "\<And>k. \<not> isSubscribed h k"
    and "\<forall>op \<in> set ops. sub_op_fits mode (hardwareSubscribable h) op"
    and "sm = fold (run_sub_op log10f (fakeHardware u)) ops (newSubscriptionManager h)"
  shows "isSubscribed (mVehicleHardware sm) k \<longleftrightarrow> clientsOf sm k \<noteq> {}"
  using fake.run_in_sync(1) [OF assms] .

text \<open>A hardware with one on-change property, and two clients that subscribe to it.\<close>

definition sample_property :: VehiclePropConfig where
  "sample_property = \<lparr>pc_prop = 0x11400400, pc_access = READ, pc_changeMode = ON_CHANGE, pc_areaConfigs = [],
     pc_configArray = [], pc_minSampleRate = FFin 0, pc_maxSampleRate = FFin 0\<rparr>"

definition sample_hardware :: FakeVehicleHardware where
  "sample_hardware = newFakeHardware\<lparr>mServerSidePropStore := registerProperty sample_property None emptyStore\<rparr>"

definition sample_options :: SubscribeOptions where
  "sample_options = \<lparr>so_propId = 0x11400400, so_areaIds = [0], so_sampleRate = FFin 0, so_resolution = FFin 0,
     so_enableVariableUpdateRate = False\<rparr>"

definition other_callback :: VehicleCallback where
  "other_callback = \<lparr>cbPtr = 2, cbBinder = 8\<rparr>"


text \<open>Both clients subscribe; then one event is routed, and the first client unsubscribes.\<close>

definition two_clients :: "SubscriptionOp list" where
  "two_clients = [SubscribeOp sample_callback [sample_options] False, SubscribeOp other_callback [sample_options] False]"


theorem hardware_in_sync_witness:
  "isSubscribed (mVehicleHardware (fold (run_sub_op (\<lambda>x. x) (fakeHardware (\<lambda>x. 0)))
     [SubscribeOp sample_callback [sample_options] False] (newSubscriptionManager sample_hardware)))
     (PropIdAreaId 0x11400400 0) \<longleftrightarrow>
   clientsOf (fold (run_sub_op (\<lambda>x. x) (fakeHardware (\<lambda>x. 0)))
     [SubscribeOp sample_callback [sample_options] False] (newSubscriptionManager sample_hardware))
     (PropIdAreaId 0x11400400 0) \<noteq> {}"
proof (rule hardware_in_sync [where mode = "\<lambda>_. False" and h = sample_hardware])
  show "fake_wf sample_hardware"
    using fake_wf_cong [of sample_hardware newFakeHardware] by (simp add: sample_hardware_def)
  show "\<not> isSubscribed sample_hardware k" for k
    by (simp add: isSubscribed_def sample_hardware_def newFakeHardware_def)
  show "\<forall>op \<in> set [SubscribeOp sample_callback [sample_options] False].
      sub_op_fits (\<lambda>_. False) (hardwareSubscribable sample_hardware) op"
    by code_simp
qed simp

text \<open>The states of a hardware: constructed, initialised, then subscribed, unsubscribed and refreshed.\<close>

inductive fake_reachable :: "(fp \<Rightarrow> int) \<Rightarrow> FakeVehicleHardware \<Rightarrow> bool" for u where
  fake_new: "fake_reachable u newFakeHardware"
| fake_init: "fake_reachable u h \<Longrightarrow> init u now obdClock address s2r configs h = Some h' \<Longrightarrow> fake_reachable u h'"
| fake_subscribe: "fake_reachable u h \<Longrightarrow> fake_reachable u (snd (subscribeHardware u options h))"
| fake_unsubscribe: "fake_reachable u h \<Longrightarrow> fake_reachable u (snd (unsubscribeHardware p a h))"
| fake_run: "fake_reachable u h \<Longrightarrow> fake_reachable u (snd (runAction clock action h))"
| fake_set: "fake_reachable u h \<Longrightarrow> fake_reachable u (snd (hardwareSetValues callback requests h))"
| fake_get: "fake_reachable u h \<Longrightarrow> fake_reachable u (snd (hardwareGetValues callback requests' h))"

text \<open>The fields the refresh machinery owns.\<close>

definition refresh_state where
  "refresh_state h = (map_of (mRefreshInfoByPropIdAreaId h), map_of (mActionByIntervalInNanos h),
     mActionClosures h, mNextAction h, mTimerCalls h)"

lemma fake_wf_refresh_state: "refresh_state h' = refresh_state h \<Longrightarrow> fake_wf h \<Longrightarrow> fake_wf h'"
  using fake_wf_cong [of h' h] by (simp add: refresh_state_def)

lemma fold_preserves: "(\<And>x s. x \<in> set xs \<Longrightarrow> f (g x s) = f s) \<Longrightarrow> f (fold g xs s) = f s"
  by (induction xs arbitrary: s) simp_all

lemma refresh_state_storeInitial [simp]: "refresh_state (storePropInitialValue now config h) = refresh_state h"
  unfolding storePropInitialValue_def Let_def
  by (subst fold_preserves [where f = refresh_state]) (simp_all add: refresh_state_def split: option.split)

lemma refresh_state_loadSupported [simp]: "refresh_state (loadSupportedValues u config ac h) = refresh_state h"
  by (simp add: loadSupportedValues_def Let_def refresh_state_def split: option.split)

lemma refresh_state_initConfig [simp]: "refresh_state (initConfig u now s2r config h) = refresh_state h"
proof -
  have "refresh_state (fold (loadSupportedValues u config) acs g) = refresh_state g" for acs g
    by (rule fold_preserves) simp
  moreover have "refresh_state (h\<lparr>mServerSidePropStore := s\<rparr>) = refresh_state h" for s
    by (simp add: refresh_state_def)
  ultimately show ?thesis unfolding initConfig_def Let_def by simp
qed

lemma refresh_state_init:
  assumes "init u now obdClock address s2r configs h = Some h'"
  shows "refresh_state h' = refresh_state h"
proof -
  have f: "refresh_state (fold (initConfig u now s2r) configs g) = refresh_state g" for g
    by (rule fold_preserves) simp
  from assms obtain st where "h' = (fold (initConfig u now s2r) configs
      (h\<lparr>mPowerControllerServiceAddress := address\<rparr>))\<lparr>mServerSidePropStore := st\<rparr>"
    by (auto simp: init_def Let_def split: if_splits option.splits)
  then show ?thesis using f by (simp add: refresh_state_def)
qed

lemma refresh_state_requests [simp]:
  "refresh_state (snd (hardwareSetValues callback requests h)) = refresh_state h"
  "refresh_state (snd (hardwareGetValues callback requests' h)) = refresh_state h"
  unfolding hardwareSetValues_def hardwareGetValues_def snd_conv
  by (rule fold_preserves; simp add: refresh_state_def)+

lemma fold_touch_known:
  "\<forall>k \<in> set ks. map_of m k \<noteq> None \<Longrightarrow> map_of (fold (umap_touch d) ks m) = map_of m"
  by (induction ks arbitrary: m) (auto simp: map_of_umap_touch fun_eq_iff)

lemma refresh_state_run: "fake_wf h \<Longrightarrow> refresh_state (snd (runAction clock action h)) = refresh_state h"
proof (cases "map_of (mActionClosures h) action")
  case (Some interval)
  assume wf: "fake_wf h"
  show ?thesis
  proof (cases "map_of (mActionByIntervalInNanos h) interval")
    case None
    then show ?thesis using Some by (simp add: runAction_def refreshTimestampForInterval_def)
  next
    case s2: (Some act)
    have "\<forall>k \<in> set (propIdAreaIdsToRefresh act). map_of (mRefreshInfoByPropIdAreaId h) k \<noteq> None"
      using wf s2 unfolding fake_wf_def actions_wf_def by fastforce
    from fold_touch_known [OF this] show ?thesis
      using Some s2
      by (simp add: runAction_def refreshTimestampForInterval_def Let_def refresh_state_def split: prod.split)
  qed
qed (simp add: runAction_def)

text \<open>
  Claim C8 (refresh_schedule). In every state of the hardware, the recurrent timer was never asked to
  register a callback that it already runs, and it runs exactly the callbacks of the actions, each with the
  interval of its action; an area is refreshed by exactly one callback, the one of its own interval, and
  no callback is kept without an area.
\<close>

theorem refresh_schedule:
  assumes "fake_reachable u h"
  shows "fresh_calls (mTimerCalls h) Map.empty \<and>
    (\<forall>k info. map_of (mRefreshInfoByPropIdAreaId h) k = Some info \<longrightarrow>
       (\<exists>!a. live (mTimerCalls h) a = Some (ri_intervalInNanos info) \<and>
             map_of (mActionClosures h) a = Some (ri_intervalInNanos info))) \<and>
    (\<forall>a i. live (mTimerCalls h) a = Some i \<longrightarrow>
       (\<exists>k info. map_of (mRefreshInfoByPropIdAreaId h) k = Some info \<and> ri_intervalInNanos info = i))"
proof -
  have wf: "fake_wf h" using assms
  proof (induction rule: fake_reachable.induct)
    case (fake_run h clock action)
    then show ?case using fake_wf_refresh_state [OF refresh_state_run] by blast
  qed (auto simp: subscribeHardware_wf refresh_state_init intro: fake_wf_refresh_state)
  then have a: "actions_wf h" and t: "timer_calls_wf h" by (simp_all add: fake_wf_def)
  have "\<exists>!a. live (mTimerCalls h) a = Some (ri_intervalInNanos info) \<and>
      map_of (mActionClosures h) a = Some (ri_intervalInNanos info)"
    if k: "map_of (mRefreshInfoByPropIdAreaId h) k = Some info" for k info
  proof -
    obtain act where act: "map_of (mActionByIntervalInNanos h) (ri_intervalInNanos info) = Some act"
      using actions_wf_area [OF a k] .
    show ?thesis
      unfolding timer_calls_wfD(2) [OF t] using act actions_wf_action(3) [OF a act]
      by (intro ex1I [of _ "recurrentAction act"]) auto
  qed
  moreover have "\<exists>k info. map_of (mRefreshInfoByPropIdAreaId h) k = Some info \<and> ri_intervalInNanos info = i"
    if l: "live (mTimerCalls h) x = Some i" for x i
  proof -
    obtain act where act: "map_of (mActionByIntervalInNanos h) i = Some act"
      using l unfolding timer_calls_wfD(2) [OF t] by blast
    then obtain k where "k \<in> set (propIdAreaIdsToRefresh act)"
      using actions_wf_action(1) [OF a act] by fastforce
    then show ?thesis using actions_wf_member [OF a act] by metis
  qed
  ultimately show ?thesis using timer_calls_wfD(1) [OF t] by blast
qed


definition sample_hz_property :: VehiclePropConfig where
  "sample_hz_property = sample_property\<lparr>pc_prop := 0x11600207, pc_changeMode := CONTINUOUS\<rparr>"

definition initialised_hardware :: "FakeVehicleHardware option" where
  "initialised_hardware = init (\<lambda>x. 0) 1 (\<lambda>dtc. 1) [] 0 [\<lparr>cd_config = sample_hz_property, cd_initialValue = raw_default,
     cd_initialAreaValues = [], cd_supportedValuesForAreaId = []\<rparr>] newFakeHardware"

lemma initialised_reachable: "fake_reachable (\<lambda>x. 0) (the initialised_hardware)"
proof -
  have "\<not> Option.is_none initialised_hardware" by code_simp
  then have "initialised_hardware = Some (the initialised_hardware)" by (simp add: Option.is_none_def)
  then show ?thesis
    by (intro fake_init [OF fake_new, of _ 1 "\<lambda>dtc. 1" "[]" 0]) (simp only: initialised_hardware_def)
qed

definition refreshed_hardware :: FakeVehicleHardware where
  "refreshed_hardware = snd (subscribeHardware (\<lambda>x. 0)
     \<lparr>so_propId = 0x11600207, so_areaIds = [0], so_sampleRate = FFin 5, so_resolution = FFin 0,
      so_enableVariableUpdateRate = False\<rparr> (the initialised_hardware))"

theorem refresh_schedule_witness:
  "mTimerCalls refreshed_hardware = [RegisterTimer 200000000 0] \<and>
   (\<exists>!a. live (mTimerCalls refreshed_hardware) a = Some 200000000 \<and>
         map_of (mActionClosures refreshed_hardware) a = Some 200000000)"
proof
  show "mTimerCalls refreshed_hardware = [RegisterTimer 200000000 0]" by code_simp
  have i: "map_option ri_intervalInNanos
      (map_of (mRefreshInfoByPropIdAreaId refreshed_hardware) (PropIdAreaId 0x11600207 0)) = Some 200000000"
    by code_simp
  have "fake_reachable (\<lambda>x. 0) refreshed_hardware"
    unfolding refreshed_hardware_def by (intro fake_subscribe initialised_reachable)
  note sched = refresh_schedule [OF this]
  obtain info where info: "map_of (mRefreshInfoByPropIdAreaId refreshed_hardware) (PropIdAreaId 0x11600207 0) = Some info"
    "ri_intervalInNanos info = 200000000"
    using i by auto
  have "\<exists>!a. live (mTimerCalls refreshed_hardware) a = Some (ri_intervalInNanos info) \<and>
      map_of (mActionClosures refreshed_hardware) a = Some (ri_intervalInNanos info)"
    using sched info(1) by blast
  then show "\<exists>!a. live (mTimerCalls refreshed_hardware) a = Some 200000000 \<and>
      map_of (mActionClosures refreshed_hardware) a = Some 200000000"
    unfolding info(2) .
qed

end
