(* ===== verification/Pending_Requests.thy ===== *)
theory Pending_Requests
  imports Vehicle_Utils
begin

text \<open>
  \<^verbatim>\<open>utils/common/PendingRequestPool\<close>: the requests a client has sent to the hardware and that were
  neither answered nor timed out. \<open>addRequests\<close> takes the clock reading as an argument; the timeout
  thread is the operation \<open>checkTimeout\<close>, which may run between any two calls, and the callbacks it
  invokes are its result. A client identifier (\<^verbatim>\<open>const void*\<close>) is a number; the type of the callbacks
  is left open.
\<close>

section \<open>State\<close>

type_synonym ClientId = nat

record 'f PendingRequest =
  requestIds :: "int uset"
  timeoutTimestamp :: int
  callback :: 'f

record 'f PendingRequestPool =
  mTimeoutInNano :: int
  mPendingRequestsByClient :: "(ClientId, 'f PendingRequest list) umap"

definition MAX_PENDING_REQUEST_PER_CLIENT :: nat where
  "MAX_PENDING_REQUEST_PER_CLIENT = 10000"

definition newPool :: "int \<Rightarrow> 'f PendingRequestPool" where
  "newPool timeoutInNano = \<lparr>mTimeoutInNano = timeoutInNano, mPendingRequestsByClient = []\<rparr>"

section \<open>Operations\<close>

definition countIds :: "'f PendingRequest list \<Rightarrow> nat" where
  "countIds reqs = sum_list (map (\<lambda>r. length (requestIds r)) reqs)"

text \<open>\<^verbatim>\<open>size_t\<close> subtraction.\<close>

definition size_sub :: "nat \<Rightarrow> nat \<Rightarrow> nat" where
  "size_sub a b = nat ((int a - int b) mod 2 ^ 64)"

definition duplicateId :: "int uset \<Rightarrow> 'f PendingRequest list \<Rightarrow> bool" where
  "duplicateId ids reqs = (\<exists>r \<in> set reqs. \<exists>i \<in> set ids. i \<in> set (requestIds r))"

text \<open>The list of the client is created before the size check, so it stays when that check fails.\<close>

definition addRequests ::
  "int \<Rightarrow> ClientId \<Rightarrow> int uset \<Rightarrow> 'f \<Rightarrow> 'f PendingRequestPool \<Rightarrow> unit VhalResult \<times> 'f PendingRequestPool" where
  "addRequests now client ids cb st =
    (let m = mPendingRequestsByClient st in
     if map_of m client \<noteq> None \<and> duplicateId ids (umap_at [] client m) then (Inl INVALID_ARG, st)
     else
       let m1 = umap_touch [] client m;
           pendingRequests = umap_at [] client m;
           pendingRequestCount = countIds pendingRequests in
       if length ids > size_sub MAX_PENDING_REQUEST_PER_CLIENT pendingRequestCount
       then (Inl TRY_AGAIN, st\<lparr>mPendingRequestsByClient := m1\<rparr>)
       else
         let req = \<lparr>requestIds = ids, timeoutTimestamp = now + mTimeoutInNano st, callback = cb\<rparr> in
         (Inr (), st\<lparr>mPendingRequestsByClient := umap_put client (pendingRequests @ [req]) m1\<rparr>))"

definition isRequestPending :: "ClientId \<Rightarrow> int \<Rightarrow> 'f PendingRequestPool \<Rightarrow> bool" where
  "isRequestPending client i st = (case map_of (mPendingRequestsByClient st) client of
     None \<Rightarrow> False | Some reqs \<Rightarrow> (\<exists>r \<in> set reqs. i \<in> set (requestIds r)))"

definition countPendingRequests :: "'f PendingRequestPool \<Rightarrow> nat" where
  "countPendingRequests st = sum_list (map (\<lambda>(_, reqs). countIds reqs) (mPendingRequestsByClient st))"

definition countPendingRequestsOf :: "ClientId \<Rightarrow> 'f PendingRequestPool \<Rightarrow> nat" where
  "countPendingRequestsOf client st = (case map_of (mPendingRequestsByClient st) client of
     None \<Rightarrow> 0 | Some reqs \<Rightarrow> countIds reqs)"

text \<open>
  \<open>checkTimeout\<close> pops the requests of each client from the front until one is not overdue, erases the
  clients that have none left, and then calls the callbacks.
\<close>

definition overdue :: "int \<Rightarrow> 'f PendingRequest \<Rightarrow> bool" where
  "overdue now r \<longleftrightarrow> \<not> timeoutTimestamp r \<ge> now"

definition checkTimeout ::
  "int \<Rightarrow> 'f PendingRequestPool \<Rightarrow> ('f \<times> int uset) list \<times> 'f PendingRequestPool" where
  "checkTimeout now st =
    (let m = mPendingRequestsByClient st;
         timeoutRequests = concat (map (\<lambda>(_, reqs). takeWhile (overdue now) reqs) m);
         m1 = map (\<lambda>(client, reqs). (client, dropWhile (overdue now) reqs)) m;
         clientsWithEmptyRequests = map fst (filter (\<lambda>(_, reqs). reqs = []) m1);
         m2 = fold umap_erase clientsWithEmptyRequests m1 in
     (map (\<lambda>r. (callback r, requestIds r)) timeoutRequests, st\<lparr>mPendingRequestsByClient := m2\<rparr>))"

fun finishIds :: "int uset \<Rightarrow> int uset \<Rightarrow> int uset \<Rightarrow> int uset \<times> int uset" where
  "finishIds [] pendingIds found = (pendingIds, found)"
| "finishIds (i # ids) pendingIds found =
     (if i \<in> set pendingIds then finishIds ids (uset_erase i pendingIds) (uset_insert i found)
      else finishIds ids pendingIds found)"

fun finishAll ::
  "int uset \<Rightarrow> 'f PendingRequest list \<Rightarrow> int uset \<Rightarrow> 'f PendingRequest list \<times> int uset" where
  "finishAll ids [] found = ([], found)"
| "finishAll ids (r # rs) found =
     (let (p, found1) = finishIds ids (requestIds r) found;
          (rs', found2) = finishAll ids rs found1 in
      (if p = [] then rs' else r\<lparr>requestIds := p\<rparr> # rs', found2))"

definition tryFinishRequests ::
  "ClientId \<Rightarrow> int uset \<Rightarrow> 'f PendingRequestPool \<Rightarrow> int uset \<times> 'f PendingRequestPool" where
  "tryFinishRequests client ids st =
    (case map_of (mPendingRequestsByClient st) client of
       None \<Rightarrow> ([], st)
     | Some reqs \<Rightarrow>
       let (reqs', found) = finishAll ids reqs [] in
       (found, st\<lparr>mPendingRequestsByClient := umap_put client reqs' (mPendingRequestsByClient st)\<rparr>))"

text \<open>The destructor sends every remaining request as timed out.\<close>

definition destroyPool :: "'f PendingRequestPool \<Rightarrow> ('f \<times> int uset) list \<times> 'f PendingRequestPool" where
  "destroyPool st =
    (concat (map (\<lambda>(_, reqs). map (\<lambda>r. (callback r, requestIds r)) reqs) (mPendingRequestsByClient st)),
     st\<lparr>mPendingRequestsByClient := []\<rparr>)"

section \<open>Abstract view and invariant\<close>

definition requestsOf :: "'f PendingRequestPool \<Rightarrow> ClientId \<Rightarrow> 'f PendingRequest list" where
  "requestsOf st client = umap_at [] client (mPendingRequestsByClient st)"

definition idsOf :: "'f PendingRequest list \<Rightarrow> int list" where
  "idsOf reqs = concat (map requestIds reqs)"

definition pendingIds :: "'f PendingRequestPool \<Rightarrow> ClientId \<Rightarrow> int set" where
  "pendingIds st client = set (idsOf (requestsOf st client))"

text \<open>No identifier is pending twice for a client, and no client has more than the allowed number.\<close>

definition pool_wf :: "'f PendingRequestPool \<Rightarrow> bool" where
  "pool_wf st \<longleftrightarrow> umap_wf (mPendingRequestsByClient st) \<and>
     (\<forall>c. distinct (idsOf (requestsOf st c)) \<and>
          countIds (requestsOf st c) \<le> MAX_PENDING_REQUEST_PER_CLIENT)"

text \<open>The requests of a client were appended in the order of their deadlines, all set before \<open>now\<close>.\<close>

definition pool_ordered :: "int \<Rightarrow> 'f PendingRequestPool \<Rightarrow> bool" where
  "pool_ordered now st \<longleftrightarrow> (\<forall>c. sorted (map timeoutTimestamp (requestsOf st c)) \<and>
     (\<forall>r \<in> set (requestsOf st c). timeoutTimestamp r \<le> now + mTimeoutInNano st))"

lemma countIds_length: "countIds reqs = length (idsOf reqs)"
  by (induction reqs) (auto simp: countIds_def idsOf_def)

lemma idsOf_simps [simp]:
  "idsOf [] = []" "idsOf (r # rs) = requestIds r @ idsOf rs" "idsOf (rs @ rs') = idsOf rs @ idsOf rs'"
  by (simp_all add: idsOf_def)

lemma set_idsOf: "i \<in> set (idsOf reqs) \<longleftrightarrow> (\<exists>r \<in> set reqs. i \<in> set (requestIds r))"
  by (auto simp: idsOf_def)

lemma isRequestPending_iff: "isRequestPending c i st \<longleftrightarrow> i \<in> pendingIds st c"
  by (auto simp: isRequestPending_def pendingIds_def set_idsOf requestsOf_def umap_at_def
      split: option.splits)

lemma duplicateId_iff: "duplicateId ids reqs \<longleftrightarrow> set ids \<inter> set (idsOf reqs) \<noteq> {}"
  by (auto simp: duplicateId_def idsOf_def)

lemma countPendingRequestsOf_card:
  "pool_wf st \<Longrightarrow> countPendingRequestsOf c st = card (pendingIds st c)"
  by (auto simp: countPendingRequestsOf_def pendingIds_def requestsOf_def pool_wf_def umap_at_def
      countIds_length distinct_card split: option.splits)

lemma size_sub_le [simp]: "b \<le> a \<Longrightarrow> a < 2 ^ 64 \<Longrightarrow> size_sub a b = a - b"
proof -
  assume le: "b \<le> a" and a: "a < 2 ^ 64"
  have "int a < 2 ^ 64" using a by (metis of_nat_less_numeral_power_cancel_iff)
  then have "(int a - int b) mod 2 ^ 64 = int a - int b"
    using le by (intro mod_pos_pos_trivial) auto
  then show ?thesis by (simp add: size_sub_def)
qed

lemma pool_new [simp]: "pool_wf (newPool t)" "pool_ordered now (newPool t)"
  by (simp_all add: newPool_def pool_wf_def pool_ordered_def requestsOf_def umap_at_def
      countIds_def)

lemma requestsOf_update [simp]:
  "requestsOf (st\<lparr>mPendingRequestsByClient := m\<rparr>) c = umap_at [] c m"
  by (simp add: requestsOf_def)

lemma map_of_fold_erase:
  "map_of (fold umap_erase ks m) k = (if k \<in> set ks then None else map_of m k)"
  by (induction ks arbitrary: m) auto

lemma umap_wf_fold_erase: "umap_wf m \<Longrightarrow> umap_wf (fold umap_erase ks m)"
  by (induction ks arbitrary: m) auto

section \<open>Behaviour of the operations\<close>

lemma finishIds_pending: "fst (finishIds ids p f) = filter (\<lambda>i. i \<notin> set ids) p"
proof (induction ids p f rule: finishIds.induct)
  case (2 i ids p f)
  then show ?case
    by (auto simp: uset_erase_def removeAll_filter_not_eq intro!: filter_cong)
qed simp

lemma finishIds_found: "set (snd (finishIds ids p f)) = set f \<union> set ids \<inter> set p"
  by (induction ids p f rule: finishIds.induct) auto

lemma finishIds_distinct: "distinct f \<Longrightarrow> distinct (snd (finishIds ids p f))"
  by (induction ids p f rule: finishIds.induct) auto

lemma finishAll_ids: "idsOf (fst (finishAll ids rs f)) = filter (\<lambda>i. i \<notin> set ids) (idsOf rs)"
proof (induction ids rs f rule: finishAll.induct)
  case (2 ids r rs f)
  obtain p f1 where f: "finishIds ids (requestIds r) f = (p, f1)" by fastforce
  then have "p = filter (\<lambda>i. i \<notin> set ids) (requestIds r)"
    using finishIds_pending [of ids "requestIds r" f] by simp
  then show ?case using 2 f by (auto split: prod.splits)
qed simp

lemma finishAll_found: "set (snd (finishAll ids rs f)) = set f \<union> set ids \<inter> set (idsOf rs)"
proof (induction ids rs f rule: finishAll.induct)
  case (2 ids r rs f)
  obtain p f1 where f: "finishIds ids (requestIds r) f = (p, f1)" by fastforce
  have "set f1 = set f \<union> set ids \<inter> set (requestIds r)"
    using finishIds_found [of ids "requestIds r" f] f by simp
  then show ?case using 2 [OF f [symmetric] refl] f by (auto split: prod.splits)
qed simp

lemma finishAll_distinct: "distinct f \<Longrightarrow> distinct (snd (finishAll ids rs f))"
proof (induction ids rs f rule: finishAll.induct)
  case (2 ids r rs f)
  obtain p f1 where f: "finishIds ids (requestIds r) f = (p, f1)" by fastforce
  have "distinct f1" using finishIds_distinct [of f ids "requestIds r"] f 2 by simp
  then show ?case using 2 f by (auto split: prod.splits)
qed simp

lemma finishAll_from:
  "r' \<in> set (fst (finishAll ids rs f)) \<Longrightarrow>
     \<exists>r \<in> set rs. timeoutTimestamp r' = timeoutTimestamp r \<and> callback r' = callback r"
  by (induction ids rs f rule: finishAll.induct)
    (fastforce simp: Let_def split: prod.splits if_splits)+

lemma finishAll_sorted:
  "sorted (map timeoutTimestamp rs) \<Longrightarrow> sorted (map timeoutTimestamp (fst (finishAll ids rs f)))"
proof (induction ids rs f rule: finishAll.induct)
  case (2 ids r rs f)
  obtain p f1 where f: "finishIds ids (requestIds r) f = (p, f1)" by fastforce
  have "\<forall>r' \<in> set (fst (finishAll ids rs f1)). timeoutTimestamp r \<le> timeoutTimestamp r'"
    using finishAll_from [of _ ids rs f1] 2 by fastforce
  then show ?case using 2 f by (auto split: prod.splits)
qed simp

lemma requestsOf_finish:
  "requestsOf (snd (tryFinishRequests c ids st)) c' =
     (if c' = c then fst (finishAll ids (requestsOf st c) []) else requestsOf st c')"
  by (auto simp: tryFinishRequests_def requestsOf_def umap_at_def split: option.splits prod.splits)

lemma tryFinish_found:
  "set (fst (tryFinishRequests c ids st)) = set ids \<inter> pendingIds st c"
  "distinct (fst (tryFinishRequests c ids st))"
  using finishAll_found [of ids "requestsOf st c" "[]"] finishAll_distinct [of "[]" ids "requestsOf st c"]
  by (auto simp: tryFinishRequests_def requestsOf_def pendingIds_def split: option.splits prod.splits)

lemma tryFinish_pending:
  "pendingIds (snd (tryFinishRequests c ids st)) c' =
     (if c' = c then pendingIds st c - set ids else pendingIds st c')"
  by (auto simp: pendingIds_def requestsOf_finish finishAll_ids)

lemma tryFinish_wf: "pool_wf st \<Longrightarrow> pool_wf (snd (tryFinishRequests c ids st))"
proof -
  assume wf: "pool_wf st"
  have "umap_wf (mPendingRequestsByClient (snd (tryFinishRequests c ids st)))"
    using wf by (auto simp: tryFinishRequests_def pool_wf_def split: option.splits prod.splits)
  then show ?thesis
    using wf unfolding pool_wf_def countIds_length
    by (auto simp: requestsOf_finish finishAll_ids intro: order_trans [OF length_filter_le])
qed

lemma addRequests_error:
  assumes "fst (addRequests now c ids cb st) = Inl e"
  shows "requestsOf (snd (addRequests now c ids cb st)) c' = requestsOf st c'"
  using assms
  by (cases "map_of (mPendingRequestsByClient st) c")
    (auto simp: addRequests_def Let_def requestsOf_def split: if_splits)

lemma addRequests_accepted:
  assumes "fst (addRequests now c ids cb st) = Inr ()"
  shows "requestsOf (snd (addRequests now c ids cb st)) c' =
    (if c' = c then requestsOf st c @ [\<lparr>requestIds = ids,
        timeoutTimestamp = now + mTimeoutInNano st, callback = cb\<rparr>]
     else requestsOf st c')"
  using assms by (auto simp: addRequests_def Let_def requestsOf_def split: if_splits)

lemma addRequests_result:
  assumes "pool_wf st"
  shows "fst (addRequests now c ids cb st) =
    (if set ids \<inter> pendingIds st c \<noteq> {} then Inl INVALID_ARG
     else if card (pendingIds st c) + length ids > MAX_PENDING_REQUEST_PER_CLIENT then Inl TRY_AGAIN
     else Inr ())"
proof -
  have n: "countIds (umap_at [] c (mPendingRequestsByClient st)) \<le> MAX_PENDING_REQUEST_PER_CLIENT"
    and d: "distinct (idsOf (umap_at [] c (mPendingRequestsByClient st)))"
    using assms by (auto simp: pool_wf_def requestsOf_def)
  have "MAX_PENDING_REQUEST_PER_CLIENT < 2 ^ 64"
    by (simp add: MAX_PENDING_REQUEST_PER_CLIENT_def)
  then show ?thesis
    using n d by (auto simp: addRequests_def Let_def pendingIds_def requestsOf_def duplicateId_iff
        countIds_length distinct_card umap_at_def split: if_splits option.splits)
qed

lemma addRequests_fields [simp]:
  "mTimeoutInNano (snd (addRequests now c ids cb st)) = mTimeoutInNano st"
  "mTimeoutInNano (snd (tryFinishRequests c ids st)) = mTimeoutInNano st"
  "mTimeoutInNano (snd (checkTimeout now st)) = mTimeoutInNano st"
  by (auto simp: addRequests_def tryFinishRequests_def checkTimeout_def Let_def
      split: option.splits prod.splits)

lemma addRequests_wf:
  assumes wf: "pool_wf st" and d: "distinct ids"
  shows "pool_wf (snd (addRequests now c ids cb st))"
proof -
  have u: "umap_wf (mPendingRequestsByClient (snd (addRequests now c ids cb st)))"
    using wf by (auto simp: addRequests_def Let_def pool_wf_def)
  show ?thesis
  proof (cases "fst (addRequests now c ids cb st)")
    case (Inl e)
    with u wf addRequests_error [OF Inl] show ?thesis by (simp add: pool_wf_def)
  next
    case (Inr r)
    then have ok: "fst (addRequests now c ids cb st) = Inr ()" by simp
    have dc: "distinct (idsOf (requestsOf st c))" using wf by (simp add: pool_wf_def)
    have "set ids \<inter> set (idsOf (requestsOf st c)) = {}"
      "length (idsOf (requestsOf st c)) + length ids \<le> MAX_PENDING_REQUEST_PER_CLIENT"
      using addRequests_result [OF wf, of now c ids cb] ok distinct_card [OF dc]
      by (auto simp: pendingIds_def split: if_splits)
    then show ?thesis
      using u wf d addRequests_accepted [OF ok] by (auto simp: pool_wf_def countIds_length)
  qed
qed

lemma requestsOf_checkTimeout:
  assumes "pool_wf st"
  shows "requestsOf (snd (checkTimeout now st)) c = dropWhile (overdue now) (requestsOf st c)"
proof -
  define m where "m = mPendingRequestsByClient st"
  define m1 where "m1 = map (\<lambda>(client, reqs). (client, dropWhile (overdue now) reqs)) m"
  have wf1: "umap_wf m1"
    using assms by (simp add: pool_wf_def umap_wf_def m1_def m_def case_prod_unfold comp_def)
  have at: "umap_at [] c m1 = dropWhile (overdue now) (umap_at [] c m)"
    by (auto simp: m1_def umap_at_def map_of_map split: option.splits)
  have "umap_at [] c (fold umap_erase (map fst (filter (\<lambda>(_, reqs). reqs = []) m1)) m1) = umap_at [] c m1"
    using umap_wf_in_set [OF wf1] by (force simp: umap_at_def map_of_fold_erase split: option.splits)
  then show ?thesis
    using at by (simp add: checkTimeout_def Let_def requestsOf_def m_def [symmetric] m1_def [symmetric])
qed

lemma checkTimeout_wf: "pool_wf st \<Longrightarrow> pool_wf (snd (checkTimeout now st))"
proof -
  assume wf: "pool_wf st"
  have u: "umap_wf (mPendingRequestsByClient (snd (checkTimeout now st)))"
    using wf by (simp add: checkTimeout_def Let_def pool_wf_def umap_wf_def [of "map _ _"]
        umap_wf_def [of "mPendingRequestsByClient st"] umap_wf_fold_erase case_prod_unfold comp_def)
  have "distinct (idsOf (dropWhile P reqs)) \<and> countIds (dropWhile P reqs) \<le> countIds reqs"
    if "distinct (idsOf reqs)" for P and reqs :: "'a PendingRequest list"
    using that by (induction reqs) (auto simp: countIds_length)
  then show ?thesis
    using wf u unfolding pool_wf_def
    by (auto simp: requestsOf_checkTimeout [OF wf] intro: order_trans)
qed

lemma concat_one_key:
  "umap_wf m \<Longrightarrow> g [] = [] \<Longrightarrow>
     concat (map (\<lambda>(k, reqs). if k = c then g reqs else []) m) = g (umap_at [] c m)"
proof (induction m)
  case (Cons a m)
  obtain k reqs where a: "a = (k, reqs)" by (cases a)
  have "umap_wf m" using Cons.prems by (simp add: umap_wf_def)
  moreover have "map_of m k = None" using Cons.prems a by (simp add: umap_wf_def map_of_eq_None_iff)
  ultimately show ?case using Cons a by (auto simp: umap_at_def)
qed (simp add: umap_at_def)

text \<open>Every pending request of a client carries the timeout callback of that client.\<close>

definition pool_owned :: "ClientId PendingRequestPool \<Rightarrow> bool" where
  "pool_owned st \<longleftrightarrow> (\<forall>c. \<forall>r \<in> set (requestsOf st c). callback r = c)"

lemma checkTimeout_calls:
  assumes wf: "pool_wf st" and own: "pool_owned st"
  shows "filter (\<lambda>x. fst x = c) (fst (checkTimeout now st)) =
    map (\<lambda>r. (callback r, requestIds r)) (takeWhile (overdue now) (requestsOf st c))"
proof -
  define m where "m = mPendingRequestsByClient st"
  have wfm: "umap_wf m" using wf by (simp add: m_def pool_wf_def)
  have one: "filter (\<lambda>r. callback r = c) (takeWhile (overdue now) reqs) =
      (if k = c then takeWhile (overdue now) reqs else [])" if "(k, reqs) \<in> set m" for k reqs
  proof -
    have "\<forall>r \<in> set reqs. callback r = k"
      using own that umap_wf_in_set [OF wfm, of k reqs]
      by (fastforce simp: pool_owned_def requestsOf_def m_def)
    then have "\<forall>r \<in> set (takeWhile (overdue now) reqs). callback r = k"
      by (meson set_takeWhileD)
    then show ?thesis by (auto simp: filter_id_conv filter_empty_conv)
  qed
  have "filter (\<lambda>r. callback r = c) (concat (map (\<lambda>(_, reqs). takeWhile (overdue now) reqs) m)) =
      concat (map (\<lambda>(k, reqs). if k = c then takeWhile (overdue now) reqs else []) m)"
    unfolding filter_concat map_map comp_def
    by (rule arg_cong [of _ _ concat], rule map_cong) (auto simp: one)
  also have "\<dots> = takeWhile (overdue now) (requestsOf st c)"
    using concat_one_key [OF wfm, of "takeWhile (overdue now)" c] by (simp add: requestsOf_def m_def)
  finally show ?thesis
    by (simp add: checkTimeout_def Let_def m_def [symmetric] filter_map comp_def)
qed

lemma addRequests_owned: "pool_owned st \<Longrightarrow> pool_owned (snd (addRequests now c ids c st))"
  by (cases "fst (addRequests now c ids c st)")
    (auto simp: pool_owned_def addRequests_error addRequests_accepted)

lemma tryFinish_owned: "pool_owned st \<Longrightarrow> pool_owned (snd (tryFinishRequests c ids st))"
  using finishAll_from by (fastforce simp: pool_owned_def requestsOf_finish split: if_splits)

lemma checkTimeout_owned: "pool_wf st \<Longrightarrow> pool_owned st \<Longrightarrow> pool_owned (snd (checkTimeout now st))"
  by (auto simp: pool_owned_def requestsOf_checkTimeout dest: set_dropWhileD)

section \<open>The contract of a request pool\<close>

text \<open>
  What \<^verbatim>\<open>DefaultVehicleHal\<close> relies on: an accepted identifier becomes pending, finishing returns exactly
  the given identifiers that are pending, expiring reports what it removes.
\<close>

definition expired :: "ClientId \<Rightarrow> (ClientId \<times> int list) list \<Rightarrow> int list" where
  "expired c out = concat (map snd (filter (\<lambda>x. fst x = c) out))"

datatype PoolOp = AddOp int ClientId "int list" | FinishOp ClientId "int list" | ExpireOp int

fun op_ok :: "PoolOp \<Rightarrow> bool" where
  "op_ok (AddOp _ _ ids) = distinct ids"
| "op_ok _ = True"

text \<open>One operation: the requests it accepted, the requests it answered, the pool afterwards.\<close>

fun pool_step ::
  "(int \<Rightarrow> ClientId \<Rightarrow> int list \<Rightarrow> 'p \<Rightarrow> unit VhalResult \<times> 'p) \<Rightarrow>
   (ClientId \<Rightarrow> int list \<Rightarrow> 'p \<Rightarrow> int list \<times> 'p) \<Rightarrow>
   (int \<Rightarrow> 'p \<Rightarrow> (ClientId \<times> int list) list \<times> 'p) \<Rightarrow> PoolOp \<Rightarrow> 'p \<Rightarrow>
   (ClientId \<times> int) list \<times> (ClientId \<times> int) list \<times> 'p" where
  "pool_step add finish expire (AddOp now c ids) p = (case add now c ids p of
     (Inl _, p') \<Rightarrow> ([], [], p') | (Inr _, p') \<Rightarrow> (map (Pair c) ids, [], p'))"
| "pool_step add finish expire (FinishOp c ids) p = (case finish c ids p of
     (found, p') \<Rightarrow> ([], map (Pair c) found, p'))"
| "pool_step add finish expire (ExpireOp now) p = (case expire now p of
     (out, p') \<Rightarrow> ([], concat (map (\<lambda>(c, ids). map (Pair c) ids) out), p'))"

fun pool_run ::
  "(int \<Rightarrow> ClientId \<Rightarrow> int list \<Rightarrow> 'p \<Rightarrow> unit VhalResult \<times> 'p) \<Rightarrow>
   (ClientId \<Rightarrow> int list \<Rightarrow> 'p \<Rightarrow> int list \<times> 'p) \<Rightarrow>
   (int \<Rightarrow> 'p \<Rightarrow> (ClientId \<times> int list) list \<times> 'p) \<Rightarrow> PoolOp list \<Rightarrow> 'p \<Rightarrow>
   (ClientId \<times> int) list \<times> (ClientId \<times> int) list \<times> 'p" where
  "pool_run add finish expire [] p = ([], [], p)"
| "pool_run add finish expire (op # ops) p =
     (let (acc, ans, p1) = pool_step add finish expire op p;
          (acc', ans', p2) = pool_run add finish expire ops p1 in (acc @ acc', ans @ ans', p2))"

lemma count_list_map_Pair:
  "count_list (map (Pair c') xs) (c, i) = (if c' = c then count_list xs i else 0)"
  by (induction xs) auto

lemma count_list_distinct: "distinct xs \<Longrightarrow> count_list xs x = (if x \<in> set xs then 1 else 0)"
  by (induction xs) (auto simp: count_list_0_iff)

lemma count_list_expired:
  "count_list (concat (map (\<lambda>(c, ids). map (Pair c) ids) out)) (c, i) = count_list (expired c out) i"
  by (induction out) (auto simp: expired_def count_list_append count_list_map_Pair)

locale request_pool =
  fixes pending :: "'p \<Rightarrow> ClientId \<Rightarrow> int set"
    and add :: "int \<Rightarrow> ClientId \<Rightarrow> int list \<Rightarrow> 'p \<Rightarrow> unit VhalResult \<times> 'p"
    and finish :: "ClientId \<Rightarrow> int list \<Rightarrow> 'p \<Rightarrow> int list \<times> 'p"
    and expire :: "int \<Rightarrow> 'p \<Rightarrow> (ClientId \<times> int list) list \<times> 'p"
    and ok :: "'p \<Rightarrow> bool"
  assumes add_ok: "ok p \<Longrightarrow> distinct ids \<Longrightarrow> ok (snd (add now c ids p))"
    and add_accepted: "ok p \<Longrightarrow> distinct ids \<Longrightarrow> fst (add now c ids p) = Inr () \<Longrightarrow>
      set ids \<inter> pending p c = {} \<and>
      pending (snd (add now c ids p)) c' = (if c' = c then pending p c \<union> set ids else pending p c')"
    and add_rejected: "ok p \<Longrightarrow> fst (add now c ids p) = Inl e \<Longrightarrow>
      pending (snd (add now c ids p)) c' = pending p c'"
    and finish_ok: "ok p \<Longrightarrow> ok (snd (finish c ids p))"
    and finish_found: "ok p \<Longrightarrow> distinct (fst (finish c ids p)) \<and>
      set (fst (finish c ids p)) = set ids \<inter> pending p c"
    and finish_pending: "ok p \<Longrightarrow>
      pending (snd (finish c ids p)) c' = (if c' = c then pending p c - set ids else pending p c')"
    and expire_ok: "ok p \<Longrightarrow> ok (snd (expire now p))"
    and expire_pending: "ok p \<Longrightarrow> distinct (expired c (fst (expire now p))) \<and>
      set (expired c (fst (expire now p))) \<subseteq> pending p c \<and>
      pending (snd (expire now p)) c = pending p c - set (expired c (fst (expire now p)))"
begin

lemma step_ok: "ok p \<Longrightarrow> op_ok op \<Longrightarrow> ok (snd (snd (pool_step add finish expire op p)))"
  by (cases op) (auto split: prod.splits sum.splits dest: add_ok finish_ok expire_ok
      simp: prod_eq_iff | metis snd_conv add_ok finish_ok expire_ok)+

lemma step_count:
  assumes ok: "ok p" "op_ok op"
  shows "count_list (fst (pool_step add finish expire op p)) (c, i) + of_bool (i \<in> pending p c) =
    count_list (fst (snd (pool_step add finish expire op p))) (c, i) +
    of_bool (i \<in> pending (snd (snd (pool_step add finish expire op p))) c)"
proof (cases op)
  case (AddOp now c' ids)
  then have d: "distinct ids" using ok by simp
  show ?thesis
  proof (cases "add now c' ids p")
    case (Pair r p')
    then show ?thesis
      using add_accepted [OF ok(1) d, of now c' c] add_rejected [OF ok(1), of now c' ids _ c] AddOp d
      by (cases r) (auto simp: count_list_map_Pair count_list_distinct)
  qed
next
  case (FinishOp c' ids)
  then show ?thesis
    using finish_found [OF ok(1), of c' ids] finish_pending [OF ok(1), of c' ids c]
    by (auto simp: count_list_map_Pair count_list_distinct split: prod.splits)
next
  case (ExpireOp now)
  then show ?thesis
    using expire_pending [OF ok(1), of c now]
    by (auto simp: count_list_expired count_list_distinct split: prod.splits)
qed

lemma exactly_once:
  assumes "ok p" "\<forall>op \<in> set ops. op_ok op"
  shows "ok (snd (snd (pool_run add finish expire ops p))) \<and>
    count_list (fst (pool_run add finish expire ops p)) (c, i) + of_bool (i \<in> pending p c) =
    count_list (fst (snd (pool_run add finish expire ops p))) (c, i) +
    of_bool (i \<in> pending (snd (snd (pool_run add finish expire ops p))) c)"
  using assms
proof (induction ops arbitrary: p)
  case (Cons op ops)
  define p1 where "p1 = snd (snd (pool_step add finish expire op p))"
  have "ok p1" using step_ok Cons.prems by (simp add: p1_def)
  then show ?case
    using Cons.IH [of p1] step_count [of p op c i] Cons.prems
    by (auto simp: Let_def case_prod_unfold count_list_append p1_def)
qed simp

end

text \<open>
  The pool of the HAL: the timeout callback object of a client belongs to that client, so it is
  represented by the client's identifier.
\<close>

definition poolAdd ::
  "int \<Rightarrow> ClientId \<Rightarrow> int list \<Rightarrow> ClientId PendingRequestPool \<Rightarrow>
     unit VhalResult \<times> ClientId PendingRequestPool" where
  "poolAdd now c ids = addRequests now c ids c"

definition pool_ok :: "ClientId PendingRequestPool \<Rightarrow> bool" where
  "pool_ok st \<longleftrightarrow> pool_wf st \<and> pool_owned st"

lemma expired_checkTimeout:
  "pool_ok st \<Longrightarrow> expired c (fst (checkTimeout now st)) = idsOf (takeWhile (overdue now) (requestsOf st c))"
  by (simp add: pool_ok_def expired_def checkTimeout_calls comp_def idsOf_def)

lemma checkTimeout_split:
  assumes "pool_ok st"
  shows "idsOf (requestsOf st c) =
    expired c (fst (checkTimeout now st)) @ idsOf (requestsOf (snd (checkTimeout now st)) c)"
  using assms by (simp add: expired_checkTimeout requestsOf_checkTimeout pool_ok_def
      flip: idsOf_simps(3))

interpretation pool: request_pool pendingIds poolAdd tryFinishRequests checkTimeout pool_ok
proof
  fix st :: "ClientId PendingRequestPool" and c c' :: ClientId and ids :: "int list" and now e
  assume ok: "pool_ok st"
  show "distinct ids \<Longrightarrow> pool_ok (snd (poolAdd now c ids st))"
    using ok by (simp add: pool_ok_def poolAdd_def addRequests_wf addRequests_owned)
  show "set ids \<inter> pendingIds st c = {} \<and> pendingIds (snd (poolAdd now c ids st)) c' =
      (if c' = c then pendingIds st c \<union> set ids else pendingIds st c')"
    if "distinct ids" "fst (poolAdd now c ids st) = Inr ()"
    using ok that addRequests_accepted [of now c ids c st] addRequests_result [of st now c ids c]
    by (auto simp: poolAdd_def pendingIds_def pool_ok_def split: if_splits)
  show "fst (poolAdd now c ids st) = Inl e \<Longrightarrow>
      pendingIds (snd (poolAdd now c ids st)) c' = pendingIds st c'"
    by (simp add: poolAdd_def pendingIds_def addRequests_error)
  show "pool_ok (snd (tryFinishRequests c ids st))"
    using ok by (simp add: pool_ok_def tryFinish_wf tryFinish_owned)
  show "distinct (fst (tryFinishRequests c ids st)) \<and>
      set (fst (tryFinishRequests c ids st)) = set ids \<inter> pendingIds st c"
    by (simp add: tryFinish_found)
  show "pendingIds (snd (tryFinishRequests c ids st)) c' =
      (if c' = c then pendingIds st c - set ids else pendingIds st c')"
    by (rule tryFinish_pending)
  show "pool_ok (snd (checkTimeout now st))"
    using ok by (simp add: pool_ok_def checkTimeout_wf checkTimeout_owned)
  have "distinct (idsOf (requestsOf st c))" using ok by (simp add: pool_ok_def pool_wf_def)
  then show "distinct (expired c (fst (checkTimeout now st))) \<and>
      set (expired c (fst (checkTimeout now st))) \<subseteq> pendingIds st c \<and>
      pendingIds (snd (checkTimeout now st)) c =
      pendingIds st c - set (expired c (fst (checkTimeout now st)))"
    using checkTimeout_split [OF ok, of c now] by (auto simp: pendingIds_def)
qed

section \<open>Deadlines\<close>

lemma pool_ordered_later: "pool_ordered t st \<Longrightarrow> t \<le> t' \<Longrightarrow> pool_ordered t' st"
  by (fastforce simp: pool_ordered_def)

lemma pool_ordered_add:
  assumes "pool_ordered t st" "t \<le> now"
  shows "pool_ordered now (snd (addRequests now c ids cb st))"
proof (cases "fst (addRequests now c ids cb st)")
  case (Inl e)
  then show ?thesis
    using pool_ordered_later [OF assms] by (simp add: pool_ordered_def addRequests_error [OF Inl])
next
  case (Inr r)
  then have ok: "fst (addRequests now c ids cb st) = Inr ()" by simp
  have b: "\<forall>c. \<forall>r \<in> set (requestsOf st c). timeoutTimestamp r \<le> now + mTimeoutInNano st"
    using pool_ordered_later [OF assms] by (simp add: pool_ordered_def)
  show ?thesis
    using assms b by (auto simp: pool_ordered_def addRequests_accepted [OF ok] sorted_append)
qed

lemma pool_ordered_finish:
  "pool_ordered t st \<Longrightarrow> pool_ordered t (snd (tryFinishRequests c ids st))"
  using finishAll_from [of _ ids "requestsOf st c" "[]"]
  by (fastforce simp: pool_ordered_def requestsOf_finish finishAll_sorted)

lemma sorted_dropWhile_map: "sorted (map f xs) \<Longrightarrow> sorted (map f (dropWhile P xs))"
  by (induction xs) auto

lemma pool_ordered_timeout:
  assumes "pool_wf st" "pool_ordered t st"
  shows "pool_ordered t (snd (checkTimeout now st))"
  using assms by (auto simp: pool_ordered_def requestsOf_checkTimeout sorted_dropWhile_map
      dest: set_dropWhileD)

lemma dropWhile_overdue:
  "sorted (map timeoutTimestamp rs) \<Longrightarrow> dropWhile (overdue now) rs = filter (\<lambda>r. timeoutTimestamp r \<ge> now) rs"
  "sorted (map timeoutTimestamp rs) \<Longrightarrow> takeWhile (overdue now) rs = filter (overdue now) rs"
proof (induction rs)
  case (Cons r rs)
  { case 1
    show ?case
    proof (cases "overdue now r")
      case False
      then have "\<forall>x \<in> set (r # rs). timeoutTimestamp x \<ge> now"
        using 1 by (fastforce simp: overdue_def)
      then show ?thesis using False by (simp add: filter_id_conv)
    next
      case True
      then show ?thesis using Cons 1 by (simp add: overdue_def)
    qed
  next
    case 2
    show ?case
    proof (cases "overdue now r")
      case False
      then have "\<forall>x \<in> set (r # rs). \<not> overdue now x"
        using 2 by (fastforce simp: overdue_def)
      then show ?thesis by (simp add: filter_empty_conv)
    next
      case True
      then show ?thesis using Cons 2 by simp
    qed
  }
qed simp_all

fun op_time :: "int \<Rightarrow> PoolOp \<Rightarrow> int" where
  "op_time t (AddOp now _ _) = now"
| "op_time t (ExpireOp now) = now"
| "op_time t (FinishOp _ _) = t"

text \<open>The clock readings of a sequence of operations do not go back.\<close>

fun clock_ok :: "int \<Rightarrow> PoolOp list \<Rightarrow> bool" where
  "clock_ok t [] = True"
| "clock_ok t (op # ops) = (t \<le> op_time t op \<and> clock_ok (op_time t op) ops)"

fun last_time :: "int \<Rightarrow> PoolOp list \<Rightarrow> int" where
  "last_time t [] = t"
| "last_time t (op # ops) = last_time (op_time t op) ops"

abbreviation pool_after :: "PoolOp list \<Rightarrow> ClientId PendingRequestPool \<Rightarrow> ClientId PendingRequestPool" where
  "pool_after ops st \<equiv> snd (snd (pool_run poolAdd tryFinishRequests checkTimeout ops st))"

lemma pool_step_ordered:
  assumes "pool_ok st" "pool_ordered t st" "t \<le> op_time t op"
  shows "pool_ordered (op_time t op)
    (snd (snd (pool_step poolAdd tryFinishRequests checkTimeout op st)))"
proof (cases op)
  case (AddOp now c ids)
  then show ?thesis
    using pool_ordered_add [OF assms(2), of now c ids c] assms(3)
    by (auto simp: poolAdd_def split: prod.splits sum.splits)
next
  case (FinishOp c ids)
  then show ?thesis
    using pool_ordered_finish [OF assms(2), of c ids] by (auto split: prod.splits)
next
  case (ExpireOp now)
  then show ?thesis
    using pool_ordered_timeout [OF _ pool_ordered_later [OF assms(2)], of now now] assms
    by (auto simp: pool_ok_def split: prod.splits)
qed

lemma pool_run_ordered:
  assumes "pool_ok st" "pool_ordered t st" "clock_ok t ops" "\<forall>op \<in> set ops. op_ok op"
  shows "pool_ordered (last_time t ops) (pool_after ops st)"
  using assms
proof (induction ops arbitrary: st t)
  case (Cons op ops)
  define p1 where "p1 = snd (snd (pool_step poolAdd tryFinishRequests checkTimeout op st))"
  have "pool_ok p1" using pool.step_ok Cons.prems by (simp add: p1_def)
  then show ?case
    using Cons.IH [of p1 "op_time t op"] pool_step_ordered [of st t op] Cons.prems
    by (auto simp: Let_def case_prod_unfold p1_def)
qed simp

lemma mTimeout_run: "mTimeoutInNano (pool_after ops st) = mTimeoutInNano st"
proof (induction ops arbitrary: st)
  case (Cons op ops)
  have "mTimeoutInNano (snd (snd (pool_step poolAdd tryFinishRequests checkTimeout op st))) = mTimeoutInNano st"
    by (cases op) (auto simp: case_prod_unfold poolAdd_def split: sum.splits)
  then show ?case using Cons by (simp add: Let_def case_prod_unfold)
qed simp

lemma pendingIds_new [simp]: "pendingIds (newPool t) c = {}"
  by (simp add: pendingIds_def newPool_def requestsOf_def umap_at_def)

lemma pool_ok_new [simp]: "pool_ok (newPool t)"
  by (simp add: pool_ok_def pool_owned_def newPool_def pool_wf_def requestsOf_def umap_at_def countIds_def)

lemma pool_ok_run: "pool_ok st \<Longrightarrow> \<forall>op \<in> set ops. op_ok op \<Longrightarrow> pool_ok (pool_after ops st)"
  using pool.exactly_once by blast

section \<open>Properties\<close>

text \<open>
  Claim C1 (request_pool_exactly_once). In any interleaving of accepting, finishing and timing out
  requests, an identifier of a client is answered (finished or timed out) once for each time it was
  accepted, except for the one acceptance that is still pending.
\<close>
theorem request_pool_exactly_once:
  assumes "\<forall>op \<in> set ops. op_ok op"
  shows "count_list (fst (pool_run poolAdd tryFinishRequests checkTimeout ops (newPool t))) (c, i) =
    count_list (fst (snd (pool_run poolAdd tryFinishRequests checkTimeout ops (newPool t)))) (c, i) +
    of_bool (isRequestPending c i (pool_after ops (newPool t)))"
  using pool.exactly_once [OF pool_ok_new assms, of t c i]
  by (simp add: isRequestPending_iff)

text \<open>
  In every reachable pool, a set of identifiers is refused with
  \<open>INVALID_ARG\<close> if one of them is pending for the client, with \<open>TRY_AGAIN\<close> if it would bring the client
  above the limit (the unsigned subtraction never wraps around), and is accepted otherwise; a
  refusal changes no pending request of any client, and an acceptance makes exactly the given
  identifiers pending.
\<close>
theorem addRequests_decision:
  assumes "\<forall>op \<in> set ops. op_ok op" "st = pool_after ops (newPool t)" "distinct ids"
  shows "fst (poolAdd now c ids st) =
      (if \<exists>i \<in> set ids. isRequestPending c i st then Inl INVALID_ARG
       else if countPendingRequestsOf c st + length ids > MAX_PENDING_REQUEST_PER_CLIENT
       then Inl TRY_AGAIN else Inr ()) \<and>
    countPendingRequestsOf c st \<le> MAX_PENDING_REQUEST_PER_CLIENT \<and>
    (isRequestPending c' i (snd (poolAdd now c ids st)) \<longleftrightarrow> isRequestPending c' i st \<or>
       fst (poolAdd now c ids st) = Inr () \<and> c' = c \<and> i \<in> set ids)"
proof -
  have ok: "pool_ok st" using pool_ok_run [of "newPool t" ops] assms by simp
  then have wf: "pool_wf st" by (simp add: pool_ok_def)
  have le: "countPendingRequestsOf c st \<le> MAX_PENDING_REQUEST_PER_CLIENT"
    using wf by (auto simp: countPendingRequestsOf_def pool_wf_def requestsOf_def umap_at_def
        split: option.splits dest: spec [of _ c])
  show ?thesis
  proof (cases "fst (poolAdd now c ids st)")
    case (Inl e)
    then show ?thesis
      using addRequests_result [OF wf, of now c ids c] pool.add_rejected [OF ok Inl, of c'] le
      by (auto simp: poolAdd_def isRequestPending_iff countPendingRequestsOf_card [OF wf]
          split: if_splits)
  next
    case (Inr r)
    then have r: "fst (poolAdd now c ids st) = Inr ()" by simp
    then show ?thesis
      using addRequests_result [OF wf, of now c ids c] pool.add_accepted [OF ok assms(3) r, of c'] le
      by (auto simp: poolAdd_def isRequestPending_iff countPendingRequestsOf_card [OF wf]
          split: if_splits)
  qed
qed

text \<open>
  While the clock does not go back, a timeout check times out exactly the
  requests whose deadline has passed, and keeps the others.
\<close>
theorem checkTimeout_exact:
  assumes "\<forall>op \<in> set ops. op_ok op" "clock_ok t0 ops" "st = pool_after ops (newPool t)"
  shows "expired c (fst (checkTimeout now st)) =
      idsOf (filter (\<lambda>r. timeoutTimestamp r < now) (requestsOf st c)) \<and>
    requestsOf (snd (checkTimeout now st)) c =
      filter (\<lambda>r. now \<le> timeoutTimestamp r) (requestsOf st c)"
proof -
  have ok: "pool_ok st" using pool_ok_run [of "newPool t" ops] assms by simp
  have "pool_ordered (last_time t0 ops) st"
    using pool_run_ordered [of "newPool t" t0 ops] assms by simp
  then have "sorted (map timeoutTimestamp (requestsOf st c))" by (simp add: pool_ordered_def)
  moreover have e: "(\<lambda>r :: ClientId PendingRequest. timeoutTimestamp r < now) = overdue now"
    by (auto simp: overdue_def fun_eq_iff)
  ultimately show ?thesis
    using ok dropWhile_overdue [of "requestsOf st c" now] unfolding e
    by (simp add: expired_checkTimeout requestsOf_checkTimeout pool_ok_def)
qed

text \<open>
  Claim C7 (timeout_liveness). A timeout check made more than the timeout after the last operation
  leaves no request pending: every accepted request has been answered.
\<close>
theorem timeout_liveness:
  assumes "\<forall>op \<in> set ops. op_ok op" "clock_ok t0 ops" "now > last_time t0 ops + t"
  shows "\<not> isRequestPending c i (snd (checkTimeout now (pool_after ops (newPool t))))"
proof -
  define st where "st = pool_after ops (newPool t)"
  have ok: "pool_ok st" using pool_ok_run [of "newPool t" ops] assms by (simp add: st_def)
  have o: "pool_ordered (last_time t0 ops) st"
    using pool_run_ordered [of "newPool t" t0 ops] assms by (simp add: st_def)
  have "mTimeoutInNano st = t" by (simp add: st_def mTimeout_run newPool_def)
  then have "\<forall>r \<in> set (requestsOf st c). overdue now r"
    using o assms(3) by (fastforce simp: pool_ordered_def overdue_def)
  then have "requestsOf (snd (checkTimeout now st)) c = []"
    using ok by (simp add: pool_ok_def requestsOf_checkTimeout)
  then show ?thesis by (simp add: isRequestPending_iff pendingIds_def st_def)
qed

section \<open>Witnesses\<close>

definition sample_pool_ops :: "PoolOp list" where
  "sample_pool_ops = [AddOp 0 1 [7, 8], AddOp 1 1 [8], FinishOp 1 [8, 9], AddOp 2 1 [8], ExpireOp 101]"

lemma sample_pool_ops_ok: "\<forall>op \<in> set sample_pool_ops. op_ok op" "clock_ok 0 sample_pool_ops"
  by (simp_all add: sample_pool_ops_def)

theorem request_pool_exactly_once_witness:
  "count_list (fst (snd (pool_run poolAdd tryFinishRequests checkTimeout sample_pool_ops (newPool 100))))
     (1, 8) = 1 \<and> isRequestPending 1 8 (pool_after sample_pool_ops (newPool 100))"
proof -
  have "count_list (fst (pool_run poolAdd tryFinishRequests checkTimeout sample_pool_ops (newPool 100)))
      (1, 8) = 2" by code_simp
  moreover have p: "isRequestPending 1 8 (pool_after sample_pool_ops (newPool 100))" by code_simp
  ultimately show ?thesis
    using request_pool_exactly_once [OF sample_pool_ops_ok(1), of 100 1 8] by simp
qed

theorem addRequests_decision_witness:
  "fst (poolAdd 102 1 [8, 3] (pool_after sample_pool_ops (newPool 100))) = Inl INVALID_ARG"
proof -
  have p: "isRequestPending 1 8 (pool_after sample_pool_ops (newPool 100))" by code_simp
  show ?thesis
    using addRequests_decision [OF sample_pool_ops_ok(1) refl, of "[8, 3]" 102 1 100] p by simp
qed

theorem checkTimeout_exact_witness:
  "idsOf (requestsOf (snd (checkTimeout 103 (pool_after sample_pool_ops (newPool 100)))) 1) = []"
proof -
  have "filter (\<lambda>r. 103 \<le> timeoutTimestamp r) (requestsOf (pool_after sample_pool_ops (newPool 100)) 1) = []"
    by code_simp
  then show ?thesis
    using checkTimeout_exact [OF sample_pool_ops_ok refl, of 1 103 100] by simp
qed

theorem timeout_liveness_witness:
  "\<not> isRequestPending 1 8 (snd (checkTimeout 202 (pool_after sample_pool_ops (newPool 100))))"
  by (rule timeout_liveness [OF sample_pool_ops_ok]) code_simp

end
