(* ===== verification/Connected_Client.thy ===== *)
theory Connected_Client
  imports Pending_Requests Subscription_Manager
begin

text \<open>
  \<^verbatim>\<open>vhal/ConnectedClient\<close> and \<^verbatim>\<open>utils/common/include/ParcelableUtils.h\<close>: delivery of results to the
  callbacks of a client.

  A binder call is modelled by the parcel it carries; a call that fails is only logged, so its status
  does not appear. \<^verbatim>\<open>LargeParcelableBase::parcelableToStableLargeParcelable\<close> is the parameter \<open>marshal\<close>,
  which fails, keeps the payloads in the parcel, or moves them to a shared memory file. The templates
  over \<^verbatim>\<open>GetValueResult\<close> and \<^verbatim>\<open>SetValueResult\<close> are functions of the result type \<open>'r\<close>: \<open>rid\<close> reads the
  request identifier and \<open>timed_out\<close> builds the result of a timeout.
\<close>

section \<open>Parcels\<close>

datatype MarshalResult = MarshalFailed StatusCode | MarshalInline | MarshalFile

datatype 'a Parcel = Payloads "'a list" | SharedMemory "'a list"

primrec contents :: "'a Parcel \<Rightarrow> 'a list" where
  "contents (Payloads xs) = xs"
| "contents (SharedMemory xs) = xs"

text \<open>The status and the output; a failure leaves the values in the payloads.\<close>

definition vectorToStableLargeParcelable ::
  "('a list \<Rightarrow> MarshalResult) \<Rightarrow> 'a list \<Rightarrow> ScopedAStatus \<times> 'a Parcel" where
  "vectorToStableLargeParcelable marshal xs = (case marshal xs of
     MarshalFailed _ \<Rightarrow> (StatusServiceSpecific INTERNAL_ERROR, Payloads xs)
   | MarshalFile \<Rightarrow> (StatusOk, SharedMemory xs)
   | MarshalInline \<Rightarrow> (StatusOk, Payloads xs))"

text \<open>
  Parsing of a parcel that arrives: \<open>unmarshal\<close> is \<^verbatim>\<open>stableLargeParcelableToParcelable\<close>, and a failure is
  reported as an invalid argument.
\<close>

definition fromStableLargeParcelable :: "('p \<Rightarrow> 'a list option) \<Rightarrow> 'p \<Rightarrow> ScopedAStatus + 'a list" where
  "fromStableLargeParcelable unmarshal parcel = (case unmarshal parcel of
     None \<Rightarrow> Inl (StatusServiceSpecific INVALID_ARG) | Some xs \<Rightarrow> Inr xs)"

section \<open>Results of requests\<close>

definition sendGetOrSetValueResult :: "'r \<Rightarrow> 'r Parcel" where
  "sendGetOrSetValueResult result = Payloads [result]"

definition sendGetOrSetValueResultsSeparately :: "'r list \<Rightarrow> 'r Parcel list" where
  "sendGetOrSetValueResultsSeparately results = map sendGetOrSetValueResult results"

definition sendGetOrSetValueResults :: "('r list \<Rightarrow> MarshalResult) \<Rightarrow> 'r list \<Rightarrow> 'r Parcel list" where
  "sendGetOrSetValueResults marshal results =
    (let (status, parcelableResults) = vectorToStableLargeParcelable marshal results in
     if status = StatusOk then [parcelableResults]
     else sendGetOrSetValueResultsSeparately (contents parcelableResults))"

definition onTimeout :: "('r list \<Rightarrow> MarshalResult) \<Rightarrow> (int \<Rightarrow> 'r) \<Rightarrow> int list \<Rightarrow> 'r Parcel list" where
  "onTimeout marshal timed_out timeoutIds = sendGetOrSetValueResults marshal (map timed_out timeoutIds)"

definition getTimedOut :: "int \<Rightarrow> GetValueResult" where
  "getTimedOut i = \<lparr>gres_requestId = i, gres_status = TRY_AGAIN, gres_prop = None\<rparr>"

definition setTimedOut :: "int \<Rightarrow> SetValueResult" where
  "setTimedOut i = \<lparr>sres_requestId = i, sres_status = TRY_AGAIN\<rparr>"

definition getOrSetValuesCallback ::
  "('r list \<Rightarrow> MarshalResult) \<Rightarrow> ('r \<Rightarrow> int) \<Rightarrow> ClientId \<Rightarrow> 'r list \<Rightarrow> ClientId PendingRequestPool \<Rightarrow>
     'r Parcel list \<times> ClientId PendingRequestPool" where
  "getOrSetValuesCallback marshal rid clientId results pool =
    (let ids = fold (\<lambda>r s. uset_insert (rid r) s) results [];
         (finishedRequests, pool') = tryFinishRequests clientId ids pool;
         remaining = filter (\<lambda>r. rid r \<in> set finishedRequests) results in
     (if remaining \<noteq> [] then sendGetOrSetValueResults marshal remaining else [], pool'))"

section \<open>Clients\<close>

text \<open>
  The identity of a client (the address of its object) is the number \<open>cl_id\<close>, under which its requests
  are kept in the pool; the hardware is given the same number as the identity of its result callback.
\<close>

record ConnectedClient =
  cl_id :: ClientId
  cl_callback :: VehicleCallback

definition client_addRequests ::
  "int \<Rightarrow> ConnectedClient \<Rightarrow> int list \<Rightarrow> ClientId PendingRequestPool \<Rightarrow>
     unit VhalResult \<times> ClientId PendingRequestPool" where
  "client_addRequests now client ids pool = addRequests now (cl_id client) ids (cl_id client) pool"

definition client_tryFinishRequests ::
  "ConnectedClient \<Rightarrow> int list \<Rightarrow> ClientId PendingRequestPool \<Rightarrow> int list \<times> ClientId PendingRequestPool" where
  "client_tryFinishRequests client ids pool = tryFinishRequests (cl_id client) ids pool"

definition getResultCallback :: "ConnectedClient \<Rightarrow> nat" where
  "getResultCallback client = cl_id client"

definition getTimeoutCallback :: "ConnectedClient \<Rightarrow> nat" where
  "getTimeoutCallback client = cl_id client"

section \<open>Subscription events\<close>

datatype SubscriptionCall =
    PropertyEvent "VehiclePropValue Parcel"
  | PropertySetError "SetValueErrorEvent Parcel"
  | SupportedValueChange "PropIdAreaId list"

definition sendUpdatedValues ::
  "(VehiclePropValue list \<Rightarrow> MarshalResult) \<Rightarrow> VehiclePropValue list \<Rightarrow> SubscriptionCall list" where
  "sendUpdatedValues marshal updatedValues =
     (if updatedValues = [] then []
      else let (status, values) = vectorToStableLargeParcelable marshal updatedValues in
        if status \<noteq> StatusOk then [] else [PropertyEvent values])"

definition sendPropertySetErrors ::
  "(SetValueErrorEvent list \<Rightarrow> MarshalResult) \<Rightarrow> SetValueErrorEvent list \<Rightarrow> SubscriptionCall list" where
  "sendPropertySetErrors marshal errors =
     (if errors = [] then []
      else let (status, parcel) = vectorToStableLargeParcelable marshal errors in
        if status \<noteq> StatusOk then [] else [PropertySetError parcel])"

definition sendSupportedValueChangeEvents :: "PropIdAreaId list \<Rightarrow> SubscriptionCall list" where
  "sendSupportedValueChangeEvents ks = (if ks = [] then [] else [SupportedValueChange ks])"

section \<open>Delivery\<close>

definition delivered_results :: "'r Parcel list \<Rightarrow> 'r list" where
  "delivered_results calls = concat (map contents calls)"

lemma delivered_results_simps [simp]:
  "delivered_results [] = []"
  "delivered_results (p # ps) = contents p @ delivered_results ps"
  "delivered_results (ps @ qs) = delivered_results ps @ delivered_results qs"
  by (simp_all add: delivered_results_def)

lemma delivered_separately [simp]: "delivered_results (sendGetOrSetValueResultsSeparately rs) = rs"
  by (induction rs) (simp_all add: sendGetOrSetValueResultsSeparately_def sendGetOrSetValueResult_def)

lemma delivered_sendResults [simp]: "delivered_results (sendGetOrSetValueResults marshal rs) = rs"
  by (simp add: sendGetOrSetValueResults_def vectorToStableLargeParcelable_def split: MarshalResult.split)

text \<open>The set of identifiers collected from a batch of results.\<close>

definition resultIds :: "('r \<Rightarrow> int) \<Rightarrow> 'r list \<Rightarrow> int list" where
  "resultIds rid results = fold (\<lambda>r s. uset_insert (rid r) s) results []"

lemma fold_uset_insert_members: "set (fold (\<lambda>x s. uset_insert (f x) s) xs s) = f ` set xs \<union> set s"
  by (induction xs arbitrary: s) auto

lemma set_resultIds [simp]: "set (resultIds rid rs) = rid ` set rs"
  by (simp add: resultIds_def fold_uset_insert_members)

lemma callback_pool:
  "snd (getOrSetValuesCallback marshal rid c rs pool) = snd (tryFinishRequests c (resultIds rid rs) pool)"
  by (simp add: getOrSetValuesCallback_def resultIds_def Let_def case_prod_unfold)

lemma callback_delivers:
  "delivered_results (fst (getOrSetValuesCallback marshal rid c rs pool)) =
     filter (\<lambda>r. rid r \<in> set (fst (tryFinishRequests c (resultIds rid rs) pool))) rs"
  by (simp add: getOrSetValuesCallback_def resultIds_def Let_def case_prod_unfold)

section \<open>Requests, results and timeouts in any order\<close>

datatype 'r ClientOp = Requests int ClientId "int list" | Results ClientId "'r list" | Timeouts int

text \<open>
  The identifiers of a request are a set; a batch of results may carry an identifier more than once
  (\<open>results_distinct\<close> says that it does not).
\<close>

fun client_op_ok :: "'r ClientOp \<Rightarrow> bool" where
  "client_op_ok (Requests _ _ ids) = distinct ids"
| "client_op_ok _ = True"

fun results_distinct :: "('r \<Rightarrow> int) \<Rightarrow> 'r ClientOp \<Rightarrow> bool" where
  "results_distinct rid (Results _ rs) = distinct (map rid rs)"
| "results_distinct rid _ = True"

text \<open>
  One operation: the requests it accepted, what the clients received (for each client that was sent
  something, the results it was sent together) and the pool afterwards.
\<close>

fun client_step ::
  "('r list \<Rightarrow> MarshalResult) \<Rightarrow> ('r \<Rightarrow> int) \<Rightarrow> (int \<Rightarrow> 'r) \<Rightarrow> 'r ClientOp \<Rightarrow> ClientId PendingRequestPool \<Rightarrow>
     (ClientId \<times> int) list \<times> (ClientId \<times> 'r list) list \<times> ClientId PendingRequestPool" where
  "client_step marshal rid timed_out (Requests now c ids) pool =
     (case addRequests now c ids c pool of (Inl _, p) \<Rightarrow> ([], [], p) | (Inr _, p) \<Rightarrow> (map (Pair c) ids, [], p))"
| "client_step marshal rid timed_out (Results c rs) pool =
     (case getOrSetValuesCallback marshal rid c rs pool of
        (calls, p) \<Rightarrow> ([], [(c, delivered_results calls)], p))"
| "client_step marshal rid timed_out (Timeouts now) pool =
     (case checkTimeout now pool of (out, p) \<Rightarrow>
        ([], map (\<lambda>(c, ids). (c, delivered_results (onTimeout marshal timed_out ids))) out, p))"

fun client_run ::
  "('r list \<Rightarrow> MarshalResult) \<Rightarrow> ('r \<Rightarrow> int) \<Rightarrow> (int \<Rightarrow> 'r) \<Rightarrow> 'r ClientOp list \<Rightarrow> ClientId PendingRequestPool \<Rightarrow>
     (ClientId \<times> int) list \<times> (ClientId \<times> 'r list) list \<times> ClientId PendingRequestPool" where
  "client_run marshal rid timed_out [] pool = ([], [], pool)"
| "client_run marshal rid timed_out (op # ops) pool =
     (let (acc, out, p1) = client_step marshal rid timed_out op pool;
          (acc', out', p2) = client_run marshal rid timed_out ops p1 in (acc @ acc', out @ out', p2))"

text \<open>The operation of the pool that a client operation performs.\<close>

fun pool_op :: "('r \<Rightarrow> int) \<Rightarrow> 'r ClientOp \<Rightarrow> PoolOp" where
  "pool_op rid (Requests now c ids) = AddOp now c ids"
| "pool_op rid (Results c rs) = FinishOp c (resultIds rid rs)"
| "pool_op rid (Timeouts now) = ExpireOp now"

text \<open>How often a client was sent something that answers an identifier, and how many results answer it.\<close>

definition answered :: "('r \<Rightarrow> int) \<Rightarrow> (ClientId \<times> 'r list) list \<Rightarrow> ClientId \<Rightarrow> int \<Rightarrow> nat" where
  "answered rid out c i = length (filter (\<lambda>(c', rs). c' = c \<and> i \<in> rid ` set rs) out)"

definition results_for :: "('r \<Rightarrow> int) \<Rightarrow> (ClientId \<times> 'r list) list \<Rightarrow> ClientId \<Rightarrow> int \<Rightarrow> nat" where
  "results_for rid out c i =
     count_list (concat (map (\<lambda>(c', rs). map (\<lambda>r. (c', rid r)) rs) out)) (c, i)"

lemma answered_simps [simp]:
  "answered rid [] c i = 0"
  "answered rid ((c', rs) # out) c i = of_bool (c' = c \<and> i \<in> rid ` set rs) + answered rid out c i"
  "answered rid (out @ out') c i = answered rid out c i + answered rid out' c i"
  by (auto simp: answered_def)

lemma results_for_simps [simp]:
  "results_for rid [] c i = 0"
  "results_for rid ((c', rs) # out) c i = (if c' = c then count_list (map rid rs) i else 0) + results_for rid out c i"
  by (simp_all add: results_for_def count_list_append count_list_map_Pair [of c' "map rid rs", simplified comp_def map_map])

lemma results_for_distinct:
  "\<forall>(c', rs) \<in> set out. distinct (map rid rs) \<Longrightarrow> results_for rid out c i = answered rid out c i"
  by (induction out) (auto simp: count_list_distinct)

lemma answered_expired:
  assumes "distinct (expired c out)" "\<And>i. rid (timed_out i) = i"
  shows "answered rid (map (\<lambda>(c', ids). (c', map timed_out ids)) out) c i = count_list (expired c out) i"
  using assms(1)
proof (induction out)
  case (Cons x out)
  obtain c' ids where x: "x = (c', ids)" by (cases x)
  have "expired c (x # out) = (if c' = c then ids @ expired c out else expired c out)" by (simp add: expired_def x)
  then show ?case
    using Cons assms(2) count_list_distinct [of ids i]
    by (cases "c' = c"; cases "i \<in> set ids") (auto simp: x count_list_append image_image)
qed (simp add: expired_def)

lemma op_ok_pool_op [simp]: "client_op_ok op \<Longrightarrow> op_ok (pool_op rid op)"
  by (cases op) simp_all

lemma client_step_pool:
  assumes "pool_ok pool" "\<And>i. rid (timed_out i) = i"
  shows "fst (client_step marshal rid timed_out op pool) =
      fst (pool_step poolAdd tryFinishRequests checkTimeout (pool_op rid op) pool)"
    and "snd (snd (client_step marshal rid timed_out op pool)) =
      snd (snd (pool_step poolAdd tryFinishRequests checkTimeout (pool_op rid op) pool))"
    and "answered rid (fst (snd (client_step marshal rid timed_out op pool))) c i =
      count_list (fst (snd (pool_step poolAdd tryFinishRequests checkTimeout (pool_op rid op) pool))) (c, i)"
proof -
  show "fst (client_step marshal rid timed_out op pool) =
      fst (pool_step poolAdd tryFinishRequests checkTimeout (pool_op rid op) pool)"
    "snd (snd (client_step marshal rid timed_out op pool)) =
      snd (snd (pool_step poolAdd tryFinishRequests checkTimeout (pool_op rid op) pool))"
    using callback_pool [of marshal rid]
    by (cases op; auto simp: poolAdd_def case_prod_unfold split: sum.splits prod.splits)+
  show "answered rid (fst (snd (client_step marshal rid timed_out op pool))) c i =
      count_list (fst (snd (pool_step poolAdd tryFinishRequests checkTimeout (pool_op rid op) pool))) (c, i)"
  proof (cases op)
    case (Results c' rs)
    show ?thesis
      using pool.finish_found [OF assms(1), of c' "resultIds rid rs"] callback_delivers [of marshal rid c' rs pool] Results
      by (auto simp: case_prod_unfold count_list_map_Pair count_list_distinct)
  next
    case (Timeouts now)
    then show ?thesis
      using answered_expired [of c "fst (checkTimeout now pool)" rid timed_out i]
        pool.expire_pending [OF assms(1), of c now] assms(2)
      by (simp add: case_prod_unfold onTimeout_def count_list_expired [unfolded case_prod_unfold])
  qed (auto simp: poolAdd_def case_prod_unfold split: sum.split)
qed

lemma client_run_pool:
  assumes "pool_ok pool" "\<forall>op \<in> set ops. client_op_ok op" "\<And>i. rid (timed_out i) = i"
  shows "fst (client_run marshal rid timed_out ops pool) =
      fst (pool_run poolAdd tryFinishRequests checkTimeout (map (pool_op rid) ops) pool) \<and>
    snd (snd (client_run marshal rid timed_out ops pool)) = pool_after (map (pool_op rid) ops) pool \<and>
    answered rid (fst (snd (client_run marshal rid timed_out ops pool))) c i =
      count_list (fst (snd (pool_run poolAdd tryFinishRequests checkTimeout (map (pool_op rid) ops) pool))) (c, i)"
  using assms(1,2)
proof (induction ops arbitrary: pool)
  case (Cons op ops)
  define p1 where "p1 = snd (snd (pool_step poolAdd tryFinishRequests checkTimeout (pool_op rid op) pool))"
  have op: "op_ok (pool_op rid op)" using Cons.prems by simp
  have "pool_ok p1" using pool.step_ok [OF Cons.prems(1) op] by (simp add: p1_def)
  moreover note client_step_pool [OF Cons.prems(1), of rid timed_out marshal op, OF assms(3)]
  ultimately show ?case
    using Cons.IH [of p1] Cons.prems(2)
    by (simp add: Let_def case_prod_unfold count_list_append p1_def)
qed simp

text \<open>A client is never sent an identifier twice together, unless the hardware answered it twice together.\<close>

lemma client_step_distinct:
  assumes "pool_ok pool" "results_distinct rid op" "\<And>i. rid (timed_out i) = i"
    and "(c, rs) \<in> set (fst (snd (client_step marshal rid timed_out op pool)))"
  shows "distinct (map rid rs)"
proof (cases op)
  case (Results c' results)
  then show ?thesis
    using assms(2,4) callback_delivers [of marshal rid c' results pool]
    by (auto simp: case_prod_unfold distinct_map intro: inj_on_subset)
next
  case (Timeouts now)
  then obtain ids where ids: "(c, ids) \<in> set (fst (checkTimeout now pool))" "rs = map timed_out ids"
    using assms(4) by (auto simp: case_prod_unfold onTimeout_def)
  have "distinct (expired c (fst (checkTimeout now pool)))" using pool.expire_pending [OF assms(1)] by blast
  then have "distinct ids" using ids(1) by (force simp: expired_def distinct_concat_iff)
  then show ?thesis using ids(2) assms(3) by (simp add: comp_def)
qed (use assms(4) in \<open>auto split: prod.splits sum.splits\<close>)

lemma client_run_distinct:
  assumes "pool_ok pool" "\<forall>op \<in> set ops. client_op_ok op \<and> results_distinct rid op" "\<And>i. rid (timed_out i) = i"
  shows "\<forall>(c, rs) \<in> set (fst (snd (client_run marshal rid timed_out ops pool))). distinct (map rid rs)"
  using assms(1,2)
proof (induction ops arbitrary: pool)
  case (Cons op ops)
  define p1 where "p1 = snd (snd (client_step marshal rid timed_out op pool))"
  have op: "op_ok (pool_op rid op)" using Cons.prems by simp
  have "pool_ok p1"
    using pool.step_ok [OF Cons.prems(1) op] client_step_pool(2) [OF Cons.prems(1), of rid timed_out, OF assms(3)] by (simp add: p1_def)
  then have "\<forall>(c, rs) \<in> set (fst (snd (client_run marshal rid timed_out ops p1))). distinct (map rid rs)"
    using Cons.IH Cons.prems(2) by simp
  moreover have "\<forall>(c, rs) \<in> set (fst (snd (client_step marshal rid timed_out op pool))). distinct (map rid rs)"
    using client_step_distinct [OF Cons.prems(1), of rid _ timed_out, OF _ assms(3)] Cons.prems(2) by fastforce
  ultimately show ?case by (auto simp: Let_def case_prod_unfold p1_def)
qed simp

section \<open>Properties\<close>

text \<open>
  Claim C14 (results_exactly_once). In any order of requests, results of the hardware and timeout checks,
  and however results are marshalled, a client is sent an answer to a request (results of one callback of
  the hardware, or of a timeout) as many times as the request was accepted, except for the acceptance
  still pending; answers to a request that was answered before or was never made are dropped. The
  answer is a single result when no callback of the hardware repeats an identifier; if one does, the
  repeated results are sent together, as that one answer.
\<close>

theorem results_exactly_once:
  assumes "\<forall>op \<in> set ops. client_op_ok op" "\<And>i. rid (timed_out i) = i"
    and "client_run marshal rid timed_out ops (newPool t) = (accepted, received, pool)"
  shows "count_list accepted (c, i) = answered rid received c i + of_bool (isRequestPending c i pool) \<and>
    ((\<forall>op \<in> set ops. results_distinct rid op) \<longrightarrow>
      count_list accepted (c, i) = results_for rid received c i + of_bool (isRequestPending c i pool))"
proof -
  have "\<forall>op \<in> set (map (pool_op rid) ops). op_ok op" using assms(1) by auto
  from pool.exactly_once [OF pool_ok_new this, of t c i]
  have "count_list accepted (c, i) = answered rid received c i + of_bool (isRequestPending c i pool)"
    using client_run_pool [OF pool_ok_new assms(1,2), of marshal t c i] assms(3)
    by (simp add: isRequestPending_iff)
  moreover have "results_for rid received c i = answered rid received c i" if "\<forall>op \<in> set ops. results_distinct rid op"
    using client_run_distinct [OF pool_ok_new, of ops rid timed_out marshal t, OF _ assms(2)] assms(1,3) that
    by (intro results_for_distinct) auto
  ultimately show ?thesis by simp
qed

text \<open>
  Sending results delivers all of them in order, whether they fit a
  parcel, go to shared memory, or cannot be marshalled and are sent one by one.
\<close>

theorem marshalling_keeps_results:
  "concat (map contents (sendGetOrSetValueResults marshal rs)) = rs \<and>
   (marshal rs = MarshalInline \<or> marshal rs = MarshalFile \<longrightarrow> length (sendGetOrSetValueResults marshal rs) = 1)"
  using delivered_sendResults [of marshal rs] unfolding delivered_results_def
  by (auto simp: sendGetOrSetValueResults_def vectorToStableLargeParcelable_def)

text \<open>A client whose request 10 is answered by two callbacks of the hardware, and its request 11 not at all.\<close>

definition sample_client_ops :: "SetValueResult ClientOp list" where
  "sample_client_ops = [Requests 5 1 [10, 11], Results 1 [setTimedOut 10], Results 1 [setTimedOut 10]]"

definition sample_client_run where
  "sample_client_run = client_run (\<lambda>_. MarshalInline) sres_requestId setTimedOut sample_client_ops (newPool 100)"

theorem results_exactly_once_witness:
  "answered sres_requestId (fst (snd sample_client_run)) 1 10 = 1 \<and>
   results_for sres_requestId (fst (snd sample_client_run)) 1 10 = 1"
proof -
  have ok: "\<forall>op \<in> set sample_client_ops. client_op_ok op" "\<forall>op \<in> set sample_client_ops. results_distinct sres_requestId op"
    by (simp_all add: sample_client_ops_def setTimedOut_def)
  have i: "sres_requestId (setTimedOut i) = i" for i by (simp add: setTimedOut_def)
  have run: "client_run (\<lambda>_. MarshalInline) sres_requestId setTimedOut sample_client_ops (newPool 100) =
      (fst sample_client_run, fst (snd sample_client_run), snd (snd sample_client_run))"
    by (simp add: sample_client_run_def)
  have "count_list (fst sample_client_run) (1, 10) = 1" "\<not> isRequestPending 1 10 (snd (snd sample_client_run))"
    by code_simp+
  then show ?thesis using results_exactly_once [OF ok(1) i run, of 1 10] ok(2) by simp
qed

theorem marshalling_keeps_results_witness:
  "length (sendGetOrSetValueResults (\<lambda>_. MarshalFile) [setTimedOut 1, setTimedOut 2]) = 1"
  using marshalling_keeps_results [of "\<lambda>_. MarshalFile" "[setTimedOut 1, setTimedOut 2]"] by simp

end
