(* ===== verification/Default_Vehicle_Hal.thy ===== *)
theory Default_Vehicle_Hal
  imports Connected_Client Concurrent_Queue "HOL-Library.Multiset"
begin

text \<open>
  \<^verbatim>\<open>vhal/DefaultVehicleHal\<close>: the service the clients call. It checks requests against the property
  configurations, keeps them in the pending request pool while the hardware works, subscribes
  through the subscription manager, and forgets a client whose binder died.

  \<open>Platform\<close> collects what lies outside: the hardware operations, \<^verbatim>\<open>log10f\<close>, the version of the interface,
  the generated table \<^verbatim>\<open>VersionForVehicleProperty\<close> and the marshalling of each parcel. A binder handle is
  its address; \<open>alive\<close> tells which binders are alive when an operation runs: \<^verbatim>\<open>AIBinder_isAlive\<close> answers it,
  and \<^verbatim>\<open>AIBinder_linkToDeath\<close> succeeds exactly for a binder that is alive. An operation returns its status,
  the calls it made on callbacks, and the new state; the hardware calls the result callback of a client
  later, through \<open>onHardwareResults\<close>. Mutexes make the operations atomic.
\<close>

section \<open>State\<close>

record 'h Platform =
  hardware :: "'h VehicleHardware"
  plat_log10f :: "fp \<Rightarrow> fp"
  interfaceVersion :: int
  versionForVehicleProperty :: "int32 \<Rightarrow> int option"
  marshalConfigs :: "VehiclePropConfig list \<Rightarrow> MarshalResult"
  marshalGetResults :: "GetValueResult list \<Rightarrow> MarshalResult"
  marshalSetResults :: "SetValueResult list \<Rightarrow> MarshalResult"
  marshalEvents :: "VehiclePropValue list \<Rightarrow> MarshalResult"
  marshalErrors :: "SetValueErrorEvent list \<Rightarrow> MarshalResult"
  marshalMinMax :: "MinMaxSupportedValueResult list \<Rightarrow> MarshalResult"
  marshalLists :: "SupportedValuesListResult list \<Rightarrow> MarshalResult"

datatype BinderDiedUnlinkedEvent = BinderEvent (forOnBinderDied: bool) (clientId: ClientIdType)

record 'h DefaultVehicleHal =
  mSubscriptionManager :: "'h SubscriptionManager"
  mPendingRequestPool :: "ClientId PendingRequestPool"
  mNextClient :: ClientId \<comment> \<open>the identity of the next client object\<close>
  mBatchedEventQueue :: "VehiclePropValue ConcurrentQueue option"
  mConfigInit :: bool
  mConfigsByPropId :: "(int32, VehiclePropConfig) umap"
  mConfigFile :: "VehiclePropConfig list option"
  mOnBinderDiedContexts :: "ClientIdType uset"
  mGetValuesClients :: "(ClientIdType, ConnectedClient) umap"
  mSetValuesClients :: "(ClientIdType, ConnectedClient) umap"
  mBinderEvents :: "BinderDiedUnlinkedEvent ConcurrentQueue"

datatype HalCall =
    GetResults "GetValueResult Parcel" | SetResults "SetValueResult Parcel" | EventCall SubscriptionCall

definition TIMEOUT_IN_NANO :: int where "TIMEOUT_IN_NANO = 30000000000"
definition HEART_BEAT_INTERVAL_IN_NANO :: int where "HEART_BEAT_INTERVAL_IN_NANO = 3000000000"

definition newDefaultVehicleHal :: "int \<Rightarrow> 'h \<Rightarrow> 'h DefaultVehicleHal" where
  "newDefaultVehicleHal eventBatchingWindow h = \<lparr>mSubscriptionManager = newSubscriptionManager h,
     mPendingRequestPool = newPool TIMEOUT_IN_NANO, mNextClient = 0,
     mBatchedEventQueue = (if eventBatchingWindow \<noteq> 0 then Some newQueue else None), mConfigInit = False,
     mConfigsByPropId = [], mConfigFile = None, mOnBinderDiedContexts = [], mGetValuesClients = [],
     mSetValuesClients = [], mBinderEvents = newQueue\<rparr>"

definition vehicleHardware :: "'h DefaultVehicleHal \<Rightarrow> 'h" where
  "vehicleHardware hal = mVehicleHardware (mSubscriptionManager hal)"

definition setHardware :: "'h \<Rightarrow> 'h DefaultVehicleHal \<Rightarrow> 'h DefaultVehicleHal" where
  "setHardware h hal = hal\<lparr>mSubscriptionManager := (mSubscriptionManager hal)\<lparr>mVehicleHardware := h\<rparr>\<rparr>"

section \<open>Property configurations\<close>

definition isConfigSupportedForCurrentVhalVersion :: "'h Platform \<Rightarrow> VehiclePropConfig \<Rightarrow> bool" where
  "isConfigSupportedForCurrentVhalVersion plat config =
    (if \<not> isSystemProp (pc_prop config) then True
     else case versionForVehicleProperty plat (pc_prop config) of
       None \<Rightarrow> False
     | Some requiredVersion \<Rightarrow> \<not> interfaceVersion plat < requiredVersion)"

definition getAllPropConfigsFromHardwareLocked ::
  "'h Platform \<Rightarrow> 'h DefaultVehicleHal \<Rightarrow> bool \<times> 'h DefaultVehicleHal" where
  "getAllPropConfigsFromHardwareLocked plat hal0 =
    (let configs = hw_getAllPropertyConfigs (hardware plat) (vehicleHardware hal0);
         filteredConfigs = filter (isConfigSupportedForCurrentVhalVersion plat) configs;
         hal = hal0\<lparr>mConfigsByPropId :=
           fold (\<lambda>config m. umap_put (pc_prop config) config m) filteredConfigs (mConfigsByPropId hal0)\<rparr> in
     case marshalConfigs plat filteredConfigs of
       MarshalFailed _ \<Rightarrow> (False, hal\<lparr>mConfigFile := None\<rparr>)
     | MarshalFile \<Rightarrow> (True, hal\<lparr>mConfigFile := Some filteredConfigs, mConfigInit := True\<rparr>)
     | MarshalInline \<Rightarrow> (True, hal\<lparr>mConfigInit := True\<rparr>))"

text \<open>The configurations are loaded on first use; \<open>None\<close> is the failed \<^verbatim>\<open>CHECK\<close>, which aborts.\<close>

definition loadConfigs :: "'h Platform \<Rightarrow> 'h DefaultVehicleHal \<Rightarrow> 'h DefaultVehicleHal option" where
  "loadConfigs plat hal =
    (if mConfigInit hal then Some hal
     else case getAllPropConfigsFromHardwareLocked plat hal of
       (ok, hal') \<Rightarrow> if ok then Some hal' else None)"

definition getConfigsByPropId ::
  "'h Platform \<Rightarrow> 'h DefaultVehicleHal \<Rightarrow> ((int32, VehiclePropConfig) umap \<times> 'h DefaultVehicleHal) option" where
  "getConfigsByPropId plat hal = map_option (\<lambda>hal'. (mConfigsByPropId hal', hal')) (loadConfigs plat hal)"

definition getAllPropConfigs ::
  "'h Platform \<Rightarrow> 'h DefaultVehicleHal \<Rightarrow> (VehiclePropConfig Parcel \<times> 'h DefaultVehicleHal) option" where
  "getAllPropConfigs plat hal = map_option (\<lambda>hal'. (case mConfigFile hal' of
       Some configs \<Rightarrow> SharedMemory configs
     | None \<Rightarrow> Payloads (map snd (mConfigsByPropId hal')), hal')) (loadConfigs plat hal)"

definition getConfig :: "'h Platform \<Rightarrow> 'h DefaultVehicleHal \<Rightarrow> int32 \<Rightarrow> VehiclePropConfig option" where
  "getConfig plat hal p =
    (if \<not> mConfigInit hal
     then (case hw_getPropertyConfig (hardware plat) (vehicleHardware hal) p of
         None \<Rightarrow> None
       | Some config \<Rightarrow> if \<not> isConfigSupportedForCurrentVhalVersion plat config then None else Some config)
     else map_of (mConfigsByPropId hal) p)"

fun getEach :: "('k \<Rightarrow> 'v option) \<Rightarrow> 'k list \<Rightarrow> 'v list option" where
  "getEach f [] = Some []"
| "getEach f (k # ks) = (case f k of None \<Rightarrow> None | Some v \<Rightarrow> map_option ((#) v) (getEach f ks))"

definition getPropConfigs ::
  "'h Platform \<Rightarrow> int32 list \<Rightarrow> 'h DefaultVehicleHal \<Rightarrow> ScopedAStatus \<times> VehiclePropConfig Parcel" where
  "getPropConfigs plat props hal =
    (case getEach (getConfig plat hal) props of
       None \<Rightarrow> (StatusServiceSpecific INVALID_ARG, Payloads [])
     | Some configs \<Rightarrow> vectorToStableLargeParcelable (marshalConfigs plat) configs)"

section \<open>Checking values and permissions\<close>

definition hasRequiredAccess :: "VehiclePropertyAccess \<Rightarrow> VehiclePropertyAccess \<Rightarrow> bool" where
  "hasRequiredAccess access requiredAccess \<longleftrightarrow> access = requiredAccess \<or> access = READ_WRITE"

definition areaConfigsHaveRequiredAccess :: "VehicleAreaConfig list \<Rightarrow> VehiclePropertyAccess \<Rightarrow> bool" where
  "areaConfigsHaveRequiredAccess areaConfigs requiredAccess =
    (if areaConfigs = [] then False
     else list_all (\<lambda>ac. hasRequiredAccess (ac_access ac) requiredAccess) areaConfigs)"

text \<open>The outer option is the undefined access of \<open>checkVendorMixedPropValue\<close>; the inner value whether the check passed.\<close>

definition checkProperty :: "'h Platform \<Rightarrow> 'h DefaultVehicleHal \<Rightarrow> VehiclePropValue \<Rightarrow> bool option" where
  "checkProperty plat hal v =
    (case getConfig plat hal (pv_prop v) of
       None \<Rightarrow> Some False
     | Some config \<Rightarrow>
       let areaConfig = getAreaConfigForValue v config in
       if \<not> isGlobalProp (pv_prop v) \<and> areaConfig = None then Some False
       else case checkPropValue v config of
         None \<Rightarrow> None
       | Some (Inl _) \<Rightarrow> Some False
       | Some (Inr _) \<Rightarrow> (case checkValueRange v areaConfig of Inl _ \<Rightarrow> Some False | Inr _ \<Rightarrow> Some True))"

definition checkPermissionHelper ::
  "'h Platform \<Rightarrow> 'h DefaultVehicleHal \<Rightarrow> VehiclePropValue \<Rightarrow> VehiclePropertyAccess \<Rightarrow> unit VhalResult" where
  "checkPermissionHelper plat hal v accessToTest =
    (if accessToTest \<notin> {WRITE, READ, READ_WRITE} then Inl INVALID_ARG
     else case getConfig plat hal (pv_prop v) of
       None \<Rightarrow> Inl INVALID_ARG
     | Some config \<Rightarrow>
       let areaConfig = getAreaConfigForValue v config in
       if areaConfig = None \<and> \<not> isGlobalProp (pv_prop v) then Inl INVALID_ARG
       else if \<not> hasRequiredAccess (pc_access config) accessToTest \<and>
               (case areaConfig of None \<Rightarrow> True | Some ac \<Rightarrow> \<not> hasRequiredAccess (ac_access ac) accessToTest)
       then Inl ACCESS_DENIED
       else Inr ())"

definition checkWritePermission :: "'h Platform \<Rightarrow> 'h DefaultVehicleHal \<Rightarrow> VehiclePropValue \<Rightarrow> unit VhalResult" where
  "checkWritePermission plat hal v = checkPermissionHelper plat hal v WRITE"

definition checkReadPermission :: "'h Platform \<Rightarrow> 'h DefaultVehicleHal \<Rightarrow> VehiclePropValue \<Rightarrow> unit VhalResult" where
  "checkReadPermission plat hal v = checkPermissionHelper plat hal v READ"

section \<open>Clients and their binders\<close>

definition monitorBinderLifeCycleLocked ::
  "(ClientIdType \<Rightarrow> bool) \<Rightarrow> ClientIdType \<Rightarrow> 'h DefaultVehicleHal \<Rightarrow> bool \<times> 'h DefaultVehicleHal" where
  "monitorBinderLifeCycleLocked alive client hal =
    (if client \<in> set (mOnBinderDiedContexts hal) then (alive client, hal)
     else (alive client, hal\<lparr>mOnBinderDiedContexts := uset_insert client (mOnBinderDiedContexts hal)\<rparr>))"

text \<open>\<open>getOrCreateClient\<close>: the client, the map and the counter of identities afterwards.\<close>

definition getOrCreateClient ::
  "VehicleCallback \<Rightarrow> (ClientIdType, ConnectedClient) umap \<Rightarrow> ClientId \<Rightarrow>
     ConnectedClient \<times> (ClientIdType, ConnectedClient) umap \<times> ClientId" where
  "getOrCreateClient cb clients fresh =
    (case map_of clients (cbBinder cb) of
       Some client \<Rightarrow> (client, clients, fresh)
     | None \<Rightarrow> let client = \<lparr>cl_id = fresh, cl_callback = cb\<rparr> in
         (client, umap_put (cbBinder cb) client clients, fresh + 1))"

definition onBinderDied :: "ClientIdType \<Rightarrow> 'h DefaultVehicleHal \<Rightarrow> 'h DefaultVehicleHal" where
  "onBinderDied client hal = hal\<lparr>mBinderEvents := push (BinderEvent True client) (mBinderEvents hal)\<rparr>"

definition onBinderUnlinked :: "ClientIdType \<Rightarrow> 'h DefaultVehicleHal \<Rightarrow> 'h DefaultVehicleHal" where
  "onBinderUnlinked client hal = hal\<lparr>mBinderEvents := push (BinderEvent False client) (mBinderEvents hal)\<rparr>"

definition onBinderDiedWithContext ::
  "'h Platform \<Rightarrow> ClientIdType \<Rightarrow> 'h DefaultVehicleHal \<Rightarrow> 'h DefaultVehicleHal" where
  "onBinderDiedWithContext plat client hal = hal\<lparr>
     mSetValuesClients := umap_erase client (mSetValuesClients hal),
     mGetValuesClients := umap_erase client (mGetValuesClients hal),
     mSubscriptionManager := snd (unsubscribeAll (hardware plat) client (mSubscriptionManager hal))\<rparr>"

definition onBinderUnlinkedWithContext :: "ClientIdType \<Rightarrow> 'h DefaultVehicleHal \<Rightarrow> 'h DefaultVehicleHal" where
  "onBinderUnlinkedWithContext client hal =
     hal\<lparr>mOnBinderDiedContexts := uset_erase client (mOnBinderDiedContexts hal)\<rparr>"

text \<open>One round of \<open>onBinderDiedUnlinkedHandler\<close>: the events flushed from the queue, in order.\<close>

definition handleBinderEvent ::
  "'h Platform \<Rightarrow> BinderDiedUnlinkedEvent \<Rightarrow> 'h DefaultVehicleHal \<Rightarrow> 'h DefaultVehicleHal" where
  "handleBinderEvent plat event hal =
    (if forOnBinderDied event then onBinderDiedWithContext plat (clientId event) hal
     else onBinderUnlinkedWithContext (clientId event) hal)"

definition onBinderDiedUnlinkedHandler :: "'h Platform \<Rightarrow> 'h DefaultVehicleHal \<Rightarrow> 'h DefaultVehicleHal" where
  "onBinderDiedUnlinkedHandler plat hal =
    (let (events, queue) = flush (mBinderEvents hal) in
     fold (handleBinderEvent plat) events (hal\<lparr>mBinderEvents := queue\<rparr>))"

definition countClients :: "'h DefaultVehicleHal \<Rightarrow> nat" where
  "countClients hal = length (mGetValuesClients hal) + length (mSetValuesClients hal) +
     countPropertyChangeClients (mSubscriptionManager hal) +
     countSupportedValueChangeClients (mSubscriptionManager hal)"

section \<open>Reading and writing values\<close>

text \<open>
  \<open>checkDuplicateRequests\<close> keeps the whole values in a set (\<^verbatim>\<open>std::set<VehiclePropValue>\<close>), so two requests
  are duplicates when all their fields are equal. (A value holding a NaN is not ordered by the
  comparison of the set; the model compares it as a datum.)
\<close>

definition checkDuplicateGetRequests :: "GetValueRequest list \<Rightarrow> unit + int list" where
  "checkDuplicateGetRequests requests =
    (if \<not> distinct (map gr_prop requests) then Inl () else Inr (map gr_requestId requests))"

definition checkDuplicateSetRequests :: "SetValueRequest list \<Rightarrow> unit + int list" where
  "checkDuplicateSetRequests requests =
    (if \<not> distinct (map sr_value requests) then Inl () else Inr (map sr_requestId requests))"

text \<open>The loops that split the requests into results that failed already and requests for the hardware.\<close>

fun splitGetRequests ::
  "'h Platform \<Rightarrow> 'h DefaultVehicleHal \<Rightarrow> GetValueRequest list \<Rightarrow> GetValueResult list \<times> GetValueRequest list" where
  "splitGetRequests plat hal [] = ([], [])"
| "splitGetRequests plat hal (r # rs) =
    (let (failed, hardwareRequests) = splitGetRequests plat hal rs in
     case checkReadPermission plat hal (gr_prop r) of
       Inl e \<Rightarrow> (\<lparr>gres_requestId = gr_requestId r, gres_status = e, gres_prop = None\<rparr> # failed, hardwareRequests)
     | Inr _ \<Rightarrow> (failed, r # hardwareRequests))"

fun splitSetRequests ::
  "'h Platform \<Rightarrow> 'h DefaultVehicleHal \<Rightarrow> SetValueRequest list \<Rightarrow> (SetValueResult list \<times> SetValueRequest list) option" where
  "splitSetRequests plat hal [] = Some ([], [])"
| "splitSetRequests plat hal (r # rs) =
    (case checkWritePermission plat hal (sr_value r) of
       Inl e \<Rightarrow> map_option (\<lambda>(failed, hardwareRequests).
         (\<lparr>sres_requestId = sr_requestId r, sres_status = e\<rparr> # failed, hardwareRequests)) (splitSetRequests plat hal rs)
     | Inr _ \<Rightarrow> (case checkProperty plat hal (sr_value r) of
         None \<Rightarrow> None
       | Some False \<Rightarrow> map_option (\<lambda>(failed, hardwareRequests).
           (\<lparr>sres_requestId = sr_requestId r, sres_status = INVALID_ARG\<rparr> # failed, hardwareRequests))
           (splitSetRequests plat hal rs)
       | Some True \<Rightarrow> map_option (\<lambda>(failed, hardwareRequests). (failed, r # hardwareRequests))
           (splitSetRequests plat hal rs)))"

text \<open>
  The part both operations share once the client is known: the requests for the hardware become
  pending, the failed results are sent, and the hardware is called (\<open>send\<close>) unless nothing is left for it.
\<close>

definition dispatchRequests ::
  "int \<Rightarrow> ConnectedClient \<Rightarrow> ('r list \<Rightarrow> HalCall list) \<Rightarrow> 'r list \<Rightarrow> int list \<Rightarrow> bool \<Rightarrow>
     (nat \<Rightarrow> 'h \<Rightarrow> StatusCode \<times> 'h) \<Rightarrow> 'h DefaultVehicleHal \<Rightarrow>
     ScopedAStatus \<times> (VehicleCallback \<times> HalCall) list \<times> 'h DefaultVehicleHal" where
  "dispatchRequests now client sendResults failedResults hardwareRequestIds nothingLeft send hal0 =
    (case client_addRequests now client hardwareRequestIds (mPendingRequestPool hal0) of
       (Inl e, pool) \<Rightarrow> (StatusServiceSpecific e, [], hal0\<lparr>mPendingRequestPool := pool\<rparr>)
     | (Inr _, pool) \<Rightarrow>
       let hal = hal0\<lparr>mPendingRequestPool := pool\<rparr>;
           calls = (if failedResults \<noteq> [] then map (Pair (cl_callback client)) (sendResults failedResults) else []) in
       if nothingLeft then (StatusOk, calls, hal)
       else case send (getResultCallback client) (vehicleHardware hal) of (status, h) \<Rightarrow>
         if status \<noteq> OK
         then (StatusServiceSpecific status, calls, setHardware h (hal\<lparr>mPendingRequestPool :=
                 snd (client_tryFinishRequests client hardwareRequestIds pool)\<rparr>))
         else (StatusOk, calls, setHardware h hal))"

definition getValues ::
  "'h Platform \<Rightarrow> (ClientIdType \<Rightarrow> bool) \<Rightarrow> int \<Rightarrow> VehicleCallback option \<Rightarrow> ScopedAStatus + GetValueRequest list \<Rightarrow>
     'h DefaultVehicleHal \<Rightarrow> ScopedAStatus \<times> (VehicleCallback \<times> HalCall) list \<times> 'h DefaultVehicleHal" where
  "getValues plat alive now cb0 deserialized hal =
    (case cb0 of None \<Rightarrow> (StatusException EX_NULL_POINTER, [], hal) | Some cb \<Rightarrow>
     case deserialized of Inl status \<Rightarrow> (status, [], hal) | Inr requests \<Rightarrow>
     case checkDuplicateGetRequests requests of Inl _ \<Rightarrow> (StatusServiceSpecific INVALID_ARG, [], hal) | Inr _ \<Rightarrow>
     let (failedResults, hardwareRequests) = splitGetRequests plat hal requests;
         hardwareRequestIds = fold (\<lambda>r s. uset_insert (gr_requestId r) s) hardwareRequests [];
         (ok, hal1) = monitorBinderLifeCycleLocked alive (cbBinder cb) hal in
     if \<not> ok then (StatusException EX_TRANSACTION_FAILED, [], hal1)
     else let (client, clients, fresh) = getOrCreateClient cb (mGetValuesClients hal1) (mNextClient hal1) in
       dispatchRequests now client (\<lambda>rs. map GetResults (sendGetOrSetValueResults (marshalGetResults plat) rs))
         failedResults hardwareRequestIds (hardwareRequests = [])
         (\<lambda>resultCallback. hw_getValues (hardware plat) resultCallback hardwareRequests)
         (hal1\<lparr>mGetValuesClients := clients, mNextClient := fresh\<rparr>))"

definition setValues ::
  "'h Platform \<Rightarrow> (ClientIdType \<Rightarrow> bool) \<Rightarrow> int \<Rightarrow> VehicleCallback option \<Rightarrow> ScopedAStatus + SetValueRequest list \<Rightarrow>
     'h DefaultVehicleHal \<Rightarrow> (ScopedAStatus \<times> (VehicleCallback \<times> HalCall) list \<times> 'h DefaultVehicleHal) option" where
  "setValues plat alive now cb0 deserialized hal =
    (case cb0 of None \<Rightarrow> Some (StatusException EX_NULL_POINTER, [], hal) | Some cb \<Rightarrow>
     case deserialized of Inl status \<Rightarrow> Some (status, [], hal) | Inr requests \<Rightarrow>
     case checkDuplicateSetRequests requests of Inl _ \<Rightarrow> Some (StatusServiceSpecific INVALID_ARG, [], hal) | Inr _ \<Rightarrow>
     case splitSetRequests plat hal requests of None \<Rightarrow> None | Some (failedResults, hardwareRequests) \<Rightarrow>
     let hardwareRequestIds = fold (\<lambda>r s. uset_insert (sr_requestId r) s) hardwareRequests [];
         (ok, hal1) = monitorBinderLifeCycleLocked alive (cbBinder cb) hal in
     Some (if \<not> ok then (StatusException EX_TRANSACTION_FAILED, [], hal1)
     else let (client, clients, fresh) = getOrCreateClient cb (mSetValuesClients hal1) (mNextClient hal1) in
       dispatchRequests now client (\<lambda>rs. map SetResults (sendGetOrSetValueResults (marshalSetResults plat) rs))
         failedResults hardwareRequestIds (hardwareRequests = [])
         (\<lambda>resultCallback. hw_setValues (hardware plat) resultCallback hardwareRequests)
         (hal1\<lparr>mSetValuesClients := clients, mNextClient := fresh\<rparr>)))"

text \<open>The hardware calls the result callback it was given; the timeout thread checks the pool.\<close>

definition onGetResults ::
  "'h Platform \<Rightarrow> ConnectedClient \<Rightarrow> GetValueResult list \<Rightarrow> 'h DefaultVehicleHal \<Rightarrow>
     (VehicleCallback \<times> HalCall) list \<times> 'h DefaultVehicleHal" where
  "onGetResults plat client results hal =
    (case getOrSetValuesCallback (marshalGetResults plat) gres_requestId (cl_id client) results (mPendingRequestPool hal) of
       (parcels, pool) \<Rightarrow> (map (\<lambda>p. (cl_callback client, GetResults p)) parcels, hal\<lparr>mPendingRequestPool := pool\<rparr>))"

definition onSetResults ::
  "'h Platform \<Rightarrow> ConnectedClient \<Rightarrow> SetValueResult list \<Rightarrow> 'h DefaultVehicleHal \<Rightarrow>
     (VehicleCallback \<times> HalCall) list \<times> 'h DefaultVehicleHal" where
  "onSetResults plat client results hal =
    (case getOrSetValuesCallback (marshalSetResults plat) sres_requestId (cl_id client) results (mPendingRequestPool hal) of
       (parcels, pool) \<Rightarrow> (map (\<lambda>p. (cl_callback client, SetResults p)) parcels, hal\<lparr>mPendingRequestPool := pool\<rparr>))"

section \<open>Subscribing\<close>

definition getDefaultSampleRateHz :: "fp \<Rightarrow> fp \<Rightarrow> fp \<Rightarrow> fp" where
  "getDefaultSampleRateHz sampleRateHz minSampleRateHz maxSampleRateHz =
    (if fp_lt sampleRateHz minSampleRateHz then minSampleRateHz
     else if fp_lt maxSampleRateHz sampleRateHz then maxSampleRateHz
     else sampleRateHz)"

text \<open>The area configurations an option selects; \<open>None\<close> when it names an area that is not configured.\<close>

definition selectedAreaConfigs :: "SubscribeOptions \<Rightarrow> VehiclePropConfig \<Rightarrow> VehicleAreaConfig list option" where
  "selectedAreaConfigs option config =
    (if so_areaIds option = [] then Some (pc_areaConfigs config)
     else let areaConfigByAreaId = fold (\<lambda>ac m. umap_insert (ac_areaId ac) ac m) (pc_areaConfigs config) [] in
       map_option concat (getEach (\<lambda>a. case map_of areaConfigByAreaId a of
           Some ac \<Rightarrow> Some [ac]
         | None \<Rightarrow> if a \<noteq> 0 \<or> areaConfigByAreaId \<noteq> [] then None else Some []) (so_areaIds option)))"

definition checkSubscribeOption ::
  "(fp \<Rightarrow> fp) \<Rightarrow> (int32, VehiclePropConfig) umap \<Rightarrow> SubscribeOptions \<Rightarrow> unit VhalResult" where
  "checkSubscribeOption log10f configsByPropId option =
    (case map_of configsByPropId (so_propId option) of None \<Rightarrow> Inl INVALID_ARG | Some config \<Rightarrow>
     case selectedAreaConfigs option config of None \<Rightarrow> Inl INVALID_ARG | Some areaConfigs \<Rightarrow>
     if pc_changeMode config \<noteq> ON_CHANGE \<and> pc_changeMode config \<noteq> CONTINUOUS then Inl INVALID_ARG
     else if \<not> hasRequiredAccess (pc_access config) READ \<and> \<not> areaConfigsHaveRequiredAccess areaConfigs READ
     then Inl ACCESS_DENIED
     else if pc_changeMode config = CONTINUOUS
     then (let defaultRateHz = getDefaultSampleRateHz (so_sampleRate option) (pc_minSampleRate config) (pc_maxSampleRate config);
               sampleRateHz = (if \<not> fp_eq (so_sampleRate option) defaultRateHz then defaultRateHz else so_sampleRate option) in
           if \<not> checkSampleRateHz sampleRateHz then Inl INVALID_ARG
           else if \<not> checkResolution log10f (so_resolution option) then Inl INVALID_ARG
           else Inr ())
     else Inr ())"

fun checkSubscribeOptions ::
  "(fp \<Rightarrow> fp) \<Rightarrow> SubscribeOptions list \<Rightarrow> (int32, VehiclePropConfig) umap \<Rightarrow> unit VhalResult" where
  "checkSubscribeOptions log10f [] configs = Inr ()"
| "checkSubscribeOptions log10f (option # options) configs =
    (case checkSubscribeOption log10f configs option of
       Inl e \<Rightarrow> Inl e | Inr _ \<Rightarrow> checkSubscribeOptions log10f options configs)"

text \<open>The subscriptions one option gives: on-change ones and continuous ones.\<close>

definition parseSubscribeOption ::
  "(int32, VehiclePropConfig) umap \<Rightarrow> SubscribeOptions \<Rightarrow> (SubscribeOptions list \<times> SubscribeOptions list) option" where
  "parseSubscribeOption configsByPropId option0 =
    map_option (\<lambda>config.
      let p = so_propId option0;
          option1 = (if so_areaIds option0 = [] \<and> \<not> isGlobalProp p
                     then option0\<lparr>so_areaIds := map ac_areaId (pc_areaConfigs config)\<rparr> else option0);
          option2 = (if isGlobalProp p then option1\<lparr>so_areaIds := [0]\<rparr> else option1) in
      if pc_changeMode config = CONTINUOUS then
        let option3 = option2\<lparr>so_sampleRate := getDefaultSampleRateHz (so_sampleRate option2)
                        (pc_minSampleRate config) (pc_maxSampleRate config)\<rparr> in
        if \<not> so_enableVariableUpdateRate option3 then ([], [option3])
        else
          let supported = (\<lambda>a. case getAreaConfig p a config of
                None \<Rightarrow> False | Some ac \<Rightarrow> ac_supportVariableUpdateRate ac);
              areasVurEnabled = filter supported (so_areaIds option3);
              areasVurDisabled = filter (\<lambda>a. \<not> supported a) (so_areaIds option3) in
          ([], (if areasVurEnabled \<noteq> []
                then [option3\<lparr>so_areaIds := areasVurEnabled, so_enableVariableUpdateRate := True\<rparr>] else []) @
               (if areasVurDisabled \<noteq> []
                then [option3\<lparr>so_areaIds := areasVurDisabled, so_enableVariableUpdateRate := False\<rparr>] else []))
      else ([option2], [])) (map_of configsByPropId (so_propId option0))"

fun parseSubscribeOptions ::
  "SubscribeOptions list \<Rightarrow> (int32, VehiclePropConfig) umap \<Rightarrow> (SubscribeOptions list \<times> SubscribeOptions list) option" where
  "parseSubscribeOptions [] configs = Some ([], [])"
| "parseSubscribeOptions (option # options) configs =
    (case parseSubscribeOption configs option of
       None \<Rightarrow> None
     | Some (onChange, cont) \<Rightarrow> map_option (\<lambda>(onChange', cont'). (onChange @ onChange', cont @ cont'))
         (parseSubscribeOptions options configs))"

definition halSubscribe ::
  "'h Platform \<Rightarrow> (ClientIdType \<Rightarrow> bool) \<Rightarrow> VehicleCallback option \<Rightarrow> SubscribeOptions list \<Rightarrow>
     'h DefaultVehicleHal \<Rightarrow> (ScopedAStatus \<times> 'h DefaultVehicleHal) option" where
  "halSubscribe plat alive cb0 options hal0 =
    (case cb0 of None \<Rightarrow> Some (StatusException EX_NULL_POINTER, hal0) | Some cb \<Rightarrow>
     case getConfigsByPropId plat hal0 of None \<Rightarrow> None | Some (configsByPropId, hal) \<Rightarrow>
     case checkSubscribeOptions (plat_log10f plat) options configsByPropId of
       Inl e \<Rightarrow> Some (StatusServiceSpecific e, hal)
     | Inr _ \<Rightarrow>
     case parseSubscribeOptions options configsByPropId of None \<Rightarrow> None | Some (onChange, cont) \<Rightarrow>
     let (ok, hal1) = monitorBinderLifeCycleLocked alive (cbBinder cb) hal in
     if \<not> ok then Some (StatusException EX_TRANSACTION_FAILED, hal1)
     else
       let (result, manager) = bindE
             (\<lambda>sm. if onChange \<noteq> [] then subscribe (plat_log10f plat) (hardware plat) cb onChange False sm else (Inr (), sm))
             (\<lambda>_ sm. if cont \<noteq> [] then subscribe (plat_log10f plat) (hardware plat) cb cont True sm else (Inr (), sm))
             (mSubscriptionManager hal1) in
       Some (toScopedAStatus result, hal1\<lparr>mSubscriptionManager := manager\<rparr>))"

definition halUnsubscribe ::
  "'h Platform \<Rightarrow> VehicleCallback option \<Rightarrow> int32 list \<Rightarrow> 'h DefaultVehicleHal \<Rightarrow> ScopedAStatus \<times> 'h DefaultVehicleHal" where
  "halUnsubscribe plat cb0 propIds hal =
    (case cb0 of None \<Rightarrow> (StatusException EX_NULL_POINTER, hal) | Some cb \<Rightarrow>
     case unsubscribe (hardware plat) (cbBinder cb) propIds (mSubscriptionManager hal) of
       (result, manager) \<Rightarrow> (toScopedAStatus result, hal\<lparr>mSubscriptionManager := manager\<rparr>))"

section \<open>Supported values\<close>

definition getAreaConfigForPropIdAreaId ::
  "'h Platform \<Rightarrow> 'h DefaultVehicleHal \<Rightarrow> int32 \<Rightarrow> int32 \<Rightarrow> VehicleAreaConfig option" where
  "getAreaConfigForPropIdAreaId plat hal p a =
    (case getConfig plat hal p of None \<Rightarrow> None | Some config \<Rightarrow> getAreaConfig p a config)"

definition getHasSupportedValueInfo ::
  "'h Platform \<Rightarrow> 'h DefaultVehicleHal \<Rightarrow> int32 \<Rightarrow> int32 \<Rightarrow> HasSupportedValueInfo option" where
  "getHasSupportedValueInfo plat hal p a =
    (let result = getAreaConfigForPropIdAreaId plat hal p a in
     if \<not> isGlobalProp p \<and> result = None then None
     else case result of None \<Rightarrow> None | Some ac \<Rightarrow> ac_hasSupportedValueInfo ac)"

text \<open>
  The loop of both getters: each position is answered at once (\<open>Inl\<close>) or sent to the hardware (\<open>Inr\<close>);
  then the results of the hardware are stored at their positions, after a check of their number.
\<close>

fun fillResults :: "('r + 'k) list \<Rightarrow> 'r list \<Rightarrow> 'r list" where
  "fillResults [] rs = []"
| "fillResults (Inl r # xs) rs = r # fillResults xs rs"
| "fillResults (Inr k # xs) (r # rs) = r # fillResults xs rs"
| "fillResults (Inr k # xs) [] = []"

definition toHardware :: "('r + 'k) list \<Rightarrow> 'k list" where
  "toHardware xs = concat (map (\<lambda>x. case x of Inl _ \<Rightarrow> [] | Inr k \<Rightarrow> [k]) xs)"

definition answerEach ::
  "('r list \<Rightarrow> MarshalResult) \<Rightarrow> ('k list \<Rightarrow> 'r list) \<Rightarrow> ('r + 'k) list \<Rightarrow> ScopedAStatus \<times> 'r Parcel" where
  "answerEach marshal ask xs =
    (let ks = toHardware xs in
     if ks \<noteq> [] \<and> length (ask ks) \<noteq> length ks then (StatusServiceSpecific INTERNAL_ERROR, Payloads [])
     else vectorToStableLargeParcelable marshal (fillResults xs (if ks \<noteq> [] then ask ks else [])))"

definition getSupportedValuesListsRequest ::
  "'h Platform \<Rightarrow> 'h DefaultVehicleHal \<Rightarrow> PropIdAreaId \<Rightarrow> SupportedValuesListResult + PropIdAreaId" where
  "getSupportedValuesListsRequest plat hal k =
    (case getHasSupportedValueInfo plat hal (propId k) (areaId k) of
       None \<Rightarrow> Inl \<lparr>svl_status = INVALID_ARG, svl_supportedValuesList = None\<rparr>
     | Some info \<Rightarrow> if hasSupportedValuesList info then Inr k
         else Inl \<lparr>svl_status = OK, svl_supportedValuesList = None\<rparr>)"

definition halGetSupportedValuesLists ::
  "'h Platform \<Rightarrow> PropIdAreaId list \<Rightarrow> 'h DefaultVehicleHal \<Rightarrow> ScopedAStatus \<times> SupportedValuesListResult Parcel" where
  "halGetSupportedValuesLists plat ks hal =
     answerEach (marshalLists plat) (\<lambda>ks. hw_getSupportedValuesLists (hardware plat) ks (vehicleHardware hal))
       (map (getSupportedValuesListsRequest plat hal) ks)"

definition getMinMaxSupportedValueRequest ::
  "'h Platform \<Rightarrow> 'h DefaultVehicleHal \<Rightarrow> PropIdAreaId \<Rightarrow> MinMaxSupportedValueResult + PropIdAreaId" where
  "getMinMaxSupportedValueRequest plat hal k =
    (case getHasSupportedValueInfo plat hal (propId k) (areaId k) of
       None \<Rightarrow> Inl \<lparr>mm_status = INVALID_ARG, mm_minSupportedValue = None, mm_maxSupportedValue = None\<rparr>
     | Some info \<Rightarrow> if hasMinSupportedValue info \<or> hasMaxSupportedValue info then Inr k
         else Inl \<lparr>mm_status = OK, mm_minSupportedValue = None, mm_maxSupportedValue = None\<rparr>)"

definition halGetMinMaxSupportedValue ::
  "'h Platform \<Rightarrow> PropIdAreaId list \<Rightarrow> 'h DefaultVehicleHal \<Rightarrow> ScopedAStatus \<times> MinMaxSupportedValueResult Parcel" where
  "halGetMinMaxSupportedValue plat ks hal =
     answerEach (marshalMinMax plat) (\<lambda>ks. hw_getMinMaxSupportedValues (hardware plat) ks (vehicleHardware hal))
       (map (getMinMaxSupportedValueRequest plat hal) ks)"

text \<open>The areas to subscribe, or the error of the first one whose information is missing.\<close>

fun supportedValueAreas ::
  "'h Platform \<Rightarrow> 'h DefaultVehicleHal \<Rightarrow> PropIdAreaId list \<Rightarrow> PropIdAreaId list option" where
  "supportedValueAreas plat hal [] = Some []"
| "supportedValueAreas plat hal (k # ks) =
    (case getHasSupportedValueInfo plat hal (propId k) (areaId k) of
       None \<Rightarrow> None
     | Some info \<Rightarrow>
       if \<not> hasMinSupportedValue info \<and> \<not> hasMaxSupportedValue info \<and> \<not> hasSupportedValuesList info
       then supportedValueAreas plat hal ks
       else map_option ((#) k) (supportedValueAreas plat hal ks))"

definition halRegisterSupportedValueChangeCallback ::
  "'h Platform \<Rightarrow> (ClientIdType \<Rightarrow> bool) \<Rightarrow> VehicleCallback \<Rightarrow> PropIdAreaId list \<Rightarrow> 'h DefaultVehicleHal \<Rightarrow>
     ScopedAStatus \<times> 'h DefaultVehicleHal" where
  "halRegisterSupportedValueChangeCallback plat alive cb ks hal =
    (case supportedValueAreas plat hal ks of
       None \<Rightarrow> (StatusServiceSpecific INVALID_ARG, hal)
     | Some toSubscribe \<Rightarrow>
       if toSubscribe = [] then (StatusOk, hal)
       else let (ok, hal1) = monitorBinderLifeCycleLocked alive (cbBinder cb) hal in
         if \<not> ok then (StatusException EX_TRANSACTION_FAILED, hal1)
         else case subscribeSupportedValueChange (hardware plat) cb toSubscribe (mSubscriptionManager hal1) of
           (result, manager) \<Rightarrow> (toScopedAStatus result, hal1\<lparr>mSubscriptionManager := manager\<rparr>))"

definition halUnregisterSupportedValueChangeCallback ::
  "'h Platform \<Rightarrow> VehicleCallback \<Rightarrow> PropIdAreaId list \<Rightarrow> 'h DefaultVehicleHal \<Rightarrow> ScopedAStatus \<times> 'h DefaultVehicleHal" where
  "halUnregisterSupportedValueChangeCallback plat cb ks hal =
    (case unsubscribeSupportedValueChange (hardware plat) (cbBinder cb) ks (mSubscriptionManager hal) of
       (result, manager) \<Rightarrow> (toScopedAStatus result, hal\<lparr>mSubscriptionManager := manager\<rparr>))"

section \<open>Events of the hardware\<close>

definition onPropertyChangeEvent ::
  "'h Platform \<Rightarrow> VehiclePropValue list \<Rightarrow> 'h DefaultVehicleHal \<Rightarrow>
     ((VehicleCallback \<times> HalCall) list \<times> 'h DefaultVehicleHal) option" where
  "onPropertyChangeEvent plat updatedValues hal =
    map_option (\<lambda>(clients, manager).
      (concat (map (\<lambda>(cb, values). map (\<lambda>c. (cb, EventCall c)) (sendUpdatedValues (marshalEvents plat) values)) clients),
       hal\<lparr>mSubscriptionManager := manager\<rparr>)) (getSubscribedClients updatedValues (mSubscriptionManager hal))"

definition onPropertySetErrorEvent ::
  "'h Platform \<Rightarrow> SetValueErrorEvent list \<Rightarrow> 'h DefaultVehicleHal \<Rightarrow> (VehicleCallback \<times> HalCall) list" where
  "onPropertySetErrorEvent plat errorEvents hal =
    concat (map (\<lambda>(cb, errors). map (\<lambda>c. (cb, EventCall c)) (sendPropertySetErrors (marshalErrors plat) errors))
      (getSubscribedClientsForErrorEvents errorEvents (mSubscriptionManager hal)))"

definition onSupportedValueChange ::
  "PropIdAreaId list \<Rightarrow> 'h DefaultVehicleHal \<Rightarrow> (VehicleCallback \<times> HalCall) list" where
  "onSupportedValueChange ks hal =
    concat (map (\<lambda>(cb, updated). map (\<lambda>c. (cb, EventCall c)) (sendSupportedValueChangeEvents updated))
      (getSubscribedClientsForSupportedValueChange ks (mSubscriptionManager hal)))"

text \<open>The property change callback of the hardware: batched when the batching window is not zero.\<close>

definition batchPropertyChangeEvent :: "VehiclePropValue list \<Rightarrow> 'h DefaultVehicleHal \<Rightarrow> 'h DefaultVehicleHal" where
  "batchPropertyChangeEvent updatedValues hal =
    (case mBatchedEventQueue hal of
       None \<Rightarrow> hal | Some queue \<Rightarrow> hal\<lparr>mBatchedEventQueue := Some (pushAll updatedValues queue)\<rparr>)"

definition propertyChangeCallback ::
  "'h Platform \<Rightarrow> VehiclePropValue list \<Rightarrow> 'h DefaultVehicleHal \<Rightarrow>
     ((VehicleCallback \<times> HalCall) list \<times> 'h DefaultVehicleHal) option" where
  "propertyChangeCallback plat updatedValues hal =
    (if mBatchedEventQueue hal \<noteq> None then Some ([], batchPropertyChangeEvent updatedValues hal)
     else onPropertyChangeEvent plat updatedValues hal)"

text \<open>A batch of the batching consumer: the queue is flushed and the events are handled.\<close>

definition handleBatchedPropertyEvents ::
  "'h Platform \<Rightarrow> VehiclePropValue list \<Rightarrow> 'h DefaultVehicleHal \<Rightarrow>
     ((VehicleCallback \<times> HalCall) list \<times> 'h DefaultVehicleHal) option" where
  "handleBatchedPropertyEvents plat batchedEvents hal = onPropertyChangeEvent plat batchedEvents hal"

definition VHAL_HEARTBEAT :: int32 where "VHAL_HEARTBEAT = 0x11500f33"

definition halCheckHealth ::
  "'h Platform \<Rightarrow> int \<Rightarrow> 'h DefaultVehicleHal \<Rightarrow> ((VehicleCallback \<times> HalCall) list \<times> 'h DefaultVehicleHal) option" where
  "halCheckHealth plat uptimeMillis hal =
    (if hw_checkHealth (hardware plat) (vehicleHardware hal) \<noteq> OK then Some ([], hal)
     else onPropertyChangeEvent plat [\<lparr>pv_timestamp = 0, pv_areaId = 0, pv_prop = VHAL_HEARTBEAT, pv_status = AVAILABLE,
            pv_value = raw_default\<lparr>int64Values := [uptimeMillis]\<rparr>\<rparr>] hal)"

section \<open>Requests\<close>

text \<open>The results the calls deliver, and the requests of a call that are answered or pending.\<close>

definition getDelivered :: "(VehicleCallback \<times> HalCall) list \<Rightarrow> GetValueResult list" where
  "getDelivered calls = concat (map (\<lambda>(_, c). case c of GetResults p \<Rightarrow> contents p | _ \<Rightarrow> []) calls)"

lemma getDelivered_send [simp]:
  "getDelivered (map (Pair cb) (map GetResults (sendGetOrSetValueResults marshal rs))) = rs"
  using delivered_sendResults [of marshal rs] by (simp add: getDelivered_def delivered_results_def comp_def)

lemma getDelivered_send' [simp]:
  "getDelivered (map (Pair cb \<circ> GetResults) (sendGetOrSetValueResults marshal rs)) = rs"
  using getDelivered_send by simp

lemma getDelivered_Nil [simp]: "getDelivered [] = []"
  by (simp add: getDelivered_def)

lemma setHardware_pool [simp]: "mPendingRequestPool (setHardware h hal) = mPendingRequestPool hal"
  "mGetValuesClients (setHardware h hal) = mGetValuesClients hal"
  "mSetValuesClients (setHardware h hal) = mSetValuesClients hal"
  by (simp_all add: setHardware_def)

lemma dispatch_pool:
  fixes now client sendR failed ids nothingLeft snd_op hal
  assumes ok: "pool_ok (mPendingRequestPool hal)" and d: "distinct ids"
  defines "r \<equiv> dispatchRequests now client sendR failed ids nothingLeft snd_op hal"
  shows "fst r = StatusOk \<Longrightarrow> pendingIds (mPendingRequestPool (snd (snd r))) c =
      (if c = cl_id client then pendingIds (mPendingRequestPool hal) c \<union> set ids
       else pendingIds (mPendingRequestPool hal) c)"
    and "fst r \<noteq> StatusOk \<Longrightarrow> pendingIds (mPendingRequestPool (snd (snd r))) c = pendingIds (mPendingRequestPool hal) c"
    and "pool_ok (mPendingRequestPool (snd (snd r)))"
proof -
  define pool where "pool = snd (client_addRequests now client ids (mPendingRequestPool hal))"
  have add: "client_addRequests now client ids (mPendingRequestPool hal) = poolAdd now (cl_id client) ids (mPendingRequestPool hal)"
    by (simp add: client_addRequests_def poolAdd_def)
  have pok: "pool_ok pool" using pool.add_ok [OF ok d] by (simp add: pool_def add)
  have tf: "pool_ok (snd (client_tryFinishRequests client ids pool))"
    "pendingIds (snd (client_tryFinishRequests client ids pool)) c =
       (if c = cl_id client then pendingIds pool c - set ids else pendingIds pool c)"
    using pool.finish_ok [OF pok] by (simp_all add: client_tryFinishRequests_def tryFinish_pending)
  have r: "(fst r = StatusOk \<longrightarrow> pendingIds (mPendingRequestPool (snd (snd r))) c =
      (if c = cl_id client then pendingIds (mPendingRequestPool hal) c \<union> set ids
       else pendingIds (mPendingRequestPool hal) c)) \<and>
    (fst r \<noteq> StatusOk \<longrightarrow> pendingIds (mPendingRequestPool (snd (snd r))) c = pendingIds (mPendingRequestPool hal) c) \<and>
    pool_ok (mPendingRequestPool (snd (snd r)))"
  proof (cases "fst (client_addRequests now client ids (mPendingRequestPool hal))")
    case (Inl e)
    then have a: "client_addRequests now client ids (mPendingRequestPool hal) = (Inl e, pool)"
      by (simp add: pool_def prod_eq_iff)
    have "pendingIds pool c = pendingIds (mPendingRequestPool hal) c"
      using pool.add_rejected [OF ok, of now "cl_id client" ids e c] a by (simp add: add)
    then show ?thesis using pok by (simp add: r_def dispatchRequests_def a)
  next
    case (Inr u)
    then have a: "client_addRequests now client ids (mPendingRequestPool hal) = (Inr (), pool)"
      by (simp add: pool_def prod_eq_iff)
    have p: "set ids \<inter> pendingIds (mPendingRequestPool hal) (cl_id client) = {}"
      "pendingIds pool c = (if c = cl_id client then pendingIds (mPendingRequestPool hal) (cl_id client) \<union> set ids
         else pendingIds (mPendingRequestPool hal) c)"
      using pool.add_accepted [OF ok d, of now "cl_id client" c] a by (auto simp: add)
    show ?thesis
      using pok tf p by (auto simp: r_def dispatchRequests_def a Let_def split: prod.split)
  qed
  then show "fst r = StatusOk \<Longrightarrow> pendingIds (mPendingRequestPool (snd (snd r))) c =
      (if c = cl_id client then pendingIds (mPendingRequestPool hal) c \<union> set ids
       else pendingIds (mPendingRequestPool hal) c)"
    "fst r \<noteq> StatusOk \<Longrightarrow> pendingIds (mPendingRequestPool (snd (snd r))) c = pendingIds (mPendingRequestPool hal) c"
    "pool_ok (mPendingRequestPool (snd (snd r)))" by blast+
qed

lemma dispatch_calls:
  "fst (dispatchRequests now client sendR failed ids nothingLeft snd_op hal) = StatusOk \<Longrightarrow>
     fst (snd (dispatchRequests now client sendR failed ids nothingLeft snd_op hal)) =
     (if failed \<noteq> [] then map (Pair (cl_callback client)) (sendR failed) else [])"
  by (auto simp: dispatchRequests_def Let_def split: prod.splits sum.splits if_splits)

lemma dispatch_clients [simp]:
  "mGetValuesClients (snd (snd (dispatchRequests now client sendR failed ids nothingLeft snd_op hal))) = mGetValuesClients hal"
  "mSetValuesClients (snd (snd (dispatchRequests now client sendR failed ids nothingLeft snd_op hal))) = mSetValuesClients hal"
  by (auto simp: dispatchRequests_def Let_def split: prod.split sum.split)

lemma splitGetRequests_eq:
  "splitGetRequests plat hal rs =
     (concat (map (\<lambda>r. case checkReadPermission plat hal (gr_prop r) of
        Inl e \<Rightarrow> [\<lparr>gres_requestId = gr_requestId r, gres_status = e, gres_prop = None\<rparr>] | Inr _ \<Rightarrow> []) rs),
      filter (\<lambda>r. checkReadPermission plat hal (gr_prop r) = Inr ()) rs)"
  by (induction rs) (auto split: sum.split)

lemma fold_uset_insert_set: "set (fold (\<lambda>x s. uset_insert (f x) s) xs s) = set s \<union> f ` set xs"
  by (induction xs arbitrary: s) auto

lemma fold_uset_insert_dist: "distinct s \<Longrightarrow> distinct (fold (\<lambda>x s. uset_insert (f x) s) xs s)"
  by (induction xs arbitrary: s) auto

lemma monitor_pool [simp]:
  "mPendingRequestPool (snd (monitorBinderLifeCycleLocked alive c hal)) = mPendingRequestPool hal"
  "mGetValuesClients (snd (monitorBinderLifeCycleLocked alive c hal)) = mGetValuesClients hal"
  "mSetValuesClients (snd (monitorBinderLifeCycleLocked alive c hal)) = mSetValuesClients hal"
  "mSubscriptionManager (snd (monitorBinderLifeCycleLocked alive c hal)) = mSubscriptionManager hal"
  "mBinderEvents (snd (monitorBinderLifeCycleLocked alive c hal)) = mBinderEvents hal"
  "fst (monitorBinderLifeCycleLocked alive c hal) = alive c"
  "set (mOnBinderDiedContexts (snd (monitorBinderLifeCycleLocked alive c hal))) = insert c (set (mOnBinderDiedContexts hal))"
  by (auto simp: monitorBinderLifeCycleLocked_def)

text \<open>\<open>getValues\<close> once the guards passed.\<close>

lemma getValues_dispatch:
  assumes "distinct (map gr_prop requests)" "alive (cbBinder cb)"
    and "getOrCreateClient cb (mGetValuesClients hal) (mNextClient hal1) = (client, clients, fresh)"
    and "hal1 = snd (monitorBinderLifeCycleLocked alive (cbBinder cb) hal)"
  shows "getValues plat alive now (Some cb) (Inr requests) hal =
    dispatchRequests now client (\<lambda>rs. map GetResults (sendGetOrSetValueResults (marshalGetResults plat) rs))
      (fst (splitGetRequests plat hal requests))
      (fold (\<lambda>r s. uset_insert (gr_requestId r) s) (snd (splitGetRequests plat hal requests)) [])
      (snd (splitGetRequests plat hal requests) = [])
      (\<lambda>resultCallback. hw_getValues (hardware plat) resultCallback (snd (splitGetRequests plat hal requests)))
      (hal1\<lparr>mGetValuesClients := clients, mNextClient := fresh\<rparr>)"
  using assms by (simp add: getValues_def checkDuplicateGetRequests_def Let_def case_prod_unfold)

lemma getValues_rejects:
  "\<not> distinct (map gr_prop requests) \<Longrightarrow>
     getValues plat alive now (Some cb) (Inr requests) hal = (StatusServiceSpecific INVALID_ARG, [], hal)"
  "distinct (map gr_prop requests) \<Longrightarrow> \<not> alive (cbBinder cb) \<Longrightarrow>
     getValues plat alive now (Some cb) (Inr requests) hal =
     (StatusException EX_TRANSACTION_FAILED, [], snd (monitorBinderLifeCycleLocked alive (cbBinder cb) hal))"
  by (simp_all add: getValues_def checkDuplicateGetRequests_def Let_def case_prod_unfold)

text \<open>
  What an accepted call leaves behind: the client of the binder, the rejected requests delivered to it
  and the admitted ones pending for it, or the pool as it was.
\<close>

lemma getValues_accepted:
  assumes pool: "pool_ok (mPendingRequestPool hal)"
    and accepted: "distinct (map gr_prop requests)" "alive (cbBinder cb)"
    and call: "getValues plat alive now (Some cb) (Inr requests) hal = (status, calls, hal')"
  obtains client where
    "map_of (mGetValuesClients hal') (cbBinder cb) = Some client"
    "status = StatusOk \<Longrightarrow> getDelivered calls = fst (splitGetRequests plat hal requests)"
    "status = StatusOk \<Longrightarrow> pendingIds (mPendingRequestPool hal') (cl_id client) =
       pendingIds (mPendingRequestPool hal) (cl_id client) \<union>
       gr_requestId ` {r \<in> set requests. checkReadPermission plat hal (gr_prop r) = Inr ()}"
    "status \<noteq> StatusOk \<Longrightarrow> pendingIds (mPendingRequestPool hal') = pendingIds (mPendingRequestPool hal)"
proof -
  define hal1 where "hal1 = snd (monitorBinderLifeCycleLocked alive (cbBinder cb) hal)"
  obtain client clients fresh where gc:
    "getOrCreateClient cb (mGetValuesClients hal) (mNextClient hal1) = (client, clients, fresh)"
    by (metis prod_cases3)
  then have c: "map_of clients (cbBinder cb) = Some client"
    by (auto simp: getOrCreateClient_def Let_def split: option.splits)
  define hal2 where "hal2 = hal1\<lparr>mGetValuesClients := clients, mNextClient := fresh\<rparr>"
  define ids where "ids = fold (\<lambda>r s. uset_insert (gr_requestId r) s) (snd (splitGetRequests plat hal requests)) []"
  have ok2: "pool_ok (mPendingRequestPool hal2)" using pool by (simp add: hal2_def hal1_def)
  have d: "distinct ids" unfolding ids_def by (rule fold_uset_insert_dist) simp
  note g = getValues_dispatch [OF accepted gc hal1_def, where plat = plat and now = now,
      folded hal2_def ids_def, unfolded call, symmetric]
  have p2: "pendingIds (mPendingRequestPool hal2) = pendingIds (mPendingRequestPool hal)"
    by (simp add: hal2_def hal1_def)
  have ids: "set ids = gr_requestId ` {r \<in> set requests. checkReadPermission plat hal (gr_prop r) = Inr ()}"
    by (simp add: ids_def fold_uset_insert_set splitGetRequests_eq)
  show thesis
  proof (rule that)
    show "map_of (mGetValuesClients hal') (cbBinder cb) = Some client"
      using arg_cong [OF g, of "\<lambda>r. mGetValuesClients (snd (snd r))"] c by (simp add: hal2_def)
    show "getDelivered calls = fst (splitGetRequests plat hal requests)" if "status = StatusOk"
      using dispatch_calls [OF arg_cong [OF g, of fst, simplified, unfolded that]]
        arg_cong [OF g, of "\<lambda>r. fst (snd r)"]
      by (cases "fst (splitGetRequests plat hal requests) = []") simp_all
    show "pendingIds (mPendingRequestPool hal') (cl_id client) =
        pendingIds (mPendingRequestPool hal) (cl_id client) \<union>
        gr_requestId ` {r \<in> set requests. checkReadPermission plat hal (gr_prop r) = Inr ()}"
      if "status = StatusOk"
      using dispatch_pool(1) [OF ok2 d arg_cong [OF g, of fst, simplified, unfolded that]]
        g p2 ids by simp
    show "pendingIds (mPendingRequestPool hal') = pendingIds (mPendingRequestPool hal)"
      if "status \<noteq> StatusOk"
      using dispatch_pool(2) [OF ok2 d] g p2 that by (metis ext fst_conv snd_conv)
  qed
qed

text \<open>
  Claim C16 (get_requests_answered_or_pending). When \<open>getValues\<close> returns ok, each request of the call
  either was answered already with an error result carrying its identifier, or is pending for the client;
  when it returns an error, no request of any client became or stopped being pending.
\<close>

theorem get_requests_answered_or_pending:
  assumes "pool_ok (mPendingRequestPool hal)"
    and "getValues plat alive now (Some cb) (Inr requests) hal = (status, calls, hal')"
  shows "(status = StatusOk \<longrightarrow> (\<exists>client. map_of (mGetValuesClients hal') (cbBinder cb) = Some client \<and>
      (\<forall>r \<in> set requests.
         (\<exists>e. checkReadPermission plat hal (gr_prop r) = Inl e \<and>
            \<lparr>gres_requestId = gr_requestId r, gres_status = e, gres_prop = None\<rparr> \<in> set (getDelivered calls)) \<or>
         isRequestPending (cl_id client) (gr_requestId r) (mPendingRequestPool hal')))) \<and>
    (status \<noteq> StatusOk \<longrightarrow> (\<forall>c i. isRequestPending c i (mPendingRequestPool hal') =
      isRequestPending c i (mPendingRequestPool hal)))"
proof (cases "distinct (map gr_prop requests) \<and> alive (cbBinder cb)")
  case False
  then show ?thesis
    using assms(2) getValues_rejects [where requests = requests and plat = plat and alive = alive and now = now and cb = cb and hal = hal]
    by (cases "distinct (map gr_prop requests)") auto
next
  case True
  obtain client where client: "map_of (mGetValuesClients hal') (cbBinder cb) = Some client"
      and calls: "status = StatusOk \<Longrightarrow> getDelivered calls = fst (splitGetRequests plat hal requests)"
      and pend: "status = StatusOk \<Longrightarrow> pendingIds (mPendingRequestPool hal') (cl_id client) =
        pendingIds (mPendingRequestPool hal) (cl_id client) \<union>
        gr_requestId ` {r \<in> set requests. checkReadPermission plat hal (gr_prop r) = Inr ()}"
      and kept: "status \<noteq> StatusOk \<Longrightarrow> pendingIds (mPendingRequestPool hal') = pendingIds (mPendingRequestPool hal)"
    using getValues_accepted [OF assms(1) _ _ assms(2)] True by blast
  have "(\<exists>e. checkReadPermission plat hal (gr_prop r) = Inl e \<and>
          \<lparr>gres_requestId = gr_requestId r, gres_status = e, gres_prop = None\<rparr> \<in> set (getDelivered calls)) \<or>
       isRequestPending (cl_id client) (gr_requestId r) (mPendingRequestPool hal')"
    if "status = StatusOk" and "r \<in> set requests" for r
    using that calls pend
    by (cases "checkReadPermission plat hal (gr_prop r)")
      (force simp: splitGetRequests_eq, simp add: isRequestPending_iff)
  with client kept show ?thesis by (auto simp: isRequestPending_iff)
qed

text \<open>
  A first \<open>getValues\<close> call whose requests are all rejected returns
  ok, but registers a pending entry without any request: once the timeout has passed, the client gets one
  more callback, with no result in it.
\<close>

theorem rejected_call_times_out_empty:
  assumes "alive (cbBinder cb)" "distinct (map gr_prop requests)"
    and "\<forall>r \<in> set requests. checkReadPermission plat (newDefaultVehicleHal w h) (gr_prop r) \<noteq> Inr ()"
    and "getValues plat alive now (Some cb) (Inr requests) (newDefaultVehicleHal w h) = (status, calls, hal')"
    and "now + TIMEOUT_IN_NANO < later"
  shows "status = StatusOk \<and> fst (checkTimeout later (mPendingRequestPool hal')) = [(0, [])] \<and>
    onTimeout (\<lambda>_. MarshalInline) getTimedOut [] = [Payloads []]"
proof -
  define hal where "hal = newDefaultVehicleHal w h"
  have split: "snd (splitGetRequests plat hal rs) = []" if "set rs \<subseteq> set requests" for rs
    using that assms(3) unfolding hal_def [symmetric]
    by (induction rs) (auto simp: Let_def case_prod_unfold split: sum.splits)
  show ?thesis
    using assms(1,2,4,5) split [of requests] unfolding hal_def
    by (auto simp: getValues_def checkDuplicateGetRequests_def monitorBinderLifeCycleLocked_def Let_def
        case_prod_unfold newDefaultVehicleHal_def getOrCreateClient_def dispatchRequests_def
        client_addRequests_def addRequests_def newPool_def countIds_def umap_touch_def umap_put_def
        umap_insert_def checkTimeout_def overdue_def onTimeout_def sendGetOrSetValueResults_def
        vectorToStableLargeParcelable_def)
qed

section \<open>Configurations and supported values\<close>

lemma map_of_fold_configs:
  "map_of (fold (\<lambda>config m. umap_put (pc_prop config) config m) cs m) p =
     (case find (\<lambda>c. pc_prop c = p) (rev cs) of Some c \<Rightarrow> Some c | None \<Rightarrow> map_of m p)"
proof (induction cs arbitrary: m)
  case (Cons c cs)
  have "find P (xs @ [c]) = (case find P xs of Some y \<Rightarrow> Some y | None \<Rightarrow> if P c then Some c else None)" for P xs
    by (induction xs) auto
  then show ?case using Cons by (simp split: option.split)
qed simp

lemma find_distinct_key:
  "distinct (map f xs) \<Longrightarrow> x \<in> set xs \<Longrightarrow> find (\<lambda>y. f y = f x) xs = Some x"
  by (rule find_unique) (simp_all add: distinct_map inj_on_def)

lemma find_rev_filter:
  assumes "distinct (map f xs)"
  shows "find (\<lambda>y. f y = k) (rev (filter P xs)) = (case find (\<lambda>y. f y = k) xs of
     None \<Rightarrow> None | Some x \<Rightarrow> if P x then Some x else None)"
proof (cases "find (\<lambda>y. f y = k) xs")
  case None
  then have "find (\<lambda>y. f y = k) (rev (filter P xs)) = None" by (auto simp: find_None_iff)
  then show ?thesis by (simp add: None)
next
  case (Some x)
  then have x: "x \<in> set xs" "f x = k" by (auto simp: find_Some_iff)
  have d: "distinct (map f (rev (filter P xs)))"
    using assms by (simp add: rev_map [symmetric] distinct_map_filter)
  show ?thesis
  proof (cases "P x")
    case True
    then show ?thesis using find_distinct_key [OF d, of x] x Some by simp
  next
    case False
    have "\<forall>y \<in> set (filter P xs). f y \<noteq> k"
      using assms x False by (auto simp: distinct_map inj_on_def)
    then show ?thesis using Some False by (auto simp: find_None_iff)
  qed
qed

text \<open>
  Before all configurations are loaded a lookup asks the hardware,
  afterwards it reads the loaded table; for a hardware with the default single lookup and one
  configuration per property both answer the same, and only configurations the interface version
  supports are ever returned.
\<close>

theorem config_lookup_consistent:
  assumes "\<not> mConfigInit hal" "mConfigsByPropId hal = []"
    and "hw_getPropertyConfig (hardware plat) = default_getPropertyConfig (hw_getAllPropertyConfigs (hardware plat))"
    and "distinct (map pc_prop (hw_getAllPropertyConfigs (hardware plat) (vehicleHardware hal)))"
    and "loadConfigs plat hal = Some hal'"
  shows "getConfig plat hal' p = getConfig plat hal p \<and>
    (\<forall>config. getConfig plat hal p = Some config \<longrightarrow> pc_prop config = p \<and> isConfigSupportedForCurrentVhalVersion plat config)"
proof -
  define cs where "cs = hw_getAllPropertyConfigs (hardware plat) (vehicleHardware hal)"
  have init: "mConfigInit hal'"
    and m: "mConfigsByPropId hal' = fold (\<lambda>config m. umap_put (pc_prop config) config m)
      (filter (isConfigSupportedForCurrentVhalVersion plat) cs) []"
    using assms(1,2,5)
    by (auto simp: loadConfigs_def getAllPropConfigsFromHardwareLocked_def Let_def cs_def
        split: MarshalResult.splits prod.splits if_splits)
  have l: "getConfig plat hal p = (case find (\<lambda>c. pc_prop c = p) cs of
      None \<Rightarrow> None | Some c \<Rightarrow> if isConfigSupportedForCurrentVhalVersion plat c then Some c else None)"
    using assms(1,3) by (simp add: getConfig_def default_getPropertyConfig_def cs_def split: option.split)
  have "getConfig plat hal' p = getConfig plat hal p"
    using find_rev_filter [OF assms(4) [folded cs_def], of p "isConfigSupportedForCurrentVhalVersion plat"]
    by (simp add: getConfig_def init m map_of_fold_configs l [unfolded getConfig_def] split: option.split)
  then show ?thesis
    by (auto simp: l find_Some_iff split: option.splits if_splits)
qed

lemma fillResults_map:
  "fillResults xs (map f (toHardware xs)) = map (\<lambda>x. case x of Inl r \<Rightarrow> r | Inr k \<Rightarrow> f k) xs"
proof (induction xs)
  case (Cons x xs)
  then show ?case by (cases x) (simp_all add: toHardware_def)
qed (simp add: toHardware_def)

text \<open>
  Over a hardware that answers each area by itself, the result at
  each position is the one of the area at that position: the hardware's answer when the area declares a
  supported value list, ok without a list when it declares none, and an error when nothing is declared.
\<close>

theorem supported_values_positional:
  assumes "\<And>ks. hw_getSupportedValuesLists (hardware plat) ks (vehicleHardware hal) = map f ks"
    and "halGetSupportedValuesLists plat ks hal = (status, parcel)"
  shows "contents parcel = map (\<lambda>k. case getHasSupportedValueInfo plat hal (propId k) (areaId k) of
      None \<Rightarrow> \<lparr>svl_status = INVALID_ARG, svl_supportedValuesList = None\<rparr>
    | Some info \<Rightarrow> if hasSupportedValuesList info then f k else \<lparr>svl_status = OK, svl_supportedValuesList = None\<rparr>) ks"
proof -
  let ?xs = "map (getSupportedValuesListsRequest plat hal) ks"
  have "contents parcel = fillResults ?xs (map f (toHardware ?xs))"
    using assms(2) by (auto simp: halGetSupportedValuesLists_def answerEach_def assms(1) Let_def
        vectorToStableLargeParcelable_def split: MarshalResult.splits if_splits)
  then show ?thesis
    by (auto simp: fillResults_map getSupportedValuesListsRequest_def split: option.split)
qed

section \<open>Subscriptions\<close>

definition requestedAreas :: "VehiclePropConfig \<Rightarrow> SubscribeOptions \<Rightarrow> int32 list" where
  "requestedAreas config option = (if isGlobalProp (so_propId option) then [0]
     else if so_areaIds option = [] then map ac_areaId (pc_areaConfigs config) else so_areaIds option)"

definition supportsVur :: "VehiclePropConfig \<Rightarrow> int32 \<Rightarrow> int32 \<Rightarrow> bool" where
  "supportsVur config p a = (case getAreaConfig p a config of
     None \<Rightarrow> False | Some ac \<Rightarrow> ac_supportVariableUpdateRate ac)"

text \<open>The rate of a subscription: moved into the range of the property when it is a number, and a NaN as it was.\<close>

definition rate_in_range :: "fp \<Rightarrow> fp \<Rightarrow> fp \<Rightarrow> fp \<Rightarrow> bool" where
  "rate_in_range minHz maxHz requested rate \<longleftrightarrow>
     (requested = FNaN \<longrightarrow> rate = FNaN) \<and>
     (requested \<noteq> FNaN \<and> fp_le minHz maxHz \<longrightarrow> fp_le minHz rate \<and> fp_le rate maxHz \<and>
        rate \<in> {requested, minHz, maxHz} \<and> (fp_le minHz requested \<and> fp_le requested maxHz \<longrightarrow> rate = requested))"

lemma fp_le_flip: "x \<noteq> FNaN \<Longrightarrow> y \<noteq> FNaN \<Longrightarrow> \<not> fp_lt x y \<Longrightarrow> fp_le y x"
  by (cases x; cases y) (auto simp: fp_le_def fp_eq_def)

lemma fp_le_not_lt: "fp_le x y \<Longrightarrow> \<not> fp_lt y x \<and> x \<noteq> FNaN \<and> y \<noteq> FNaN \<and> fp_le x x \<and> fp_le y y"
  by (cases x; cases y) (auto simp: fp_le_def fp_eq_def)

lemma getDefaultSampleRateHz_range: "rate_in_range minHz maxHz r (getDefaultSampleRateHz r minHz maxHz)"
proof (cases "r = FNaN")
  case True
  then show ?thesis by (cases minHz; cases maxHz) (simp_all add: rate_in_range_def getDefaultSampleRateHz_def)
next
  case False
  show ?thesis
  proof (cases "fp_le minHz maxHz")
    case True
    note m = fp_le_not_lt [OF True]
    have "fp_le minHz (getDefaultSampleRateHz r minHz maxHz) \<and> fp_le (getDefaultSampleRateHz r minHz maxHz) maxHz"
      using m True False fp_le_flip [of r minHz] fp_le_flip [of maxHz r] by (simp add: getDefaultSampleRateHz_def)
    moreover have "getDefaultSampleRateHz r minHz maxHz = r" if "fp_le minHz r" "fp_le r maxHz"
      using fp_le_not_lt [OF that(1)] fp_le_not_lt [OF that(2)] by (simp add: getDefaultSampleRateHz_def)
    moreover have "getDefaultSampleRateHz r minHz maxHz \<in> {r, minHz, maxHz}" by (simp add: getDefaultSampleRateHz_def)
    ultimately show ?thesis using False by (auto simp: rate_in_range_def)
  qed (use False in \<open>simp add: rate_in_range_def\<close>)
qed

lemma parse_on_change:
  assumes "map_of configs (so_propId option) = Some config" "pc_changeMode config \<noteq> CONTINUOUS"
  shows "parseSubscribeOption configs option = Some ([option\<lparr>so_areaIds := requestedAreas config option\<rparr>], [])"
  using assms by (auto simp: parseSubscribeOption_def requestedAreas_def Let_def)

lemma parse_continuous:
  assumes "map_of configs (so_propId option) = Some config" "pc_changeMode config = CONTINUOUS"
  defines "base \<equiv> option\<lparr>so_areaIds := requestedAreas config option, so_sampleRate := getDefaultSampleRateHz
      (so_sampleRate option) (pc_minSampleRate config) (pc_maxSampleRate config)\<rparr>"
    and "on \<equiv> filter (supportsVur config (so_propId option)) (requestedAreas config option)"
    and "off \<equiv> filter (\<lambda>a. \<not> supportsVur config (so_propId option) a) (requestedAreas config option)"
  shows "parseSubscribeOption configs option = Some ([],
    if \<not> so_enableVariableUpdateRate option then [base]
    else (if on \<noteq> [] then [base\<lparr>so_areaIds := on, so_enableVariableUpdateRate := True\<rparr>] else []) @
         (if off \<noteq> [] then [base\<lparr>so_areaIds := off, so_enableVariableUpdateRate := False\<rparr>] else []))"
  using assms(1,2) unfolding base_def on_def off_def supportsVur_def [abs_def]
  by (simp add: parseSubscribeOption_def requestedAreas_def Let_def)

text \<open>
  Claim C17 (subscription_split_exact). The subscriptions made from an option on a continuous property cover
  exactly the requested areas (every area of the property when none is named), each as often as it was
  requested; an area gets variable update rate exactly when the client asked for it and the area supports it;
  and a sample rate that is a number is moved into the range of the property when that range is not empty,
  and is kept when it is in the range already. A sample rate that is no number passes through unchanged.
\<close>

theorem subscription_split_exact:
  assumes "map_of configs (so_propId option) = Some config" "pc_changeMode config = CONTINUOUS"
    and "parseSubscribeOption configs option = Some (onChange, cont)"
  shows "onChange = [] \<and> mset (concat (map so_areaIds cont)) = mset (requestedAreas config option) \<and>
    (\<forall>x \<in> set cont. so_propId x = so_propId option \<and> so_resolution x = so_resolution option \<and>
       (\<forall>a \<in> set (so_areaIds x). so_enableVariableUpdateRate x \<longleftrightarrow>
          so_enableVariableUpdateRate option \<and> supportsVur config (so_propId option) a) \<and>
       rate_in_range (pc_minSampleRate config) (pc_maxSampleRate config) (so_sampleRate option) (so_sampleRate x))"
proof -
  define areas where "areas = requestedAreas config option"
  define on where "on = filter (supportsVur config (so_propId option)) areas"
  define off where "off = filter (\<lambda>a. \<not> supportsVur config (so_propId option) a) areas"
  have m: "mset (on @ off) = mset areas"
    unfolding mset_append on_def off_def mset_filter by (rule multiset_partition [symmetric])
  note p = parse_continuous [OF assms(1,2), folded areas_def, folded on_def off_def]
  have on: "onChange = []"
    and areas: "concat (map so_areaIds cont) = (if so_enableVariableUpdateRate option then on @ off else areas)"
    using p assms(3) by (auto split: if_splits)
  have "mset (concat (map so_areaIds cont)) = mset areas" using m by (simp add: areas)
  moreover have "\<forall>x \<in> set cont. so_propId x = so_propId option \<and> so_resolution x = so_resolution option \<and>
      so_sampleRate x = getDefaultSampleRateHz (so_sampleRate option) (pc_minSampleRate config) (pc_maxSampleRate config) \<and>
      (\<forall>a \<in> set (so_areaIds x). so_enableVariableUpdateRate x \<longleftrightarrow>
         so_enableVariableUpdateRate option \<and> supportsVur config (so_propId option) a)"
    using p assms(3) by (auto simp: on_def off_def split: if_splits)
  ultimately show ?thesis
    using on getDefaultSampleRateHz_range [of "pc_minSampleRate config" "pc_maxSampleRate config" "so_sampleRate option"]
    unfolding areas_def by metis
qed

lemma check_option_rate:
  "(if \<not> fp_eq r (getDefaultSampleRateHz r a b) then getDefaultSampleRateHz r a b else r) = getDefaultSampleRateHz r a b"
  by (auto simp: fp_eq_def)

text \<open>
  Options that passed the checks of the service always yield
  subscriptions, and the subscription manager accepts their rates, resolutions and areas, when every
  property that is not global has an area.
\<close>

theorem checked_options_accepted:
  assumes "checkSubscribeOptions log10f options configs = Inr ()"
    and "\<forall>p config. map_of configs p = Some config \<longrightarrow> isGlobalProp p \<or> pc_areaConfigs config \<noteq> []"
  shows "\<exists>onChange cont. parseSubscribeOptions options configs = Some (onChange, cont) \<and>
    checkOptions log10f onChange False \<and> checkOptions log10f cont True"
  using assms(1)
proof (induction options)
  case Nil
  then show ?case by (simp add: checkOptions_def)
next
  case (Cons option options)
  from Cons.prems have c: "checkSubscribeOption log10f configs option = Inr ()"
    and cs: "checkSubscribeOptions log10f options configs = Inr ()"
    by (auto split: sum.splits)
  from Cons.IH [OF cs] obtain on co where ih: "parseSubscribeOptions options configs = Some (on, co)"
    "checkOptions log10f on False" "checkOptions log10f co True" by blast
  from c obtain config where config: "map_of configs (so_propId option) = Some config"
    by (auto simp: checkSubscribeOption_def split: option.splits)
  have areas: "requestedAreas config option \<noteq> []"
    using assms(2) config by (auto simp: requestedAreas_def)
  show ?case
  proof (cases "pc_changeMode config = CONTINUOUS")
    case True
    have "checkSampleRateHz (getDefaultSampleRateHz (so_sampleRate option) (pc_minSampleRate config) (pc_maxSampleRate config))"
      "checkResolution log10f (so_resolution option)"
      using c config True
      by (auto simp: checkSubscribeOption_def Let_def check_option_rate split: option.splits if_splits)
    then show ?thesis
      using parse_continuous [OF config True] ih areas by (auto simp: checkOptions_def)
  next
    case False
    then show ?thesis using parse_on_change [OF config False] ih areas by (auto simp: checkOptions_def)
  qed
qed

section \<open>Witnesses\<close>

text \<open>A small hardware, whose state is its list of property configurations, and a vendor property.\<close>

definition listHardware :: "VehiclePropConfig list VehicleHardware" where
  "listHardware = \<lparr>hw_getAllPropertyConfigs = (\<lambda>cs. cs), hw_getPropertyConfig = default_getPropertyConfig (\<lambda>cs. cs),
     hw_setValues = (\<lambda>_ _ h. (OK, h)), hw_getValues = (\<lambda>_ _ h. (OK, h)), hw_checkHealth = (\<lambda>_. OK),
     hw_subscribe = default_subscribe, hw_unsubscribe = default_unsubscribe,
     hw_updateSampleRate = default_updateSampleRate,
     hw_getMinMaxSupportedValues = default_getMinMaxSupportedValues,
     hw_getSupportedValuesLists = (\<lambda>ks _. map (\<lambda>_. \<lparr>svl_status = OK, svl_supportedValuesList = Some []\<rparr>) ks),
     hw_subscribeSupportedValueChange = default_subscribeSupportedValueChange,
     hw_unsubscribeSupportedValueChange = default_unsubscribeSupportedValueChange\<rparr>"

definition listPlatform :: "VehiclePropConfig list Platform" where
  "listPlatform = \<lparr>hardware = listHardware, plat_log10f = (\<lambda>x. x), interfaceVersion = 4,
     versionForVehicleProperty = (\<lambda>_. Some 2), marshalConfigs = (\<lambda>_. MarshalInline),
     marshalGetResults = (\<lambda>_. MarshalInline), marshalSetResults = (\<lambda>_. MarshalInline),
     marshalEvents = (\<lambda>_. MarshalInline), marshalErrors = (\<lambda>_. MarshalInline),
     marshalMinMax = (\<lambda>_. MarshalInline), marshalLists = (\<lambda>_. MarshalInline)\<rparr>"

definition vendor_property :: VehiclePropConfig where
  "vendor_property = \<lparr>pc_prop = 0x21600001, pc_access = READ, pc_changeMode = CONTINUOUS, pc_areaConfigs = [],
     pc_configArray = [], pc_minSampleRate = FFin 1, pc_maxSampleRate = FFin 10\<rparr>"

definition vendor_hal :: "VehiclePropConfig list DefaultVehicleHal" where
  "vendor_hal = newDefaultVehicleHal 0 [vendor_property]"

definition vendor_request :: "int \<Rightarrow> int32 \<Rightarrow> GetValueRequest" where
  "vendor_request i p = \<lparr>gr_requestId = i, gr_prop = \<lparr>pv_timestamp = 0, pv_areaId = 0, pv_prop = p, pv_status = AVAILABLE,
     pv_value = raw_default\<rparr>\<rparr>"

definition vendor_options :: SubscribeOptions where
  "vendor_options = \<lparr>so_propId = 0x21600001, so_areaIds = [], so_sampleRate = FFin 50, so_resolution = FFin 0,
     so_enableVariableUpdateRate = True\<rparr>"

definition vendor_client :: VehicleCallback where
  "vendor_client = \<lparr>cbPtr = 1, cbBinder = 7\<rparr>"


definition vendor_get :: "ScopedAStatus \<times> (VehicleCallback \<times> HalCall) list \<times> VehiclePropConfig list DefaultVehicleHal" where
  "vendor_get = getValues listPlatform (\<lambda>_. True) 0 (Some vendor_client)
     (Inr [vendor_request 1 0x21600001, vendor_request 2 5]) vendor_hal"

theorem get_requests_answered_or_pending_witness:
  "\<exists>client. map_of (mGetValuesClients (snd (snd vendor_get))) 7 = Some client \<and>
     isRequestPending (cl_id client) 1 (mPendingRequestPool (snd (snd vendor_get)))"
proof -
  have ok: "pool_ok (mPendingRequestPool vendor_hal)"
    by (simp add: vendor_hal_def newDefaultVehicleHal_def)
  have st: "fst vendor_get = StatusOk" and p: "checkReadPermission listPlatform vendor_hal
      (gr_prop (vendor_request 1 0x21600001)) = Inr ()" by code_simp+
  have "getValues listPlatform (\<lambda>_. True) 0 (Some vendor_client)
     (Inr [vendor_request 1 0x21600001, vendor_request 2 5]) vendor_hal = (StatusOk, fst (snd vendor_get), snd (snd vendor_get))"
    using st by (simp add: vendor_get_def prod_eq_iff)
  from get_requests_answered_or_pending [OF ok this] p show ?thesis
    by (auto simp: vendor_client_def vendor_request_def)
qed

theorem rejected_call_times_out_empty_witness:
  "fst (checkTimeout 30000000001 (mPendingRequestPool (snd (snd (getValues listPlatform (\<lambda>_. True) 0 (Some vendor_client)
     (Inr [vendor_request 2 5]) vendor_hal))))) = [(0, [])]"
proof -
  let ?g = "getValues listPlatform (\<lambda>_. True) 0 (Some vendor_client) (Inr [vendor_request 2 5]) (newDefaultVehicleHal 0 [vendor_property])"
  have "\<forall>r \<in> set [vendor_request 2 5]. checkReadPermission listPlatform
      (newDefaultVehicleHal 0 [vendor_property]) (gr_prop r) \<noteq> Inr ()" by code_simp
  from rejected_call_times_out_empty [where alive = "\<lambda>_. True" and now = 0, OF _ _ this] show ?thesis
    by (simp add: vendor_hal_def TIMEOUT_IN_NANO_def prod_eq_iff)
qed

theorem config_lookup_consistent_witness:
  "map_option (\<lambda>hal'. getConfig listPlatform hal' 0x21600001) (loadConfigs listPlatform vendor_hal) =
     Some (Some vendor_property)"
proof -
  have l: "getConfig listPlatform vendor_hal 0x21600001 = Some vendor_property" by code_simp
  obtain hal' where h: "loadConfigs listPlatform vendor_hal = Some hal'"
    by (simp add: loadConfigs_def getAllPropConfigsFromHardwareLocked_def listPlatform_def Let_def vendor_hal_def
        newDefaultVehicleHal_def)
  have "getConfig listPlatform hal' 0x21600001 = getConfig listPlatform vendor_hal 0x21600001"
  proof (rule conjunct1 [OF config_lookup_consistent [OF _ _ _ _ h]])
    show "distinct (map pc_prop (hw_getAllPropertyConfigs (hardware listPlatform) (vehicleHardware vendor_hal)))"
      by (simp add: vendor_hal_def newDefaultVehicleHal_def listPlatform_def listHardware_def vehicleHardware_def
          newSubscriptionManager_def)
  qed (simp_all add: vendor_hal_def newDefaultVehicleHal_def listPlatform_def listHardware_def)
  then show ?thesis using l h by simp
qed

theorem supported_values_positional_witness:
  "contents (snd (halGetSupportedValuesLists listPlatform [PropIdAreaId 5 0] vendor_hal)) =
     [\<lparr>svl_status = INVALID_ARG, svl_supportedValuesList = None\<rparr>]"
proof -
  have n: "getHasSupportedValueInfo listPlatform vendor_hal 5 0 = None" by code_simp
  have "hw_getSupportedValuesLists (hardware listPlatform) ks (vehicleHardware vendor_hal) =
      map (\<lambda>_. \<lparr>svl_status = OK, svl_supportedValuesList = Some []\<rparr>) ks" for ks
    by (simp add: listPlatform_def listHardware_def)
  from supported_values_positional [OF this prod.collapse [symmetric], of "[PropIdAreaId 5 0]"] n
  show ?thesis by simp
qed

theorem subscription_split_exact_witness:
  "map_option (\<lambda>(on, cont). mset (concat (map so_areaIds cont)))
     (parseSubscribeOption [(0x21600001, vendor_property)] vendor_options) = Some {#0#}"
proof -
  obtain on cont where p: "parseSubscribeOption [(0x21600001, vendor_property)] vendor_options = Some (on, cont)"
    by (cases "parseSubscribeOption [(0x21600001, vendor_property)] vendor_options")
      (auto simp: parseSubscribeOption_def vendor_options_def)
  have "requestedAreas vendor_property vendor_options = [0]" by code_simp
  then show ?thesis
    using subscription_split_exact [OF _ _ p] p by (simp add: vendor_options_def vendor_property_def)
qed

theorem checked_options_accepted_witness:
  "case parseSubscribeOptions [vendor_options] [(0x21600001, vendor_property)] of
     None \<Rightarrow> False | Some (on, cont) \<Rightarrow> checkOptions (\<lambda>x. x) cont True"
proof -
  have "checkSubscribeOptions (\<lambda>x. x) [vendor_options] [(0x21600001, vendor_property)] = Inr ()"
    and g: "isGlobalProp 0x21600001" by code_simp+
  moreover have "\<forall>p config. map_of [(0x21600001, vendor_property)] p = Some config \<longrightarrow> isGlobalProp p \<or> pc_areaConfigs config \<noteq> []"
    using g by simp
  ultimately have "\<exists>on cont. parseSubscribeOptions [vendor_options] [(0x21600001, vendor_property)] = Some (on, cont) \<and>
      checkOptions (\<lambda>x. x) on False \<and> checkOptions (\<lambda>x. x) cont True"
    by (intro checked_options_accepted)
  then show ?thesis by (auto simp del: parseSubscribeOptions.simps)
qed

end
