(* ===== verification/Subscription_Records.thy ===== *)
theory Subscription_Records
  imports Subscription_Manager
begin

text \<open>
  How the five client maps of the subscription manager hang together, whatever the hardware answers and
  whatever is subscribed: a client found under a property (as a subscriber, in the combined configuration,
  or for changes of the supported values) has that property in its own record. So a client without
  records is in none of the maps.
\<close>

section \<open>The maps\<close>

definition continuousClientsOf :: "'h SubscriptionManager \<Rightarrow> PropIdAreaId \<Rightarrow> ClientIdType set" where
  "continuousClientsOf sm k = umap_keys (mConfigByClient (contConfig k sm))"

definition supportedClientsOf :: "'h SubscriptionManager \<Rightarrow> PropIdAreaId \<Rightarrow> ClientIdType set" where
  "supportedClientsOf sm k = umap_keys (umap_at [] k (mSupportedValueChangeClientsByPropIdAreaId sm))"

definition supportedIdsOf :: "'h SubscriptionManager \<Rightarrow> ClientIdType \<Rightarrow> PropIdAreaId set" where
  "supportedIdsOf sm c = set (umap_at [] c (mSupportedValueChangePropIdAreaIdsByClient sm))"

lemmas record_maps = clientsOf_def propsOf_def continuousClientsOf_def supportedClientsOf_def supportedIdsOf_def

text \<open>In \<open>X\<close> are the pairs whose combined configuration was written and whose subscription is yet to be recorded.\<close>

definition linked :: "(PropIdAreaId \<times> ClientIdType) set \<Rightarrow> 'h SubscriptionManager \<Rightarrow> bool" where
  "linked X sm \<longleftrightarrow> (\<forall>k c. c \<in> clientsOf sm k \<longrightarrow> k \<in> propsOf sm c) \<and>
     (\<forall>k c. c \<in> continuousClientsOf sm k \<longrightarrow> c \<in> clientsOf sm k \<or> (k, c) \<in> X) \<and>
     (\<forall>k c. c \<in> supportedClientsOf sm k \<longrightarrow> k \<in> supportedIdsOf sm c)"

definition same_records :: "'h SubscriptionManager \<Rightarrow> 'h SubscriptionManager \<Rightarrow> bool" where
  "same_records sm' sm \<longleftrightarrow> clientsOf sm' = clientsOf sm \<and> propsOf sm' = propsOf sm \<and>
     continuousClientsOf sm' = continuousClientsOf sm \<and> supportedClientsOf sm' = supportedClientsOf sm \<and>
     supportedIdsOf sm' = supportedIdsOf sm"

lemma linked_same: "same_records sm' sm \<Longrightarrow> linked X sm' = linked X sm"
  by (simp add: same_records_def linked_def)

lemma linked_new [simp]: "linked X (newSubscriptionManager h)"
  by (simp add: linked_def record_maps newSubscriptionManager_def contConfig_def umap_at_def emptyContSubConfigs_def)

section \<open>What each operation does to them\<close>

lemma continuous_simps [simp]:
  "continuousClientsOf (touchContConfig k sm) = continuousClientsOf sm"
  "continuousClientsOf (sm\<lparr>mVehicleHardware := h\<rparr>) = continuousClientsOf sm"
  "continuousClientsOf (sm\<lparr>mClientsByPropIdAreaId := m\<rparr>) = continuousClientsOf sm"
  "continuousClientsOf (recordSubscription cb k sm) = continuousClientsOf sm"
  "continuousClientsOf (eraseSubscribedProp c k sm) = continuousClientsOf sm"
  "continuousClientsOf (putContConfig k cfg sm) = (continuousClientsOf sm)(k := umap_keys (mConfigByClient cfg))"
  by (auto simp: continuousClientsOf_def fun_eq_iff contConfig_def recordSubscription_def eraseSubscribedProp_def
      umap_at_def)

lemma supported_simps [simp]:
  "supportedClientsOf (touchContConfig k sm) = supportedClientsOf sm"
  "supportedClientsOf (putContConfig k cfg sm) = supportedClientsOf sm"
  "supportedClientsOf (sm\<lparr>mVehicleHardware := h\<rparr>) = supportedClientsOf sm"
  "supportedClientsOf (sm\<lparr>mClientsByPropIdAreaId := m\<rparr>) = supportedClientsOf sm"
  "supportedClientsOf (recordSubscription cb k sm) = supportedClientsOf sm"
  "supportedClientsOf (eraseSubscribedProp c k sm) = supportedClientsOf sm"
  "supportedClientsOf (dropClient c k sm) = supportedClientsOf sm"
  "supportedIdsOf (touchContConfig k sm) = supportedIdsOf sm"
  "supportedIdsOf (putContConfig k cfg sm) = supportedIdsOf sm"
  "supportedIdsOf (sm\<lparr>mVehicleHardware := h\<rparr>) = supportedIdsOf sm"
  "supportedIdsOf (sm\<lparr>mClientsByPropIdAreaId := m\<rparr>) = supportedIdsOf sm"
  "supportedIdsOf (recordSubscription cb k sm) = supportedIdsOf sm"
  "supportedIdsOf (eraseSubscribedProp c k sm) = supportedIdsOf sm"
  "supportedIdsOf (dropClient c k sm) = supportedIdsOf sm"
  by (simp_all add: supportedClientsOf_def supportedIdsOf_def fun_eq_iff touchContConfig_def putContConfig_def
      recordSubscription_def eraseSubscribedProp_def dropClient_def Let_def)

lemma props_field [simp]:
  "clientsOf (sm\<lparr>mSubscribedPropsByClient := n\<rparr>) = clientsOf sm"
  "continuousClientsOf (sm\<lparr>mSubscribedPropsByClient := n\<rparr>) = continuousClientsOf sm"
  "supportedClientsOf (sm\<lparr>mSubscribedPropsByClient := n\<rparr>) = supportedClientsOf sm"
  "supportedIdsOf (sm\<lparr>mSubscribedPropsByClient := n\<rparr>) = supportedIdsOf sm"
  by (simp_all add: record_maps contConfig_def fun_eq_iff)

lemma linked_hw [simp]: "linked X (sm\<lparr>mVehicleHardware := h\<rparr>) = linked X sm"
  by (rule linked_same) (simp add: same_records_def)

lemma linked_touch [simp]: "linked X (touchContConfig k sm) = linked X sm"
  by (rule linked_same) (simp add: same_records_def)

lemma linked_callHardware: "linked X (snd (callHardware f sm)) = linked X sm"
  by simp

text \<open>Writing a configuration: nothing but the configuration changes, and that only on success.\<close>

lemma update_records:
  "clientsOf (snd (updateContSubConfigsLocked hw k cfg sm)) = clientsOf sm"
  "propsOf (snd (updateContSubConfigsLocked hw k cfg sm)) = propsOf sm"
  "supportedClientsOf (snd (updateContSubConfigsLocked hw k cfg sm)) = supportedClientsOf sm"
  "supportedIdsOf (snd (updateContSubConfigsLocked hw k cfg sm)) = supportedIdsOf sm"
  "continuousClientsOf (snd (updateContSubConfigsLocked hw k cfg sm)) =
     (if fst (updateContSubConfigsLocked hw k cfg sm) = Inr () then (continuousClientsOf sm)(k := umap_keys (mConfigByClient cfg))
      else continuousClientsOf sm)"
  by (simp_all add: updateContSubConfigsLocked_def Let_def snd_bindE fst_bindE split: sum.split)

lemma linked_add:
  assumes "linked {} sm"
  shows "linked {(k, c)} (snd (addContinuousSubscriberLocked hw c k r res vur sm))"
    and "fst (addContinuousSubscriberLocked hw c k r res vur sm) \<noteq> Inr () \<Longrightarrow>
      linked {} (snd (addContinuousSubscriberLocked hw c k r res vur sm))"
  using assms unfolding linked_def addContinuousSubscriberLocked_def update_records
  by (auto simp: continuousClientsOf_def)

lemma linked_addOnChange: "linked X sm \<Longrightarrow> linked X (snd (addOnChangeSubscriberLocked hw k sm))"
  by (simp add: addOnChangeSubscriberLocked_def)

lemma linked_record: "linked {(k, cbBinder cb)} sm \<Longrightarrow> linked {} (recordSubscription cb k sm)"
  unfolding linked_def by simp (auto simp: propsOf_def recordSubscription_def split: if_splits)

lemma linked_mono: "linked {} sm \<Longrightarrow> linked X sm"
  by (simp add: linked_def)

lemma linked_subscribeArea:
  assumes "linked {} sm" shows "linked {} (snd (subscribeArea hw cb cont option a sm))"
proof (cases cont)
  case True
  then show ?thesis
    using linked_add [OF assms, where k = "PropIdAreaId (so_propId option) a" and c = "cbBinder cb" and hw = hw
        and r = "so_sampleRate option" and res = "so_resolution option" and vur = "so_enableVariableUpdateRate option"]
    by (auto simp: subscribeArea_def Let_def snd_bindE intro: linked_record split: sum.split)
next
  case False
  then show ?thesis
    using linked_addOnChange [OF linked_mono [OF assms]] linked_addOnChange [OF assms]
    by (auto simp: subscribeArea_def Let_def snd_bindE intro!: linked_record split: sum.split)
qed

lemma linked_subscribe: "linked {} sm \<Longrightarrow> linked {} (snd (subscribe l hw cb options cont sm))"
  unfolding subscribe_def
  by (auto intro!: forE_invariant [where I = "linked {}"] linked_subscribeArea)

text \<open>Removing a client from a property takes it out of the configuration and of the subscribers.\<close>

lemma remove_records:
  "clientsOf (snd (removeContinuousSubscriberLocked hw c k sm)) = clientsOf sm"
  "propsOf (snd (removeContinuousSubscriberLocked hw c k sm)) = propsOf sm"
  "supportedClientsOf (snd (removeContinuousSubscriberLocked hw c k sm)) = supportedClientsOf sm"
  "supportedIdsOf (snd (removeContinuousSubscriberLocked hw c k sm)) = supportedIdsOf sm"
  "continuousClientsOf (snd (removeContinuousSubscriberLocked hw c k sm)) =
     (if fst (removeContinuousSubscriberLocked hw c k sm) = Inr ()
      then (continuousClientsOf sm)(k := continuousClientsOf sm k - {c}) else continuousClientsOf sm)"
  unfolding removeContinuousSubscriberLocked_def update_records by (simp_all add: continuousClientsOf_def)

lemma removeOnChange_records:
  "same_records (snd (removeOnChangeSubscriberLocked hw k sm)) sm"
proof -
  have "clientsOf (sm\<lparr>mClientsByPropIdAreaId := umap_touch [] k (mClientsByPropIdAreaId sm)\<rparr>) = clientsOf sm"
    by (simp add: clientsOf_def fun_eq_iff)
  then show ?thesis
    by (simp add: same_records_def removeOnChangeSubscriberLocked_def Let_def propsOf_def fun_eq_iff)
qed

lemma continuous_drop:
  "continuousClientsOf (dropClient c k sm) j = (if j = k \<and> clientsOf sm k \<subseteq> {c} then {} else continuousClientsOf sm j)"
  using map_of_cont_dropClient [of c k sm]
  by (simp add: continuousClientsOf_def contConfig_def umap_at_def emptyContSubConfigs_def split: option.split)

lemma linked_drop:
  assumes "linked {} sm" "c \<notin> continuousClientsOf sm k"
  shows "linked {} (dropClient c k sm)"
  using assms unfolding linked_def by (auto simp: continuous_drop split: if_splits)

lemma unsubscribeArea_linked:
  fixes sm :: "'h SubscriptionManager" and hw c k
  assumes "linked {} sm"
  defines "res \<equiv> unsubscribePropIdAreaIdLocked hw c k sm"
  shows "linked {} (snd res) \<and> propsOf (snd res) = propsOf sm \<and> (\<forall>j. clientsOf (snd res) j \<subseteq> clientsOf sm j) \<and>
    (fst res = Inr () \<longrightarrow> c \<notin> clientsOf (snd res) k)"
proof -
  have drop: "linked {} (dropClient c k s) \<and> propsOf (dropClient c k s) = propsOf sm \<and>
      (\<forall>j. clientsOf (dropClient c k s) j \<subseteq> clientsOf sm j) \<and> c \<notin> clientsOf (dropClient c k s) k"
    if "linked {} s" "c \<notin> continuousClientsOf s k" "clientsOf s = clientsOf sm" "propsOf s = propsOf sm" for s
    using linked_drop [OF that(1,2)] that(3,4) by auto
  show ?thesis
  proof (cases "map_of (mContSubConfigsByPropIdArea sm) k")
    case (Some cfg)
    define op where "op = removeContinuousSubscriberLocked hw c k sm"
    have res: "res = (case fst op of Inl e \<Rightarrow> (Inl e, snd op) | Inr _ \<Rightarrow> (Inr (), dropClient c k (snd op)))"
      using Some unfolding res_def unsubscribePropIdAreaIdLocked_def op_def bindE_def by (simp add: case_prod_unfold)
    have l: "linked {} (snd op)"
      using assms(1) unfolding linked_def op_def remove_records by auto
    show ?thesis
    proof (cases "fst op")
      case (Inl e)
      then show ?thesis using l by (simp add: res op_def remove_records)
    next
      case (Inr u)
      then have "c \<notin> continuousClientsOf (snd op) k" by (simp add: op_def remove_records)
      from drop [OF l this] show ?thesis using Inr by (simp add: res op_def remove_records)
    qed
  next
    case None
    define op where "op = removeOnChangeSubscriberLocked hw k sm"
    have same: "same_records (snd op) sm" unfolding op_def by (rule removeOnChange_records)
    have l: "linked {} (snd op)" using assms(1) linked_same [OF same] by simp
    have c: "c \<notin> continuousClientsOf (snd op) k"
      using same None by (simp add: same_records_def continuousClientsOf_def contConfig_def umap_at_def emptyContSubConfigs_def)
    have res: "res = (if map_of (mClientsByPropIdAreaId sm) k = None then (Inr (), sm)
        else case fst op of Inl e \<Rightarrow> (Inl e, snd op) | Inr _ \<Rightarrow> (Inr (), dropClient c k (snd op)))"
      using None unfolding res_def unsubscribePropIdAreaIdLocked_def op_def bindE_def by (simp add: case_prod_unfold)
    have none: "clientsOf sm k = {}" if "map_of (mClientsByPropIdAreaId sm) k = None"
      using that by (simp add: clientsOf_def umap_at_def)
    have eqs: "clientsOf (snd op) = clientsOf sm" "propsOf (snd op) = propsOf sm" using same by (auto simp: same_records_def)
    show ?thesis
      using drop [OF l c eqs] eqs l assms(1) none
      by (cases "map_of (mClientsByPropIdAreaId sm) k"; cases "fst op") (simp_all add: res)
  qed
qed

lemma linked_eraseSubscribedProp:
  "linked {} sm \<Longrightarrow> c \<notin> clientsOf sm k \<Longrightarrow> linked {} (eraseSubscribedProp c k sm)"
  unfolding linked_def eraseSubscribedProp_def by (auto simp: propsOf_def split: if_splits)

lemma linked_unsubscribeOne: "linked {} sm \<Longrightarrow> linked {} (snd (unsubscribeOne hw c k sm))"
  using unsubscribeArea_linked [of sm hw c k]
  by (auto simp: unsubscribeOne_def snd_bindE intro: linked_eraseSubscribedProp split: sum.split)

lemma linked_eraseIfEmpty: "linked {} sm \<Longrightarrow> linked {} (eraseIfEmpty c sm)"
  by (rule iffD2 [OF linked_same]) (auto simp: same_records_def eraseIfEmpty_def record_maps contConfig_def fun_eq_iff)

lemma linked_unsubscribe: "linked {} sm \<Longrightarrow> linked {} (snd (unsubscribe hw c ps sm))"
  unfolding unsubscribe_def
  by (auto simp: snd_bindE intro!: linked_eraseIfEmpty forE_invariant [where I = "linked {}"] linked_unsubscribeOne
      split: option.split sum.split)

section \<open>Supported values\<close>

lemma supportedClients_put:
  "supportedClientsOf (sm\<lparr>mSupportedValueChangeClientsByPropIdAreaId := umap_put k m (mSupportedValueChangeClientsByPropIdAreaId sm),
     mSupportedValueChangePropIdAreaIdsByClient := ids\<rparr>) = (supportedClientsOf sm)(k := umap_keys m)"
  by (auto simp: supportedClientsOf_def fun_eq_iff)

lemma linked_supportedI:
  assumes "linked X sm" "clientsOf sm' = clientsOf sm" "propsOf sm' = propsOf sm"
    "continuousClientsOf sm' = continuousClientsOf sm"
    and "\<And>k c. c \<in> supportedClientsOf sm' k \<Longrightarrow> k \<in> supportedIdsOf sm' c"
  shows "linked X sm'"
  using assms by (simp add: linked_def)

lemma supported_fields [simp]:
  "clientsOf (sm\<lparr>mSupportedValueChangeClientsByPropIdAreaId := m, mSupportedValueChangePropIdAreaIdsByClient := n\<rparr>) = clientsOf sm"
  "propsOf (sm\<lparr>mSupportedValueChangeClientsByPropIdAreaId := m, mSupportedValueChangePropIdAreaIdsByClient := n\<rparr>) = propsOf sm"
  "continuousClientsOf (sm\<lparr>mSupportedValueChangeClientsByPropIdAreaId := m, mSupportedValueChangePropIdAreaIdsByClient := n\<rparr>) =
     continuousClientsOf sm"
  by (simp_all add: clientsOf_def propsOf_def continuousClientsOf_def contConfig_def fun_eq_iff)

lemma linked_subscribeSupported:
  assumes "linked X sm" shows "linked X (snd (subscribeSupportedValueChange hw cb ks sm))"
proof -
  let ?add = "\<lambda>k sm. sm\<lparr>
          mSupportedValueChangeClientsByPropIdAreaId := umap_put k
            (umap_put (cbBinder cb) cb (umap_at [] k (mSupportedValueChangeClientsByPropIdAreaId sm)))
            (mSupportedValueChangeClientsByPropIdAreaId sm),
          mSupportedValueChangePropIdAreaIdsByClient := umap_put (cbBinder cb)
            (uset_insert k (umap_at [] (cbBinder cb) (mSupportedValueChangePropIdAreaIdsByClient sm)))
            (mSupportedValueChangePropIdAreaIdsByClient sm)\<rparr>"
  have add: "linked X (?add k s)" if "linked X s" for k s
  proof (rule linked_supportedI [OF that])
    have c: "supportedClientsOf (?add k s) j =
        (if j = k then insert (cbBinder cb) (supportedClientsOf s k) else supportedClientsOf s j)" for j
      by (auto simp: supportedClientsOf_def)
    have i: "supportedIdsOf (?add k s) d = (if d = cbBinder cb then insert k (supportedIdsOf s d) else supportedIdsOf s d)" for d
      by (auto simp: supportedIdsOf_def)
    fix k' c assume "c \<in> supportedClientsOf (?add k s) k'"
    then show "k' \<in> supportedIdsOf (?add k s) c"
      using that unfolding c i by (auto simp: linked_def split: if_splits)
  qed simp_all
  have fl: "linked X (fold ?add ks s)" if "linked X s" for s
    using that by (induction ks arbitrary: s) (simp_all only: fold.simps id_apply comp_apply add)
  show ?thesis
    using fl [of "snd (callHardware (hw_subscribeSupportedValueChange hw ks) sm)"] assms by (simp add: subscribeSupportedValueChange_def snd_bindE split: sum.split)
qed

lemma supported_forget_records:
  "supportedClientsOf (forgetSupportedValueChange c k sm) j =
     (if j = k then supportedClientsOf sm k - {c} else supportedClientsOf sm j)"
  "supportedIdsOf (forgetSupportedValueChange c k sm) d =
     (if d = c then supportedIdsOf sm c - {k} else supportedIdsOf sm d)"
  "clientsOf (forgetSupportedValueChange c k sm) = clientsOf sm"
  "propsOf (forgetSupportedValueChange c k sm) = propsOf sm"
  "continuousClientsOf (forgetSupportedValueChange c k sm) = continuousClientsOf sm"
proof -
  show "clientsOf (forgetSupportedValueChange c k sm) = clientsOf sm"
    "propsOf (forgetSupportedValueChange c k sm) = propsOf sm"
    "continuousClientsOf (forgetSupportedValueChange c k sm) = continuousClientsOf sm"
    by (simp_all add: forgetSupportedValueChange_def Let_def)
  have e: "uset_erase k xs = [] \<Longrightarrow> x \<in> set xs \<Longrightarrow> x = k" for x and xs :: "PropIdAreaId uset"
    using set_uset_erase [of k xs] by auto
  show "supportedIdsOf (forgetSupportedValueChange c k sm) d =
     (if d = c then supportedIdsOf sm c - {k} else supportedIdsOf sm d)"
    by (auto simp: supportedIdsOf_def forgetSupportedValueChange_def Let_def dest: e)
  define m where "m = mSupportedValueChangeClientsByPropIdAreaId sm"
  have "x = c" if "umap_erase c (m' :: (ClientIdType, VehicleCallback) umap) = []" "map_of m' x = Some y" for m' x y
    using that map_of_umap_erase [of c m'] by (metis fun_upd_apply map_of.simps(1) option.distinct(1))
  then show "supportedClientsOf (forgetSupportedValueChange c k sm) j =
     (if j = k then supportedClientsOf sm k - {c} else supportedClientsOf sm j)"
    by (auto simp: supportedClientsOf_def forgetSupportedValueChange_def Let_def m_def [symmetric] umap_at_def
        map_of_umap_touch split: option.splits)
qed

lemma linked_forget: "linked X sm \<Longrightarrow> linked X (forgetSupportedValueChange c k sm)"
  unfolding linked_def supported_forget_records by auto

lemma linked_unsubscribeSupported:
  assumes "linked X sm" shows "linked X (snd (unsubscribeSupportedValueChange hw c ks sm))"
proof -
  have "linked X (fold (forgetSupportedValueChange c) ks s)" if "linked X s" for s
    using that by (induction ks arbitrary: s) (simp_all add: linked_forget)
  then show ?thesis
    using assms by (auto simp: unsubscribeSupportedValueChange_def Let_def snd_bindE split: sum.split)
qed

section \<open>Everything of a client\<close>

text \<open>The first half of \<open>unsubscribeAll\<close>: from the properties, under the record of the client.\<close>

lemma unsubscribe_loop_records:
  "linked {} sm \<Longrightarrow> linked {} (snd (forE (unsubscribePropIdAreaIdLocked hw c) ks sm)) \<and>
     propsOf (snd (forE (unsubscribePropIdAreaIdLocked hw c) ks sm)) = propsOf sm \<and>
     (\<forall>j. clientsOf (snd (forE (unsubscribePropIdAreaIdLocked hw c) ks sm)) j \<subseteq> clientsOf sm j) \<and>
     (fst (forE (unsubscribePropIdAreaIdLocked hw c) ks sm) = Inr () \<longrightarrow>
        (\<forall>k \<in> set ks. c \<notin> clientsOf (snd (forE (unsubscribePropIdAreaIdLocked hw c) ks sm)) k))"
proof (induction ks arbitrary: sm)
  case (Cons k ks)
  obtain r s where u: "unsubscribePropIdAreaIdLocked hw c k sm = (r, s)" by fastforce
  note one = unsubscribeArea_linked [OF Cons.prems, of hw c k, unfolded u]
  have IH: "linked {} (snd (forE (unsubscribePropIdAreaIdLocked hw c) ks s)) \<and>
      propsOf (snd (forE (unsubscribePropIdAreaIdLocked hw c) ks s)) = propsOf s \<and>
      (\<forall>j. clientsOf (snd (forE (unsubscribePropIdAreaIdLocked hw c) ks s)) j \<subseteq> clientsOf s j) \<and>
      (fst (forE (unsubscribePropIdAreaIdLocked hw c) ks s) = Inr () \<longrightarrow>
        (\<forall>k \<in> set ks. c \<notin> clientsOf (snd (forE (unsubscribePropIdAreaIdLocked hw c) ks s)) k))"
    using Cons.IH one by simp
  show ?case
  proof (cases r)
    case (Inl e)
    then show ?thesis using one by (simp add: u)
  next
    case (Inr x)
    then show ?thesis using one IH by (auto simp: u)
  qed
qed simp

lemma linked_unsubscribeAll:
  assumes "linked {} sm" shows "linked {} (snd (unsubscribeAll hw c sm))"
proof -
  define first where "first = (case map_of (mSubscribedPropsByClient sm) c of
      None \<Rightarrow> (Inr () :: unit VhalResult, sm)
    | Some ks \<Rightarrow> bindE (forE (unsubscribePropIdAreaIdLocked hw c) ks)
        (\<lambda>_ sm. (Inr (), sm\<lparr>mSubscribedPropsByClient := umap_erase c (mSubscribedPropsByClient sm)\<rparr>)) sm)"
  have "linked {} (snd first)"
  proof (cases "map_of (mSubscribedPropsByClient sm) c")
    case None
    then show ?thesis using assms by (simp add: first_def)
  next
    case (Some ks)
    define s where "s = snd (forE (unsubscribePropIdAreaIdLocked hw c) ks sm)"
    note l = unsubscribe_loop_records [OF assms, of hw c ks, folded s_def]
    have "linked {} (s\<lparr>mSubscribedPropsByClient := umap_erase c (mSubscribedPropsByClient s)\<rparr>)"
      if "fst (forE (unsubscribePropIdAreaIdLocked hw c) ks sm) = Inr ()"
    proof -
      have "c \<notin> clientsOf s k" for k
      proof
        assume c: "c \<in> clientsOf s k"
        then have "k \<in> propsOf sm c" using l by (auto simp: linked_def)
        then have "k \<in> set ks" using Some by (simp add: propsOf_def umap_at_def)
        then show False using l that c by blast
      qed
      then show ?thesis
        using l unfolding linked_def by (auto simp: propsOf_def split: if_splits)
    qed
    then show ?thesis
      using l by (auto simp: first_def Some snd_bindE s_def [symmetric] split: sum.split)
  qed
  then show ?thesis
    using assms by (auto simp: unsubscribeAll_def first_def [symmetric] snd_bindE
        intro!: linked_unsubscribeSupported split: sum.split option.split)
qed

section \<open>Events\<close>

lemma sendTo_same_records:
  assumes "sendTo v entry acc = Some acc'"
  shows "same_records (snd acc') (snd acc)"
proof -
  have sup: "mSupportedValueChangeClientsByPropIdAreaId (snd acc') = mSupportedValueChangeClientsByPropIdAreaId (snd acc) \<and>
      mSupportedValueChangePropIdAreaIdsByClient (snd acc') = mSupportedValueChangePropIdAreaIdsByClient (snd acc)"
    using assms by (auto simp: sendTo_def isValueUpdatedLocked_def touchContConfig_def Let_def case_prod_unfold
        split: option.splits if_splits)
  have cont: "contConfig j (snd acc') = contConfig j (snd acc)" for j
    using contConfig_touch [of j "key_of v" "snd acc"] sendTo_frames(4) [OF assms] by (simp add: contConfig_def)
  show ?thesis
    using sup cont sendTo_frames(2,3) [OF assms] by (simp add: same_records_def record_maps fun_eq_iff)
qed

lemma same_records_trans: "same_records a b \<Longrightarrow> same_records b c \<Longrightarrow> same_records a c"
  by (simp add: same_records_def)

lemma deliver_same_records:
  assumes "getSubscribedClients vs sm = Some (out, sm')"
  shows "same_records sm' sm"
proof -
  let ?I = "\<lambda>acc :: (VehicleCallback, VehiclePropValue list) umap \<times> 'a SubscriptionManager. same_records (snd acc) sm"
  have "?I (out, sm')"
  proof (rule foldO_invariant [OF assms [unfolded getSubscribedClients_def]])
    show "?I ([], sm)" by (simp add: same_records_def)
    fix v acc acc'
    assume I: "?I acc" and step: "(case map_of (mClientsByPropIdAreaId (snd acc)) (key_of v) of
        None \<Rightarrow> Some acc | Some cs \<Rightarrow> foldO (sendTo v) cs acc) = Some acc'"
    show "?I acc'"
    proof (cases "map_of (mClientsByPropIdAreaId (snd acc)) (key_of v)")
      case None
      then show ?thesis using step I by simp
    next
      case (Some cs)
      then have "foldO (sendTo v) cs acc = Some acc'" using step by simp
      then show ?thesis
        using I by (rule foldO_invariant) (use sendTo_same_records same_records_trans in blast)
    qed
  qed
  then show ?thesis by simp
qed

lemma linked_deliver: "linked X sm \<Longrightarrow> getSubscribedClients vs sm = Some (out, sm') \<Longrightarrow> linked X sm'"
  using linked_same [OF deliver_same_records] by blast

end
