(* ===== verification/Hal_Clients.thy ===== *)
theory Hal_Clients
  imports Default_Vehicle_Hal Subscription_Records
begin

text \<open>
  What the vehicle HAL keeps for its clients, and that nothing is left of a client whose binder died:
  the operations of \<open>Default_Vehicle_Hal\<close> as a step relation over all interleavings of calls, hardware
  callbacks, binder deaths and the handler thread, its invariant, and the theorem.
\<close>

section \<open>Clients whose binder died\<close>

text \<open>The clients recorded as having subscriptions.\<close>

definition subscribers :: "'h SubscriptionManager \<Rightarrow> ClientIdType set" where
  "subscribers sm = {c. umap_at [] c (mSubscribedPropsByClient sm) \<noteq> [] \<or>
     umap_at [] c (mSupportedValueChangePropIdAreaIdsByClient sm) \<noteq> []}"

text \<open>
  The clients that the manager keeps anything about to send them: by client and by property, with the
  configurations that continuous properties combine. (\<open>mContSubValuesByCallback\<close> is not among them: it is only
  read to compare an event with the last one, and is never erased.)
\<close>

definition managedClients :: "'h SubscriptionManager \<Rightarrow> ClientIdType set" where
  "managedClients sm = subscribers sm \<union> (\<Union>k. clientsOf sm k) \<union> (\<Union>k. continuousClientsOf sm k) \<union>
     (\<Union>k. supportedClientsOf sm k)"

lemma managed_subscribers: "linked {} sm \<Longrightarrow> managedClients sm = subscribers sm"
  unfolding managedClients_def linked_def by (fastforce simp: subscribers_def propsOf_def supportedIdsOf_def)

text \<open>All the clients the service keeps something for, and those it has a record of by client.\<close>

definition knownClients :: "'h DefaultVehicleHal \<Rightarrow> ClientIdType set" where
  "knownClients hal = umap_keys (mGetValuesClients hal) \<union> umap_keys (mSetValuesClients hal) \<union>
     managedClients (mSubscriptionManager hal)"

definition recordedClients :: "'h DefaultVehicleHal \<Rightarrow> ClientIdType set" where
  "recordedClients hal = umap_keys (mGetValuesClients hal) \<union> umap_keys (mSetValuesClients hal) \<union>
     subscribers (mSubscriptionManager hal)"

lemma subscribers_cong:
  "mSubscribedPropsByClient sm' = mSubscribedPropsByClient sm \<Longrightarrow>
   mSupportedValueChangePropIdAreaIdsByClient sm' = mSupportedValueChangePropIdAreaIdsByClient sm \<Longrightarrow>
   subscribers sm' = subscribers sm"
  by (simp add: subscribers_def)

lemma subscribers_callHardware [simp]: "subscribers (snd (callHardware f sm)) = subscribers sm"
  by (simp add: callHardware_def subscribers_def split: prod.split)

lemma subscribers_frame [simp]:
  "subscribers (putContConfig k cfg sm) = subscribers sm"
  "subscribers (touchContConfig k sm) = subscribers sm"
  "subscribers (sm\<lparr>mClientsByPropIdAreaId := m\<rparr>) = subscribers sm"
  "subscribers (sm\<lparr>mVehicleHardware := h\<rparr>) = subscribers sm"
  "subscribers (dropClient c k sm) = subscribers sm"
  by (simp_all add: subscribers_def putContConfig_def touchContConfig_def dropClient_def Let_def)

lemma bindE_snd_preserves:
  assumes "f (snd (p s)) = f s" "\<And>a s. f (snd (q a s)) = f s"
  shows "f (snd (bindE p q s)) = f s"
  using assms by (auto simp: bindE_def split: prod.splits sum.splits)

lemma bindE_snd_invariant:
  assumes "I (snd (p s))" "\<And>a s. I s \<Longrightarrow> I (snd (q a s))"
  shows "I (snd (bindE p q s))"
  using assms by (auto simp: bindE_def split: prod.splits sum.splits)

lemma subscribers_update [simp]: "subscribers (snd (updateContSubConfigsLocked hw k cfg sm)) = subscribers sm"
  by (simp add: updateContSubConfigsLocked_def Let_def snd_bindE split: sum.split)

lemma subscribers_locked [simp]:
  "subscribers (snd (addOnChangeSubscriberLocked hw k sm)) = subscribers sm"
  "subscribers (snd (addContinuousSubscriberLocked hw c k r res vur sm)) = subscribers sm"
  "subscribers (snd (removeContinuousSubscriberLocked hw c k sm)) = subscribers sm"
  "subscribers (snd (removeOnChangeSubscriberLocked hw k sm)) = subscribers sm"
  by (simp_all add: addOnChangeSubscriberLocked_def addContinuousSubscriberLocked_def
      removeContinuousSubscriberLocked_def removeOnChangeSubscriberLocked_def Let_def)

lemma subscribers_unsubscribeArea [simp]:
  "subscribers (snd (unsubscribePropIdAreaIdLocked hw c k sm)) = subscribers sm"
  by (auto simp: unsubscribePropIdAreaIdLocked_def intro!: bindE_snd_preserves [where f = subscribers])

lemma subscribers_record:
  "subscribers (recordSubscription cb k sm) \<subseteq> insert (cbBinder cb) (subscribers sm)"
  by (auto simp: recordSubscription_def subscribers_def split: if_splits)

lemma subscribers_subscribe: "subscribers (snd (subscribe l hw cb options cont sm)) \<subseteq> insert (cbBinder cb) (subscribers sm)"
proof -
  let ?I = "\<lambda>s. subscribers s \<subseteq> insert (cbBinder cb) (subscribers sm)"
  have area: "?I (snd (subscribeArea hw cb cont option a s))" if "?I s" for option a s
    unfolding subscribeArea_def Let_def
  proof (rule bindE_snd_invariant)
    show "?I (snd ((if cont then addContinuousSubscriberLocked hw (cbBinder cb) (PropIdAreaId (so_propId option) a)
        (so_sampleRate option) (so_resolution option) (so_enableVariableUpdateRate option)
      else addOnChangeSubscriberLocked hw (PropIdAreaId (so_propId option) a)) s))" using that by simp
  next
    fix u t assume "?I t"
    then show "?I (snd (Inr (), recordSubscription cb (PropIdAreaId (so_propId option) a) t))"
      using subscribers_record [of cb "PropIdAreaId (so_propId option) a" t] by auto
  qed
  have "?I (snd (forE (\<lambda>option. forE (subscribeArea hw cb cont option) (so_areaIds option)) options sm))"
    by (rule forE_invariant, blast) (rule forE_invariant, simp_all add: area)
  then show ?thesis by (auto simp: subscribe_def)
qed

lemma subscribers_eraseSubscribedProp: "subscribers (eraseSubscribedProp c k sm) \<subseteq> subscribers sm"
proof
  fix x assume x: "x \<in> subscribers (eraseSubscribedProp c k sm)"
  have "uset_erase k (umap_at [] c (mSubscribedPropsByClient sm)) \<noteq> [] \<Longrightarrow> umap_at [] c (mSubscribedPropsByClient sm) \<noteq> []"
    by (auto simp: uset_erase_def)
  then show "x \<in> subscribers sm"
    using x by (auto simp: eraseSubscribedProp_def subscribers_def split: if_splits)
qed

lemma subscribers_unsubscribe: "subscribers (snd (unsubscribe hw c ps sm)) \<subseteq> subscribers sm"
proof (cases "map_of (mSubscribedPropsByClient sm) c")
  case (Some ks)
  let ?I = "\<lambda>s. subscribers s \<subseteq> subscribers sm"
  have one: "?I (snd (unsubscribeOne hw c k s))" if "?I s" for k s
    unfolding unsubscribeOne_def
  proof (rule bindE_snd_invariant)
    fix a t assume "?I t"
    then show "?I (snd (Inr (), eraseSubscribedProp c k t))"
      using subscribers_eraseSubscribedProp [of c k t] by auto
  qed (use that in simp)
  have erase: "subscribers (eraseIfEmpty c s) \<subseteq> subscribers s" for s :: "'a SubscriptionManager"
    by (auto simp: eraseIfEmpty_def subscribers_def split: if_splits)
  have "?I (snd (bindE (forE (unsubscribeOne hw c) (filter (\<lambda>k. propId k \<in> set ps) ks))
      (\<lambda>_ sm. (Inr (), eraseIfEmpty c sm)) sm))"
  proof (rule bindE_snd_invariant)
    show "?I (snd (forE (unsubscribeOne hw c) (filter (\<lambda>k. propId k \<in> set ps) ks) sm))"
      by (rule forE_invariant) (simp_all add: one)
  qed (use erase in auto)
  then show ?thesis using Some by (simp add: unsubscribe_def)
qed (simp add: unsubscribe_def)

lemma supported_forget:
  "umap_at [] x (mSupportedValueChangePropIdAreaIdsByClient (forgetSupportedValueChange c k sm)) =
     (if x = c then uset_erase k (umap_at [] c (mSupportedValueChangePropIdAreaIdsByClient sm))
      else umap_at [] x (mSupportedValueChangePropIdAreaIdsByClient sm))"
  "mSubscribedPropsByClient (forgetSupportedValueChange c k sm) = mSubscribedPropsByClient sm"
  by (simp_all add: forgetSupportedValueChange_def Let_def)

lemma supported_forget_fold:
  "umap_at [] x (mSupportedValueChangePropIdAreaIdsByClient (fold (forgetSupportedValueChange c) ks sm)) =
     (if x = c then fold uset_erase ks (umap_at [] c (mSupportedValueChangePropIdAreaIdsByClient sm))
      else umap_at [] x (mSupportedValueChangePropIdAreaIdsByClient sm))"
  "mSubscribedPropsByClient (fold (forgetSupportedValueChange c) ks sm) = mSubscribedPropsByClient sm"
  by (induction ks arbitrary: sm) (simp_all add: supported_forget)

lemma set_fold_erase: "set (fold uset_erase ks s) = set s - set ks"
  by (induction ks arbitrary: s) auto

lemma unsubscribeSupported_maps:
  obtains f where "snd (unsubscribeSupportedValueChange hw c ks sm) = f" "mSubscribedPropsByClient f = mSubscribedPropsByClient sm"
    "\<And>x. umap_at [] x (mSupportedValueChangePropIdAreaIdsByClient f) =
      (if x = c \<and> fst (unsubscribeSupportedValueChange hw c ks sm) = Inr ()
       then fold uset_erase ks (umap_at [] c (mSupportedValueChangePropIdAreaIdsByClient sm))
       else umap_at [] x (mSupportedValueChangePropIdAreaIdsByClient sm))"
proof (rule that [OF refl])
  have ch: "mSubscribedPropsByClient (snd (callHardware g sm)) = mSubscribedPropsByClient sm"
    "mSupportedValueChangePropIdAreaIdsByClient (snd (callHardware g sm)) = mSupportedValueChangePropIdAreaIdsByClient sm" for g
    by (simp_all add: callHardware_def split: prod.split)
  show "mSubscribedPropsByClient (snd (unsubscribeSupportedValueChange hw c ks sm)) = mSubscribedPropsByClient sm"
    by (auto simp: unsubscribeSupportedValueChange_def Let_def bindE_def supported_forget_fold
        callHardware_def split: prod.splits sum.splits if_splits)
  show "umap_at [] x (mSupportedValueChangePropIdAreaIdsByClient (snd (unsubscribeSupportedValueChange hw c ks sm))) =
      (if x = c \<and> fst (unsubscribeSupportedValueChange hw c ks sm) = Inr ()
       then fold uset_erase ks (umap_at [] c (mSupportedValueChangePropIdAreaIdsByClient sm))
       else umap_at [] x (mSupportedValueChangePropIdAreaIdsByClient sm))" for x
    by (auto simp: unsubscribeSupportedValueChange_def Let_def bindE_def supported_forget_fold
        callHardware_def split: prod.splits sum.splits if_splits)
qed

lemma subscribers_unsubscribeSupported:
  "subscribers (snd (unsubscribeSupportedValueChange hw c ks sm)) \<subseteq> subscribers sm"
proof -
  have e: "fold uset_erase ks s \<noteq> [] \<Longrightarrow> s \<noteq> []" for s :: "PropIdAreaId uset"
    using set_fold_erase [of ks s] by auto
  show ?thesis
    by (rule unsubscribeSupported_maps [of hw c ks sm])
      (auto simp: subscribers_def dest: e split: if_splits)
qed

lemma subscribers_subscribeSupported:
  "subscribers (snd (subscribeSupportedValueChange hw cb ks sm)) \<subseteq> insert (cbBinder cb) (subscribers sm)"
proof -
  let ?add = "\<lambda>k sm. sm\<lparr>
          mSupportedValueChangeClientsByPropIdAreaId := umap_put k
            (umap_put (cbBinder cb) cb (umap_at [] k (mSupportedValueChangeClientsByPropIdAreaId sm)))
            (mSupportedValueChangeClientsByPropIdAreaId sm),
          mSupportedValueChangePropIdAreaIdsByClient := umap_put (cbBinder cb)
            (uset_insert k (umap_at [] (cbBinder cb) (mSupportedValueChangePropIdAreaIdsByClient sm)))
            (mSupportedValueChangePropIdAreaIdsByClient sm)\<rparr>"
  have fl: "subscribers (fold ?add ks s) \<subseteq> insert (cbBinder cb) (subscribers s)" for s
  proof (induction ks arbitrary: s)
    case (Cons k ks)
    have "subscribers (?add k s) \<subseteq> insert (cbBinder cb) (subscribers s)"
      by (auto simp: subscribers_def split: if_splits)
    then show ?case using Cons [of "?add k s"] by auto
  qed auto
  have "subscribers (snd (callHardware (hw_subscribeSupportedValueChange hw ks) sm)) = subscribers sm" by simp
  then show ?thesis
    using fl [of "snd (callHardware (hw_subscribeSupportedValueChange hw ks) sm)"]
    unfolding subscribeSupportedValueChange_def snd_bindE by (simp add: subset_insertI split: sum.split del: callHardware_simps)
qed

lemma subscribers_unsubscribeAll:
  "subscribers (snd (unsubscribeAll hw c sm)) \<subseteq> subscribers sm"
  "fst (unsubscribeAll hw c sm) = Inr () \<Longrightarrow> c \<notin> subscribers (snd (unsubscribeAll hw c sm))"
proof -
  define first where "first = (\<lambda>sm. case map_of (mSubscribedPropsByClient sm) c of
      None \<Rightarrow> (Inr () :: unit VhalResult, sm)
    | Some ks \<Rightarrow> bindE (forE (unsubscribePropIdAreaIdLocked hw c) ks)
        (\<lambda>_ sm. (Inr (), sm\<lparr>mSubscribedPropsByClient := umap_erase c (mSubscribedPropsByClient sm)\<rparr>)) sm)"
  define second where "second = (\<lambda>sm. case map_of (mSupportedValueChangePropIdAreaIdsByClient sm) c of
      None \<Rightarrow> (Inr (), sm) | Some ks \<Rightarrow> unsubscribeSupportedValueChange hw c ks sm)"
  have un: "unsubscribeAll hw c sm = bindE first (\<lambda>_. second) sm"
    by (simp add: unsubscribeAll_def first_def second_def)
  have loop: "subscribers (snd (forE (unsubscribePropIdAreaIdLocked hw c) ks sm)) = subscribers sm" for ks
    by (rule forE_invariant [where I = "\<lambda>s. subscribers s = subscribers sm"]) simp_all
  have er: "subscribers (s\<lparr>mSubscribedPropsByClient := umap_erase c (mSubscribedPropsByClient s)\<rparr>) \<subseteq> subscribers s"
    for s :: "'a SubscriptionManager"
    by (auto simp: subscribers_def split: if_splits)
  have f1: "subscribers (snd (first sm)) \<subseteq> subscribers sm"
  proof (cases "map_of (mSubscribedPropsByClient sm) c")
    case (Some ks)
    then show ?thesis
      using loop [of ks] er [of "snd (forE (unsubscribePropIdAreaIdLocked hw c) ks sm)"]
      by (simp add: first_def snd_bindE split: sum.split)
  qed (simp add: first_def)
  have f2: "umap_at [] c (mSubscribedPropsByClient (snd (first sm))) = []" if "fst (first sm) = Inr ()"
    using that unfolding first_def by (auto simp: bindE_def split: option.splits prod.splits sum.splits)
  have s1: "subscribers (snd (second s)) \<subseteq> subscribers s" for s
    using subscribers_unsubscribeSupported [of hw c _ s] by (auto simp: second_def split: option.splits)
  have s2: "c \<notin> subscribers (snd (second s))"
    if "fst (second s) = Inr ()" "umap_at [] c (mSubscribedPropsByClient s) = []" for s
  proof (cases "map_of (mSupportedValueChangePropIdAreaIdsByClient s) c")
    case None
    then show ?thesis using that by (simp add: second_def subscribers_def)
  next
    case (Some ks)
    have "fold uset_erase ks ks = []" using set_fold_erase [of ks ks] by simp
    then show ?thesis
      using that Some by (auto simp: second_def subscribers_def intro: unsubscribeSupported_maps [of hw c ks s])
  qed
  show "subscribers (snd (unsubscribeAll hw c sm)) \<subseteq> subscribers sm"
    unfolding un snd_bindE using f1 subset_trans [OF s1 f1] by (auto split: sum.split)
  show "c \<notin> subscribers (snd (unsubscribeAll hw c sm))" if "fst (unsubscribeAll hw c sm) = Inr ()"
    using that f2 s2 unfolding un by (auto simp: bindE_def split: prod.splits sum.splits)
qed

text \<open>
  The service and its environment: \<open>dead\<close> are the binders that died; \<open>todo\<close> are the events the handler
  thread has flushed and not yet handled, each of which it handles under the lock; \<open>failed\<close> are the
  clients whose unsubscription the hardware refused, which the code ignores. A binder that dies
  while it is linked gives a died and then an unlinked event; an unlinked event also follows a link
  that failed.
\<close>

definition refused :: "'h Platform \<Rightarrow> BinderDiedUnlinkedEvent \<Rightarrow> 'h DefaultVehicleHal \<Rightarrow> ClientIdType set" where
  "refused plat event hal = (if forOnBinderDied event \<and>
     fst (unsubscribeAll (hardware plat) (clientId event) (mSubscriptionManager hal)) \<noteq> Inr ()
   then {clientId event} else {})"

inductive hal_reachable ::
  "'h Platform \<Rightarrow> ClientIdType set \<Rightarrow> ClientIdType set \<Rightarrow> BinderDiedUnlinkedEvent list \<Rightarrow> 'h DefaultVehicleHal \<Rightarrow> bool"
  for plat where
  hal_new: "hal_reachable plat {} {} [] (newDefaultVehicleHal w h)"
| hal_get: "hal_reachable plat dead failed todo hal \<Longrightarrow>
    hal_reachable plat dead failed todo (snd (snd (getValues plat (\<lambda>c. c \<notin> dead) now cb greqs hal)))"
| hal_set: "hal_reachable plat dead failed todo hal \<Longrightarrow>
    setValues plat (\<lambda>c. c \<notin> dead) now cb sreqs hal = Some (status, calls, hal') \<Longrightarrow> hal_reachable plat dead failed todo hal'"
| hal_subscribe: "hal_reachable plat dead failed todo hal \<Longrightarrow>
    halSubscribe plat (\<lambda>c. c \<notin> dead) cb options hal = Some (status, hal') \<Longrightarrow> hal_reachable plat dead failed todo hal'"
| hal_unsubscribe: "hal_reachable plat dead failed todo hal \<Longrightarrow>
    hal_reachable plat dead failed todo (snd (halUnsubscribe plat cb ps hal))"
| hal_register: "hal_reachable plat dead failed todo hal \<Longrightarrow>
    hal_reachable plat dead failed todo (snd (halRegisterSupportedValueChangeCallback plat (\<lambda>c. c \<notin> dead) cb1 ks hal))"
| hal_unregister: "hal_reachable plat dead failed todo hal \<Longrightarrow>
    hal_reachable plat dead failed todo (snd (halUnregisterSupportedValueChangeCallback plat cb1 ks hal))"
| hal_event: "hal_reachable plat dead failed todo hal \<Longrightarrow>
    propertyChangeCallback plat values hal = Some (calls, hal') \<Longrightarrow> hal_reachable plat dead failed todo hal'"
| hal_get_results: "hal_reachable plat dead failed todo hal \<Longrightarrow>
    hal_reachable plat dead failed todo (snd (onGetResults plat client gresults hal))"
| hal_set_results: "hal_reachable plat dead failed todo hal \<Longrightarrow>
    hal_reachable plat dead failed todo (snd (onSetResults plat client sresults hal))"
| hal_timeout: "hal_reachable plat dead failed todo hal \<Longrightarrow>
    hal_reachable plat dead failed todo (hal\<lparr>mPendingRequestPool := snd (checkTimeout now (mPendingRequestPool hal))\<rparr>)"
| hal_die: "hal_reachable plat dead failed todo hal \<Longrightarrow> c \<notin> dead \<Longrightarrow>
    hal_reachable plat (insert c dead) failed todo
      (if c \<in> set (mOnBinderDiedContexts hal) then onBinderUnlinked c (onBinderDied c hal) else hal)"
| hal_unlinked: "hal_reachable plat dead failed todo hal \<Longrightarrow> c \<in> dead \<Longrightarrow>
    hal_reachable plat dead failed todo (onBinderUnlinked c hal)"
| hal_flush: "hal_reachable plat dead failed [] hal \<Longrightarrow> flush (mBinderEvents hal) = (todo, queue) \<Longrightarrow>
    hal_reachable plat dead failed todo (hal\<lparr>mBinderEvents := queue\<rparr>)"
| hal_handle: "hal_reachable plat dead failed (event # todo) hal \<Longrightarrow>
    hal_reachable plat dead (failed \<union> refused plat event hal) todo (handleBinderEvent plat event hal)"

definition hal_inv ::
  "ClientIdType set \<Rightarrow> ClientIdType set \<Rightarrow> BinderDiedUnlinkedEvent list \<Rightarrow> 'h DefaultVehicleHal \<Rightarrow> bool" where
  "hal_inv dead failed todo hal \<longleftrightarrow> mIsActive (mBinderEvents hal) \<and>
     (\<forall>c \<in> recordedClients hal. c \<notin> dead \<and> c \<in> set (mOnBinderDiedContexts hal) \<or>
        BinderEvent True c \<in> set todo \<union> set (mQueue (mBinderEvents hal)) \<or> c \<in> failed) \<and>
     (\<forall>e \<in> set todo \<union> set (mQueue (mBinderEvents hal)). clientId e \<in> dead)"

text \<open>Operations that add at most clients that are alive and watched.\<close>

definition hal_grows :: "ClientIdType set \<Rightarrow> 'h DefaultVehicleHal \<Rightarrow> 'h DefaultVehicleHal \<Rightarrow> bool" where
  "hal_grows dead hal hal' \<longleftrightarrow> mBinderEvents hal' = mBinderEvents hal \<and>
     set (mOnBinderDiedContexts hal) \<subseteq> set (mOnBinderDiedContexts hal') \<and>
     (\<forall>c \<in> recordedClients hal'. c \<in> recordedClients hal \<or> c \<notin> dead \<and> c \<in> set (mOnBinderDiedContexts hal'))"

lemma hal_inv_grows: "hal_inv dead failed todo hal \<Longrightarrow> hal_grows dead hal hal' \<Longrightarrow> hal_inv dead failed todo hal'"
  unfolding hal_inv_def hal_grows_def by (metis subsetD)

lemma hal_growsI:
  assumes "mBinderEvents hal' = mBinderEvents hal"
    "set (mOnBinderDiedContexts hal) \<subseteq> set (mOnBinderDiedContexts hal')"
    "umap_keys (mGetValuesClients hal') \<subseteq> umap_keys (mGetValuesClients hal) \<union> A"
    "umap_keys (mSetValuesClients hal') \<subseteq> umap_keys (mSetValuesClients hal) \<union> A"
    "subscribers (mSubscriptionManager hal') \<subseteq> subscribers (mSubscriptionManager hal) \<union> A"
    "\<And>c. c \<in> A \<Longrightarrow> c \<notin> dead \<and> c \<in> set (mOnBinderDiedContexts hal')"
  shows "hal_grows dead hal hal'"
  unfolding hal_grows_def recordedClients_def using assms by blast

lemma dispatch_frame [simp]:
  "mBinderEvents (snd (snd (dispatchRequests now client sendR failed ids nothingLeft snd_op hal))) = mBinderEvents hal"
  "mOnBinderDiedContexts (snd (snd (dispatchRequests now client sendR failed ids nothingLeft snd_op hal))) = mOnBinderDiedContexts hal"
  "subscribers (mSubscriptionManager (snd (snd (dispatchRequests now client sendR failed ids nothingLeft snd_op hal)))) =
     subscribers (mSubscriptionManager hal)"
  by (auto simp: dispatchRequests_def Let_def setHardware_def split: prod.split sum.split)

lemma getOrCreateClient_keys:
  "getOrCreateClient cb clients fresh = (client, clients', fresh') \<Longrightarrow>
     umap_keys clients' \<subseteq> umap_keys clients \<union> {cbBinder cb}"
  by (auto simp: getOrCreateClient_def Let_def split: option.splits if_splits)

lemma hal_grows_refl [simp]: "hal_grows dead hal hal"
  by (simp add: hal_grows_def)

lemma hal_grows_monitor [simp]: "hal_grows dead hal (snd (monitorBinderLifeCycleLocked alive c hal))"
  by (rule hal_growsI [where A = "{}"]) auto

lemma hal_grows_get: "hal_grows dead hal (snd (snd (getValues plat (\<lambda>c. c \<notin> dead) now cb0 d hal)))"
proof (cases cb0)
  case (Some cb)
  show ?thesis
  proof (cases d)
    case (Inr requests)
    show ?thesis
    proof (cases "distinct (map gr_prop requests) \<and> cbBinder cb \<notin> dead")
      case False
      then show ?thesis
        using getValues_rejects [where requests = requests and plat = plat and alive = "\<lambda>c. c \<notin> dead" and now = now
            and cb = cb and hal = hal] Some Inr
        by (cases "distinct (map gr_prop requests)") auto
    next
      case True
      define hal1 where "hal1 = snd (monitorBinderLifeCycleLocked (\<lambda>c. c \<notin> dead) (cbBinder cb) hal)"
      obtain client clients fresh where gc:
        "getOrCreateClient cb (mGetValuesClients hal) (mNextClient hal1) = (client, clients, fresh)"
        by (metis prod_cases3)
      have m: "set (mOnBinderDiedContexts hal1) = insert (cbBinder cb) (set (mOnBinderDiedContexts hal))"
        "mBinderEvents hal1 = mBinderEvents hal" "mSetValuesClients hal1 = mSetValuesClients hal"
        "mSubscriptionManager hal1 = mSubscriptionManager hal" by (simp_all add: hal1_def)
      show ?thesis
        unfolding Some Inr
          getValues_dispatch [where alive = "\<lambda>c. c \<notin> dead", OF conjunct1 [OF True] conjunct2 [OF True] gc hal1_def]
        by (rule hal_growsI [where A = "{cbBinder cb}"]) (use m True getOrCreateClient_keys [OF gc] in auto)
    qed
  qed (simp add: getValues_def Some)
qed (simp add: getValues_def)

lemma hal_grows_set:
  assumes "setValues plat (\<lambda>c. c \<notin> dead) now cb0 d hal = Some (status, calls, hal')"
  shows "hal_grows dead hal hal'"
proof (cases cb0)
  case (Some cb)
  define hal1 where "hal1 = snd (monitorBinderLifeCycleLocked (\<lambda>c. c \<notin> dead) (cbBinder cb) hal)"
  obtain client clients fresh where gc:
    "getOrCreateClient cb (mSetValuesClients hal1) (mNextClient hal1) = (client, clients, fresh)"
    by (metis prod_cases3)
  have m: "set (mOnBinderDiedContexts hal1) = insert (cbBinder cb) (set (mOnBinderDiedContexts hal))"
    "mBinderEvents hal1 = mBinderEvents hal" "mGetValuesClients hal1 = mGetValuesClients hal"
    "mSetValuesClients hal1 = mSetValuesClients hal"
    "mSubscriptionManager hal1 = mSubscriptionManager hal" by (simp_all add: hal1_def)
  have "hal_grows dead hal (snd (snd (dispatchRequests now client sendR failed ids nl op
      (hal1\<lparr>mSetValuesClients := clients, mNextClient := fresh\<rparr>))))" if "cbBinder cb \<notin> dead" for sendR failed ids nl op
    by (rule hal_growsI [where A = "{cbBinder cb}"]) (use m that getOrCreateClient_keys [OF gc] in auto)
  from this have g: "hal_grows dead hal h'" if "cbBinder cb \<notin> dead" "dispatchRequests now client sendR failed ids nl op
      (hal1\<lparr>mSetValuesClients := clients, mNextClient := fresh\<rparr>) = (st, cs, h')" for sendR failed ids nl op st cs h'
    using that by (metis snd_conv)
  show ?thesis
    using assms gc Some unfolding setValues_def
    by (auto simp: Let_def case_prod_unfold hal1_def [symmetric] split: sum.splits option.splits if_splits)
      (metis hal_grows_monitor hal1_def snd_conv g)+
qed (use assms in \<open>simp add: setValues_def\<close>)

lemma subscribers_deliver:
  assumes "getSubscribedClients vs sm = Some (out, sm')"
  shows "subscribers sm' = subscribers sm"
proof -
  let ?I = "\<lambda>acc :: (VehicleCallback, VehiclePropValue list) umap \<times> 'a SubscriptionManager. subscribers (snd acc) = subscribers sm"
  have sup: "mSupportedValueChangePropIdAreaIdsByClient (snd acc') = mSupportedValueChangePropIdAreaIdsByClient (snd acc)"
    if "sendTo v entry acc = Some acc'" for v entry and acc acc' :: "(VehicleCallback, VehiclePropValue list) umap \<times> 'a SubscriptionManager"
    using that by (auto simp: sendTo_def isValueUpdatedLocked_def touchContConfig_def Let_def case_prod_unfold
        split: option.splits if_splits)
  have send: "?I acc'" if "?I acc" "sendTo v entry acc = Some acc'" for v entry acc acc'
    using that(1) sendTo_frames(3) [OF that(2)] sup [OF that(2)] by (simp add: subscribers_def)
  have "?I (out, sm')"
  proof (rule foldO_invariant [OF assms [unfolded getSubscribedClients_def]])
    fix v acc acc'
    assume I: "?I acc" and step: "(case map_of (mClientsByPropIdAreaId (snd acc)) (key_of v) of
        None \<Rightarrow> Some acc | Some cs \<Rightarrow> foldO (sendTo v) cs acc) = Some acc'"
    show "?I acc'"
    proof (cases "map_of (mClientsByPropIdAreaId (snd acc)) (key_of v)")
      case None
      then show ?thesis using step I by simp
    next
      case (Some cs)
      then have "foldO (sendTo v) cs acc = Some acc'" using step by simp
      then show ?thesis using I by (rule foldO_invariant) (use send in blast)
    qed
  qed simp
  then show ?thesis by simp
qed

lemma loadConfigs_frame:
  "loadConfigs plat hal = Some hal' \<Longrightarrow> mBinderEvents hal' = mBinderEvents hal \<and>
     mOnBinderDiedContexts hal' = mOnBinderDiedContexts hal \<and> mGetValuesClients hal' = mGetValuesClients hal \<and>
     mSetValuesClients hal' = mSetValuesClients hal \<and> mSubscriptionManager hal' = mSubscriptionManager hal"
  by (auto simp: loadConfigs_def getAllPropConfigsFromHardwareLocked_def Let_def split: if_splits MarshalResult.splits prod.splits)

lemma hal_grows_load: "loadConfigs plat hal = Some hal' \<Longrightarrow> hal_grows dead hal hal'"
  using loadConfigs_frame [of plat hal hal'] by (intro hal_growsI [where A = "{}"]) auto

lemma hal_grows_trans: "hal_grows dead a b \<Longrightarrow> hal_grows dead b c \<Longrightarrow> hal_grows dead a c"
  unfolding hal_grows_def by (metis subset_iff)

lemma hal_grows_manager:
  assumes "subscribers sm \<subseteq> insert c (subscribers (mSubscriptionManager hal))" "c \<notin> dead"
  shows "hal_grows dead hal ((snd (monitorBinderLifeCycleLocked alive c hal))\<lparr>mSubscriptionManager := sm\<rparr>)"
  by (rule hal_growsI [where A = "{c}"]) (use assms in auto)

lemma hal_grows_shrink:
  "subscribers sm \<subseteq> subscribers (mSubscriptionManager hal) \<Longrightarrow> hal_grows dead hal (hal\<lparr>mSubscriptionManager := sm\<rparr>)"
  by (rule hal_growsI [where A = "{}"]) auto

lemma subscribers_subscribe_both:
  "subscribers (snd (bindE (\<lambda>sm. if p then subscribe l hw cb on False sm else (Inr (), sm))
     (\<lambda>_ sm. if q then subscribe l hw cb cont True sm else (Inr (), sm)) sm)) \<subseteq> insert (cbBinder cb) (subscribers sm)"
proof (rule bindE_snd_invariant)
  have I: "subscribers (snd (if p then subscribe l hw cb opts c s else (Inr (), s))) \<subseteq> insert (cbBinder cb) (subscribers sm)"
    if "subscribers s \<subseteq> insert (cbBinder cb) (subscribers sm)" for p opts c and s :: "'a SubscriptionManager"
    using that subscribers_subscribe [of l hw cb opts c s] by auto
  show "subscribers (snd (if p then subscribe l hw cb on False sm else (Inr (), sm))) \<subseteq> insert (cbBinder cb) (subscribers sm)"
    by (rule I) auto
  show "subscribers (snd (if q then subscribe l hw cb cont True s else (Inr (), s))) \<subseteq> insert (cbBinder cb) (subscribers sm)"
    if "subscribers s \<subseteq> insert (cbBinder cb) (subscribers sm)" for s by (rule I [OF that])
qed

lemma hal_grows_subscribe:
  assumes "halSubscribe plat (\<lambda>c. c \<notin> dead) cb0 options hal = Some (status, hal')"
  shows "hal_grows dead hal hal'"
proof (cases cb0)
  case (Some cb)
  then obtain hal0 where l: "loadConfigs plat hal = Some hal0"
    using assms by (auto simp: halSubscribe_def getConfigsByPropId_def split: option.splits)
  define hal1 where "hal1 = snd (monitorBinderLifeCycleLocked (\<lambda>c. c \<notin> dead) (cbBinder cb) hal0)"
  have sub: "hal_grows dead hal0 (hal1\<lparr>mSubscriptionManager := snd (bindE
      (\<lambda>sm. if on \<noteq> [] then subscribe (plat_log10f plat) (hardware plat) cb on False sm else (Inr (), sm))
      (\<lambda>_ sm. if cont \<noteq> [] then subscribe (plat_log10f plat) (hardware plat) cb cont True sm else (Inr (), sm))
      (mSubscriptionManager hal0))\<rparr>)" if "cbBinder cb \<notin> dead" for on cont
    unfolding hal1_def by (rule hal_grows_manager [OF subscribers_subscribe_both that])
  have "hal_grows dead hal0 hal'"
    using assms l unfolding halSubscribe_def getConfigsByPropId_def Some
    by (auto simp: Let_def case_prod_unfold split: sum.splits option.splits if_splits dest!: sub [unfolded hal1_def])
  then show ?thesis using hal_grows_load [OF l] hal_grows_trans by blast
qed (use assms in \<open>simp add: halSubscribe_def\<close>)

lemma hal_grows_unsubscribe: "hal_grows dead hal (snd (halUnsubscribe plat cb ps hal))"
  by (auto simp: halUnsubscribe_def case_prod_unfold hal_grows_shrink [OF subscribers_unsubscribe] split: option.split)

lemma hal_grows_register:
  "hal_grows dead hal (snd (halRegisterSupportedValueChangeCallback plat (\<lambda>c. c \<notin> dead) cb ks hal))"
proof (cases "supportedValueAreas plat hal ks")
  case (Some toSubscribe)
  have g: "hal_grows dead hal ((snd (monitorBinderLifeCycleLocked alive (cbBinder cb) hal))\<lparr>mSubscriptionManager :=
      snd (subscribeSupportedValueChange (hardware plat) cb toSubscribe (mSubscriptionManager hal))\<rparr>)"
    if "cbBinder cb \<notin> dead" for alive
    by (rule hal_grows_manager [OF subscribers_subscribeSupported that])
  show ?thesis
    unfolding halRegisterSupportedValueChangeCallback_def using Some g
    by (simp add: Let_def case_prod_unfold)
qed (simp add: halRegisterSupportedValueChangeCallback_def)

lemma hal_grows_unregister: "hal_grows dead hal (snd (halUnregisterSupportedValueChangeCallback plat cb ks hal))"
  unfolding halUnregisterSupportedValueChangeCallback_def
  by (simp add: case_prod_unfold hal_grows_shrink [OF subscribers_unsubscribeSupported])

lemma hal_grows_event:
  "propertyChangeCallback plat values hal = Some (calls, hal') \<Longrightarrow> hal_grows dead hal hal'"
  using subscribers_deliver [of "values" "mSubscriptionManager hal"]
  by (auto simp: propertyChangeCallback_def batchPropertyChangeEvent_def onPropertyChangeEvent_def
      split: if_splits option.splits intro!: hal_growsI [where A = "{}"])

lemma hal_grows_pool [simp]: "hal_grows dead hal (hal\<lparr>mPendingRequestPool := pool\<rparr>)"
  by (rule hal_growsI [where A = "{}"]) auto

lemma hal_grows_results:
  "hal_grows dead hal (snd (onGetResults plat client gresults hal))"
  "hal_grows dead hal (snd (onSetResults plat client sresults hal))"
  by (simp_all add: onGetResults_def onSetResults_def split: prod.split)

lemma hal_inv_new: "hal_inv {} {} [] (newDefaultVehicleHal w h)"
  by (simp add: hal_inv_def newDefaultVehicleHal_def recordedClients_def subscribers_def newSubscriptionManager_def
      newQueue_def)

lemma recordedClients_events [simp]:
  "recordedClients (hal\<lparr>mBinderEvents := q\<rparr>) = recordedClients hal"
  "recordedClients (hal\<lparr>mOnBinderDiedContexts := s\<rparr>) = recordedClients hal"
  by (simp_all add: recordedClients_def)

lemma binder_events_push [simp]:
  "mIsActive (mBinderEvents hal) \<Longrightarrow> mQueue (mBinderEvents (onBinderDied c hal)) = mQueue (mBinderEvents hal) @ [BinderEvent True c]"
  "mIsActive (mBinderEvents hal) \<Longrightarrow> mQueue (mBinderEvents (onBinderUnlinked c hal)) = mQueue (mBinderEvents hal) @ [BinderEvent False c]"
  "mIsActive (mBinderEvents (onBinderDied c hal)) = mIsActive (mBinderEvents hal)"
  "mIsActive (mBinderEvents (onBinderUnlinked c hal)) = mIsActive (mBinderEvents hal)"
  "recordedClients (onBinderDied c hal) = recordedClients hal"
  "recordedClients (onBinderUnlinked c hal) = recordedClients hal"
  "mOnBinderDiedContexts (onBinderDied c hal) = mOnBinderDiedContexts hal"
  "mOnBinderDiedContexts (onBinderUnlinked c hal) = mOnBinderDiedContexts hal"
  by (simp_all add: onBinderDied_def onBinderUnlinked_def push_def)

lemma hal_inv_die:
  assumes "hal_inv dead failed todo hal" "c \<notin> dead"
  shows "hal_inv (insert c dead) failed todo
    (if c \<in> set (mOnBinderDiedContexts hal) then onBinderUnlinked c (onBinderDied c hal) else hal)"
proof -
  note a = assms(1) [unfolded hal_inv_def]
  show ?thesis
  proof (cases "c \<in> set (mOnBinderDiedContexts hal)")
    case True
    then show ?thesis using a unfolding hal_inv_def by (auto 0 3)
  next
    case False
    then show ?thesis using a unfolding hal_inv_def by (auto 0 3)
  qed
qed

lemma hal_inv_unlinked:
  "hal_inv dead failed todo hal \<Longrightarrow> c \<in> dead \<Longrightarrow> hal_inv dead failed todo (onBinderUnlinked c hal)"
  unfolding hal_inv_def by auto

lemma hal_inv_flush:
  "hal_inv dead failed [] hal \<Longrightarrow> flush (mBinderEvents hal) = (todo, queue) \<Longrightarrow>
     hal_inv dead failed todo (hal\<lparr>mBinderEvents := queue\<rparr>)"
  unfolding hal_inv_def flush_def by auto

lemma died_context:
  "c \<in> recordedClients (onBinderDiedWithContext plat x hal) \<Longrightarrow> c \<in> recordedClients hal \<and>
     (c = x \<longrightarrow> fst (unsubscribeAll (hardware plat) x (mSubscriptionManager hal)) \<noteq> Inr ())"
  using subscribers_unsubscribeAll [of "hardware plat" x "mSubscriptionManager hal"]
  by (auto simp: recordedClients_def onBinderDiedWithContext_def)

lemma hal_inv_handle:
  assumes "hal_inv dead failed (event # todo) hal"
  shows "hal_inv dead (failed \<union> refused plat event hal) todo (handleBinderEvent plat event hal)"
proof -
  note a = assms [unfolded hal_inv_def]
  obtain b x where e: "event = BinderEvent b x" by (cases event)
  show ?thesis
  proof (cases b)
    case True
    then have f: "mBinderEvents (handleBinderEvent plat event hal) = mBinderEvents hal"
      "mOnBinderDiedContexts (handleBinderEvent plat event hal) = mOnBinderDiedContexts hal"
      by (simp_all add: e handleBinderEvent_def onBinderDiedWithContext_def)
    show ?thesis
      using a True died_context [of _ plat x hal] unfolding hal_inv_def f
      by (fastforce simp: e refused_def handleBinderEvent_def)
  next
    case False
    have x: "x \<in> dead" using a e by simp
    then show ?thesis
      using a False unfolding hal_inv_def
      by (fastforce simp: e refused_def handleBinderEvent_def onBinderUnlinkedWithContext_def)
  qed
qed

lemma hal_reachable_inv: "hal_reachable plat dead failed todo hal \<Longrightarrow> hal_inv dead failed todo hal"
proof (induction rule: hal_reachable.induct)
  case (hal_new w h)
  show ?case by (rule hal_inv_new)
next
  case (hal_set dead failed todo hal now cb sreqs status calls hal')
  then show ?case using hal_grows_set hal_inv_grows by blast
next
  case (hal_subscribe dead failed todo hal cb options status hal')
  then show ?case using hal_grows_subscribe hal_inv_grows by blast
next
  case (hal_die dead failed todo hal c)
  then show ?case using hal_inv_die by blast
next
  case (hal_event dead failed todo hal vs calls hal')
  then show ?case using hal_grows_event hal_inv_grows by blast
qed (auto intro: hal_inv_grows [OF _ hal_grows_get] hal_inv_grows [OF _ hal_grows_unsubscribe]
    hal_inv_grows [OF _ hal_grows_register] hal_inv_grows [OF _ hal_grows_unregister]
    hal_inv_grows [OF _ hal_grows_results(1)] hal_inv_grows [OF _ hal_grows_results(2)]
    hal_inv_grows [OF _ hal_grows_pool] hal_inv_unlinked hal_inv_flush hal_inv_handle
    simp del: if_split)

section \<open>The maps of the subscription manager stay linked\<close>

lemma linked_setHardware [simp]:
  "linked X (mSubscriptionManager (setHardware h hal)) = linked X (mSubscriptionManager hal)"
  by (simp add: setHardware_def)

lemma linked_dispatch [simp]:
  "linked X (mSubscriptionManager (snd (snd (dispatchRequests now client sendR failed ids nothingLeft snd_op hal)))) =
     linked X (mSubscriptionManager hal)"
  by (auto simp: dispatchRequests_def Let_def setHardware_def split: prod.split sum.split)

lemma linked_get:
  "linked {} (mSubscriptionManager hal) \<Longrightarrow> linked {} (mSubscriptionManager (snd (snd (getValues plat alive now cb d hal))))"
  by (auto simp: getValues_def Let_def case_prod_unfold split: option.split sum.split)

lemma linked_set:
  "linked {} (mSubscriptionManager hal) \<Longrightarrow> setValues plat alive now cb d hal = Some res \<Longrightarrow>
     linked {} (mSubscriptionManager (snd (snd res)))"
  by (auto simp: setValues_def Let_def case_prod_unfold split: option.splits sum.splits)

lemma linked_both:
  assumes "linked {} sm"
  shows "linked {} (snd (bindE (\<lambda>sm. if p then subscribe l hw cb on False sm else (Inr (), sm))
     (\<lambda>_ sm. if q then subscribe l hw cb cont True sm else (Inr (), sm)) sm))"
  by (rule bindE_snd_invariant [where I = "linked {}"]) (use assms in \<open>auto intro: linked_subscribe\<close>)

lemma linked_halSubscribe:
  assumes "linked {} (mSubscriptionManager hal)" "halSubscribe plat alive cb0 options hal = Some (status, hal')"
  shows "linked {} (mSubscriptionManager hal')"
proof (cases cb0)
  case (Some cb)
  then obtain hal0 where l: "loadConfigs plat hal = Some hal0"
    using assms(2) by (auto simp: halSubscribe_def getConfigsByPropId_def split: option.splits)
  have "linked {} (mSubscriptionManager hal0)" using loadConfigs_frame [OF l] assms(1) by simp
  note linked_both [OF this]
  then show ?thesis
    using assms(2) l \<open>linked {} (mSubscriptionManager hal0)\<close> unfolding halSubscribe_def getConfigsByPropId_def Some
    by (auto simp: Let_def case_prod_unfold split: sum.splits option.splits if_splits)
qed (use assms in \<open>simp add: halSubscribe_def\<close>)

lemma linked_event:
  "propertyChangeCallback plat values hal = Some (calls, hal') \<Longrightarrow> linked {} (mSubscriptionManager hal) \<Longrightarrow>
     linked {} (mSubscriptionManager hal')"
  by (auto simp: propertyChangeCallback_def batchPropertyChangeEvent_def onPropertyChangeEvent_def
      intro: linked_deliver split: if_splits option.splits)

lemma linked_register:
  "linked {} (mSubscriptionManager hal) \<Longrightarrow>
     linked {} (mSubscriptionManager (snd (halRegisterSupportedValueChangeCallback plat alive cb ks hal)))"
  by (auto simp: halRegisterSupportedValueChangeCallback_def Let_def case_prod_unfold
      intro: linked_subscribeSupported split: option.split sum.split)

lemma linked_rest:
  assumes "linked {} (mSubscriptionManager hal)"
  shows "linked {} (mSubscriptionManager (snd (halUnsubscribe plat cb0 ps hal)))"
    and "linked {} (mSubscriptionManager (snd (halUnregisterSupportedValueChangeCallback plat cb ks hal)))"
    and "linked {} (mSubscriptionManager (snd (onGetResults plat client gresults hal)))"
    and "linked {} (mSubscriptionManager (snd (onSetResults plat client sresults hal)))"
    and "linked {} (mSubscriptionManager (handleBinderEvent plat event hal))"
  using assms
  by (auto simp: halUnsubscribe_def halUnregisterSupportedValueChangeCallback_def onGetResults_def onSetResults_def
      handleBinderEvent_def onBinderDiedWithContext_def onBinderUnlinkedWithContext_def case_prod_unfold
      intro: linked_unsubscribe linked_unsubscribeSupported linked_unsubscribeAll split: option.split)

lemma hal_reachable_linked: "hal_reachable plat dead failed todo hal \<Longrightarrow> linked {} (mSubscriptionManager hal)"
proof (induction rule: hal_reachable.induct)
  case (hal_set dead failed todo hal now cb sreqs status calls hal')
  then show ?case using linked_set [of hal plat] by fastforce
next
  case (hal_subscribe dead failed todo hal cb options status hal')
  then show ?case using linked_halSubscribe by blast
next
  case (hal_event dead failed todo hal vs calls hal')
  then show ?case using linked_event by blast
qed (simp_all add: newDefaultVehicleHal_def linked_get linked_register linked_rest onBinderDied_def onBinderUnlinked_def)

text \<open>What the death of a binder does not touch: requests that are pending, and the last events sent.\<close>

lemma death_leaves_pending:
  "mPendingRequestPool (handleBinderEvent plat event hal) = mPendingRequestPool hal"
  by (simp add: handleBinderEvent_def onBinderDiedWithContext_def onBinderUnlinkedWithContext_def)

text \<open>
  Claim C15 (dead_client_forgotten). In every state the service can reach, once the events of the binders
  have been handled, a client whose binder died, and whose unsubscription the hardware did not refuse, is in
  none of the maps through which the service reaches its clients: it is no get client and no set
  client, has no subscription by client or by property, no part in a combined configuration and no
  registration for supported values. (Its requests that are still pending stay in the pool until they
  time out, and the values last sent to its callback are never erased.)
\<close>

theorem dead_client_forgotten:
  assumes "hal_reachable plat dead failed [] hal" "mQueue (mBinderEvents hal) = []" "c \<in> dead" "c \<notin> failed"
  shows "c \<notin> knownClients hal"
proof -
  have "c \<notin> recordedClients hal" using hal_reachable_inv [OF assms(1)] assms(2-) unfolding hal_inv_def by auto
  then show ?thesis
    using managed_subscribers [OF hal_reachable_linked [OF assms(1)]]
    by (simp add: knownClients_def recordedClients_def)
qed

text \<open>The client reads a value, its binder dies, and the handler takes both events.\<close>

definition vendor_dead :: "VehiclePropConfig list DefaultVehicleHal" where
  "vendor_dead = (let hal = snd (snd (getValues listPlatform (\<lambda>c. c \<notin> {}) 0 (Some vendor_client)
      (Inr [vendor_request 1 0x21600001]) vendor_hal)) in onBinderUnlinked 7 (onBinderDied 7 hal))"

theorem dead_client_forgotten_witness:
  "7 \<notin> knownClients (onBinderDiedUnlinkedHandler listPlatform vendor_dead)"
proof -
  let ?hal = "snd (snd (getValues listPlatform (\<lambda>c. c \<notin> {}) 0 (Some vendor_client)
      (Inr [vendor_request 1 0x21600001]) vendor_hal))"
  let ?es = "[BinderEvent True 7, BinderEvent False 7]"
  let ?q = "(mBinderEvents vendor_dead)\<lparr>mQueue := []\<rparr>"
  have c: "7 \<in> set (mOnBinderDiedContexts ?hal)" and q: "mQueue (mBinderEvents vendor_dead) = ?es"
    by (simp_all, code_simp+)
  have r0: "hal_reachable listPlatform {} {} [] ?hal"
    unfolding vendor_hal_def by (rule hal_get [OF hal_new])
  have r1: "hal_reachable listPlatform {7} {} [] vendor_dead"
    using hal_die [OF r0, of 7] c by (simp add: vendor_dead_def)
  have r2: "hal_reachable listPlatform {7} {} ?es (vendor_dead\<lparr>mBinderEvents := ?q\<rparr>)"
    by (rule hal_flush [OF r1]) (simp add: flush_def q)
  let ?h0 = "vendor_dead\<lparr>mBinderEvents := ?q\<rparr>"
  let ?h1 = "handleBinderEvent listPlatform (BinderEvent True 7) ?h0"
  let ?h2 = "handleBinderEvent listPlatform (BinderEvent False 7) ?h1"
  have "fst (unsubscribeAll (hardware listPlatform) 7 (mSubscriptionManager ?h0)) = Inr ()" by code_simp
  then have rf: "refused listPlatform (BinderEvent True 7) ?h0 = {}" "refused listPlatform (BinderEvent False 7) ?h1 = {}"
    by (simp_all add: refused_def)
  have r4: "hal_reachable listPlatform {7} {} [] ?h2"
    using hal_handle [OF hal_handle [OF r2]] by (simp add: rf)
  have "mBinderEvents ?h2 = ?q"
    by (simp add: handleBinderEvent_def onBinderDiedWithContext_def onBinderUnlinkedWithContext_def)
  then have "7 \<notin> knownClients ?h2" by (intro dead_client_forgotten [OF r4]) simp_all
  then show ?thesis by (simp add: onBinderDiedUnlinkedHandler_def flush_def q)
qed

end
