(* ===== verification/Value_Pool.thy ===== *)
theory Value_Pool
  imports Vehicle_Utils
begin

text \<open>
  \<^verbatim>\<open>utils/common/VehicleObjectPool\<close>: the pool that recycles \<^verbatim>\<open>VehiclePropValue\<close> objects. There is one internal
  pool per property type and vector size; strings, mixed values and long vectors are not recycled.

  An object is its value. The deleter an obtained pointer carries is an \<open>Origin\<close>: a disposable object is
  freed, a recyclable one goes back to the internal pool it came from. The counter
  \<^verbatim>\<open>mPoolObjectsSize\<close> has no initializer: \<open>garbage\<close> is what its memory holds when an internal pool is
  created. Sizes are \<^verbatim>\<open>size_t\<close>; each pool operation holds the lock and is atomic.
\<close>

section \<open>The pool\<close>

primrec typeInt :: "VehiclePropertyType \<Rightarrow> int32" where
  "typeInt T_STRING = 0x00100000" | "typeInt T_BOOLEAN = 0x00200000" | "typeInt T_INT32 = 0x00400000"
| "typeInt T_INT32_VEC = 0x00410000" | "typeInt T_INT64 = 0x00500000" | "typeInt T_INT64_VEC = 0x00510000"
| "typeInt T_FLOAT = 0x00600000" | "typeInt T_FLOAT_VEC = 0x00610000" | "typeInt T_BYTES = 0x00700000"
| "typeInt T_MIXED = 0x00e00000" | "typeInt (T_UNKNOWN t) = t"
record InternalPool =
  mPropType :: VehiclePropertyType
  mVectorSize :: nat
  mObjects :: "VehiclePropValue list"
  mPoolObjectsSize :: int

record VehiclePropValuePool =
  mMaxRecyclableVectorSize :: nat
  mMaxPoolObjectsSize :: nat
  mValueTypePools :: "(int32, InternalPool) umap"

datatype Origin = Disposable | Recyclable int32

definition newValuePool :: "nat \<Rightarrow> nat \<Rightarrow> VehiclePropValuePool" where
  "newValuePool maxVectorSize maxObjectsSize = \<lparr>mMaxRecyclableVectorSize = maxVectorSize,
     mMaxPoolObjectsSize = maxObjectsSize, mValueTypePools = []\<rparr>"

definition isSingleValueType :: "VehiclePropertyType \<Rightarrow> bool" where
  "isSingleValueType ty \<longleftrightarrow> ty = T_BOOLEAN \<or> ty = T_INT32 \<or> ty = T_INT64 \<or> ty = T_FLOAT"

definition isComplexType :: "VehiclePropertyType \<Rightarrow> bool" where
  "isComplexType ty \<longleftrightarrow> ty = T_MIXED \<or> ty = T_STRING"

definition isDisposable :: "VehiclePropertyType \<Rightarrow> nat \<Rightarrow> VehiclePropValuePool \<Rightarrow> bool" where
  "isDisposable ty vectorSize pool \<longleftrightarrow>
     vectorSize = 0 \<or> vectorSize > mMaxRecyclableVectorSize pool \<or> isComplexType ty"

text \<open>\<open>ObjectPool::obtain\<close> and \<open>ObjectPool::recycle\<close>.\<close>

definition poolObtain :: "InternalPool \<Rightarrow> VehiclePropValue \<times> InternalPool" where
  "poolObtain p = (case mObjects p of
     [] \<Rightarrow> (createVehiclePropValueVec (mPropType p) (mVectorSize p), p)
   | v # vs \<Rightarrow> (v, p\<lparr>mObjects := vs,
       mPoolObjectsSize := (mPoolObjectsSize p - int (getVehiclePropValueSize v)) mod 2 ^ 64\<rparr>))"

definition poolRecycle :: "nat \<Rightarrow> VehiclePropValue \<Rightarrow> InternalPool \<Rightarrow> InternalPool" where
  "poolRecycle maxObjectsSize v p =
    (let objectSize = getVehiclePropValueSize v in
     if objectSize > maxObjectsSize \<or> mPoolObjectsSize p > int (maxObjectsSize - objectSize) then p
     else p\<lparr>mObjects := mObjects p @ [v],
            mPoolObjectsSize := (mPoolObjectsSize p + int objectSize) mod 2 ^ 64\<rparr>)"

text \<open>\<open>InternalPool::check\<close> and \<open>InternalPool::recycle\<close>: an object of another shape is deleted.\<close>

definition poolCheck :: "InternalPool \<Rightarrow> RawPropValues \<Rightarrow> bool" where
  "poolCheck p val = (let ty = mPropType p; size = (\<lambda>b. if b then mVectorSize p else 0) in
     length (int32Values val) = size (ty = T_INT32 \<or> ty = T_INT32_VEC \<or> ty = T_BOOLEAN) \<and>
     length (floatValues val) = size (ty = T_FLOAT \<or> ty = T_FLOAT_VEC) \<and>
     length (int64Values val) = size (ty = T_INT64 \<or> ty = T_INT64_VEC) \<and>
     length (byteValues val) = size (ty = T_BYTES) \<and> length (stringValue val) = 0)"

definition internalRecycle :: "nat \<Rightarrow> VehiclePropValue \<Rightarrow> InternalPool \<Rightarrow> InternalPool" where
  "internalRecycle maxObjectsSize v p =
     (if \<not> poolCheck p (pv_value v) then p else poolRecycle maxObjectsSize v p)"

definition obtainRecyclable ::
  "int \<Rightarrow> VehiclePropertyType \<Rightarrow> nat \<Rightarrow> VehiclePropValuePool \<Rightarrow> (VehiclePropValue \<times> Origin) \<times> VehiclePropValuePool" where
  "obtainRecyclable garbage ty vectorSize pool =
    (let key = typeInt ty OR word_of_nat vectorSize;
         p = umap_at \<lparr>mPropType = ty, mVectorSize = vectorSize, mObjects = [], mPoolObjectsSize = garbage\<rparr>
               key (mValueTypePools pool);
         (v, p') = poolObtain p in
     ((v, Recyclable key), pool\<lparr>mValueTypePools := umap_put key p' (mValueTypePools pool)\<rparr>))"

definition obtainVec ::
  "int \<Rightarrow> VehiclePropertyType \<Rightarrow> nat \<Rightarrow> VehiclePropValuePool \<Rightarrow> (VehiclePropValue \<times> Origin) \<times> VehiclePropValuePool" where
  "obtainVec garbage ty vectorSize0 pool =
    (let vectorSize = (if isSingleValueType ty then 1 else if isComplexType ty then 0 else vectorSize0) in
     if isDisposable ty vectorSize pool then ((createVehiclePropValueVec ty vectorSize, Disposable), pool)
     else obtainRecyclable garbage ty vectorSize pool)"

definition obtainType ::
  "int \<Rightarrow> VehiclePropertyType \<Rightarrow> VehiclePropValuePool \<Rightarrow> (VehiclePropValue \<times> Origin) \<times> VehiclePropValuePool" where
  "obtainType garbage ty pool = (if isComplexType ty then obtainVec garbage ty 0 pool else obtainVec garbage ty 1 pool)"

definition obtainCopy ::
  "int \<Rightarrow> VehiclePropValue \<Rightarrow> VehiclePropValuePool \<Rightarrow> (VehiclePropValue \<times> Origin) \<times> VehiclePropValuePool" where
  "obtainCopy garbage src pool =
    (let ty = getPropType (pv_prop src);
         ((dest, origin), pool') = obtainVec garbage ty (getVehicleRawValueVectorSize (pv_value src) ty) pool in
     ((dest\<lparr>pv_prop := pv_prop src, pv_areaId := pv_areaId src, pv_status := pv_status src,
            pv_timestamp := pv_timestamp src, pv_value := copyVehicleRawValue (pv_value dest) (pv_value src)\<rparr>,
       origin), pool'))"

definition obtainInt32 ::
  "int \<Rightarrow> int \<Rightarrow> VehiclePropValuePool \<Rightarrow> (VehiclePropValue \<times> Origin) \<times> VehiclePropValuePool" where
  "obtainInt32 garbage i pool =
    (let ((v, origin), pool') = obtainType garbage T_INT32 pool in
     ((v\<lparr>pv_value := (pv_value v)\<lparr>int32Values := (int32Values (pv_value v))[0 := i]\<rparr>\<rparr>, origin), pool'))"

definition obtainBoolean ::
  "int \<Rightarrow> bool \<Rightarrow> VehiclePropValuePool \<Rightarrow> (VehiclePropValue \<times> Origin) \<times> VehiclePropValuePool" where
  "obtainBoolean garbage b pool = obtainInt32 garbage (if b then 1 else 0) pool"

definition obtainInt64 ::
  "int \<Rightarrow> int \<Rightarrow> VehiclePropValuePool \<Rightarrow> (VehiclePropValue \<times> Origin) \<times> VehiclePropValuePool" where
  "obtainInt64 garbage i pool =
    (let ((v, origin), pool') = obtainType garbage T_INT64 pool in
     ((v\<lparr>pv_value := (pv_value v)\<lparr>int64Values := (int64Values (pv_value v))[0 := i]\<rparr>\<rparr>, origin), pool'))"

definition obtainFloat ::
  "int \<Rightarrow> fp \<Rightarrow> VehiclePropValuePool \<Rightarrow> (VehiclePropValue \<times> Origin) \<times> VehiclePropValuePool" where
  "obtainFloat garbage x pool =
    (let ((v, origin), pool') = obtainType garbage T_FLOAT pool in
     ((v\<lparr>pv_value := (pv_value v)\<lparr>floatValues := (floatValues (pv_value v))[0 := x]\<rparr>\<rparr>, origin), pool'))"

definition obtainString ::
  "int \<Rightarrow> string \<Rightarrow> VehiclePropValuePool \<Rightarrow> (VehiclePropValue \<times> Origin) \<times> VehiclePropValuePool" where
  "obtainString garbage s pool =
    (let ((v, origin), pool') = obtainType garbage T_STRING pool in
     ((v\<lparr>pv_value := (pv_value v)\<lparr>stringValue := s\<rparr>\<rparr>, origin), pool'))"

definition obtainComplex ::
  "int \<Rightarrow> VehiclePropValuePool \<Rightarrow> (VehiclePropValue \<times> Origin) \<times> VehiclePropValuePool" where
  "obtainComplex garbage pool = obtainType garbage T_MIXED pool"

text \<open>What the deleter of an obtained pointer does when the pointer goes out of scope.\<close>

definition recycle :: "VehiclePropValue \<Rightarrow> Origin \<Rightarrow> VehiclePropValuePool \<Rightarrow> VehiclePropValuePool" where
  "recycle v origin pool = (case origin of
     Disposable \<Rightarrow> pool
   | Recyclable key \<Rightarrow> (case map_of (mValueTypePools pool) key of
       None \<Rightarrow> pool
     | Some p \<Rightarrow> pool\<lparr>mValueTypePools :=
         umap_put key (internalRecycle (mMaxPoolObjectsSize pool) v p) (mValueTypePools pool)\<rparr>))"


section \<open>Invariant\<close>

text \<open>The types the code obtains values for are those of a property identifier.\<close>

definition prop_type :: "VehiclePropertyType \<Rightarrow> bool" where
  "prop_type ty \<longleftrightarrow> ty = getPropType (typeInt ty)"

lemma typeInt_getPropType: "typeInt (getPropType p) = p AND TYPE_MASK"
  by (simp add: getPropType_def Let_def)

lemma prop_type_getPropType [simp]: "prop_type (getPropType p)"
  by (simp add: prop_type_def typeInt_getPropType) (simp add: getPropType_def and.assoc)

lemma prop_type_simps [simp]:
  "prop_type T_INT32" "prop_type T_INT64" "prop_type T_FLOAT" "prop_type T_STRING" "prop_type T_MIXED"
  by (simp_all add: prop_type_def getPropType_def TYPE_MASK_def)

lemma prop_type_mask: "prop_type ty \<Longrightarrow> typeInt ty AND TYPE_MASK = typeInt ty"
  unfolding prop_type_def by (metis typeInt_getPropType)

definition poolKey :: "VehiclePropertyType \<Rightarrow> nat \<Rightarrow> int32" where
  "poolKey ty n = typeInt ty OR word_of_nat n"

lemma small_word:
  assumes "n < 2 ^ 16"
  shows "(word_of_nat n :: int32) AND TYPE_MASK = 0" "(word_of_nat n :: int32) AND 0xffff = word_of_nat n"
    "unat (word_of_nat n :: int32) = n"
proof -
  have t: "take_bit 16 (word_of_nat n :: int32) = word_of_nat n"
    using assms by (simp add: take_bit_of_nat take_bit_nat_eq_self)
  have m: "mask 16 = (0xffff :: int32)" by (simp add: mask_numeral)
  have w: "word_of_nat n = (word_of_nat n :: int32) AND 0xffff"
    using t by (metis take_bit_eq_mask m)
  show "(word_of_nat n :: int32) AND 0xffff = word_of_nat n" using w by simp
  have "(word_of_nat n :: int32) AND TYPE_MASK = word_of_nat n AND (0xffff AND TYPE_MASK)"
    by (subst w) (rule and.assoc)
  then show "(word_of_nat n :: int32) AND TYPE_MASK = 0" by (simp add: TYPE_MASK_def)
  show "unat (word_of_nat n :: int32) = n"
    using assms by (simp add: unat_of_nat take_bit_nat_eq_self)
qed

text \<open>A key determines the type and the size.\<close>

lemma poolKey_inject:
  assumes "prop_type ty" "prop_type ty'" "n < 2 ^ 16" "n' < 2 ^ 16" "poolKey ty n = poolKey ty' n'"
  shows "ty = ty' \<and> n = n'"
proof -
  have ty: "poolKey ty n AND TYPE_MASK = typeInt ty" if "prop_type ty" "n < 2 ^ 16" for ty n
    using that by (simp add: poolKey_def bit.conj_disj_distrib2 small_word prop_type_mask)
  have low: "poolKey ty n AND 0xffff = word_of_nat n" if "prop_type ty" "n < 2 ^ 16" for ty n
  proof -
    have "typeInt ty AND 0xffff = (typeInt ty AND TYPE_MASK) AND 0xffff"
      by (simp add: prop_type_mask [OF that(1)])
    also have "\<dots> = typeInt ty AND (TYPE_MASK AND 0xffff)" by (rule and.assoc)
    also have "\<dots> = 0" by (simp add: TYPE_MASK_def)
    finally have "typeInt ty AND 0xffff = 0" .
    then show ?thesis using that(2) by (simp add: poolKey_def bit.conj_disj_distrib2 small_word)
  qed
  have "typeInt ty = typeInt ty'" using ty assms by metis
  moreover have "word_of_nat n = (word_of_nat n' :: int32)" using low assms by metis
  ultimately show ?thesis
    using assms(1,2) small_word(3) [OF assms(3)] small_word(3) [OF assms(4)] unfolding prop_type_def by metis
qed

definition pool_wf :: "VehiclePropValuePool \<Rightarrow> bool" where
  "pool_wf pool \<longleftrightarrow> mMaxRecyclableVectorSize pool < 2 ^ 16 \<and>
     (\<forall>key p. map_of (mValueTypePools pool) key = Some p \<longrightarrow> prop_type (mPropType p) \<and>
        key = poolKey (mPropType p) (mVectorSize p) \<and> \<not> isComplexType (mPropType p) \<and>
        (isSingleValueType (mPropType p) \<longrightarrow> mVectorSize p = 1) \<and> mVectorSize p < 2 ^ 16 \<and>
        (\<forall>v \<in> set (mObjects p). poolCheck p (pv_value v)))"

lemma poolCheck_cong [simp]:
  "poolCheck (p\<lparr>mObjects := vs\<rparr>) = poolCheck p" "poolCheck (p\<lparr>mPoolObjectsSize := i\<rparr>) = poolCheck p"
  "poolCheck (p\<lparr>mObjects := vs, mPoolObjectsSize := i\<rparr>) = poolCheck p"
  by (simp_all add: poolCheck_def fun_eq_iff Let_def)

lemma pool_wf_new: "n < 2 ^ 16 \<Longrightarrow> pool_wf (newValuePool n m)"
  by (simp add: pool_wf_def newValuePool_def)

lemma pool_wf_put:
  assumes "pool_wf pool" "prop_type (mPropType p)" "key = poolKey (mPropType p) (mVectorSize p)"
    "\<not> isComplexType (mPropType p)" "isSingleValueType (mPropType p) \<longrightarrow> mVectorSize p = 1" "mVectorSize p < 2 ^ 16"
    "\<And>v. v \<in> set (mObjects p) \<Longrightarrow> poolCheck p (pv_value v)"
  shows "pool_wf (pool\<lparr>mValueTypePools := umap_put key p (mValueTypePools pool)\<rparr>)"
  using assms by (auto simp: pool_wf_def split: if_splits)

text \<open>The internal pool an obtain uses.\<close>

lemma pool_at:
  fixes pool ty n garbage v
  assumes "pool_wf pool" "prop_type ty" "\<not> isDisposable ty n pool" "isSingleValueType ty \<longrightarrow> n = 1"
  defines "p \<equiv> umap_at \<lparr>mPropType = ty, mVectorSize = n, mObjects = [], mPoolObjectsSize = garbage\<rparr>
      (poolKey ty n) (mValueTypePools pool)"
  shows "mPropType p = ty" "mVectorSize p = n" "v \<in> set (mObjects p) \<Longrightarrow> poolCheck p (pv_value v)"
    and "\<not> isComplexType ty" "n < 2 ^ 16"
proof -
  show c: "\<not> isComplexType ty" "n < 2 ^ 16"
    using assms(1,3) by (auto simp: isDisposable_def pool_wf_def)
  have "(mPropType p = ty \<and> mVectorSize p = n) \<and> (v \<in> set (mObjects p) \<longrightarrow> poolCheck p (pv_value v))"
  proof (cases "map_of (mValueTypePools pool) (poolKey ty n)")
    case None
    then show ?thesis by (simp add: p_def umap_at_def)
  next
    case (Some q)
    then have "p = q" by (simp add: p_def umap_at_def)
    then show ?thesis
      using assms(1,2) Some poolKey_inject [of "mPropType q" ty "mVectorSize q" n] c(2)
      unfolding pool_wf_def by metis
  qed
  then show "mPropType p = ty" "mVectorSize p = n" "v \<in> set (mObjects p) \<Longrightarrow> poolCheck p (pv_value v)" by blast+
qed

text \<open>The lengths of the vectors of a value, and whether its string is empty.\<close>

definition shape :: "RawPropValues \<Rightarrow> nat list" where
  "shape val = [length (int32Values val), length (floatValues val), length (int64Values val),
     length (byteValues val), length (stringValue val)]"

lemma length_resize [simp]: "length (resize n x xs) = n"
  by (simp add: resize_def)

lemma shape_new: "isSingleValueType ty \<longrightarrow> n = 1 \<Longrightarrow>
  poolCheck \<lparr>mPropType = ty, mVectorSize = n, mObjects = vs, mPoolObjectsSize = i\<rparr> val \<longleftrightarrow>
     \<not> isComplexType ty \<and> shape val = shape (pv_value (createVehiclePropValueVec ty n)) \<or>
     isComplexType ty \<and> shape val = [0, 0, 0, 0, 0]"
  by (cases ty) (auto simp: poolCheck_def shape_def Let_def createVehiclePropValueVec_def raw_default_def
      isSingleValueType_def isComplexType_def)


lemma poolCheck_fields:
  "mPropType p = ty \<Longrightarrow> mVectorSize p = n \<Longrightarrow>
     poolCheck p = poolCheck \<lparr>mPropType = ty, mVectorSize = n, mObjects = [], mPoolObjectsSize = 0\<rparr>"
  by (simp add: poolCheck_def fun_eq_iff Let_def)

lemma poolObtain_simps:
  "mPropType (snd (poolObtain p)) = mPropType p" "mVectorSize (snd (poolObtain p)) = mVectorSize p"
  "set (mObjects (snd (poolObtain p))) \<subseteq> set (mObjects p)"
  "fst (poolObtain p) \<in> set (mObjects p) \<or> fst (poolObtain p) = createVehiclePropValueVec (mPropType p) (mVectorSize p)"
  by (auto simp: poolObtain_def split: list.split)

lemma obtainRecyclable_ok:
  assumes "pool_wf pool" "prop_type ty" "\<not> isDisposable ty n pool" "isSingleValueType ty \<longrightarrow> n = 1"
  shows "pool_wf (snd (obtainRecyclable garbage ty n pool))"
    and "shape (pv_value (fst (fst (obtainRecyclable garbage ty n pool)))) = shape (pv_value (createVehiclePropValueVec ty n))"
proof -
  define p where "p = umap_at \<lparr>mPropType = ty, mVectorSize = n, mObjects = [], mPoolObjectsSize = garbage\<rparr>
      (poolKey ty n) (mValueTypePools pool)"
  note at = pool_at(1-3) [OF assms, where garbage = garbage, folded p_def] pool_at(4,5) [OF assms]
  have r: "obtainRecyclable garbage ty n pool = ((fst (poolObtain p), Recyclable (poolKey ty n)),
      pool\<lparr>mValueTypePools := umap_put (poolKey ty n) (snd (poolObtain p)) (mValueTypePools pool)\<rparr>)"
    by (simp add: obtainRecyclable_def Let_def poolKey_def [symmetric] p_def [symmetric] case_prod_unfold)
  have chk: "poolCheck (snd (poolObtain p)) = poolCheck p"
    using poolCheck_fields [of "snd (poolObtain p)" ty n] poolCheck_fields [of p ty n] by (simp add: poolObtain_simps at)
  show "pool_wf (snd (obtainRecyclable garbage ty n pool))"
    unfolding r snd_conv
    by (rule pool_wf_put) (use assms at chk subsetD [OF poolObtain_simps(3) [of p]] in \<open>auto simp: poolObtain_simps\<close>)
  have "poolCheck p (pv_value v) \<Longrightarrow> shape (pv_value v) = shape (pv_value (createVehiclePropValueVec ty n))" for v
    using shape_new [OF assms(4), of "[]" 0 "pv_value v"] at(4) poolCheck_fields [of p ty n] at(1,2) by simp
  then show "shape (pv_value (fst (fst (obtainRecyclable garbage ty n pool)))) = shape (pv_value (createVehiclePropValueVec ty n))"
    using poolObtain_simps(4) [of p] at(1-3) by (auto simp: r)
qed

lemma create_size:
  "createVehiclePropValueVec ty (if isSingleValueType ty then 1 else if isComplexType ty then 0 else n) =
     createVehiclePropValueVec ty n"
  by (cases ty) (auto simp: createVehiclePropValueVec_def isSingleValueType_def isComplexType_def)

lemma obtainVec_ok:
  assumes "pool_wf pool" "prop_type ty"
  shows "pool_wf (snd (obtainVec garbage ty n pool))"
    and "shape (pv_value (fst (fst (obtainVec garbage ty n pool)))) = shape (pv_value (createVehiclePropValueVec ty n))"
proof -
  define m where "m = (if isSingleValueType ty then 1 else if isComplexType ty then 0 else n)"
  have o: "obtainVec garbage ty n pool = (if isDisposable ty m pool then ((createVehiclePropValueVec ty m, Disposable), pool)
      else obtainRecyclable garbage ty m pool)"
    by (simp add: obtainVec_def m_def)
  have m: "isSingleValueType ty \<longrightarrow> m = 1" by (simp add: m_def)
  show "pool_wf (snd (obtainVec garbage ty n pool))"
    using obtainRecyclable_ok(1) [OF assms _ m] assms(1) by (simp add: o)
  show "shape (pv_value (fst (fst (obtainVec garbage ty n pool)))) = shape (pv_value (createVehiclePropValueVec ty n))"
    using obtainRecyclable_ok(2) [OF assms _ m] create_size [of ty n] by (simp add: o m_def)
qed

lemma internalRecycle_simps:
  "mPropType (internalRecycle m v p) = mPropType p" "mVectorSize (internalRecycle m v p) = mVectorSize p"
  "set (mObjects (internalRecycle m v p)) \<subseteq> set (mObjects p) \<union> {w. w = v \<and> poolCheck p (pv_value v)}"
  by (auto simp: internalRecycle_def poolRecycle_def Let_def)

lemma recycle_ok:
  assumes "pool_wf pool" shows "pool_wf (recycle v origin pool)"
proof (cases origin)
  case (Recyclable key)
  show ?thesis
  proof (cases "map_of (mValueTypePools pool) key")
    case (Some p)
    note p = assms [unfolded pool_wf_def, THEN conjunct2, rule_format, OF Some]
    have "poolCheck (internalRecycle m v p) = poolCheck p" for m
      using poolCheck_fields [of p "mPropType p" "mVectorSize p"]
        poolCheck_fields [of "internalRecycle m v p" "mPropType p" "mVectorSize p"]
      by (simp add: internalRecycle_simps)
    then have "pool_wf (pool\<lparr>mValueTypePools :=
        umap_put key (internalRecycle (mMaxPoolObjectsSize pool) v p) (mValueTypePools pool)\<rparr>)"
      using p subsetD [OF internalRecycle_simps(3) [of "mMaxPoolObjectsSize pool" v p]]
      by (intro pool_wf_put [OF assms]) (auto simp: internalRecycle_simps)
    then show ?thesis by (simp add: recycle_def Recyclable Some)
  qed (use assms in \<open>simp add: recycle_def Recyclable\<close>)
qed (use assms in \<open>simp add: recycle_def\<close>)

section \<open>Properties\<close>

text \<open>
  The pools reached by obtaining values and giving them back, with any contents and to any origin. A copy
  and the typed obtains change the pool as \<open>obtainVec\<close> does. \<open>G\<close> is what uninitialized counters may hold.
\<close>

inductive pool_reachable :: "int set \<Rightarrow> nat \<Rightarrow> nat \<Rightarrow> VehiclePropValuePool \<Rightarrow> bool" for G maxVector maxObjects where
  pool_new: "pool_reachable G maxVector maxObjects (newValuePool maxVector maxObjects)"
| pool_obtain: "pool_reachable G maxVector maxObjects pool \<Longrightarrow> garbage \<in> G \<Longrightarrow> prop_type ty \<Longrightarrow>
    pool_reachable G maxVector maxObjects (snd (obtainVec garbage ty n pool))"
| pool_copy: "pool_reachable G maxVector maxObjects pool \<Longrightarrow> garbage \<in> G \<Longrightarrow>
    pool_reachable G maxVector maxObjects (snd (obtainCopy garbage src pool))"
| pool_recycle: "pool_reachable G maxVector maxObjects pool \<Longrightarrow>
    pool_reachable G maxVector maxObjects (recycle v origin pool)"

lemma snd_obtainCopy: "snd (obtainCopy garbage src pool) =
   snd (obtainVec garbage (getPropType (pv_prop src)) (getVehicleRawValueVectorSize (pv_value src) (getPropType (pv_prop src))) pool)"
  by (simp add: obtainCopy_def Let_def case_prod_unfold)

lemma pool_reachable_wf: "pool_reachable G m k pool \<Longrightarrow> m < 2 ^ 16 \<Longrightarrow> pool_wf pool"
  by (induction rule: pool_reachable.induct) (simp_all add: pool_wf_new obtainVec_ok recycle_ok snd_obtainCopy)

lemma fst_obtainInt32: "fst (fst (obtainInt32 garbage i pool)) =
  (let v = fst (fst (obtainVec garbage T_INT32 1 pool)) in
   v\<lparr>pv_value := (pv_value v)\<lparr>int32Values := (int32Values (pv_value v))[0 := i]\<rparr>\<rparr>)"
  by (simp add: obtainInt32_def obtainType_def isComplexType_def case_prod_unfold Let_def)

lemma shape_eq_int32: "shape val = shape (pv_value (createVehiclePropValueVec T_INT32 n)) \<Longrightarrow>
   val\<lparr>int32Values := (int32Values val)[0 := i]\<rparr> = raw_default\<lparr>int32Values := [i]\<rparr>"
  by (cases val; cases "int32Values val")
    (auto simp: shape_def createVehiclePropValueVec_def raw_default_def)

text \<open>
  From every reachable pool, whatever was written into recycled objects and whatever the
  uninitialized size counter held: an obtained value has the vectors its type and size ask for, a copy equals its
  source, and an obtained integer holds exactly that integer, so no index into its vectors is out of range.
\<close>

theorem pool_values:
  assumes "pool_reachable G maxVector maxObjects pool" "maxVector < 2 ^ 16" "prop_type ty"
  shows "shape (pv_value (fst (fst (obtainVec garbage ty n pool)))) = shape (pv_value (createVehiclePropValueVec ty n)) \<and>
    fst (fst (obtainCopy garbage src pool)) = src \<and>
    pv_value (fst (fst (obtainInt32 garbage i pool))) = raw_default\<lparr>int32Values := [i]\<rparr>"
proof -
  note wf = pool_reachable_wf [OF assms(1,2)]
  have "pv_value (fst (fst (obtainInt32 garbage i pool))) = raw_default\<lparr>int32Values := [i]\<rparr>"
    using obtainVec_ok(2) [OF wf, of T_INT32 garbage 1] shape_eq_int32 by (simp add: fst_obtainInt32 Let_def)
  moreover have "fst (fst (obtainCopy garbage src pool)) = src"
    by (simp add: obtainCopy_def Let_def case_prod_unfold copyVehicleRawValue_def)
  ultimately show ?thesis using obtainVec_ok(2) [OF wf assms(3)] by blast
qed


definition objects_size :: "InternalPool \<Rightarrow> nat" where
  "objects_size p = sum_list (map getVehiclePropValueSize (mObjects p))"

definition sizes_ok :: "int \<Rightarrow> VehiclePropValuePool \<Rightarrow> bool" where
  "sizes_ok g pool \<longleftrightarrow> (\<forall>key p. map_of (mValueTypePools pool) key = Some p \<longrightarrow>
     mPoolObjectsSize p = (g + int (objects_size p)) mod 2 ^ 64 \<and>
     (g = 0 \<longrightarrow> objects_size p \<le> mMaxPoolObjectsSize pool) \<and>
     (int (mMaxPoolObjectsSize pool) < g \<longrightarrow> mObjects p = []))"

lemma sizes_ok_obtain:
  assumes "sizes_ok g pool" "0 \<le> g" "g < 2 ^ 64"
  shows "sizes_ok g (snd (obtainVec g ty n pool))"
proof -
  have one: "mPoolObjectsSize (snd (poolObtain p)) = (g + int (objects_size (snd (poolObtain p)))) mod 2 ^ 64 \<and>
      objects_size (snd (poolObtain p)) \<le> objects_size p \<and> (mObjects p = [] \<longrightarrow> mObjects (snd (poolObtain p)) = [])"
    if "mPoolObjectsSize p = (g + int (objects_size p)) mod 2 ^ 64" for p
    using that by (auto simp: poolObtain_def objects_size_def mod_diff_left_eq algebra_simps split: list.split)
  have new: "mPoolObjectsSize p = (g + int (objects_size p)) mod 2 ^ 64 \<and>
      (g = 0 \<longrightarrow> objects_size p \<le> mMaxPoolObjectsSize pool) \<and> (int (mMaxPoolObjectsSize pool) < g \<longrightarrow> mObjects p = [])"
    if "p = umap_at \<lparr>mPropType = ty, mVectorSize = n, mObjects = [], mPoolObjectsSize = g\<rparr> key (mValueTypePools pool)"
    for p n key
    using assms that by (auto simp: sizes_ok_def umap_at_def objects_size_def split: option.split)
  have "sizes_ok g (snd (obtainRecyclable g ty n pool))" for n
  proof -
    define key where "key = poolKey ty n"
    define q where "q = umap_at \<lparr>mPropType = ty, mVectorSize = n, mObjects = [], mPoolObjectsSize = g\<rparr> key (mValueTypePools pool)"
    have r: "snd (obtainRecyclable g ty n pool) = pool\<lparr>mValueTypePools := umap_put key (snd (poolObtain q)) (mValueTypePools pool)\<rparr>"
      by (simp add: obtainRecyclable_def Let_def poolKey_def [symmetric] key_def [symmetric] q_def [symmetric] case_prod_unfold)
    have "mPoolObjectsSize (snd (poolObtain q)) = (g + int (objects_size (snd (poolObtain q)))) mod 2 ^ 64 \<and>
        (g = 0 \<longrightarrow> objects_size (snd (poolObtain q)) \<le> mMaxPoolObjectsSize pool) \<and>
        (int (mMaxPoolObjectsSize pool) < g \<longrightarrow> mObjects (snd (poolObtain q)) = [])"
      using new [OF q_def] one [of q] by (metis le_trans)
    then show ?thesis using assms(1) unfolding r sizes_ok_def by simp
  qed
  then show ?thesis using assms(1) by (simp add: obtainVec_def Let_def)
qed

lemma sizes_ok_recycle:
  assumes "sizes_ok g pool" "0 \<le> g" "g < 2 ^ 64" "mMaxPoolObjectsSize pool < 2 ^ 64"
  shows "sizes_ok g (recycle v origin pool)"
proof -
  define m where "m = mMaxPoolObjectsSize pool"
  have one: "mPoolObjectsSize p' = (g + int (objects_size p')) mod 2 ^ 64 \<and> (g = 0 \<longrightarrow> objects_size p' \<le> m) \<and>
      (int m < g \<longrightarrow> mObjects p' = [])"
    if "mPoolObjectsSize p = (g + int (objects_size p)) mod 2 ^ 64" "g = 0 \<longrightarrow> objects_size p \<le> m"
      "int m < g \<longrightarrow> mObjects p = []" "p' = internalRecycle m v p" for p p'
  proof (cases "poolCheck p (pv_value v) \<and> getVehiclePropValueSize v \<le> m \<and> mPoolObjectsSize p \<le> int (m - getVehiclePropValueSize v)")
    case False
    then have "p' = p" using that(4) by (auto simp: internalRecycle_def poolRecycle_def Let_def)
    then show ?thesis using that by simp
  next
    case True
    then have p': "p' = p\<lparr>mObjects := mObjects p @ [v], mPoolObjectsSize := (mPoolObjectsSize p + int (getVehiclePropValueSize v)) mod 2 ^ 64\<rparr>"
      using that(4) by (auto simp: internalRecycle_def poolRecycle_def Let_def)
    have size: "objects_size p' = objects_size p + getVehiclePropValueSize v" by (simp add: p' objects_size_def)
    have "mPoolObjectsSize p' = (g + int (objects_size p')) mod 2 ^ 64"
      using mod_add_left_eq [of "g + int (objects_size p)" "2 ^ 64" "int (getVehiclePropValueSize v)"]
      by (simp add: size that(1) add.assoc) (simp add: p' that(1))
    moreover have "objects_size p' \<le> m" if "g = 0"
    proof -
      have "mPoolObjectsSize p = int (objects_size p)"
        using \<open>g = 0\<close> that \<open>mPoolObjectsSize p = (g + int (objects_size p)) mod 2 ^ 64\<close> \<open>g = 0 \<longrightarrow> objects_size p \<le> m\<close> assms(4)
        by (simp add: m_def mod_pos_pos_trivial)
      then show ?thesis using True size by linarith
    qed
    moreover have "\<not> int m < g"
    proof
      assume "int m < g"
      then have "mPoolObjectsSize p = g" using that(1,3) assms(2,3) by (simp add: objects_size_def)
      then show False using True \<open>int m < g\<close> by linarith
    qed
    ultimately show ?thesis by blast
  qed
  show ?thesis
  proof (cases origin)
    case (Recyclable key)
    show ?thesis
    proof (cases "map_of (mValueTypePools pool) key")
      case (Some q)
      note q = assms(1) [unfolded sizes_ok_def, rule_format, OF Some, folded m_def]
      have r: "recycle v origin pool = pool\<lparr>mValueTypePools := umap_put key (internalRecycle m v q) (mValueTypePools pool)\<rparr>"
        by (simp add: recycle_def Recyclable Some m_def)
      show ?thesis
        using assms(1) one [of q "internalRecycle m v q"] q unfolding r sizes_ok_def m_def by simp
    qed (use assms(1) in \<open>simp add: recycle_def Recyclable\<close>)
  qed (use assms(1) in \<open>simp add: recycle_def\<close>)
qed

lemma maxObjects_ops:
  "mMaxPoolObjectsSize (snd (obtainVec g ty n pool)) = mMaxPoolObjectsSize pool"
  "mMaxPoolObjectsSize (recycle v origin pool) = mMaxPoolObjectsSize pool"
  by (auto simp: obtainVec_def obtainRecyclable_def recycle_def Let_def case_prod_unfold split: Origin.split option.split)

text \<open>
  If the counters happen to start at 0, no internal pool keeps more than the configured
  number of bytes. But the code never initializes them: when the memory holds a larger number than the limit,
  the pool keeps nothing and every value is allocated anew.
\<close>

theorem pool_size_limit:
  assumes "pool_reachable {g} maxVector maxObjects pool" "0 \<le> g" "g < 2 ^ 64" "maxObjects < 2 ^ 64"
    and "map_of (mValueTypePools pool) key = Some p"
  shows "(g = 0 \<longrightarrow> objects_size p \<le> maxObjects) \<and> (int maxObjects < g \<longrightarrow> mObjects p = [])"
proof -
  have "sizes_ok g pool \<and> mMaxPoolObjectsSize pool = maxObjects"
    using assms(1)
  proof (induction rule: pool_reachable.induct)
    case pool_new
    then show ?case by (simp add: sizes_ok_def newValuePool_def)
  qed (use assms(2-4) in \<open>simp_all add: snd_obtainCopy sizes_ok_obtain sizes_ok_recycle maxObjects_ops\<close>)
  then show ?thesis using assms(5) unfolding sizes_ok_def by blast
qed

section \<open>Witnesses\<close>

text \<open>A value is obtained, marked unavailable and given back; the next one obtained is the same object.\<close>

definition sample_value_pool :: VehiclePropValuePool where
  "sample_value_pool = recycle ((createVehiclePropValueVec T_INT32 1)\<lparr>pv_status := UNAVAILABLE, pv_areaId := 7\<rparr>)
     (Recyclable 0x00400001) (snd (obtainVec 0 T_INT32 1 (newValuePool 4 10240)))"

lemma sample_value_pool_reachable: "pool_reachable {0} 4 10240 sample_value_pool"
  unfolding sample_value_pool_def by (intro pool_recycle pool_obtain pool_new) simp_all

text \<open>An obtained integer keeps the status and the area of the object that was recycled.\<close>

lemma obtained_status_is_stale:
  "pv_status (fst (fst (obtainInt32 0 5 sample_value_pool))) = UNAVAILABLE"
  "pv_areaId (fst (fst (obtainInt32 0 5 sample_value_pool))) = 7"
  by code_simp+

theorem pool_values_witness: "pv_value (fst (fst (obtainInt32 0 5 sample_value_pool))) = raw_default\<lparr>int32Values := [5]\<rparr>"
  using pool_values [OF sample_value_pool_reachable, of T_INT32 0 1 "createVehiclePropValueVec T_INT32 1" 5] by simp

theorem pool_size_limit_witness:
  "map_option objects_size (map_of (mValueTypePools sample_value_pool) 0x00400001) = Some 24 \<and> (24 :: nat) \<le> 10240"
proof -
  have s: "map_option objects_size (map_of (mValueTypePools sample_value_pool) 0x00400001) = Some 24" by code_simp
  then obtain p where p: "map_of (mValueTypePools sample_value_pool) 0x00400001 = Some p" "objects_size p = 24" by auto
  have "objects_size p \<le> 10240"
    using pool_size_limit [OF sample_value_pool_reachable _ _ _ p(1)] by simp
  then show ?thesis using p by simp
qed

end
