(* ===== verification/Special_Values.thy ===== *)
theory Special_Values
  imports Fake_Hardware Value_Pool
begin

text \<open>
  \<^verbatim>\<open>fake_impl/hardware/FakeVehicleHardware\<close>: how the reference hardware gets and sets values. Most
  properties are read from and written to the store; the special ones are the user messages, the power states, the
  properties that depend on HVAC power or on a driver assistance feature, OBD2 frames and test properties.

  A set gives \<open>(result, events, hardware)\<close> with the events of the store in order; \<open>None\<close> stands for
  undefined behaviour or an abort of the process. \<open>FakeEnv\<close> has what the code takes from outside: the
  reading of \<^verbatim>\<open>elapsedRealtimeNano()\<close> for the value of a property and an area, the object that the value pool hands
  out for a type and a size, and the answers of the power controller (\<open>None\<close>: it cannot be reached).
\<close>

section \<open>Properties and constants\<close>

definition HVAC_TEMPERATURE_SET :: int32 where "HVAC_TEMPERATURE_SET = 0x15600503"
definition HVAC_DUAL_ON :: int32 where "HVAC_DUAL_ON = 0x15200509"
definition HVAC_TEMPERATURE_VALUE_SUGGESTION :: int32 where "HVAC_TEMPERATURE_VALUE_SUGGESTION = 0x11610515"
definition AP_POWER_STATE_REPORT :: int32 where "AP_POWER_STATE_REPORT = 0x11410a01"
definition AP_POWER_BOOTUP_REASON :: int32 where "AP_POWER_BOOTUP_REASON = 0x11400a02"
definition DISPLAY_BRIGHTNESS :: int32 where "DISPLAY_BRIGHTNESS = 0x11400a03"
definition PER_DISPLAY_BRIGHTNESS :: int32 where "PER_DISPLAY_BRIGHTNESS = 0x11410a04"
definition VEHICLE_MAP_SERVICE :: int32 where "VEHICLE_MAP_SERVICE = 0x11e00c00"
definition CLUSTER_REPORT_STATE :: int32 where "CLUSTER_REPORT_STATE = 0x11e00f36"
definition CLUSTER_REQUEST_DISPLAY :: int32 where "CLUSTER_REQUEST_DISPLAY = 0x11400f37"
definition CLUSTER_NAVIGATION_STATE :: int32 where "CLUSTER_NAVIGATION_STATE = 0x11700f38"
definition SHUTDOWN_REQUEST :: int32 where "SHUTDOWN_REQUEST = 0x11400f49"
definition VEHICLE_IN_USE :: int32 where "VEHICLE_IN_USE = 0x11200f4a"
definition LANE_CENTERING_ASSIST_COMMAND :: int32 where "LANE_CENTERING_ASSIST_COMMAND = 0x1140100b"
definition LANE_CENTERING_ASSIST_STATE :: int32 where "LANE_CENTERING_ASSIST_STATE = 0x1140100c"
definition CRUISE_CONTROL_ENABLED :: int32 where "CRUISE_CONTROL_ENABLED = 0x1120100f"
definition CRUISE_CONTROL_TYPE :: int32 where "CRUISE_CONTROL_TYPE = 0x11401010"
definition CRUISE_CONTROL_STATE :: int32 where "CRUISE_CONTROL_STATE = 0x11401011"
definition CRUISE_CONTROL_COMMAND :: int32 where "CRUISE_CONTROL_COMMAND = 0x11401012"
definition CRUISE_CONTROL_TARGET_SPEED :: int32 where "CRUISE_CONTROL_TARGET_SPEED = 0x11601013"
definition ADAPTIVE_CRUISE_CONTROL_TARGET_TIME_GAP :: int32 where
  "ADAPTIVE_CRUISE_CONTROL_TARGET_TIME_GAP = 0x11401014"
definition ADAPTIVE_CRUISE_CONTROL_LEAD_VEHICLE_MEASURED_DISTANCE :: int32 where
  "ADAPTIVE_CRUISE_CONTROL_LEAD_VEHICLE_MEASURED_DISTANCE = 0x11401015"

definition VENDOR_CLUSTER_SWITCH_UI :: int32 where "VENDOR_CLUSTER_SWITCH_UI = 0x21400f34"
definition VENDOR_CLUSTER_DISPLAY_STATE :: int32 where "VENDOR_CLUSTER_DISPLAY_STATE = 0x21410f35"
definition ECHO_REVERSE_BYTES :: int32 where "ECHO_REVERSE_BYTES = 0x21702a12"
definition VENDOR_PROPERTY_FOR_ERROR_CODE_TESTING :: int32 where
  "VENDOR_PROPERTY_FOR_ERROR_CODE_TESTING = 0x21402a13"
definition VENDOR_ERROR_CODE :: int where "VENDOR_ERROR_CODE = 0x00ab0005"

text \<open>
  \<^verbatim>\<open>mAdasEnabledPropToAdasPropWithErrorState\<close>: the state properties of each driver assistance feature, by the
  property that enables it, in the order of the code.
\<close>

definition mAdasEnabledPropToAdasPropWithErrorState :: "(int32, int32 list) umap" where
  "mAdasEnabledPropToAdasPropWithErrorState =
    [(0x11201000, [0x11401001]), (0x11201002, [0x11401003]), (0x11201004, [0x14401005]), (0x11201006, [0x11401007]),
     (0x11201008, [0x11401009]), (0x1120100a, [LANE_CENTERING_ASSIST_STATE]), (0x1120100d, [0x1140100e]),
     (CRUISE_CONTROL_ENABLED, [CRUISE_CONTROL_TYPE, CRUISE_CONTROL_STATE]), (0x11201016, [0x11401017, 0x11401018]),
     (0x11201019, [0x1140101a]), (0x1120101b, [0x1140101c]), (0x1120101d, [0x1140101e, 0x11401020]),
     (0x1120101f, [0x11401020]), (0x11201021, [0x11401022]), (0x1120040e, [0x1140040f]), (0x11201023, [0x11401024]),
     (0x11201025, [0x11401026])]"

definition mPowerPropIds :: "int32 uset" where
  "mPowerPropIds = [VEHICLE_IN_USE, AP_POWER_BOOTUP_REASON]"

datatype VehicleApPowerStateReq = REQ_ON | REQ_SHUTDOWN_PREPARE | REQ_CANCEL_SHUTDOWN | REQ_FINISHED

primrec apPowerStateReqInt :: "VehicleApPowerStateReq \<Rightarrow> int" where
  "apPowerStateReqInt REQ_ON = 0" | "apPowerStateReqInt REQ_SHUTDOWN_PREPARE = 1"
| "apPowerStateReqInt REQ_CANCEL_SHUTDOWN = 2" | "apPowerStateReqInt REQ_FINISHED = 3"

section \<open>The environment and the store\<close>

record FakeEnv =
  elapsedRealtimeNanoFor :: "PropIdAreaId \<Rightarrow> int"
  pooledValue :: "VehiclePropertyType \<Rightarrow> nat \<Rightarrow> VehiclePropValue"
  isVehicleInUse :: "bool option"
  apPowerBootupReason :: "int option"

type_synonym Written = "unit VhalResult \<times> StoreEvent list \<times> FakeVehicleHardware"

definition stampedNow :: "FakeEnv \<Rightarrow> VehiclePropValue \<Rightarrow> VehiclePropValue" where
  "stampedNow env v = v\<lparr>pv_timestamp := elapsedRealtimeNanoFor env (key_of v)\<rparr>"

definition storeWrite :: "FakeEnv \<Rightarrow> VehiclePropValue \<Rightarrow> bool \<Rightarrow> EventMode \<Rightarrow> bool \<Rightarrow> FakeVehicleHardware \<Rightarrow> Written" where
  "storeWrite env v updateStatus eventMode useCurrentTimestamp h =
    (let (r, es, st) = writeValue (elapsedRealtimeNanoFor env (key_of v)) v updateStatus eventMode
           useCurrentTimestamp (mServerSidePropStore h) in
     (r, es, h\<lparr>mServerSidePropStore := st\<rparr>))"

section \<open>Power states\<close>

definition createApPowerStateReq :: "FakeEnv \<Rightarrow> VehicleApPowerStateReq \<Rightarrow> VehiclePropValue" where
  "createApPowerStateReq env state =
    (let req = pooledValue env T_INT32_VEC 2 in
     stampedNow env (req\<lparr>pv_prop := AP_POWER_STATE_REQ, pv_areaId := 0, pv_status := AVAILABLE,
       pv_value := (pv_value req)\<lparr>int32Values := (int32Values (pv_value req))[0 := apPowerStateReqInt state, 1 := 0]\<rparr>\<rparr>))"

definition createAdasStateReq :: "FakeEnv \<Rightarrow> int32 \<Rightarrow> int32 \<Rightarrow> int \<Rightarrow> VehiclePropValue" where
  "createAdasStateReq env propertyId a state =
    (let req = pooledValue env T_INT32 1 in
     stampedNow env (req\<lparr>pv_prop := propertyId, pv_areaId := a, pv_status := AVAILABLE,
       pv_value := (pv_value req)\<lparr>int32Values := (int32Values (pv_value req))[0 := state]\<rparr>\<rparr>))"

definition setApPowerStateReqShutdown :: "FakeEnv \<Rightarrow> VehiclePropValue \<Rightarrow> FakeVehicleHardware \<Rightarrow> Written" where
  "setApPowerStateReqShutdown env v h =
    (if length (int32Values (pv_value v)) \<noteq> 1 then (Inl INVALID_ARG, [], h)
     else
       let req = createApPowerStateReq env REQ_SHUTDOWN_PREPARE;
           req' = req\<lparr>pv_value := (pv_value req)\<lparr>int32Values :=
              (int32Values (pv_value req))[1 := int32Values (pv_value v) ! 0]\<rparr>\<rparr> in
       storeWrite env req' True ALWAYS False h)"

text \<open>The reports are the integers of \<^verbatim>\<open>VehicleApPowerStateReport\<close>.\<close>

definition setApPowerStateReport :: "FakeEnv \<Rightarrow> VehiclePropValue \<Rightarrow> FakeVehicleHardware \<Rightarrow> Written option" where
  "setApPowerStateReport env v h =
    (case storeWrite env (stampedNow env v) False ON_VALUE_CHANGE False h of
       (Inl e, es, h1) \<Rightarrow> Some (Inl e, es, h1)
     | (Inr _, es, h1) \<Rightarrow>
       (case int32Values (pv_value v) of
          [] \<Rightarrow> None
        | state # _ \<Rightarrow>
          if state \<in> {3, 10, 8, 1} then
            (case storeWrite env (createApPowerStateReq env REQ_ON) True ALWAYS False h1 of
               (r, es', h2) \<Rightarrow> Some (r, es @ es', h2))
          else if state \<in> {2, 9, 5} then
            (case storeWrite env (createApPowerStateReq env REQ_FINISHED) True ON_VALUE_CHANGE False h1 of
               (r, es', h2) \<Rightarrow> Some (r, es @ es', h2))
          else Some (Inr (), es, h1)))"

section \<open>HVAC\<close>

text \<open>Arithmetic on \<^verbatim>\<open>int\<close> that overflows, and the cast of a float that does not fit, are undefined.\<close>

definition checked32 :: "int \<Rightarrow> int option" where
  "checked32 x = (if in_int32 x then Some x else None)"

definition getHvacTempNumIncrements :: "int \<Rightarrow> int \<Rightarrow> int \<Rightarrow> int \<Rightarrow> int option" where
  "getHvacTempNumIncrements requestedTemp minTemp maxTemp increment =
    (case checked32 (min (max requestedTemp minTemp) maxTemp - minTemp) of
       None \<Rightarrow> None
     | Some d \<Rightarrow> fp_to_int 32 (fp_round (fp_div binary32 (fp_of_int binary32 d) (fp_of_int binary32 increment))))"

definition suggestedTemp :: "int \<Rightarrow> int \<Rightarrow> int \<Rightarrow> int option" where
  "suggestedTemp minTemp increment numIncrements =
    (case checked32 (increment * numIncrements) of None \<Rightarrow> None | Some d \<Rightarrow> checked32 (minTemp + d))"

definition CELSIUS :: int where "CELSIUS = 0x30"
definition FAHRENHEIT :: int where "FAHRENHEIT = 0x31"

definition tenth :: "int \<Rightarrow> fp" where
  "tenth x = fp_div binary32 (fp_of_int binary32 x) (FFin 10)"

definition updateHvacTemperatureValueSuggestionInput :: "int list \<Rightarrow> fp list \<Rightarrow> fp list option" where
  "updateHvacTemperatureValueSuggestionInput config input =
    (if length config < 6 \<or> length input < 4 then None
     else case fp_to_int 32 (fp_mul binary32 (input ! 0) (FFin 10)) of
       None \<Rightarrow> None
     | Some requestedTemp \<Rightarrow>
       (case (if fp_eq (input ! 1) (fp_of_int binary32 CELSIUS)
              then getHvacTempNumIncrements requestedTemp (config ! 0) (config ! 1) (config ! 2)
              else getHvacTempNumIncrements requestedTemp (config ! 3) (config ! 4) (config ! 5)) of
          None \<Rightarrow> None
        | Some numIncrements \<Rightarrow>
          (case (suggestedTemp (config ! 0) (config ! 2) numIncrements, suggestedTemp (config ! 3) (config ! 5) numIncrements) of
             (Some celsius, Some fahrenheit) \<Rightarrow> Some (input[2 := tenth celsius, 3 := tenth fahrenheit])
           | _ \<Rightarrow> None)))"

definition setHvacTemperatureValueSuggestion ::
  "FakeEnv \<Rightarrow> VehiclePropValue \<Rightarrow> FakeVehicleHardware \<Rightarrow> Written option" where
  "setHvacTemperatureValueSuggestion env v h =
    (case getPropConfig HVAC_TEMPERATURE_SET (mServerSidePropStore h) of
       Inl e \<Rightarrow> Some (Inl e, [], h)
     | Inr config \<Rightarrow>
       let input = floatValues (pv_value v) in
       if length input \<noteq> 4 then Some (Inl INVALID_ARG, [], h)
       else if \<not> (fp_eq (input ! 1) (fp_of_int binary32 CELSIUS) \<or> fp_eq (input ! 1) (fp_of_int binary32 FAHRENHEIT))
       then Some (Inl INVALID_ARG, [], h)
       else case updateHvacTemperatureValueSuggestionInput (pc_configArray config) input of
         None \<Rightarrow> None
       | Some suggestion \<Rightarrow> Some (storeWrite env
           (stampedNow env (v\<lparr>pv_value := (pv_value v)\<lparr>floatValues := suggestion\<rparr>\<rparr>)) True ALWAYS False h))"

definition isHvacPropAndHvacNotAvailable :: "int32 \<Rightarrow> int32 \<Rightarrow> FakeVehicleHardware \<Rightarrow> bool" where
  "isHvacPropAndHvacNotAvailable p a h =
    (if p \<in> set (hvacPowerDependentProps h)
     then (case readValuesForProperty HVAC_POWER_ON (mServerSidePropStore h) of
         Inl _ \<Rightarrow> False
       | Inr vs \<Rightarrow> (case find (\<lambda>v. pv_areaId v AND a = a) vs of
           None \<Rightarrow> False | Some v \<Rightarrow> int32Values (pv_value v) = [0]))
     else False)"

text \<open>The loop of \<open>synchronizeHvacTemp\<close> over the values that were read before it.\<close>

fun synchronizeValues ::
  "FakeEnv \<Rightarrow> int32 \<Rightarrow> fp option \<Rightarrow> VehiclePropValue list \<Rightarrow> FakeVehicleHardware \<Rightarrow> Written option" where
  "synchronizeValues env dualArea temp [] h = Some (Inr (), [], h)"
| "synchronizeValues env dualArea temp (v # vs) h =
    (if dualArea AND pv_areaId v \<noteq> pv_areaId v then synchronizeValues env dualArea temp vs h
     else if pv_status v \<noteq> AVAILABLE then synchronizeValues env dualArea temp vs h
     else case floatValues (pv_value v) of
       [] \<Rightarrow> None
     | x # xs \<Rightarrow>
       (case temp of
          None \<Rightarrow> synchronizeValues env dualArea (Some x) vs h
        | Some t \<Rightarrow>
          (case storeWrite env (stampedNow env (v\<lparr>pv_value := (pv_value v)\<lparr>floatValues := t # xs\<rparr>\<rparr>)) True ALWAYS False h of
             (Inl e, es, h1) \<Rightarrow> Some (Inl e, es, h1)
           | (Inr _, es, h1) \<Rightarrow> map_option (\<lambda>(r, es', h2). (r, es @ es', h2)) (synchronizeValues env dualArea temp vs h1))))"

definition synchronizeHvacTemp ::
  "FakeEnv \<Rightarrow> int32 \<Rightarrow> fp option \<Rightarrow> FakeVehicleHardware \<Rightarrow> Written option" where
  "synchronizeHvacTemp env hvacDualOnAreaId newTempC h =
    (case readValuesForProperty HVAC_TEMPERATURE_SET (mServerSidePropStore h) of
       Inl _ \<Rightarrow> Some (Inl NOT_AVAILABLE, [], h)
     | Inr vs \<Rightarrow> synchronizeValues env hvacDualOnAreaId newTempC vs h)"

definition getSyncedAreaIdIfHvacDualOn :: "int32 \<Rightarrow> FakeVehicleHardware \<Rightarrow> int32 option" where
  "getSyncedAreaIdIfHvacDualOn a h =
    (case readValuesForProperty HVAC_DUAL_ON (mServerSidePropStore h) of
       Inl _ \<Rightarrow> None
     | Inr vs \<Rightarrow> map_option pv_areaId
         (find (\<lambda>v. pv_areaId v AND a = a \<and> int32Values (pv_value v) = [1]) vs))"

text \<open>The results of the writes are ignored.\<close>

definition sendHvacProperty ::
  "FakeEnv \<Rightarrow> int32 \<Rightarrow> int \<Rightarrow> int32 \<Rightarrow> StoreEvent list \<times> FakeVehicleHardware \<Rightarrow> StoreEvent list \<times> FakeVehicleHardware" where
  "sendHvacProperty env a hvacPowerOnVal p acc =
    (case readValuesForProperty p (mServerSidePropStore (snd acc)) of
       Inl _ \<Rightarrow> acc
     | Inr vs \<Rightarrow> fold (\<lambda>v (es, h).
         if pv_areaId v AND a = pv_areaId v
         then (case storeWrite env (stampedNow env (v\<lparr>pv_status := (if hvacPowerOnVal \<noteq> 0 then AVAILABLE else UNAVAILABLE)\<rparr>))
                 True ALWAYS False h of (_, es', h') \<Rightarrow> (es @ es', h'))
         else (es, h)) vs acc)"

definition sendHvacPropertiesCurrentValues ::
  "FakeEnv \<Rightarrow> int32 \<Rightarrow> int \<Rightarrow> FakeVehicleHardware \<Rightarrow> StoreEvent list \<times> FakeVehicleHardware" where
  "sendHvacPropertiesCurrentValues env a hvacPowerOnVal h =
     fold (sendHvacProperty env a hvacPowerOnVal) (hvacPowerDependentProps h) ([], h)"

section \<open>Driver assistance\<close>

definition isAdasPropertyAvailable :: "int32 \<Rightarrow> FakeVehicleHardware \<Rightarrow> unit VhalResult" where
  "isAdasPropertyAvailable adasStatePropertyId h =
    (case readValueById adasStatePropertyId 0 0 (mServerSidePropStore h) of
       Inl _ \<Rightarrow> Inr ()
     | Inr v \<Rightarrow> (case int32Values (pv_value v) of
         [errorState] \<Rightarrow>
           if errorState < 0 then
             (if errorState = -2 then Inl NOT_AVAILABLE_DISABLED
              else if errorState = -3 then Inl NOT_AVAILABLE_SPEED_LOW
              else if errorState = -4 then Inl NOT_AVAILABLE_SPEED_HIGH
              else if errorState = -5 then Inl NOT_AVAILABLE_POOR_VISIBILITY
              else if errorState = -6 then Inl NOT_AVAILABLE_SAFETY
              else Inl NOT_AVAILABLE)
           else Inr ()
       | _ \<Rightarrow> Inr ()))"

text \<open>\<open>None\<close>: the value of the result of a failed read, or an element of an empty vector, is used.\<close>

definition isCruiseControlTypeStandard :: "FakeVehicleHardware \<Rightarrow> bool VhalResult option" where
  "isCruiseControlTypeStandard h =
    (case isAdasPropertyAvailable CRUISE_CONTROL_TYPE h of
       Inl e \<Rightarrow> Some (Inl e)
     | Inr _ \<Rightarrow>
       (case readValueById CRUISE_CONTROL_TYPE 0 0 (mServerSidePropStore h) of
          Inl _ \<Rightarrow> None
        | Inr v \<Rightarrow> (case int32Values (pv_value v) of [] \<Rightarrow> None | x # _ \<Rightarrow> Some (Inr (x = 1)))))"

definition sendAdasProperty ::
  "FakeEnv \<Rightarrow> int \<Rightarrow> int32 \<Rightarrow> StoreEvent list \<times> FakeVehicleHardware \<Rightarrow> StoreEvent list \<times> FakeVehicleHardware" where
  "sendAdasProperty env state dependentPropId acc =
    (case getPropConfig dependentPropId (mServerSidePropStore (snd acc)) of
       Inl _ \<Rightarrow> acc
     | Inr config \<Rightarrow> fold (\<lambda>ac (es, h).
         let hardcoded_state = (if state = 1 \<and> dependentPropId = CRUISE_CONTROL_TYPE then 2 else state) in
         (case storeWrite env (createAdasStateReq env dependentPropId (ac_areaId ac) hardcoded_state) True ALWAYS False h of
            (_, es', h') \<Rightarrow> (es @ es', h'))) (pc_areaConfigs config) acc)"

definition sendAdasPropertiesState ::
  "FakeEnv \<Rightarrow> int32 \<Rightarrow> int \<Rightarrow> FakeVehicleHardware \<Rightarrow> StoreEvent list \<times> FakeVehicleHardware" where
  "sendAdasPropertiesState env propertyId state h =
     fold (sendAdasProperty env state) (umap_at [] propertyId mAdasEnabledPropToAdasPropWithErrorState) ([], h)"

section \<open>Getting values\<close>

text \<open>The emulated user HAL returns no null value on a get.\<close>

definition getUserHalProp :: "FakeEnv \<Rightarrow> VehiclePropValue \<Rightarrow> FakeVehicleHardware \<Rightarrow> VehiclePropValue VhalResult option" where
  "getUserHalProp env v h =
    (case onGetProperty v (mFakeUserHal h) of
       None \<Rightarrow> None
     | Some (Inl e) \<Rightarrow> Some (Inl e)
     | Some (Inr (Some gotValue)) \<Rightarrow> Some (Inr (stampedNow env gotValue))
     | Some (Inr None) \<Rightarrow> Some (Inl INTERNAL_ERROR))"

definition pooledInt32 :: "FakeEnv \<Rightarrow> int32 \<Rightarrow> int \<Rightarrow> VehiclePropValue" where
  "pooledInt32 env p i =
    (let v = pooledValue env T_INT32 1 in
     stampedNow env (v\<lparr>pv_prop := p, pv_areaId := 0,
       pv_value := (pv_value v)\<lparr>int32Values := (int32Values (pv_value v))[0 := i]\<rparr>\<rparr>))"

definition getVehicleInUse :: "FakeEnv \<Rightarrow> VehiclePropValue VhalResult" where
  "getVehicleInUse env = (case isVehicleInUse env of
     None \<Rightarrow> Inl TRY_AGAIN
   | Some b \<Rightarrow> Inr ((pooledInt32 env VEHICLE_IN_USE (if b then 1 else 0))\<lparr>pv_status := AVAILABLE\<rparr>))"

definition getApPowerBootupReason :: "FakeEnv \<Rightarrow> VehiclePropValue VhalResult" where
  "getApPowerBootupReason env = (case apPowerBootupReason env of
     None \<Rightarrow> Inl TRY_AGAIN
   | Some i \<Rightarrow> Inr ((pooledInt32 env AP_POWER_BOOTUP_REASON i)\<lparr>pv_status := AVAILABLE\<rparr>))"

definition getPowerPropFromExternalService :: "FakeEnv \<Rightarrow> int32 \<Rightarrow> VehiclePropValue VhalResult" where
  "getPowerPropFromExternalService env p =
    (if p = VEHICLE_IN_USE then getVehicleInUse env
     else if p = AP_POWER_BOOTUP_REASON then getApPowerBootupReason env
     else Inl INTERNAL_ERROR)"

definition getEchoReverseBytes :: "FakeEnv \<Rightarrow> VehiclePropValue \<Rightarrow> FakeVehicleHardware \<Rightarrow> VehiclePropValue VhalResult" where
  "getEchoReverseBytes env v h =
    (case readValue v (mServerSidePropStore h) of
       Inl e \<Rightarrow> Inl e
     | Inr gotValue \<Rightarrow> Inr (stampedNow env (gotValue\<lparr>pv_value :=
         (pv_value gotValue)\<lparr>byteValues := rev (byteValues (pv_value gotValue))\<rparr>\<rparr>)))"

definition isVendorTestProperty :: "int32 \<Rightarrow> bool" where
  "isVendorTestProperty p \<longleftrightarrow> sint STARTING_VENDOR_CODE_PROPERTIES_FOR_TEST \<le> sint p \<and>
     sint p < sint ENDING_VENDOR_CODE_PROPERTIES_FOR_TEST"

text \<open>
  The result of a special property; \<open>Some None\<close> if the property is not special. A property that is
  available but not special is read from the store by the caller. \<open>needsAdaptive\<close>, which is looked at only on
  standard cruise control, tells whether the request is refused on it.
\<close>

definition refuseIfUnavailable :: "unit VhalResult \<Rightarrow> 'a VhalResult option" where
  "refuseIfUnavailable r = (case r of Inl e \<Rightarrow> Some (Inl e) | Inr _ \<Rightarrow> None)"

definition refuseOnStandardCruiseControl :: "FakeVehicleHardware \<Rightarrow> bool option \<Rightarrow> 'a VhalResult option option" where
  "refuseOnStandardCruiseControl h needsAdaptive =
    (case isAdasPropertyAvailable CRUISE_CONTROL_STATE h of
       Inl e \<Rightarrow> Some (Some (Inl e))
     | Inr _ \<Rightarrow> (case isCruiseControlTypeStandard h of
         None \<Rightarrow> None
       | Some (Inl e) \<Rightarrow> Some (Some (Inl e))
       | Some (Inr standard) \<Rightarrow>
           if standard
           then map_option (\<lambda>refuse. if refuse then Some (Inl NOT_AVAILABLE_DISABLED) else None) needsAdaptive
           else Some None))"

definition maybeGetSpecialValue ::
  "FakeEnv \<Rightarrow> VehiclePropValue \<Rightarrow> FakeVehicleHardware \<Rightarrow> VehiclePropValue VhalResult option option" where
  "maybeGetSpecialValue env v h =
    (let p = pv_prop v in
     if mPowerControllerServiceAddress h \<noteq> [] \<and> p \<in> set mPowerPropIds
     then Some (Some (getPowerPropFromExternalService env p))
     else if isVendorTestProperty p then Some (Some (Inr (pooledInt32 env p 5)))
     else if isSupported p then map_option Some (getUserHalProp env v h)
     else if isHvacPropAndHvacNotAvailable p (pv_areaId v) h then Some (Some (Inl NOT_AVAILABLE_DISABLED))
     else if p = OBD2_FREEZE_FRAME
     then Some (Some (map_sum id (stampedNow env) (getObd2FreezeFrame v (mServerSidePropStore h))))
     else if p = OBD2_FREEZE_FRAME_INFO
     then Some (Some (map_sum id (stampedNow env) (getObd2DtcInfo (pooledValue env) (mServerSidePropStore h))))
     else if p = ECHO_REVERSE_BYTES then Some (Some (getEchoReverseBytes env v h))
     else if p = VENDOR_PROPERTY_FOR_ERROR_CODE_TESTING then Some (Some (Inl (VendorCode VENDOR_ERROR_CODE)))
     else if p = CRUISE_CONTROL_TARGET_SPEED
     then Some (refuseIfUnavailable (isAdasPropertyAvailable CRUISE_CONTROL_STATE h))
     else if p = ADAPTIVE_CRUISE_CONTROL_TARGET_TIME_GAP \<or> p = ADAPTIVE_CRUISE_CONTROL_LEAD_VEHICLE_MEASURED_DISTANCE
     then refuseOnStandardCruiseControl h (Some True)
     else Some None)"

definition getValue :: "FakeEnv \<Rightarrow> VehiclePropValue \<Rightarrow> FakeVehicleHardware \<Rightarrow> VehiclePropValue VhalResult option" where
  "getValue env v h = (case maybeGetSpecialValue env v h of
     None \<Rightarrow> None
   | Some (Some result) \<Rightarrow> Some result
   | Some None \<Rightarrow> Some (readValue v (mServerSidePropStore h)))"

definition handleGetValueRequest :: "FakeEnv \<Rightarrow> GetValueRequest \<Rightarrow> FakeVehicleHardware \<Rightarrow> GetValueResult option" where
  "handleGetValueRequest env request h = map_option (\<lambda>result.
     \<lparr>gres_requestId = gr_requestId request, gres_status = getErrorCode result,
      gres_prop = (case result of Inl _ \<Rightarrow> None | Inr v \<Rightarrow> Some v)\<rparr>) (getValue env (gr_prop request) h)"

section \<open>Setting values\<close>

definition setUserHalProp :: "FakeEnv \<Rightarrow> VehiclePropValue \<Rightarrow> FakeVehicleHardware \<Rightarrow> Written option" where
  "setUserHalProp env v h =
    (case onSetProperty (elapsedRealtimeNanoFor env (key_of v)) v (mFakeUserHal h) of
       None \<Rightarrow> None
     | Some (result, hal) \<Rightarrow>
       let h1 = h\<lparr>mFakeUserHal := hal\<rparr> in
       (case result of
          Inl e \<Rightarrow> Some (Inl e, [], h1)
        | Inr None \<Rightarrow> Some (Inr (), [], h1)
        | Inr (Some updatedValue) \<Rightarrow> Some (storeWrite env (stampedNow env updatedValue) True ALWAYS False h1)))"

text \<open>
  The test properties of the instrument cluster, which are built with \<^verbatim>\<open>ENABLE_VEHICLE_HAL_TEST_PROPERTIES\<close>: the value is written to the vendor or system counterpart.\<close>

definition isClusterTestProperty :: "int32 \<Rightarrow> bool" where
  "isClusterTestProperty p \<longleftrightarrow> p \<in> {CLUSTER_REPORT_STATE, CLUSTER_REQUEST_DISPLAY, CLUSTER_NAVIGATION_STATE,
     VENDOR_CLUSTER_SWITCH_UI, VENDOR_CLUSTER_DISPLAY_STATE}"

definition clusterCounterpart :: "int32 \<Rightarrow> int32" where
  "clusterCounterpart p = (p AND NOT GROUP_MASK) OR (if getPropGroup p = SYSTEM then 0x20000000 else 0x10000000)"

definition setClusterTestProperty :: "FakeEnv \<Rightarrow> VehiclePropValue \<Rightarrow> FakeVehicleHardware \<Rightarrow> Written" where
  "setClusterTestProperty env v h =
    (let ty = getPropType (pv_prop v) in
     storeWrite env (stampedNow env ((pooledValue env ty (if isComplexType ty then 0 else 1))
       \<lparr>pv_prop := clusterCounterpart (pv_prop v), pv_value := pv_value v, pv_areaId := pv_areaId v\<rparr>))
       False ON_VALUE_CHANGE False h)"

text \<open>
  The outcome of \<open>maybeSetSpecialValue\<close>: the result if the property is special, else \<open>None\<close>, then
  the events and the hardware.
\<close>

type_synonym SpecialSet = "unit VhalResult option \<times> StoreEvent list \<times> FakeVehicleHardware"

definition special :: "Written \<Rightarrow> SpecialSet" where
  "special w = (case w of (r, es, h) \<Rightarrow> (Some r, es, h))"

definition sendAdasForSet ::
  "FakeEnv \<Rightarrow> VehiclePropValue \<Rightarrow> FakeVehicleHardware \<Rightarrow> StoreEvent list \<times> FakeVehicleHardware" where
  "sendAdasForSet env v h =
    (if map_of mAdasEnabledPropToAdasPropWithErrorState (pv_prop v) \<noteq> None
     then (case int32Values (pv_value v) of
         [x] \<Rightarrow> if x = 1 then sendAdasPropertiesState env (pv_prop v) 1 h
                else sendAdasPropertiesState env (pv_prop v) (-2) h
       | _ \<Rightarrow> ([], h))
     else ([], h))"

text \<open>The \<^verbatim>\<open>switch\<close> over the property.\<close>

definition setSpecialProperty :: "FakeEnv \<Rightarrow> VehiclePropValue \<Rightarrow> FakeVehicleHardware \<Rightarrow> SpecialSet option" where
  "setSpecialProperty env v h =
    (let p = pv_prop v; ints = int32Values (pv_value v) in
     if p = DISPLAY_BRIGHTNESS \<or> p = PER_DISPLAY_BRIGHTNESS then Some (None, [], h)
     else if p = AP_POWER_STATE_REPORT then map_option special (setApPowerStateReport env v h)
     else if p = SHUTDOWN_REQUEST then Some (special (setApPowerStateReqShutdown env v h))
     else if p = VEHICLE_MAP_SERVICE then Some (Some (Inr ()), [], h)
     else if p = OBD2_FREEZE_FRAME_CLEAR
     then (case clearObd2FreezeFrames v (mServerSidePropStore h) of
             (r, st) \<Rightarrow> Some (Some r, [], h\<lparr>mServerSidePropStore := st\<rparr>))
     else if p = VENDOR_PROPERTY_FOR_ERROR_CODE_TESTING then Some (Some (Inl (VendorCode VENDOR_ERROR_CODE)), [], h)
     else if p = HVAC_POWER_ON
     then (case ints of
             [x] \<Rightarrow> (case sendHvacPropertiesCurrentValues env (pv_areaId v) x h of (es, h') \<Rightarrow> Some (None, es, h'))
           | _ \<Rightarrow> Some (Some (Inl INVALID_ARG), [], h))
     else if p = HVAC_TEMPERATURE_VALUE_SUGGESTION
     then map_option special (setHvacTemperatureValueSuggestion env v h)
     else if p = HVAC_TEMPERATURE_SET
     then (case floatValues (pv_value v) of
             [t] \<Rightarrow> (case getSyncedAreaIdIfHvacDualOn (pv_areaId v) h of
                 Some a \<Rightarrow> map_option special (synchronizeHvacTemp env a (Some t) h)
               | None \<Rightarrow> Some (None, [], h))
           | _ \<Rightarrow> Some (Some (Inl INVALID_ARG), [], h))
     else if p = HVAC_DUAL_ON
     then (case ints of
             [x] \<Rightarrow> if x = 1
                    then map_option (\<lambda>(_, es, h'). (None, es, h')) (synchronizeHvacTemp env (pv_areaId v) None h)
                    else Some (None, [], h)
           | _ \<Rightarrow> Some (Some (Inl INVALID_ARG), [], h))
     else if p = LANE_CENTERING_ASSIST_COMMAND
     then Some (refuseIfUnavailable (isAdasPropertyAvailable LANE_CENTERING_ASSIST_STATE h), [], h)
     else if p = CRUISE_CONTROL_COMMAND
     then map_option (\<lambda>refusal. (refusal, [], h)) (refuseOnStandardCruiseControl h
            (case ints of [] \<Rightarrow> None | x # _ \<Rightarrow> Some (x = 5 \<or> x = 6)))
     else if p = ADAPTIVE_CRUISE_CONTROL_TARGET_TIME_GAP
     then map_option (\<lambda>refusal. (refusal, [], h)) (refuseOnStandardCruiseControl h (Some True))
     else if isClusterTestProperty p then Some (special (setClusterTestProperty env v h))
     else Some (None, [], h))"

definition maybeSetSpecialValue :: "FakeEnv \<Rightarrow> VehiclePropValue \<Rightarrow> FakeVehicleHardware \<Rightarrow> SpecialSet option" where
  "maybeSetSpecialValue env v h =
    (let p = pv_prop v in
     if isVendorTestProperty p then Some (Some (Inr ()), [], h)
     else if isSupported p then map_option special (setUserHalProp env v h)
     else if isHvacPropAndHvacNotAvailable p (pv_areaId v) h then Some (Some (Inl NOT_AVAILABLE_DISABLED), [], h)
     else case sendAdasForSet env v h of
       (es, h1) \<Rightarrow> map_option (\<lambda>(r, es', h2). (r, es @ es', h2)) (setSpecialProperty env v h1))"

definition setValue :: "FakeEnv \<Rightarrow> VehiclePropValue \<Rightarrow> FakeVehicleHardware \<Rightarrow> Written option" where
  "setValue env v h = (case maybeSetSpecialValue env v h of
     None \<Rightarrow> None
   | Some (Some result, es, h1) \<Rightarrow> Some (result, es, h1)
   | Some (None, es, h1) \<Rightarrow>
     (case storeWrite env v False ON_VALUE_CHANGE True h1 of (r, es', h2) \<Rightarrow> Some (r, es @ es', h2)))"

definition handleSetValueRequest ::
  "FakeEnv \<Rightarrow> SetValueRequest \<Rightarrow> FakeVehicleHardware \<Rightarrow> (SetValueResult \<times> StoreEvent list \<times> FakeVehicleHardware) option" where
  "handleSetValueRequest env request h = map_option (\<lambda>(r, es, h').
     (\<lparr>sres_requestId = sr_requestId request, sres_status = getErrorCode r\<rparr>, es, h')) (setValue env (sr_value request) h)"

section \<open>Writing to the store\<close>

lemma storeWrite_store:
  "fst (storeWrite env v u m c h) = fst (writeValue (elapsedRealtimeNanoFor env (key_of v)) v u m c (mServerSidePropStore h))"
  "mServerSidePropStore (snd (snd (storeWrite env v u m c h))) =
     snd (snd (writeValue (elapsedRealtimeNanoFor env (key_of v)) v u m c (mServerSidePropStore h)))"
  by (simp_all add: storeWrite_def case_prod_unfold Let_def)

text \<open>The fields of the hardware that no get or set of an ordinary property changes.\<close>

definition hw_frame :: "FakeVehicleHardware \<Rightarrow> FakeVehicleHardware \<Rightarrow> bool" where
  "hw_frame h h' \<longleftrightarrow> (\<exists>st. h' = h\<lparr>mServerSidePropStore := st\<rparr>)"

lemma hw_frame_refl [simp]: "hw_frame h h"
  unfolding hw_frame_def by (rule exI [of _ "mServerSidePropStore h"]) simp

lemma hw_frame_trans: "hw_frame h h1 \<Longrightarrow> hw_frame h1 h2 \<Longrightarrow> hw_frame h h2"
  by (auto simp: hw_frame_def)

lemma hw_frame_write [simp]: "hw_frame h (snd (snd (storeWrite env v u m c h)))"
  by (auto simp: hw_frame_def storeWrite_def case_prod_unfold Let_def)

lemma hw_frame_fields:
  assumes "hw_frame h h'"
  shows "hvacPowerDependentProps h' = hvacPowerDependentProps h" "mFakeUserHal h' = mFakeUserHal h"
    "mPowerControllerServiceAddress h' = mPowerControllerServiceAddress h"
  using assms by (auto simp: hw_frame_def)

definition hw_stored :: "FakeVehicleHardware \<Rightarrow> int32 \<Rightarrow> RecordId \<Rightarrow> VehiclePropValue option" where
  "hw_stored h = stored (mServerSidePropStore h)"

definition hw_accepts :: "FakeVehicleHardware \<Rightarrow> VehiclePropValue \<Rightarrow> bool" where
  "hw_accepts h = accepts (mServerSidePropStore h)"

definition hw_rid :: "FakeVehicleHardware \<Rightarrow> VehiclePropValue \<Rightarrow> RecordId" where
  "hw_rid h = record_id (mServerSidePropStore h)"

lemma stampedNow_fields [simp]:
  "pv_prop (stampedNow env v) = pv_prop v" "pv_areaId (stampedNow env v) = pv_areaId v"
  "pv_value (stampedNow env v) = pv_value v" "pv_status (stampedNow env v) = pv_status v"
  "pv_timestamp (stampedNow env v) = elapsedRealtimeNanoFor env (key_of v)" "key_of (stampedNow env v) = key_of v"
  by (simp_all add: stampedNow_def key_of_def)

text \<open>A write without a new status, stamped by the store, and a write of a stamped value.\<close>

lemma write_ordinary:
  assumes "hw_accepts h (stampedNow env v)"
  shows "fst (storeWrite env v False m True h) = Inr ()"
    and "hw_stored (snd (snd (storeWrite env v False m True h))) (pv_prop v) (hw_rid h (stampedNow env v)) =
      Some ((stampedNow env v)\<lparr>pv_status := (case hw_stored h (pv_prop v) (hw_rid h (stampedNow env v)) of
         Some o' \<Rightarrow> pv_status o' | None \<Rightarrow> AVAILABLE)\<rparr>)"
    and "(q, rid) \<noteq> (pv_prop v, hw_rid h (stampedNow env v)) \<Longrightarrow>
      hw_stored (snd (snd (storeWrite env v False m True h))) q rid = hw_stored h q rid"
proof -
  define now where "now = elapsedRealtimeNanoFor env (key_of v)"
  have s: "stampedNow env v = stamped now True v" by (simp add: stampedNow_def now_def)
  note w = writeValue_accepted [OF assms [unfolded hw_accepts_def s]]
  show "fst (storeWrite env v False m True h) = Inr ()"
    using w(1) by (simp add: storeWrite_store now_def)
  show "hw_stored (snd (snd (storeWrite env v False m True h))) (pv_prop v) (hw_rid h (stampedNow env v)) =
      Some ((stampedNow env v)\<lparr>pv_status := (case hw_stored h (pv_prop v) (hw_rid h (stampedNow env v)) of
         Some o' \<Rightarrow> pv_status o' | None \<Rightarrow> AVAILABLE)\<rparr>)"
    using w(2) [of False m] by (simp add: storeWrite_store hw_stored_def hw_rid_def written_def Let_def s flip: now_def)
  assume "(q, rid) \<noteq> (pv_prop v, hw_rid h (stampedNow env v))"
  then show "hw_stored (snd (snd (storeWrite env v False m True h))) q rid = hw_stored h q rid"
    using w(3) by (simp add: storeWrite_store hw_stored_def hw_rid_def s flip: now_def)
qed

lemma write_refused:
  assumes "\<not> hw_accepts h (stampedNow env v)"
  shows "storeWrite env v u m True h = (Inl INVALID_ARG, [], h)"
  using writeValue_rejected [where st = "mServerSidePropStore h" and c = True and v = v and u = u and m = m
      and now = "elapsedRealtimeNanoFor env (key_of v)"] assms
  by (simp add: storeWrite_def hw_accepts_def stampedNow_def)

lemma hw_rid_write [simp]: "hw_rid (snd (snd (storeWrite env v u m c h))) w = hw_rid h w"
  by (simp add: hw_rid_def storeWrite_store)

text \<open>Reads in terms of what is stored.\<close>

definition hw_registered :: "FakeVehicleHardware \<Rightarrow> int32 \<Rightarrow> bool" where
  "hw_registered h p \<longleftrightarrow> getRecordLocked p (mServerSidePropStore h) \<noteq> None"

lemma getRecordLocked_write:
  "map_option (\<lambda>r. (rec_propConfig r, rec_tokenFunction r))
     (getRecordLocked p (snd (snd (writeValue now v u m c st)))) =
   map_option (\<lambda>r. (rec_propConfig r, rec_tokenFunction r)) (getRecordLocked p st)"
proof (cases "accepts st (stamped now c v)")
  case True
  then obtain r where r: "getRecordLocked (pv_prop (stamped now c v)) st = Some r"
    using accepts_record by blast
  note w = writeValue_accepted_eq [OF True r, of now u m, THEN conjunct2]
  show ?thesis by (subst writeValue_stamped) (use r in \<open>auto simp: w\<close>)
qed (simp add: writeValue_rejected)

lemma hw_registered_write [simp]: "hw_registered (snd (snd (storeWrite env v u m c h))) p = hw_registered h p"
  using getRecordLocked_write [of p "elapsedRealtimeNanoFor env (key_of v)" v u m c "mServerSidePropStore h"]
  unfolding hw_registered_def storeWrite_store
  by (cases "getRecordLocked p (mServerSidePropStore h)") (auto simp: map_option_case split: option.splits)

lemma readValue_stored:
  "readValue v (mServerSidePropStore h) = (if \<not> hw_registered h (pv_prop v) then Inl INVALID_ARG
     else case hw_stored h (pv_prop v) (hw_rid h v) of None \<Rightarrow> Inl NOT_AVAILABLE | Some w \<Rightarrow> Inr w)"
  by (auto simp: readValue_def hw_registered_def hw_stored_def hw_rid_def record_id_def stored_def readValueLocked_def
      split: option.split)

lemma hw_accepts_registered: "hw_accepts h v \<Longrightarrow> hw_registered h (pv_prop v)"
  by (auto simp: hw_accepts_def accepts_def hw_registered_def)

text \<open>The values of one property.\<close>

lemma getRecordLocked_other:
  assumes "p \<noteq> pv_prop v"
  shows "getRecordLocked p (mServerSidePropStore (snd (snd (storeWrite env v u m c h)))) =
    getRecordLocked p (mServerSidePropStore h)"
proof -
  define now where "now = elapsedRealtimeNanoFor env (key_of v)"
  have "getRecordLocked p (snd (snd (writeValue now v u m c st))) = getRecordLocked p st" for st
  proof (cases "accepts st (stamped now c v)")
    case True
    then obtain r where r: "getRecordLocked (pv_prop (stamped now c v)) st = Some r"
      using accepts_record by blast
    note w = writeValue_accepted_eq [OF True r, of now u m, THEN conjunct2]
    show ?thesis by (subst writeValue_stamped) (use assms in \<open>simp add: w\<close>)
  qed (simp add: writeValue_rejected)
  then show ?thesis by (simp add: storeWrite_store now_def)
qed

lemma readValuesForProperty_other:
  "p \<noteq> pv_prop v \<Longrightarrow>
     readValuesForProperty p (mServerSidePropStore (snd (snd (storeWrite env v u m c h)))) =
     readValuesForProperty p (mServerSidePropStore h)"
  by (simp add: readValuesForProperty_def getRecordLocked_other)

section \<open>Sequences of writes whose results are ignored\<close>

definition silentWrite :: "FakeEnv \<Rightarrow> VehiclePropValue \<Rightarrow> StoreEvent list \<times> FakeVehicleHardware \<Rightarrow>
    StoreEvent list \<times> FakeVehicleHardware" where
  "silentWrite env v acc = (case storeWrite env v True ALWAYS False (snd acc) of (_, es, h) \<Rightarrow> (fst acc @ es, h))"

definition hw_key :: "FakeVehicleHardware \<Rightarrow> VehiclePropValue \<Rightarrow> int32 \<times> RecordId" where
  "hw_key h v = (pv_prop v, hw_rid h v)"

lemma snd_silentWrite: "snd (silentWrite env v acc) = snd (snd (storeWrite env v True ALWAYS False (snd acc)))"
  by (simp add: silentWrite_def case_prod_unfold)

lemma hw_key_write [simp]: "hw_key (snd (snd (storeWrite env v u m c h))) w = hw_key h w"
  by (simp add: hw_key_def)

lemma write_stored:
  assumes "hw_accepts h v"
  shows "hw_stored (snd (snd (storeWrite env v True m False h))) (pv_prop v) (hw_rid h v) = Some v"
  using writeValue_accepted(2) [of "mServerSidePropStore h" False _ v, where u = True and m = m] assms
  by (simp add: storeWrite_store hw_stored_def hw_rid_def written_def hw_accepts_def)

lemma write_other:
  assumes "(q, rid) \<noteq> hw_key h (if c then stampedNow env v else v)"
  shows "hw_stored (snd (snd (storeWrite env v u m c h))) q rid = hw_stored h q rid"
proof -
  define now where "now = elapsedRealtimeNanoFor env (key_of v)"
  have s: "(if c then stampedNow env v else v) = stamped now c v" by (simp add: stampedNow_def now_def)
  show ?thesis
  proof (cases "accepts (mServerSidePropStore h) (stamped now c v)")
    case True
    with writeValue_accepted(3) [OF True, of q rid u m] assms show ?thesis
      unfolding s by (simp add: storeWrite_store hw_stored_def hw_key_def hw_rid_def flip: now_def)
  next
    case False
    then show ?thesis by (simp add: storeWrite_store hw_stored_def writeValue_rejected flip: now_def)
  qed
qed

lemma hw_accepts_iff:
  "hw_accepts h v \<longleftrightarrow> (case getPropConfig (pv_prop v) (mServerSidePropStore h) of Inl _ \<Rightarrow> False
     | Inr config \<Rightarrow> isGlobalProp (pv_prop v) \<or> getAreaConfigForValue v config \<noteq> None) \<and>
     (\<forall>o'. hw_stored h (pv_prop v) (hw_rid h v) = Some o' \<longrightarrow> pv_timestamp o' \<le> pv_timestamp v)"
  by (auto simp: hw_accepts_def accepts_def getPropConfig_def hw_stored_def hw_rid_def split: option.splits)

lemma getPropConfig_write [simp]:
  "getPropConfig p (mServerSidePropStore (snd (snd (storeWrite env v u m c h)))) =
     getPropConfig p (mServerSidePropStore h)"
  using getRecordLocked_write [of p "elapsedRealtimeNanoFor env (key_of v)" v u m c "mServerSidePropStore h"]
  unfolding getPropConfig_def storeWrite_store
  by (cases "getRecordLocked p (mServerSidePropStore h)") (auto simp: map_option_case split: option.splits)

lemma hw_accepts_other:
  "hw_key h w \<noteq> hw_key h (if c then stampedNow env v else v) \<Longrightarrow>
     hw_accepts (snd (snd (storeWrite env v u m c h))) w = hw_accepts h w"
  using write_other [of "pv_prop w" "hw_rid h w"] by (simp add: hw_accepts_iff hw_key_def)

lemma silentWrites:
  fixes env :: FakeEnv and es :: "StoreEvent list"
  assumes "distinct (map (hw_key h) vs)" "\<forall>v \<in> set vs. hw_accepts h v"
  defines "h' \<equiv> snd (fold (silentWrite env) vs (es, h))"
  shows "v \<in> set vs \<Longrightarrow> hw_stored h' (pv_prop v) (hw_rid h v) = Some v"
    and "(q, rid) \<notin> hw_key h ` set vs \<Longrightarrow> hw_stored h' q rid = hw_stored h q rid"
proof -
  have "(\<forall>v \<in> set vs. hw_stored (snd (fold (silentWrite env) vs (es, h))) (pv_prop v) (hw_rid h v) = Some v) \<and>
      (\<forall>q rid. (q, rid) \<notin> hw_key h ` set vs \<longrightarrow>
         hw_stored (snd (fold (silentWrite env) vs (es, h))) q rid = hw_stored h q rid)"
    using assms(1,2)
  proof (induction vs arbitrary: es h)
    case (Cons v vs)
    define h1 where "h1 = snd (silentWrite env v (es, h))"
    have h1: "h1 = snd (snd (storeWrite env v True ALWAYS False h))" by (simp add: h1_def snd_silentWrite)
    have key: "hw_key h1 = hw_key h" "hw_rid h1 = hw_rid h" by (simp_all add: h1 fun_eq_iff)
    have acc: "\<forall>w \<in> set vs. hw_accepts h1 w"
    proof
      fix w assume that: "w \<in> set vs"
      have "hw_key h v \<notin> hw_key h ` set vs" using Cons.prems(1) by simp
      then have "hw_key h w \<noteq> hw_key h v" by (metis imageI that)
      then show "hw_accepts h1 w" using hw_accepts_other [of h w False env v] Cons.prems(2) that by (simp add: h1)
    qed
    have "distinct (map (hw_key h1) vs)" using Cons.prems(1) by (simp add: key)
    note IH = Cons.IH [OF this acc, of "fst (silentWrite env v (es, h))", unfolded h1_def [symmetric] key]
    have f: "fold (silentWrite env) (v # vs) (es, h) =
        fold (silentWrite env) vs (fst (silentWrite env v (es, h)), h1)" by (simp add: h1_def)
    have st1: "hw_stored h1 (pv_prop v) (hw_rid h v) = Some v"
      unfolding h1 by (rule write_stored) (use Cons.prems(2) in simp)
    have st2: "hw_stored h1 q rid = hw_stored h q rid" if "(q, rid) \<noteq> hw_key h v" for q rid
      unfolding h1 by (rule write_other) (use that in simp)
    have "hw_key h v \<notin> hw_key h ` set vs" using Cons.prems(1) by simp
    then have "hw_stored (snd (fold (silentWrite env) (v # vs) (es, h))) (pv_prop v) (hw_rid h v) = Some v"
      using IH st1 unfolding f by (simp add: h1_def hw_key_def)
    then show ?case using IH st2 unfolding f by (simp add: h1_def)
  qed simp
  then show "v \<in> set vs \<Longrightarrow> hw_stored h' (pv_prop v) (hw_rid h v) = Some v"
    and "(q, rid) \<notin> hw_key h ` set vs \<Longrightarrow> hw_stored h' q rid = hw_stored h q rid"
    unfolding h'_def by blast+
qed

lemma silentWrites_invariant:
  assumes "\<And>v h. v \<in> set vs \<Longrightarrow> P (snd (snd (storeWrite env v True ALWAYS False h))) = P h"
  shows "P (snd (fold (silentWrite env) vs acc)) = P (snd acc)"
  using assms by (induction vs arbitrary: acc) (simp_all add: snd_silentWrite)

lemma silentWrites_frame:
  "hvacPowerDependentProps (snd (fold (silentWrite env) vs acc)) = hvacPowerDependentProps (snd acc)"
  "hw_rid (snd (fold (silentWrite env) vs acc)) w = hw_rid (snd acc) w"
  "hw_key (snd (fold (silentWrite env) vs acc)) w = hw_key (snd acc) w"
  "getPropConfig p (mServerSidePropStore (snd (fold (silentWrite env) vs acc))) = getPropConfig p (mServerSidePropStore (snd acc))"
  by (rule silentWrites_invariant, simp add: hw_frame_fields(1) [OF hw_frame_write])+

lemma silentWrites_record:
  "p \<notin> pv_prop ` set vs \<Longrightarrow>
     getRecordLocked p (mServerSidePropStore (snd (fold (silentWrite env) vs acc))) =
     getRecordLocked p (mServerSidePropStore (snd acc))"
  by (rule silentWrites_invariant, rule getRecordLocked_other) blast

section \<open>Ordinary properties\<close>

text \<open>The properties that neither a get nor a set treats specially, except for HVAC power.\<close>

definition ordinary :: "int32 \<Rightarrow> bool" where
  "ordinary p \<longleftrightarrow> \<not> isVendorTestProperty p \<and> \<not> isSupported p \<and> \<not> isClusterTestProperty p \<and>
     map_of mAdasEnabledPropToAdasPropWithErrorState p = None \<and> p \<notin> set mPowerPropIds \<and>
     p \<notin> {AP_POWER_STATE_REPORT, SHUTDOWN_REQUEST, VEHICLE_MAP_SERVICE, OBD2_FREEZE_FRAME, OBD2_FREEZE_FRAME_INFO,
       OBD2_FREEZE_FRAME_CLEAR, ECHO_REVERSE_BYTES, VENDOR_PROPERTY_FOR_ERROR_CODE_TESTING, HVAC_POWER_ON,
       HVAC_TEMPERATURE_VALUE_SUGGESTION, HVAC_TEMPERATURE_SET, HVAC_DUAL_ON, LANE_CENTERING_ASSIST_COMMAND,
       CRUISE_CONTROL_COMMAND, CRUISE_CONTROL_TARGET_SPEED, ADAPTIVE_CRUISE_CONTROL_TARGET_TIME_GAP,
       ADAPTIVE_CRUISE_CONTROL_LEAD_VEHICLE_MEASURED_DISTANCE}"

lemma ordinary_get:
  "ordinary (pv_prop v) \<Longrightarrow> \<not> isHvacPropAndHvacNotAvailable (pv_prop v) (pv_areaId v) h \<Longrightarrow>
     getValue env v h = Some (readValue v (mServerSidePropStore h))"
  by (auto simp: getValue_def maybeGetSpecialValue_def Let_def ordinary_def)

lemma ordinary_set:
  "ordinary (pv_prop v) \<Longrightarrow> \<not> isHvacPropAndHvacNotAvailable (pv_prop v) (pv_areaId v) h \<Longrightarrow>
     setValue env v h = Some (storeWrite env v False ON_VALUE_CHANGE True h)"
  by (auto simp: setValue_def maybeSetSpecialValue_def setSpecialProperty_def sendAdasForSet_def Let_def
      ordinary_def case_prod_unfold)

lemma ordinary_refused:
  assumes "ordinary (pv_prop v)" "isHvacPropAndHvacNotAvailable (pv_prop v) (pv_areaId v) h"
  shows "getValue env v h = Some (Inl NOT_AVAILABLE_DISABLED)"
    and "setValue env v h = Some (Inl NOT_AVAILABLE_DISABLED, [], h)"
  using assms by (auto simp: getValue_def maybeGetSpecialValue_def setValue_def maybeSetSpecialValue_def Let_def ordinary_def)

lemma hvac_available_write:
  "pv_prop v \<noteq> HVAC_POWER_ON \<Longrightarrow>
     isHvacPropAndHvacNotAvailable p a (snd (snd (storeWrite env v u m c h))) = isHvacPropAndHvacNotAvailable p a h"
  using hw_frame_fields(1) [OF hw_frame_write [of h env v u m c]]
  by (simp add: isHvacPropAndHvacNotAvailable_def readValuesForProperty_other)

end
