(* ===== verification/Hvac_Power.thy ===== *)
theory Hvac_Power
  imports Special_Values
begin

text \<open>
  What a set of HVAC power does to the properties that depend on it, for the hardware of \<open>Special_Values\<close>,
  and a small hardware with two seats to try gets and sets on.
\<close>

section \<open>Switching HVAC power\<close>

text \<open>What \<open>sendHvacProperty\<close> writes for one property.\<close>

definition hvacUpdates :: "FakeEnv \<Rightarrow> int32 \<Rightarrow> int \<Rightarrow> FakeVehicleHardware \<Rightarrow> int32 \<Rightarrow> VehiclePropValue list" where
  "hvacUpdates env a x h p = (case getRecordLocked p (mServerSidePropStore h) of None \<Rightarrow> []
     | Some r \<Rightarrow> map (\<lambda>u. stampedNow env (u\<lparr>pv_status := (if x \<noteq> 0 then AVAILABLE else UNAVAILABLE)\<rparr>))
         (filter (\<lambda>u. pv_areaId u AND a = pv_areaId u) (map snd (rec_values r))))"

lemma sendHvacProperty_writes:
  "sendHvacProperty env a x p acc = fold (silentWrite env) (hvacUpdates env a x (snd acc) p) acc"
proof -
  have "fold (\<lambda>v (es, h). if pv_areaId v AND a = pv_areaId v
         then (case storeWrite env (stampedNow env (v\<lparr>pv_status := st\<rparr>)) True ALWAYS False h of
                 (_, es', h') \<Rightarrow> (es @ es', h'))
         else (es, h)) vs acc =
      fold (silentWrite env) (map (\<lambda>u. stampedNow env (u\<lparr>pv_status := st\<rparr>))
         (filter (\<lambda>u. pv_areaId u AND a = pv_areaId u) vs)) acc" for st vs
    by (induction vs arbitrary: acc) (simp_all add: silentWrite_def split: prod.splits)
  then show ?thesis
    unfolding sendHvacProperty_def hvacUpdates_def readValuesForProperty_def
    by (cases "getRecordLocked p (mServerSidePropStore (snd acc))") simp_all
qed

lemma sendHvac_writes:
  assumes "distinct ps" "\<And>p r rid u. p \<in> set ps \<Longrightarrow> getRecordLocked p (mServerSidePropStore h) = Some r \<Longrightarrow>
      (rid, u) \<in> set (rec_values r) \<Longrightarrow> pv_prop u = p"
  shows "fold (sendHvacProperty env a x) ps (es, h) =
    fold (silentWrite env) (concat (map (hvacUpdates env a x h) ps)) (es, h)"
  using assms
proof (induction ps arbitrary: es h)
  case (Cons p ps)
  define acc where "acc = sendHvacProperty env a x p (es, h)"
  have acc: "acc = fold (silentWrite env) (hvacUpdates env a x h p) (es, h)"
    by (simp add: acc_def sendHvacProperty_writes)
  have only: "pv_prop ` set (hvacUpdates env a x h p) \<subseteq> {p}"
  proof (cases "getRecordLocked p (mServerSidePropStore h)")
    case (Some r)
    show ?thesis using Cons.prems(2) [OF _ Some] by (auto simp: hvacUpdates_def Some)
  qed (simp add: hvacUpdates_def)
  have same: "getRecordLocked q (mServerSidePropStore (snd acc)) = getRecordLocked q (mServerSidePropStore h)"
    if "q \<in> set ps" for q
    using silentWrites_record [of q "hvacUpdates env a x h p" env "(es, h)"] only that Cons.prems(1) by (auto simp: acc)
  then have eq: "map (hvacUpdates env a x (snd acc)) ps = map (hvacUpdates env a x h) ps"
    by (simp add: hvacUpdates_def)
  have "fold (sendHvacProperty env a x) ps (fst acc, snd acc) =
      fold (silentWrite env) (concat (map (hvacUpdates env a x (snd acc)) ps)) (fst acc, snd acc)"
    by (rule Cons.IH) (use Cons.prems same in auto)
  then show ?case unfolding eq by (simp add: acc_def [symmetric] acc [symmetric])
qed simp

definition hvac_ready :: "FakeEnv \<Rightarrow> FakeVehicleHardware \<Rightarrow> bool" where
  "hvac_ready env h \<longleftrightarrow> store_wf (mServerSidePropStore h) \<and> distinct (hvacPowerDependentProps h) \<and>
     HVAC_POWER_ON \<notin> set (hvacPowerDependentProps h) \<and>
     (\<forall>p \<in> set (HVAC_POWER_ON # hvacPowerDependentProps h).
        case getRecordLocked p (mServerSidePropStore h) of None \<Rightarrow> True
        | Some r \<Rightarrow> Option.is_none (rec_tokenFunction r) \<and>
            (\<forall>(rid, u) \<in> set (rec_values r). rid_token rid = 0 \<and> pv_timestamp u \<le> elapsedRealtimeNanoFor env (key_of u)))"

lemma hvac_ready_record:
  assumes "hvac_ready env h" "p \<in> insert HVAC_POWER_ON (set (hvacPowerDependentProps h))"
    and "getRecordLocked p (mServerSidePropStore h) = Some r"
  shows "rec_tokenFunction r = None"
    and "(rid, u) \<in> set (rec_values r) \<Longrightarrow> rid_token rid = 0 \<and> pv_timestamp u \<le> elapsedRealtimeNanoFor env (key_of u)"
proof -
  have "case getRecordLocked p (mServerSidePropStore h) of None \<Rightarrow> True
      | Some r \<Rightarrow> Option.is_none (rec_tokenFunction r) \<and>
          (\<forall>(rid, u) \<in> set (rec_values r). rid_token rid = 0 \<and> pv_timestamp u \<le> elapsedRealtimeNanoFor env (key_of u))"
    using assms(1,2) unfolding hvac_ready_def set_simps by blast
  then show "rec_tokenFunction r = None"
    and "(rid, u) \<in> set (rec_values r) \<Longrightarrow> rid_token rid = 0 \<and> pv_timestamp u \<le> elapsedRealtimeNanoFor env (key_of u)"
    by (auto simp: assms(3) Option.is_none_def)
qed

lemma hvac_ready_value:
  assumes "hvac_ready env h" "p \<in> insert HVAC_POWER_ON (set (hvacPowerDependentProps h))"
    and "getRecordLocked p (mServerSidePropStore h) = Some r" "(rid, u) \<in> set (rec_values r)"
  shows "hw_stored h p rid = Some u" "pv_prop u = p" "rid = RecordId (if isGlobalProp p then 0 else pv_areaId u) 0"
    "hw_rid h u = rid" "pv_timestamp u \<le> elapsedRealtimeNanoFor env (key_of u)"
    "isGlobalProp p \<or> getAreaConfigForValue u (rec_propConfig r) \<noteq> None"
proof -
  have wf: "store_wf (mServerSidePropStore h)" using assms(1) by (simp add: hvac_ready_def)
  have r: "rec_tokenFunction r = None" "rid_token rid = 0" "pv_timestamp u \<le> elapsedRealtimeNanoFor env (key_of u)"
    using hvac_ready_record [OF assms(1-3)] assms(4) by blast+
  have m: "map_of (rec_values r) rid = Some u"
    using store_wf_record [OF wf assms(3)] assms(4) by (simp add: umap_wf_in_set)
  note v = store_wf_values [OF wf assms(3) m]
  show "hw_stored h p rid = Some u" using m assms(3) by (simp add: hw_stored_def stored_def)
  show p: "pv_prop u = p" and "isGlobalProp p \<or> getAreaConfigForValue u (rec_propConfig r) \<noteq> None"
    using v by blast+
  show rid: "rid = RecordId (if isGlobalProp p then 0 else pv_areaId u) 0"
    using v r(2) by (cases rid) auto
  show "hw_rid h u = rid"
    using r(1) p assms(3) by (simp add: hw_rid_def record_id_def getRecordIdLocked_def rid)
  show "pv_timestamp u \<le> elapsedRealtimeNanoFor env (key_of u)" using r(3) .
qed

lemma hvacUpdates_elem:
  assumes "w \<in> set (hvacUpdates env a x h p)"
  obtains r rid u where "getRecordLocked p (mServerSidePropStore h) = Some r"
    "(rid, u) \<in> set (rec_values r)" "pv_areaId u AND a = pv_areaId u"
    "w = stampedNow env (u\<lparr>pv_status := (if x \<noteq> 0 then AVAILABLE else UNAVAILABLE)\<rparr>)"
proof (cases "getRecordLocked p (mServerSidePropStore h)")
  case (Some r)
  then show ?thesis using assms that [OF Some] by (auto simp: hvacUpdates_def)
qed (use assms in \<open>simp add: hvacUpdates_def\<close>)

lemma hvac_updates_elem:
  assumes "w \<in> set (concat (map (hvacUpdates env a x h) ps))"
  obtains p r rid u where "p \<in> set ps" "getRecordLocked p (mServerSidePropStore h) = Some r"
    "(rid, u) \<in> set (rec_values r)" "pv_areaId u AND a = pv_areaId u"
    "w = stampedNow env (u\<lparr>pv_status := (if x \<noteq> 0 then AVAILABLE else UNAVAILABLE)\<rparr>)"
  using assms by (auto elim: hvacUpdates_elem)

lemma stamped_status [simp]:
  "pv_prop (stampedNow env (u\<lparr>pv_status := st\<rparr>)) = pv_prop u" "key_of (u\<lparr>pv_status := st\<rparr>) = key_of u"
  by (simp_all add: key_of_def)

lemma hw_rid_status:
  assumes "getRecordLocked (pv_prop u) (mServerSidePropStore h) = Some r" "rec_tokenFunction r = None"
  shows "hw_rid h (stampedNow env (u\<lparr>pv_status := st\<rparr>)) = hw_rid h u"
  using assms by (simp add: hw_rid_def record_id_def getRecordIdLocked_def)

lemma distinct_keys_concat:
  assumes "distinct ps" "\<And>p. p \<in> set ps \<Longrightarrow> distinct (map k (f p))"
    and "\<And>p w. p \<in> set ps \<Longrightarrow> w \<in> set (f p) \<Longrightarrow> fst (k w) = p"
  shows "distinct (map k (concat (map f ps)))"
  using assms
proof (induction ps)
  case (Cons p ps)
  have "distinct (map k (concat (map f ps)))" by (rule Cons.IH) (use Cons.prems in auto)
  moreover have "k w \<noteq> k w'" if "w \<in> set (f p)" "q \<in> set ps" "w' \<in> set (f q)" for w w' q
    using Cons.prems(1) Cons.prems(3) [of p w] Cons.prems(3) [of q w'] that by auto
  then have "k ` set (f p) \<inter> k ` (\<Union>q \<in> set ps. set (f q)) = {}" by blast
  ultimately show ?case using Cons.prems(2) [of p] by simp
qed simp

lemma hvac_update_key:
  assumes "hvac_ready env h" "p \<in> set (hvacPowerDependentProps h)"
    and "getRecordLocked p (mServerSidePropStore h) = Some r" "(rid, u) \<in> set (rec_values r)"
  shows "hw_key h (stampedNow env (u\<lparr>pv_status := st\<rparr>)) = (p, rid)"
proof -
  note t = hvac_ready_record(1) [OF assms(1) insertI2 [OF assms(2)] assms(3)]
  note v = hvac_ready_value [OF assms(1) insertI2 [OF assms(2)] assms(3,4)]
  show ?thesis using hw_rid_status [of u h r env st] t v(2,4) assms(3) by (simp add: hw_key_def)
qed

lemma hvac_updates_accepted:
  assumes "hvac_ready env h" "w \<in> set (concat (map (hvacUpdates env a x h) (hvacPowerDependentProps h)))"
  shows "hw_accepts h w"
proof -
  obtain p r rid u where e: "p \<in> set (hvacPowerDependentProps h)" "getRecordLocked p (mServerSidePropStore h) = Some r"
    "(rid, u) \<in> set (rec_values r)" "pv_areaId u AND a = pv_areaId u"
    "w = stampedNow env (u\<lparr>pv_status := (if x \<noteq> 0 then AVAILABLE else UNAVAILABLE)\<rparr>)"
    by (rule hvac_updates_elem [OF assms(2)])
  note v = hvac_ready_value [OF assms(1) insertI2 [OF e(1)] e(2,3)]
  have "hw_key h w = (p, rid)" unfolding e(5) by (rule hvac_update_key [OF assms(1) e(1-3)])
  then have rid: "hw_rid h w = rid" by (simp add: hw_key_def)
  have "getAreaConfigForValue w (rec_propConfig r) = getAreaConfigForValue u (rec_propConfig r)"
    "pv_prop w = p" "pv_timestamp w = elapsedRealtimeNanoFor env (key_of u)"
    using v(2) by (simp_all add: e(5) getAreaConfigForValue_def)
  then show ?thesis
    using v(1,5,6) e(2) rid by (simp add: hw_accepts_iff getPropConfig_def)
qed

lemma hvac_updates_distinct:
  assumes "hvac_ready env h"
  shows "distinct (map (hw_key h) (concat (map (hvacUpdates env a x h) (hvacPowerDependentProps h))))"
proof (rule distinct_keys_concat)
  show "distinct (hvacPowerDependentProps h)" using assms by (simp add: hvac_ready_def)
  fix p assume p: "p \<in> set (hvacPowerDependentProps h)"
  show "distinct (map (hw_key h) (hvacUpdates env a x h p))"
  proof (cases "getRecordLocked p (mServerSidePropStore h)")
    case (Some r)
    define st where "st = (if x \<noteq> 0 then AVAILABLE else UNAVAILABLE)"
    define vs where "vs = filter (\<lambda>(rid, u). pv_areaId u AND a = pv_areaId u) (rec_values r)"
    have "hvacUpdates env a x h p = map (\<lambda>(rid, u). stampedNow env (u\<lparr>pv_status := st\<rparr>)) vs"
      by (simp add: hvacUpdates_def Some st_def vs_def filter_map case_prod_unfold comp_def)
    moreover have "map (hw_key h \<circ> (\<lambda>(rid, u). stampedNow env (u\<lparr>pv_status := st\<rparr>))) vs = map (\<lambda>(rid, u). (p, rid)) vs"
      by (rule map_cong) (auto simp: vs_def hvac_update_key [OF assms p Some])
    ultimately have keys: "map (hw_key h) (hvacUpdates env a x h p) = map (\<lambda>(rid, u). (p, rid)) vs"
      by (simp only: map_map)
    have "distinct (map fst (rec_values r))"
      using assms store_wf_record [OF _ Some] by (simp add: hvac_ready_def umap_wf_def)
    then have "distinct (map fst vs)" by (simp add: vs_def distinct_map_filter)
    then have "distinct (map (Pair p) (map fst vs))"
      by (subst distinct_map) (simp add: inj_on_def)
    then have "distinct (map (\<lambda>(rid, u). (p, rid)) vs)" by (simp add: case_prod_unfold comp_def)
    then show ?thesis by (simp only: keys)
  qed (simp add: hvacUpdates_def)
  fix w assume "w \<in> set (hvacUpdates env a x h p)"
  then show "fst (hw_key h w) = p"
    by (rule hvacUpdates_elem) (use hvac_ready_value(2) [OF assms insertI2 [OF p]] in \<open>simp add: hw_key_def\<close>)
qed


text \<open>A set of HVAC power: the dependent properties are written, then the value itself.\<close>

lemma set_hvac_power:
  assumes "hvac_ready env h" "pv_prop v = HVAC_POWER_ON" "int32Values (pv_value v) = [x]"
  defines "us \<equiv> concat (map (hvacUpdates env (pv_areaId v) x h) (hvacPowerDependentProps h))"
  shows "setValue env v h = (case fold (silentWrite env) us ([], h) of (es, h1) \<Rightarrow>
    Some (case storeWrite env v False ON_VALUE_CHANGE True h1 of (r, es', h2) \<Rightarrow> (r, es @ es', h2)))"
proof -
  have "fold (sendHvacProperty env (pv_areaId v) x) (hvacPowerDependentProps h) ([], h) = fold (silentWrite env) us ([], h)"
    unfolding us_def
    by (rule sendHvac_writes) (use assms(1) hvac_ready_value(2) [OF assms(1)] in \<open>auto simp: hvac_ready_def\<close>)
  moreover have "HVAC_POWER_ON \<notin> set (hvacPowerDependentProps h)" using assms(1) by (simp add: hvac_ready_def)
  moreover have "\<not> isVendorTestProperty HVAC_POWER_ON" "\<not> isSupported HVAC_POWER_ON"
    "Option.is_none (map_of mAdasEnabledPropToAdasPropWithErrorState HVAC_POWER_ON)"
    "HVAC_POWER_ON \<noteq> DISPLAY_BRIGHTNESS" "HVAC_POWER_ON \<noteq> PER_DISPLAY_BRIGHTNESS" "HVAC_POWER_ON \<noteq> AP_POWER_STATE_REPORT"
    "HVAC_POWER_ON \<noteq> SHUTDOWN_REQUEST" "HVAC_POWER_ON \<noteq> VEHICLE_MAP_SERVICE" "HVAC_POWER_ON \<noteq> OBD2_FREEZE_FRAME_CLEAR"
    "HVAC_POWER_ON \<noteq> VENDOR_PROPERTY_FOR_ERROR_CODE_TESTING"
    by code_simp+
  ultimately show ?thesis
    using assms(2,3)
    by (simp add: setValue_def maybeSetSpecialValue_def setSpecialProperty_def sendAdasForSet_def Let_def
        isHvacPropAndHvacNotAvailable_def sendHvacPropertiesCurrentValues_def Option.is_none_def split: prod.splits)
qed


lemma hvac_power_stored:
  assumes ready: "hvac_ready env h" and v: "pv_prop v = HVAC_POWER_ON" "int32Values (pv_value v) = [x]"
    and set: "setValue env v h = Some (r, es, h')"
  shows "p \<in> set (hvacPowerDependentProps h) \<Longrightarrow> hw_stored h p rid = Some u \<Longrightarrow> hw_stored h' p rid =
      Some (if pv_areaId u AND pv_areaId v = pv_areaId u
            then stampedNow env (u\<lparr>pv_status := (if x \<noteq> 0 then AVAILABLE else UNAVAILABLE)\<rparr>) else u)"
    and "p \<notin> set (hvacPowerDependentProps h) \<Longrightarrow> p \<noteq> HVAC_POWER_ON \<Longrightarrow> hw_stored h' p rid = hw_stored h p rid"
    and "hvacPowerDependentProps h' = hvacPowerDependentProps h"
proof -
  define us where "us = concat (map (hvacUpdates env (pv_areaId v) x h) (hvacPowerDependentProps h))"
  obtain es1 h1 where f: "fold (silentWrite env) us ([], h) = (es1, h1)" by fastforce
  obtain es2 where w: "storeWrite env v False ON_VALUE_CHANGE True h1 = (r, es2, h')"
    using set set_hvac_power [OF ready v, folded us_def] by (auto simp: f split: prod.splits)
  have frame: "hw_rid h1 = hw_rid h" "hvacPowerDependentProps h1 = hvacPowerDependentProps h"
    using silentWrites_frame(1,2) [of env us "([], h)"] by (auto simp: f)
  have last: "hw_stored h' q rid = hw_stored h1 q rid" if "q \<noteq> HVAC_POWER_ON" for q rid
    using write_other [of q rid h1 True env v False ON_VALUE_CHANGE] that v(1) by (simp add: w hw_key_def)
  have "distinct (map (hw_key h) us)" "\<forall>w \<in> set us. hw_accepts h w"
    using hvac_updates_distinct [OF ready] hvac_updates_accepted [OF ready] unfolding us_def by blast+
  note writes = silentWrites [OF this, where env = env and es = "[]", unfolded f snd_conv]
  show "hvacPowerDependentProps h' = hvacPowerDependentProps h"
    using hw_frame_fields(1) [OF hw_frame_write [of h1 env v False ON_VALUE_CHANGE True]] by (simp add: w frame)
  show "hw_stored h' p rid = hw_stored h p rid" if "p \<notin> set (hvacPowerDependentProps h)" "p \<noteq> HVAC_POWER_ON"
  proof -
    have "(p, rid) \<notin> hw_key h ` set us"
    proof
      assume "(p, rid) \<in> hw_key h ` set us"
      then obtain w where w: "w \<in> set us" "pv_prop w = p" by (auto simp: hw_key_def)
      obtain q rq rid2 u2 where e: "q \<in> set (hvacPowerDependentProps h)" "getRecordLocked q (mServerSidePropStore h) = Some rq"
        "(rid2, u2) \<in> set (rec_values rq)" "pv_areaId u2 AND pv_areaId v = pv_areaId u2"
        "w = stampedNow env (u2\<lparr>pv_status := (if x \<noteq> 0 then AVAILABLE else UNAVAILABLE)\<rparr>)"
        by (rule hvac_updates_elem [OF w(1) [unfolded us_def]])
      show False using that(1) hvac_ready_value(2) [OF ready insertI2 [OF e(1)] e(2,3)] e(1,5) w(2) by simp
    qed
    then show ?thesis using writes(2) last [OF that(2)] by simp
  qed
  assume p: "p \<in> set (hvacPowerDependentProps h)" and u: "hw_stored h p rid = Some u"
  obtain rec where rec: "getRecordLocked p (mServerSidePropStore h) = Some rec" "map_of (rec_values rec) rid = Some u"
    using u by (auto simp: hw_stored_def stored_def split: option.splits)
  have mem: "(rid, u) \<in> set (rec_values rec)" using rec(2) by (rule map_of_SomeD)
  note uv = hvac_ready_value [OF ready insertI2 [OF p] rec(1) mem]
  have ne: "p \<noteq> HVAC_POWER_ON" using ready p by (auto simp: hvac_ready_def)
  define u' where "u' = stampedNow env (u\<lparr>pv_status := (if x \<noteq> 0 then AVAILABLE else UNAVAILABLE)\<rparr>)"
  have key: "hw_key h u' = (p, rid)" unfolding u'_def by (rule hvac_update_key [OF ready p rec(1) mem])
  show "hw_stored h' p rid = Some (if pv_areaId u AND pv_areaId v = pv_areaId u then u' else u)"
  proof (cases "pv_areaId u AND pv_areaId v = pv_areaId u")
    case True
    have "u' \<in> set (hvacUpdates env (pv_areaId v) x h p)"
      using mem True by (force simp: hvacUpdates_def rec u'_def)
    then have "u' \<in> set us" using p by (auto simp: us_def)
    from writes(1) [OF this] show ?thesis using key last [OF ne] True by (simp add: hw_key_def)
  next
    case False
    have "(p, rid) \<notin> hw_key h ` set us"
    proof
      assume "(p, rid) \<in> hw_key h ` set us"
      then obtain w where w: "w \<in> set us" "hw_key h w = (p, rid)" by auto
      obtain q rq rid2 u2 where e: "q \<in> set (hvacPowerDependentProps h)" "getRecordLocked q (mServerSidePropStore h) = Some rq"
        "(rid2, u2) \<in> set (rec_values rq)" "pv_areaId u2 AND pv_areaId v = pv_areaId u2"
        "w = stampedNow env (u2\<lparr>pv_status := (if x \<noteq> 0 then AVAILABLE else UNAVAILABLE)\<rparr>)"
        by (rule hvac_updates_elem [OF w(1) [unfolded us_def]])
      have "(q, rid2) = (p, rid)"
        using hvac_update_key [OF ready e(1-3)] w(2) by (simp add: e(5))
      then have "u2 = u" using hvac_ready_value(1) [OF ready insertI2 [OF e(1)] e(2,3)] u by simp
      then show False using e(4) False by simp
    qed
    then show ?thesis using writes(2) u last [OF ne] False by simp
  qed
qed


text \<open>A set changes only the value of its own area, if it is accepted, and nothing of HVAC power otherwise.\<close>

lemma hvac_power_record:
  assumes ready: "hvac_ready env h" and v: "pv_prop v = HVAC_POWER_ON" "int32Values (pv_value v) = [x]"
    and set: "setValue env v h = Some (r, es, h')"
  shows "r \<noteq> Inr () \<Longrightarrow>
      getRecordLocked HVAC_POWER_ON (mServerSidePropStore h') = getRecordLocked HVAC_POWER_ON (mServerSidePropStore h)"
    and "r = Inr () \<Longrightarrow> \<exists>rec v'. getRecordLocked HVAC_POWER_ON (mServerSidePropStore h) = Some rec \<and>
      getRecordLocked HVAC_POWER_ON (mServerSidePropStore h') =
        Some (rec\<lparr>rec_values := umap_put (RecordId (pv_areaId v) 0) v' (rec_values rec)\<rparr>) \<and>
      pv_areaId v' = pv_areaId v \<and> int32Values (pv_value v') = [x]"
proof -
  define us where "us = concat (map (hvacUpdates env (pv_areaId v) x h) (hvacPowerDependentProps h))"
  obtain es1 h1 where f: "fold (silentWrite env) us ([], h) = (es1, h1)" by fastforce
  obtain es2 where w: "storeWrite env v False ON_VALUE_CHANGE True h1 = (r, es2, h')"
    using set set_hvac_power [OF ready v, folded us_def] by (auto simp: f split: prod.splits)
  define now where "now = elapsedRealtimeNanoFor env (key_of v)"
  have "HVAC_POWER_ON \<notin> pv_prop ` set us"
  proof
    assume "HVAC_POWER_ON \<in> pv_prop ` set us"
    then obtain w where w: "w \<in> set us" "pv_prop w = HVAC_POWER_ON" by auto
    obtain q rq rid2 u2 where e: "q \<in> set (hvacPowerDependentProps h)" "getRecordLocked q (mServerSidePropStore h) = Some rq"
      "(rid2, u2) \<in> set (rec_values rq)" "pv_areaId u2 AND pv_areaId v = pv_areaId u2"
      "w = stampedNow env (u2\<lparr>pv_status := (if x \<noteq> 0 then AVAILABLE else UNAVAILABLE)\<rparr>)"
      by (rule hvac_updates_elem [OF w(1) [unfolded us_def]])
    show False
      using ready hvac_ready_value(2) [OF ready insertI2 [OF e(1)] e(2,3)] e(1,5) w(2) by (auto simp: hvac_ready_def)
  qed
  from silentWrites_record [OF this, of env "([], h)"]
  have same: "getRecordLocked HVAC_POWER_ON (mServerSidePropStore h1) = getRecordLocked HVAC_POWER_ON (mServerSidePropStore h)"
    by (simp add: f)
  show "getRecordLocked HVAC_POWER_ON (mServerSidePropStore h') = getRecordLocked HVAC_POWER_ON (mServerSidePropStore h)"
    if "r \<noteq> Inr ()"
  proof -
    have "\<not> hw_accepts h1 (stampedNow env v)"
      using that write_ordinary(1) [of h1 env v ON_VALUE_CHANGE] by (auto simp: w)
    from write_refused [OF this, of False ON_VALUE_CHANGE] show ?thesis by (simp add: w same)
  qed
  assume "r = Inr ()"
  have acc: "accepts (mServerSidePropStore h1) (stamped now True v)"
  proof (rule ccontr)
    assume "\<not> accepts (mServerSidePropStore h1) (stamped now True v)"
    from writeValue_rejected [OF this] w \<open>r = Inr ()\<close> show False by (simp add: storeWrite_def now_def)
  qed
  then obtain rec where rec: "getRecordLocked HVAC_POWER_ON (mServerSidePropStore h) = Some rec"
    using accepts_record [OF acc] v(1) by (auto simp: same)
  define v' where "v' = written now v False True (mServerSidePropStore h1)"
  note t = hvac_ready_record(1) [OF ready insertI1 rec]
  have rid: "record_id (mServerSidePropStore h1) (v\<lparr>pv_timestamp := now\<rparr>) = RecordId (pv_areaId v) 0"
  proof -
    have "\<not> isGlobalProp HVAC_POWER_ON" by code_simp
    then show ?thesis using rec t v(1) by (simp add: record_id_def getRecordIdLocked_def same)
  qed
  have "getRecordLocked (pv_prop (stamped now True v)) (mServerSidePropStore h1) = Some rec" using rec v(1) by (simp add: same)
  from writeValue_accepted_eq [OF acc this, of now False ON_VALUE_CHANGE]
  have "snd (snd (writeValue now v False ON_VALUE_CHANGE True (mServerSidePropStore h1))) = putRecord HVAC_POWER_ON
      (rec\<lparr>rec_values := umap_put (RecordId (pv_areaId v) 0) v' (rec_values rec)\<rparr>) (mServerSidePropStore h1)"
    using v(1) rid by (subst writeValue_stamped) (simp add: v'_def written_def Let_def)
  moreover have "mServerSidePropStore h' = snd (snd (writeValue now v False ON_VALUE_CHANGE True (mServerSidePropStore h1)))"
    using storeWrite_store(2) [of env v False ON_VALUE_CHANGE True h1] by (simp add: w now_def)
  ultimately have "getRecordLocked HVAC_POWER_ON (mServerSidePropStore h') =
      Some (rec\<lparr>rec_values := umap_put (RecordId (pv_areaId v) 0) v' (rec_values rec)\<rparr>)" by simp
  moreover have "pv_areaId v' = pv_areaId v" and "int32Values (pv_value v') = [x]" using v(2) by (simp_all add: v'_def)
  ultimately show "\<exists>rec v'. getRecordLocked HVAC_POWER_ON (mServerSidePropStore h) = Some rec \<and>
      getRecordLocked HVAC_POWER_ON (mServerSidePropStore h') =
        Some (rec\<lparr>rec_values := umap_put (RecordId (pv_areaId v) 0) v' (rec_values rec)\<rparr>) \<and>
      pv_areaId v' = pv_areaId v \<and> int32Values (pv_value v') = [x]"
    using rec by blast
qed

lemma find_put_other:
  "(\<And>u. map_of m k = Some u \<Longrightarrow> \<not> P u) \<Longrightarrow> \<not> P v \<Longrightarrow> find P (map snd (umap_put k v m)) = find P (map snd m)"
  by (induction m) (auto simp: umap_put_def split: if_splits)

text \<open>Whether HVAC is off in an area after the set: the set decides for the areas that its power switch alone covers.\<close>

lemma hvac_power_values:
  assumes ready: "hvac_ready env h" and v: "pv_prop v = HVAC_POWER_ON" "int32Values (pv_value v) = [x]"
    and set: "setValue env v h = Some (r, es, h')"
    and only: "\<And>vs u. pv_areaId v AND a = a \<Longrightarrow> readValuesForProperty HVAC_POWER_ON (mServerSidePropStore h) = Inr vs \<Longrightarrow>
      u \<in> set vs \<Longrightarrow> pv_areaId u AND a = a \<Longrightarrow> pv_areaId u = pv_areaId v"
  shows "isHvacPropAndHvacNotAvailable p a h' \<longleftrightarrow>
    (if r = Inr () \<and> pv_areaId v AND a = a then p \<in> set (hvacPowerDependentProps h) \<and> x = 0
     else isHvacPropAndHvacNotAvailable p a h)"
proof (cases "r = Inr ()")
  case False
  then show ?thesis
    using hvac_power_record(1) [OF ready v set] hvac_power_stored(3) [OF ready v set]
    by (simp add: isHvacPropAndHvacNotAvailable_def readValuesForProperty_def)
next
  case True
  obtain rec v' where rec: "getRecordLocked HVAC_POWER_ON (mServerSidePropStore h) = Some rec"
      "getRecordLocked HVAC_POWER_ON (mServerSidePropStore h') =
        Some (rec\<lparr>rec_values := umap_put (RecordId (pv_areaId v) 0) v' (rec_values rec)\<rparr>)"
    and v': "pv_areaId v' = pv_areaId v" "int32Values (pv_value v') = [x]"
    using hvac_power_record(2) [OF ready v set True] by blast
  let ?vs = "map snd (umap_put (RecordId (pv_areaId v) 0) v' (rec_values rec))"
  have vs: "readValuesForProperty HVAC_POWER_ON (mServerSidePropStore h') = Inr ?vs"
    "readValuesForProperty HVAC_POWER_ON (mServerSidePropStore h) = Inr (map snd (rec_values rec))"
    using rec by (simp_all add: readValuesForProperty_def)
  have wf: "umap_wf (rec_values rec)" using ready store_wf_record [OF _ rec(1)] by (simp add: hvac_ready_def)
  have key: "k = RecordId (pv_areaId u) 0" if "(k, u) \<in> set (rec_values rec)" for k u
  proof -
    have "\<not> isGlobalProp HVAC_POWER_ON" by code_simp
    then show ?thesis using hvac_ready_value(3) [OF ready insertI1 rec(1) that] by simp
  qed
  show ?thesis
  proof (cases "pv_areaId v AND a = a")
    case covered: True
    have "find (\<lambda>u. pv_areaId u AND a = a) ?vs = Some v'"
    proof (rule find_unique)
      show "v' \<in> set ?vs" by (force simp: set_umap_put [OF wf])
      show "pv_areaId v' AND a = a" using covered by (simp add: v')
      fix u assume u: "u \<in> set ?vs" "pv_areaId u AND a = a"
      show "u = v'"
      proof (rule ccontr)
        assume "u \<noteq> v'"
        then obtain k where k: "(k, u) \<in> set (rec_values rec)" "k \<noteq> RecordId (pv_areaId v) 0"
          using u(1) by (auto simp: set_umap_put [OF wf])
        have "u \<in> set (map snd (rec_values rec))" using k(1) by force
        from only [OF covered vs(2) this u(2)] key [OF k(1)] k(2) show False by simp
      qed
    qed
    then show ?thesis
      using v'(2) hvac_power_stored(3) [OF ready v set] True covered
      by (auto simp: isHvacPropAndHvacNotAvailable_def vs)
  next
    case False
    have "find (\<lambda>u. pv_areaId u AND a = a) ?vs = find (\<lambda>u. pv_areaId u AND a = a) (map snd (rec_values rec))"
      by (rule find_put_other) (use False v'(1) key in \<open>auto dest!: map_of_SomeD key\<close>)
    then show ?thesis
      using hvac_power_stored(3) [OF ready v set] False by (simp add: isHvacPropAndHvacNotAvailable_def vs)
  qed
qed

section \<open>Gets and sets of the dependent properties\<close>

text \<open>
  The properties that HVAC power is configured to switch: all of them are ordinary but the temperature, whose set is also
  written to the other seats when their temperatures are synchronized.
\<close>

definition powered :: "int32 \<Rightarrow> bool" where
  "powered p \<longleftrightarrow> ordinary p \<or> p = HVAC_TEMPERATURE_SET"

text \<open>
  \<^verbatim>\<open>HVAC_ACTUAL_FAN_SPEED_RPM\<close>, \<^verbatim>\<open>HVAC_AC_ON\<close>, \<^verbatim>\<open>HVAC_AUTO_ON\<close>, \<^verbatim>\<open>HVAC_AUTO_RECIRC_ON\<close>, \<^verbatim>\<open>HVAC_FAN_DIRECTION\<close>,
  \<^verbatim>\<open>HVAC_FAN_SPEED\<close>, \<^verbatim>\<open>HVAC_MAX_AC_ON\<close>, \<^verbatim>\<open>HVAC_RECIRC_ON\<close>, \<^verbatim>\<open>HVAC_TEMPERATURE_CURRENT\<close> and \<^verbatim>\<open>HVAC_TEMPERATURE_SET\<close>:
  the configuration array of HVAC power in \<^verbatim>\<open>DefaultProperties.json\<close>.
\<close>

lemma configured_powered:
  "list_all powered [0x1540050f, 0x15200505, 0x1520050a, 0x15200512, 0x15400501, 0x15400500, 0x15200506, 0x15200508,
     0x15600502, 0x15600503]"
  by code_simp

definition poweredSet :: "FakeEnv \<Rightarrow> VehiclePropValue \<Rightarrow> FakeVehicleHardware \<Rightarrow> Written option" where
  "poweredSet env w h =
     (if pv_prop w = HVAC_TEMPERATURE_SET
      then (case floatValues (pv_value w) of
              [t] \<Rightarrow> (case getSyncedAreaIdIfHvacDualOn (pv_areaId w) h of
                  Some a \<Rightarrow> synchronizeHvacTemp env a (Some t) h
                | None \<Rightarrow> Some (storeWrite env w False ON_VALUE_CHANGE True h))
            | _ \<Rightarrow> Some (Inl INVALID_ARG, [], h))
      else Some (storeWrite env w False ON_VALUE_CHANGE True h))"

lemma temperature_distinct:
  "\<not> isVendorTestProperty HVAC_TEMPERATURE_SET" "\<not> isSupported HVAC_TEMPERATURE_SET"
  "\<not> isClusterTestProperty HVAC_TEMPERATURE_SET"
  "Option.is_none (map_of mAdasEnabledPropToAdasPropWithErrorState HVAC_TEMPERATURE_SET)"
  "HVAC_TEMPERATURE_SET \<notin> set mPowerPropIds"
  "HVAC_TEMPERATURE_SET \<noteq> DISPLAY_BRIGHTNESS" "HVAC_TEMPERATURE_SET \<noteq> PER_DISPLAY_BRIGHTNESS"
  "HVAC_TEMPERATURE_SET \<noteq> AP_POWER_STATE_REPORT" "HVAC_TEMPERATURE_SET \<noteq> SHUTDOWN_REQUEST"
  "HVAC_TEMPERATURE_SET \<noteq> VEHICLE_MAP_SERVICE" "HVAC_TEMPERATURE_SET \<noteq> OBD2_FREEZE_FRAME_CLEAR"
  "HVAC_TEMPERATURE_SET \<noteq> OBD2_FREEZE_FRAME" "HVAC_TEMPERATURE_SET \<noteq> OBD2_FREEZE_FRAME_INFO"
  "HVAC_TEMPERATURE_SET \<noteq> ECHO_REVERSE_BYTES" "HVAC_TEMPERATURE_SET \<noteq> VENDOR_PROPERTY_FOR_ERROR_CODE_TESTING"
  "HVAC_TEMPERATURE_SET \<noteq> HVAC_POWER_ON" "HVAC_TEMPERATURE_SET \<noteq> HVAC_TEMPERATURE_VALUE_SUGGESTION"
  "HVAC_TEMPERATURE_SET \<noteq> CRUISE_CONTROL_TARGET_SPEED" "HVAC_TEMPERATURE_SET \<noteq> ADAPTIVE_CRUISE_CONTROL_TARGET_TIME_GAP"
  "HVAC_TEMPERATURE_SET \<noteq> ADAPTIVE_CRUISE_CONTROL_LEAD_VEHICLE_MEASURED_DISTANCE"
  by code_simp+

lemma powered_get:
  assumes "powered (pv_prop w)"
  shows "getValue env w h = Some (if isHvacPropAndHvacNotAvailable (pv_prop w) (pv_areaId w) h then Inl NOT_AVAILABLE_DISABLED
      else readValue w (mServerSidePropStore h))"
proof (cases "ordinary (pv_prop w)")
  case True
  then show ?thesis using ordinary_get [OF True, of h env] ordinary_refused(1) [OF True, of h env] by auto
next
  case False
  then have "pv_prop w = HVAC_TEMPERATURE_SET" using assms by (simp add: powered_def)
  then show ?thesis using temperature_distinct by (simp add: getValue_def maybeGetSpecialValue_def Let_def)
qed

lemma powered_set:
  assumes "powered (pv_prop w)"
  shows "setValue env w h = (if isHvacPropAndHvacNotAvailable (pv_prop w) (pv_areaId w) h
      then Some (Inl NOT_AVAILABLE_DISABLED, [], h) else poweredSet env w h)"
proof (cases "ordinary (pv_prop w)")
  case True
  then have "pv_prop w \<noteq> HVAC_TEMPERATURE_SET" by (auto simp: ordinary_def)
  then show ?thesis
    using ordinary_set [OF True, of h env] ordinary_refused(2) [OF True, of h env] by (auto simp: poweredSet_def)
next
  case False
  then have p: "pv_prop w = HVAC_TEMPERATURE_SET" using assms by (simp add: powered_def)
  have "sendAdasForSet env w h = ([], h)"
    using temperature_distinct(4) by (simp add: sendAdasForSet_def p Option.is_none_def)
  then show ?thesis
    using temperature_distinct
    by (auto simp: setValue_def maybeSetSpecialValue_def setSpecialProperty_def Let_def p poweredSet_def special_def
        option.map_comp comp_def case_prod_unfold split: list.split option.split)
qed

text \<open>
  Claim C22 (hvac_power_switch). Setting HVAC power to a number in an area gives every stored value of a dependent property within that
  area the status available or unavailable, stamped with the present, and leaves the other areas alone, whether or not the set itself succeeds.
  Afterwards every get and set of a dependent property is refused as disabled exactly when HVAC is off in its area: if the set
  succeeded and its area covers that one, and no power switch of another area does, when the number is 0; in an area that it
  does not cover, or if it failed, when it was off before. What is not refused is answered by the store, except that a set of the temperature
  needs exactly one number and, where the seats are synchronized, is written to all of them. This is said of the
  dependent properties that no other feature handles: all ten that are configured. The store is well formed, HVAC power does not depend
  on itself, and no value of it or of a dependent property is newer than the present or filed under a token (\<open>hvac_ready\<close>).
\<close>

theorem hvac_power_switch:
  assumes "hvac_ready env h" "pv_prop v = HVAC_POWER_ON" "int32Values (pv_value v) = [x]"
    and "setValue env v h = Some (r, es, h')"
  shows "(\<forall>p rid u. p \<in> set (hvacPowerDependentProps h) \<and> hw_stored h p rid = Some u \<longrightarrow> hw_stored h' p rid =
      Some (if pv_areaId u AND pv_areaId v = pv_areaId u
            then u\<lparr>pv_status := (if x \<noteq> 0 then AVAILABLE else UNAVAILABLE), pv_timestamp := elapsedRealtimeNanoFor env (key_of u)\<rparr>
            else u)) \<and>
    (\<forall>w off. pv_prop w \<in> set (hvacPowerDependentProps h) \<and> powered (pv_prop w) \<and>
        (pv_areaId v AND pv_areaId w = pv_areaId w \<longrightarrow>
           (\<forall>vs. readValuesForProperty HVAC_POWER_ON (mServerSidePropStore h) = Inr vs \<longrightarrow>
              (\<forall>u \<in> set vs. pv_areaId u AND pv_areaId w = pv_areaId w \<longrightarrow> pv_areaId u = pv_areaId v))) \<and>
        (off \<longleftrightarrow> (if r = Inr () \<and> pv_areaId v AND pv_areaId w = pv_areaId w then x = 0
                 else isHvacPropAndHvacNotAvailable (pv_prop w) (pv_areaId w) h)) \<longrightarrow>
      getValue env w h' = Some (if off then Inl NOT_AVAILABLE_DISABLED else readValue w (mServerSidePropStore h')) \<and>
      setValue env w h' = (if off then Some (Inl NOT_AVAILABLE_DISABLED, [], h') else poweredSet env w h'))"
proof (rule conjI)
  show "\<forall>p rid u. p \<in> set (hvacPowerDependentProps h) \<and> hw_stored h p rid = Some u \<longrightarrow> hw_stored h' p rid =
      Some (if pv_areaId u AND pv_areaId v = pv_areaId u
            then u\<lparr>pv_status := (if x \<noteq> 0 then AVAILABLE else UNAVAILABLE), pv_timestamp := elapsedRealtimeNanoFor env (key_of u)\<rparr>
            else u)"
    using hvac_power_stored(1) [OF assms(1-4)] by (simp add: stampedNow_def)
qed (use hvac_power_values [OF assms] in \<open>auto simp: powered_get powered_set\<close>)

text \<open>Two seats with HVAC power and a fan whose speed depends on it, all set up at time 1.\<close>

definition sample_area :: "int32 \<Rightarrow> VehicleAreaConfig" where
  "sample_area a = \<lparr>ac_areaId = a, ac_minInt32Value = 0, ac_maxInt32Value = 0, ac_minInt64Value = 0, ac_maxInt64Value = 0,
     ac_minFloatValue = FFin 0, ac_maxFloatValue = FFin 0, ac_access = READ_WRITE, ac_supportVariableUpdateRate = False,
     ac_hasSupportedValueInfo = None, ac_supportedEnumValues = None\<rparr>"

definition registerAreas :: "int32 \<Rightarrow> int32 list \<Rightarrow> StoreOp" where
  "registerAreas p areas = Register (sample_property\<lparr>pc_prop := p, pc_access := READ_WRITE,
     pc_areaConfigs := map sample_area areas\<rparr>) None"

definition intsAt :: "int32 \<Rightarrow> int32 \<Rightarrow> int list \<Rightarrow> VehiclePropValue" where
  "intsAt p a ints = \<lparr>pv_timestamp = 0, pv_areaId = a, pv_prop = p, pv_status = AVAILABLE,
     pv_value = raw_default\<lparr>int32Values := ints\<rparr>\<rparr>"

definition initially :: "VehiclePropValue \<Rightarrow> StoreOp" where
  "initially v = Write 1 v True NEVER True"

definition sample_env :: "int \<Rightarrow> FakeEnv" where
  "sample_env now = \<lparr>elapsedRealtimeNanoFor = \<lambda>_. now, pooledValue = createVehiclePropValueVec,
     isVehicleInUse = Some True, apPowerBootupReason = None\<rparr>"

definition fan_speed :: int32 where "fan_speed = 0x15400500"

definition climate_hardware :: FakeVehicleHardware where
  "climate_hardware = newFakeHardware\<lparr>hvacPowerDependentProps := [fan_speed], mServerSidePropStore :=
     fold run_store_op [registerAreas HVAC_POWER_ON [1, 4], registerAreas fan_speed [1, 4],
       initially (intsAt HVAC_POWER_ON 1 [1]), initially (intsAt HVAC_POWER_ON 4 [1]),
       initially (intsAt fan_speed 1 [3]), initially (intsAt fan_speed 4 [3])] emptyStore\<rparr>"

lemma sample_fields [simp]:
  "pv_prop (intsAt p a ints) = p" "pv_areaId (intsAt p a ints) = a" "pv_status (intsAt p a ints) = AVAILABLE"
  "int32Values (pv_value (intsAt p a ints)) = ints" "elapsedRealtimeNanoFor (sample_env now) k = now"
  "(intsAt p a ints)\<lparr>pv_timestamp := t, pv_status := AVAILABLE\<rparr> = (intsAt p a ints)\<lparr>pv_timestamp := t\<rparr>"
  by (simp_all add: intsAt_def sample_env_def)

lemma climate_ready: "hvac_ready (sample_env 5) climate_hardware"
proof -
  have "store_wf (mServerSidePropStore climate_hardware)"
    by (simp add: climate_hardware_def store_wf_runs store_wf_empty del: fold.simps fold_simps)
  moreover have "hvac_ready (sample_env 5) climate_hardware \<longleftrightarrow> store_wf (mServerSidePropStore climate_hardware) \<and> True"
    unfolding hvac_ready_def
    by (rule arg_cong [where f = "\<lambda>b. store_wf (mServerSidePropStore climate_hardware) \<and> b"]) code_simp
  ultimately show ?thesis by simp
qed

lemma climate_executable:
  "powered fan_speed" "ordinary fan_speed" "fan_speed \<in> set (hvacPowerDependentProps climate_hardware)"
  "pv_areaId (intsAt HVAC_POWER_ON 1 [0]) AND pv_areaId (intsAt fan_speed 1 []) = pv_areaId (intsAt fan_speed 1 [])"
  "case readValuesForProperty HVAC_POWER_ON (mServerSidePropStore climate_hardware) of Inl _ \<Rightarrow> True
   | Inr vs \<Rightarrow> list_all (\<lambda>u. pv_areaId u AND 1 = 1 \<longrightarrow> pv_areaId u = 1) vs"
  by code_simp+

definition afterwards :: "Written option \<Rightarrow> FakeVehicleHardware" where
  "afterwards w = snd (snd (the w))"

lemma written_ok:
  assumes "case w of Some (r, _, _) \<Rightarrow> \<not> isl r | None \<Rightarrow> False"
  shows "w = Some (Inr (), fst (snd (the w)), afterwards w)"
proof -
  obtain r es h where "w = Some (r, es, h)" using assms by (auto split: option.splits prod.splits)
  then show ?thesis using assms by (cases r) (simp_all add: afterwards_def)
qed

text \<open>Power off on one seat, then a request for its fan.\<close>

definition power_off :: "Written option" where
  "power_off = setValue (sample_env 5) (intsAt HVAC_POWER_ON 1 [0]) climate_hardware"

theorem hvac_power_switch_witness:
  "getValue (sample_env 5) (intsAt fan_speed 1 []) (afterwards power_off) = Some (Inl NOT_AVAILABLE_DISABLED) \<and>
   setValue (sample_env 5) (intsAt fan_speed 1 []) (afterwards power_off) =
     Some (Inl NOT_AVAILABLE_DISABLED, [], afterwards power_off)"
proof -
  have "power_off = Some (Inr (), fst (snd (the power_off)), afterwards power_off)"
    by (rule written_ok) code_simp
  note switch = hvac_power_switch [OF climate_ready, of "intsAt HVAC_POWER_ON 1 [0]" 0, OF _ _ this [unfolded power_off_def],
      folded power_off_def, THEN conjunct2, THEN spec, of "intsAt fan_speed 1 []", THEN spec, of True, THEN mp]
  show ?thesis
    using switch climate_executable by (simp add: list_all_iff split: sum.splits)
qed

text \<open>
  Setting an ordinary property succeeds exactly when the property has the area
  and no newer value; then a get returns the value that was set, with the time of the set and the status the
  area had, and every other ordinary property and area reads as before. A set that fails changes nothing.
\<close>

theorem ordinary_set_get:
  assumes "ordinary (pv_prop v)" "\<not> isHvacPropAndHvacNotAvailable (pv_prop v) (pv_areaId v) h"
    and "setValue env v h = Some (r, es, h')" and "hw_rid h v = hw_rid h (stampedNow env v)"
  shows "(r = Inr () \<longleftrightarrow> hw_accepts h (stampedNow env v)) \<and> (r \<noteq> Inr () \<longrightarrow> r = Inl INVALID_ARG \<and> es = [] \<and> h' = h) \<and>
    (r = Inr () \<longrightarrow> getValue env v h' = Some (Inr (v\<lparr>pv_timestamp := elapsedRealtimeNanoFor env (key_of v),
        pv_status := (case readValue v (mServerSidePropStore h) of Inr o' \<Rightarrow> pv_status o' | Inl _ \<Rightarrow> AVAILABLE)\<rparr>))) \<and>
    (\<forall>w. ordinary (pv_prop w) \<and> (pv_prop w, hw_rid h w) \<noteq> (pv_prop v, hw_rid h v) \<longrightarrow>
       getValue env w h' = getValue env w h)"
proof -
  have s: "storeWrite env v False ON_VALUE_CHANGE True h = (r, es, h')"
    using ordinary_set [OF assms(1,2)] assms(3) by simp
  have p: "pv_prop v \<noteq> HVAC_POWER_ON" using assms(1) by (simp add: ordinary_def)
  have hvac: "isHvacPropAndHvacNotAvailable q a h' = isHvacPropAndHvacNotAvailable q a h" for q a
    using hvac_available_write [OF p, of q a env False ON_VALUE_CHANGE True h] by (simp add: s)
  note get = ordinary_get [OF assms(1)]
  show ?thesis
  proof (cases "hw_accepts h (stampedNow env v)")
    case False
    then show ?thesis using write_refused [of h env v False ON_VALUE_CHANGE] s by simp
  next
    case True
    note w = write_ordinary [OF True, where m = ON_VALUE_CHANGE, unfolded s, simplified]
    have reg: "hw_registered h (pv_prop v)" "hw_registered h' q = hw_registered h q" for q
      using hw_accepts_registered [OF True] hw_registered_write [of env v False ON_VALUE_CHANGE True h q] by (simp_all add: s)
    have rid: "hw_rid h' u = hw_rid h u" for u
      using hw_rid_write [of env v False ON_VALUE_CHANGE True h u] by (simp add: s)
    have "getValue env v h' = Some (Inr (v\<lparr>pv_timestamp := elapsedRealtimeNanoFor env (key_of v),
        pv_status := (case readValue v (mServerSidePropStore h) of Inr o' \<Rightarrow> pv_status o' | Inl _ \<Rightarrow> AVAILABLE)\<rparr>))"
      using assms(2,4) reg w(2)
      by (simp add: get hvac readValue_stored rid stampedNow_def split: option.split)
    moreover have "getValue env u h' = getValue env u h"
      if "ordinary (pv_prop u)" "(pv_prop u, hw_rid h u) \<noteq> (pv_prop v, hw_rid h v)" for u
    proof -
      have "readValue u (mServerSidePropStore h') = readValue u (mServerSidePropStore h)"
        using w(3) that(2) assms(4) by (simp add: readValue_stored reg rid)
      then show ?thesis
        using that(1) hvac hw_frame_fields(1) [OF hw_frame_write [of h env v False ON_VALUE_CHANGE True]]
        by (auto simp: getValue_def maybeGetSpecialValue_def Let_def ordinary_def s)
    qed
    ultimately show ?thesis using True w(1) by blast
  qed
qed

text \<open>A set of the fan speed while the power is on, and the get that follows.\<close>

definition fan_set :: "Written option" where
  "fan_set = setValue (sample_env 5) (intsAt fan_speed 1 [2]) climate_hardware"

theorem ordinary_set_get_witness:
  "getValue (sample_env 5) (intsAt fan_speed 1 [2]) (afterwards fan_set) =
     Some (Inr ((intsAt fan_speed 1 [2])\<lparr>pv_timestamp := 5\<rparr>))"
proof -
  have ok: "fan_set = Some (Inr (), fst (snd (the fan_set)), afterwards fan_set)"
    by (rule written_ok) code_simp
  have "\<not> isHvacPropAndHvacNotAvailable fan_speed 1 climate_hardware"
    "hw_rid climate_hardware (intsAt fan_speed 1 [2]) = hw_rid climate_hardware (stampedNow (sample_env 5) (intsAt fan_speed 1 [2]))"
    "case readValue (intsAt fan_speed 1 [2]) (mServerSidePropStore climate_hardware) of Inr u \<Rightarrow> pv_status u = AVAILABLE | Inl _ \<Rightarrow> True"
    by code_simp+
  then show ?thesis
    using ordinary_set_get [of "intsAt fan_speed 1 [2]" climate_hardware "sample_env 5", OF _ _ ok [unfolded fan_set_def],
        folded fan_set_def] climate_executable(2)
    by (simp split: sum.splits)
qed

end
