(* ===== verification/Driver_Assistance.thy ===== *)
theory Driver_Assistance
  imports Hvac_Power
begin

text \<open>
  What enabling and disabling a driver assistance feature does to its state properties, and to cruise control,
  whose commands the hardware of \<open>Special_Values\<close> accepts or refuses by the states it has stored.
\<close>

section \<open>The state properties of a feature\<close>

abbreviation assistanceStates :: "int32 \<Rightarrow> int32 list" where
  "assistanceStates p \<equiv> umap_at [] p mAdasEnabledPropToAdasPropWithErrorState"

text \<open>The state that a dependent property gets: cruise control that is enabled is adaptive, its type is 2.\<close>

definition assistanceState :: "int \<Rightarrow> int32 \<Rightarrow> int" where
  "assistanceState state q = (if state = 1 \<and> q = CRUISE_CONTROL_TYPE then 2 else state)"

definition adasUpdates :: "FakeEnv \<Rightarrow> int \<Rightarrow> FakeVehicleHardware \<Rightarrow> int32 \<Rightarrow> VehiclePropValue list" where
  "adasUpdates env state h q = (case getPropConfig q (mServerSidePropStore h) of Inl _ \<Rightarrow> []
     | Inr config \<Rightarrow> map (\<lambda>ac. createAdasStateReq env q (ac_areaId ac) (assistanceState state q)) (pc_areaConfigs config))"

lemma createAdasStateReq_fields [simp]:
  "pv_prop (createAdasStateReq env q a state) = q" "pv_areaId (createAdasStateReq env q a state) = a"
  "pv_status (createAdasStateReq env q a state) = AVAILABLE"
  "pv_timestamp (createAdasStateReq env q a state) = elapsedRealtimeNanoFor env (PropIdAreaId q a)"
  "length (int32Values (pv_value (pooledValue env T_INT32 1))) = 1 \<Longrightarrow>
     int32Values (pv_value (createAdasStateReq env q a state)) = [state]"
  by (auto simp: createAdasStateReq_def Let_def key_of_def length_Suc_conv)

lemma sendAdasProperty_writes:
  "sendAdasProperty env state q acc = fold (silentWrite env) (adasUpdates env state (snd acc) q) acc"
proof -
  have "fold (\<lambda>ac (es, h). let hardcoded_state = (if state = 1 \<and> q = CRUISE_CONTROL_TYPE then 2 else state) in
         (case storeWrite env (createAdasStateReq env q (ac_areaId ac) hardcoded_state) True ALWAYS False h of
            (_, es', h') \<Rightarrow> (es @ es', h'))) acs acc =
      fold (silentWrite env) (map (\<lambda>ac. createAdasStateReq env q (ac_areaId ac) (assistanceState state q)) acs) acc" for acs
    by (induction acs arbitrary: acc) (simp_all add: silentWrite_def assistanceState_def Let_def split: prod.splits)
  then show ?thesis
    unfolding sendAdasProperty_def adasUpdates_def
    by (cases "getPropConfig q (mServerSidePropStore (snd acc))") (simp, simp only: sum.case)
qed

lemma adasUpdates_writes [simp]:
  "adasUpdates env state (snd (fold (silentWrite env) vs acc)) = adasUpdates env state (snd acc)"
  by (rule ext) (simp add: adasUpdates_def silentWrites_frame)

lemma sendAdas_writes:
  "fold (sendAdasProperty env state) qs acc = fold (silentWrite env) (concat (map (adasUpdates env state (snd acc)) qs)) acc"
  by (induction qs arbitrary: acc) (simp_all add: sendAdasProperty_writes)

definition adas_ready :: "FakeEnv \<Rightarrow> FakeVehicleHardware \<Rightarrow> int32 \<Rightarrow> bool" where
  "adas_ready env h p \<longleftrightarrow> length (int32Values (pv_value (pooledValue env T_INT32 1))) = 1 \<and>
     (\<forall>q \<in> set (assistanceStates p). case getRecordLocked q (mServerSidePropStore h) of None \<Rightarrow> True
      | Some r \<Rightarrow> Option.is_none (rec_tokenFunction r) \<and>
          (let areas = map ac_areaId (pc_areaConfigs (rec_propConfig r)) in
           if isGlobalProp q then areas = [0] else distinct areas) \<and>
          (\<forall>(rid, u) \<in> set (rec_values r). pv_timestamp u \<le> elapsedRealtimeNanoFor env (PropIdAreaId q (rid_area rid))))"

lemma adas_ready_record:
  assumes "adas_ready env h p" "q \<in> set (assistanceStates p)" "getRecordLocked q (mServerSidePropStore h) = Some r"
  shows "rec_tokenFunction r = None"
    and "isGlobalProp q \<Longrightarrow> map ac_areaId (pc_areaConfigs (rec_propConfig r)) = [0]"
    and "distinct (map ac_areaId (pc_areaConfigs (rec_propConfig r)))"
    and "map_of (rec_values r) rid = Some u \<Longrightarrow> pv_timestamp u \<le> elapsedRealtimeNanoFor env (PropIdAreaId q (rid_area rid))"
proof -
  have "case getRecordLocked q (mServerSidePropStore h) of None \<Rightarrow> True
      | Some r \<Rightarrow> Option.is_none (rec_tokenFunction r) \<and>
          (let areas = map ac_areaId (pc_areaConfigs (rec_propConfig r)) in
           if isGlobalProp q then areas = [0] else distinct areas) \<and>
          (\<forall>(rid, u) \<in> set (rec_values r). pv_timestamp u \<le> elapsedRealtimeNanoFor env (PropIdAreaId q (rid_area rid)))"
    using assms(1,2) unfolding adas_ready_def by blast
  then have r: "rec_tokenFunction r = None"
    "if isGlobalProp q then map ac_areaId (pc_areaConfigs (rec_propConfig r)) = [0]
     else distinct (map ac_areaId (pc_areaConfigs (rec_propConfig r)))"
    "\<forall>(rid, u) \<in> set (rec_values r). pv_timestamp u \<le> elapsedRealtimeNanoFor env (PropIdAreaId q (rid_area rid))"
    by (simp_all add: assms(3) Option.is_none_def Let_def)
  show "rec_tokenFunction r = None" by (rule r(1))
  show "isGlobalProp q \<Longrightarrow> map ac_areaId (pc_areaConfigs (rec_propConfig r)) = [0]"
    and "distinct (map ac_areaId (pc_areaConfigs (rec_propConfig r)))" using r(2) by (simp_all split: if_splits)
  show "map_of (rec_values r) rid = Some u \<Longrightarrow> pv_timestamp u \<le> elapsedRealtimeNanoFor env (PropIdAreaId q (rid_area rid))"
    using r(3) by (auto dest: map_of_SomeD)
qed

lemma adasUpdates_registered:
  "getRecordLocked q (mServerSidePropStore h) = Some r \<Longrightarrow> adasUpdates env state h q =
     map (\<lambda>a. createAdasStateReq env q a (assistanceState state q)) (map ac_areaId (pc_areaConfigs (rec_propConfig r)))"
  by (simp add: adasUpdates_def getPropConfig_def)

lemma adas_update_key:
  assumes "adas_ready env h p" "q \<in> set (assistanceStates p)" "getRecordLocked q (mServerSidePropStore h) = Some r"
    and "a \<in> set (map ac_areaId (pc_areaConfigs (rec_propConfig r)))"
  shows "hw_key h (createAdasStateReq env q a state) = (q, RecordId a 0)"
  using adas_ready_record(1,2) [OF assms(1-3)] assms(3,4)
  by (auto simp: hw_key_def hw_rid_def record_id_def getRecordIdLocked_def)

lemma adas_update_accepted:
  assumes "adas_ready env h p" "q \<in> set (assistanceStates p)" "getRecordLocked q (mServerSidePropStore h) = Some r"
    and "a \<in> set (map ac_areaId (pc_areaConfigs (rec_propConfig r)))"
  shows "hw_accepts h (createAdasStateReq env q a state)"
proof -
  define w where "w = createAdasStateReq env q a state"
  have "hw_rid h w = RecordId a 0" using adas_update_key [OF assms, of state] by (simp add: hw_key_def w_def)
  moreover have "isGlobalProp q \<or> getAreaConfigForValue w (rec_propConfig r) \<noteq> None"
    using assms(4) by (auto simp: getAreaConfigForValue_def getAreaConfig_None w_def)
  ultimately show ?thesis
    using adas_ready_record(4) [OF assms(1-3), of "RecordId a 0"] assms(3)
    by (auto simp: hw_accepts_iff getPropConfig_def hw_stored_def stored_def simp flip: w_def) (simp_all add: w_def)
qed

lemma distinct_assistanceStates: "distinct (assistanceStates p)"
proof -
  have "list_all (\<lambda>(k, qs). distinct qs) mAdasEnabledPropToAdasPropWithErrorState" by code_simp
  then show ?thesis
    by (cases "map_of mAdasEnabledPropToAdasPropWithErrorState p")
      (auto simp: umap_at_def list_all_iff dest!: map_of_SomeD)
qed

text \<open>Every area of every state property of the feature gets the state, and nothing else changes.\<close>

lemma sendAdasPropertiesState_stored:
  fixes state :: int
  assumes ready: "adas_ready env h p"
  defines "h' \<equiv> snd (sendAdasPropertiesState env p state h)"
  shows "q \<in> set (assistanceStates p) \<Longrightarrow> getRecordLocked q (mServerSidePropStore h) = Some r \<Longrightarrow>
      a \<in> set (map ac_areaId (pc_areaConfigs (rec_propConfig r))) \<Longrightarrow>
      hw_stored h' q (RecordId a 0) = Some (createAdasStateReq env q a (assistanceState state q))"
    and "q \<notin> set (assistanceStates p) \<Longrightarrow> hw_stored h' q rid = hw_stored h q rid"
proof -
  define us where "us = concat (map (adasUpdates env state h) (assistanceStates p))"
  have h': "h' = snd (fold (silentWrite env) us ([], h))"
    by (simp add: h'_def sendAdasPropertiesState_def sendAdas_writes us_def)
  have elem: "\<exists>q r a. q \<in> set (assistanceStates p) \<and> getRecordLocked q (mServerSidePropStore h) = Some r \<and>
      a \<in> set (map ac_areaId (pc_areaConfigs (rec_propConfig r))) \<and> w = createAdasStateReq env q a (assistanceState state q)"
    if w: "w \<in> set us" for w
  proof -
    obtain q where q: "q \<in> set (assistanceStates p)" "w \<in> set (adasUpdates env state h q)" using w by (auto simp: us_def)
    then obtain r where r: "getRecordLocked q (mServerSidePropStore h) = Some r"
      by (cases "getRecordLocked q (mServerSidePropStore h)") (simp_all add: adasUpdates_def getPropConfig_def)
    show ?thesis using q r by (auto simp: adasUpdates_registered [OF r])
  qed
  have acc: "\<forall>w \<in> set us. hw_accepts h w" using elem adas_update_accepted [OF ready] by blast
  have dist: "distinct (map (hw_key h) us)"
    unfolding us_def
  proof (rule distinct_keys_concat [OF distinct_assistanceStates])
    fix q assume q: "q \<in> set (assistanceStates p)"
    show "distinct (map (hw_key h) (adasUpdates env state h q))"
    proof (cases "getRecordLocked q (mServerSidePropStore h)")
      case (Some r)
      have "map (hw_key h) (adasUpdates env state h q) =
          map (\<lambda>a. (q, RecordId a 0)) (map ac_areaId (pc_areaConfigs (rec_propConfig r)))"
        using adas_update_key [OF ready q Some] by (simp add: adasUpdates_registered [OF Some])
      moreover have "distinct (map (\<lambda>a. (q, RecordId a 0)) (map ac_areaId (pc_areaConfigs (rec_propConfig r))))"
        by (subst distinct_map) (simp add: adas_ready_record(3) [OF ready q Some] inj_on_def)
      ultimately show ?thesis by (simp only:)
    qed (simp add: adasUpdates_def getPropConfig_def)
    fix w assume "w \<in> set (adasUpdates env state h q)"
    then show "fst (hw_key h w) = q"
      by (cases "getPropConfig q (mServerSidePropStore h)") (auto simp: adasUpdates_def hw_key_def)
  qed
  note writes = silentWrites [OF dist acc, where env = env and es = "[]", folded h']
  show "q \<notin> set (assistanceStates p) \<Longrightarrow> hw_stored h' q rid = hw_stored h q rid"
    using writes(2) elem by (fastforce simp: hw_key_def)
  assume q: "q \<in> set (assistanceStates p)" and r: "getRecordLocked q (mServerSidePropStore h) = Some r"
    and a: "a \<in> set (map ac_areaId (pc_areaConfigs (rec_propConfig r)))"
  define w where "w = createAdasStateReq env q a (assistanceState state q)"
  have "w \<in> set us"
    using q a by (force simp: us_def adasUpdates_registered [OF r] w_def)
  from writes(1) [OF this] show "hw_stored h' q (RecordId a 0) = Some w"
    using adas_update_key [OF ready q r a] by (simp add: hw_key_def w_def)
qed

section \<open>Switching a feature\<close>

text \<open>The switches are treated specially by nothing else.\<close>

definition onlySwitch :: "int32 \<Rightarrow> bool" where
  "onlySwitch p \<longleftrightarrow> \<not> isVendorTestProperty p \<and> \<not> isSupported p \<and> \<not> isClusterTestProperty p \<and>
     p \<notin> {AP_POWER_STATE_REPORT, SHUTDOWN_REQUEST, VEHICLE_MAP_SERVICE, OBD2_FREEZE_FRAME_CLEAR,
       VENDOR_PROPERTY_FOR_ERROR_CODE_TESTING, HVAC_POWER_ON, HVAC_TEMPERATURE_VALUE_SUGGESTION, HVAC_TEMPERATURE_SET,
       HVAC_DUAL_ON, LANE_CENTERING_ASSIST_COMMAND, CRUISE_CONTROL_COMMAND, ADAPTIVE_CRUISE_CONTROL_TARGET_TIME_GAP} \<and>
     p \<notin> set (assistanceStates p)"

lemma switch_only:
  assumes "map_of mAdasEnabledPropToAdasPropWithErrorState p = Some qs"
  shows "onlySwitch p" "assistanceStates p = qs"
proof -
  have "list_all (\<lambda>(k, qs). onlySwitch k) mAdasEnabledPropToAdasPropWithErrorState" by code_simp
  then show "onlySwitch p" using map_of_SomeD [OF assms] by (auto simp: list_all_iff)
  show "assistanceStates p = qs" using assms by (simp add: umap_at_def)
qed

lemma set_switch:
  assumes "map_of mAdasEnabledPropToAdasPropWithErrorState (pv_prop v) = Some qs" "int32Values (pv_value v) = [x]"
    and "\<not> isHvacPropAndHvacNotAvailable (pv_prop v) (pv_areaId v) h"
  shows "setValue env v h = (case sendAdasPropertiesState env (pv_prop v) (if x = 1 then 1 else -2) h of (es, h1) \<Rightarrow>
    Some (case storeWrite env v False ON_VALUE_CHANGE True h1 of (r, es', h2) \<Rightarrow> (r, es @ es', h2)))"
proof -
  define p where "p = pv_prop v"
  have o: "onlySwitch p" using switch_only(1) [OF assms(1)] by (simp add: p_def)
  have s: "sendAdasForSet env v h = sendAdasPropertiesState env p (if x = 1 then 1 else -2) h"
    using assms(1,2) by (simp add: sendAdasForSet_def p_def)
  have sp: "setSpecialProperty env v h1 = Some (None, [], h1)" for h1
    using o by (simp add: setSpecialProperty_def Let_def onlySwitch_def flip: p_def)
  show ?thesis
    using o assms(3) by (simp add: setValue_def maybeSetSpecialValue_def Let_def onlySwitch_def s sp flip: p_def split: prod.splits)
qed

lemma switch_stored:
  assumes "map_of mAdasEnabledPropToAdasPropWithErrorState (pv_prop v) = Some qs" "int32Values (pv_value v) = [x]"
    and "\<not> isHvacPropAndHvacNotAvailable (pv_prop v) (pv_areaId v) h" "adas_ready env h (pv_prop v)"
    and "setValue env v h = Some (r, es, h')"
  shows "q \<in> set qs \<Longrightarrow> getRecordLocked q (mServerSidePropStore h) = Some rec \<Longrightarrow>
      a \<in> ac_areaId ` set (pc_areaConfigs (rec_propConfig rec)) \<Longrightarrow>
      \<exists>u. hw_stored h' q (RecordId a 0) = Some u \<and> pv_prop u = q \<and> pv_areaId u = a \<and> pv_status u = AVAILABLE \<and>
        int32Values (pv_value u) = [if x \<noteq> 1 then -2 else if q = CRUISE_CONTROL_TYPE then 2 else 1]"
    and "q \<notin> set qs \<Longrightarrow> q \<noteq> pv_prop v \<Longrightarrow> hw_stored h' q rid = hw_stored h q rid"
proof -
  define state :: int where "state = (if x = 1 then 1 else -2)"
  obtain es1 h1 where f: "sendAdasPropertiesState env (pv_prop v) state h = (es1, h1)" by fastforce
  obtain es2 where w: "storeWrite env v False ON_VALUE_CHANGE True h1 = (r, es2, h')"
    using assms(5) set_switch [OF assms(1-3), of env, folded state_def] by (auto simp: f split: prod.splits)
  note qs = switch_only(2) [OF assms(1)]
  note sent = sendAdasPropertiesState_stored [OF assms(4), where state = state, unfolded f snd_conv qs]
  have last: "hw_stored h' q rid = hw_stored h1 q rid" if "q \<noteq> pv_prop v" for q rid
    using write_other [of q rid h1 True env v False ON_VALUE_CHANGE] that by (simp add: w hw_key_def)
  have ne: "pv_prop v \<notin> set qs" using switch_only [OF assms(1)] by (auto simp: onlySwitch_def)
  have len: "length (int32Values (pv_value (pooledValue env T_INT32 1))) = 1" using assms(4) by (simp add: adas_ready_def)
  show "q \<notin> set qs \<Longrightarrow> q \<noteq> pv_prop v \<Longrightarrow> hw_stored h' q rid = hw_stored h q rid" using sent(2) last by auto
  assume q: "q \<in> set qs" "getRecordLocked q (mServerSidePropStore h) = Some rec"
      "a \<in> ac_areaId ` set (pc_areaConfigs (rec_propConfig rec))"
  have "hw_stored h' q (RecordId a 0) = Some (createAdasStateReq env q a (assistanceState state q))"
    using sent(1) [OF q(1,2), of a] q(1,3) last [of q "RecordId a 0"] ne by auto
  moreover have "int32Values (pv_value (createAdasStateReq env q a (assistanceState state q))) =
      [if x \<noteq> 1 then -2 else if q = CRUISE_CONTROL_TYPE then 2 else 1]"
    unfolding createAdasStateReq_fields(5) [OF len] by (simp add: assistanceState_def state_def)
  ultimately show "\<exists>u. hw_stored h' q (RecordId a 0) = Some u \<and> pv_prop u = q \<and> pv_areaId u = a \<and> pv_status u = AVAILABLE \<and>
        int32Values (pv_value u) = [if x \<noteq> 1 then -2 else if q = CRUISE_CONTROL_TYPE then 2 else 1]"
    using createAdasStateReq_fields(1-3) by blast
qed

text \<open>
  Setting the switch of a driver assistance feature gives every area of each of its
  state properties the state 1 (2, adaptive, for the type of cruise control) if the feature is enabled and the
  error disabled if not, as available, and changes no other property but the switch.
\<close>

theorem assistance_switch:
  assumes "map_of mAdasEnabledPropToAdasPropWithErrorState (pv_prop v) = Some qs" "int32Values (pv_value v) = [x]"
    and "\<not> isHvacPropAndHvacNotAvailable (pv_prop v) (pv_areaId v) h" "adas_ready env h (pv_prop v)"
    and "setValue env v h = Some (r, es, h')"
  shows "(\<forall>q rec a. q \<in> set qs \<and> getRecordLocked q (mServerSidePropStore h) = Some rec \<and>
        a \<in> ac_areaId ` set (pc_areaConfigs (rec_propConfig rec)) \<longrightarrow>
      (\<exists>u. hw_stored h' q (RecordId a 0) = Some u \<and> pv_prop u = q \<and> pv_areaId u = a \<and> pv_status u = AVAILABLE \<and>
        int32Values (pv_value u) = [if x \<noteq> 1 then -2 else if q = CRUISE_CONTROL_TYPE then 2 else 1])) \<and>
    (\<forall>q rid. q \<notin> set qs \<and> q \<noteq> pv_prop v \<longrightarrow> hw_stored h' q rid = hw_stored h q rid)"
  using switch_stored [OF assms] by blast

section \<open>Cruise control\<close>

definition cruiseControlCommands :: "int32 list" where
  "cruiseControlCommands = [CRUISE_CONTROL_COMMAND, CRUISE_CONTROL_TARGET_SPEED, ADAPTIVE_CRUISE_CONTROL_TARGET_TIME_GAP,
     ADAPTIVE_CRUISE_CONTROL_LEAD_VEHICLE_MEASURED_DISTANCE, CRUISE_CONTROL_ENABLED]"

definition cruise_ready :: "FakeEnv \<Rightarrow> FakeVehicleHardware \<Rightarrow> bool" where
  "cruise_ready env h \<longleftrightarrow> adas_ready env h CRUISE_CONTROL_ENABLED \<and>
     hw_registered h CRUISE_CONTROL_TYPE \<and> hw_registered h CRUISE_CONTROL_STATE \<and>
     (\<forall>p \<in> set cruiseControlCommands. p \<notin> set (hvacPowerDependentProps h))"

lemma readById_stored:
  "isGlobalProp p \<Longrightarrow> readValueById p 0 0 (mServerSidePropStore h) = (if \<not> hw_registered h p then Inl INVALID_ARG
     else case hw_stored h p (RecordId 0 0) of None \<Rightarrow> Inl NOT_AVAILABLE | Some w \<Rightarrow> Inr w)"
  by (auto simp: readValueById_def hw_registered_def hw_stored_def stored_def readValueLocked_def split: option.split)

lemma cruise_constants:
  "isGlobalProp CRUISE_CONTROL_TYPE" "isGlobalProp CRUISE_CONTROL_STATE"
  "map_of mAdasEnabledPropToAdasPropWithErrorState CRUISE_CONTROL_ENABLED = Some [CRUISE_CONTROL_TYPE, CRUISE_CONTROL_STATE]"
  "CRUISE_CONTROL_STATE \<noteq> CRUISE_CONTROL_TYPE"
  "list_all (\<lambda>p. \<not> isVendorTestProperty p \<and> \<not> isSupported p \<and> p \<notin> set mPowerPropIds \<and>
     Option.is_none (map_of mAdasEnabledPropToAdasPropWithErrorState p)) (butlast cruiseControlCommands)"
  by code_simp+


text \<open>The states of cruise control after its switch was set.\<close>

lemma cruise_control_states:
  assumes "pv_prop v = CRUISE_CONTROL_ENABLED" "int32Values (pv_value v) = [x]" "cruise_ready env h"
    and "setValue env v h = Some (r, es, h')"
  shows "isAdasPropertyAvailable CRUISE_CONTROL_STATE h' = (if x = 1 then Inr () else Inl NOT_AVAILABLE_DISABLED)"
    and "isAdasPropertyAvailable CRUISE_CONTROL_TYPE h' = (if x = 1 then Inr () else Inl NOT_AVAILABLE_DISABLED)"
    and "x = 1 \<Longrightarrow> isCruiseControlTypeStandard h' = Some (Inr False)"
    and "hvacPowerDependentProps h' = hvacPowerDependentProps h"
proof -
  have ready: "adas_ready env h (pv_prop v)" using assms(1,3) by (simp add: cruise_ready_def)
  have hvac: "\<not> isHvacPropAndHvacNotAvailable (pv_prop v) (pv_areaId v) h"
    using assms(1,3) by (simp add: isHvacPropAndHvacNotAvailable_def cruise_ready_def cruiseControlCommands_def)
  have table: "map_of mAdasEnabledPropToAdasPropWithErrorState (pv_prop v) = Some [CRUISE_CONTROL_TYPE, CRUISE_CONTROL_STATE]"
    using cruise_constants(3) assms(1) by simp
  obtain es1 h1 where f: "sendAdasPropertiesState env (pv_prop v) (if x = 1 then 1 else -2) h = (es1, h1)" by fastforce
  obtain es2 where w: "storeWrite env v False ON_VALUE_CHANGE True h1 = (r, es2, h')"
    using assms(4) set_switch [OF table assms(2) hvac, of env] by (auto simp: f split: prod.splits)
  have frame: "hvacPowerDependentProps h' = hvacPowerDependentProps h1" "hw_registered h' q = hw_registered h1 q" for q
    using hw_frame_fields(1) [OF hw_frame_write [of h1 env v False ON_VALUE_CHANGE True]]
      hw_registered_write [of env v False ON_VALUE_CHANGE True h1 q] by (simp_all add: w)
  have h1: "h1 = snd (fold (silentWrite env) (concat (map (adasUpdates env (if x = 1 then 1 else -2) h) (assistanceStates (pv_prop v)))) ([], h))"
    using f by (simp add: sendAdasPropertiesState_def sendAdas_writes)
  show "hvacPowerDependentProps h' = hvacPowerDependentProps h" by (simp add: frame h1 silentWrites_frame)
  have reg: "hw_registered h' q = hw_registered h q" for q
    unfolding frame h1 by (rule trans [OF silentWrites_invariant]) simp_all
  have read: "\<exists>u. readValueById q 0 0 (mServerSidePropStore h') = Inr u \<and>
      int32Values (pv_value u) = [if x \<noteq> 1 then -2 else if q = CRUISE_CONTROL_TYPE then 2 else 1]"
    if q: "q \<in> set [CRUISE_CONTROL_TYPE, CRUISE_CONTROL_STATE]" for q
  proof -
    have "hw_registered h q" and g: "isGlobalProp q" using assms(3) q cruise_constants(1,2) by (auto simp: cruise_ready_def)
    then obtain rec where rec: "getRecordLocked q (mServerSidePropStore h) = Some rec" by (auto simp: hw_registered_def)
    have "q \<in> set (assistanceStates (pv_prop v))" using q by (simp add: table umap_at_def)
    from adas_ready_record(2) [OF ready this rec g] have "0 \<in> ac_areaId ` set (pc_areaConfigs (rec_propConfig rec))"
      by (metis list.set_intros(1) set_map)
    from switch_stored(1) [OF table assms(2) hvac ready assms(4) q rec this] show ?thesis
      using g \<open>hw_registered h q\<close> by (auto simp: readById_stored reg)
  qed
  show "isAdasPropertyAvailable CRUISE_CONTROL_STATE h' = (if x = 1 then Inr () else Inl NOT_AVAILABLE_DISABLED)"
    "isAdasPropertyAvailable CRUISE_CONTROL_TYPE h' = (if x = 1 then Inr () else Inl NOT_AVAILABLE_DISABLED)"
    using read [of CRUISE_CONTROL_STATE] read [of CRUISE_CONTROL_TYPE] cruise_constants(4)
    by (auto simp: isAdasPropertyAvailable_def)
  then show "x = 1 \<Longrightarrow> isCruiseControlTypeStandard h' = Some (Inr False)"
    using read [of CRUISE_CONTROL_TYPE] by (auto simp: isCruiseControlTypeStandard_def)
qed


lemma cruise_get:
  assumes "pv_prop w \<in> {CRUISE_CONTROL_TARGET_SPEED, ADAPTIVE_CRUISE_CONTROL_TARGET_TIME_GAP,
      ADAPTIVE_CRUISE_CONTROL_LEAD_VEHICLE_MEASURED_DISTANCE}" "pv_prop w \<notin> set (hvacPowerDependentProps h)"
  shows "maybeGetSpecialValue env w h = (if pv_prop w = CRUISE_CONTROL_TARGET_SPEED
    then Some (refuseIfUnavailable (isAdasPropertyAvailable CRUISE_CONTROL_STATE h))
    else refuseOnStandardCruiseControl h (Some True))"
proof -
  define p where "p = pv_prop w"
  have "list_all (\<lambda>p. \<not> isVendorTestProperty p \<and> \<not> isSupported p \<and> p \<notin> set mPowerPropIds \<and> p \<noteq> OBD2_FREEZE_FRAME \<and>
      p \<noteq> OBD2_FREEZE_FRAME_INFO \<and> p \<noteq> ECHO_REVERSE_BYTES \<and> p \<noteq> VENDOR_PROPERTY_FOR_ERROR_CODE_TESTING) cruiseControlCommands"
    by code_simp
  moreover have "p \<in> set cruiseControlCommands" using assms(1) by (auto simp: cruiseControlCommands_def p_def)
  ultimately have n: "\<not> isVendorTestProperty p" "\<not> isSupported p" "p \<notin> set mPowerPropIds" "p \<noteq> OBD2_FREEZE_FRAME"
    "p \<noteq> OBD2_FREEZE_FRAME_INFO" "p \<noteq> ECHO_REVERSE_BYTES" "p \<noteq> VENDOR_PROPERTY_FOR_ERROR_CODE_TESTING"
    by (simp_all add: list_all_iff)
  have "p \<noteq> CRUISE_CONTROL_TARGET_SPEED \<Longrightarrow>
      p = ADAPTIVE_CRUISE_CONTROL_TARGET_TIME_GAP \<or> p = ADAPTIVE_CRUISE_CONTROL_LEAD_VEHICLE_MEASURED_DISTANCE"
    using assms(1) by (simp add: p_def)
  then show ?thesis
    using assms(2) n by (simp add: maybeGetSpecialValue_def Let_def isHvacPropAndHvacNotAvailable_def flip: p_def)
qed

lemma cruise_set:
  assumes "pv_prop w = CRUISE_CONTROL_COMMAND" "CRUISE_CONTROL_COMMAND \<notin> set (hvacPowerDependentProps h)"
  shows "maybeSetSpecialValue env w h = map_option (\<lambda>refusal. (refusal, [], h)) (refuseOnStandardCruiseControl h
    (case int32Values (pv_value w) of [] \<Rightarrow> None | x # _ \<Rightarrow> Some (x = 5 \<or> x = 6)))"
proof -
  have "\<not> isVendorTestProperty CRUISE_CONTROL_COMMAND" "\<not> isSupported CRUISE_CONTROL_COMMAND"
    "Option.is_none (map_of mAdasEnabledPropToAdasPropWithErrorState CRUISE_CONTROL_COMMAND)"
    "CRUISE_CONTROL_COMMAND \<notin> {DISPLAY_BRIGHTNESS, PER_DISPLAY_BRIGHTNESS, AP_POWER_STATE_REPORT, SHUTDOWN_REQUEST,
       VEHICLE_MAP_SERVICE, OBD2_FREEZE_FRAME_CLEAR, VENDOR_PROPERTY_FOR_ERROR_CODE_TESTING, HVAC_POWER_ON,
       HVAC_TEMPERATURE_VALUE_SUGGESTION, HVAC_TEMPERATURE_SET, HVAC_DUAL_ON, LANE_CENTERING_ASSIST_COMMAND}"
    by code_simp+
  then show ?thesis
    using assms by (simp add: maybeSetSpecialValue_def setSpecialProperty_def sendAdasForSet_def Let_def
        isHvacPropAndHvacNotAvailable_def Option.is_none_def option.map_comp comp_def)
qed

text \<open>
  Claim C23 (cruise_control_switch). After the switch of cruise control was set, commands to cruise control and gets of its
  target speed, its time gap and the distance of the vehicle ahead are refused as disabled if it was switched off; if it was
  switched on, the commands are stored and the gets answered by the store, never undefined.
\<close>

theorem cruise_control_switch:
  assumes "pv_prop v = CRUISE_CONTROL_ENABLED" "int32Values (pv_value v) = [x]" "cruise_ready env h"
    and "setValue env v h = Some (r, es, h')"
  shows "(\<forall>w. pv_prop w = CRUISE_CONTROL_COMMAND \<longrightarrow> setValue env w h' =
      Some (if x = 1 then storeWrite env w False ON_VALUE_CHANGE True h' else (Inl NOT_AVAILABLE_DISABLED, [], h'))) \<and>
    (\<forall>w. pv_prop w \<in> {CRUISE_CONTROL_TARGET_SPEED, ADAPTIVE_CRUISE_CONTROL_TARGET_TIME_GAP,
        ADAPTIVE_CRUISE_CONTROL_LEAD_VEHICLE_MEASURED_DISTANCE} \<longrightarrow> getValue env w h' =
      Some (if x = 1 then readValue w (mServerSidePropStore h') else Inl NOT_AVAILABLE_DISABLED))"
proof -
  note st = cruise_control_states [OF assms]
  have hvac: "p \<notin> set (hvacPowerDependentProps h')" if "p \<in> set cruiseControlCommands" for p
    using assms(3) that by (simp add: st(4) cruise_ready_def)
  have refuse: "refuseOnStandardCruiseControl h' b = Some (if x = 1 then None else Some (Inl NOT_AVAILABLE_DISABLED))" for b
    using st by (simp add: refuseOnStandardCruiseControl_def)
  have set: "setValue env w h' = Some (if x = 1 then storeWrite env w False ON_VALUE_CHANGE True h' else (Inl NOT_AVAILABLE_DISABLED, [], h'))"
    if "pv_prop w = CRUISE_CONTROL_COMMAND" for w
    using cruise_set [OF that hvac] by (simp add: setValue_def refuse cruiseControlCommands_def split: prod.splits)
  have get: "getValue env w h' = Some (if x = 1 then readValue w (mServerSidePropStore h') else Inl NOT_AVAILABLE_DISABLED)"
    if "pv_prop w \<in> {CRUISE_CONTROL_TARGET_SPEED, ADAPTIVE_CRUISE_CONTROL_TARGET_TIME_GAP,
        ADAPTIVE_CRUISE_CONTROL_LEAD_VEHICLE_MEASURED_DISTANCE}" for w
  proof -
    have "pv_prop w \<notin> set (hvacPowerDependentProps h')" using that hvac by (auto simp: cruiseControlCommands_def)
    from cruise_get [OF that this] show ?thesis
      by (simp add: getValue_def refuse st(1) refuseIfUnavailable_def)
  qed
  show ?thesis using set get by blast
qed

text \<open>
  A command to cruise control whose state is available has undefined behaviour
  exactly when the type of cruise control has no value or a value without integers, which is read without a check, or
  when the type is standard and the command has no integer.
\<close>

theorem cruise_command_undefined:
  assumes "pv_prop w = CRUISE_CONTROL_COMMAND" "CRUISE_CONTROL_COMMAND \<notin> set (hvacPowerDependentProps h)"
  shows "setValue env w h = None \<longleftrightarrow> isAdasPropertyAvailable CRUISE_CONTROL_STATE h = Inr () \<and>
    (case readValueById CRUISE_CONTROL_TYPE 0 0 (mServerSidePropStore h) of
       Inl _ \<Rightarrow> True
     | Inr u \<Rightarrow> (case int32Values (pv_value u) of [] \<Rightarrow> True | k # _ \<Rightarrow> k = 1 \<and> int32Values (pv_value w) = []))"
proof -
  have "setValue env w h = None \<longleftrightarrow> refuseOnStandardCruiseControl h
      (case int32Values (pv_value w) of [] \<Rightarrow> None | x # _ \<Rightarrow> Some (x = 5 \<or> x = 6)) = (None :: unit VhalResult option option)"
    by (cases "storeWrite env w False ON_VALUE_CHANGE True h")
      (auto simp: setValue_def cruise_set [OF assms] split: option.splits)
  also have "\<dots> \<longleftrightarrow> isAdasPropertyAvailable CRUISE_CONTROL_STATE h = Inr () \<and> (isCruiseControlTypeStandard h = None \<or>
      isCruiseControlTypeStandard h = Some (Inr True) \<and> int32Values (pv_value w) = [])"
    by (auto simp: refuseOnStandardCruiseControl_def split: sum.splits option.splits list.splits)
  also have "isCruiseControlTypeStandard h = None \<longleftrightarrow>
      (case readValueById CRUISE_CONTROL_TYPE 0 0 (mServerSidePropStore h) of
         Inl _ \<Rightarrow> True | Inr u \<Rightarrow> int32Values (pv_value u) = [])"
    by (auto simp: isCruiseControlTypeStandard_def isAdasPropertyAvailable_def split: sum.splits list.splits)
  also have "isCruiseControlTypeStandard h = Some (Inr True) \<longleftrightarrow>
      (case readValueById CRUISE_CONTROL_TYPE 0 0 (mServerSidePropStore h) of
         Inl _ \<Rightarrow> False | Inr u \<Rightarrow> (case int32Values (pv_value u) of [] \<Rightarrow> False | k # _ \<Rightarrow> k = 1))"
    by (auto simp: isCruiseControlTypeStandard_def isAdasPropertyAvailable_def split: sum.splits list.splits if_splits)
  finally show ?thesis by (auto split: sum.splits list.splits)
qed

text \<open>Cruise control that is on, and its switch set to off; and cruise control of which the type was never written.\<close>

definition cruise_hardware :: "StoreOp list \<Rightarrow> FakeVehicleHardware" where
  "cruise_hardware writes = newFakeHardware\<lparr>mServerSidePropStore := fold run_store_op
     (map (\<lambda>p. registerAreas p [0]) [CRUISE_CONTROL_TYPE, CRUISE_CONTROL_STATE, CRUISE_CONTROL_ENABLED,
        CRUISE_CONTROL_COMMAND, CRUISE_CONTROL_TARGET_SPEED] @ writes) emptyStore\<rparr>"

definition driving :: FakeVehicleHardware where
  "driving = cruise_hardware [initially (intsAt CRUISE_CONTROL_ENABLED 0 [1]), initially (intsAt CRUISE_CONTROL_TYPE 0 [2]),
     initially (intsAt CRUISE_CONTROL_STATE 0 [1])]"

lemma driving_ready: "cruise_ready (sample_env 5) driving"
proof -
  have "\<not> Option.is_none (getRecordLocked CRUISE_CONTROL_TYPE (mServerSidePropStore driving))"
    "\<not> Option.is_none (getRecordLocked CRUISE_CONTROL_STATE (mServerSidePropStore driving))"
    "adas_ready (sample_env 5) driving CRUISE_CONTROL_ENABLED" "hvacPowerDependentProps driving = []"
    by code_simp+
  then show ?thesis by (simp add: cruise_ready_def hw_registered_def Option.is_none_def)
qed

definition cruise_off :: "Written option" where
  "cruise_off = setValue (sample_env 5) (intsAt CRUISE_CONTROL_ENABLED 0 [0]) driving"

lemma cruise_off_ok: "cruise_off = Some (Inr (), fst (snd (the cruise_off)), afterwards cruise_off)"
  by (rule written_ok) code_simp

theorem assistance_switch_witness:
  "\<exists>u. hw_stored (afterwards cruise_off) CRUISE_CONTROL_STATE (RecordId 0 0) = Some u \<and> int32Values (pv_value u) = [-2]"
proof -
  have "case getRecordLocked CRUISE_CONTROL_STATE (mServerSidePropStore driving) of None \<Rightarrow> False
      | Some rec \<Rightarrow> map ac_areaId (pc_areaConfigs (rec_propConfig rec)) = [0]" by code_simp
  then obtain rec where rec: "getRecordLocked CRUISE_CONTROL_STATE (mServerSidePropStore driving) = Some rec"
    "map ac_areaId (pc_areaConfigs (rec_propConfig rec)) = [0]" by (auto split: option.splits)
  then have "0 \<in> ac_areaId ` set (pc_areaConfigs (rec_propConfig rec))" by (metis list.set_intros(1) set_map)
  moreover have "\<not> isHvacPropAndHvacNotAvailable CRUISE_CONTROL_ENABLED 0 driving" by code_simp
  moreover have "adas_ready (sample_env 5) driving CRUISE_CONTROL_ENABLED" using driving_ready by (simp add: cruise_ready_def)
  moreover have "CRUISE_CONTROL_STATE \<in> set [CRUISE_CONTROL_TYPE, CRUISE_CONTROL_STATE]" by simp
  ultimately show ?thesis
    using assistance_switch [of "intsAt CRUISE_CONTROL_ENABLED 0 [0]", unfolded sample_fields, OF cruise_constants(3) refl _ _
        cruise_off_ok [unfolded cruise_off_def], folded cruise_off_def, THEN conjunct1] rec(1)
    by fastforce
qed

theorem cruise_control_switch_witness:
  "setValue (sample_env 5) (intsAt CRUISE_CONTROL_COMMAND 0 [1]) (afterwards cruise_off) =
     Some (Inl NOT_AVAILABLE_DISABLED, [], afterwards cruise_off) \<and>
   getValue (sample_env 5) (intsAt CRUISE_CONTROL_TARGET_SPEED 0 []) (afterwards cruise_off) = Some (Inl NOT_AVAILABLE_DISABLED)"
  using cruise_control_switch [of "intsAt CRUISE_CONTROL_ENABLED 0 [0]", unfolded sample_fields, OF refl refl driving_ready
      cruise_off_ok [unfolded cruise_off_def], folded cruise_off_def]
  by simp

theorem cruise_command_undefined_witness:
  "setValue (sample_env 5) (intsAt CRUISE_CONTROL_COMMAND 0 [1]) (cruise_hardware []) = None"
proof -
  have "isAdasPropertyAvailable CRUISE_CONTROL_STATE (cruise_hardware []) = Inr ()"
    "isl (readValueById CRUISE_CONTROL_TYPE 0 0 (mServerSidePropStore (cruise_hardware [])))"
    "hvacPowerDependentProps (cruise_hardware []) = []" by code_simp+
  then show ?thesis
    by (subst cruise_command_undefined) (auto simp: isl_def)
qed

end
