(* ===== verification/Request_Handlers.thy ===== *)
theory Request_Handlers
  imports Hvac_Power
begin

text \<open>
  The threads of \<^verbatim>\<open>FakeVehicleHardware::PendingRequestHandler\<close>: they take the pending requests, get or set each value
  in turn and call every callback once with its results. Each value is read and written at a time of its own, so the
  \<open>i\<close>-th request runs in the environment \<open>envs i\<close>. \<open>None\<close> stands for undefined behaviour or an abort, as in
  \<open>Special_Values\<close>.
\<close>

section \<open>The handlers\<close>

fun handleRequests ::
  "(nat \<Rightarrow> 'r \<Rightarrow> 's \<Rightarrow> ('a \<times> 's) option) \<Rightarrow> nat \<Rightarrow> ('r \<times> nat) list \<Rightarrow> (nat, 'a list) umap \<Rightarrow> 's \<Rightarrow>
     ((nat, 'a list) umap \<times> 's) option" where
  "handleRequests handle i [] results s = Some (results, s)"
| "handleRequests handle i ((r, callback) # rs) results s =
    (case handle i r s of
       None \<Rightarrow> None
     | Some (res, s') \<Rightarrow>
         handleRequests handle (Suc i) rs (umap_put callback (umap_at [] callback results @ [res]) results) s')"

definition handleGet ::
  "(nat \<Rightarrow> FakeEnv) \<Rightarrow> nat \<Rightarrow> GetValueRequest \<Rightarrow> FakeVehicleHardware \<Rightarrow> (GetValueResult \<times> FakeVehicleHardware) option" where
  "handleGet envs i request h = map_option (\<lambda>res. (res, h)) (handleGetValueRequest (envs i) request h)"

definition handleGetRequestsOnce ::
  "(nat \<Rightarrow> FakeEnv) \<Rightarrow> FakeVehicleHardware \<Rightarrow> ((nat, GetValueResult list) umap \<times> FakeVehicleHardware) option" where
  "handleGetRequestsOnce envs h =
    (let (requests, q) = flush (mPendingGetValueRequests h) in
     handleRequests (handleGet envs) 0 requests [] (h\<lparr>mPendingGetValueRequests := q\<rparr>))"

definition handleSet ::
  "(nat \<Rightarrow> FakeEnv) \<Rightarrow> nat \<Rightarrow> SetValueRequest \<Rightarrow> StoreEvent list \<times> FakeVehicleHardware \<Rightarrow>
     (SetValueResult \<times> StoreEvent list \<times> FakeVehicleHardware) option" where
  "handleSet envs i request acc = map_option (\<lambda>(res, es, h). (res, fst acc @ es, h))
     (handleSetValueRequest (envs i) request (snd acc))"

definition handleSetRequestsOnce ::
  "(nat \<Rightarrow> FakeEnv) \<Rightarrow> FakeVehicleHardware \<Rightarrow>
     ((nat, SetValueResult list) umap \<times> StoreEvent list \<times> FakeVehicleHardware) option" where
  "handleSetRequestsOnce envs h =
    (let (requests, q) = flush (mPendingSetValueRequests h) in
     handleRequests (handleSet envs) 0 requests [] ([], h\<lparr>mPendingSetValueRequests := q\<rparr>))"

section \<open>One request after the other\<close>

text \<open>The reference: the requests handled in order, with the list of all results.\<close>

fun oneByOne :: "(nat \<Rightarrow> 'r \<Rightarrow> 's \<Rightarrow> ('a \<times> 's) option) \<Rightarrow> nat \<Rightarrow> 'r list \<Rightarrow> 's \<Rightarrow> ('a list \<times> 's) option" where
  "oneByOne handle i [] s = Some ([], s)"
| "oneByOne handle i (r # rs) s = (case handle i r s of None \<Rightarrow> None
     | Some (res, s') \<Rightarrow> map_option (\<lambda>(ress, t). (res # ress, t)) (oneByOne handle (Suc i) rs s'))"

text \<open>The results of one callback, of all the requests and their results.\<close>

definition resultsOf :: "nat \<Rightarrow> ('r \<times> nat) list \<Rightarrow> 'a list \<Rightarrow> 'a list" where
  "resultsOf callback requests ress = map snd (filter (\<lambda>(rq, res). snd rq = callback) (zip requests ress))"

lemma oneByOne_length: "oneByOne handle i rs s = Some (ress, t) \<Longrightarrow> length ress = length rs"
  by (induction rs arbitrary: i s ress) (auto split: option.splits)

lemma handleRequests_one_by_one:
  "handleRequests handle i requests results s = None \<longleftrightarrow> oneByOne handle i (map fst requests) s = None"
  "handleRequests handle i requests results s = Some (results', t) \<Longrightarrow>
     \<exists>ress. oneByOne handle i (map fst requests) s = Some (ress, t) \<and>
       (\<forall>callback. umap_at [] callback results' = umap_at [] callback results @ resultsOf callback requests ress) \<and>
       umap_keys results' = umap_keys results \<union> snd ` set requests \<and> (umap_wf results \<longrightarrow> umap_wf results')"
proof (induction requests arbitrary: i results s)
  case (Cons rq requests)
  obtain r callback where rq: "rq = (r, callback)" by (cases rq)
  {
    case 1
    show ?case using Cons.IH(1) by (auto simp: rq split: option.splits)
  next
    case 2
    then obtain res s' where h: "handle i r s = Some (res, s')" by (auto simp: rq split: option.splits)
    define results1 where "results1 = umap_put callback (umap_at [] callback results @ [res]) results"
    have "handleRequests handle (Suc i) requests results1 s' = Some (results', t)"
      using 2 by (simp add: rq h results1_def)
    from Cons.IH(2) [OF this] obtain ress where ress: "oneByOne handle (Suc i) (map fst requests) s' = Some (ress, t)"
      "\<forall>callback. umap_at [] callback results' = umap_at [] callback results1 @ resultsOf callback requests ress"
      "umap_keys results' = umap_keys results1 \<union> snd ` set requests" "umap_wf results1 \<longrightarrow> umap_wf results'" by blast
    have "umap_at [] c results1 @ resultsOf c requests ress = umap_at [] c results @ resultsOf c (rq # requests) (res # ress)" for c
      by (simp add: results1_def resultsOf_def rq)
    moreover have "umap_keys results1 = insert callback (umap_keys results)" "umap_wf results \<longrightarrow> umap_wf results1"
      by (simp_all add: results1_def)
    moreover have "oneByOne handle i (map fst (rq # requests)) s = Some (res # ress, t)" by (simp add: rq h ress(1))
    ultimately show ?case using ress by (auto simp: rq)
  }
qed (auto simp: resultsOf_def)

section \<open>What handling a request keeps\<close>

text \<open>A get changes nothing; a set does not touch the queues of the pending requests.\<close>

definition requestQueues where
  "requestQueues h = (mPendingGetValueRequests h, mPendingSetValueRequests h)"

lemma requestQueues_updates [simp]:
  "requestQueues (h\<lparr>mServerSidePropStore := st\<rparr>) = requestQueues h"
  "requestQueues (h\<lparr>mFakeUserHal := hal\<rparr>) = requestQueues h"
  by (simp_all add: requestQueues_def)

lemma requestQueues_write [simp]: "requestQueues (snd (snd (storeWrite env v u m c h))) = requestQueues h"
  by (simp add: storeWrite_def split: prod.splits)

lemma write_queues: "storeWrite env v u m c h = (r, es, h') \<Longrightarrow> requestQueues h' = requestQueues h"
  using requestQueues_write [of env v u m c h] by simp

lemma fold_queues: "(\<And>x acc. x \<in> set xs \<Longrightarrow> requestQueues (snd (f x acc)) = requestQueues (snd acc)) \<Longrightarrow>
    requestQueues (snd (fold f xs acc)) = requestQueues (snd acc)"
  by (induction xs arbitrary: acc) simp_all

lemma sendHvac_queues: "sendHvacPropertiesCurrentValues env a x h = (es, h') \<Longrightarrow> requestQueues h' = requestQueues h"
proof -
  have "requestQueues (snd (sendHvacProperty env a x p acc)) = requestQueues (snd acc)" for p acc
    unfolding sendHvacProperty_def by (auto split: sum.split intro!: fold_queues dest: write_queues split: prod.splits)
  then have "requestQueues (snd (sendHvacPropertiesCurrentValues env a x h)) = requestQueues h"
    unfolding sendHvacPropertiesCurrentValues_def by (subst fold_queues) simp_all
  then show "sendHvacPropertiesCurrentValues env a x h = (es, h') \<Longrightarrow> requestQueues h' = requestQueues h" by simp
qed

lemma sendAdas_queues: "sendAdasForSet env v h = (es, h') \<Longrightarrow> requestQueues h' = requestQueues h"
proof -
  have "requestQueues (snd (sendAdasProperty env state p acc)) = requestQueues (snd acc)" for state p acc
    unfolding sendAdasProperty_def Let_def
    by (auto split: sum.split intro!: fold_queues dest: write_queues split: prod.splits)
  then have "requestQueues (snd (sendAdasPropertiesState env p state h)) = requestQueues h" for p state
    unfolding sendAdasPropertiesState_def by (subst fold_queues) simp_all
  then have "requestQueues (snd (sendAdasForSet env v h)) = requestQueues h"
    by (simp add: sendAdasForSet_def split: list.split)
  then show "sendAdasForSet env v h = (es, h') \<Longrightarrow> requestQueues h' = requestQueues h" by simp
qed

lemma synchronize_queues:
  "synchronizeValues env a t vs h = Some (r, es, h') \<Longrightarrow> requestQueues h' = requestQueues h"
proof (induction vs arbitrary: t h r es)
  case (Cons v vs)
  then show ?case
    by (fastforce split: if_splits list.splits option.splits sum.splits prod.splits dest!: write_queues)
qed simp

lemma synchronizeHvacTemp_queues:
  "synchronizeHvacTemp env a t h = Some (r, es, h') \<Longrightarrow> requestQueues h' = requestQueues h"
  by (auto simp: synchronizeHvacTemp_def split: sum.splits dest: synchronize_queues)

lemma suggestion_queues:
  "setHvacTemperatureValueSuggestion env v h = Some (r, es, h') \<Longrightarrow> requestQueues h' = requestQueues h"
  by (auto simp: setHvacTemperatureValueSuggestion_def Let_def split: sum.splits if_splits option.splits dest: write_queues)

lemma report_queues: "setApPowerStateReport env v h = Some (r, es, h') \<Longrightarrow> requestQueues h' = requestQueues h"
  by (auto simp: setApPowerStateReport_def split: prod.splits sum.splits list.splits if_splits dest!: write_queues)

lemma setSpecialProperty_queues:
  "setSpecialProperty env v h = Some (r, es, h') \<Longrightarrow> requestQueues h' = requestQueues h"
  unfolding setSpecialProperty_def Let_def
  by (auto simp: special_def setApPowerStateReqShutdown_def setClusterTestProperty_def Let_def
      split: if_splits list.splits option.splits prod.splits
      dest!: report_queues suggestion_queues synchronizeHvacTemp_queues sendHvac_queues write_queues)

lemma setValue_queues: "setValue env v h = Some (r, es, h') \<Longrightarrow> requestQueues h' = requestQueues h"
  unfolding setValue_def maybeSetSpecialValue_def Let_def
  by (auto simp: special_def setUserHalProp_def Let_def
      split: if_splits option.splits prod.splits sum.splits
      dest!: setSpecialProperty_queues sendAdas_queues write_queues)


section \<open>Every request is answered\<close>

lemma handleSet_frame:
  "handleSet envs i r acc = Some (res, acc') \<Longrightarrow> sres_requestId res = sr_requestId r \<and> requestQueues (snd acc') = requestQueues (snd acc)"
  by (auto simp: handleSet_def handleSetValueRequest_def dest: setValue_queues)

lemma sets_one_by_one:
  "oneByOne (handleSet envs) i rs acc = Some (ress, acc') \<Longrightarrow>
     map sres_requestId ress = map sr_requestId rs \<and> requestQueues (snd acc') = requestQueues (snd acc)"
proof (induction rs arbitrary: i acc ress)
  case (Cons r rs)
  then obtain res acc1 ress' where h: "handleSet envs i r acc = Some (res, acc1)"
    "oneByOne (handleSet envs) (Suc i) rs acc1 = Some (ress', acc')" "ress = res # ress'"
    by (auto split: option.splits)
  show ?case using handleSet_frame [OF h(1)] Cons.IH [OF h(2)] by (simp add: h(3))
qed simp

lemma gets_one_by_one:
  "oneByOne (handleGet envs) i rs h = Some (ress, h') \<Longrightarrow> h' = h \<and> map gres_requestId ress = map gr_requestId rs \<and>
     (\<forall>j < length rs. handleGetValueRequest (envs (i + j)) (rs ! j) h = Some (ress ! j))"
proof (induction rs arbitrary: i ress)
  case (Cons r rs)
  then obtain res ress' where h: "handleGetValueRequest (envs i) r h = Some res"
    "oneByOne (handleGet envs) (Suc i) rs h = Some (ress', h')" "ress = res # ress'"
    by (auto simp: handleGet_def [of envs i r h] split: option.splits)
  have "gres_requestId res = gr_requestId r" using h(1) by (auto simp: handleGetValueRequest_def)
  then show ?case using Cons.IH [OF h(2)] h(1) by (auto simp: h(3) less_Suc_eq_0_disj)
qed simp

text \<open>
  Claim C21 (set_requests_answered). When the handler of sets has run, every pending request was set in the order in which the
  requests came, its result has the identifier of the request, every callback that has a pending request is called
  exactly once, with the results of its own requests in their order, and no request is pending any more.
\<close>

theorem set_requests_answered:
  assumes "handleSetRequestsOnce envs h = Some (results, es, h')"
  shows "\<exists>ress. oneByOne (handleSet envs) 0 (map fst (mQueue (mPendingSetValueRequests h)))
        ([], h\<lparr>mPendingSetValueRequests := (mPendingSetValueRequests h)\<lparr>mQueue := []\<rparr>\<rparr>) = Some (ress, es, h') \<and>
      map sres_requestId ress = map (sr_requestId \<circ> fst) (mQueue (mPendingSetValueRequests h)) \<and>
      umap_wf results \<and> umap_keys results = snd ` set (mQueue (mPendingSetValueRequests h)) \<and>
      (\<forall>callback. umap_at [] callback results = resultsOf callback (mQueue (mPendingSetValueRequests h)) ress) \<and>
      mQueue (mPendingSetValueRequests h') = [] \<and> mPendingGetValueRequests h' = mPendingGetValueRequests h"
proof -
  have run: "handleRequests (handleSet envs) 0 (mQueue (mPendingSetValueRequests h)) []
      ([], h\<lparr>mPendingSetValueRequests := (mPendingSetValueRequests h)\<lparr>mQueue := []\<rparr>\<rparr>) = Some (results, es, h')"
    using assms by (simp add: handleSetRequestsOnce_def flush_def)
  from handleRequests_one_by_one(2) [OF this] obtain ress
    where ress: "oneByOne (handleSet envs) 0 (map fst (mQueue (mPendingSetValueRequests h)))
        ([], h\<lparr>mPendingSetValueRequests := (mPendingSetValueRequests h)\<lparr>mQueue := []\<rparr>\<rparr>) = Some (ress, es, h')"
      "\<forall>callback. umap_at [] callback results = resultsOf callback (mQueue (mPendingSetValueRequests h)) ress"
      "umap_keys results = snd ` set (mQueue (mPendingSetValueRequests h))" "umap_wf results"
    by auto
  show ?thesis
    using ress sets_one_by_one [OF ress(1)] by (auto simp: requestQueues_def)
qed

text \<open>
  When the handler of gets has run, the hardware is unchanged but for the pending gets,
  of which none is left; the result of each request is what a get of it returns, with its identifier; and every
  callback that has a pending request is called exactly once, with the results of its own requests in their order.
\<close>

theorem get_requests_answered_once:
  assumes "handleGetRequestsOnce envs h = Some (results, h')"
  shows "h' = h\<lparr>mPendingGetValueRequests := (mPendingGetValueRequests h)\<lparr>mQueue := []\<rparr>\<rparr> \<and>
    (\<exists>ress. map gres_requestId ress = map (gr_requestId \<circ> fst) (mQueue (mPendingGetValueRequests h)) \<and>
      (\<forall>j < length ress. handleGetValueRequest (envs j) (fst (mQueue (mPendingGetValueRequests h) ! j)) h' = Some (ress ! j)) \<and>
      umap_wf results \<and> umap_keys results = snd ` set (mQueue (mPendingGetValueRequests h)) \<and>
      (\<forall>callback. umap_at [] callback results = resultsOf callback (mQueue (mPendingGetValueRequests h)) ress))"
proof -
  define h1 where "h1 = h\<lparr>mPendingGetValueRequests := (mPendingGetValueRequests h)\<lparr>mQueue := []\<rparr>\<rparr>"
  have "handleRequests (handleGet envs) 0 (mQueue (mPendingGetValueRequests h)) [] h1 = Some (results, h')"
    using assms by (simp add: handleGetRequestsOnce_def flush_def h1_def)
  from handleRequests_one_by_one(2) [OF this] obtain ress
    where ress: "oneByOne (handleGet envs) 0 (map fst (mQueue (mPendingGetValueRequests h))) h1 = Some (ress, h')"
      "\<forall>callback. umap_at [] callback results = resultsOf callback (mQueue (mPendingGetValueRequests h)) ress"
      "umap_keys results = snd ` set (mQueue (mPendingGetValueRequests h))" "umap_wf results"
    by auto
  note gets = gets_one_by_one [OF ress(1)] oneByOne_length [OF ress(1)]
  show ?thesis
    using gets ress(2-4) unfolding h1_def [symmetric] by auto
qed


text \<open>Two clients, 7 and 8, set and get the speed of the fans.\<close>

definition fan_sets :: FakeVehicleHardware where
  "fan_sets = snd (hardwareSetValues 7 [\<lparr>sr_requestId = 3, sr_value = intsAt fan_speed 4 [5]\<rparr>]
     (snd (hardwareSetValues 8 [\<lparr>sr_requestId = 1, sr_value = intsAt fan_speed 1 [2]\<rparr>,
        \<lparr>sr_requestId = 2, sr_value = intsAt fan_speed 2 [2]\<rparr>] climate_hardware)))"

theorem set_requests_answered_witness:
  "\<exists>results es h'. handleSetRequestsOnce (\<lambda>i. sample_env (5 + int i)) fan_sets = Some (results, es, h') \<and>
     map sres_requestId (umap_at [] 8 results) = [1, 2] \<and> map sres_requestId (umap_at [] 7 results) = [3]"
proof -
  have "\<not> Option.is_none (handleSetRequestsOnce (\<lambda>i. sample_env (5 + int i)) fan_sets)" by code_simp
  then obtain results es h' where r: "handleSetRequestsOnce (\<lambda>i. sample_env (5 + int i)) fan_sets = Some (results, es, h')"
    by (auto simp: Option.is_none_def)
  have q: "map (\<lambda>(rq, callback). (sr_requestId rq, callback)) (mQueue (mPendingSetValueRequests fan_sets)) = [(1, 8), (2, 8), (3, 7)]"
    by code_simp
  then obtain a b c where qs: "mQueue (mPendingSetValueRequests fan_sets) = [(a, 8), (b, 8), (c, 7)]"
    "sr_requestId a = 1" "sr_requestId b = 2" "sr_requestId c = 3" by auto
  from set_requests_answered [OF r, unfolded qs(1)]
  obtain ress where "map sres_requestId ress = map (sr_requestId \<circ> fst) [(a, 8 :: nat), (b, 8), (c, 7)]"
    and ofCallback: "\<forall>callback. umap_at [] callback results = resultsOf callback [(a, 8), (b, 8), (c, 7)] ress" by blast
  then have ids: "map sres_requestId ress = [1, 2, 3]" by (simp add: qs)
  from ids obtain x y z where "ress = [x, y, z]" "sres_requestId x = 1" "sres_requestId y = 2" "sres_requestId z = 3" by auto
  then show ?thesis using r ofCallback by (simp add: resultsOf_def)
qed

definition fan_gets :: FakeVehicleHardware where
  "fan_gets = snd (hardwareGetValues 7 [\<lparr>gr_requestId = 3, gr_prop = intsAt fan_speed 4 []\<rparr>]
     (snd (hardwareGetValues 8 [\<lparr>gr_requestId = 1, gr_prop = intsAt fan_speed 1 []\<rparr>] climate_hardware)))"

theorem get_requests_answered_once_witness:
  "\<exists>results h'. handleGetRequestsOnce (\<lambda>i. sample_env 5) fan_gets = Some (results, h') \<and>
     mQueue (mPendingGetValueRequests h') = [] \<and> umap_keys results = {7, 8}"
proof -
  have "\<not> Option.is_none (handleGetRequestsOnce (\<lambda>i. sample_env 5) fan_gets)" by code_simp
  then obtain results h' where r: "handleGetRequestsOnce (\<lambda>i. sample_env 5) fan_gets = Some (results, h')"
    by (auto simp: Option.is_none_def)
  have "map snd (mQueue (mPendingGetValueRequests fan_gets)) = [8, 7]" by code_simp
  then have "snd ` set (mQueue (mPendingGetValueRequests fan_gets)) = {7, 8}"
    by (metis insert_commute list.set(1,2) set_map)
  then show ?thesis using r get_requests_answered_once [OF r] by auto
qed

end
