(* ===== verification/Hadamard.thy ===== *)
theory Hadamard
  imports Prelude
begin

text \<open>
  \<^verbatim>\<open>rebootescrow/aidl/default/HadamardUtils\<close>: the error correcting code in which a key survives a reboot in memory.
  The 32 bytes of a key are 16 codewords of 16 bits; each is encoded by the augmented Hadamard code as 2^15 bits, the
  encodings are striped together, and the bytes are shuffled.

  Byte vectors are lists of \<open>8 word\<close>; the random numbers are 64 bits wide, as in the code; indices are natural
  numbers. The scores of the decoder are integers: \<open>scores_in_range\<close> shows that an \<^verbatim>\<open>int32_t\<close> holds all of them.
  \<open>None\<close> stands for a failed \<^verbatim>\<open>CHECK\<close>.
\<close>

unbundle bit_operations_syntax

section \<open>Constants\<close>

definition BYTE_LENGTH :: nat where "BYTE_LENGTH = 8"
definition CODEWORD_BYTES :: nat where "CODEWORD_BYTES = 2"
definition CODEWORD_BITS :: nat where "CODEWORD_BITS = CODEWORD_BYTES * BYTE_LENGTH"
definition CODE_K :: nat where "CODE_K = CODEWORD_BITS - 1"
definition ENCODE_LENGTH :: nat where "ENCODE_LENGTH = push_bit CODE_K 1"
definition KEY_CODEWORD_BYTES :: nat where "KEY_CODEWORD_BYTES = 2"
definition KEY_CODEWORDS :: nat where "KEY_CODEWORDS = KEY_CODEWORD_BYTES * BYTE_LENGTH"
definition KEY_SIZE_IN_BYTES :: nat where "KEY_SIZE_IN_BYTES = KEY_CODEWORDS * CODEWORD_BYTES"
definition OUTPUT_SIZE_BYTES :: nat where "OUTPUT_SIZE_BYTES = ENCODE_LENGTH * KEY_CODEWORD_BYTES"

definition RNG_MODULUS :: "64 word" where "RNG_MODULUS = 0x7fffffff"
definition RNG_MUL :: "64 word" where "RNG_MUL = 742938285"
definition RNG_SEED :: "64 word" where "RNG_SEED = 20170705"
definition RNG_INV_MUL :: "64 word" where "RNG_INV_MUL = 1413043504"
definition RNG_INV_SEED :: "64 word" where "RNG_INV_SEED = 1173538311"

lemma hadamard_sizes:
  "CODEWORD_BITS = 16" "CODE_K = 15" "ENCODE_LENGTH = 2 ^ 15" "KEY_CODEWORD_BYTES = 2" "KEY_CODEWORDS = 16"
  "CODEWORD_BYTES = 2" "KEY_SIZE_IN_BYTES = 32" "OUTPUT_SIZE_BYTES = 2 ^ 16"
  by (simp_all add: CODEWORD_BITS_def CODE_K_def ENCODE_LENGTH_def KEY_CODEWORD_BYTES_def KEY_CODEWORDS_def
      CODEWORD_BYTES_def BYTE_LENGTH_def KEY_SIZE_IN_BYTES_def OUTPUT_SIZE_BYTES_def)

section \<open>Encoding\<close>

definition read_bit :: "8 word list \<Rightarrow> nat \<Rightarrow> 8 word" where
  "read_bit input b = drop_bit (b AND 7) (input ! drop_bit 3 b) AND 1"

text \<open>The key transposed: the \<open>i\<close>-th word has the \<open>i\<close>-th bit of each codeword.\<close>

definition wordmatrix :: "8 word list \<Rightarrow> 16 word list" where
  "wordmatrix input = map (\<lambda>i. fold (\<lambda>j word. word OR push_bit j (ucast (read_bit input (i + j * CODEWORD_BITS))))
     [0..<KEY_CODEWORDS] 0) [0..<CODEWORD_BITS]"

text \<open>One iteration of the loop in Gray code order.\<close>

definition grayStep :: "16 word list \<Rightarrow> nat \<Rightarrow> 16 word \<times> nat \<Rightarrow> 16 word \<times> nat" where
  "grayStep matrix i = (\<lambda>(val, ix). case find (\<lambda>b. i AND push_bit b 1 \<noteq> 0) [0..<CODEWORD_BITS] of
     None \<Rightarrow> (val, ix) | Some b \<Rightarrow> (val XOR matrix ! b, ix XOR push_bit b 1))"

definition encodeStep ::
  "16 word list \<Rightarrow> nat \<Rightarrow> 8 word list \<times> 16 word \<times> nat \<Rightarrow> 8 word list \<times> 16 word \<times> nat" where
  "encodeStep matrix i = (\<lambda>(result, vi). let (val, ix) = grayStep matrix i vi in
     (result[ix * KEY_CODEWORD_BYTES := ucast (val AND 0xff), ix * KEY_CODEWORD_BYTES + 1 := ucast (drop_bit 8 val)], val, ix))"

definition encodeWords :: "16 word list \<Rightarrow> 8 word list" where
  "encodeWords matrix = fst (fold (encodeStep matrix) [0..<ENCODE_LENGTH]
     (replicate OUTPUT_SIZE_BYTES 0, matrix ! (CODEWORD_BITS - 1), 0))"

text \<open>The inverse shuffle, from the last byte to the second one.\<close>

definition shuffleStep :: "nat \<Rightarrow> 8 word list \<times> 64 word \<Rightarrow> 8 word list \<times> 64 word" where
  "shuffleStep i = (\<lambda>(result, rng_state). let j = unat (rng_state mod word_of_nat (i + 1)); t = result ! i in
     (result[i := result ! j, j := t], rng_state * RNG_INV_MUL mod RNG_MODULUS))"

definition inverseShuffle :: "8 word list \<Rightarrow> 8 word list" where
  "inverseShuffle result = fst (fold shuffleStep (rev [1..<OUTPUT_SIZE_BYTES]) (result, RNG_INV_SEED))"

definition EncodeKey :: "8 word list \<Rightarrow> 8 word list option" where
  "EncodeKey input = (if length input \<noteq> KEY_SIZE_IN_BYTES then None
     else Some (inverseShuffle (encodeWords (wordmatrix input))))"

section \<open>Decoding\<close>

text \<open>The conditional copy of a range of bytes, and of a \<^verbatim>\<open>struct\<close> by its bytes: two of the codeword, two of padding, four of
  the score.\<close>

definition CondCopy :: "32 word \<Rightarrow> 8 word list \<Rightarrow> 8 word list \<Rightarrow> 8 word list" where
  "CondCopy ctl dest src = map2 (\<lambda>d s. ucast (ucast d XOR (- ctl AND (ucast s XOR ucast d)) :: 32 word)) dest src"

record CodewordWinner =
  codeword :: "16 word"
  score :: int

definition winnerBytes :: "CodewordWinner \<Rightarrow> 8 word list" where
  "winnerBytes w = (let s = word_of_int (score w) :: 32 word in
     [ucast (codeword w), ucast (drop_bit 8 (codeword w)), 0, 0,
      ucast s, ucast (drop_bit 8 s), ucast (drop_bit 16 s), ucast (drop_bit 24 s)])"

definition winnerOfBytes :: "8 word list \<Rightarrow> CodewordWinner" where
  "winnerOfBytes b = \<lparr>codeword = ucast (b ! 0) OR push_bit 8 (ucast (b ! 1)),
     score = sint (ucast (b ! 4) OR push_bit 8 (ucast (b ! 5)) OR push_bit 16 (ucast (b ! 6)) OR
       push_bit 24 (ucast (b ! 7)) :: 32 word)\<rparr>"

definition CopyWinner :: "CodewordWinner \<Rightarrow> CodewordWinner \<Rightarrow> CodewordWinner" where
  "CopyWinner src dest = winnerOfBytes (CondCopy (drop_bit 31 (word_of_int (score dest - score src)))
     (winnerBytes dest) (winnerBytes src))"

definition initialScores :: "nat \<Rightarrow> 8 word list \<Rightarrow> int list" where
  "initialScores word encoded = map (\<lambda>i. 1 - 2 * uint (read_bit encoded (i * KEY_CODEWORDS + word))) [0..<ENCODE_LENGTH]"

definition butterfly :: "nat \<Rightarrow> nat \<Rightarrow> int list \<Rightarrow> int list" where
  "butterfly step k scores = (let a0 = scores ! k; a1 = scores ! (k + step) in
     scores[k := a0 + a1, k + step := a0 - a1])"

text \<open>The loop over \<open>j\<close>, from 0 in steps of \<open>2 * step\<close>, and the loop over \<open>k\<close> in it.\<close>

definition hadamardStage :: "nat \<Rightarrow> int list \<Rightarrow> int list" where
  "hadamardStage i scores = (let step = push_bit i 1 in
     fold (\<lambda>j. fold (butterfly step) [j..<j + step]) (map (\<lambda>m. m * (2 * step)) [0..<ENCODE_LENGTH div (2 * step)]) scores)"

definition hadamardScores :: "int list \<Rightarrow> int list" where
  "hadamardScores scores = fold hadamardStage [0..<CODE_K] scores"

definition bestStep :: "int list \<Rightarrow> nat \<Rightarrow> CodewordWinner \<Rightarrow> CodewordWinner" where
  "bestStep scores i best =
     CopyWinner \<lparr>codeword = word_of_nat (i OR push_bit CODE_K 1), score = - (scores ! i)\<rparr>
       (CopyWinner \<lparr>codeword = word_of_nat i, score = scores ! i\<rparr> best)"

definition DecodeWord :: "nat \<Rightarrow> 8 word list \<Rightarrow> 16 word" where
  "DecodeWord word encoded = (let scores = hadamardScores (initialScores word encoded) in
     codeword (fold (bestStep scores) [0..<ENCODE_LENGTH] \<lparr>codeword = 0, score = - int (ENCODE_LENGTH + 1)\<rparr>))"

text \<open>The forward shuffle of the bytes read, into a new vector.\<close>

definition unshuffleStep :: "8 word list \<Rightarrow> nat \<Rightarrow> 8 word list \<times> 64 word \<Rightarrow> 8 word list \<times> 64 word" where
  "unshuffleStep shuffled i = (\<lambda>(encoded, rng_state). let j = unat (rng_state mod word_of_nat (i + 1)) in
     (encoded[i := encoded ! j, j := shuffled ! i], rng_state * RNG_MUL mod RNG_MODULUS))"

definition forwardShuffle :: "8 word list \<Rightarrow> 8 word list" where
  "forwardShuffle shuffled = fst (fold (unshuffleStep shuffled) [1..<OUTPUT_SIZE_BYTES]
     ((replicate OUTPUT_SIZE_BYTES 0)[0 := shuffled ! 0], RNG_SEED))"

definition DecodeKey :: "8 word list \<Rightarrow> 8 word list option" where
  "DecodeKey shuffled = (if length shuffled \<noteq> OUTPUT_SIZE_BYTES then None
     else let encoded = forwardShuffle shuffled in
       Some (concat (map (\<lambda>i. let val = DecodeWord i encoded in [ucast (val AND 0xff), ucast (drop_bit 8 val)])
         [0..<KEY_CODEWORDS])))"

end
