(* ===== verification/Hadamard_Encoding.thy ===== *)
theory Hadamard_Encoding
  imports Hadamard
begin

text \<open>
  What the encoder of \<^verbatim>\<open>HadamardUtils\<close> computes: the loop in Gray code order visits every position once, and writes
  at each the word whose bits are the bits of the encodings of the sixteen codewords (\<open>encodeWords_filled\<close>).
\<close>

unbundle bit_operations_syntax

section \<open>Bits of bytes\<close>

lemma read_bit_bit: "read_bit input b = (if bit (input ! (b div 8)) (b mod 8) then 1 else 0)"
proof -
  have "b AND 7 = b mod 8" using take_bit_eq_mask [of 3 b] by (simp add: mask_eq_exp_minus_1 take_bit_eq_mod)
  moreover have "drop_bit 3 b = b div 8" by (simp add: drop_bit_eq_div)
  moreover have "x AND 1 = (if bit x 0 then 1 else 0)" for x :: "8 word"
    by (simp add: and_one_eq mod2_eq_if bit_0)
  ultimately show ?thesis by (simp add: read_bit_def bit_drop_bit_eq)
qed

lemma byte_ext: "(\<And>k. k < 8 \<Longrightarrow> bit x k = bit y k) \<Longrightarrow> x = y" for x y :: "8 word"
  by (rule bit_word_eqI) simp

lemma fold_or_bits:
  "bit (fold (\<lambda>j word. word OR push_bit j (if P j then 1 else 0)) [0..<n] (0 :: 16 word)) w \<longleftrightarrow> w < n \<and> w < 16 \<and> P w"
  by (induction n) (auto simp: bit_or_iff bit_push_bit_iff less_Suc_eq bit_1_iff)

text \<open>The codeword \<open>w\<close> of a key, and the words of the transposed key.\<close>

definition keyBit :: "8 word list \<Rightarrow> nat \<Rightarrow> nat \<Rightarrow> bool" where
  "keyBit input w b = bit (input ! ((b + w * 16) div 8)) ((b + w * 16) mod 8)"

lemma wordmatrix_bit: "i < 16 \<Longrightarrow> w < 16 \<Longrightarrow> bit (wordmatrix input ! i) w = keyBit input w i"
proof -
  have "ucast (if c then 1 else 0 :: 8 word) = (if c then 1 else 0 :: 16 word)" for c by simp
  then show "i < 16 \<Longrightarrow> w < 16 \<Longrightarrow> bit (wordmatrix input ! i) w = keyBit input w i"
    by (simp add: wordmatrix_def hadamard_sizes read_bit_bit fold_or_bits keyBit_def)
qed

lemma length_wordmatrix [simp]: "length (wordmatrix input) = 16"
  by (simp add: wordmatrix_def hadamard_sizes)

section \<open>Gray code\<close>

definition gray :: "nat \<Rightarrow> nat" where
  "gray i = i XOR drop_bit 1 i"

lemma bit_gray: "bit (gray i) b \<longleftrightarrow> bit i b \<noteq> bit i (Suc b)"
  by (simp add: gray_def bit_xor_iff bit_drop_bit_eq)

lemma gray_0 [simp]: "gray 0 = 0"
  by (simp add: gray_def)

lemma less_exp_iff_bits: "x < 2 ^ n \<longleftrightarrow> (\<forall>b \<ge> n. \<not> bit x b)" for x :: nat
proof
  assume "x < 2 ^ n"
  then have "take_bit n x = x" by (simp add: take_bit_nat_eq_self)
  then show "\<forall>b \<ge> n. \<not> bit x b" by (metis bit_take_bit_iff not_le)
next
  assume "\<forall>b \<ge> n. \<not> bit x b"
  then have "take_bit n x = x" by (intro bit_eqI) (auto simp: bit_take_bit_iff not_le [symmetric])
  then show "x < 2 ^ n" by (metis take_bit_nat_less_exp)
qed

lemma gray_less: "i < 2 ^ n \<Longrightarrow> gray i < 2 ^ n"
  by (auto simp: less_exp_iff_bits bit_gray)

lemma gray_inj: "inj_on gray {..<2 ^ n}"
proof (rule inj_onI)
  fix i j :: nat assume ij: "i \<in> {..<2 ^ n}" "j \<in> {..<2 ^ n}" "gray i = gray j"
  have "bit i (n - d) = bit j (n - d)" for d
  proof (induction d)
    case 0
    then show ?case using ij(1,2) by (auto simp: less_exp_iff_bits)
  next
    case (Suc d)
    show ?case
    proof (cases "d < n")
      case True
      then have s: "Suc (n - Suc d) = n - d" by simp
      have "bit (gray i) (n - Suc d) = bit (gray j) (n - Suc d)" using ij(3) by simp
      then show ?thesis using Suc.IH unfolding bit_gray s by blast
    next
      case False
      then show ?thesis using Suc.IH by simp
    qed
  qed
  then have "bit i b = bit j b" for b
    using ij(1,2) by (cases "b \<le> n") (metis diff_diff_cancel, auto simp: less_exp_iff_bits)
  then show "i = j" by (intro bit_eqI) simp
qed

lemma gray_surj: "m < 2 ^ n \<Longrightarrow> \<exists>i < 2 ^ n. gray i = m"
proof -
  have "gray ` {..<2 ^ n} = {..<2 ^ n}"
    by (rule endo_inj_surj) (use gray_less gray_inj in auto)
  then show "m < 2 ^ n \<Longrightarrow> \<exists>i < 2 ^ n. gray i = m" by (metis imageE lessThan_iff)
qed

text \<open>Going to the next number flips the bits up to its lowest one, and one bit of its Gray code.\<close>

lemma bit_pred:
  fixes i :: nat
  assumes "bit i b" "\<And>c. c < b \<Longrightarrow> \<not> bit i c"
  shows "bit (i - 1) c \<longleftrightarrow> (if c < b then True else if c = b then False else bit i c)"
proof -
  define h where "h = push_bit (Suc b) (drop_bit (Suc b) i)"
  have h: "bit h c \<longleftrightarrow> b < c \<and> bit i c" for c
    unfolding h_def by (simp only: bit_push_bit_iff bit_drop_bit_eq) (auto simp: Suc_le_eq)
  have "i = h OR 2 ^ b"
    by (rule bit_eqI) (use assms h in \<open>auto simp: bit_or_iff bit_exp_iff not_less dest: le_neq_implies_less intro: ccontr\<close>)
  also have "\<dots> = h + 2 ^ b"
    by (rule disjunctive_add_eq_or [symmetric], rule bit_eqI) (simp add: bit_and_iff h bit_exp_iff)
  finally have "i - 1 = h + mask b" by (simp add: mask_eq_exp_minus_1)
  also have "\<dots> = h OR mask b"
    by (rule disjunctive_add_eq_or, rule bit_eqI) (simp add: bit_and_iff h bit_mask_iff)
  finally show ?thesis using h by (auto simp: bit_or_iff bit_mask_iff)
qed

lemma gray_step:
  assumes "bit i b" "\<And>c. c < b \<Longrightarrow> \<not> bit i c"
  shows "gray (i - 1) XOR push_bit b 1 = gray i"
proof (rule bit_eqI)
  fix c
  show "bit (gray (i - 1) XOR push_bit b 1) c = bit (gray i) c"
    using assms bit_pred [OF assms, of c] bit_pred [OF assms, of "Suc c"]
    by (cases "Suc c = b") (auto simp: bit_xor_iff bit_gray bit_exp_iff less_Suc_eq split: if_splits)
qed


section \<open>The encoding of a codeword\<close>

text \<open>The word that encodes position \<open>n\<close>: its bits are the bits of the encodings of the codewords at \<open>n\<close>.\<close>

definition encodedWord :: "16 word list \<Rightarrow> nat \<Rightarrow> 16 word" where
  "encodedWord matrix n = fold (\<lambda>b val. if bit n b then val XOR matrix ! b else val) [0..<15] (matrix ! 15)"

lemma fold_xor_commute:
  "fold (\<lambda>b val. if P b then val XOR m b else val) bs (a XOR c) = fold (\<lambda>b val. if P b then val XOR m b else val) bs a XOR c"
  for a c :: "16 word"
proof (induction bs arbitrary: a)
  case (Cons b bs)
  have "(a XOR c) XOR m b = (a XOR m b) XOR c" by (simp add: ac_simps)
  then show ?case using Cons.IH [of "a XOR m b"] Cons.IH [of a] by simp
qed simp

lemma encodedWord_flip:
  assumes "b < 15"
  shows "encodedWord matrix (n XOR push_bit b 1) = encodedWord matrix n XOR matrix ! b"
proof -
  have bits: "bit (n XOR 2 ^ b) c = (bit n c \<noteq> (c = b))" for c
    by (simp add: bit_xor_iff bit_exp_iff eq_commute [of b])
  define f where "f n = (\<lambda>c (val :: 16 word). if bit n c then val XOR matrix ! c else val)" for n :: nat
  have split: "[0..<15] = [0..<b] @ b # [Suc b..<15]"
    using assms upt_add_eq_append [of 0 b "15 - b"] by (simp add: upt_conv_Cons)
  have same: "fold (f (n XOR 2 ^ b)) bs = fold (f n) bs" if "b \<notin> set bs" for bs
    by (rule ext, rule fold_cong) (use that bits in \<open>auto simp: f_def fun_eq_iff\<close>)
  have pre: "fold (f (n XOR 2 ^ b)) [0..<b] = fold (f n) [0..<b]"
    and post: "fold (f (n XOR 2 ^ b)) [Suc b..<15] = fold (f n) [Suc b..<15]"
    by (rule same, simp)+
  have mid: "f (n XOR 2 ^ b) b v = f n b v XOR matrix ! b" for v
    using bits by (simp add: f_def xor.assoc)
  have comm: "fold (f n) bs (v XOR c) = fold (f n) bs v XOR c" for bs v c
    unfolding f_def by (rule fold_xor_commute)
  show ?thesis
    unfolding push_bit_of_1 encodedWord_def split f_def [symmetric] by (simp add: pre post mid comm)
qed

lemma grayStep_lowest:
  assumes "i < 2 ^ 15" "i \<noteq> 0"
  obtains b where "b < 15" "bit i b" "\<forall>c < b. \<not> bit i c"
    "grayStep matrix i (val, ix) = (val XOR matrix ! b, ix XOR push_bit b 1)"
proof -
  have t: "(i AND push_bit b 1 \<noteq> 0) = bit i b" for b
    by (simp add: bit_iff_and_push_bit_not_eq_0)
  have high: "c < 15" if "bit i c" for c
    using assms(1) that less_exp_iff_bits [of i 15] by (meson not_le)
  obtain b0 where b0: "bit i b0" using assms(2) by (metis bit_0_eq bit_eqI bot_apply bot_bool_def)
  then have "b0 < 15" by (rule high)
  then have "find (bit i) [0..<16] \<noteq> None" using b0 by (auto simp: find_None_iff intro!: exI [of _ b0])
  then obtain b where b: "find (bit i) [0..<16] = Some b" by auto
  then have "bit i b" "\<forall>c < b. \<not> bit i c" by (auto simp: find_Some_iff)
  moreover from this have "b < 15" using high by blast
  moreover have "grayStep matrix i (val, ix) = (val XOR matrix ! b, ix XOR push_bit b 1)"
    by (simp only: grayStep_def hadamard_sizes t b prod.case option.case)
  ultimately show ?thesis using that by blast
qed

text \<open>After \<open>m\<close> iterations the encodings at the Gray codes below \<open>m\<close> are filled in.\<close>

definition filled :: "16 word list \<Rightarrow> 8 word list \<Rightarrow> nat \<Rightarrow> bool" where
  "filled matrix result n \<longleftrightarrow> result ! (n * 2) = ucast (encodedWord matrix n AND 0xff) \<and>
     result ! (n * 2 + 1) = ucast (drop_bit 8 (encodedWord matrix n))"

lemma encode_loop:
  assumes "m \<le> 2 ^ 15" "length result = 2 ^ 16"
  shows "\<exists>result'. fold (encodeStep matrix) [0..<m] (result, matrix ! 15, 0) =
      (result', encodedWord matrix (gray (m - 1)), gray (m - 1)) \<and> length result' = 2 ^ 16 \<and> (\<forall>i < m. filled matrix result' (gray i))"
  using assms(1)
proof (induction m)
  case 0
  have "fold (\<lambda>b val. val) xs a = a" for xs :: "nat list" and a :: "16 word" by (induction xs) simp_all
  then show ?case using assms(2) by (simp add: encodedWord_def)
next
  case (Suc m)
  then obtain result1 where IH: "fold (encodeStep matrix) [0..<m] (result, matrix ! 15, 0) =
      (result1, encodedWord matrix (gray (m - 1)), gray (m - 1))" "length result1 = 2 ^ 16"
    "\<forall>i < m. filled matrix result1 (gray i)" by auto
  have step: "grayStep matrix m (encodedWord matrix (gray (m - 1)), gray (m - 1)) = (encodedWord matrix (gray m), gray m)"
  proof (cases "m = 0")
    case True
    have "find (\<lambda>b. False) xs = None" for xs :: "nat list" by (simp add: find_None_iff)
    then show ?thesis by (simp add: True grayStep_def)
  next
    case False
    obtain b where b: "b < 15" "bit m b" "\<forall>c < b. \<not> bit m c"
      "grayStep matrix m (encodedWord matrix (gray (m - 1)), gray (m - 1)) =
        (encodedWord matrix (gray (m - 1)) XOR matrix ! b, gray (m - 1) XOR push_bit b 1)"
      using grayStep_lowest [of m matrix "encodedWord matrix (gray (m - 1))" "gray (m - 1)"] Suc.prems False by auto
    show ?thesis
      unfolding b(4) using gray_step [OF b(2)] b(1,3) encodedWord_flip [OF b(1), of matrix "gray (m - 1)"] by simp
  qed
  define w where "w = encodedWord matrix (gray m)"
  define result' where "result' = result1[gray m * 2 := ucast (w AND 0xff), gray m * 2 + 1 := ucast (drop_bit 8 w)]"
  have "gray m < 2 ^ 15" by (rule gray_less) (use Suc.prems in simp)
  then have r: "gray m * 2 + 1 < length result1" by (simp add: IH(2))
  have "filled matrix result' (gray i)" if "i < Suc m" for i
  proof (cases "gray i = gray m")
    case True
    then show ?thesis using r by (simp add: filled_def result'_def w_def)
  next
    case False
    then have "i < m" using that by (auto simp: less_Suc_eq)
    moreover have "gray i * 2 \<noteq> gray m * 2 + 1" "gray i * 2 + 1 \<noteq> gray m * 2" by presburger+
    ultimately show ?thesis using IH(3) False by (simp add: filled_def result'_def)
  qed
  moreover have "fold (encodeStep matrix) [0..<Suc m] (result, matrix ! 15, 0) = (result', w, gray m)"
    using IH(1) step by (simp add: encodeStep_def hadamard_sizes result'_def w_def)
  ultimately show ?case using IH(2) by (simp add: w_def result'_def)
qed

lemma encodeWords_filled:
  "length (encodeWords matrix) = 2 ^ 16" "n < 2 ^ 15 \<Longrightarrow> filled matrix (encodeWords matrix) n"
proof -
  obtain result' where r: "fold (encodeStep matrix) [0..<2 ^ 15] (replicate (2 ^ 16) 0, matrix ! 15, 0) =
      (result', encodedWord matrix (gray (2 ^ 15 - 1)), gray (2 ^ 15 - 1))" "length result' = 2 ^ 16"
    "\<forall>i < 2 ^ 15. filled matrix result' (gray i)"
    using encode_loop [of "2 ^ 15" "replicate (2 ^ 16) 0" matrix] by auto
  then have e: "encodeWords matrix = result'" unfolding encodeWords_def hadamard_sizes by simp
  show "length (encodeWords matrix) = 2 ^ 16" by (simp only: e r(2))
  show "filled matrix (encodeWords matrix) n" if "n < 2 ^ 15"
    using gray_surj [OF that] r(3) unfolding e by blast
qed

end
