(* ===== verification/Hadamard_Transform.thy ===== *)
theory Hadamard_Transform
  imports Hadamard_Encoding
begin

text \<open>
  What the loops of the decoder compute: the butterflies in place are the Walsh-Hadamard transform of the signs read
  (\<open>hadamardScores_walsh\<close>, \<open>walsh_sum\<close>), its values fit the width of a score (\<open>walsh_bound\<close>), and the encodings of
  different codewords agree in at most half of their positions (\<open>chi_sum_le\<close>).
\<close>

unbundle bit_operations_syntax

section \<open>The Hadamard transform\<close>

text \<open>One stage combines the values at indices that differ in bit \<open>i\<close>; \<open>walsh\<close> is what \<open>i\<close> stages compute.\<close>

fun walsh :: "nat \<Rightarrow> (nat \<Rightarrow> int) \<Rightarrow> nat \<Rightarrow> int" where
  "walsh 0 f n = f n"
| "walsh (Suc i) f n =
    (if bit n i then walsh i f (n - 2 ^ i) - walsh i f n else walsh i f n + walsh i f (n + 2 ^ i))"

lemma bit_iff_upper_half:
  fixes r :: nat
  assumes "r < 2 * 2 ^ i"
  shows "bit (m * (2 * 2 ^ i) + r) i \<longleftrightarrow> 2 ^ i \<le> r"
proof -
  have "(m * (2 * 2 ^ i) + r) div 2 ^ i = 2 * m + r div 2 ^ i"
    using div_mult_self1 [of "2 ^ i" r "2 * m"] by (simp add: ac_simps)
  moreover have "r div 2 ^ i = (if 2 ^ i \<le> r then 1 else 0)"
    using assms by (auto simp: div_eq_0_iff not_le intro: div_nat_eqI)
  ultimately show ?thesis by (simp add: bit_iff_odd)
qed

lemma stage_indices:
  "concat (map (\<lambda>m. [m * (2 * 2 ^ i)..<m * (2 * 2 ^ i) + 2 ^ i]) [0..<M]) = filter (\<lambda>k. \<not> bit k i) [0..<M * (2 * 2 ^ i)]"
proof (induction M)
  case (Suc M)
  define s :: nat where "s = 2 ^ i"
  have split: "[0..<Suc M * (2 * s)] = [0..<M * (2 * s)] @ [M * (2 * s)..<M * (2 * s) + s] @ [M * (2 * s) + s..<Suc M * (2 * s)]"
    using upt_add_eq_append [of 0 "M * (2 * s)" "2 * s"] upt_add_eq_append [of "M * (2 * s)" "M * (2 * s) + s" s]
    by (simp add: algebra_simps)
  have bits: "bit k i \<longleftrightarrow> M * (2 * s) + s \<le> k" if "M * (2 * s) \<le> k" "k < Suc M * (2 * s)" for k
    using bit_iff_upper_half [of "k - M * (2 * s)" i M] that by (auto simp: s_def)
  have "filter (\<lambda>k. \<not> bit k i) [M * (2 * s)..<M * (2 * s) + s] = [M * (2 * s)..<M * (2 * s) + s]"
    by (rule filter_True) (use bits in auto)
  moreover have "filter (\<lambda>k. \<not> bit k i) [M * (2 * s) + s..<Suc M * (2 * s)] = []"
    by (rule filter_False) (use bits in auto)
  ultimately have "filter (\<lambda>k. \<not> bit k i) [0..<Suc M * (2 * s)] =
      filter (\<lambda>k. \<not> bit k i) [0..<M * (2 * s)] @ [M * (2 * s)..<M * (2 * s) + s]"
    by (simp only: split filter_append append_Nil2)
  then show ?case using Suc.IH unfolding s_def [symmetric] by (simp del: mult_Suc)
qed simp

lemma bit_add_exp:
  fixes k :: nat
  assumes "\<not> bit k i"
  shows "bit (k + 2 ^ i) c \<longleftrightarrow> c = i \<or> bit k c"
proof -
  have "k + 2 ^ i = k OR 2 ^ i"
    by (rule disjunctive_add_eq_or, rule bit_eqI) (use assms in \<open>auto simp: bit_and_iff bit_exp_iff\<close>)
  then show ?thesis by (auto simp: bit_or_iff bit_exp_iff)
qed

lemma bit_sub_exp:
  fixes k :: nat
  assumes "bit k i"
  shows "2 ^ i \<le> k" "bit (k - 2 ^ i) c \<longleftrightarrow> c \<noteq> i \<and> bit k c"
proof -
  have "k div 2 ^ i \<noteq> 0" using assms by (metis bit_iff_odd even_zero)
  then show le: "2 ^ i \<le> k" by (metis div_less not_le)
  define h where "h = k XOR 2 ^ i"
  have h: "bit h c \<longleftrightarrow> c \<noteq> i \<and> bit k c" for c
    using assms by (auto simp: h_def bit_xor_iff bit_exp_iff)
  have "k = h + 2 ^ i"
    by (rule bit_eqI) (use assms h bit_add_exp [of h i] in auto)
  then show "bit (k - 2 ^ i) c \<longleftrightarrow> c \<noteq> i \<and> bit k c" using h by simp
qed

lemma butterflies:
  assumes "distinct ks" "\<forall>k \<in> set ks. \<not> bit k i \<and> k + 2 ^ i < length xs"
  shows "length (fold (butterfly (2 ^ i)) ks xs) = length xs"
    and "m < length xs \<Longrightarrow> fold (butterfly (2 ^ i)) ks xs ! m =
      (if m \<in> set ks then xs ! m + xs ! (m + 2 ^ i)
       else if bit m i \<and> m - 2 ^ i \<in> set ks then xs ! (m - 2 ^ i) - xs ! m else xs ! m)"
proof -
  have "length (fold (butterfly (2 ^ i)) ks xs) = length xs \<and>
    (\<forall>m < length xs. fold (butterfly (2 ^ i)) ks xs ! m =
      (if m \<in> set ks then xs ! m + xs ! (m + 2 ^ i)
       else if bit m i \<and> m - 2 ^ i \<in> set ks then xs ! (m - 2 ^ i) - xs ! m else xs ! m))"
    using assms
  proof (induction ks arbitrary: xs)
    case (Cons k ks)
    define s :: nat where "s = 2 ^ i"
    define ys where "ys = butterfly s k xs"
    have k: "\<not> bit k i" "k + s < length xs" "k \<notin> set ks" using Cons.prems by (auto simp: s_def)
    have s0: "0 < s" by (simp add: s_def)
    have len: "length ys = length xs" by (simp add: ys_def butterfly_def Let_def)
    have at: "ys ! m = (if m = k + s then xs ! k - xs ! (k + s) else if m = k then xs ! k + xs ! (k + s) else xs ! m)" for m
      using k(2) s0 by (auto simp: ys_def butterfly_def Let_def nth_list_update)
    have "distinct ks" "\<forall>k \<in> set ks. \<not> bit k i \<and> k + 2 ^ i < length ys" using Cons.prems by (auto simp: len)
    note IH = Cons.IH [OF this, folded s_def]
    have other: "k' \<noteq> k + s \<and> k' + s \<noteq> k \<and> k' + s \<noteq> k + s" if "k' \<in> set ks" for k'
    proof -
      have "\<not> bit k' i" "k' \<noteq> k" using Cons.prems that k(3) by auto
      then show ?thesis using k(1) bit_add_exp [of k i i] bit_add_exp [of k' i i] by (auto simp: s_def)
    qed
    have main: "fold (butterfly s) (k # ks) xs ! m =
        (if m \<in> set (k # ks) then xs ! m + xs ! (m + s)
         else if bit m i \<and> m - s \<in> set (k # ks) then xs ! (m - s) - xs ! m else xs ! m)" if m: "m < length xs" for m
    proof -
      have f: "fold (butterfly s) (k # ks) xs ! m = (if m \<in> set ks then ys ! m + ys ! (m + s)
         else if bit m i \<and> m - s \<in> set ks then ys ! (m - s) - ys ! m else ys ! m)"
        using IH m by (simp add: ys_def [symmetric] len)
      consider "m = k" | "m = k + s" | "m \<in> set ks" | "m \<noteq> k" "m \<noteq> k + s" "m \<notin> set ks" by blast
      then show ?thesis
      proof cases
        case 1
        then show ?thesis using f k at s0 by auto
      next
        case 2
        have b: "bit m i" using bit_add_exp [OF k(1), of i] 2 by (simp add: s_def)
        then have "m \<notin> set (k # ks)" using k(1) Cons.prems(2) by auto
        then show ?thesis using f b k 2 at s0 by auto
      next
        case 3
        then show ?thesis using f other [OF 3] at k by auto
      next
        case 4
        show ?thesis
        proof (cases "bit m i \<and> m - s \<in> set ks")
          case True
          then have "m - s + s = m" using bit_sub_exp(1) [of m i] by (simp add: s_def)
          then show ?thesis using f 4 True other [of "m - s"] at k(3) by auto
        next
          case False
          have "\<not> (bit m i \<and> m - s = k)" using 4 bit_sub_exp(1) [of m i] by (auto simp: s_def)
          then show ?thesis using f 4 False at by auto
        qed
      qed
    qed
    have "length (fold (butterfly s) (k # ks) xs) = length xs" using IH by (simp add: ys_def [symmetric] len)
    then show ?case using main unfolding s_def by blast
  qed simp
  then show "length (fold (butterfly (2 ^ i)) ks xs) = length xs"
    and "m < length xs \<Longrightarrow> fold (butterfly (2 ^ i)) ks xs ! m =
      (if m \<in> set ks then xs ! m + xs ! (m + 2 ^ i)
       else if bit m i \<and> m - 2 ^ i \<in> set ks then xs ! (m - 2 ^ i) - xs ! m else xs ! m)" by blast+
qed

lemma fold_fold_concat: "fold (\<lambda>j. fold f (g j)) js x = fold f (concat (map g js)) x"
  by (induction js arbitrary: x) simp_all

lemma less_ENCODE_LENGTH: "k < ENCODE_LENGTH \<longleftrightarrow> (\<forall>b \<ge> 15. \<not> bit k b)"
  unfolding hadamard_sizes by (rule less_exp_iff_bits)

lemma stage_walsh:
  assumes "i < 15"
  shows "hadamardStage i (map (walsh i f) [0..<ENCODE_LENGTH]) = map (walsh (Suc i) f) [0..<ENCODE_LENGTH]"
proof (rule nth_equalityI)
  define xs where "xs = map (walsh i f) [0..<ENCODE_LENGTH]"
  define M where "M = ENCODE_LENGTH div (2 * 2 ^ i)"
  define ks where "ks = filter (\<lambda>k. \<not> bit k i) [0..<ENCODE_LENGTH]"
  have "(2::nat) ^ (14 - i) * (2 * 2 ^ i) = 2 ^ (14 - i + Suc i)" by (simp add: power_add)
  also have "\<dots> = ENCODE_LENGTH" using assms by (simp add: hadamard_sizes)
  finally have M: "M * (2 * 2 ^ i) = ENCODE_LENGTH"
    unfolding M_def by (metis nonzero_mult_div_cancel_right power_not_zero mult_eq_0_iff zero_neq_numeral)
  have stage: "hadamardStage i xs = fold (butterfly (2 ^ i)) ks xs"
    unfolding hadamardStage_def Let_def push_bit_of_1 M_def [symmetric] fold_fold_concat [of _ "\<lambda>j. [j..<j + 2 ^ i]"]
    by (simp add: comp_def stage_indices M ks_def)
  have len: "length xs = ENCODE_LENGTH" by (simp add: xs_def)
  have in_range: "k + 2 ^ i < ENCODE_LENGTH" if "\<not> bit k i" "k < ENCODE_LENGTH" for k
    using that(2) assms unfolding less_ENCODE_LENGTH bit_add_exp [OF that(1)] by auto
  have ks: "distinct ks" "\<forall>k \<in> set ks. \<not> bit k i \<and> k + 2 ^ i < length xs"
    using in_range by (auto simp: ks_def len)
  note but = butterflies [OF ks]
  show "length (hadamardStage i (map (walsh i f) [0..<ENCODE_LENGTH])) = length (map (walsh (Suc i) f) [0..<ENCODE_LENGTH])"
    by (simp add: stage but(1) len flip: xs_def)
  fix m assume "m < length (hadamardStage i (map (walsh i f) [0..<ENCODE_LENGTH]))"
  then have m: "m < ENCODE_LENGTH" by (simp add: stage but(1) len flip: xs_def)
  have at: "xs ! k = walsh i f k" if "k < ENCODE_LENGTH" for k using that by (simp add: xs_def)
  have mem: "k \<in> set ks \<longleftrightarrow> k < ENCODE_LENGTH \<and> \<not> bit k i" for k by (auto simp: ks_def)
  have "hadamardStage i xs ! m = walsh (Suc i) f m"
  proof (cases "bit m i")
    case True
    have "m - 2 ^ i < ENCODE_LENGTH" "\<not> bit (m - 2 ^ i) i" using m bit_sub_exp(2) [OF True, of i] by auto
    then show ?thesis using but(2) [of m] m True by (simp add: stage len mem at)
  next
    case False
    then show ?thesis using but(2) [of m] m in_range [OF False m] by (simp add: stage len mem at)
  qed
  then show "hadamardStage i (map (walsh i f) [0..<ENCODE_LENGTH]) ! m = map (walsh (Suc i) f) [0..<ENCODE_LENGTH] ! m"
    using m by (simp flip: xs_def)
qed

lemma stages_walsh:
  "i \<le> 15 \<Longrightarrow> fold hadamardStage [0..<i] (map f [0..<ENCODE_LENGTH]) = map (walsh i f) [0..<ENCODE_LENGTH]"
proof (induction i)
  case (Suc i)
  then show ?case using stage_walsh [of i f] by simp
qed simp

lemma hadamardScores_walsh: "hadamardScores (map f [0..<ENCODE_LENGTH]) = map (walsh 15 f) [0..<ENCODE_LENGTH]"
  using stages_walsh [of 15 f] by (simp add: hadamardScores_def hadamard_sizes(2) del: upt_conv_Cons)

section \<open>Signs and orthogonality\<close>

definition sign :: "bool \<Rightarrow> int" where "sign b = (if b then - 1 else 1)"

lemma sign_xor: "sign (a \<noteq> b) = sign a * sign b" "sign (a \<noteq> b \<and> c) = sign (a \<and> c) * sign (b \<and> c)"
  by (auto simp: sign_def)

lemma sign_simps [simp]: "sign False = 1" "sign True = -1" "sign b * sign b = 1" "\<bar>sign b\<bar> = 1"
  by (auto simp: sign_def)

definition walshSign :: "nat \<Rightarrow> nat \<Rightarrow> nat \<Rightarrow> int" where
  "walshSign i n y = (\<Prod>b<i. sign (bit n b \<and> bit y b))"

lemma walshSign_cong: "(\<And>b. b < i \<Longrightarrow> bit n b = bit n' b \<and> bit y b = bit y' b) \<Longrightarrow> walshSign i n y = walshSign i n' y'"
  unfolding walshSign_def by (rule prod.cong) auto

lemma walshSign_Suc: "walshSign (Suc i) n y = walshSign i n y * sign (bit n i \<and> bit y i)"
  by (simp add: walshSign_def)

lemma sum_lessThan_double: "(\<Sum>y<2 * (m::nat). f y) = (\<Sum>y<m. f y) + (\<Sum>y<m. f (y + m))" for f :: "nat \<Rightarrow> int"
proof -
  have "(\<Sum>y<2 * m. f y) = (\<Sum>y<m. f y) + (\<Sum>y\<in>{m..<2 * m}. f y)"
    by (subst sum.union_disjoint [symmetric]) (auto intro: sum.cong)
  also have "(\<Sum>y\<in>{m..<2 * m}. f y) = (\<Sum>y<m. f (y + m))"
    using sum.shift_bounds_nat_ivl [of f 0 m m] by (simp add: atLeast0LessThan mult_2)
  finally show ?thesis .
qed

lemma bit_low: "y < 2 ^ i \<Longrightarrow> i \<le> b \<Longrightarrow> \<not> bit y b" for y :: nat
  by (simp add: less_exp_iff_bits)

lemma walsh_sum: "walsh i f n = (\<Sum>y<2 ^ i. walshSign i n y * f (2 ^ i * (n div 2 ^ i) + y))"
proof (induction i arbitrary: n)
  case 0
  then show ?case by (simp add: walshSign_def)
next
  case (Suc i)
  define s :: nat where "s = 2 ^ i"
  define q where "q = n div s"
  have s: "0 < s" "(2::nat) ^ Suc i = 2 * s" by (simp_all add: s_def)
  have low: "walshSign (Suc i) n y = walshSign i n y" if "y < s" for y
    using bit_low [of y i i] that by (simp add: walshSign_Suc s_def)
  have high: "walshSign (Suc i) n (y + s) = walshSign i n y * sign (bit n i)" if "y < s" for y
  proof -
    have nb: "\<not> bit y i" using bit_low [of y i i] that by (simp add: s_def)
    have "walshSign i n (y + s) = walshSign i n y"
      by (rule walshSign_cong) (use bit_add_exp [OF nb] in \<open>auto simp: s_def\<close>)
    then show ?thesis using bit_add_exp [OF nb, of i] by (simp add: walshSign_Suc s_def)
  qed
  have n2: "n div (2 * s) = q div 2" by (simp add: q_def div_mult2_eq mult.commute [of 2])
  have odd: "bit n i \<longleftrightarrow> odd q" by (simp add: q_def s_def bit_iff_odd)
  have total: "(\<Sum>y<2 ^ Suc i. walshSign (Suc i) n y * f (2 ^ Suc i * (n div 2 ^ Suc i) + y)) =
      (\<Sum>y < s. walshSign i n y * f (2 * s * (q div 2) + y)) +
      sign (bit n i) * (\<Sum>y < s. walshSign i n y * f (2 * s * (q div 2) + (y + s)))"
    unfolding s(2) sum_lessThan_double n2
    by (simp add: low high sum_distrib_left mult.assoc mult.left_commute)
  show ?case
  proof (cases "bit n i")
    case True
    then obtain r where q: "q = 2 * r + 1" using odd by (auto elim: oddE)
    have le: "s \<le> n" using bit_sub_exp(1) [OF True] by (simp add: s_def)
    have "(n - s) div s = q - 1" using le s(1) by (simp add: q_def le_div_geq)
    moreover have "walshSign i (n - s) y = walshSign i n y" for y
      by (rule walshSign_cong) (use bit_sub_exp(2) [OF True] in \<open>auto simp: s_def\<close>)
    ultimately show ?thesis
      unfolding total using True Suc.IH [of n] Suc.IH [of "n - s"]
      by (simp add: q ac_simps flip: s_def q_def)
  next
    case False
    then obtain r where q: "q = 2 * r" using odd by (auto elim: evenE)
    have "(n + s) div s = q + 1" using s(1) by (simp add: q_def div_add_self2)
    moreover have "walshSign i (n + s) y = walshSign i n y" for y
      by (rule walshSign_cong) (use bit_add_exp [OF False] in \<open>auto simp: s_def\<close>)
    ultimately show ?thesis
      unfolding total using False Suc.IH [of n] Suc.IH [of "n + s"]
      by (simp add: q ac_simps flip: s_def q_def)
  qed
qed

lemma walsh_bound: "(\<And>n. \<bar>f n\<bar> \<le> 1) \<Longrightarrow> \<bar>walsh i f n\<bar> \<le> 2 ^ i"
proof (induction i arbitrary: n)
  case (Suc i)
  from Suc.IH [OF Suc.prems, of n] Suc.IH [OF Suc.prems, of "n - 2 ^ i"] Suc.IH [OF Suc.prems, of "n + 2 ^ i"]
  show ?case by auto
qed simp

text \<open>The sign of the encoding of a codeword at a position.\<close>

definition chi :: "16 word \<Rightarrow> nat \<Rightarrow> int" where
  "chi c n = sign (bit c 15) * (\<Prod>b<15. sign (bit c b \<and> bit n b))"

lemma chi_xor: "chi (c XOR d) n = chi c n * chi d n"
  unfolding chi_def bit_xor_iff sign_xor prod.distrib by (simp add: ac_simps)

lemma prod_sign: "(\<Prod>b<(k::nat). sign (P b)) = 1 \<or> (\<Prod>b<k. sign (P b)) = - 1"
  by (induction k) (auto simp: sign_def)

lemma chi_values: "chi c n = 1 \<or> chi c n = - 1"
  using prod_sign [of "\<lambda>b. bit c b \<and> bit n b" 15] by (auto simp: chi_def sign_def)

lemma chi_self [simp]: "chi c n * chi c n = 1"
  using chi_values [of c n] by auto

lemma chi_sum_zero:
  assumes "b < 15" "bit d b"
  shows "(\<Sum>n<ENCODE_LENGTH. chi d n) = 0"
proof -
  have flip: "chi d (n XOR 2 ^ b) = - chi d n" for n
  proof -
    have bits: "bit (n XOR 2 ^ b) c = (bit n c \<noteq> (c = b))" for c by (auto simp: bit_xor_iff bit_exp_iff)
    have "(\<Prod>c<15. sign (bit d c \<and> bit (n XOR 2 ^ b) c)) = - (\<Prod>c<15. sign (bit d c \<and> bit n c))"
    proof -
      have "(\<Prod>c\<in>{..<15} - {b}. sign (bit d c \<and> bit (n XOR 2 ^ b) c)) = (\<Prod>c\<in>{..<15} - {b}. sign (bit d c \<and> bit n c))"
        by (rule prod.cong) (auto simp: bits)
      moreover have "sign (bit d b \<and> bit (n XOR 2 ^ b) b) = - sign (bit d b \<and> bit n b)"
        using assms(2) by (simp add: bits sign_def)
      ultimately show ?thesis
        using assms(1) by (simp add: prod.remove [of "{..<15}" b] lessThan_iff)
    qed
    then show ?thesis by (simp add: chi_def)
  qed
  have twice: "(n XOR 2 ^ b) XOR 2 ^ b = n" for n :: nat by (simp add: xor.assoc)
  have less: "n XOR 2 ^ b < ENCODE_LENGTH" if "n < ENCODE_LENGTH" for n
    using that assms(1) by (auto simp: less_ENCODE_LENGTH bit_xor_iff bit_exp_iff)
  have "(\<Sum>n<ENCODE_LENGTH. chi d n) = (\<Sum>n<ENCODE_LENGTH. chi d (n XOR 2 ^ b))"
    by (rule sum.reindex_bij_witness [of _ "\<lambda>n. n XOR 2 ^ b" "\<lambda>n. n XOR 2 ^ b"]) (auto simp: twice less)
  then show ?thesis by (simp add: flip sum_negf)
qed

lemma chi_sum_le:
  assumes "d \<noteq> 0"
  shows "(\<Sum>n<ENCODE_LENGTH. chi d n) \<le> 0"
proof (cases "\<exists>b<15. bit d b")
  case True
  then show ?thesis using chi_sum_zero by fastforce
next
  case False
  have "bit d 15"
  proof (rule ccontr)
    assume "\<not> bit d 15"
    then have "\<not> bit d b" if "b < 16" for b using False that by (cases "b = 15") auto
    then show False using assms by (auto intro!: bit_word_eqI)
  qed
  moreover have "(\<Prod>b<15. sign (bit d b \<and> bit n b)) = 1" for n
    by (rule prod.neutral) (use False in auto)
  ultimately have "chi d n = - 1" for n by (simp add: chi_def)
  then show ?thesis by simp
qed

end
