(* ===== verification/Hadamard_Decoding.thy ===== *)
theory Hadamard_Decoding
  imports Hadamard_Transform
begin

text \<open>
  The choice of the decoder of \<^verbatim>\<open>HadamardUtils\<close>: the conditional copy by bytes takes the candidate with the higher score
  (\<open>CopyWinner_eq\<close>), the score of a codeword is how much the bits read agree with its encoding (\<open>candidates_agreement\<close>),
  and with fewer than 2^13 errors in its encoding a codeword wins (\<open>DecodeWord_corrects\<close>).
\<close>

unbundle bit_operations_syntax

section \<open>The winner\<close>

lemma CondCopy_select:
  "length dest = length src \<Longrightarrow> CondCopy 0 dest src = dest" "length dest = length src \<Longrightarrow> CondCopy 1 dest src = src"
proof -
  have d: "ucast (ucast d :: 32 word) = d" for d :: "8 word" by (rule bit_word_eqI) (simp add: bit_ucast_iff)
  have x: "ucast d XOR (ucast s XOR ucast d) = (ucast s :: 32 word)" for s d :: "8 word"
    by (rule bit_word_eqI) (auto simp: bit_xor_iff bit_ucast_iff)
  show "length dest = length src \<Longrightarrow> CondCopy 0 dest src = dest"
    by (induction dest src rule: list_induct2) (simp_all add: CondCopy_def d)
  show "length dest = length src \<Longrightarrow> CondCopy 1 dest src = src"
    by (induction dest src rule: list_induct2) (simp_all add: CondCopy_def d x)
qed

lemma winner_bytes: "- (2 ^ 31) \<le> score w \<Longrightarrow> score w < 2 ^ 31 \<Longrightarrow> winnerOfBytes (winnerBytes w) = w"
proof -
  assume r: "- (2 ^ 31) \<le> score w" "score w < 2 ^ 31"
  define s :: "32 word" where "s = word_of_int (score w)"
  have "ucast (ucast c :: 8 word) OR push_bit 8 (ucast (ucast (drop_bit 8 c) :: 8 word)) = c" for c :: "16 word"
    by (rule bit_word_eqI) (auto simp: bit_or_iff bit_push_bit_iff bit_ucast_iff bit_drop_bit_eq)
  moreover have "ucast (ucast s :: 8 word) OR push_bit 8 (ucast (ucast (drop_bit 8 s) :: 8 word)) OR
      push_bit 16 (ucast (ucast (drop_bit 16 s) :: 8 word)) OR push_bit 24 (ucast (ucast (drop_bit 24 s) :: 8 word)) = s"
  proof (rule bit_word_eqI)
    fix n assume "n < LENGTH(32)"
    then consider "n < 8" | "8 \<le> n" "n < 16" | "16 \<le> n" "n < 24" | "24 \<le> n" "n < 32" by (auto simp: not_less [symmetric])
    then show "bit (ucast (ucast s :: 8 word) OR push_bit 8 (ucast (ucast (drop_bit 8 s) :: 8 word)) OR
        push_bit 16 (ucast (ucast (drop_bit 16 s) :: 8 word)) OR push_bit 24 (ucast (ucast (drop_bit 24 s) :: 8 word)) :: 32 word) n = bit s n"
      by cases (auto simp: bit_or_iff bit_push_bit_iff bit_ucast_iff bit_drop_bit_eq)
  qed
  moreover have "sint s = score w"
    using r by (simp add: s_def sint_sbintrunc' signed_take_bit_int_eq_self)
  ultimately show ?thesis
    by (simp add: winnerOfBytes_def winnerBytes_def Let_def nth_Cons' flip: s_def)
qed

text \<open>The comparison by the sign bit of the difference, which does not overflow for scores in this range.\<close>

lemma CopyWinner_eq:
  assumes "\<bar>score src\<bar> \<le> 2 ^ 16" "\<bar>score dest\<bar> \<le> 2 ^ 16"
  shows "CopyWinner src dest = (if score dest < score src then src else dest)"
proof -
  define d where "d = score dest - score src"
  have d: "- (2 ^ 31) \<le> d" "d < 2 ^ 31" using assms by (simp_all add: d_def abs_le_iff)
  have "drop_bit 31 (word_of_int d :: 32 word) = (if d < 0 then 1 else 0)"
  proof (rule bit_word_eqI)
    fix k assume "k < LENGTH(32)"
    have "sint (word_of_int d :: 32 word) = d" using d by (simp add: sint_sbintrunc' signed_take_bit_int_eq_self)
    then have "bit (word_of_int d :: 32 word) (LENGTH(32) - Suc 0) = (d < 0)" unfolding bit_last_iff by (simp only:)
    then show "bit (drop_bit 31 (word_of_int d :: 32 word)) k = bit (if d < 0 then 1 else 0 :: 32 word) k"
      by (cases "k = 0") (simp_all add: bit_drop_bit_eq bit_1_iff impossible_bit)
  qed
  moreover have "length (winnerBytes dest) = length (winnerBytes src)" by (simp add: winnerBytes_def Let_def)
  moreover have "winnerOfBytes (winnerBytes src) = src" "winnerOfBytes (winnerBytes dest) = dest"
    by (rule winner_bytes; use assms in \<open>simp add: abs_le_iff\<close>)+
  ultimately show ?thesis by (simp add: CopyWinner_def CondCopy_select flip: d_def) (simp add: d_def)
qed


text \<open>The candidates in the order of the loop, and the choice of one with a higher score than all others.\<close>

definition better :: "CodewordWinner \<Rightarrow> CodewordWinner \<Rightarrow> CodewordWinner" where
  "better src dest = (if score dest < score src then src else dest)"

definition candidates :: "(nat \<Rightarrow> int) \<Rightarrow> nat \<Rightarrow> CodewordWinner list" where
  "candidates f n = concat (map (\<lambda>i. [\<lparr>codeword = word_of_nat i, score = f i\<rparr>,
     \<lparr>codeword = word_of_nat (i OR 2 ^ 15), score = - f i\<rparr>]) [0..<n])"

lemma best_candidates:
  assumes "\<And>i. i < n \<Longrightarrow> \<bar>f i\<bar> \<le> 2 ^ 15" "\<And>i. i < n \<Longrightarrow> scores ! i = f i" "\<bar>score best\<bar> \<le> 2 ^ 16"
  shows "fold (bestStep scores) [0..<n] best = fold better (candidates f n) best \<and>
    \<bar>score (fold better (candidates f n) best)\<bar> \<le> 2 ^ 16"
  using assms(1,2)
proof (induction n)
  case 0
  then show ?case using assms(3) by (simp add: candidates_def)
next
  case (Suc n)
  then have IH: "fold (bestStep scores) [0..<n] best = fold better (candidates f n) best"
    "\<bar>score (fold better (candidates f n) best)\<bar> \<le> 2 ^ 16" by simp_all
  have c: "candidates f (Suc n) = candidates f n @ [\<lparr>codeword = word_of_nat n, score = f n\<rparr>,
      \<lparr>codeword = word_of_nat (n OR 2 ^ 15), score = - f n\<rparr>]" by (simp add: candidates_def)
  have f: "\<bar>f n\<bar> \<le> 2 ^ 16" using Suc.prems(1) [of n] by simp
  define b where "b = fold better (candidates f n) best"
  define b1 where "b1 = better \<lparr>codeword = word_of_nat n, score = f n\<rparr> b"
  have b1: "CopyWinner \<lparr>codeword = word_of_nat n, score = f n\<rparr> b = b1" "\<bar>score b1\<bar> \<le> 2 ^ 16"
    using CopyWinner_eq [of "\<lparr>codeword = word_of_nat n, score = f n\<rparr>" b] f IH(2) by (simp_all add: b1_def better_def b_def)
  have b2: "CopyWinner \<lparr>codeword = word_of_nat (n OR 2 ^ 15), score = - f n\<rparr> b1 =
      better \<lparr>codeword = word_of_nat (n OR 2 ^ 15), score = - f n\<rparr> b1"
    using CopyWinner_eq [of "\<lparr>codeword = word_of_nat (n OR 2 ^ 15), score = - f n\<rparr>" b1] f b1(2) by (simp add: better_def)
  have "bestStep scores n b = better \<lparr>codeword = word_of_nat (n OR 2 ^ 15), score = - f n\<rparr> b1"
    using Suc.prems(2) [of n] by (simp only: bestStep_def hadamard_sizes push_bit_of_1 b1(1) b2 lessI)
  moreover have "\<bar>score (better \<lparr>codeword = word_of_nat (n OR 2 ^ 15), score = - f n\<rparr> b1)\<bar> \<le> 2 ^ 16"
    using f b1(2) by (simp add: better_def)
  ultimately show ?case using IH(1) by (simp add: c b_def b1_def)
qed

lemma best_unique:
  assumes "r \<in> set cs" "\<And>r'. r' \<in> set cs \<Longrightarrow> r' \<noteq> r \<Longrightarrow> score r' < score r" "score best < score r"
  shows "fold better cs best = r"
proof -
  have "fold better cs best = r" if "best = r \<or> r \<in> set cs \<and> score best < score r"
    "\<And>r'. r' \<in> set cs \<Longrightarrow> r' \<noteq> r \<Longrightarrow> score r' < score r" for best
    using that
  proof (induction cs arbitrary: best)
    case (Cons c cs)
    have c: "c = r \<or> score c < score r" using Cons.prems(2) by auto
    have "better c best = r \<or> r \<in> set cs \<and> score (better c best) < score r"
      using Cons.prems(1) c by (auto simp: better_def)
    then have "fold better cs (better c best) = r" by (rule Cons.IH) (use Cons.prems(2) in auto)
    then show ?case by simp
  qed simp
  then show ?thesis using assms by blast
qed

section \<open>Decoding a codeword with errors\<close>

text \<open>The score of a codeword: how much the signs read agree with its encoding.\<close>

definition agreement :: "(nat \<Rightarrow> int) \<Rightarrow> 16 word \<Rightarrow> int" where
  "agreement f c = (\<Sum>n<ENCODE_LENGTH. chi c n * f n)"

lemma bit_word_of_nat: "b < 16 \<Longrightarrow> bit (word_of_nat i :: 16 word) b = bit i b"
  by (simp add: bit_of_nat_iff)

lemma agreement_walsh:
  assumes "i < ENCODE_LENGTH"
  shows "agreement f (word_of_nat i) = walsh 15 f i" "agreement f (word_of_nat (i OR 2 ^ 15)) = - walsh 15 f i"
proof -
  have high: "\<not> bit i 15" using assms by (simp add: less_ENCODE_LENGTH)
  have w: "walsh 15 f i = (\<Sum>y<ENCODE_LENGTH. walshSign 15 i y * f y)"
    using assms by (simp add: walsh_sum hadamard_sizes)
  have "chi (word_of_nat i) y = walshSign 15 i y" for y
    using high by (simp add: chi_def walshSign_def bit_word_of_nat)
  then show "agreement f (word_of_nat i) = walsh 15 f i" by (simp add: agreement_def w)
  have "chi (word_of_nat (i OR 2 ^ 15)) y = - walshSign 15 i y" for y
  proof -
    have "(\<Prod>b<15. sign (bit (word_of_nat (i OR 2 ^ 15) :: 16 word) b \<and> bit y b)) = walshSign 15 i y"
      unfolding walshSign_def by (rule prod.cong) (simp, simp only: lessThan_iff bit_word_of_nat bit_or_iff bit_exp_iff, simp)
    moreover have "bit (word_of_nat (i OR 2 ^ 15) :: 16 word) 15" by (simp only: bit_word_of_nat bit_or_iff bit_exp_iff) simp
    ultimately show ?thesis by (simp add: chi_def)
  qed
  then show "agreement f (word_of_nat (i OR 2 ^ 15)) = - walsh 15 f i" by (simp add: agreement_def w sum_negf)
qed

lemma candidates_agreement:
  "set (candidates (walsh 15 f) ENCODE_LENGTH) = range (\<lambda>c. \<lparr>codeword = c, score = agreement f c\<rparr>)"
proof
  show "set (candidates (walsh 15 f) ENCODE_LENGTH) \<subseteq> range (\<lambda>c. \<lparr>codeword = c, score = agreement f c\<rparr>)"
    using agreement_walsh [of _ f] by (auto simp: candidates_def)
  show "range (\<lambda>c. \<lparr>codeword = c, score = agreement f c\<rparr>) \<subseteq> set (candidates (walsh 15 f) ENCODE_LENGTH)"
  proof clarify
    fix c :: "16 word"
    define i where "i = take_bit 15 (unat c)"
    have i: "i < ENCODE_LENGTH" by (simp add: i_def hadamard_sizes take_bit_nat_less_exp [of 15, simplified])
    have bits: "bit i b \<longleftrightarrow> b < 15 \<and> bit c b" for b
      by (auto simp: i_def bit_take_bit_iff bit_unsigned_iff)
    have "c = word_of_nat i \<or> c = word_of_nat (i OR 2 ^ 15)"
    proof (cases "bit c 15")
      case True
      have "c = word_of_nat (i OR 2 ^ 15)"
      proof (rule bit_word_eqI)
        fix b assume "b < LENGTH(16)"
        then have "b = 15 \<or> b < 15" "b < 16" by auto
        then show "bit c b = bit (word_of_nat (i OR 2 ^ 15) :: 16 word) b"
          using True by (simp only: bit_word_of_nat bit_or_iff bit_exp_iff bits) auto
      qed
      then show ?thesis ..
    next
      case False
      have "c = word_of_nat i"
      proof (rule bit_word_eqI)
        fix b assume "b < LENGTH(16)"
        then have "b = 15 \<or> b < 15" "b < 16" by auto
        then show "bit c b = bit (word_of_nat i :: 16 word) b" using False by (simp only: bit_word_of_nat bits) auto
      qed
      then show ?thesis ..
    qed
    then show "\<lparr>codeword = c, score = agreement f c\<rparr> \<in> set (candidates (walsh 15 f) ENCODE_LENGTH)"
      using agreement_walsh [OF i, of f] i by (auto simp: candidates_def)
  qed
qed

text \<open>A codeword whose encoding is read with \<open>e\<close> errors has a score of \<open>ENCODE_LENGTH - 2 e\<close>, any other at most \<open>2 e\<close>.\<close>

definition errorsIn :: "(nat \<Rightarrow> int) \<Rightarrow> 16 word \<Rightarrow> nat set" where
  "errorsIn f c = {n. n < ENCODE_LENGTH \<and> f n \<noteq> chi c n}"

lemma finite_errorsIn [simp]: "finite (errorsIn f c)"
  by (simp add: errorsIn_def)

lemma agreement_errors:
  assumes "\<forall>n. f n = 1 \<or> f n = - 1"
  shows "(\<Sum>n<ENCODE_LENGTH. 1 - chi c n * f n) = 2 * int (card (errorsIn f c))"
proof -
  have "1 - chi c n * f n = (if n \<in> errorsIn f c then 2 else 0)" if "n < ENCODE_LENGTH" for n
    using that spec [OF assms, of n] chi_values [of c n] by (auto simp: errorsIn_def)
  then have "(\<Sum>n<ENCODE_LENGTH. 1 - chi c n * f n) = (\<Sum>n<ENCODE_LENGTH. if n \<in> errorsIn f c then 2 else 0)"
    by (intro sum.cong) auto
  also have "\<dots> = (\<Sum>n \<in> errorsIn f c. 2)"
  proof -
    have "{..<ENCODE_LENGTH} \<inter> errorsIn f c = errorsIn f c" by (auto simp: errorsIn_def)
    then show ?thesis by (simp flip: sum.inter_restrict)
  qed
  finally show ?thesis by simp
qed

lemma agreement_right:
  assumes "\<forall>n. f n = 1 \<or> f n = - 1"
  shows "agreement f c = int ENCODE_LENGTH - 2 * int (card (errorsIn f c))"
  using agreement_errors [OF assms, of c] by (simp add: agreement_def sum_subtractf)

lemma agreement_wrong:
  assumes "\<forall>n. f n = 1 \<or> f n = - 1" "c' \<noteq> c"
  shows "agreement f c' \<le> 2 * int (card (errorsIn f c))"
proof -
  define d where "d = c' XOR c"
  have "d \<noteq> 0"
  proof
    assume "d = 0"
    then have "(c' XOR c) XOR c = c" by (simp add: d_def)
    then show False using assms(2) by (simp add: xor.assoc)
  qed
  have c': "chi c' n = chi d n * chi c n" for n
    using chi_self [of c n] by (simp add: d_def chi_xor mult.assoc)
  have "chi c' n * f n \<le> chi d n + (1 - chi c n * f n)" for n
    using spec [OF assms(1), of n] chi_values [of c n] chi_values [of d n] by (auto simp: c')
  then have "agreement f c' \<le> (\<Sum>n<ENCODE_LENGTH. chi d n + (1 - chi c n * f n))"
    unfolding agreement_def by (intro sum_mono) simp
  also have "\<dots> = (\<Sum>n<ENCODE_LENGTH. chi d n) + 2 * int (card (errorsIn f c))"
    by (simp only: sum.distrib agreement_errors [OF assms(1)])
  finally show ?thesis using chi_sum_le [OF \<open>d \<noteq> 0\<close>] by simp
qed

definition signRead :: "nat \<Rightarrow> 8 word list \<Rightarrow> nat \<Rightarrow> int" where
  "signRead word encoded n = sign (bit (encoded ! ((n * 16 + word) div 8)) ((n * 16 + word) mod 8))"

lemma initialScores_signs: "initialScores word encoded = map (signRead word encoded) [0..<ENCODE_LENGTH]"
  by (auto simp: initialScores_def signRead_def read_bit_bit sign_def hadamard_sizes(5))

lemma signRead_values: "signRead word encoded n = 1 \<or> signRead word encoded n = - 1"
  by (simp add: signRead_def sign_def)

lemma DecodeWord_corrects:
  assumes "card (errorsIn (signRead word encoded) c) < 2 ^ 13"
  shows "DecodeWord word encoded = c"
proof -
  define f where "f = signRead word encoded"
  define best where "best = \<lparr>codeword = 0, score = - int (ENCODE_LENGTH + 1)\<rparr>"
  have f: "\<forall>n. f n = 1 \<or> f n = - 1" unfolding f_def using signRead_values by blast
  have s: "hadamardScores (initialScores word encoded) = map (walsh 15 f) [0..<ENCODE_LENGTH]"
    unfolding initialScores_signs f_def by (rule hadamardScores_walsh)
  have "\<bar>walsh 15 f i\<bar> \<le> 2 ^ 15" for i by (rule walsh_bound) (simp add: f_def signRead_def)
  then have "fold (bestStep (map (walsh 15 f) [0..<ENCODE_LENGTH])) [0..<ENCODE_LENGTH] best =
      fold better (candidates (walsh 15 f) ENCODE_LENGTH) best"
    by (intro best_candidates [THEN conjunct1]) (simp_all add: best_def hadamard_sizes)
  also have "\<dots> = \<lparr>codeword = c, score = agreement f c\<rparr>"
  proof (rule best_unique)
    have e: "2 * int (card (errorsIn f c)) < int ENCODE_LENGTH - 2 * int (card (errorsIn f c))"
      using assms by (simp add: f_def hadamard_sizes)
    show "\<lparr>codeword = c, score = agreement f c\<rparr> \<in> set (candidates (walsh 15 f) ENCODE_LENGTH)"
      unfolding candidates_agreement by simp
    show "score r' < score \<lparr>codeword = c, score = agreement f c\<rparr>"
      if r: "r' \<in> set (candidates (walsh 15 f) ENCODE_LENGTH)" "r' \<noteq> \<lparr>codeword = c, score = agreement f c\<rparr>" for r'
    proof -
      obtain c' where r': "r' = \<lparr>codeword = c', score = agreement f c'\<rparr>"
        using r(1) unfolding candidates_agreement by blast
      moreover have "c' \<noteq> c" using r(2) r' by blast
      ultimately show ?thesis using agreement_wrong [OF f, of c' c] agreement_right [OF f, of c] e by simp
    qed
    show "score best < score \<lparr>codeword = c, score = agreement f c\<rparr>"
      using e by (simp add: best_def agreement_right [OF f, of c])
  qed
  finally show ?thesis by (simp add: DecodeWord_def s best_def)
qed

lemma scores_in_range:
  assumes "i \<le> CODE_K" "n < ENCODE_LENGTH"
  shows "\<bar>fold hadamardStage [0..<i] (initialScores word encoded) ! n\<bar> \<le> 2 ^ i"
proof -
  have "\<bar>walsh i (signRead word encoded) n\<bar> \<le> 2 ^ i"
    by (rule walsh_bound) (simp add: signRead_def)
  moreover have "fold hadamardStage [0..<i] (initialScores word encoded) = map (walsh i (signRead word encoded)) [0..<ENCODE_LENGTH]"
    using assms(1) unfolding initialScores_signs hadamard_sizes(2) by (rule stages_walsh)
  ultimately show ?thesis using assms(2) by simp
qed

section \<open>The signs of an encoding\<close>

definition codewordOf :: "8 word list \<Rightarrow> nat \<Rightarrow> 16 word" where
  "codewordOf input w = ucast (input ! (2 * w)) OR push_bit 8 (ucast (input ! (2 * w + 1)))"

lemma codewordOf_bit: "b < 16 \<Longrightarrow> bit (codewordOf input w) b = keyBit input w b"
proof -
  assume b: "b < 16"
  have "(b + w * 16) div 8 = 2 * w + b div 8" "(b + w * 16) mod 8 = b mod 8"
    using div_mult_self1 [of 8 b "2 * w"] mod_mult_self1 [of b "2 * w" 8] by (simp_all add: ac_simps)
  moreover have "b < 8 \<or> b div 8 = 1 \<and> b mod 8 = b - 8 \<and> 8 \<le> b" using b by presburger
  ultimately show ?thesis
    using b by (auto simp: codewordOf_def keyBit_def bit_or_iff bit_push_bit_iff bit_ucast_iff impossible_bit)
qed

lemma fold_xor_sign:
  "sign (bit (fold (\<lambda>b val. if P b then val XOR m b else val) bs v) w) =
    sign (bit v w) * prod_list (map (\<lambda>b. sign (bit (m b) w \<and> P b)) bs)" for v :: "16 word"
proof (induction bs arbitrary: v)
  case (Cons b bs)
  have "sign (a = (\<not> b)) = sign a * sign b" for a b by (simp add: sign_def)
  then show ?case by (cases "P b") (simp_all add: Cons.IH bit_xor_iff)
qed simp

lemma encodedWord_sign:
  assumes "w < 16"
  shows "sign (bit (encodedWord (wordmatrix input) n) w) = chi (codewordOf input w) n"
proof -
  have "prod_list (map (\<lambda>b. sign (bit (wordmatrix input ! b) w \<and> bit n b)) [0..<15]) =
      (\<Prod>b<15. sign (bit (codewordOf input w) b \<and> bit n b))"
    unfolding prod.distinct_set_conv_list [OF distinct_upt, symmetric] set_upt atLeast0LessThan
    by (rule prod.cong) (use assms in \<open>simp_all add: wordmatrix_bit codewordOf_bit\<close>)
  moreover have "sign (bit (wordmatrix input ! 15) w) = sign (bit (codewordOf input w) 15)"
    using assms by (simp add: wordmatrix_bit codewordOf_bit)
  ultimately show ?thesis unfolding encodedWord_def fold_xor_sign chi_def by (simp only:)
qed

lemma signRead_encoded:
  assumes "n < ENCODE_LENGTH" "w < 16"
  shows "signRead w (encodeWords (wordmatrix input)) n = chi (codewordOf input w) n"
proof -
  define e where "e = encodedWord (wordmatrix input) n"
  have f: "filled (wordmatrix input) (encodeWords (wordmatrix input)) n"
    using assms(1) encodeWords_filled(2) by (simp add: hadamard_sizes)
  have p: "(n * 16 + w) div 8 = n * 2 + w div 8" "(n * 16 + w) mod 8 = w mod 8"
    using div_mult_self1 [of 8 w "2 * n"] mod_mult_self1 [of w "2 * n" 8] by (simp_all add: ac_simps)
  have ff: "x AND 0xff = take_bit 8 x" for x :: "16 word" by (simp add: take_bit_eq_mask mask_eq_exp_minus_1)
  have "w < 8 \<or> w div 8 = 1 \<and> w mod 8 = w - 8 \<and> 8 \<le> w" using assms(2) by presburger
  then have "bit (encodeWords (wordmatrix input) ! (n * 2 + w div 8)) (w mod 8) = bit e w"
    using f assms(2)
    by (auto simp: filled_def e_def [symmetric] bit_ucast_iff bit_take_bit_iff ff bit_drop_bit_eq)
  then show ?thesis unfolding signRead_def p using encodedWord_sign [OF assms(2)] by (simp add: e_def)
qed

section \<open>Bit errors\<close>

definition bitErrors :: "8 word list \<Rightarrow> 8 word list \<Rightarrow> nat" where
  "bitErrors xs ys = sum_list (map (\<lambda>(x, y). length (filter (\<lambda>k. bit x k \<noteq> bit y k) [0..<8])) (zip xs ys))"

lemma bitErrors_sum:
  assumes "length xs = length ys"
  shows "bitErrors xs ys = (\<Sum>i<length xs. card {k. k < 8 \<and> bit (xs ! i) k \<noteq> bit (ys ! i) k})"
proof -
  have "length (filter P [0..<8]) = card {k. k < 8 \<and> P k}" for P
    by (subst distinct_card [symmetric]) (auto intro: arg_cong [of _ _ card])
  then show ?thesis
    using assms by (simp add: bitErrors_def sum_list_sum_nth atLeast0LessThan)
qed

lemma codeword_errors:
  assumes "length encoded = OUTPUT_SIZE_BYTES" "w < 16"
  shows "card (errorsIn (signRead w encoded) (codewordOf input w)) \<le> bitErrors encoded (encodeWords (wordmatrix input))"
proof -
  define enc where "enc = encodeWords (wordmatrix input)"
  define errs where "errs i = card {k. k < 8 \<and> bit (encoded ! i) k \<noteq> bit (enc ! i) k}" for i
  define E where "E = errorsIn (signRead w encoded) (codewordOf input w)"
  have p: "(n * 16 + w) div 8 = n * 2 + w div 8" for n
    using div_mult_self1 [of 8 w "2 * n"] by (simp add: ac_simps)
  have bad: "1 \<le> errs (n * 2 + w div 8)" if "n \<in> E" for n
  proof -
    have n: "n < ENCODE_LENGTH" "signRead w encoded n \<noteq> signRead w enc n"
      using that assms(2) signRead_encoded by (auto simp: E_def errorsIn_def enc_def)
    then have "bit (encoded ! (n * 2 + w div 8)) ((n * 16 + w) mod 8) \<noteq> bit (enc ! (n * 2 + w div 8)) ((n * 16 + w) mod 8)"
      unfolding signRead_def p by (auto simp: sign_def split: if_splits)
    then have "(n * 16 + w) mod 8 \<in> {k. k < 8 \<and> bit (encoded ! (n * 2 + w div 8)) k \<noteq> bit (enc ! (n * 2 + w div 8)) k}"
      by simp
    then have "{k. k < 8 \<and> bit (encoded ! (n * 2 + w div 8)) k \<noteq> bit (enc ! (n * 2 + w div 8)) k} \<noteq> {}" by blast
    then have "0 < errs (n * 2 + w div 8)" unfolding errs_def card_gt_0_iff by (intro conjI) simp_all
    then show ?thesis by simp
  qed
  have inj: "inj_on (\<lambda>n. n * 2 + w div 8) E" by (rule inj_onI) simp
  have "w div 8 < 2" using assms(2) by presburger
  then have sub: "(\<lambda>n. n * 2 + w div 8) ` E \<subseteq> {..<2 ^ 16}"
    by (auto simp: E_def errorsIn_def hadamard_sizes)
  have "card E \<le> (\<Sum>n \<in> E. errs (n * 2 + w div 8))"
    using sum_mono [of E "\<lambda>_. 1" "\<lambda>n. errs (n * 2 + w div 8)"] bad by simp
  also have "\<dots> = (\<Sum>i \<in> (\<lambda>n. n * 2 + w div 8) ` E. errs i)" by (simp add: sum.reindex [OF inj])
  also have "\<dots> \<le> (\<Sum>i<2 ^ 16. errs i)" by (rule sum_mono2) (use sub in auto)
  also have "\<dots> = bitErrors encoded enc"
    using assms(1) encodeWords_filled(1) [of "wordmatrix input"]
    by (simp add: bitErrors_sum enc_def errs_def hadamard_sizes)
  finally show ?thesis by (simp add: E_def enc_def)
qed

end
