(* ===== verification/Hadamard_Shuffle.thy ===== *)
theory Hadamard_Shuffle
  imports Hadamard_Decoding "HOL-Library.Multiset"
begin

text \<open>
  The two shuffles of \<^verbatim>\<open>HadamardUtils\<close>: the generator runs backwards through the same numbers, without a wrap of its 64
  bits (\<open>rng_words\<close>, \<open>rng_end\<close>), so that decoding makes the swaps of encoding in the opposite order
  (\<open>inverseShuffle_swaps\<close>, \<open>forwardShuffle_swaps\<close>) and the bit errors are moved, none is added; the key comes out
  (\<open>DecodeKey_corrects\<close>).
\<close>

unbundle bit_operations_syntax

section \<open>The random numbers, forwards and backwards\<close>

definition rng :: "nat \<Rightarrow> nat" where
  "rng k = 20170705 * 742938285 ^ k mod 2147483647"

function modpow :: "nat \<Rightarrow> nat \<Rightarrow> nat" where
  "modpow x n = (if n = 0 then 1 else let y = modpow (x * x mod 2147483647) (n div 2) in
     if odd n then x * y mod 2147483647 else y)"
  by pat_completeness auto
termination by (relation "measure snd") auto

declare modpow.simps [simp del]

lemma modpow_eq: "modpow x n mod 2147483647 = x ^ n mod 2147483647"
proof (induction x n rule: modpow.induct)
  case (1 x n)
  show ?case
  proof (cases "n = 0")
    case False
    have "(x * x mod 2147483647) ^ (n div 2) mod 2147483647 = (x * x) ^ (n div 2) mod 2147483647" by (rule power_mod)
    also have "(x * x) ^ (n div 2) = x ^ (2 * (n div 2))" by (simp add: power_mult power2_eq_square)
    finally have IH: "modpow (x * x mod 2147483647) (n div 2) mod 2147483647 = x ^ (2 * (n div 2)) mod 2147483647"
      using 1 False by simp
    show ?thesis
    proof (cases "odd n")
      case True
      then have "x ^ n = x * x ^ (2 * (n div 2))" by (metis odd_two_times_div_two_succ power_Suc Suc_eq_plus1)
      then have "x ^ n mod 2147483647 = x * (modpow (x * x mod 2147483647) (n div 2) mod 2147483647) mod 2147483647"
        unfolding IH mod_mult_right_eq by simp
      moreover have "modpow x n = x * modpow (x * x mod 2147483647) (n div 2) mod 2147483647"
        using False True by (subst modpow.simps) (simp add: Let_def)
      ultimately show ?thesis by (simp add: mod_mult_right_eq)
    next
      case even: False
      then show ?thesis using False IH by (subst modpow.simps) (simp add: Let_def)
    qed
  qed (simp add: modpow.simps)
qed

lemma rng_end: "rng 65534 = 1173538311"
proof -
  have "modpow 742938285 65534 mod 2147483647 = 742938285 ^ 65534 mod 2147483647" by (rule modpow_eq)
  moreover have "20170705 * (modpow 742938285 65534 mod 2147483647) mod 2147483647 = 1173538311"
    by (simp add: modpow.simps)
  ultimately have "20170705 * (742938285 ^ 65534 mod 2147483647) mod 2147483647 = (1173538311 :: nat)" by (simp only:)
  then show ?thesis unfolding rng_def mod_mult_right_eq .
qed

lemma rng_less: "rng k < 2147483647"
  by (simp add: rng_def)

lemma rng_Suc: "rng k * 742938285 mod 2147483647 = rng (Suc k)"
  unfolding rng_def mod_mult_left_eq power_Suc by (simp only: ac_simps)

lemma rng_back: "rng (Suc k) * 1413043504 mod 2147483647 = rng k"
proof -
  have "rng (Suc k) * 1413043504 mod 2147483647 = rng k * (742938285 * 1413043504) mod 2147483647"
    by (simp only: rng_Suc [symmetric] mod_mult_left_eq mult.assoc)
  also have "\<dots> = rng k * (742938285 * 1413043504 mod 2147483647) mod 2147483647" by (simp only: mod_mult_right_eq)
  also have "\<dots> = rng k" using rng_less [of k] by simp
  finally show ?thesis .
qed

lemma rng_words:
  "unat s = rng k \<Longrightarrow> unat (s * RNG_MUL mod RNG_MODULUS) = rng (Suc k)"
  "unat s = rng (Suc k) \<Longrightarrow> unat (s * RNG_INV_MUL mod RNG_MODULUS) = rng k"
  "unat s = rng k \<Longrightarrow> i < 2 ^ 16 \<Longrightarrow> unat (s mod word_of_nat (i + 1)) = rng k mod (i + 1)"
proof -
  have mult: "unat (s * word_of_nat c) = unat s * c" if "unat s < 2147483647" "c < 2147483647" for c
  proof -
    have "unat s * c \<le> 2147483647 * 2147483647" using that by (intro mult_le_mono) simp_all
    then have "unat s * c < 2 ^ 64" by (rule order_le_less_trans) simp
    then show ?thesis using that by (simp add: unat_word_ariths unat_of_nat)
  qed
  show "unat s = rng k \<Longrightarrow> unat (s * RNG_MUL mod RNG_MODULUS) = rng (Suc k)"
    using mult [of 742938285] rng_less [of k] by (simp add: RNG_MUL_def RNG_MODULUS_def unat_mod rng_Suc)
  show "unat s = rng (Suc k) \<Longrightarrow> unat (s * RNG_INV_MUL mod RNG_MODULUS) = rng k"
    using mult [of 1413043504] rng_less [of "Suc k"] by (simp add: RNG_INV_MUL_def RNG_MODULUS_def unat_mod rng_back)
  show "unat s = rng k \<Longrightarrow> i < 2 ^ 16 \<Longrightarrow> unat (s mod word_of_nat (i + 1)) = rng k mod (i + 1)"
    by (simp add: unat_mod unat_of_nat unsigned_of_nat take_bit_nat_eq_self del: of_nat_Suc)
qed

section \<open>The shuffles as swaps\<close>

definition swapIndex :: "nat \<Rightarrow> nat" where
  "swapIndex i = rng (i - 1) mod (i + 1)"

definition swapAt :: "nat \<Rightarrow> 'a list \<Rightarrow> 'a list" where
  "swapAt i xs = xs[i := xs ! swapIndex i, swapIndex i := xs ! i]"

lemma length_swapAt [simp]: "length (swapAt i xs) = length xs"
  by (simp add: swapAt_def)

lemma length_swaps [simp]: "length (fold swapAt is xs) = length xs"
  by (induction "is" arbitrary: xs) simp_all

lemma swapIndex_le: "swapIndex i \<le> i"
  using mod_less_divisor [of "i + 1" "rng (i - 1)"] by (simp add: swapIndex_def)

lemma swapIndex_less: "i < n \<Longrightarrow> swapIndex i < n"
  using swapIndex_le [of i] by simp

lemma swapAt_twice: "i < length xs \<Longrightarrow> swapAt i (swapAt i xs) = xs"
  using swapIndex_less [of i "length xs"]
  by (intro nth_equalityI) (simp_all add: swapAt_def nth_list_update)

lemma swaps_undo: "\<forall>i \<in> set is. i < length xs \<Longrightarrow> fold swapAt is (fold swapAt (rev is) xs) = xs"
  by (induction "is" arbitrary: xs) (simp_all add: swapAt_twice)

lemma swapAt_zip: "length xs = length ys \<Longrightarrow> i < length xs \<Longrightarrow> zip (swapAt i xs) (swapAt i ys) = swapAt i (zip xs ys)"
  using swapIndex_less [of i "length xs"] by (simp add: swapAt_def zip_update)

lemma swapAt_mset: "i < length xs \<Longrightarrow> mset (swapAt i xs) = mset xs"
  using swapIndex_less [of i "length xs"] mset_swap [of "swapIndex i" xs i] by (simp add: swapAt_def)

lemma swapAt_bitErrors:
  assumes "length xs = length ys" "i < length xs"
  shows "bitErrors (swapAt i xs) (swapAt i ys) = bitErrors xs ys"
proof -
  define f where "f = (\<lambda>(x :: 8 word, y :: 8 word). length (filter (\<lambda>k. bit x k \<noteq> bit y k) [0..<8]))"
  have "mset (map f (swapAt i (zip xs ys))) = mset (map f (zip xs ys))"
    using swapAt_mset [of i "zip xs ys"] assms by (simp only: mset_map length_zip min.idem)
  then have "sum_list (map f (swapAt i (zip xs ys))) = sum_list (map f (zip xs ys))"
    by (simp only: sum_mset_sum_list [symmetric])
  then show ?thesis unfolding bitErrors_def swapAt_zip [OF assms] f_def .
qed

lemma swaps_bitErrors:
  "length xs = length ys \<Longrightarrow> \<forall>i \<in> set is. i < length xs \<Longrightarrow> bitErrors (fold swapAt is xs) (fold swapAt is ys) = bitErrors xs ys"
  by (induction "is" arbitrary: xs ys) (simp_all add: swapAt_bitErrors)

lemma inverse_loop:
  assumes "n < 2 ^ 16" "unat s = rng (n - 1)"
  shows "fst (fold shuffleStep (rev [1..<Suc n]) (xs, s)) = fold swapAt (rev [1..<Suc n]) xs"
  using assms
proof (induction n arbitrary: xs s)
  case (Suc n)
  have j: "unat (s mod word_of_nat (Suc n + 1)) = swapIndex (Suc n)"
    unfolding swapIndex_def by (rule rng_words(3)) (use Suc.prems in simp_all)
  have step: "shuffleStep (Suc n) (xs, s) = (swapAt (Suc n) xs, s * RNG_INV_MUL mod RNG_MODULUS)"
    unfolding shuffleStep_def prod.case Let_def j swapAt_def ..
  show ?case
  proof (cases n)
    case 0
    then show ?thesis using step by simp
  next
    case (Suc m)
    have "unat (s * RNG_INV_MUL mod RNG_MODULUS) = rng (n - 1)"
      using rng_words(2) [of s m] Suc.prems(2) Suc by simp
    then show ?thesis
      using Suc.IH [of "s * RNG_INV_MUL mod RNG_MODULUS" "swapAt (Suc n) xs"] Suc.prems(1) step by (simp del: upt_Suc add: upt_Suc_append)
  qed
qed simp

lemma inverseShuffle_swaps: "inverseShuffle xs = fold swapAt (rev [1..<OUTPUT_SIZE_BYTES]) xs"
  using inverse_loop [of 65535 RNG_INV_SEED xs] rng_end by (simp add: inverseShuffle_def hadamard_sizes RNG_INV_SEED_def)

lemma forward_loop:
  assumes "n < 2 ^ 16" "length sh = 2 ^ 16"
  shows "\<exists>enc s. fold (unshuffleStep sh) [1..<Suc n] ((replicate (2 ^ 16) 0)[0 := sh ! 0], RNG_SEED) = (enc, s) \<and>
    unat s = rng n \<and> length enc = 2 ^ 16 \<and> (\<forall>k \<le> n. enc ! k = fold swapAt [1..<Suc n] sh ! k) \<and>
    (\<forall>k. n < k \<longrightarrow> fold swapAt [1..<Suc n] sh ! k = sh ! k)"
  using assms(1)
proof (induction n)
  case 0
  then show ?case by (auto simp: RNG_SEED_def rng_def)
next
  case (Suc n)
  define X where "X = fold swapAt [1..<Suc n] sh"
  define j where "j = swapIndex (Suc n)"
  obtain enc s where IH: "fold (unshuffleStep sh) [1..<Suc n] ((replicate (2 ^ 16) 0)[0 := sh ! 0], RNG_SEED) = (enc, s)"
    "unat s = rng n" "length enc = 2 ^ 16" "\<forall>k \<le> n. enc ! k = X ! k" "\<forall>k. n < k \<longrightarrow> X ! k = sh ! k"
    using Suc unfolding X_def by auto
  have jn: "j \<le> Suc n" using swapIndex_le [of "Suc n"] by (simp add: j_def)
  have "unat (s mod word_of_nat (Suc n + 1)) = j"
    unfolding j_def swapIndex_def by (rule rng_words(3)) (use Suc.prems IH(2) in simp_all)
  then have step: "unshuffleStep sh (Suc n) (enc, s) = (enc[Suc n := enc ! j, j := sh ! Suc n], s * RNG_MUL mod RNG_MODULUS)"
    by (simp add: unshuffleStep_def del: of_nat_Suc)
  have X: "swapAt (Suc n) X = X[Suc n := X ! j, j := sh ! Suc n]" using IH(5) by (simp add: swapAt_def j_def)
  have len: "length X = 2 ^ 16" by (simp add: X_def assms(2))
  have "\<forall>k \<le> Suc n. enc[Suc n := enc ! j, j := sh ! Suc n] ! k = swapAt (Suc n) X ! k"
    using IH(3,4) len jn Suc.prems unfolding X by (auto simp: nth_list_update le_Suc_eq)
  moreover have "\<forall>k. Suc n < k \<longrightarrow> swapAt (Suc n) X ! k = sh ! k" using IH(5) jn unfolding X by simp
  moreover have "fold swapAt [1..<Suc (Suc n)] sh = swapAt (Suc n) X" by (simp add: X_def)
  moreover have "fold (unshuffleStep sh) [1..<Suc (Suc n)] ((replicate (2 ^ 16) 0)[0 := sh ! 0], RNG_SEED) =
      (enc[Suc n := enc ! j, j := sh ! Suc n], s * RNG_MUL mod RNG_MODULUS)"
    using IH(1) step by simp
  ultimately show ?case using rng_words(1) [OF IH(2)] IH(3) by simp
qed

lemma forwardShuffle_swaps:
  assumes "length sh = OUTPUT_SIZE_BYTES"
  shows "forwardShuffle sh = fold swapAt [1..<OUTPUT_SIZE_BYTES] sh"
proof -
  have len: "length sh = 2 ^ 16" and N: "OUTPUT_SIZE_BYTES = Suc 65535" using assms by (simp_all add: hadamard_sizes)
  obtain enc s where e: "fold (unshuffleStep sh) [1..<Suc 65535] ((replicate (2 ^ 16) 0)[0 := sh ! 0], RNG_SEED) = (enc, s)"
    "length enc = 2 ^ 16" "\<forall>k \<le> 65535. enc ! k = fold swapAt [1..<Suc 65535] sh ! k"
    using forward_loop [of 65535 sh] len by auto
  have "enc = fold swapAt [1..<Suc 65535] sh" by (rule nth_equalityI) (use e(2,3) len in auto)
  then show ?thesis unfolding forwardShuffle_def N using e(1) by (simp del: upt_Suc)
qed

section \<open>Recovering a key\<close>

lemma EncodeKey_swaps:
  "EncodeKey key = Some encoded \<longleftrightarrow> length key = 32 \<and>
    encoded = fold swapAt (rev [1..<OUTPUT_SIZE_BYTES]) (encodeWords (wordmatrix key))"
  by (auto simp: EncodeKey_def inverseShuffle_swaps hadamard_sizes(7))

lemma forwardShuffle_errors:
  assumes "EncodeKey key = Some encoded" "length stored = OUTPUT_SIZE_BYTES"
  shows "bitErrors (forwardShuffle stored) (encodeWords (wordmatrix key)) = bitErrors stored encoded"
proof -
  have len: "length (encodeWords (wordmatrix key)) = OUTPUT_SIZE_BYTES"
    by (simp only: encodeWords_filled(1) hadamard_sizes(8))
  have "fold swapAt [1..<OUTPUT_SIZE_BYTES] encoded = encodeWords (wordmatrix key)"
    using assms(1) swaps_undo [of "[1..<OUTPUT_SIZE_BYTES]" "encodeWords (wordmatrix key)"] len
    by (simp add: EncodeKey_swaps)
  moreover have "length encoded = OUTPUT_SIZE_BYTES" using assms(1) len by (simp add: EncodeKey_swaps)
  ultimately show ?thesis
    using swaps_bitErrors [of stored encoded "[1..<OUTPUT_SIZE_BYTES]"] assms(2) by (simp add: forwardShuffle_swaps)
qed

lemma map_pairs: "map ((!) xs) [0..<2 * n] = concat (map (\<lambda>i. [xs ! (i * 2), xs ! (i * 2 + 1)]) [0..<n])"
  by (induction n) (simp_all add: ac_simps)

lemma key_of_codewords:
  assumes "length key = 32"
  shows "concat (map (\<lambda>i. let val = codewordOf key i in [ucast (val AND 0xff), ucast (drop_bit 8 val)]) [0..<16]) = key"
proof -
  have lo: "ucast ((ucast x OR push_bit 8 (ucast y)) AND 0xff :: 16 word) = x" for x y :: "8 word"
  proof (rule byte_ext)
    have ff: "z AND 0xff = take_bit 8 z" for z :: "16 word" by (simp add: take_bit_eq_mask mask_eq_exp_minus_1)
    show "bit (ucast ((ucast x OR push_bit 8 (ucast y)) AND 0xff :: 16 word) :: 8 word) k = bit x k" if "k < 8" for k
      using that by (simp add: ff bit_ucast_iff bit_take_bit_iff bit_or_iff bit_push_bit_iff)
  qed
  have hi: "ucast (drop_bit 8 (ucast x OR push_bit 8 (ucast y) :: 16 word)) = y" for x y :: "8 word"
    by (rule byte_ext) (simp add: bit_ucast_iff bit_drop_bit_eq bit_or_iff bit_push_bit_iff impossible_bit)
  have bytes: "(let val = codewordOf key i in [ucast (val AND 0xff), ucast (drop_bit 8 val)]) = [key ! (2 * i), key ! (2 * i + 1)]" for i
    unfolding Let_def codewordOf_def lo hi ..
  show ?thesis
    unfolding bytes using map_pairs [of key 16] map_nth [of key] assms by (simp add: ac_simps)
qed

text \<open>Fewer than 2^13 bit errors, wherever they are, leave every codeword to be the one with the highest score.\<close>

lemma DecodeKey_corrects:
  assumes "EncodeKey key = Some encoded" "length stored = OUTPUT_SIZE_BYTES" "bitErrors stored encoded < 2 ^ 13"
  shows "DecodeKey stored = Some key"
proof -
  have len: "length (forwardShuffle stored) = OUTPUT_SIZE_BYTES" by (simp add: forwardShuffle_swaps assms(2))
  have "DecodeWord i (forwardShuffle stored) = codewordOf key i" if "i < 16" for i
  proof (rule DecodeWord_corrects)
    show "card (errorsIn (signRead i (forwardShuffle stored)) (codewordOf key i)) < 2 ^ 13"
      using codeword_errors [OF len that, of key] forwardShuffle_errors [OF assms(1,2)] assms(3) by simp
  qed
  then have "map (\<lambda>i. let val = DecodeWord i (forwardShuffle stored) in [ucast (val AND 0xff), ucast (drop_bit 8 val)]) [0..<16] =
      map (\<lambda>i. let val = codewordOf key i in [ucast (val AND 0xff), ucast (drop_bit 8 val :: 16 word) :: 8 word]) [0..<16]"
    by (intro map_cong) auto
  moreover have "length key = 32" using assms(1) by (simp add: EncodeKey_swaps)
  ultimately have "concat (map (\<lambda>i. let val = DecodeWord i (forwardShuffle stored) in
      [ucast (val AND 0xff), ucast (drop_bit 8 val)]) [0..<16]) = key" by (simp only: key_of_codewords)
  then show ?thesis using assms(2) unfolding DecodeKey_def hadamard_sizes(5) Let_def by (simp del: upt_rec_numeral)
qed

lemma EncodeKey_length: "EncodeKey key = Some encoded \<Longrightarrow> length encoded = OUTPUT_SIZE_BYTES"
  by (simp add: EncodeKey_swaps encodeWords_filled(1) hadamard_sizes(8))

lemma bitErrors_self: "bitErrors xs xs = 0"
  by (induction xs) (simp_all add: bitErrors_def)

lemma bitErrors_bytes: "bitErrors xs ys \<le> 8 * length (filter (\<lambda>(x, y). x \<noteq> y) (zip xs ys))"
proof -
  have "length (filter P [0..<8]) \<le> 8" for P using length_filter_le [of P "[0..<8]"] by simp
  then have "sum_list (map (\<lambda>(x, y). length (filter (\<lambda>k. bit x k \<noteq> bit y k) [0..<8])) ps) \<le>
      8 * length (filter (\<lambda>(x, y). x \<noteq> y) ps)" for ps :: "(8 word \<times> 8 word) list"
    by (induction ps) (auto intro: add_mono simp del: upt_Suc upt_conv_Cons)
  then show ?thesis unfolding bitErrors_def .
qed

end
