(* ===== verification/File_Calls.thy ===== *)
theory File_Calls
  imports Prelude
begin

text \<open>
  The calls of the C library and of \<^verbatim>\<open>libbase\<close> on files that the services of this development make, as a parameter: the opening
  of a path, \<^verbatim>\<open>lseek\<close> from the start, \<^verbatim>\<open>ReadFully\<close> with a number of bytes, \<^verbatim>\<open>WriteFully\<close>, and the destructor of \<^verbatim>\<open>unique_fd\<close>.
  The state \<open>'w\<close> is that of the system. \<open>file_contents\<close> is the documented behaviour that the properties rely on.
\<close>

datatype open_flag = O_RDONLY | O_WRONLY | O_NOFOLLOW | O_CLOEXEC | O_SYNC

record 'w file_calls =
  openFile :: "string \<Rightarrow> open_flag list \<Rightarrow> 'w \<Rightarrow> int \<times> 'w"
  seekSet :: "int \<Rightarrow> int \<Rightarrow> 'w \<Rightarrow> int \<times> 'w"
  ReadFully :: "int \<Rightarrow> nat \<Rightarrow> 'w \<Rightarrow> 8 word list option \<times> 'w"
  WriteFully :: "int \<Rightarrow> 8 word list \<Rightarrow> 'w \<Rightarrow> bool \<times> 'w"
  destroyFd :: "int \<Rightarrow> 'w \<Rightarrow> 'w"

text \<open>
  The bytes of the files and the positions of the open descriptors, as what is done to them: opening sets the position to
  the start, seeking sets it, a full read gives the bytes there, a full write replaces them, and only a
  write changes any bytes; a write that failed may have changed any of the file it is on.
\<close>

definition file_contents ::
  "'w file_calls \<Rightarrow> (string \<Rightarrow> 'w \<Rightarrow> 8 word list) \<Rightarrow> (int \<Rightarrow> 'w \<Rightarrow> (string \<times> int) option) \<Rightarrow> bool" where
  "file_contents os bytes position \<longleftrightarrow>
     (\<forall>path flags w fd w'. openFile os path flags w = (fd, w') \<longrightarrow>
        (\<forall>p. bytes p w' = bytes p w) \<and> (fd \<noteq> - 1 \<longrightarrow> position fd w' = Some (path, 0))) \<and>
     (\<forall>fd offset w r w'. seekSet os fd offset w = (r, w') \<longrightarrow>
        (\<forall>p. bytes p w' = bytes p w) \<and>
        (\<forall>p n. r = offset \<longrightarrow> position fd w = Some (p, n) \<longrightarrow> position fd w' = Some (p, offset))) \<and>
     (\<forall>fd k w r w'. ReadFully os fd k w = (r, w') \<longrightarrow>
        (\<forall>p. bytes p w' = bytes p w) \<and>
        (\<forall>p offset b. position fd w = Some (p, offset) \<longrightarrow> r = Some b \<longrightarrow>
           length b = k \<and> b = take k (drop (nat offset) (bytes p w)))) \<and>
     (\<forall>fd b w w' p offset. WriteFully os fd b w = (True, w') \<longrightarrow> position fd w = Some (p, offset) \<longrightarrow>
        bytes p w' = take (nat offset) (bytes p w) @ b @ drop (nat offset + length b) (bytes p w)) \<and>
     (\<forall>fd w p. bytes p (destroyFd os fd w) = bytes p w)"

lemma file_contentsD:
  assumes "file_contents os bytes position"
  shows open_bytes: "openFile os path flags w = (fd, w') \<Longrightarrow> bytes p w' = bytes p w"
    and open_position: "openFile os path flags w = (fd, w') \<Longrightarrow> fd \<noteq> - 1 \<Longrightarrow> position fd w' = Some (path, 0)"
    and seek_bytes: "seekSet os fd offset w = (r, w') \<Longrightarrow> bytes p w' = bytes p w"
    and seek_position: "seekSet os fd offset w = (offset, w') \<Longrightarrow> position fd w = Some (path, n) \<Longrightarrow>
      position fd w' = Some (path, offset)"
    and read_bytes: "ReadFully os fd k w = (res, w') \<Longrightarrow> bytes p w' = bytes p w"
    and read_contents: "ReadFully os fd k w = (Some b, w') \<Longrightarrow> position fd w = Some (path, offset) \<Longrightarrow>
      length b = k \<and> b = take k (drop (nat offset) (bytes path w))"
    and write_bytes: "WriteFully os fd b w = (True, w') \<Longrightarrow> position fd w = Some (path, offset) \<Longrightarrow>
      bytes path w' = take (nat offset) (bytes path w) @ b @ drop (nat offset + length b) (bytes path w)"
    and destroy_bytes: "bytes p (destroyFd os fd w) = bytes p w"
proof -
  note c = assms [unfolded file_contents_def]
  note opens = conjunct1 [OF c] and seeks = conjunct1 [OF conjunct2 [OF c]]
    and reads = conjunct1 [OF conjunct2 [OF conjunct2 [OF c]]]
    and writes = conjunct1 [OF conjunct2 [OF conjunct2 [OF conjunct2 [OF c]]]]
    and destroys = conjunct2 [OF conjunct2 [OF conjunct2 [OF conjunct2 [OF c]]]]
  show "openFile os path flags w = (fd, w') \<Longrightarrow> bytes p w' = bytes p w"
    and "openFile os path flags w = (fd, w') \<Longrightarrow> fd \<noteq> - 1 \<Longrightarrow> position fd w' = Some (path, 0)"
    by (rule opens [rule_format, THEN conjunct1, rule_format], assumption)
      (rule opens [rule_format, THEN conjunct2, rule_format])
  show "seekSet os fd offset w = (r, w') \<Longrightarrow> bytes p w' = bytes p w"
    by (rule seeks [rule_format, THEN conjunct1, rule_format])
  show "seekSet os fd offset w = (offset, w') \<Longrightarrow> position fd w = Some (path, n) \<Longrightarrow> position fd w' = Some (path, offset)"
    by (rule seeks [rule_format, THEN conjunct2, rule_format]) simp_all
  show "ReadFully os fd k w = (res, w') \<Longrightarrow> bytes p w' = bytes p w"
    by (rule reads [rule_format, THEN conjunct1, rule_format])
  show "ReadFully os fd k w = (Some b, w') \<Longrightarrow> position fd w = Some (path, offset) \<Longrightarrow>
      length b = k \<and> b = take k (drop (nat offset) (bytes path w))"
    by (rule reads [rule_format, THEN conjunct2, rule_format]) simp_all
  show "WriteFully os fd b w = (True, w') \<Longrightarrow> position fd w = Some (path, offset) \<Longrightarrow>
      bytes path w' = take (nat offset) (bytes path w) @ b @ drop (nat offset + length b) (bytes path w)"
    by (rule writes [rule_format])
  show "bytes p (destroyFd os fd w) = bytes p w" by (rule destroys [rule_format])
qed

text \<open>Files in memory, on which no call fails, with one descriptor and its path and position.\<close>

type_synonym memory_state = "(string \<Rightarrow> 8 word list) \<times> string \<times> int"

definition memoryFiles :: "memory_state file_calls" where
  "memoryFiles = \<lparr>openFile = \<lambda>path flags (files, _). (3, files, path, 0),
     seekSet = \<lambda>fd offset (files, path, _). (offset, files, path, offset),
     ReadFully = \<lambda>fd k (files, path, n). (if nat n + k \<le> length (files path) then Some (take k (drop (nat n) (files path))) else None,
       files, path, n),
     WriteFully = \<lambda>fd b (files, path, n).
       (True, files(path := take (nat n) (files path) @ b @ drop (nat n + length b) (files path)), path, n),
     destroyFd = \<lambda>fd w. w\<rparr>"

definition memoryBytes :: "string \<Rightarrow> memory_state \<Rightarrow> 8 word list" where
  "memoryBytes p w = fst w p"

definition memoryPosition :: "int \<Rightarrow> memory_state \<Rightarrow> (string \<times> int) option" where
  "memoryPosition fd w = Some (snd w)"

lemma memoryFiles_contents: "file_contents memoryFiles memoryBytes memoryPosition"
  by (auto simp: file_contents_def memoryFiles_def memoryBytes_def memoryPosition_def)

end
