(* ===== verification/Reboot_Escrow.thy ===== *)
theory Reboot_Escrow
  imports Hadamard_Shuffle File_Calls
begin

text \<open>
  \<^verbatim>\<open>rebootescrow/aidl/default/RebootEscrow.cpp\<close>: the service that keeps a key in a character device over a reboot.

  The calls on the device are the parameter \<open>os\<close> of \<open>File_Calls\<close> (its opening includes the retry on \<^verbatim>\<open>EINTR\<close>). An
  operation returns its status, and \<open>None\<close> when a \<^verbatim>\<open>CHECK\<close> of the encoding ends the process.
\<close>

unbundle bit_operations_syntax

section \<open>The service\<close>

datatype ScopedAStatus = StatusOk | EX_UNSUPPORTED_OPERATION

definition storeKey :: "'w file_calls \<Rightarrow> string \<Rightarrow> 8 word list \<Rightarrow> 'w \<Rightarrow> (ScopedAStatus \<times> 'w) option" where
  "storeKey os devicePath ukek w = (let (fd, w) = openFile os devicePath [O_WRONLY, O_NOFOLLOW, O_CLOEXEC] w in
     if fd < 0 then Some (EX_UNSUPPORTED_OPERATION, destroyFd os fd w)
     else case EncodeKey ukek of
       None \<Rightarrow> None
     | Some encoded \<Rightarrow> (let (written, w) = WriteFully os fd encoded w in
         if \<not> written then Some (EX_UNSUPPORTED_OPERATION, destroyFd os fd w)
         else Some (StatusOk, destroyFd os fd w)))"

text \<open>The result is the status and the vector of the caller, which only a successful call sets.\<close>

definition retrieveKey ::
  "'w file_calls \<Rightarrow> string \<Rightarrow> 8 word list \<Rightarrow> 'w \<Rightarrow> (ScopedAStatus \<times> 8 word list \<times> 'w) option" where
  "retrieveKey os devicePath aidl_return w = (let (fd, w) = openFile os devicePath [O_RDONLY, O_NOFOLLOW, O_CLOEXEC] w in
     if fd < 0 then Some (EX_UNSUPPORTED_OPERATION, aidl_return, destroyFd os fd w)
     else case ReadFully os fd OUTPUT_SIZE_BYTES w of
       (None, w) \<Rightarrow> Some (EX_UNSUPPORTED_OPERATION, aidl_return, destroyFd os fd w)
     | (Some encodedBytes, w) \<Rightarrow> (case DecodeKey encodedBytes of
         None \<Rightarrow> None
       | Some keyBytes \<Rightarrow> Some (StatusOk, keyBytes, destroyFd os fd w)))"

section \<open>An error correcting code\<close>

text \<open>What the service relies on: that the key comes out of what was encoded, up to a number of errors.\<close>

locale error_correcting =
  fixes encode :: "'k \<Rightarrow> 'b list option" and decode :: "'b list \<Rightarrow> 'k option"
    and errors :: "'b list \<Rightarrow> 'b list \<Rightarrow> nat" and size :: nat and tolerated :: nat
  assumes corrects: "encode k = Some e \<Longrightarrow> length s = size \<Longrightarrow> errors s e < tolerated \<Longrightarrow> decode s = Some k"
    and encoded_size: "encode k = Some e \<Longrightarrow> length e = size"
    and no_errors: "errors e e = 0" and some_tolerated: "0 < tolerated"
begin

lemma decode_encode: "encode k = Some e \<Longrightarrow> decode e = Some k"
  by (rule corrects) (auto simp: encoded_size no_errors some_tolerated)

text \<open>The encodings of different keys are far apart.\<close>

lemma apart: "encode k = Some e \<Longrightarrow> encode k' = Some e' \<Longrightarrow> k \<noteq> k' \<Longrightarrow> tolerated \<le> errors e' e"
  using corrects [of k e e'] decode_encode [of k' e'] encoded_size [of k' e'] by (auto simp: not_le [symmetric])

end

interpretation escrow: error_correcting EncodeKey DecodeKey bitErrors OUTPUT_SIZE_BYTES "2 ^ 13"
  by unfold_locales (simp_all add: DecodeKey_corrects EncodeKey_length bitErrors_self)

section \<open>What the service promises\<close>

text \<open>What is on the device: the bytes at its start.\<close>

definition onDevice :: "(string \<Rightarrow> 'w \<Rightarrow> 8 word list) \<Rightarrow> string \<Rightarrow> 'w \<Rightarrow> 8 word list" where
  "onDevice bytes path w = take OUTPUT_SIZE_BYTES (bytes path w)"

lemma stored_encoding:
  assumes "file_contents os bytes position" "storeKey os path key w = Some (StatusOk, w')"
  shows "EncodeKey key = Some (onDevice bytes path w')"
proof -
  obtain fd w1 where o: "openFile os path [O_WRONLY, O_NOFOLLOW, O_CLOEXEC] w = (fd, w1)" by fastforce
  obtain encoded w2 where e: "EncodeKey key = Some encoded" "WriteFully os fd encoded w1 = (True, w2)" "\<not> fd < 0"
      "w' = destroyFd os fd w2"
    using assms(2) by (auto simp: storeKey_def Let_def o split: prod.splits if_splits option.splits)
  have "position fd w1 = Some (path, 0)" using open_position [OF assms(1) o] e(3) by simp
  from write_bytes [OF assms(1) e(2) this] have "bytes path w' = encoded @ drop (length encoded) (bytes path w1)"
    by (simp add: e(4) destroy_bytes [OF assms(1)])
  then show ?thesis by (simp add: onDevice_def e(1) EncodeKey_length [OF e(1)])
qed

lemma retrieved_decoding:
  assumes "file_contents os bytes position" "retrieveKey os path r w = Some (StatusOk, key, w')"
  shows "DecodeKey (onDevice bytes path w) = Some key \<and> length (onDevice bytes path w) = OUTPUT_SIZE_BYTES"
proof -
  obtain fd w1 where o: "openFile os path [O_RDONLY, O_NOFOLLOW, O_CLOEXEC] w = (fd, w1)" by fastforce
  obtain b w2 where b: "ReadFully os fd OUTPUT_SIZE_BYTES w1 = (Some b, w2)" "DecodeKey b = Some key" "\<not> fd < 0"
    using assms(2) by (auto simp: retrieveKey_def Let_def o split: prod.splits if_splits option.splits)
  have "position fd w1 = Some (path, 0)" using open_position [OF assms(1) o] b(3) by simp
  from read_contents [OF assms(1) b(1) this] have "length b = OUTPUT_SIZE_BYTES \<and> b = onDevice bytes path w"
    unfolding onDevice_def open_bytes [OF assms(1) o] nat_0 drop_0 .
  then show ?thesis using b(2) by metis
qed

text \<open>A key, and its encoding with its first thousand bytes lost.\<close>

definition sampleKey :: "8 word list" where
  "sampleKey = map (\<lambda>i. word_of_nat (7 * i)) [0..<32]"

definition sampleEncoded :: "8 word list" where
  "sampleEncoded = the (EncodeKey sampleKey)"

definition sampleStored :: "8 word list" where
  "sampleStored = replicate 1000 0 @ drop 1000 sampleEncoded"

lemma sampleEncoded: "EncodeKey sampleKey = Some sampleEncoded"
  by (simp add: sampleEncoded_def EncodeKey_def sampleKey_def hadamard_sizes(7))

lemma length_sampleEncoded: "length sampleEncoded = OUTPUT_SIZE_BYTES"
  by (rule EncodeKey_length [OF sampleEncoded])

lemma length_sampleStored: "length sampleStored = OUTPUT_SIZE_BYTES"
  by (simp add: sampleStored_def length_sampleEncoded hadamard_sizes(8))

lemma sampleStored_errors: "bitErrors sampleStored sampleEncoded < 2 ^ 13"
proof -
  define e where "e = sampleEncoded"
  have z: "zip sampleStored e = zip (replicate 1000 0) (take 1000 e) @ zip (drop 1000 e) (drop 1000 e)"
    using zip_append [of "replicate 1000 0" "take 1000 e" "drop 1000 e" "drop 1000 e"] length_sampleEncoded
    by (simp add: sampleStored_def e_def hadamard_sizes(8))
  have "filter (\<lambda>(x, y). x \<noteq> y) (zip xs xs) = []" for xs :: "8 word list"
    by (induction xs) simp_all
  then have "length (filter (\<lambda>(x, y). x \<noteq> y) (zip sampleStored e)) \<le> length (zip (replicate 1000 (0 :: 8 word)) (take 1000 e))"
    unfolding z filter_append by (simp only: append_Nil2 length_filter_le)
  also have "\<dots> \<le> 1000" by simp
  finally show ?thesis using bitErrors_bytes [of sampleStored e] by (simp add: e_def)
qed

section \<open>Properties\<close>

text \<open>
  Claim C24 (key_survives). A key that the service stored with success is the key that it returns with success, whatever
  happened to the memory of the device between the two calls, if fewer than 2^13 of the 2^19 bits of the encoding have
  changed.
\<close>

theorem key_survives:
  assumes "file_contents os bytes position"
    and "storeKey os path key w0 = Some (StatusOk, w1)"
    and "bitErrors (onDevice bytes path w2) (onDevice bytes path w1) < 2 ^ 13"
    and "retrieveKey os path r w2 = Some (StatusOk, key', w3)"
  shows "key' = key"
proof -
  have e: "EncodeKey key = Some (onDevice bytes path w1)" by (rule stored_encoding [OF assms(1,2)])
  have d: "DecodeKey (onDevice bytes path w2) = Some key'" "length (onDevice bytes path w2) = OUTPUT_SIZE_BYTES"
    using retrieved_decoding [OF assms(1,4)] by blast+
  then show ?thesis using escrow.corrects [OF e d(2) assms(3)] by simp
qed

theorem key_survives_witness:
  "storeKey memoryFiles ''/dev/key'' sampleKey (\<lambda>_. [], [], 0) =
      Some (StatusOk, (\<lambda>_. [])(''/dev/key'' := sampleEncoded), ''/dev/key'', 0) \<and>
    (\<exists>key' w. retrieveKey memoryFiles ''/dev/key'' [] (\<lambda>_. sampleStored, [], 0) = Some (StatusOk, key', w) \<and> key' = sampleKey)"
proof
  show s: "storeKey memoryFiles ''/dev/key'' sampleKey (\<lambda>_. [], [], 0) =
      Some (StatusOk, (\<lambda>_. [])(''/dev/key'' := sampleEncoded), ''/dev/key'', 0)"
    by (simp add: storeKey_def memoryFiles_def sampleEncoded)
  have "DecodeKey sampleStored = Some sampleKey"
    by (rule escrow.corrects [OF sampleEncoded length_sampleStored sampleStored_errors])
  then have r: "retrieveKey memoryFiles ''/dev/key'' [] (\<lambda>_. sampleStored, [], 0) =
      Some (StatusOk, sampleKey, \<lambda>_. sampleStored, ''/dev/key'', 0)"
    by (simp add: retrieveKey_def memoryFiles_def length_sampleStored)
  have "bitErrors (onDevice memoryBytes ''/dev/key'' (\<lambda>_. sampleStored, [], 0))
      (onDevice memoryBytes ''/dev/key'' ((\<lambda>_. [])(''/dev/key'' := sampleEncoded), ''/dev/key'', 0)) < 2 ^ 13"
    using sampleStored_errors by (simp add: onDevice_def memoryBytes_def length_sampleStored length_sampleEncoded)
  from key_survives [OF memoryFiles_contents s this r] r
  show "\<exists>key' w. retrieveKey memoryFiles ''/dev/key'' [] (\<lambda>_. sampleStored, [], 0) = Some (StatusOk, key', w) \<and> key' = sampleKey"
    by blast
qed

text \<open>
  Claim C25 (key_recovered). The decoder returns the key encoded, from any 64 kilobytes that differ from the encoding in fewer
  than 2^13 bits: every codeword keeps the highest score, the shuffles cancel out, and a key of 32 bytes is
  put together from its codewords in the same order.
\<close>

theorem key_recovered:
  assumes "EncodeKey key = Some encoded" "length stored = OUTPUT_SIZE_BYTES" "bitErrors stored encoded < 2 ^ 13"
  shows "DecodeKey stored = Some key"
  by (rule escrow.corrects [OF assms])

theorem key_recovered_witness:
  "sampleStored \<noteq> [] \<and> DecodeKey sampleStored = Some sampleKey"
  using key_recovered [OF sampleEncoded length_sampleStored sampleStored_errors] length_sampleStored
  by (auto simp: hadamard_sizes(8))

text \<open>
  Claim C26 (gray_code_encoding). The encoder, which goes through the positions in the order of the Gray code and changes one
  row at a step, writes at each position \<open>n\<close> the two bytes of the word that the reference definition gives: the last row
  of the transposed key, with each row \<open>b\<close> added for which bit \<open>b\<close> of \<open>n\<close> is set.
\<close>

theorem gray_code_encoding:
  "encodeWords matrix = concat (map (\<lambda>n. let e = fold (\<lambda>b val. if bit n b then val XOR matrix ! b else val) [0..<15] (matrix ! 15) in
     [ucast (e AND 0xff), ucast (drop_bit 8 e)]) [0..<ENCODE_LENGTH])"
proof -
  have "encodeWords matrix = map ((!) (encodeWords matrix)) [0..<2 * ENCODE_LENGTH]"
    using map_nth [of "encodeWords matrix"] by (simp add: encodeWords_filled(1) hadamard_sizes(3))
  also have "\<dots> = concat (map (\<lambda>n. [encodeWords matrix ! (n * 2), encodeWords matrix ! (n * 2 + 1)]) [0..<ENCODE_LENGTH])"
    by (rule map_pairs)
  also have "\<dots> = concat (map (\<lambda>n. let e = encodedWord matrix n in [ucast (e AND 0xff), ucast (drop_bit 8 e)]) [0..<ENCODE_LENGTH])"
    using encodeWords_filled(2) [of _ matrix]
    by (intro arg_cong [of _ _ concat] map_cong) (simp_all add: filled_def hadamard_sizes(3) Let_def)
  finally show ?thesis unfolding encodedWord_def .
qed

text \<open>
  Claim C27 (scores_bounded). After \<open>i\<close> stages of the decoder no score is larger than 2^i or smaller than -2^i, whatever the
  bytes read; so no addition of the stages overflows an \<^verbatim>\<open>int32_t\<close>, nor does a difference of two final scores.
\<close>

theorem scores_bounded:
  assumes "i \<le> CODE_K" "n < ENCODE_LENGTH"
  shows "\<bar>fold hadamardStage [0..<i] (initialScores word encoded) ! n\<bar> \<le> 2 ^ i"
  by (rule scores_in_range [OF assms])

theorem scores_bounded_witness:
  "15 \<le> CODE_K \<and> \<bar>fold hadamardStage [0..<15] (initialScores 3 sampleStored) ! 100\<bar> \<le> 32768"
  using scores_bounded [of 15 100 3 sampleStored] by (simp add: hadamard_sizes)

end
