(* ===== verification/Bootloader_Block.thy ===== *)
theory Bootloader_Block
  imports Prelude
begin

text \<open>
  The block in which the boot loader and the boot control service share their state,
  \<^verbatim>\<open>boot/1.1/default/boot_control/include/private/boot_control_definition.h\<close>, its bytes and its checksum.

  Bit fields are words of their width. The packed layout is the one of little endian targets: bit fields fill a byte from
  its lowest bit and go on in the next one, so that the nine bits of \<open>nb_slot\<close>, \<open>recovery_tries_remaining\<close> and
  \<open>merge_status\<close> take two bytes; the seven bits left over are the field \<open>bc_padding\<close>, which the checksum includes.
\<close>

unbundle bit_operations_syntax

section \<open>The block\<close>

record slot_metadata =
  sm_priority :: "4 word"
  sm_tries_remaining :: "3 word"
  sm_successful_boot :: "1 word"
  sm_verity_corrupted :: "1 word"
  sm_reserved :: "7 word"

record bootloader_control =
  bc_slot_suffix :: "8 word list"
  bc_magic :: "32 word"
  bc_version :: "8 word"
  bc_nb_slot :: "3 word"
  bc_recovery_tries_remaining :: "3 word"
  bc_merge_status :: "3 word"
  bc_padding :: "7 word"
  bc_reserved0 :: "8 word"
  bc_slot_info :: "slot_metadata list"
  bc_reserved1 :: "8 word list"
  bc_crc32_le :: "32 word"

text \<open>The arrays have their lengths.\<close>

definition control_shape :: "bootloader_control \<Rightarrow> bool" where
  "control_shape c \<longleftrightarrow> length (bc_slot_suffix c) = 4 \<and> length (bc_slot_info c) = 4 \<and> length (bc_reserved1 c) = 8"

section \<open>Its bytes\<close>

definition le16 :: "16 word \<Rightarrow> 8 word list" where
  "le16 x = [ucast x, ucast (drop_bit 8 x)]"

definition le32 :: "32 word \<Rightarrow> 8 word list" where
  "le32 x = [ucast x, ucast (drop_bit 8 x), ucast (drop_bit 16 x), ucast (drop_bit 24 x)]"

definition of_le16 :: "8 word list \<Rightarrow> 16 word" where
  "of_le16 b = ucast (b ! 0) OR push_bit 8 (ucast (b ! 1))"

definition of_le32 :: "8 word list \<Rightarrow> 32 word" where
  "of_le32 b = ucast (b ! 0) OR push_bit 8 (ucast (b ! 1)) OR push_bit 16 (ucast (b ! 2)) OR push_bit 24 (ucast (b ! 3))"

definition slotBytes :: "slot_metadata \<Rightarrow> 8 word list" where
  "slotBytes m = le16 (ucast (sm_priority m) OR push_bit 4 (ucast (sm_tries_remaining m)) OR
     push_bit 7 (ucast (sm_successful_boot m)) OR push_bit 8 (ucast (sm_verity_corrupted m)) OR
     push_bit 9 (ucast (sm_reserved m)))"

definition slotOfBytes :: "8 word list \<Rightarrow> slot_metadata" where
  "slotOfBytes b = (let x = of_le16 b in
     \<lparr>sm_priority = ucast x, sm_tries_remaining = ucast (drop_bit 4 x), sm_successful_boot = ucast (drop_bit 7 x),
      sm_verity_corrupted = ucast (drop_bit 8 x), sm_reserved = ucast (drop_bit 9 x)\<rparr>)"

definition controlBytes :: "bootloader_control \<Rightarrow> 8 word list" where
  "controlBytes c = bc_slot_suffix c @ le32 (bc_magic c) @ [bc_version c] @
     le16 (ucast (bc_nb_slot c) OR push_bit 3 (ucast (bc_recovery_tries_remaining c)) OR
       push_bit 6 (ucast (bc_merge_status c)) OR push_bit 9 (ucast (bc_padding c))) @ [bc_reserved0 c] @
     concat (map slotBytes (bc_slot_info c)) @ bc_reserved1 c @ le32 (bc_crc32_le c)"

definition controlOfBytes :: "8 word list \<Rightarrow> bootloader_control" where
  "controlOfBytes b = (let x = of_le16 (drop 9 b) in
     \<lparr>bc_slot_suffix = take 4 b, bc_magic = of_le32 (drop 4 b), bc_version = b ! 8,
      bc_nb_slot = ucast x, bc_recovery_tries_remaining = ucast (drop_bit 3 x), bc_merge_status = ucast (drop_bit 6 x),
      bc_padding = ucast (drop_bit 9 x), bc_reserved0 = b ! 11,
      bc_slot_info = map (\<lambda>i. slotOfBytes (drop (12 + 2 * i) b)) [0..<4],
      bc_reserved1 = take 8 (drop 20 b), bc_crc32_le = of_le32 (drop 28 b)\<rparr>)"

section \<open>The checksum\<close>

definition crcStep :: "32 word \<Rightarrow> 32 word" where
  "crcStep crc = (let mask = - (crc AND 1) in drop_bit 1 crc XOR (0xEDB88320 AND mask))"

definition crc_table :: "32 word list" where
  "crc_table = map (\<lambda>i. fold (\<lambda>j. crcStep) [0..<8] (word_of_nat i)) [0..<256]"

definition CRC32 :: "8 word list \<Rightarrow> 32 word" where
  "CRC32 buf = NOT (fold (\<lambda>b ret. drop_bit 8 ret XOR crc_table ! unat ((ret XOR ucast b) AND 0xFF)) buf (- 1))"

text \<open>Of the 28 bytes before the checksum.\<close>

definition BootloaderControlLECRC :: "bootloader_control \<Rightarrow> 32 word" where
  "BootloaderControlLECRC boot_ctrl = CRC32 (take 28 (controlBytes boot_ctrl))"

section \<open>The layout\<close>

lemma length_slotBytes [simp]: "length (slotBytes m) = 2"
  by (simp add: slotBytes_def le16_def)

lemma le16_of_le16: "of_le16 (le16 x @ r) = x"
  by (rule bit_word_eqI)
    (auto simp: of_le16_def le16_def bit_or_iff bit_push_bit_iff bit_ucast_iff bit_drop_bit_eq)

lemma le32_of_le32: "of_le32 (le32 x @ r) = x"
proof (rule bit_word_eqI)
  fix n assume "n < LENGTH(32)"
  then consider "n < 8" | "8 \<le> n" "n < 16" | "16 \<le> n" "n < 24" | "24 \<le> n" "n < 32" by (auto simp: not_less [symmetric])
  then show "bit (of_le32 (le32 x @ r)) n = bit x n"
    by cases (auto simp: of_le32_def le32_def bit_or_iff bit_push_bit_iff bit_ucast_iff bit_drop_bit_eq)
qed

lemma slot_bytes: "slotOfBytes (slotBytes m @ r) = m"
proof -
  define x where "x = (ucast (sm_priority m) OR push_bit 4 (ucast (sm_tries_remaining m)) OR
     push_bit 7 (ucast (sm_successful_boot m)) OR push_bit 8 (ucast (sm_verity_corrupted m)) OR
     push_bit 9 (ucast (sm_reserved m)) :: 16 word)"
  have "ucast x = sm_priority m" "ucast (drop_bit 4 x) = sm_tries_remaining m" "ucast (drop_bit 7 x) = sm_successful_boot m"
    "ucast (drop_bit 8 x) = sm_verity_corrupted m" "ucast (drop_bit 9 x) = sm_reserved m"
    by (rule bit_word_eqI, auto simp: x_def bit_or_iff bit_push_bit_iff bit_ucast_iff bit_drop_bit_eq impossible_bit)+
  then show ?thesis by (simp add: slotOfBytes_def slotBytes_def le16_of_le16 flip: x_def)
qed

lemma length_controlBytes: "control_shape c \<Longrightarrow> length (controlBytes c) = 32"
  by (simp add: control_shape_def controlBytes_def le16_def le32_def length_concat comp_def sum_list_triv)

lemma controlOfBytes_shape: "length b = 32 \<Longrightarrow> control_shape (controlOfBytes b)"
  by (simp add: control_shape_def controlOfBytes_def Let_def)

lemma control_bytes: "control_shape c \<Longrightarrow> controlOfBytes (controlBytes c) = c"
proof -
  assume "control_shape c"
  then obtain s0 s1 s2 s3 m0 m1 m2 m3 where s: "bc_slot_suffix c = [s0, s1, s2, s3]" "bc_slot_info c = [m0, m1, m2, m3]"
    "length (bc_reserved1 c) = 8"
    by (auto simp: control_shape_def length_Suc_conv numeral_eq_Suc)
  define x where "x = (ucast (bc_nb_slot c) OR push_bit 3 (ucast (bc_recovery_tries_remaining c)) OR
       push_bit 6 (ucast (bc_merge_status c)) OR push_bit 9 (ucast (bc_padding c)) :: 16 word)"
  have x: "ucast x = bc_nb_slot c" "ucast (drop_bit 3 x) = bc_recovery_tries_remaining c" "ucast (drop_bit 6 x) = bc_merge_status c"
    "ucast (drop_bit 9 x) = bc_padding c"
    by (rule bit_word_eqI, auto simp: x_def bit_or_iff bit_push_bit_iff bit_ucast_iff bit_drop_bit_eq impossible_bit)+
  define tl where "tl = bc_reserved1 c @ le32 (bc_crc32_le c)"
  have b: "controlBytes c = [s0, s1, s2, s3] @ le32 (bc_magic c) @ [bc_version c] @ le16 x @ [bc_reserved0 c] @
      slotBytes m0 @ slotBytes m1 @ slotBytes m2 @ slotBytes m3 @ tl"
    by (simp add: controlBytes_def s tl_def flip: x_def)
  have l: "length (le32 y) = 4" "length (le16 z) = 2" for y z by (simp_all add: le32_def le16_def)
  have "le32 y = le32 y @ []" for y by simp
  then have e: "of_le32 (le32 y) = y" for y by (metis le32_of_le32)
  have "take 8 (drop 20 (controlBytes c)) = bc_reserved1 c" "drop 28 (controlBytes c) = le32 (bc_crc32_le c)"
    unfolding b using s(3) by (simp_all add: l tl_def)
  moreover have "drop 9 (controlBytes c) = le16 x @ drop 11 (controlBytes c)" "drop 4 (controlBytes c) = le32 (bc_magic c) @ drop 8 (controlBytes c)"
    unfolding b by (simp_all add: le32_def le16_def)
  moreover have "controlBytes c ! 8 = bc_version c" "controlBytes c ! 11 = bc_reserved0 c" "take 4 (controlBytes c) = bc_slot_suffix c"
    unfolding b by (simp_all add: le32_def le16_def s)
  moreover have "map (\<lambda>i. slotOfBytes (drop (12 + 2 * i) (controlBytes c))) [0..<4] = bc_slot_info c"
  proof -
    have "[0..<4] = [0, 1, 2, 3]" by code_simp
    then show ?thesis unfolding b s by (simp add: l slot_bytes)
  qed
  ultimately show ?thesis
    by (simp add: controlOfBytes_def Let_def le16_of_le16 le32_of_le32 x e)
qed

section \<open>What the checksum computes\<close>

lemma crcStep_bits: "crcStep crc = drop_bit 1 crc XOR (if bit crc 0 then 0xEDB88320 else 0)"
proof -
  have "crc AND 1 = (if bit crc 0 then 1 else 0)" by (simp add: and_one_eq mod2_eq_if bit_0)
  then show ?thesis by (simp add: crcStep_def)
qed

lemma xor_eq_0: "a XOR b = 0 \<Longrightarrow> a = b" for a b :: "32 word"
proof -
  assume "a XOR b = 0"
  then have "(a XOR b) XOR b = b" by simp
  then show "a = b" by (simp add: xor.assoc)
qed

lemma xor_cancel: "a XOR c = b XOR c \<Longrightarrow> a = b" for a b c :: "32 word"
proof -
  assume "a XOR c = b XOR c"
  then have "(a XOR c) XOR c = (b XOR c) XOR c" by simp
  then show "a = b" by (simp add: xor.assoc)
qed

lemma crcStep_xor: "crcStep (a XOR b) = crcStep a XOR crcStep b"
  by (simp add: crcStep_bits bit_xor_iff ac_simps)

lemma crcStep_eq_0: "crcStep d = 0 \<Longrightarrow> d = 0"
proof -
  assume z: "crcStep d = 0"
  have "\<not> bit d 0"
  proof
    assume "bit d 0"
    then have "bit (crcStep d) 31 = bit (0xEDB88320 :: 32 word) 31"
      by (simp add: crcStep_bits bit_xor_iff bit_drop_bit_eq impossible_bit)
    moreover have "bit (0xEDB88320 :: 32 word) 31" by simp
    ultimately show False using z by simp
  qed
  moreover from this have "bit (drop_bit 1 d) m = False" for m using z by (simp add: crcStep_bits)
  ultimately have "bit d n = False" for n by (cases n) (simp_all add: bit_drop_bit_eq)
  then show "d = 0" by (intro bit_word_eqI) simp
qed

text \<open>Eight steps, without the table.\<close>

definition crcByte :: "32 word \<Rightarrow> 32 word" where
  "crcByte crc = (crcStep ^^ 8) crc"

lemma crcByte_fold: "fold (\<lambda>j. crcStep) [0..<8] crc = crcByte crc"
proof -
  have "fold (\<lambda>j. crcStep) [0..<n] crc = (crcStep ^^ n) crc" for n by (induction n) simp_all
  then show ?thesis by (simp add: crcByte_def)
qed

lemma crcSteps_xor: "(crcStep ^^ n) (a XOR b) = (crcStep ^^ n) a XOR (crcStep ^^ n) b"
  by (induction n) (simp_all add: crcStep_xor)

lemma crcByte_xor: "crcByte (a XOR b) = crcByte a XOR crcByte b"
  by (simp only: crcByte_def crcSteps_xor)

lemma crcByte_inj: "crcByte a = crcByte b \<Longrightarrow> a = b"
proof -
  assume "crcByte a = crcByte b"
  then have z: "(crcStep ^^ 8) (a XOR b) = 0" using crcByte_xor [of a b] by (simp add: crcByte_def)
  have "(crcStep ^^ n) d = 0 \<Longrightarrow> d = 0" for n d by (induction n) (auto dest: crcStep_eq_0)
  from this [OF z] show "a = b" by (rule xor_eq_0)
qed

lemma crcSteps_shift: "(\<And>k. k < n \<Longrightarrow> \<not> bit x k) \<Longrightarrow> (crcStep ^^ n) x = drop_bit n x"
proof (induction n)
  case (Suc n)
  have "(crcStep ^^ Suc n) x = crcStep (drop_bit n x)" using Suc by simp
  also have "\<dots> = drop_bit (Suc n) x" using Suc.prems [of n] by (simp add: crcStep_bits bit_drop_bit_eq drop_bit_drop_bit)
  finally show ?case .
qed simp

lemma crcByte_push: "take_bit 24 x = x \<Longrightarrow> crcByte (push_bit 8 x) = x"
proof -
  assume x: "take_bit 24 x = x"
  have "crcByte (push_bit 8 x) = drop_bit 8 (push_bit 8 x)"
    unfolding crcByte_def by (rule crcSteps_shift) (simp add: bit_push_bit_iff)
  also have "\<dots> = x"
  proof (rule bit_word_eqI)
    fix n assume "n < LENGTH(32)"
    have "bit x n = (n < 24 \<and> bit x n)" using x by (metis bit_take_bit_iff)
    then show "bit (drop_bit 8 (push_bit 8 x)) n = bit x n" by (auto simp: bit_drop_bit_eq bit_push_bit_iff)
  qed
  finally show ?thesis .
qed

lemma crcByte_split: "crcByte x = drop_bit 8 x XOR crcByte (x AND 0xFF)"
proof -
  have ff: "x AND 0xFF = take_bit 8 x" by (simp add: take_bit_eq_mask mask_eq_exp_minus_1)
  have "x = push_bit 8 (drop_bit 8 x) XOR take_bit 8 x"
    by (rule bit_word_eqI) (auto simp: bit_xor_iff bit_push_bit_iff bit_drop_bit_eq bit_take_bit_iff)
  then have "crcByte x = crcByte (push_bit 8 (drop_bit 8 x)) XOR crcByte (take_bit 8 x)" by (metis crcByte_xor)
  also have "crcByte (push_bit 8 (drop_bit 8 x)) = drop_bit 8 x"
  proof (rule crcByte_push, rule bit_word_eqI)
    fix n :: nat
    show "bit (take_bit 24 (drop_bit 8 x)) n = bit (drop_bit 8 x) n"
      by (cases "n < 24") (simp_all add: bit_take_bit_iff bit_drop_bit_eq impossible_bit)
  qed
  finally show ?thesis by (simp only: ff)
qed

lemma crc_table_byte: "crc_table ! unat (x AND 0xFF) = crcByte (x AND 0xFF)"
proof -
  have "unat (x AND 0xFF) = take_bit 8 (unat x)"
    using take_bit_eq_mask [of 8 x] unsigned_take_bit_eq [of 8 x] by (simp add: mask_eq_exp_minus_1)
  also have "\<dots> < 2 ^ 8" by (rule take_bit_nat_less_exp)
  finally have "unat (x AND 0xFF) < 256" by simp
  then show ?thesis by (simp add: crc_table_def crcByte_fold)
qed

definition crcBytes :: "8 word list \<Rightarrow> 32 word \<Rightarrow> 32 word" where
  "crcBytes buf = fold (\<lambda>b ret. crcByte (ret XOR ucast b)) buf"

lemma crc_table_step: "drop_bit 8 ret XOR crc_table ! unat ((ret XOR ucast b) AND 0xFF) = crcByte (ret XOR ucast (b :: 8 word))"
proof -
  have "drop_bit 8 (ret XOR ucast b) = drop_bit 8 ret"
    by (rule bit_word_eqI) (simp add: bit_drop_bit_eq bit_xor_iff bit_ucast_iff impossible_bit)
  then show ?thesis using crcByte_split [of "ret XOR ucast b"] by (simp only: crc_table_byte)
qed

lemma CRC32_bytes: "CRC32 buf = NOT (crcBytes buf (- 1))"
  by (simp only: CRC32_def crc_table_step crcBytes_def)

section \<open>What the checksum detects\<close>

lemma crcBytes_inj: "crcBytes buf r = crcBytes buf s \<Longrightarrow> r = s"
proof (induction buf arbitrary: r s)
  case (Cons b buf)
  then have "crcByte (r XOR ucast b) = crcByte (s XOR ucast b)" by (simp add: crcBytes_def)
  then show ?case by (intro xor_cancel [of r "ucast b" s]) (rule crcByte_inj)
qed (simp add: crcBytes_def)

text \<open>Up to four bytes go into the checksum as one word.\<close>

fun wordOf :: "8 word list \<Rightarrow> 32 word" where
  "wordOf [] = 0"
| "wordOf (b # buf) = ucast b XOR push_bit 8 (wordOf buf)"

lemma wordOf_bits: "bit (wordOf buf) n \<Longrightarrow> n < 8 * length buf"
proof (induction buf arbitrary: n)
  case (Cons b buf)
  have "bit (ucast b :: 32 word) n \<Longrightarrow> n < 8" by (auto simp: bit_ucast_iff dest: bit_imp_le_length)
  then show ?case using Cons by (fastforce simp: bit_xor_iff bit_push_bit_iff)
qed simp

lemma crcBytes_wordOf: "length buf \<le> 4 \<Longrightarrow> crcBytes buf r = (crcByte ^^ length buf) (r XOR wordOf buf)"
proof (induction buf arbitrary: r)
  case (Cons b buf)
  have "take_bit 24 (wordOf buf) = wordOf buf"
    by (rule bit_word_eqI) (use Cons.prems wordOf_bits [of buf] in \<open>fastforce simp: bit_take_bit_iff\<close>)
  then have "crcByte (r XOR ucast b) XOR wordOf buf = crcByte (r XOR wordOf (b # buf))"
    by (simp add: crcByte_push crcByte_xor xor.assoc)
  then show ?case using Cons by (simp add: crcBytes_def funpow_swap1)
qed (simp add: crcBytes_def)

lemma wordOf_inj: "length u = length v \<Longrightarrow> length u \<le> 4 \<Longrightarrow> wordOf u = wordOf v \<Longrightarrow> u = v"
proof (induction u v rule: list_induct2)
  case (Cons x xs y ys)
  have "x = y"
  proof (rule bit_word_eqI)
    fix n assume "n < LENGTH(8)"
    then show "bit x n = bit y n"
      using arg_cong [OF Cons.prems(2), of "\<lambda>w. bit w n"] by (simp add: bit_xor_iff bit_push_bit_iff bit_ucast_iff)
  qed
  moreover have "wordOf xs = wordOf ys"
  proof (rule bit_word_eqI)
    fix n
    show "bit (wordOf xs) n = bit (wordOf ys) n"
    proof (cases "n < 24")
      case True
      then show ?thesis
        using arg_cong [OF Cons.prems(2), of "\<lambda>w. bit w (n + 8)"]
        by (simp add: bit_xor_iff bit_push_bit_iff bit_ucast_iff impossible_bit)
    next
      case False
      then show ?thesis using wordOf_bits [of xs n] wordOf_bits [of ys n] Cons.prems(1) Cons.hyps by auto
    qed
  qed
  ultimately show ?case using Cons by simp
qed simp

lemma crcBytes_burst:
  assumes "length u = length v" "length u \<le> 4" "crcBytes (a @ u @ c) r = crcBytes (a @ v @ c) r"
  shows "u = v"
proof -
  define s where "s = crcBytes a r"
  have "crcBytes c (crcBytes u s) = crcBytes c (crcBytes v s)" using assms(3) by (simp add: crcBytes_def s_def)
  then have "crcBytes u s = crcBytes v s" by (rule crcBytes_inj)
  then have "(crcByte ^^ length u) (s XOR wordOf u) = (crcByte ^^ length u) (s XOR wordOf v)"
    using assms(1,2) by (simp add: crcBytes_wordOf)
  moreover have "(crcByte ^^ n) x = (crcByte ^^ n) y \<Longrightarrow> x = y" for n x y
    by (induction n) (auto dest: crcByte_inj)
  ultimately have "wordOf u XOR s = wordOf v XOR s" by (simp only: xor.commute [of s])
  then have "wordOf u = wordOf v" by (rule xor_cancel)
  then show ?thesis by (rule wordOf_inj [OF assms(1,2)])
qed

end
