(* ===== verification/Boot_Control.thy ===== *)
theory Boot_Control
  imports Bootloader_Block File_Calls
begin

text \<open>
  \<^verbatim>\<open>boot/1.1/default/boot_control/libboot_control.cpp\<close>: which slot of the system is booted, kept in a block of the misc
  partition.

  The calls on files are those of \<open>File_Calls\<close>; the other functions of the system that the code calls are fields of
  \<open>boot_system\<close>: \<^verbatim>\<open>stat\<close> (its result and \<^verbatim>\<open>errno\<close>), the properties, the path of the misc partition, and the message of the
  virtual A/B state with its version and magic number, whose fields are the four that the code uses. An operation that may index the
  four slots of the block out of bounds, which C++ does not define, returns an \<open>option\<close>. The static table of the checksum is
  computed at its first use and never changes. \<^verbatim>\<open>htole32\<close> is the identity of a little endian target.
\<close>

unbundle bit_operations_syntax

section \<open>The system\<close>

record misc_virtual_ab_message =
  vab_version :: "8 word"
  vab_magic :: "32 word"
  vab_merge_status :: "8 word"
  vab_source_slot :: "8 word"

record 'w boot_system =
  files :: "'w file_calls"
  statFile :: "string \<Rightarrow> 'w \<Rightarrow> int \<times> int"
  GetProperty :: "string \<Rightarrow> string \<Rightarrow> 'w \<Rightarrow> string"
  get_bootloader_message_blk_device :: "'w \<Rightarrow> string \<times> 'w"
  ReadMiscVirtualAbMessage :: "'w \<Rightarrow> misc_virtual_ab_message option \<times> 'w"
  WriteMiscVirtualAbMessage :: "misc_virtual_ab_message \<Rightarrow> 'w \<Rightarrow> bool \<times> 'w"
  MISC_VIRTUAL_AB_MESSAGE_VERSION :: "8 word"
  MISC_VIRTUAL_AB_MAGIC_HEADER :: "32 word"

definition ENOENT :: int where "ENOENT = 2"

section \<open>Loading and saving the block\<close>

definition kDefaultBootAttempts :: "32 word" where "kDefaultBootAttempts = 7"
definition kMaxNumSlots :: nat where "kMaxNumSlots = 4"
definition kSlotSuffixes :: "string list" where "kSlotSuffixes = [''_a'', ''_b'', ''_c'', ''_d'']"

text \<open>The structure around the block has 4096 bytes, of which the block, a channel and the reserved bytes are the last.\<close>

definition kBootloaderControlOffset :: int where
  "kBootloaderControlOffset = 4096 - 1888 - 128 - 32"

definition BOOT_CTRL_MAGIC :: "32 word" where "BOOT_CTRL_MAGIC = 0x42414342"
definition BOOT_CTRL_VERSION :: "8 word" where "BOOT_CTRL_VERSION = 1"

definition LoadBootloaderControl :: "'w file_calls \<Rightarrow> string \<Rightarrow> 'w \<Rightarrow> bootloader_control option \<times> 'w" where
  "LoadBootloaderControl os misc_device w = (let (fd, w) = openFile os misc_device [O_RDONLY] w in
     if fd = - 1 then (None, destroyFd os fd w)
     else let (position, w) = seekSet os fd kBootloaderControlOffset w in
       if position \<noteq> kBootloaderControlOffset then (None, destroyFd os fd w)
       else case ReadFully os fd 32 w of
         (None, w) \<Rightarrow> (None, destroyFd os fd w)
       | (Some buffer, w) \<Rightarrow> (Some (controlOfBytes buffer), destroyFd os fd w))"

definition UpdateAndSaveBootloaderControl ::
  "'w file_calls \<Rightarrow> string \<Rightarrow> bootloader_control \<Rightarrow> 'w \<Rightarrow> bool \<times> bootloader_control \<times> 'w" where
  "UpdateAndSaveBootloaderControl os misc_device buffer w = (
     let buffer = buffer\<lparr>bc_crc32_le := BootloaderControlLECRC buffer\<rparr>;
         (fd, w) = openFile os misc_device [O_WRONLY, O_SYNC] w in
     if fd = - 1 then (False, buffer, destroyFd os fd w)
     else let (position, w) = seekSet os fd kBootloaderControlOffset w in
       if position \<noteq> kBootloaderControlOffset then (False, buffer, destroyFd os fd w)
       else let (written, w) = WriteFully os fd (controlBytes buffer) w in (written, buffer, destroyFd os fd w))"

section \<open>The default block\<close>

record BootControl =
  initialized :: bool
  misc_device :: string
  num_slots :: "32 word"
  current_slot :: "32 word"

definition newBootControl :: BootControl where
  "newBootControl = \<lparr>initialized = False, misc_device = '''', num_slots = 0, current_slot = 0\<rparr>"

definition GetNumberSlots :: "BootControl \<Rightarrow> 32 word" where
  "GetNumberSlots control = num_slots control"

definition GetCurrentSlot :: "BootControl \<Rightarrow> 32 word" where
  "GetCurrentSlot control = current_slot control"

definition rfind :: "char \<Rightarrow> string \<Rightarrow> nat option" where
  "rfind c s = find (\<lambda>i. s ! i = c) (rev [0..<length s])"

text \<open>The last slot that has a boot partition and the first one that has none, -1 when there is no such slot.\<close>

definition probeSlot :: "'w boot_system \<Rightarrow> 'w \<Rightarrow> string \<Rightarrow> nat \<Rightarrow> int \<times> int \<Rightarrow> int \<times> int" where
  "probeSlot sys w base_path slot = (\<lambda>(last_existing_slot, first_missing_slot).
     let (err, errno) = statFile sys (base_path @ kSlotSuffixes ! slot) w in
     if err = 0 then (int slot, first_missing_slot)
     else if err < 0 \<and> errno = ENOENT \<and> first_missing_slot = - 1 then (last_existing_slot, int slot)
     else (last_existing_slot, first_missing_slot))"

definition numberOfSlots :: "'w boot_system \<Rightarrow> string \<Rightarrow> 'w \<Rightarrow> 3 word" where
  "numberOfSlots sys device w = (case rfind (CHR ''/'') device of
     None \<Rightarrow> of_nat kMaxNumSlots
   | Some last_path_sep \<Rightarrow>
       (let (last_existing_slot, first_missing_slot) =
          fold (probeSlot sys w (take (last_path_sep + 1) device @ ''boot'')) [0..<kMaxNumSlots] (- 1, - 1) in
        if (last_existing_slot \<noteq> - 1 \<and> last_existing_slot + 1 = first_missing_slot) \<or>
           (first_missing_slot = - 1 \<and> last_existing_slot + 1 = int kMaxNumSlots)
        then of_int (last_existing_slot + 1) else of_nat kMaxNumSlots))"

definition defaultSlot :: "3 word \<Rightarrow> 32 word \<Rightarrow> nat \<Rightarrow> slot_metadata" where
  "defaultSlot nb_slot current slot = (
     let entry = \<lparr>sm_priority = 0, sm_tries_remaining = 0, sm_successful_boot = 0, sm_verity_corrupted = 0, sm_reserved = 0\<rparr>;
         entry = (if slot < unat nb_slot
           then entry\<lparr>sm_priority := 7, sm_tries_remaining := ucast kDefaultBootAttempts, sm_successful_boot := 0\<rparr>
           else entry\<lparr>sm_priority := 0\<rparr>) in
     if unat current = slot then entry\<lparr>sm_successful_boot := 1\<rparr> else entry)"

text \<open>The structure is set to zero first; \<^verbatim>\<open>strlcpy\<close> copies two characters into it.\<close>

definition InitDefaultBootloaderControl :: "'w boot_system \<Rightarrow> BootControl \<Rightarrow> 'w \<Rightarrow> bootloader_control" where
  "InitDefaultBootloaderControl sys control w = (
     let current = GetCurrentSlot control;
         suffix = (if unat current < kMaxNumSlots then map of_char (kSlotSuffixes ! unat current) else []);
         nb_slot = numberOfSlots sys (misc_device control) w;
         boot_ctrl = \<lparr>bc_slot_suffix = suffix @ replicate (4 - length suffix) 0, bc_magic = BOOT_CTRL_MAGIC,
           bc_version = BOOT_CTRL_VERSION, bc_nb_slot = nb_slot, bc_recovery_tries_remaining = 0, bc_merge_status = 0,
           bc_padding = 0, bc_reserved0 = 0, bc_slot_info = map (defaultSlot nb_slot current) [0..<kMaxNumSlots],
           bc_reserved1 = replicate 8 0, bc_crc32_le = 0\<rparr> in
     boot_ctrl\<lparr>bc_crc32_le := BootloaderControlLECRC boot_ctrl\<rparr>)"

section \<open>The virtual A/B message\<close>

type_synonym MergeStatus = int

definition MERGE_NONE :: MergeStatus where "MERGE_NONE = 0"
definition MERGE_UNKNOWN :: MergeStatus where "MERGE_UNKNOWN = 1"
definition SNAPSHOTTED :: MergeStatus where "SNAPSHOTTED = 2"
definition MERGING :: MergeStatus where "MERGING = 3"
definition CANCELLED :: MergeStatus where "CANCELLED = 4"

definition InitMiscVirtualAbMessageIfNeeded :: "'w boot_system \<Rightarrow> 'w \<Rightarrow> bool \<times> 'w" where
  "InitMiscVirtualAbMessageIfNeeded sys w = (case ReadMiscVirtualAbMessage sys w of
     (None, w) \<Rightarrow> (False, w)
   | (Some message, w) \<Rightarrow>
       if vab_version message = MISC_VIRTUAL_AB_MESSAGE_VERSION sys \<and> vab_magic message = MISC_VIRTUAL_AB_MAGIC_HEADER sys
       then (True, w)
       else WriteMiscVirtualAbMessage sys \<lparr>vab_version = MISC_VIRTUAL_AB_MESSAGE_VERSION sys,
         vab_magic = MISC_VIRTUAL_AB_MAGIC_HEADER sys, vab_merge_status = 0, vab_source_slot = 0\<rparr> w)"

definition SetMiscVirtualAbMergeStatus :: "'w boot_system \<Rightarrow> 32 word \<Rightarrow> MergeStatus \<Rightarrow> 'w \<Rightarrow> bool \<times> 'w" where
  "SetMiscVirtualAbMergeStatus sys current status w = (case ReadMiscVirtualAbMessage sys w of
     (None, w) \<Rightarrow> (False, w)
   | (Some message, w) \<Rightarrow> WriteMiscVirtualAbMessage sys
       (message\<lparr>vab_merge_status := word_of_int status, vab_source_slot := ucast current\<rparr>) w)"

definition GetMiscVirtualAbMergeStatus :: "'w boot_system \<Rightarrow> 32 word \<Rightarrow> 'w \<Rightarrow> MergeStatus option \<times> 'w" where
  "GetMiscVirtualAbMergeStatus sys current w = (case ReadMiscVirtualAbMessage sys w of
     (None, w) \<Rightarrow> (None, w)
   | (Some message, w) \<Rightarrow> (let status = uint (vab_merge_status message) in
       (Some (if status = SNAPSHOTTED \<and> current = ucast (vab_source_slot message) then MERGE_NONE else status), w)))"

section \<open>Initialization\<close>

definition SlotSuffixToIndex :: "string \<Rightarrow> int" where
  "SlotSuffixToIndex suffix = (case find (\<lambda>slot. kSlotSuffixes ! slot = suffix) [0..<kMaxNumSlots] of
     Some slot \<Rightarrow> int slot | None \<Rightarrow> - 1)"

definition Init :: "'w boot_system \<Rightarrow> BootControl \<Rightarrow> 'w \<Rightarrow> bool \<times> BootControl \<times> 'w" where
  "Init sys control w = (
     if initialized control then (True, control, w)
     else let suffix_prop = GetProperty sys ''ro.boot.slot_suffix'' '''' w in
       if suffix_prop = '''' then (False, control, w)
       else let control = control\<lparr>current_slot := word_of_int (SlotSuffixToIndex suffix_prop)\<rparr>;
                (device, w) = get_bootloader_message_blk_device sys w in
         if device = '''' then (False, control, w)
         else case LoadBootloaderControl (files sys) device w of
           (None, w) \<Rightarrow> (False, control, w)
         | (Some boot_ctrl, w) \<Rightarrow>
             (let control = control\<lparr>misc_device := device, initialized := True\<rparr>;
                  computed_crc32 = BootloaderControlLECRC boot_ctrl;
                  (boot_ctrl, w) = (if bc_crc32_le boot_ctrl \<noteq> computed_crc32
                    then let boot_ctrl = InitDefaultBootloaderControl sys control w;
                             (_, boot_ctrl, w) = UpdateAndSaveBootloaderControl (files sys) device boot_ctrl w in (boot_ctrl, w)
                    else (boot_ctrl, w));
                  (ready, w) = InitMiscVirtualAbMessageIfNeeded sys w in
              if \<not> ready then (False, control, w)
              else (True, control\<lparr>num_slots := ucast (bc_nb_slot boot_ctrl)\<rparr>, w)))"

section \<open>Operations\<close>

text \<open>Loads the block, changes it, which is not defined when a slot is out of bounds, and saves it.\<close>

definition updateControl ::
  "'w boot_system \<Rightarrow> BootControl \<Rightarrow> (bootloader_control \<Rightarrow> bootloader_control option) \<Rightarrow> 'w \<Rightarrow> (bool \<times> 'w) option" where
  "updateControl sys control change w = (case LoadBootloaderControl (files sys) (misc_device control) w of
     (None, w) \<Rightarrow> Some (False, w)
   | (Some bootctrl, w) \<Rightarrow> (case change bootctrl of
       None \<Rightarrow> None
     | Some bootctrl \<Rightarrow>
         (let (saved, _, w) = UpdateAndSaveBootloaderControl (files sys) (misc_device control) bootctrl w in Some (saved, w))))"

text \<open>The assignment to fields of the slot at an index.\<close>

definition changeSlot :: "nat \<Rightarrow> (slot_metadata \<Rightarrow> slot_metadata) \<Rightarrow> bootloader_control \<Rightarrow> bootloader_control option" where
  "changeSlot i f c = (if i < kMaxNumSlots then Some (c\<lparr>bc_slot_info := (bc_slot_info c)[i := f (bc_slot_info c ! i)]\<rparr>) else None)"

definition MarkBootSuccessful :: "'w boot_system \<Rightarrow> BootControl \<Rightarrow> 'w \<Rightarrow> (bool \<times> 'w) option" where
  "MarkBootSuccessful sys control = updateControl sys control
     (changeSlot (unat (current_slot control)) (\<lambda>slot. slot\<lparr>sm_successful_boot := 1, sm_tries_remaining := 1\<rparr>))"

fun highestPriority :: "slot_metadata list \<Rightarrow> nat list \<Rightarrow> 32 word \<Rightarrow> 32 word \<Rightarrow> 32 word option" where
  "highestPriority slots [] active_boot_slot max_priority = Some active_boot_slot"
| "highestPriority slots (i # is) active_boot_slot max_priority = (
     if kMaxNumSlots \<le> i then None
     else let priority = ucast (sm_priority (slots ! i)) in
       if priority > max_priority then highestPriority slots is (word_of_nat i) priority
       else highestPriority slots is active_boot_slot max_priority)"

definition GetActiveBootSlot :: "'w boot_system \<Rightarrow> BootControl \<Rightarrow> 'w \<Rightarrow> (32 word \<times> 'w) option" where
  "GetActiveBootSlot sys control w = (case LoadBootloaderControl (files sys) (misc_device control) w of
     (None, w) \<Rightarrow> Some (0, w)
   | (Some bootctrl, w) \<Rightarrow>
       if kMaxNumSlots \<le> unat (current_slot control) then None
       else map_option (\<lambda>slot. (slot, w)) (highestPriority (bc_slot_info bootctrl) [0..<unat (num_slots control)]
         (current_slot control) (ucast (sm_priority (bc_slot_info bootctrl ! unat (current_slot control))))))"

fun demoteOthers :: "nat \<Rightarrow> nat list \<Rightarrow> bootloader_control \<Rightarrow> bootloader_control option" where
  "demoteOthers slot [] c = Some c"
| "demoteOthers slot (i # is) c = (
     if i \<noteq> slot then Option.bind
       (changeSlot i (\<lambda>s. if 15 \<le> sm_priority s then s\<lparr>sm_priority := 15 - 1\<rparr> else s) c) (demoteOthers slot is)
     else demoteOthers slot is c)"

definition IsValidSlot :: "BootControl \<Rightarrow> 32 word \<Rightarrow> bool" where
  "IsValidSlot control slot \<longleftrightarrow> unat slot < kMaxNumSlots \<and> slot < num_slots control"

definition SetActiveBootSlot :: "'w boot_system \<Rightarrow> BootControl \<Rightarrow> 32 word \<Rightarrow> 'w \<Rightarrow> (bool \<times> 'w) option" where
  "SetActiveBootSlot sys control slot w = (
     if kMaxNumSlots \<le> unat slot \<or> num_slots control \<le> slot then Some (False, w)
     else updateControl sys control (\<lambda>bootctrl.
       Option.bind (demoteOthers (unat slot) [0..<unat (num_slots control)] bootctrl)
         (changeSlot (unat slot) (\<lambda>s. let s = s\<lparr>sm_priority := 15, sm_tries_remaining := 6\<rparr> in
            if slot \<noteq> current_slot control then s\<lparr>sm_verity_corrupted := 0\<rparr> else s))) w)"

definition SetSlotAsUnbootable :: "'w boot_system \<Rightarrow> BootControl \<Rightarrow> 32 word \<Rightarrow> 'w \<Rightarrow> (bool \<times> 'w) option" where
  "SetSlotAsUnbootable sys control slot w = (
     if kMaxNumSlots \<le> unat slot \<or> num_slots control \<le> slot then Some (False, w)
     else updateControl sys control
       (changeSlot (unat slot) (\<lambda>s. s\<lparr>sm_successful_boot := 0, sm_tries_remaining := 0\<rparr>)) w)"

definition IsSlotBootable :: "'w boot_system \<Rightarrow> BootControl \<Rightarrow> 32 word \<Rightarrow> 'w \<Rightarrow> bool \<times> 'w" where
  "IsSlotBootable sys control slot w = (
     if kMaxNumSlots \<le> unat slot \<or> num_slots control \<le> slot then (False, w)
     else case LoadBootloaderControl (files sys) (misc_device control) w of
       (None, w) \<Rightarrow> (False, w)
     | (Some bootctrl, w) \<Rightarrow> (sm_tries_remaining (bc_slot_info bootctrl ! unat slot) \<noteq> 0, w))"

definition IsSlotMarkedSuccessful :: "'w boot_system \<Rightarrow> BootControl \<Rightarrow> 32 word \<Rightarrow> 'w \<Rightarrow> bool \<times> 'w" where
  "IsSlotMarkedSuccessful sys control slot w = (
     if kMaxNumSlots \<le> unat slot \<or> num_slots control \<le> slot then (False, w)
     else case LoadBootloaderControl (files sys) (misc_device control) w of
       (None, w) \<Rightarrow> (False, w)
     | (Some bootctrl, w) \<Rightarrow> (let s = bc_slot_info bootctrl ! unat slot in
         (sm_successful_boot s \<noteq> 0 \<and> sm_tries_remaining s \<noteq> 0, w)))"

definition SetSnapshotMergeStatus :: "'w boot_system \<Rightarrow> BootControl \<Rightarrow> MergeStatus \<Rightarrow> 'w \<Rightarrow> bool \<times> 'w" where
  "SetSnapshotMergeStatus sys control status w = SetMiscVirtualAbMergeStatus sys (current_slot control) status w"

definition GetSnapshotMergeStatus :: "'w boot_system \<Rightarrow> BootControl \<Rightarrow> 'w \<Rightarrow> MergeStatus \<times> 'w" where
  "GetSnapshotMergeStatus sys control w = (case GetMiscVirtualAbMergeStatus sys (current_slot control) w of
     (None, w) \<Rightarrow> (MERGE_UNKNOWN, w) | (Some status, w) \<Rightarrow> (status, w))"

definition GetSuffix :: "BootControl \<Rightarrow> 32 word \<Rightarrow> string option" where
  "GetSuffix control slot = (if kMaxNumSlots \<le> unat slot \<or> num_slots control \<le> slot then None
     else Some (kSlotSuffixes ! unat slot))"

end
