(* ===== verification/Boot_Services.thy ===== *)
theory Boot_Services
  imports Boot_Slots
begin

text \<open>
  The services of the boot control interface over \<open>Boot_Control\<close>: the AIDL service \<^verbatim>\<open>boot/aidl/default/BootControl.cpp\<close>, the HIDL
  services \<^verbatim>\<open>boot/1.1/default\<close> and \<^verbatim>\<open>boot/1.2/default/BootControl.cpp\<close>, the module \<^verbatim>\<open>legacy_boot_control.cpp\<close> and the HIDL
  service \<^verbatim>\<open>boot/1.0/default/BootControl.cpp\<close>, which works over any module.

  A reply is a value: a callback is called once with it, and an AIDL operation gives its status and the value returned, which
  stays the one of the caller on an error. Operations of the implementation that may be undefined keep their \<open>option\<close>. \<^verbatim>\<open>strerror\<close> is
  a parameter; the texts of the AIDL errors are left out.
\<close>

section \<open>The AIDL service\<close>

datatype boot_status = BootOk | ServiceSpecific int

definition INVALID_SLOT :: int where "INVALID_SLOT = - 1"
definition COMMAND_FAILED :: int where "COMMAND_FAILED = - 2"

text \<open>The constructor checks that the implementation is initialized; \<open>None\<close> ends the process.\<close>

definition aidl_new :: "'w boot_system \<Rightarrow> 'w \<Rightarrow> (BootControl \<times> 'w) option" where
  "aidl_new sys w = (let (ready, control, w) = Init sys newBootControl w in if ready then Some (control, w) else None)"

definition aidl_getActiveBootSlot :: "'w boot_system \<Rightarrow> BootControl \<Rightarrow> 'w \<Rightarrow> (boot_status \<times> 32 word \<times> 'w) option" where
  "aidl_getActiveBootSlot sys impl w = map_option (\<lambda>(slot, w). (BootOk, slot, w)) (GetActiveBootSlot sys impl w)"

definition aidl_getCurrentSlot :: "BootControl \<Rightarrow> boot_status \<times> 32 word" where
  "aidl_getCurrentSlot impl = (BootOk, GetCurrentSlot impl)"

definition aidl_getNumberSlots :: "BootControl \<Rightarrow> boot_status \<times> 32 word" where
  "aidl_getNumberSlots impl = (BootOk, GetNumberSlots impl)"

text \<open>The enumerations have the same values; the conversion of another value is not defined.\<close>

definition ToAIDLMergeStatus :: "MergeStatus \<Rightarrow> MergeStatus option" where
  "ToAIDLMergeStatus status = (if status \<in> {MERGE_NONE, MERGE_UNKNOWN, SNAPSHOTTED, MERGING, CANCELLED} then Some status else None)"

definition ToHIDLMergeStatus :: "MergeStatus \<Rightarrow> MergeStatus option" where
  "ToHIDLMergeStatus status = (if status \<in> {MERGE_NONE, MERGE_UNKNOWN, SNAPSHOTTED, MERGING, CANCELLED} then Some status else None)"

definition aidl_getSnapshotMergeStatus :: "'w boot_system \<Rightarrow> BootControl \<Rightarrow> 'w \<Rightarrow> (boot_status \<times> MergeStatus \<times> 'w) option" where
  "aidl_getSnapshotMergeStatus sys impl w = (let (status, w) = GetSnapshotMergeStatus sys impl w in
     map_option (\<lambda>status. (BootOk, status, w)) (ToAIDLMergeStatus status))"

definition aidl_getSuffix :: "BootControl \<Rightarrow> 32 word \<Rightarrow> boot_status \<times> string" where
  "aidl_getSuffix impl in_slot = (BootOk,
     if \<not> IsValidSlot impl in_slot then '''' else case GetSuffix impl in_slot of Some suffix \<Rightarrow> suffix | None \<Rightarrow> '''')"

definition aidl_isSlotBootable :: "'w boot_system \<Rightarrow> BootControl \<Rightarrow> 32 word \<Rightarrow> bool \<Rightarrow> 'w \<Rightarrow> boot_status \<times> bool \<times> 'w" where
  "aidl_isSlotBootable sys impl in_slot aidl_return w = (
     if \<not> IsValidSlot impl in_slot then (ServiceSpecific INVALID_SLOT, aidl_return, w)
     else let (r, w) = IsSlotBootable sys impl in_slot w in (BootOk, r, w))"

definition aidl_isSlotMarkedSuccessful :: "'w boot_system \<Rightarrow> BootControl \<Rightarrow> 32 word \<Rightarrow> bool \<Rightarrow> 'w \<Rightarrow> boot_status \<times> bool \<times> 'w" where
  "aidl_isSlotMarkedSuccessful sys impl in_slot aidl_return w = (
     if \<not> IsValidSlot impl in_slot then (ServiceSpecific INVALID_SLOT, aidl_return, w)
     else let (r, w) = IsSlotMarkedSuccessful sys impl in_slot w in (BootOk, r, w))"

definition commandStatus :: "bool \<times> 'w \<Rightarrow> boot_status \<times> 'w" where
  "commandStatus = (\<lambda>(ok, w). (if \<not> ok then ServiceSpecific COMMAND_FAILED else BootOk, w))"

definition aidl_markBootSuccessful :: "'w boot_system \<Rightarrow> BootControl \<Rightarrow> 'w \<Rightarrow> (boot_status \<times> 'w) option" where
  "aidl_markBootSuccessful sys impl w = map_option commandStatus (MarkBootSuccessful sys impl w)"

definition aidl_setActiveBootSlot :: "'w boot_system \<Rightarrow> BootControl \<Rightarrow> 32 word \<Rightarrow> 'w \<Rightarrow> (boot_status \<times> 'w) option" where
  "aidl_setActiveBootSlot sys impl in_slot w = (
     if \<not> IsValidSlot impl in_slot then Some (ServiceSpecific INVALID_SLOT, w)
     else map_option commandStatus (SetActiveBootSlot sys impl in_slot w))"

definition aidl_setSlotAsUnbootable :: "'w boot_system \<Rightarrow> BootControl \<Rightarrow> 32 word \<Rightarrow> 'w \<Rightarrow> (boot_status \<times> 'w) option" where
  "aidl_setSlotAsUnbootable sys impl in_slot w = (
     if \<not> IsValidSlot impl in_slot then Some (ServiceSpecific INVALID_SLOT, w)
     else map_option commandStatus (SetSlotAsUnbootable sys impl in_slot w))"

definition aidl_setSnapshotMergeStatus :: "'w boot_system \<Rightarrow> BootControl \<Rightarrow> MergeStatus \<Rightarrow> 'w \<Rightarrow> (boot_status \<times> 'w) option" where
  "aidl_setSnapshotMergeStatus sys impl in_status w =
     map_option (\<lambda>status. commandStatus (SetSnapshotMergeStatus sys impl status w)) (ToHIDLMergeStatus in_status)"

section \<open>The HIDL services 1.1 and 1.2\<close>

record CommandResult =
  success :: bool
  errMsg :: string

datatype BoolResult = BOOL_FALSE | BOOL_TRUE | BOOL_INVALID_SLOT

definition commandResult :: "bool \<times> 'w \<Rightarrow> CommandResult \<times> 'w" where
  "commandResult = (\<lambda>(ok, w).
     (if ok then \<lparr>success = True, errMsg = ''Success''\<rparr> else \<lparr>success = False, errMsg = ''Operation failed''\<rparr>, w))"

definition hidl_markBootSuccessful :: "'w boot_system \<Rightarrow> BootControl \<Rightarrow> 'w \<Rightarrow> (CommandResult \<times> 'w) option" where
  "hidl_markBootSuccessful sys impl w = map_option commandResult (MarkBootSuccessful sys impl w)"

definition hidl_setActiveBootSlot :: "'w boot_system \<Rightarrow> BootControl \<Rightarrow> 32 word \<Rightarrow> 'w \<Rightarrow> (CommandResult \<times> 'w) option" where
  "hidl_setActiveBootSlot sys impl slot w = map_option commandResult (SetActiveBootSlot sys impl slot w)"

definition hidl_setSlotAsUnbootable :: "'w boot_system \<Rightarrow> BootControl \<Rightarrow> 32 word \<Rightarrow> 'w \<Rightarrow> (CommandResult \<times> 'w) option" where
  "hidl_setSlotAsUnbootable sys impl slot w = map_option commandResult (SetSlotAsUnbootable sys impl slot w)"

definition boolResult :: "bool \<Rightarrow> BoolResult" where
  "boolResult b = (if b then BOOL_TRUE else BOOL_FALSE)"

definition hidl_isSlotBootable :: "'w boot_system \<Rightarrow> BootControl \<Rightarrow> 32 word \<Rightarrow> 'w \<Rightarrow> BoolResult \<times> 'w" where
  "hidl_isSlotBootable sys impl slot w = (
     if \<not> IsValidSlot impl slot then (BOOL_INVALID_SLOT, w)
     else let (r, w) = IsSlotBootable sys impl slot w in (boolResult r, w))"

definition hidl_isSlotMarkedSuccessful :: "'w boot_system \<Rightarrow> BootControl \<Rightarrow> 32 word \<Rightarrow> 'w \<Rightarrow> BoolResult \<times> 'w" where
  "hidl_isSlotMarkedSuccessful sys impl slot w = (
     if \<not> IsValidSlot impl slot then (BOOL_INVALID_SLOT, w)
     else let (r, w) = IsSlotMarkedSuccessful sys impl slot w in (boolResult r, w))"

definition hidl_getSuffix :: "BootControl \<Rightarrow> 32 word \<Rightarrow> string" where
  "hidl_getSuffix impl slot = (case GetSuffix impl slot of Some suffix \<Rightarrow> suffix | None \<Rightarrow> '''')"

text \<open>The other operations, \<^verbatim>\<open>getActiveBootSlot\<close> of version 1.2 among them, return what the implementation does.\<close>

definition hidl_getNumberSlots :: "BootControl \<Rightarrow> 32 word" where
  "hidl_getNumberSlots impl = GetNumberSlots impl"

definition hidl_getCurrentSlot :: "BootControl \<Rightarrow> 32 word" where
  "hidl_getCurrentSlot impl = GetCurrentSlot impl"

definition hidl_getActiveBootSlot :: "'w boot_system \<Rightarrow> BootControl \<Rightarrow> 'w \<Rightarrow> (32 word \<times> 'w) option" where
  "hidl_getActiveBootSlot sys impl w = GetActiveBootSlot sys impl w"

definition hidl_setSnapshotMergeStatus :: "'w boot_system \<Rightarrow> BootControl \<Rightarrow> MergeStatus \<Rightarrow> 'w \<Rightarrow> bool \<times> 'w" where
  "hidl_setSnapshotMergeStatus sys impl status w = SetSnapshotMergeStatus sys impl status w"

definition hidl_getSnapshotMergeStatus :: "'w boot_system \<Rightarrow> BootControl \<Rightarrow> 'w \<Rightarrow> MergeStatus \<times> 'w" where
  "hidl_getSnapshotMergeStatus sys impl w = GetSnapshotMergeStatus sys impl w"

text \<open>The service is only returned when the implementation could be initialized.\<close>

definition HIDL_FETCH_IBootControl :: "'w boot_system \<Rightarrow> 'w \<Rightarrow> BootControl option \<times> 'w" where
  "HIDL_FETCH_IBootControl sys w = (let (ready, control, w) = Init sys newBootControl w in
     if \<not> ready then (None, w) else (Some control, w))"

section \<open>A module, and the service 1.0 over it\<close>

record 's boot_control_module =
  m_init :: "'s \<Rightarrow> 's"
  m_getNumberSlots :: "'s \<Rightarrow> 32 word"
  m_getCurrentSlot :: "'s \<Rightarrow> 32 word"
  m_markBootSuccessful :: "'s \<Rightarrow> (int \<times> 's) option"
  m_setActiveBootSlot :: "32 word \<Rightarrow> 's \<Rightarrow> (int \<times> 's) option"
  m_setSlotAsUnbootable :: "32 word \<Rightarrow> 's \<Rightarrow> (int \<times> 's) option"
  m_isSlotBootable :: "32 word \<Rightarrow> 's \<Rightarrow> int \<times> 's"
  m_getSuffix :: "32 word \<Rightarrow> 's \<Rightarrow> string option"
  m_isSlotMarkedSuccessful :: "32 word \<Rightarrow> 's \<Rightarrow> int \<times> 's"

definition hidl10_markBootSuccessful :: "(int \<Rightarrow> string) \<Rightarrow> 's boot_control_module \<Rightarrow> 's \<Rightarrow> (CommandResult \<times> 's) option" where
  "hidl10_markBootSuccessful strerror m s =
     map_option (\<lambda>(ret, s). (\<lparr>success = (ret = 0), errMsg = strerror (- ret)\<rparr>, s)) (m_markBootSuccessful m s)"

definition hidl10_setActiveBootSlot ::
  "(int \<Rightarrow> string) \<Rightarrow> 's boot_control_module \<Rightarrow> 32 word \<Rightarrow> 's \<Rightarrow> (CommandResult \<times> 's) option" where
  "hidl10_setActiveBootSlot strerror m slot s =
     map_option (\<lambda>(ret, s). (\<lparr>success = (ret = 0), errMsg = strerror (- ret)\<rparr>, s)) (m_setActiveBootSlot m slot s)"

definition hidl10_setSlotAsUnbootable ::
  "(int \<Rightarrow> string) \<Rightarrow> 's boot_control_module \<Rightarrow> 32 word \<Rightarrow> 's \<Rightarrow> (CommandResult \<times> 's) option" where
  "hidl10_setSlotAsUnbootable strerror m slot s =
     map_option (\<lambda>(ret, s). (\<lparr>success = (ret = 0), errMsg = strerror (- ret)\<rparr>, s)) (m_setSlotAsUnbootable m slot s)"

definition hidl10_isSlotBootable :: "'s boot_control_module \<Rightarrow> 32 word \<Rightarrow> 's \<Rightarrow> BoolResult \<times> 's" where
  "hidl10_isSlotBootable m slot s = (let (ret, s) = m_isSlotBootable m slot s in
     if ret < 0 then (BOOL_INVALID_SLOT, s) else (boolResult (ret \<noteq> 0), s))"

definition hidl10_isSlotMarkedSuccessful :: "'s boot_control_module \<Rightarrow> 32 word \<Rightarrow> 's \<Rightarrow> BoolResult \<times> 's" where
  "hidl10_isSlotMarkedSuccessful m slot s = (let (ret, s) = m_isSlotMarkedSuccessful m slot s in
     if ret < 0 then (BOOL_INVALID_SLOT, s) else (boolResult (ret \<noteq> 0), s))"

definition hidl10_getSuffix :: "'s boot_control_module \<Rightarrow> 32 word \<Rightarrow> 's \<Rightarrow> string" where
  "hidl10_getSuffix m slot s = (case m_getSuffix m slot s of Some suffix \<Rightarrow> suffix | None \<Rightarrow> '''')"

definition hidl10_getNumberSlots :: "'s boot_control_module \<Rightarrow> 's \<Rightarrow> 32 word" where
  "hidl10_getNumberSlots m s = m_getNumberSlots m s"

definition hidl10_getCurrentSlot :: "'s boot_control_module \<Rightarrow> 's \<Rightarrow> 32 word" where
  "hidl10_getCurrentSlot m s = m_getCurrentSlot m s"

text \<open>The service is returned with its module initialized, when \<^verbatim>\<open>hw_get_module\<close>, whose result is \<open>ret\<close>, finds one.\<close>

definition hidl10_fetch :: "int \<Rightarrow> 's boot_control_module \<Rightarrow> 's \<Rightarrow> 's option" where
  "hidl10_fetch ret m s = (if ret \<noteq> 0 then None else Some (m_init m s))"

text \<open>The module \<^verbatim>\<open>legacy_boot_control.cpp\<close>, whose state has its implementation object.\<close>

definition zeroOrMinusOne :: "BootControl \<Rightarrow> bool \<times> 'w \<Rightarrow> int \<times> BootControl \<times> 'w" where
  "zeroOrMinusOne impl = (\<lambda>(ok, w). (if ok then 0 else - 1, impl, w))"

definition legacyModule :: "'w boot_system \<Rightarrow> (BootControl \<times> 'w) boot_control_module" where
  "legacyModule sys = \<lparr>
     m_init = \<lambda>(impl, w). snd (Init sys impl w),
     m_getNumberSlots = \<lambda>(impl, w). GetNumberSlots impl,
     m_getCurrentSlot = \<lambda>(impl, w). GetCurrentSlot impl,
     m_markBootSuccessful = \<lambda>(impl, w). map_option (zeroOrMinusOne impl) (MarkBootSuccessful sys impl w),
     m_setActiveBootSlot = \<lambda>slot (impl, w). map_option (zeroOrMinusOne impl) (SetActiveBootSlot sys impl slot w),
     m_setSlotAsUnbootable = \<lambda>slot (impl, w). map_option (zeroOrMinusOne impl) (SetSlotAsUnbootable sys impl slot w),
     m_isSlotBootable = \<lambda>slot (impl, w). zeroOrMinusOne impl (IsSlotBootable sys impl slot w),
     m_getSuffix = \<lambda>slot (impl, w). GetSuffix impl slot,
     m_isSlotMarkedSuccessful = \<lambda>slot (impl, w). zeroOrMinusOne impl (IsSlotMarkedSuccessful sys impl slot w)\<rparr>"

section \<open>Properties\<close>

text \<open>
  Claim C31 (legacy_answers_inverted). Over the legacy module, which returns 0 for a slot that is bootable and -1 for one that is
  not, the service 1.0 answers that a bootable slot is not bootable and that a valid slot that is not bootable does not exist,
  and in the same way for slots marked successful, while the services over the implementation give the right answer.
\<close>

theorem legacy_answers_inverted:
  assumes "IsValidSlot impl slot"
  shows "fst (hidl10_isSlotBootable (legacyModule sys) slot (impl, w)) =
      (if fst (hidl_isSlotBootable sys impl slot w) = BOOL_TRUE then BOOL_FALSE else BOOL_INVALID_SLOT) \<and>
    fst (hidl10_isSlotMarkedSuccessful (legacyModule sys) slot (impl, w)) =
      (if fst (hidl_isSlotMarkedSuccessful sys impl slot w) = BOOL_TRUE then BOOL_FALSE else BOOL_INVALID_SLOT) \<and>
    aidl_isSlotBootable sys impl slot r w = (BootOk, IsSlotBootable sys impl slot w) \<and>
    fst (hidl_isSlotBootable sys impl slot w) = (if fst (IsSlotBootable sys impl slot w) then BOOL_TRUE else BOOL_FALSE)"
  using assms
  by (simp add: hidl10_isSlotBootable_def hidl10_isSlotMarkedSuccessful_def legacyModule_def zeroOrMinusOne_def
      hidl_isSlotBootable_def hidl_isSlotMarkedSuccessful_def aidl_isSlotBootable_def boolResult_def split: prod.splits)

theorem legacy_answers_inverted_witness:
  "IsValidSlot sampleControl 1 \<and> hidl_isSlotBootable sampleSystem sampleControl 1 sampleState = (BOOL_TRUE, sampleState) \<and>
    fst (hidl10_isSlotBootable (legacyModule sampleSystem) 1 (sampleControl, sampleState)) = BOOL_FALSE"
proof -
  have v: "IsValidSlot sampleControl 1" by (simp add: IsValidSlot_def sampleControl_def kMaxNumSlots_def word_less_nat_alt)
  have "LoadBootloaderControl memoryFiles ''/dev/misc'' sampleState = (Some sampleBlock, sampleState)"
    using memory_load [of "fst sampleState" "''/dev/misc''" "snd sampleState"] length_controlBytes [OF sampleBlock_shape]
    by (simp add: sampleState_def control_bytes [OF sampleBlock_shape])
  then have h: "hidl_isSlotBootable sampleSystem sampleControl 1 sampleState = (BOOL_TRUE, sampleState)"
    using v by (simp add: hidl_isSlotBootable_def IsSlotBootable_def IsValidSlot_def not_le [symmetric] sampleSystem_def
        sampleControl_def sampleBlock_def sampleSlot_def boolResult_def kMaxNumSlots_def)
  with v legacy_answers_inverted [OF v, of sampleSystem sampleState] show ?thesis by simp
qed

text \<open>Only services that are returned or constructed have an initialized implementation.\<close>

lemma services_initialized:
  "aidl_new sys w = Some (control, w') \<Longrightarrow> Init sys newBootControl w = (True, control, w')"
  "HIDL_FETCH_IBootControl sys w = (Some control, w') \<Longrightarrow> Init sys newBootControl w = (True, control, w')"
  by (auto simp: aidl_new_def HIDL_FETCH_IBootControl_def split: prod.splits if_splits)

end
