(* ===== verification/Hci_Packetizer.thy ===== *)
theory Hci_Packetizer
  imports Prelude
begin

text \<open>
  The receiving side of the transport of HCI packets over a UART, \<^verbatim>\<open>bluetooth/hci\<close>: the packetizer of
  \<^verbatim>\<open>hci_packetizer.cc\<close> and the loop of \<^verbatim>\<open>h4_protocol.cc\<close> that feeds it a buffer of bytes. A \<^verbatim>\<open>PacketType\<close> has the
  underlying type \<^verbatim>\<open>uint8_t\<close>, and the code casts any byte to it, so that a packet type is a byte here. \<open>None\<close> is an
  access outside of a table or of a vector, and the abort of \<^verbatim>\<open>LOG_ALWAYS_FATAL\<close>.
\<close>

type_synonym byte = "8 word"
type_synonym PacketType = byte

definition UNKNOWN :: PacketType where "UNKNOWN = 0"
definition COMMAND :: PacketType where "COMMAND = 1"
definition ACL_DATA :: PacketType where "ACL_DATA = 2"
definition SCO_DATA :: PacketType where "SCO_DATA = 3"
definition EVENT :: PacketType where "EVENT = 4"
definition ISO_DATA :: PacketType where "ISO_DATA = 5"

definition header_size_for_type :: "nat list" where
  "header_size_for_type = [0, 3, 4, 3, 2, 4]"

definition packet_length_offset_for_type :: "nat list" where
  "packet_length_offset_for_type = [0, 2, 2, 2, 1, 2]"

text \<open>Reading an element of an array or a vector.\<close>

definition element :: "'a list \<Rightarrow> nat \<Rightarrow> 'a option" where
  "element xs i = (if i < length xs then Some (xs ! i) else None)"

definition HciGetPacketLengthForType :: "PacketType \<Rightarrow> byte list \<Rightarrow> nat option" where
  "HciGetPacketLengthForType type header =
     (case element packet_length_offset_for_type (unat type) of
        None \<Rightarrow> None
      | Some offset \<Rightarrow>
          if type \<noteq> ACL_DATA \<and> type \<noteq> ISO_DATA then map_option unat (element header offset)
          else (case element header (offset + 1) of
              None \<Rightarrow> None
            | Some high \<Rightarrow> map_option (\<lambda>low. 256 * unat high + unat low) (element header offset)))"

section \<open>The packetizer\<close>

datatype hci_state = HCI_HEADER | HCI_PAYLOAD

record packetizer =
  hci_state_of :: hci_state
  packet_bytes :: "byte list"
  bytes_remaining :: nat

definition HciPacketizer :: packetizer where
  "HciPacketizer = \<lparr>hci_state_of = HCI_HEADER, packet_bytes = [], bytes_remaining = 0\<rparr>"

text \<open>
  Appending to the packet the bytes of the buffer at the offset, as many as remain and are available, which both states do:
  the packetizer and the offset afterwards.
\<close>

definition copyBytes :: "byte list \<Rightarrow> nat \<Rightarrow> packetizer \<Rightarrow> packetizer \<times> nat" where
  "copyBytes buffer offset p =
     (let bytes_to_copy = min (bytes_remaining p) (length buffer - offset) in
        (p\<lparr>packet_bytes := packet_bytes p @ take bytes_to_copy (drop offset buffer),
           bytes_remaining := bytes_remaining p - bytes_to_copy\<rparr>, offset + bytes_to_copy))"

text \<open>\<^verbatim>\<open>OnDataReady\<close>: the packetizer and the offset afterwards, and whether a packet is complete.\<close>

function packetizerOnDataReady ::
  "PacketType \<Rightarrow> byte list \<Rightarrow> nat \<Rightarrow> packetizer \<Rightarrow> (packetizer \<times> nat \<times> bool) option" where
  "packetizerOnDataReady type buffer offset p =
     (case hci_state_of p of
        HCI_HEADER \<Rightarrow>
          (case element header_size_for_type (unat type) of
             None \<Rightarrow> None
           | Some header_size \<Rightarrow>
               let p = (if bytes_remaining p = 0 then p\<lparr>bytes_remaining := header_size, packet_bytes := []\<rparr> else p);
                   (p, offset) = copyBytes buffer offset p
               in if bytes_remaining p = 0 then
                    (case HciGetPacketLengthForType type (packet_bytes p) of
                       None \<Rightarrow> None
                     | Some n \<Rightarrow>
                         if n > 0 then
                           let p = p\<lparr>bytes_remaining := n, hci_state_of := HCI_PAYLOAD\<rparr>
                           in if length buffer - offset > 0 then packetizerOnDataReady type buffer offset p
                              else Some (p, offset, False)
                         else Some (p\<lparr>bytes_remaining := n\<rparr>, offset, True))
                  else Some (p, offset, False))
      | HCI_PAYLOAD \<Rightarrow>
          let (p, offset) = copyBytes buffer offset p
          in if bytes_remaining p = 0 then Some (p\<lparr>hci_state_of := HCI_HEADER\<rparr>, offset, True)
             else Some (p, offset, False))"
  by pat_completeness auto

termination
  by (relation "measure (\<lambda>(type, buffer, offset, p). case hci_state_of p of HCI_HEADER \<Rightarrow> 1 | HCI_PAYLOAD \<Rightarrow> 0)")
    (auto simp: copyBytes_def)

declare packetizerOnDataReady.simps [simp del]

section \<open>The H4 receiver\<close>

text \<open>
  The type of the packet being received and the packetizer. \<^verbatim>\<open>OnPacketReady\<close> calls the callback of the type of the packet,
  so that what is delivered is a list of types and packets.
\<close>

type_synonym delivery = "PacketType \<times> byte list"

record h4_receiver =
  hci_packet_type :: PacketType
  hci_packetizer :: packetizer

definition h4Receiver :: h4_receiver where
  "h4Receiver = \<lparr>hci_packet_type = UNKNOWN, hci_packetizer = HciPacketizer\<rparr>"

definition OnPacketReady :: "PacketType \<Rightarrow> byte list \<Rightarrow> delivery option" where
  "OnPacketReady type packet =
     (if type \<in> {COMMAND, ACL_DATA, SCO_DATA, EVENT, ISO_DATA} then Some (type, packet) else None)"

text \<open>Each call of the packetizer consumes a byte or completes a packet.\<close>

lemma payload_step:
  "hci_state_of p = HCI_PAYLOAD \<Longrightarrow> packetizerOnDataReady type buffer offset p =
     (let k = min (bytes_remaining p) (length buffer - offset);
          p' = p\<lparr>packet_bytes := packet_bytes p @ take k (drop offset buffer), bytes_remaining := bytes_remaining p - k\<rparr>
      in Some (if bytes_remaining p' = 0 then p'\<lparr>hci_state_of := HCI_HEADER\<rparr> else p', offset + k,
           bytes_remaining p' = 0))"
  by (subst packetizerOnDataReady.simps) (simp add: copyBytes_def Let_def)

lemma packetizer_progress:
  assumes call: "packetizerOnDataReady type buffer offset p = Some (p', offset', ready)"
    and avail: "offset < length buffer" and known: "type \<noteq> UNKNOWN"
  shows "offset \<le> offset' \<and> offset' \<le> length buffer \<and> (offset < offset' \<or> ready)"
proof (cases "hci_state_of p")
  case HCI_PAYLOAD
  then show ?thesis using call avail by (auto simp: payload_step Let_def split: if_splits)
next
  case HCI_HEADER
  obtain n where n: "element header_size_for_type (unat type) = Some n"
    using call HCI_HEADER by (subst (asm) packetizerOnDataReady.simps) (auto split: option.splits)
  have "n > 0"
  proof -
    have "unat type < 6" and n': "n = header_size_for_type ! unat type"
      using n by (auto simp: element_def header_size_for_type_def split: if_splits)
    moreover have "unat type \<noteq> 0" using known by (simp add: UNKNOWN_def unat_eq_zero)
    ultimately have "unat type \<in> {1, 2, 3, 4, 5}" by auto
    then show ?thesis unfolding n' header_size_for_type_def by auto
  qed
  then show ?thesis
    using call avail HCI_HEADER n
    by (subst (asm) packetizerOnDataReady.simps)
      (auto simp: Let_def copyBytes_def payload_step split: option.splits if_splits)
qed

text \<open>\<^verbatim>\<open>SendDataToPacketizer\<close>, from the offset in the buffer: the receiver afterwards and what was delivered.\<close>

function sendFromOffset :: "byte list \<Rightarrow> nat \<Rightarrow> h4_receiver \<Rightarrow> (h4_receiver \<times> delivery list) option" where
  "sendFromOffset buffer offset r =
     (if offset < length buffer then
        if hci_packet_type r = UNKNOWN then
          sendFromOffset buffer (offset + 1) (r\<lparr>hci_packet_type := buffer ! offset\<rparr>)
        else
          (case packetizerOnDataReady (hci_packet_type r) buffer offset (hci_packetizer r) of
             None \<Rightarrow> None
           | Some (p, offset', packet_ready) \<Rightarrow>
               if packet_ready then
                 (case OnPacketReady (hci_packet_type r) (packet_bytes p) of
                    None \<Rightarrow> None
                  | Some d \<Rightarrow> map_option (\<lambda>(r', ds). (r', d # ds))
                      (sendFromOffset buffer offset' (r\<lparr>hci_packetizer := p, hci_packet_type := UNKNOWN\<rparr>)))
               else sendFromOffset buffer offset' (r\<lparr>hci_packetizer := p\<rparr>))
      else Some (r, []))"
  by pat_completeness auto

termination
proof (relation "measure (\<lambda>(buffer, offset, r).
    2 * (length buffer - offset) + (if hci_packet_type r = UNKNOWN then 0 else 1))", goal_cases)
  case (3 buffer offset r res p rest offset' ready d)
  then show ?case using packetizer_progress [of "hci_packet_type r" buffer offset "hci_packetizer r" p offset' ready] by auto
next
  case (4 buffer offset r res p rest offset' ready)
  then show ?case using packetizer_progress [of "hci_packet_type r" buffer offset "hci_packetizer r" p offset' ready] by auto
qed auto

declare sendFromOffset.simps [simp del]

definition SendDataToPacketizer :: "byte list \<Rightarrow> h4_receiver \<Rightarrow> (h4_receiver \<times> delivery list) option" where
  "SendDataToPacketizer buffer r = sendFromOffset buffer 0 r"

section \<open>The reference: a receiver of single bytes\<close>

text \<open>
  What the buffers of the code implement: a state machine that takes one byte at a time. A byte of zero between two packets
  is skipped, as the type \<open>UNKNOWN\<close> is.
\<close>

datatype receiver =
    Idle
  | InHeader PacketType "byte list"
  | InPayload PacketType "byte list" nat

fun receiveByte :: "receiver \<Rightarrow> byte \<Rightarrow> (receiver \<times> delivery list) option" where
  "receiveByte Idle b = Some (if b = UNKNOWN then Idle else InHeader b [], [])"
| "receiveByte (InHeader t h) b =
     (case element header_size_for_type (unat t) of
        None \<Rightarrow> None
      | Some n \<Rightarrow>
          if length h + 1 < n then Some (InHeader t (h @ [b]), [])
          else (case HciGetPacketLengthForType t (h @ [b]) of
              None \<Rightarrow> None
            | Some k \<Rightarrow> Some (if k = 0 then (Idle, [(t, h @ [b])]) else (InPayload t (h @ [b]) k, []))))"
| "receiveByte (InPayload t p k) b =
     Some (if k \<le> 1 then (Idle, [(t, p @ [b])]) else (InPayload t (p @ [b]) (k - 1), []))"

definition deliver :: "delivery list \<Rightarrow> (receiver \<times> delivery list) option \<Rightarrow> (receiver \<times> delivery list) option" where
  "deliver ds = map_option (\<lambda>(r, ds'). (r, ds @ ds'))"

fun receive :: "receiver \<Rightarrow> byte list \<Rightarrow> (receiver \<times> delivery list) option" where
  "receive r [] = Some (r, [])"
| "receive r (b # bs) = (case receiveByte r b of None \<Rightarrow> None | Some (r', ds) \<Rightarrow> deliver ds (receive r' bs))"

lemma deliver_simps [simp]:
  "deliver ds None = None"
  "deliver ds (Some (r, ds')) = Some (r, ds @ ds')"
  "deliver [] x = x"
  "deliver ds (deliver ds' x) = deliver (ds @ ds') x"
  by (simp_all add: deliver_def, (cases x; auto)+)

lemma receive_append:
  "receive r (xs @ ys) = (case receive r xs of None \<Rightarrow> None | Some (r', ds) \<Rightarrow> deliver ds (receive r' ys))"
  by (induction xs arbitrary: r) (auto split: option.splits prod.splits)

text \<open>A payload and a header, received at once.\<close>

lemma receive_payload:
  "0 < k \<Longrightarrow> receive (InPayload t p k) xs =
     (if length xs < k then Some (InPayload t (p @ xs) (k - length xs), [])
      else deliver [(t, p @ take k xs)] (receive Idle (drop k xs)))"
proof (induction xs arbitrary: p k)
  case (Cons x xs)
  then show ?case by (cases "k \<le> 1") (auto simp: take_Cons' drop_Cons' le_Suc_eq)
qed simp

lemma receive_header:
  assumes "element header_size_for_type (unat t) = Some n"
  shows "length h < n \<Longrightarrow> receive (InHeader t h) xs =
     (if length h + length xs < n then Some (InHeader t (h @ xs), [])
      else let m = n - length h; h' = h @ take m xs
        in case HciGetPacketLengthForType t h' of
             None \<Rightarrow> None
           | Some k \<Rightarrow> if k = 0 then deliver [(t, h')] (receive Idle (drop m xs))
               else receive (InPayload t h' k) (drop m xs))"
proof (induction xs arbitrary: h)
  case (Cons x xs)
  show ?case
  proof (cases "length h + 1 < n")
    case True
    then have m: "n - length h = Suc (n - length (h @ [x]))" by simp
    show ?thesis using Cons.IH [of "h @ [x]"] True assms by (auto simp: m Let_def split: option.splits)
  next
    case False
    then have "n - length h = 1" using Cons.prems by simp
    then show ?thesis using assms Cons.prems False by (auto simp: Let_def split: option.splits)
  qed
qed simp

section \<open>The packetizer refines the reference\<close>

text \<open>The state of the reference that the buffers stand for, and the states that the code reaches.\<close>

definition receiverOf :: "PacketType \<Rightarrow> packetizer \<Rightarrow> receiver" where
  "receiverOf t p =
     (if t = UNKNOWN then Idle
      else case hci_state_of p of
          HCI_HEADER \<Rightarrow> InHeader t (if bytes_remaining p = 0 then [] else packet_bytes p)
        | HCI_PAYLOAD \<Rightarrow> InPayload t (packet_bytes p) (bytes_remaining p))"

definition packetizer_wf :: "PacketType \<Rightarrow> packetizer \<Rightarrow> bool" where
  "packetizer_wf t p \<longleftrightarrow>
     (if t = UNKNOWN then hci_state_of p = HCI_HEADER \<and> bytes_remaining p = 0
      else case hci_state_of p of
          HCI_HEADER \<Rightarrow> bytes_remaining p \<noteq> 0 \<longrightarrow>
            element header_size_for_type (unat t) = Some (length (packet_bytes p) + bytes_remaining p)
        | HCI_PAYLOAD \<Rightarrow> bytes_remaining p \<noteq> 0 \<and> unat t < 6)"

lemma header_size_known:
  "element header_size_for_type (unat t) = Some n \<Longrightarrow> t \<noteq> UNKNOWN \<Longrightarrow> 0 < n \<and> n \<le> 4 \<and> unat t < 6"
  by (auto simp: element_def header_size_for_type_def UNKNOWN_def unat_eq_zero nth_Cons' split: if_splits)

lemma packet_type_cases:
  "unat (t::PacketType) < 6 \<Longrightarrow> t \<noteq> UNKNOWN \<Longrightarrow> t \<in> {COMMAND, ACL_DATA, SCO_DATA, EVENT, ISO_DATA}"
proof -
  assume "unat t < 6" and "t \<noteq> UNKNOWN"
  then have "unat t \<noteq> 0" and "unat t < 6" by (auto simp: UNKNOWN_def unat_eq_zero)
  then have "unat t \<in> {1, 2, 3, 4, 5}" by simp arith
  then show ?thesis
    by (auto simp: COMMAND_def ACL_DATA_def SCO_DATA_def EVENT_def ISO_DATA_def word_unat_eq_iff)
qed

lemma payload_refines:
  assumes "hci_state_of p = HCI_PAYLOAD" and "packetizer_wf t p" and "t \<noteq> UNKNOWN"
    and call: "packetizerOnDataReady t buffer offset p = Some (p', offset', ready)"
  shows "packetizer_wf (if ready then UNKNOWN else t) p'"
    and "receive (receiverOf t p) (drop offset buffer) =
       (if ready then deliver [(t, packet_bytes p')] (receive Idle (drop offset' buffer))
        else receive (receiverOf t p') (drop offset' buffer))"
proof -
  have r: "0 < bytes_remaining p" and t: "unat t < 6" using assms by (auto simp: packetizer_wf_def)
  show "packetizer_wf (if ready then UNKNOWN else t) p'"
    using assms r t by (auto simp: payload_step packetizer_wf_def Let_def split: if_splits)
  show "receive (receiverOf t p) (drop offset buffer) =
       (if ready then deliver [(t, packet_bytes p')] (receive Idle (drop offset' buffer))
        else receive (receiverOf t p') (drop offset' buffer))"
    using assms r by (auto simp: payload_step receiverOf_def receive_payload Let_def min_def add.commute split: if_splits)
qed

text \<open>One call of \<^verbatim>\<open>OnDataReady\<close>, against the reference on the rest of the buffer.\<close>

definition refines_call :: "PacketType \<Rightarrow> byte list \<Rightarrow> nat \<Rightarrow> receiver \<Rightarrow> (packetizer \<times> nat \<times> bool) option \<Rightarrow> bool" where
  "refines_call t buffer offset r result \<longleftrightarrow>
     (case result of
        None \<Rightarrow> receive r (drop offset buffer) = None
      | Some (p', offset', ready) \<Rightarrow>
          packetizer_wf (if ready then UNKNOWN else t) p' \<and>
          receive r (drop offset buffer) =
            (if ready then deliver [(t, packet_bytes p')] (receive Idle (drop offset' buffer))
             else receive (receiverOf t p') (drop offset' buffer)))"

lemma payload_call:
  assumes "hci_state_of p = HCI_PAYLOAD" and "packetizer_wf t p" and "t \<noteq> UNKNOWN"
  shows "refines_call t buffer offset (receiverOf t p) (packetizerOnDataReady t buffer offset p)"
proof (cases "packetizerOnDataReady t buffer offset p")
  case None
  then show ?thesis using assms(1) by (simp add: payload_step Let_def)
next
  case (Some result)
  then obtain p' offset' ready where r: "packetizerOnDataReady t buffer offset p = Some (p', offset', ready)"
    by (cases result) auto
  show ?thesis unfolding refines_call_def r using payload_refines [OF assms r] by simp
qed

lemma header_call:
  assumes state: "hci_state_of p = HCI_HEADER" and wf: "packetizer_wf t p" and known: "t \<noteq> UNKNOWN"
    and size: "element header_size_for_type (unat t) = Some n"
  shows "refines_call t buffer offset (receiverOf t p) (packetizerOnDataReady t buffer offset p)"
proof -
  define h where "h = (if bytes_remaining p = 0 then [] else packet_bytes p)"
  define xs where "xs = drop offset buffer"
  define m where "m = n - length h"
  define q where "q = p\<lparr>packet_bytes := h, bytes_remaining := m\<rparr>"
  have n: "0 < n" "unat t < 6" using header_size_known [OF size known] by auto
  have m: "0 < m" "length h < n" using wf known state size n
    by (auto simp: m_def h_def packetizer_wf_def)
  have q: "(if bytes_remaining p = 0 then p\<lparr>bytes_remaining := n, packet_bytes := []\<rparr> else p) = q"
    using wf known state size by (auto simp: q_def m_def h_def packetizer_wf_def)
  have r: "receiverOf t p = InHeader t h" using known state by (simp add: receiverOf_def h_def)
  have step: "packetizerOnDataReady t buffer offset p =
     (if length xs < m then Some (q\<lparr>packet_bytes := h @ xs, bytes_remaining := m - length xs\<rparr>, offset + length xs, False)
      else let p1 = q\<lparr>packet_bytes := h @ take m xs, bytes_remaining := 0\<rparr>
        in case HciGetPacketLengthForType t (packet_bytes p1) of
             None \<Rightarrow> None
           | Some k \<Rightarrow> if k = 0 then Some (p1, offset + m, True)
               else let p2 = p1\<lparr>bytes_remaining := k, hci_state_of := HCI_PAYLOAD\<rparr>
                 in if length xs > m then packetizerOnDataReady t buffer (offset + m) p2
                    else Some (p2, offset + m, False))"
    unfolding packetizerOnDataReady.simps [of t buffer offset p] using state size m
    by (auto simp: q copyBytes_def Let_def xs_def q_def split: option.splits)
  note head = receive_header [OF size m(2), of xs, folded m_def]
  have full: "m \<le> length xs \<Longrightarrow> n \<le> length h + length xs" and part: "length xs < m \<Longrightarrow> length h + length xs < n"
    by (auto simp: m_def)
  show ?thesis
  proof (cases "length xs < m")
    case True
    let ?q = "q\<lparr>packet_bytes := h @ xs, bytes_remaining := m - length xs\<rparr>"
    have "receiverOf t ?q = InHeader t (h @ xs)" and "packetizer_wf t ?q"
      using True known size m(2) state by (auto simp: receiverOf_def packetizer_wf_def q_def m_def)
    moreover have "drop (offset + length xs) buffer = []" by (simp add: xs_def)
    ultimately show ?thesis
      using True head part by (simp add: refines_call_def step r xs_def [symmetric])
  next
    case False
    let ?h = "h @ take m xs"
    show ?thesis
    proof (cases "HciGetPacketLengthForType t ?h")
      case None
      then show ?thesis using False head full by (simp add: refines_call_def step r xs_def [symmetric] Let_def)
    next
      case (Some k)
      define p2 where "p2 = q\<lparr>packet_bytes := ?h, bytes_remaining := k, hci_state_of := HCI_PAYLOAD\<rparr>"
      have rest: "drop (offset + m) buffer = drop m xs" "drop (offset + length xs) buffer = []"
        by (simp_all add: xs_def add.commute)
      have head': "receive (InHeader t h) xs =
          (if k = 0 then deliver [(t, ?h)] (receive Idle (drop m xs)) else receive (InPayload t ?h k) (drop m xs))"
        using head False Some full by (simp add: Let_def)
      have p2: "k \<noteq> 0 \<Longrightarrow> receiverOf t p2 = InPayload t ?h k \<and> packetizer_wf t p2 \<and> hci_state_of p2 = HCI_PAYLOAD"
        using known n by (auto simp: p2_def receiverOf_def packetizer_wf_def)
      show ?thesis
      proof (cases "k \<noteq> 0 \<and> m < length xs")
        case True
        then show ?thesis
          using payload_call [of p2 t buffer "offset + m"] p2 known head' False Some
          by (auto simp: refines_call_def step r xs_def [symmetric] rest Let_def p2_def split: option.splits)
      next
        case no_rest: False
        then show ?thesis
          using p2 known head' False Some state
          by (auto simp: refines_call_def step r xs_def [symmetric] rest Let_def p2_def packetizer_wf_def q_def)
      qed
    qed
  qed
qed

lemma unknown_type_call:
  assumes "hci_state_of p = HCI_HEADER" and "t \<noteq> UNKNOWN" and "offset < length buffer"
    and "element header_size_for_type (unat t) = None"
  shows "refines_call t buffer offset (receiverOf t p) (packetizerOnDataReady t buffer offset p)"
proof -
  have "receive (receiverOf t p) (drop offset buffer) = None"
    using assms by (simp add: Cons_nth_drop_Suc [symmetric] receiverOf_def)
  then show ?thesis using assms by (simp add: refines_call_def packetizerOnDataReady.simps)
qed

lemma packetizer_call:
  assumes "packetizer_wf t p" and "t \<noteq> UNKNOWN" and "offset < length buffer"
  shows "refines_call t buffer offset (receiverOf t p) (packetizerOnDataReady t buffer offset p)"
  using payload_call [of p t] header_call [of p t] unknown_type_call [of p t offset buffer] assms
  by (cases "hci_state_of p"; cases "element header_size_for_type (unat t)") auto

text \<open>Only a type that the tables know gets past the header.\<close>

lemma packetizer_known:
  "packetizerOnDataReady t buffer offset p = Some (p', offset', ready) \<Longrightarrow> packetizer_wf t p \<Longrightarrow> t \<noteq> UNKNOWN \<Longrightarrow> unat t < 6"
  by (cases "hci_state_of p")
    (auto simp: packetizer_wf_def packetizerOnDataReady.simps [of t buffer offset p] dest: header_size_known split: option.splits)

section \<open>The loop refines the reference\<close>

abbreviation h4Receiving :: "h4_receiver \<Rightarrow> receiver" where
  "h4Receiving r \<equiv> receiverOf (hci_packet_type r) (hci_packetizer r)"

definition h4_wf :: "h4_receiver \<Rightarrow> bool" where
  "h4_wf r \<longleftrightarrow> packetizer_wf (hci_packet_type r) (hci_packetizer r)"

lemma h4_wf_init [simp]: "h4_wf h4Receiver"
  by (simp add: h4_wf_def h4Receiver_def packetizer_wf_def HciPacketizer_def)

lemma receiverOf_UNKNOWN [simp]: "receiverOf UNKNOWN p = Idle"
  by (simp add: receiverOf_def)

text \<open>A result of the code and one of the reference agree: both fail, or they deliver the same and end alike.\<close>

definition agrees :: "(h4_receiver \<times> delivery list) option \<Rightarrow> (receiver \<times> delivery list) option \<Rightarrow> bool" where
  "agrees code reference \<longleftrightarrow>
     reference = map_option (\<lambda>(r, ds). (h4Receiving r, ds)) code \<and> (\<forall>r ds. code = Some (r, ds) \<longrightarrow> h4_wf r)"

lemma sendFromOffset_refines:
  "h4_wf r \<Longrightarrow> offset \<le> length buffer \<Longrightarrow>
     agrees (sendFromOffset buffer offset r) (receive (h4Receiving r) (drop offset buffer))"
proof (induction buffer offset r rule: sendFromOffset.induct)
  case (1 buffer offset r)
  show ?case
  proof (cases "offset < length buffer")
    case False
    then show ?thesis using 1(4,5) by (subst sendFromOffset.simps) (simp add: agrees_def)
  next
    case avail: True
    show ?thesis
    proof (cases "hci_packet_type r = UNKNOWN")
      case True
      let ?r = "r\<lparr>hci_packet_type := buffer ! offset\<rparr>"
      have wf: "h4_wf ?r" and idle: "h4Receiving ?r = (if buffer ! offset = UNKNOWN then Idle else InHeader (buffer ! offset) [])"
        using 1(4) True by (auto simp: h4_wf_def packetizer_wf_def receiverOf_def)
      have "agrees (sendFromOffset buffer (offset + 1) ?r) (receive (h4Receiving ?r) (drop (offset + 1) buffer))"
        by (rule 1(1) [OF avail True wf]) (use avail in simp)
      then show ?thesis
        using avail True idle by (simp add: sendFromOffset.simps [of buffer offset r] Cons_nth_drop_Suc [symmetric])
    next
      case known: False
      note call = packetizer_call [OF 1(4) [unfolded h4_wf_def] known avail, unfolded refines_call_def]
      show ?thesis
      proof (cases "packetizerOnDataReady (hci_packet_type r) buffer offset (hci_packetizer r)")
        case None
        then show ?thesis using call avail known by (subst sendFromOffset.simps) (simp add: agrees_def)
      next
        case (Some result)
        obtain p' offset' ready where result: "result = (p', offset', ready)" by (cases result) auto
        note res = Some [unfolded result]
        have inside: "offset' \<le> length buffer" using packetizer_progress [OF res avail known] by simp
        show ?thesis
        proof (cases ready)
          case True
          let ?r = "r\<lparr>hci_packetizer := p', hci_packet_type := UNKNOWN\<rparr>"
          have delivered: "OnPacketReady (hci_packet_type r) (packet_bytes p') = Some (hci_packet_type r, packet_bytes p')"
            using packet_type_cases [OF packetizer_known [OF res 1(4) [unfolded h4_wf_def] known] known] by (auto simp: OnPacketReady_def)
          have "agrees (sendFromOffset buffer offset' ?r) (receive (h4Receiving ?r) (drop offset' buffer))"
            by (rule 1(2) [OF avail known res refl refl True delivered]) (use call res True inside in \<open>simp_all add: h4_wf_def\<close>)
          then show ?thesis
            using call res True avail known delivered
            by (subst sendFromOffset.simps) (auto simp: agrees_def option.map_comp comp_def split_beta deliver_def)
        next
          case False
          let ?r = "r\<lparr>hci_packetizer := p'\<rparr>"
          have "agrees (sendFromOffset buffer offset' ?r) (receive (h4Receiving ?r) (drop offset' buffer))"
            by (rule 1(3) [OF avail known res refl refl False]) (use call res False inside in \<open>simp_all add: h4_wf_def\<close>)
          then show ?thesis
            using call res False avail known by (subst sendFromOffset.simps) simp
        qed
      qed
    qed
  qed
qed

end
