(* ===== verification/H4_Protocol.thy ===== *)
theory H4_Protocol
  imports Hci_Packetizer "HOL-Library.Sublist"
begin

text \<open>
  \<^verbatim>\<open>H4Protocol\<close> of \<^verbatim>\<open>bluetooth/hci/h4_protocol.cc\<close>: packets written to a UART, each after a byte with its type, and packets
  received from it. The device is a parameter: what a \<^verbatim>\<open>writev\<close> and a \<^verbatim>\<open>read\<close> find. It may take any part of what is
  written and give any part of what was sent.
\<close>

section \<open>Sending\<close>

text \<open>
  What a \<^verbatim>\<open>writev\<close> finds: room for a number of bytes, of which it takes as many as it is given; \<^verbatim>\<open>EAGAIN\<close>; or another error. An
  interrupted call is repeated by \<^verbatim>\<open>TEMP_FAILURE_RETRY\<close> and is not seen here.
\<close>

datatype write_outcome = Room nat | WriteAgain | WriteError

text \<open>
  The inner loop, which drops the vectors that were written whole and shortens the next one; past the end of the array
  the code reads memory that is not the array's.
\<close>

fun advanceIov :: "nat \<Rightarrow> byte list list \<Rightarrow> byte list list option" where
  "advanceIov ret [] = None"
| "advanceIov ret (v # iov) =
     (if ret \<ge> length v then advanceIov (ret - length v) iov
      else Some (if ret > 0 then drop ret v # iov else v # iov))"

text \<open>
  The loop returns the bytes that remain, the bytes counted as written, and the bytes that reached the device. It waits when
  the outcomes given are used up.
\<close>

datatype send_result = Sent nat nat "byte list" | Waiting "byte list" | Undefined

fun writevLoop :: "write_outcome list \<Rightarrow> byte list list \<Rightarrow> nat \<Rightarrow> nat \<Rightarrow> byte list \<Rightarrow> send_result" where
  "writevLoop [] iov remaining_bytes bytes_written wire =
     (if remaining_bytes > 0 then Waiting wire else Sent remaining_bytes bytes_written wire)"
| "writevLoop (w # ws) iov remaining_bytes bytes_written wire =
     (if remaining_bytes > 0 then
        (case w of
           WriteAgain \<Rightarrow> writevLoop ws iov remaining_bytes bytes_written wire
         | WriteError \<Rightarrow> Sent remaining_bytes bytes_written wire
         | Room k \<Rightarrow>
             let ret = min k (length (concat iov)); wire = wire @ take ret (concat iov)
             in if ret = 0 then Sent remaining_bytes bytes_written wire
                else if ret = remaining_bytes then Sent remaining_bytes (bytes_written + ret) wire
                else (case advanceIov ret iov of
                    None \<Rightarrow> Undefined
                  | Some iov' \<Rightarrow> writevLoop ws iov' (remaining_bytes - ret) (bytes_written + ret) wire))
      else Sent remaining_bytes bytes_written wire)"

text \<open>\<^verbatim>\<open>Send\<close>: the number it returns and the bytes that reached the device.\<close>

datatype send_answer = Returned nat "byte list" | NotReturned "byte list" | SendUndefined

definition h4Send :: "write_outcome list \<Rightarrow> PacketType \<Rightarrow> byte list \<Rightarrow> send_answer" where
  "h4Send ws type data =
     (let total_bytes = 1 + length data
      in case writevLoop ws [[type], data] total_bytes 0 [] of
           Sent remaining_bytes bytes_written wire \<Rightarrow> Returned (total_bytes - remaining_bytes) wire
         | Waiting wire \<Rightarrow> NotReturned wire
         | Undefined \<Rightarrow> SendUndefined)"

lemma advanceIov_bytes:
  "ret < length (concat iov) \<Longrightarrow> \<exists>iov'. advanceIov ret iov = Some iov' \<and> concat iov' = drop ret (concat iov)"
  by (induction ret iov rule: advanceIov.induct) (auto simp: not_less)

definition send_invariant :: "byte list \<Rightarrow> send_result \<Rightarrow> bool" where
  "send_invariant bytes result \<longleftrightarrow>
     (case result of
        Sent remaining_bytes bytes_written wire \<Rightarrow>
          prefix wire bytes \<and> bytes_written = length wire \<and> 0 < remaining_bytes \<and> remaining_bytes \<le> length bytes \<and>
          (wire \<noteq> bytes \<longrightarrow> remaining_bytes = length bytes - length wire)
      | Waiting wire \<Rightarrow> strict_prefix wire bytes
      | Undefined \<Rightarrow> False)"

lemma writevLoop_invariant:
  "concat iov = drop (length wire) bytes \<Longrightarrow> strict_prefix wire bytes \<Longrightarrow>
     send_invariant bytes (writevLoop ws iov (length bytes - length wire) (length wire) wire)"
proof (induction ws arbitrary: iov wire)
  case Nil
  then have "length wire < length bytes" by (simp add: prefix_length_less)
  then show ?case using Nil by (simp add: send_invariant_def)
next
  case (Cons w ws)
  have less: "length wire < length bytes" using Cons.prems(2) by (simp add: prefix_length_less)
  have pre: "prefix wire bytes" and ne: "wire \<noteq> bytes" using Cons.prems(2) by (auto simp: strict_prefix_def)
  show ?case
  proof (cases w)
    case (Room k)
    define ret where "ret = min k (length bytes - length wire)"
    define wire' where "wire' = wire @ take ret (drop (length wire) bytes)"
    have len: "length wire' = length wire + ret" using less by (simp add: wire'_def ret_def)
    have wire': "wire' = take (length wire + ret) bytes"
      using pre by (auto simp: wire'_def prefix_def take_add)
    have whole: "wire @ drop (length wire) bytes = bytes" using pre by (auto simp: prefix_def)
    have "ret \<le> length bytes - length wire" by (simp add: ret_def)
    then consider "ret = 0" | "ret \<noteq> 0" "ret = length bytes - length wire" | "ret \<noteq> 0" "ret < length bytes - length wire"
      by (metis le_neq_implies_less)
    then show ?thesis
    proof cases
      case 3
      then obtain iov' where iov': "advanceIov ret iov = Some iov'" "concat iov' = drop ret (concat iov)"
        using advanceIov_bytes [of ret iov] Cons.prems(1) by auto
      have strict: "strict_prefix wire' bytes" using 3 less
      by (auto simp: wire' strict_prefix_def take_is_prefix dest: arg_cong [where f = length])
      have "send_invariant bytes (writevLoop ws iov' (length bytes - length wire') (length wire') wire')"
        by (rule Cons.IH [OF _ strict]) (simp add: iov'(2) Cons.prems(1) len add.commute)
      then show ?thesis using Room 3 less iov'(1) Cons.prems(1)
        by (simp add: ret_def [symmetric] wire'_def [symmetric] len Let_def)
    qed (use Room less pre ne Cons.prems(1) len wire' whole in
        \<open>auto simp: send_invariant_def ret_def [symmetric] wire'_def [symmetric] Let_def take_is_prefix\<close>)
  next
    case WriteAgain
    then show ?thesis using Cons less by simp
  next
    case WriteError
    then show ?thesis using Cons.prems less pre ne by (simp add: send_invariant_def)
  qed
qed

fun sentBytes :: "send_answer \<Rightarrow> byte list" where
  "sentBytes (Returned n wire) = wire"
| "sentBytes (NotReturned wire) = wire"
| "sentBytes SendUndefined = []"

lemma h4Send_invariant: "send_invariant (type # data) (writevLoop ws [[type], data] (1 + length data) 0 [])"
  using writevLoop_invariant [of "[[type], data]" "[]" "type # data" ws] by (simp add: strict_prefix_def)

lemma sent_prefix: "prefix (sentBytes (h4Send ws type data)) (type # data)"
  using h4Send_invariant [of type data ws]
  by (auto simp: h4Send_def send_invariant_def Let_def strict_prefix_def split: send_result.splits)

section \<open>Receiving\<close>

text \<open>
  What a \<^verbatim>\<open>read\<close> finds: bytes, at most the 64 KB of the buffer, none at the end of the stream, or an error. A call after the
  disconnection does not read.
\<close>

datatype read_outcome = Read "byte list" | ReadError

datatype h4_event = Packet PacketType "byte list" | Disconnected

record h4_protocol =
  disconnected :: bool
  receiving :: h4_receiver

definition H4Protocol :: h4_protocol where
  "H4Protocol = \<lparr>disconnected = False, receiving = h4Receiver\<rparr>"

definition h4OnDataReady :: "read_outcome \<Rightarrow> h4_protocol \<Rightarrow> (h4_protocol \<times> h4_event list) option" where
  "h4OnDataReady outcome h =
     (if disconnected h then Some (h, [])
      else case outcome of
          ReadError \<Rightarrow> Some (h, [])
        | Read bytes \<Rightarrow>
            if bytes = [] then Some (h\<lparr>disconnected := True\<rparr>, [Disconnected])
            else map_option (\<lambda>(r, ds). (h\<lparr>receiving := r\<rparr>, map (\<lambda>(t, p). Packet t p) ds))
              (SendDataToPacketizer bytes (receiving h)))"

fun h4Run :: "read_outcome list \<Rightarrow> h4_protocol \<Rightarrow> (h4_protocol \<times> h4_event list) option" where
  "h4Run [] h = Some (h, [])"
| "h4Run (outcome # outcomes) h =
     (case h4OnDataReady outcome h of
        None \<Rightarrow> None
      | Some (h', es) \<Rightarrow> map_option (\<lambda>(h'', es'). (h'', es @ es')) (h4Run outcomes h'))"

text \<open>The bytes that were read until the end of the stream.\<close>

fun stream :: "read_outcome list \<Rightarrow> byte list" where
  "stream [] = []"
| "stream (ReadError # outcomes) = stream outcomes"
| "stream (Read bytes # outcomes) = (if bytes = [] then [] else bytes @ stream outcomes)"

lemma SendDataToPacketizer_refines:
  "h4_wf r \<Longrightarrow> agrees (SendDataToPacketizer buffer r) (receive (h4Receiving r) buffer)"
  using sendFromOffset_refines [of r 0 buffer] by (simp add: SendDataToPacketizer_def)

lemma h4Run_disconnected: "disconnected h \<Longrightarrow> h4Run outcomes h = Some (h, [])"
  by (induction outcomes) (simp_all add: h4OnDataReady_def)

abbreviation packetEvents :: "delivery list \<Rightarrow> h4_event list" where
  "packetEvents \<equiv> map (\<lambda>(t, p). Packet t p)"

lemma h4Run_refines:
  "h4_wf (receiving h) \<Longrightarrow> \<not> disconnected h \<Longrightarrow>
     map_option snd (h4Run outcomes h) =
       map_option (\<lambda>(r, ds). packetEvents ds @ (if Read [] \<in> set outcomes then [Disconnected] else []))
         (receive (h4Receiving (receiving h)) (stream outcomes))"
proof (induction outcomes arbitrary: h)
  case (Cons outcome outcomes)
  show ?case
  proof (cases outcome)
    case ReadError
    then show ?thesis using Cons.IH [OF Cons.prems] Cons.prems
      by (auto simp: h4OnDataReady_def option.map_comp comp_def split_beta)
  next
    case (Read bytes)
    show ?thesis
    proof (cases "bytes = []")
      case True
      then show ?thesis using Read Cons.prems by (simp add: h4OnDataReady_def h4Run_disconnected)
    next
      case False
      note ref = SendDataToPacketizer_refines [OF Cons.prems(1), of bytes, unfolded agrees_def]
      show ?thesis
      proof (cases "SendDataToPacketizer bytes (receiving h)")
        case None
        then show ?thesis using ref Read False Cons.prems by (simp add: h4OnDataReady_def receive_append)
      next
        case (Some result)
        then obtain r ds where r: "SendDataToPacketizer bytes (receiving h) = Some (r, ds)" by (cases result) auto
        then have wf: "h4_wf r" and rec: "receive (h4Receiving (receiving h)) bytes = Some (h4Receiving r, ds)"
          using ref by auto
        have "map_option snd (h4Run outcomes (h\<lparr>receiving := r\<rparr>)) =
            map_option (\<lambda>(r, ds). packetEvents ds @ (if Read [] \<in> set outcomes then [Disconnected] else []))
              (receive (h4Receiving r) (stream outcomes))"
          using Cons.IH [of "h\<lparr>receiving := r\<rparr>"] wf Cons.prems(2) by simp
        then have "map_option (\<lambda>x. packetEvents ds @ snd x) (h4Run outcomes (h\<lparr>receiving := r\<rparr>)) =
            map_option (\<lambda>(r, ds'). packetEvents (ds @ ds') @ (if Read [] \<in> set outcomes then [Disconnected] else []))
              (receive (h4Receiving r) (stream outcomes))"
          by (cases "h4Run outcomes (h\<lparr>receiving := r\<rparr>)"; cases "receive (h4Receiving r) (stream outcomes)") auto
        then show ?thesis
          using r rec Read False Cons.prems
          by (cases "h4Run outcomes (h\<lparr>receiving := r\<rparr>)"; cases "receive (h4Receiving r) (stream outcomes)")
            (auto simp: h4OnDataReady_def receive_append)
      qed
    qed
  qed
qed simp

lemma H4Protocol_simps [simp]:
  "receiving H4Protocol = h4Receiver"
  "\<not> disconnected H4Protocol"
  "h4Receiving h4Receiver = Idle"
  by (simp_all add: H4Protocol_def h4Receiver_def)

lemma h4Run_start:
  "map_option snd (h4Run outcomes H4Protocol) =
     map_option (\<lambda>(r, ds). packetEvents ds @ (if Read [] \<in> set outcomes then [Disconnected] else []))
       (receive Idle (stream outcomes))"
  using h4Run_refines [of H4Protocol outcomes] by simp

section \<open>The frames of a stream\<close>

text \<open>A packet whose header has the length of its payload, and the frame that carries it.\<close>

definition packet_ok :: "delivery \<Rightarrow> bool" where
  "packet_ok d \<longleftrightarrow> (case d of (t, p) \<Rightarrow>
     t \<noteq> UNKNOWN \<and>
     (case element header_size_for_type (unat t) of
        None \<Rightarrow> False
      | Some n \<Rightarrow> n \<le> length p \<and> HciGetPacketLengthForType t (take n p) = Some (length p - n)))"

definition frames :: "delivery list \<Rightarrow> byte list" where
  "frames ds = concat (map (\<lambda>(t, p). t # p) ds)"

lemma receive_frame:
  assumes "packet_ok (t, p)"
  shows "receive Idle (t # p @ xs) = deliver [(t, p)] (receive Idle xs)"
proof -
  obtain n where size: "element header_size_for_type (unat t) = Some n" and t: "t \<noteq> UNKNOWN"
    and n: "n \<le> length p" "HciGetPacketLengthForType t (take n p) = Some (length p - n)"
    using assms by (auto simp: packet_ok_def split: option.splits)
  have "0 < n" using header_size_known [OF size t] by simp
  show ?thesis
  proof (cases "length p = n")
    case True
    then show ?thesis using t n \<open>0 < n\<close> receive_header [OF size, of "[]" "p @ xs"] by (simp add: Let_def)
  next
    case False
    then have "0 < length p - n" and "\<not> length p + length xs - n < length p - n" using n by auto
    then show ?thesis
      using t n False \<open>0 < n\<close> receive_header [OF size, of "[]" "p @ xs"]
        receive_payload [of "length p - n" t "take n p" "drop n p @ xs"] by (simp add: Let_def)
  qed
qed

lemma receive_frames: "list_all packet_ok ds \<Longrightarrow> receive Idle (frames ds @ xs) = deliver ds (receive Idle xs)"
proof (induction ds)
  case (Cons d ds)
  obtain t p where d: "d = (t, p)" by (cases d)
  have "receive Idle (t # p @ frames ds @ xs) = deliver [(t, p)] (receive Idle (frames ds @ xs))"
    by (rule receive_frame) (use Cons.prems d in simp)
  then show ?case using Cons d by (simp add: frames_def)
qed (simp add: frames_def)

lemma receive_padding: "receive Idle (replicate k UNKNOWN @ xs) = receive Idle xs"
  by (induction k) simp_all

text \<open>
  Conversely, every byte of a stream is accounted for: it is part of the frame of a packet that was delivered, a skipped zero
  between two frames, or part of the packet being received.
\<close>

definition paddedFrames :: "(nat \<times> delivery) list \<Rightarrow> byte list" where
  "paddedFrames fs = concat (map (\<lambda>(k, t, p). replicate k UNKNOWN @ t # p) fs)"

fun pending :: "receiver \<Rightarrow> byte list" where
  "pending Idle = []"
| "pending (InHeader t h) = t # h"
| "pending (InPayload t p k) = t # p"

fun receiver_ok :: "receiver \<Rightarrow> bool" where
  "receiver_ok Idle = True"
| "receiver_ok (InHeader t h) = (t \<noteq> UNKNOWN \<and>
     (case element header_size_for_type (unat t) of None \<Rightarrow> h = [] | Some n \<Rightarrow> length h < n))"
| "receiver_ok (InPayload t p k) = (t \<noteq> UNKNOWN \<and> 0 < k \<and>
     (case element header_size_for_type (unat t) of
        None \<Rightarrow> False
      | Some n \<Rightarrow> n \<le> length p \<and> HciGetPacketLengthForType t (take n p) = Some (length p - n + k)))"

definition accounted :: "byte list \<Rightarrow> receiver \<Rightarrow> delivery list \<Rightarrow> bool" where
  "accounted xs r ds \<longleftrightarrow> receiver_ok r \<and> list_all packet_ok ds \<and>
     (\<exists>fs k. map snd fs = ds \<and> xs = paddedFrames fs @ replicate k UNKNOWN @ pending r)"

lemma accountedI:
  "receiver_ok r \<Longrightarrow> list_all packet_ok ds \<Longrightarrow> map snd fs = ds \<Longrightarrow>
     xs = paddedFrames fs @ replicate k UNKNOWN @ pending r \<Longrightarrow> accounted xs r ds"
  unfolding accounted_def by blast

lemma paddedFrames_append [simp]:
  "paddedFrames (fs @ [(k, t, p)]) = paddedFrames fs @ replicate k UNKNOWN @ t # p"
  by (simp add: paddedFrames_def)

lemma receive_padded:
  "list_all (packet_ok \<circ> snd) fs \<Longrightarrow> receive Idle (paddedFrames fs @ xs) = deliver (map snd fs) (receive Idle xs)"
proof (induction fs)
  case (Cons f fs)
  obtain k t p where f: "f = (k, t, p)" by (cases f) auto
  show ?case
    using Cons receive_frame [of t p "paddedFrames fs @ xs"] f by (simp add: paddedFrames_def receive_padding)
qed (simp add: paddedFrames_def)

lemma accounted_delivery:
  assumes acc: "accounted xs r ds" and ok: "packet_ok (t, p @ [x])" and r: "pending r = t # p"
  shows "accounted (xs @ [x]) Idle (ds @ [(t, p @ [x])])"
proof -
  obtain fs k where fs: "map snd fs = ds" "xs = paddedFrames fs @ replicate k UNKNOWN @ pending r" "list_all packet_ok ds"
    using acc unfolding accounted_def by blast
  show ?thesis
    by (rule accountedI [where fs = "fs @ [(k, t, p @ [x])]" and k = 0]) (use fs ok r in simp_all)
qed

lemma accounted_pending:
  assumes acc: "accounted xs r ds" and ok: "receiver_ok r'" and r: "pending r' = pending r @ [x]"
  shows "accounted (xs @ [x]) r' ds"
proof -
  obtain fs k where fs: "map snd fs = ds" "xs = paddedFrames fs @ replicate k UNKNOWN @ pending r" "list_all packet_ok ds"
    using acc unfolding accounted_def by blast
  show ?thesis by (rule accountedI [where fs = fs and k = k]) (use fs ok r in simp_all)
qed

lemma accounted_skip:
  assumes acc: "accounted xs Idle ds" shows "accounted (xs @ [UNKNOWN]) Idle ds"
proof -
  obtain fs k where fs: "map snd fs = ds" "xs = paddedFrames fs @ replicate k UNKNOWN" "list_all packet_ok ds"
    using acc unfolding accounted_def by auto
  show ?thesis
    by (rule accountedI [where fs = fs and k = "Suc k"]) (use fs in \<open>simp_all add: replicate_append_same\<close>)
qed

lemma accounted_byte:
  assumes acc: "accounted xs r ds" and step: "receiveByte r x = Some (r', ds')"
  shows "accounted (xs @ [x]) r' (ds @ ds')"
proof (cases r)
  case Idle
  then show ?thesis
    using step acc accounted_skip accounted_pending [of xs Idle ds "InHeader x []" x]
    by (auto simp: header_size_known split: if_splits option.splits)
next
  case (InHeader t h)
  have t: "t \<noteq> UNKNOWN" using acc InHeader by (simp add: accounted_def)
  obtain n where size: "element header_size_for_type (unat t) = Some n" using step InHeader by (auto split: option.splits)
  have less: "length h < n" using acc InHeader size by (simp add: accounted_def)
  show ?thesis
  proof (cases "length h + 1 < n")
    case True
    then show ?thesis using step InHeader size t accounted_pending [OF acc, of "InHeader t (h @ [x])" x] by auto
  next
    case False
    then have n: "n = length h + 1" using less by simp
    then obtain k where k: "HciGetPacketLengthForType t (h @ [x]) = Some k"
      using step InHeader size by (auto split: option.splits)
    show ?thesis
    proof (cases "k = 0")
      case True
      have "packet_ok (t, h @ [x])" using t size n k True by (simp add: packet_ok_def)
      then show ?thesis
        using step InHeader size n k True accounted_delivery [OF acc] by (auto simp: accounted_delivery [OF acc])
    next
      case False
      then show ?thesis
        using step InHeader size n k t accounted_pending [OF acc, of "InPayload t (h @ [x]) k" x] by auto
    qed
  qed
next
  case (InPayload t p k)
  obtain n where t: "t \<noteq> UNKNOWN" and size: "element header_size_for_type (unat t) = Some n" and k: "0 < k"
    and n: "n \<le> length p" "HciGetPacketLengthForType t (take n p) = Some (length p - n + k)"
    using acc InPayload by (auto simp: accounted_def split: option.splits)
  show ?thesis
  proof (cases "k \<le> 1")
    case True
    then have "packet_ok (t, p @ [x])" using t size n k by (auto simp: packet_ok_def Suc_diff_le)
    then show ?thesis using step InPayload True accounted_delivery [OF acc] by auto
  next
    case False
    then show ?thesis
      using step InPayload size t n accounted_pending [OF acc, of "InPayload t (p @ [x]) (k - 1)" x] by auto
  qed
qed

lemma receive_accounted: "receive Idle xs = Some (r, ds) \<Longrightarrow> accounted xs r ds"
proof (induction xs arbitrary: r ds rule: rev_induct)
  case Nil
  then show ?case by (intro accountedI [where fs = "[]" and k = 0]) (auto simp: paddedFrames_def)
next
  case (snoc x xs)
  then show ?case
    by (auto simp: receive_append intro: accounted_byte split: option.splits prod.splits)
qed

lemma length_of_header:
  assumes "element header_size_for_type (unat t) = Some (length h)" and "t \<noteq> UNKNOWN"
  shows "HciGetPacketLengthForType t h \<noteq> None"
proof -
  have "unat t < 6" using header_size_known [OF assms] by simp
  then have "t \<in> {COMMAND, ACL_DATA, SCO_DATA, EVENT, ISO_DATA}" by (rule packet_type_cases) (rule assms(2))
  then show ?thesis
    using assms(1) by (auto simp: HciGetPacketLengthForType_def element_def header_size_for_type_def packet_length_offset_for_type_def
        COMMAND_def ACL_DATA_def SCO_DATA_def EVENT_def ISO_DATA_def)
qed

lemma receiveByte_fails:
  assumes "receiver_ok r"
  shows "receiveByte r x = None \<longleftrightarrow> (\<exists>t. r = InHeader t [] \<and> 6 \<le> unat t)"
proof (cases r)
  case (InHeader t h)
  show ?thesis
  proof (cases "element header_size_for_type (unat t)")
    case None
    then show ?thesis using InHeader assms by (auto simp: element_def header_size_for_type_def split: if_splits)
  next
    case (Some n)
    have "unat t < 6" using Some by (simp add: element_def header_size_for_type_def split: if_splits)
    moreover have "n = length h + 1 \<Longrightarrow> HciGetPacketLengthForType t (h @ [x]) \<noteq> None"
      using length_of_header [of t "h @ [x]"] Some assms InHeader by simp
    moreover have "length h < n" using Some assms InHeader by simp
    ultimately show ?thesis using Some InHeader by (cases "n = length h + 1") (auto split: option.splits)
  qed
qed simp_all

lemma receive_fails:
  "receive Idle xs = None \<longleftrightarrow>
     (\<exists>fs k t b rest. list_all (packet_ok \<circ> snd) fs \<and> 6 \<le> unat t \<and>
        xs = paddedFrames fs @ replicate k UNKNOWN @ t # b # rest)"
proof
  assume "receive Idle xs = None"
  then show "\<exists>fs k t b rest. list_all (packet_ok \<circ> snd) fs \<and> 6 \<le> unat t \<and>
        xs = paddedFrames fs @ replicate k UNKNOWN @ t # b # rest"
  proof (induction xs rule: rev_induct)
    case (snoc x xs)
    show ?case
    proof (cases "receive Idle xs")
      case None
      then show ?thesis using snoc.IH by fastforce
    next
      case (Some result)
      then obtain r ds where r: "receive Idle xs = Some (r, ds)" by (cases result) auto
      then have acc: "accounted xs r ds" by (rule receive_accounted)
      have "receiveByte r x = None" using snoc.prems r by (auto simp: receive_append deliver_def split: option.splits)
      then obtain t where t: "r = InHeader t []" "6 \<le> unat t" using receiveByte_fails acc by (auto simp: accounted_def)
      obtain fs k where fs: "map snd fs = ds" "xs = paddedFrames fs @ replicate k UNKNOWN @ [t]" "list_all packet_ok ds"
        using acc t unfolding accounted_def by auto
      then have "list_all (packet_ok \<circ> snd) fs \<and> 6 \<le> unat t \<and>
          xs @ [x] = paddedFrames fs @ replicate k UNKNOWN @ t # x # []"
        using t by (auto simp: list.pred_map)
      then show ?thesis by blast
    qed
  qed simp
next
  assume "\<exists>fs k t b rest. list_all (packet_ok \<circ> snd) fs \<and> 6 \<le> unat t \<and>
        xs = paddedFrames fs @ replicate k UNKNOWN @ t # b # rest"
  then obtain fs k t b rest where fs: "list_all (packet_ok \<circ> snd) fs" and t: "6 \<le> unat t"
    and xs: "xs = paddedFrames fs @ replicate k UNKNOWN @ t # b # rest" by blast
  have "t \<noteq> UNKNOWN" using t by (auto simp: UNKNOWN_def)
  moreover have "element header_size_for_type (unat t) = None" using t by (simp add: element_def header_size_for_type_def)
  ultimately have "receive Idle (t # b # rest) = None" by simp
  then show "receive Idle xs = None" using fs unfolding xs by (simp add: receive_padded receive_padding)
qed

section \<open>The properties\<close>

text \<open>
  However the bytes are split into reads, the packets that the callbacks are given, in order,
  are those that the reference receiver of single bytes finds in the stream, and the disconnection is
  reported once, after them, when the stream ends; the code is undefined exactly when the reference fails.
\<close>

theorem packets_whatever_reads:
  "map_option snd (h4Run outcomes H4Protocol) =
     map_option (\<lambda>(r, ds). packetEvents ds @ (if Read [] \<in> set outcomes then [Disconnected] else []))
       (receive Idle (stream outcomes))"
  by (rule h4Run_start)

text \<open>
  Claim C34 (receiver_undefined). The receiver reads outside of its tables exactly when, after whole packets and skipped zeros, the
  stream has a type above five and a further byte.
\<close>

theorem receiver_undefined:
  "h4Run outcomes H4Protocol = None \<longleftrightarrow>
     (\<exists>fs k t b rest. list_all (packet_ok \<circ> snd) fs \<and> 6 \<le> unat t \<and>
        stream outcomes = paddedFrames fs @ replicate k UNKNOWN @ t # b # rest)"
proof -
  have "h4Run outcomes H4Protocol = None \<longleftrightarrow> receive Idle (stream outcomes) = None"
    by (metis h4Run_start option.map_disc_iff)
  then show ?thesis by (simp add: receive_fails)
qed

text \<open>
  Claim C35 (sent_bytes). What \<^verbatim>\<open>Send\<close> writes is the type of the packet and its bytes, in order and from the start, whatever
  parts the device takes, and no vector outside of the array is touched. The number that it returns is that of the bytes
  written when it gave up before the end, and a smaller one when it wrote everything: the last write is not counted.
\<close>

theorem sent_bytes:
  "case h4Send ws type data of
     Returned n wire \<Rightarrow> prefix wire (type # data) \<and> n \<le> length wire \<and> (n = length wire \<longleftrightarrow> wire \<noteq> type # data)
   | NotReturned wire \<Rightarrow> strict_prefix wire (type # data)
   | SendUndefined \<Rightarrow> False"
  using h4Send_invariant [of type data ws]
  by (auto simp: h4Send_def send_invariant_def Let_def split: send_result.splits dest: prefix_length_le)

text \<open>
  Claim C33 (sent_packets_received). Packets sent by one end, all of them written whole though in any parts, are
  delivered by the other end, in order and unchanged, however their bytes are split into reads.
\<close>

theorem sent_packets_received:
  assumes "list_all (\<lambda>(ws, t, p). packet_ok (t, p) \<and> length (sentBytes (h4Send ws t p)) = 1 + length p) sends"
    and "stream outcomes = concat (map (\<lambda>(ws, t, p). sentBytes (h4Send ws t p)) sends)"
    and "Read [] \<notin> set outcomes"
  shows "map_option snd (h4Run outcomes H4Protocol) = Some (map (\<lambda>(ws, t, p). Packet t p) sends)"
proof -
  have whole: "sentBytes (h4Send ws t p) = t # p" if l: "length (sentBytes (h4Send ws t p)) = 1 + length p" for ws t p
  proof -
    have "prefix (sentBytes (h4Send ws t p)) (t # p)"
      using sent_prefix [of ws t p] by simp
    then obtain zs where zs: "t # p = sentBytes (h4Send ws t p) @ zs" by (rule prefixE)
    from arg_cong [OF this, where f = length] have "zs = []" using l by simp
    then show ?thesis using zs by simp
  qed
  have "concat (map (\<lambda>(ws, t, p). sentBytes (h4Send ws t p)) sends) = frames (map snd sends)"
    using assms(1) by (induction sends) (auto simp: frames_def whole)
  moreover have "list_all packet_ok (map snd sends)" using assms(1) by (induction sends) auto
  ultimately have "receive Idle (stream outcomes) = Some (Idle, map snd sends)"
    using receive_frames [of "map snd sends" "[]"] assms(2) by simp
  then show ?thesis
    using assms(3) by (simp add: h4Run_start split_beta)
qed

lemma sent_packets_received_witness:
  "map_option snd (h4Run [Read [4, 14], ReadError, Read [1], Read [7, 2, 1, 0], Read [0, 0]] H4Protocol) =
     Some [Packet 4 [14, 1, 7], Packet 2 [1, 0, 0, 0]]"
proof -
  let ?sends = "[([Room 2, WriteAgain, Room 9], 4, [14, 1, 7]), ([Room 100], 2, [1, 0, 0, 0])] ::
      (write_outcome list \<times> PacketType \<times> byte list) list"
  let ?outcomes = "[Read [4, 14], ReadError, Read [1], Read [7, 2, 1, 0], Read [0, 0]]"
  have "list_all (\<lambda>(ws, t, p). packet_ok (t, p) \<and> length (sentBytes (h4Send ws t p)) = 1 + length p) ?sends"
    by code_simp
  moreover have "stream ?outcomes = concat (map (\<lambda>(ws, t, p). sentBytes (h4Send ws t p)) ?sends)" by code_simp
  moreover have "Read [] \<notin> set ?outcomes" by simp
  ultimately show ?thesis using sent_packets_received [of ?sends ?outcomes] by simp
qed

text \<open>A packet that the device takes in one write is written whole, and reported as not written at all.\<close>

lemma single_write_reported_as_nothing: "length data < k \<Longrightarrow> h4Send [Room k] type data = Returned 0 (type # data)"
  by (simp add: h4Send_def Let_def)

end
