(* ===== verification/Net_Bluetooth_Mgmt.thy ===== *)
theory Net_Bluetooth_Mgmt
  imports Hci_Packetizer
begin

text \<open>
  \<^verbatim>\<open>bluetooth/aidl/default/net_bluetooth_mgmt.cpp\<close>: the Linux interface of the controller, which is unblocked by rfkill, waited for
  on the control channel, and opened as a raw socket. What the system calls find is given; what the code does to descriptors
  and to rfkill is the list of its actions.
\<close>

datatype mgmt_action = CloseFd int | WriteRfkill "32 word" byte

section \<open>Waiting for the interface\<close>

text \<open>
  What a turn of the loop finds: \<^verbatim>\<open>poll\<close> interrupted, failing, or waking up without data; then a read that fails or an event, with
  its opcode, its index, and for the response to the command the indices it lists.
\<close>

datatype control_outcome =
    PollInterrupted
  | PollFails
  | Spurious
  | ControlReadFails
  | ControlEvent "16 word" "16 word" "16 word list"

record wait_outcomes =
  controlSocket :: int
  controlBound :: bool
  commandWritten :: bool
  controlEvents :: "control_outcome list"

definition MGMT_EV_CMD_COMPLETE :: "16 word" where "MGMT_EV_CMD_COMPLETE = 1"
definition MGMT_EV_INDEX_ADDED :: "16 word" where "MGMT_EV_INDEX_ADDED = 4"

text \<open>The exact interface is preferred, then the first larger one of the list.\<close>

definition findController :: "int \<Rightarrow> 16 word list \<Rightarrow> int option" where
  "findController hci_interface indices =
     (case find (\<lambda>i. uint i = hci_interface) indices of
        Some i \<Rightarrow> Some (uint i)
      | None \<Rightarrow> map_option uint (find (\<lambda>i. uint i \<ge> hci_interface) indices))"

text \<open>The loop: \<open>None\<close> while it waits.\<close>

fun waitLoop :: "int \<Rightarrow> control_outcome list \<Rightarrow> int option" where
  "waitLoop hci_interface [] = None"
| "waitLoop hci_interface (PollInterrupted # os) = waitLoop hci_interface os"
| "waitLoop hci_interface (PollFails # os) = Some (- 1)"
| "waitLoop hci_interface (Spurious # os) = waitLoop hci_interface os"
| "waitLoop hci_interface (ControlReadFails # os) = Some (- 1)"
| "waitLoop hci_interface (ControlEvent opcode index indices # os) =
     (case (if opcode = MGMT_EV_CMD_COMPLETE then findController hci_interface indices else None) of
        Some i \<Rightarrow> Some i
      | None \<Rightarrow>
          if opcode = MGMT_EV_INDEX_ADDED \<and> uint index = hci_interface then Some hci_interface
          else waitLoop hci_interface os)"

definition waitHciDev :: "int \<Rightarrow> wait_outcomes \<Rightarrow> (int \<times> mgmt_action list) option" where
  "waitHciDev hci_interface env =
     (if controlSocket env < 0 then Some (- 1, [])
      else if \<not> controlBound env then Some (- 1, [CloseFd (controlSocket env)])
      else if \<not> commandWritten env then Some (- 1, [CloseFd (controlSocket env)])
      else map_option (\<lambda>ret. (ret, [CloseFd (controlSocket env)])) (waitLoop hci_interface (controlEvents env)))"

section \<open>Rfkill\<close>

text \<open>The device does not block: when it has no further event, the read fails.\<close>

record rfkill_event =
  rfkill_idx :: "32 word"
  rfkill_type :: byte
  rfkill_op :: byte

record rfkill_outcomes =
  rfkillOpened :: int
  rfkillNonBlocking :: bool
  rfkillEvents :: "rfkill_event list"

record NetBluetoothMgmt =
  rfkill_bt_index :: "32 word"
  rfkill_fd :: int
  bt_fd :: int

definition newNetBluetoothMgmt :: NetBluetoothMgmt where
  "newNetBluetoothMgmt = \<lparr>rfkill_bt_index = - 1, rfkill_fd = - 1, bt_fd = - 1\<rparr>"

definition RFKILL_OP_ADD :: byte where "RFKILL_OP_ADD = 0"
definition RFKILL_TYPE_BLUETOOTH :: byte where "RFKILL_TYPE_BLUETOOTH = 2"

definition openRfkill :: "rfkill_outcomes \<Rightarrow> NetBluetoothMgmt \<Rightarrow> NetBluetoothMgmt \<times> mgmt_action list" where
  "openRfkill env m =
     (let fd = rfkillOpened env
      in if fd < 0 then (m, [])
         else if \<not> rfkillNonBlocking env then (m, [CloseFd fd])
         else (case find (\<lambda>e. rfkill_op e = RFKILL_OP_ADD \<and> rfkill_type e = RFKILL_TYPE_BLUETOOTH) (rfkillEvents env) of
             Some e \<Rightarrow> (m\<lparr>rfkill_bt_index := rfkill_idx e, rfkill_fd := fd\<rparr>, [])
           | None \<Rightarrow> (m, [CloseFd fd])))"

definition rfkill :: "byte \<Rightarrow> rfkill_outcomes \<Rightarrow> NetBluetoothMgmt \<Rightarrow> NetBluetoothMgmt \<times> mgmt_action list" where
  "rfkill block env m =
     (let (m, acts) = (if rfkill_fd m = - 1 then openRfkill env m else (m, []))
      in if rfkill_fd m = - 1 then (m, acts) else (m, acts @ [WriteRfkill (rfkill_bt_index m) block]))"

section \<open>Opening and closing the interface\<close>

record hci_outcomes =
  rfkillEnv :: rfkill_outcomes
  waitEnv :: wait_outcomes
  rawSocket :: int
  rawBound :: bool

text \<open>\<^verbatim>\<open>openHci\<close>, for the interface 0 that the service asks for: \<open>None\<close> while it waits for the interface.\<close>

definition openHci :: "int \<Rightarrow> hci_outcomes \<Rightarrow> NetBluetoothMgmt \<Rightarrow> (int \<times> NetBluetoothMgmt \<times> mgmt_action list) option" where
  "openHci hci_interface env m =
     (let (m, acts) = rfkill 0 (rfkillEnv env) m
      in case waitHciDev hci_interface (waitEnv env) of
           None \<Rightarrow> None
         | Some (hci, closes) \<Rightarrow>
             if hci < 0 then Some (- 1, m, acts @ closes)
             else if rawSocket env < 0 then Some (- 1, m, acts @ closes)
             else if \<not> rawBound env then Some (- 1, m, acts @ closes @ [CloseFd (rawSocket env)])
             else Some (rawSocket env, m\<lparr>bt_fd := rawSocket env\<rparr>, acts @ closes))"

definition closeHci :: "rfkill_outcomes \<Rightarrow> NetBluetoothMgmt \<Rightarrow> NetBluetoothMgmt \<times> mgmt_action list" where
  "closeHci env m =
     (let (m, closes) = (if bt_fd m \<noteq> - 1 then (m\<lparr>bt_fd := - 1\<rparr>, [CloseFd (bt_fd m)]) else (m, []));
          (m, acts) = rfkill 1 env m
      in (m, closes @ acts))"

definition destroyNetBluetoothMgmt :: "NetBluetoothMgmt \<Rightarrow> mgmt_action list" where
  "destroyNetBluetoothMgmt m = [CloseFd (rfkill_fd m), CloseFd (bt_fd m)]"

text \<open>The interface that is found is the one asked for, or a larger one when a listing has not the one asked for.\<close>

lemma findController_found:
  "findController i indices = Some j \<Longrightarrow> i \<le> j \<and> j \<in> uint ` set indices \<and> (i \<in> uint ` set indices \<longrightarrow> j = i)"
  by (auto simp: findController_def find_Some_iff find_None_iff split: option.splits)

lemma waitLoop_found:
  "waitLoop i os = Some j \<Longrightarrow> j = - 1 \<or> i \<le> j"
  by (induction i os rule: waitLoop.induct) (auto split: option.splits if_splits dest: findController_found)

lemma openHci_descriptor:
  "openHci i env m = Some (fd, m', acts) \<Longrightarrow>
     (fd = - 1 \<and> bt_fd m' = bt_fd m) \<or> (0 \<le> fd \<and> fd = rawSocket env \<and> bt_fd m' = fd \<and> rawBound env)"
  by (auto simp: openHci_def rfkill_def openRfkill_def Let_def split: option.splits if_splits prod.splits)

end
