(* ===== verification/Bluetooth_Service.thy ===== *)
theory Bluetooth_Service
  imports H4_Protocol Net_Bluetooth_Mgmt
begin

text \<open>
  The AIDL service \<^verbatim>\<open>bluetooth/aidl/default/BluetoothHci.cpp\<close> over \<^verbatim>\<open>H4Protocol\<close> and \<^verbatim>\<open>NetBluetoothMgmt\<close>. A client is a number.
  Each operation gives the new state and the list of what it did; \<open>None\<close> is an abort of the process, and an \<open>initialize\<close> that
  never returns. The operations run one after the other: the state \<open>INITIALIZING\<close> is seen by the lemmas on concurrent calls only.
\<close>

datatype HalState = READY | INITIALIZING | ONE_CLIENT | CLOSING

datatype bt_status = SUCCESS | ALREADY_INITIALIZED | UNABLE_TO_OPEN_INTERFACE

datatype bt_action =
    InitializationComplete nat bt_status
  | PacketReceived nat PacketType "byte list"
  | WatchFd int
  | StopWatching
  | Wrote int "byte list"
  | Mgmt mgmt_action

record BluetoothHci =
  mState :: HalState
  mFd :: int
  mCb :: "nat option"
  mH4 :: "h4_protocol option"
  management :: "NetBluetoothMgmt option"

definition newBluetoothHci :: BluetoothHci where
  "newBluetoothHci = \<lparr>mState = READY, mFd = - 1, mCb = None, mH4 = None, management = None\<rparr>"

section \<open>Closing\<close>

text \<open>The code says that it is already closed, and goes on.\<close>

definition btClose :: "rfkill_outcomes \<Rightarrow> BluetoothHci \<Rightarrow> (BluetoothHci \<times> bt_action list) option" where
  "btClose env s =
     (if mState s = INITIALIZING then None
      else
        let (m, closes) =
          (case management s of
             Some m \<Rightarrow> (let (m, acts) = closeHci env m in (Some m, acts))
           | None \<Rightarrow> (None, [CloseFd (mFd s)]))
        in Some (s\<lparr>mState := READY, management := m, mH4 := None\<rparr>, StopWatching # map Mgmt closes))"

definition clientDied :: "rfkill_outcomes \<Rightarrow> BluetoothHci \<Rightarrow> (BluetoothHci \<times> bt_action list) option" where
  "clientDied env s = btClose env s"

section \<open>Sending\<close>

definition btSend :: "write_outcome list \<Rightarrow> PacketType \<Rightarrow> byte list \<Rightarrow> BluetoothHci \<Rightarrow> (BluetoothHci \<times> bt_action list) option" where
  "btSend ws type v s =
     (if v = [] then None
      else if mH4 s = None then None
      else (case h4Send ws type v of
          Returned n wire \<Rightarrow> Some (s, [Wrote (mFd s) wire])
        | NotReturned wire \<Rightarrow> None
        | SendUndefined \<Rightarrow> None))"

definition sendHciCommand where "sendHciCommand ws packet = btSend ws COMMAND packet"
definition sendAclData where "sendAclData ws packet = btSend ws ACL_DATA packet"
definition sendScoData where "sendScoData ws packet = btSend ws SCO_DATA packet"
definition sendIsoData where "sendIsoData ws packet = btSend ws ISO_DATA packet"

section \<open>The reset on emulators\<close>

text \<open>
  The command and the event that completes it, whose number of packets is not compared. The outcomes are those of
  the reads before the second has passed; the callback that sets the promise a second time ends the process.
\<close>

definition resetCommand :: "byte list" where "resetCommand = [3, 12, 0]"

definition isResetComplete :: "byte list \<Rightarrow> bool" where
  "isResetComplete raw_event \<longleftrightarrow> length raw_event = 6 \<and> raw_event ! 0 = 14 \<and> raw_event ! 1 = 4 \<and>
     raw_event ! 3 = 3 \<and> raw_event ! 4 = 12 \<and> raw_event ! 5 = 0"

fun resetAnswered :: "h4_event \<Rightarrow> bool" where
  "resetAnswered (Packet t p) \<longleftrightarrow> t = EVENT \<and> isResetComplete p"
| "resetAnswered Disconnected \<longleftrightarrow> False"

definition btReset ::
  "write_outcome list \<Rightarrow> read_outcome list \<Rightarrow> BluetoothHci \<Rightarrow> (BluetoothHci \<times> bt_action list) option" where
  "btReset ws outcomes s =
     (case btSend ws COMMAND resetCommand (s\<lparr>mH4 := Some H4Protocol\<rparr>) of
        None \<Rightarrow> None
      | Some (_, acts) \<Rightarrow>
          (case h4Run outcomes H4Protocol of
             None \<Rightarrow> None
           | Some (h, events) \<Rightarrow>
               if length (filter resetAnswered events) > 1 then None
               else Some (s\<lparr>mH4 := Some h\<rparr>,
                 WatchFd (mFd s) # acts @ map (\<lambda>_. StopWatching) (filter (\<lambda>e. e = Disconnected) events) @ [StopWatching])))"

section \<open>Initialization\<close>

text \<open>What the opening finds, the descriptor of the device path, the board, and what a reset meets.\<close>

record init_env =
  closeEnv :: rfkill_outcomes
  hciEnv :: hci_outcomes
  devicePathFd :: int
  boardName :: "string option"
  resetWrites :: "write_outcome list"
  resetReads :: "read_outcome list"

definition starts_with :: "string \<Rightarrow> string \<Rightarrow> bool" where
  "starts_with str pre \<longleftrightarrow> take (length pre) str = pre"

definition isEmulator :: "string option \<Rightarrow> bool" where
  "isEmulator board \<longleftrightarrow> (case board of
     None \<Rightarrow> False
   | Some name \<Rightarrow> starts_with name ''cutf'' \<or> starts_with name ''goldfish'')"

text \<open>The first part, up to the check of the state; a null callback aborts.\<close>

definition initializeBegin :: "nat option \<Rightarrow> init_env \<Rightarrow> BluetoothHci \<Rightarrow> (BluetoothHci \<times> bt_action list) option" where
  "initializeBegin cb env s =
     (case cb of
        None \<Rightarrow> None
      | Some c \<Rightarrow>
          if mState s \<noteq> READY then
            map_option (\<lambda>(s, acts). (s, acts @ [InitializationComplete c ALREADY_INITIALIZED])) (btClose (closeEnv env) s)
          else Some (s\<lparr>mState := INITIALIZING\<rparr>, []))"

text \<open>Opening the interface, and the device path when there is none.\<close>

definition initializeOpen :: "nat \<Rightarrow> init_env \<Rightarrow> BluetoothHci \<Rightarrow> (BluetoothHci \<times> bt_action list) option" where
  "initializeOpen c env s =
     (let destroyed = (case management s of None \<Rightarrow> [] | Some m \<Rightarrow> destroyNetBluetoothMgmt m)
      in case openHci 0 (hciEnv env) newNetBluetoothMgmt of
           None \<Rightarrow> None
         | Some (fd, m, acts) \<Rightarrow>
             let s = s\<lparr>mCb := Some c, mFd := fd, management := Some m\<rparr>; acts0 = map Mgmt (destroyed @ acts)
             in if fd < 0 then
                  let s = s\<lparr>management := None, mFd := devicePathFd env\<rparr>; acts0 = acts0 @ map Mgmt (destroyNetBluetoothMgmt m)
                  in if mFd s < 0 then
                       Some (s\<lparr>mState := READY\<rparr>, acts0 @ [InitializationComplete c UNABLE_TO_OPEN_INTERFACE])
                     else Some (s, acts0)
                else Some (s, acts0))"

definition initializeFinish :: "nat \<Rightarrow> init_env \<Rightarrow> BluetoothHci \<Rightarrow> (BluetoothHci \<times> bt_action list) option" where
  "initializeFinish c env s =
     (case (if isEmulator (boardName env) then btReset (resetWrites env) (resetReads env) s else Some (s, [])) of
        None \<Rightarrow> None
      | Some (s, acts) \<Rightarrow>
          Some (s\<lparr>mH4 := Some H4Protocol, mState := ONE_CLIENT\<rparr>,
            acts @ [WatchFd (mFd s), InitializationComplete c SUCCESS]))"

definition bindActs ::
  "(BluetoothHci \<times> bt_action list) option \<Rightarrow> (BluetoothHci \<Rightarrow> (BluetoothHci \<times> bt_action list) option) \<Rightarrow>
     (BluetoothHci \<times> bt_action list) option" where
  "bindActs x f = (case x of None \<Rightarrow> None | Some (s, acts) \<Rightarrow> map_option (\<lambda>(s', acts'). (s', acts @ acts')) (f s))"

definition btInitialize :: "nat option \<Rightarrow> init_env \<Rightarrow> BluetoothHci \<Rightarrow> (BluetoothHci \<times> bt_action list) option" where
  "btInitialize cb env s =
     bindActs (initializeBegin cb env s) (\<lambda>s. bindActs (initializeOpen (the cb) env s) (initializeFinish (the cb) env))"

section \<open>The descriptor is ready\<close>

text \<open>
  The callbacks of \<^verbatim>\<open>initialize\<close>: a packet goes to the client, a command ends the process, and at a disconnection the service stops to watch.
\<close>

fun h4Callback :: "BluetoothHci \<Rightarrow> h4_event \<Rightarrow> bt_action option" where
  "h4Callback s (Packet t p) = (if t = COMMAND then None else map_option (\<lambda>c. PacketReceived c t p) (mCb s))"
| "h4Callback s Disconnected = Some StopWatching"

definition btReadable :: "read_outcome \<Rightarrow> BluetoothHci \<Rightarrow> (BluetoothHci \<times> bt_action list) option" where
  "btReadable outcome s =
     (case mH4 s of
        None \<Rightarrow> None
      | Some h \<Rightarrow>
          (case h4OnDataReady outcome h of
             None \<Rightarrow> None
           | Some (h', events) \<Rightarrow> map_option (\<lambda>acts. (s\<lparr>mH4 := Some h'\<rparr>, acts)) (those (map (h4Callback s) events))))"

section \<open>Runs of the service\<close>

datatype bt_operation =
    Initialize "nat option" init_env
  | Close rfkill_outcomes
  | ClientDied rfkill_outcomes
  | Send "write_outcome list" PacketType "byte list"
  | Readable read_outcome

fun btStep :: "bt_operation \<Rightarrow> BluetoothHci \<Rightarrow> (BluetoothHci \<times> bt_action list) option" where
  "btStep (Initialize cb env) = btInitialize cb env"
| "btStep (Close env) = btClose env"
| "btStep (ClientDied env) = clientDied env"
| "btStep (Send ws type v) = btSend ws type v"
| "btStep (Readable outcome) = btReadable outcome"

fun btRun :: "bt_operation list \<Rightarrow> BluetoothHci \<Rightarrow> (BluetoothHci \<times> bt_action list) option" where
  "btRun [] s = Some (s, [])"
| "btRun (op # ops) s = bindActs (btStep op s) (btRun ops)"

definition bt_wf :: "BluetoothHci \<Rightarrow> bool" where
  "bt_wf s \<longleftrightarrow> mState s \<in> {READY, ONE_CLIENT} \<and> (mState s = ONE_CLIENT \<longleftrightarrow> mH4 s \<noteq> None) \<and>
     (mState s = ONE_CLIENT \<longrightarrow> mCb s \<noteq> None)"

lemma bindActs_Some:
  "bindActs x f = Some (s, acts) \<longleftrightarrow>
     (\<exists>s1 acts1 acts2. x = Some (s1, acts1) \<and> f s1 = Some (s, acts2) \<and> acts = acts1 @ acts2)"
  by (auto simp: bindActs_def split: option.splits)

lemma btClose_wf: "btClose env s = Some (s', acts) \<Longrightarrow> mState s' = READY \<and> mH4 s' = None"
  by (auto simp: btClose_def Let_def split: if_splits prod.splits)

lemma btReset_keeps: "btReset ws os s = Some (s', acts) \<Longrightarrow> mFd s' = mFd s \<and> mCb s' = mCb s"
  by (auto simp: btReset_def split: option.splits if_splits)

lemma initializeFinish_result:
  "initializeFinish c env s = Some (s', acts) \<Longrightarrow>
     mState s' = ONE_CLIENT \<and> mH4 s' = Some H4Protocol \<and> mCb s' = mCb s \<and> mFd s' = mFd s \<and>
     last acts = InitializationComplete c SUCCESS \<and> WatchFd (mFd s') \<in> set acts"
  by (auto simp: initializeFinish_def split: option.splits if_splits dest: btReset_keeps)

lemma initializeOpen_client: "initializeOpen c env s = Some (s', acts) \<Longrightarrow> mCb s' = Some c"
  by (auto simp: initializeOpen_def Let_def split: option.splits if_splits)

lemma btInitialize_parts:
  assumes "btInitialize cb env s = Some (s', acts)"
  obtains c s1 s2 acts1 acts2 acts3 where "cb = Some c"
    and "initializeBegin (Some c) env s = Some (s1, acts1)" and "initializeOpen c env s1 = Some (s2, acts2)"
    and "initializeFinish c env s2 = Some (s', acts3)" and "acts = acts1 @ acts2 @ acts3"
proof (cases cb)
  case None
  then show ?thesis using assms by (simp add: btInitialize_def initializeBegin_def bindActs_def)
next
  case (Some c)
  then show ?thesis using assms that by (auto simp: btInitialize_def bindActs_Some)
qed

lemma btInitialize_state:
  assumes "btInitialize cb env s = Some (s', acts)"
  shows "mState s' = ONE_CLIENT \<and> mH4 s' = Some H4Protocol \<and> (\<exists>c. cb = Some c \<and> mCb s' = Some c)"
proof -
  obtain c s2 acts2 acts3 where c: "cb = Some c" and client: "mCb s2 = Some c"
    and finish: "initializeFinish c env s2 = Some (s', acts3)"
    using assms initializeOpen_client by (elim btInitialize_parts) blast
  show ?thesis using initializeFinish_result [OF finish] client c by simp
qed

lemma btStep_wf: "bt_wf s \<Longrightarrow> btStep op s = Some (s', acts) \<Longrightarrow> bt_wf s'"
proof (cases op)
  case (Initialize cb env)
  assume "btStep op s = Some (s', acts)"
  then have "btInitialize cb env s = Some (s', acts)" using Initialize by simp
  then show ?thesis by (auto simp: bt_wf_def dest: btInitialize_state)
qed (auto simp: bt_wf_def clientDied_def btSend_def btReadable_def dest: btClose_wf split: option.splits if_splits send_answer.splits)

lemma btRun_wf: "bt_wf s \<Longrightarrow> btRun ops s = Some (s', acts) \<Longrightarrow> bt_wf s'"
  by (induction ops arbitrary: s acts) (auto simp: bindActs_Some dest: btStep_wf)

lemma newBluetoothHci_wf: "bt_wf newBluetoothHci"
  by (simp add: bt_wf_def newBluetoothHci_def)

text \<open>A call that meets an initialization in another thread ends the process.\<close>

lemma concurrent_initialization_aborts:
  "mState s = INITIALIZING \<Longrightarrow> btClose env s = None \<and> btInitialize cb ienv s = None"
  by (cases cb) (simp_all add: btClose_def btInitialize_def initializeBegin_def bindActs_def)

section \<open>The packets of a session\<close>

fun isPacket :: "bt_action \<Rightarrow> bool" where
  "isPacket (PacketReceived c t p) = True"
| "isPacket _ = False"

text \<open>The operations of a client between its \<^verbatim>\<open>initialize\<close> and its \<^verbatim>\<open>close\<close>, and the outcomes of the reads.\<close>

fun inSession :: "bt_operation \<Rightarrow> bool" where
  "inSession (Send ws type v) = True"
| "inSession (Readable outcome) = True"
| "inSession _ = False"

fun readOutcomes :: "bt_operation list \<Rightarrow> read_outcome list" where
  "readOutcomes [] = []"
| "readOutcomes (Readable outcome # ops) = outcome # readOutcomes ops"
| "readOutcomes (_ # ops) = readOutcomes ops"

fun received :: "nat \<Rightarrow> h4_event list \<Rightarrow> bt_action list" where
  "received c [] = []"
| "received c (Packet t p # es) = PacketReceived c t p # received c es"
| "received c (Disconnected # es) = received c es"

lemma received_append: "received c (es @ es') = received c es @ received c es'"
  by (induction c es rule: received.induct) simp_all

lemma received_packetEvents: "received c (packetEvents ds) = map (\<lambda>(t, p). PacketReceived c t p) ds"
  by (induction ds) auto

lemma callbacks_received:
  "mCb s = Some c \<Longrightarrow> those (map (h4Callback s) es) = Some acts \<Longrightarrow>
     filter isPacket acts = received c es \<and> (\<forall>p. Packet COMMAND p \<notin> set es)"
proof (induction es arbitrary: acts)
  case (Cons e es)
  then show ?case by (cases e) (auto split: if_splits option.splits)
qed simp

lemma session_run:
  "mCb s = Some c \<Longrightarrow> mH4 s = Some h \<Longrightarrow> list_all inSession ops \<Longrightarrow> btRun ops s = Some (s', acts) \<Longrightarrow>
     \<exists>h' es. h4Run (readOutcomes ops) h = Some (h', es) \<and> filter isPacket acts = received c es \<and>
       (\<forall>p. Packet COMMAND p \<notin> set es)"
proof (induction ops arbitrary: s h acts)
  case (Cons op ops)
  obtain s1 acts1 acts2 where step: "btStep op s = Some (s1, acts1)" and run: "btRun ops s1 = Some (s', acts2)"
    and acts: "acts = acts1 @ acts2" using Cons.prems(4) by (auto simp: bindActs_Some)
  show ?case
  proof (cases op)
    case (Send ws type v)
    then have "s1 = s" and "filter isPacket acts1 = []"
      using step by (auto simp: btSend_def split: if_splits send_answer.splits)
    then show ?thesis using Cons.IH [OF Cons.prems(1,2) _ run [unfolded \<open>s1 = s\<close>]] Cons.prems(3) acts Send by auto
  next
    case (Readable outcome)
    obtain h1 es where data: "h4OnDataReady outcome h = Some (h1, es)" and s1: "s1 = s\<lparr>mH4 := Some h1\<rparr>"
      and calls: "those (map (h4Callback s) es) = Some acts1"
      using step Readable Cons.prems(2) by (auto simp: btReadable_def split: option.splits)
    have "\<exists>h' es. h4Run (readOutcomes ops) h1 = Some (h', es) \<and> filter isPacket acts2 = received c es \<and>
        (\<forall>p. Packet COMMAND p \<notin> set es)"
      by (rule Cons.IH [OF _ _ _ run]) (use s1 Cons.prems in simp_all)
    then show ?thesis
      using data callbacks_received [OF Cons.prems(1) calls] Readable acts by (auto simp: received_append)
  qed (use Cons.prems in auto)
qed simp

text \<open>What the parts of \<^verbatim>\<open>initialize\<close> report.\<close>

lemma begin_reports:
  "initializeBegin (Some c) env s = Some (s', acts) \<Longrightarrow>
     InitializationComplete c x \<in> set acts \<longleftrightarrow> x = ALREADY_INITIALIZED \<and> mState s \<noteq> READY"
  by (auto simp: initializeBegin_def btClose_def Let_def split: if_splits prod.splits)

lemma open_reports:
  "initializeOpen c env s = Some (s', acts) \<Longrightarrow>
     InitializationComplete c x \<in> set acts \<longleftrightarrow> x = UNABLE_TO_OPEN_INTERFACE \<and> mFd s' < 0"
  by (auto simp: initializeOpen_def Let_def split: option.splits if_splits)

lemma finish_reports:
  "initializeFinish c env s = Some (s', acts) \<Longrightarrow> InitializationComplete c x \<in> set acts \<longleftrightarrow> x = SUCCESS"
  by (auto simp: initializeFinish_def btReset_def btSend_def split: option.splits if_splits send_answer.splits)

lemma initialize_delivers_nothing:
  assumes "btInitialize cb env s = Some (s', acts)" shows "filter isPacket acts = []"
  using assms
proof (rule btInitialize_parts)
  fix c s1 s2 acts1 acts2 acts3
  assume "initializeBegin (Some c) env s = Some (s1, acts1)" and "initializeOpen c env s1 = Some (s2, acts2)"
    and "initializeFinish c env s2 = Some (s', acts3)" and "acts = acts1 @ acts2 @ acts3"
  moreover from this have "filter isPacket acts1 = []"
    by (auto simp: initializeBegin_def btClose_def filter_empty_conv Let_def split: if_splits prod.splits)
  moreover from calculation have "filter isPacket acts2 = []"
    by (auto simp: initializeOpen_def filter_empty_conv Let_def split: option.splits if_splits)
  moreover from calculation have "filter isPacket acts3 = []"
    by (auto simp: initializeFinish_def btReset_def btSend_def filter_empty_conv
        split: option.splits if_splits send_answer.splits)
  ultimately show ?thesis by simp
qed

section \<open>The properties\<close>

text \<open>
  Claim C37 (initialize_reports_success). Every call of \<^verbatim>\<open>initialize\<close> that returns leaves the service with this client, watches the
  descriptor it has, and reports \<open>SUCCESS\<close> to it at the end: also after it reported \<open>ALREADY_INITIALIZED\<close>, which it does exactly when another
  client was there, and after it reported \<open>UNABLE_TO_OPEN_INTERFACE\<close>, which it does exactly when there is no descriptor.
\<close>

theorem initialize_reports_success:
  assumes "btInitialize cb env s = Some (s', acts)"
  shows "\<exists>c. cb = Some c \<and> mState s' = ONE_CLIENT \<and> mCb s' = Some c \<and> WatchFd (mFd s') \<in> set acts \<and>
     last acts = InitializationComplete c SUCCESS \<and>
     (InitializationComplete c ALREADY_INITIALIZED \<in> set acts \<longleftrightarrow> mState s \<noteq> READY) \<and>
     (InitializationComplete c UNABLE_TO_OPEN_INTERFACE \<in> set acts \<longleftrightarrow> mFd s' < 0)"
  using assms
proof (rule btInitialize_parts)
  fix c s1 s2 acts1 acts2 acts3
  assume cb: "cb = Some c" and begins: "initializeBegin (Some c) env s = Some (s1, acts1)"
    and opens: "initializeOpen c env s1 = Some (s2, acts2)"
    and finishes: "initializeFinish c env s2 = Some (s', acts3)" and acts: "acts = acts1 @ acts2 @ acts3"
  have "acts3 \<noteq> []" using finish_reports [OF finishes, of SUCCESS] by auto
  then show ?thesis
    using btInitialize_state [OF assms] initializeFinish_result [OF finishes] cb
    by (auto simp add: acts begin_reports [OF begins] open_reports [OF opens] finish_reports [OF finishes])
qed

text \<open>
  Claim C32 (session_packets). From its \<^verbatim>\<open>initialize\<close> on, as long as no operation ends the session, a client is given, in order and each once,
  exactly the packets that the reference receiver finds in the bytes read since, however they were split into reads
  and whatever was sent in between, and no packet of them is a command.
\<close>

theorem session_packets:
  assumes "btRun (Initialize (Some c) env # ops) s = Some (s', acts)" and "list_all inSession ops"
  shows "\<exists>r ds. receive Idle (stream (readOutcomes ops)) = Some (r, ds) \<and>
     filter isPacket acts = map (\<lambda>(t, p). PacketReceived c t p) ds \<and> COMMAND \<notin> fst ` set ds"
proof -
  obtain s1 acts1 acts2 where start: "btInitialize (Some c) env s = Some (s1, acts1)"
    and run: "btRun ops s1 = Some (s', acts2)" and acts: "acts = acts1 @ acts2"
    using assms(1) by (auto simp: bindActs_Some)
  obtain h es where data: "h4Run (readOutcomes ops) H4Protocol = Some (h, es)"
    and got: "filter isPacket acts2 = received c es" and nocommand: "\<forall>p. Packet COMMAND p \<notin> set es"
    using session_run [OF _ _ assms(2) run, of c H4Protocol] btInitialize_state [OF start] by auto
  obtain r ds where ref: "receive Idle (stream (readOutcomes ops)) = Some (r, ds)"
    and es: "es = packetEvents ds @ (if Read [] \<in> set (readOutcomes ops) then [Disconnected] else [])"
    using h4Run_start [of "readOutcomes ops"] data by (auto simp: map_option_case split: option.splits)
  have "filter isPacket acts1 = []" by (rule initialize_delivers_nothing [OF start])
  moreover have "received c es = map (\<lambda>(t, p). PacketReceived c t p) ds"
    by (simp add: es received_append received_packetEvents)
  moreover have "COMMAND \<notin> fst ` set ds" using nocommand es by force
  ultimately show ?thesis using ref acts got by simp
qed

text \<open>A machine without a Bluetooth socket, and with or without the device of the path.\<close>

definition pathOnly :: "int \<Rightarrow> init_env" where
  "pathOnly fd = \<lparr>closeEnv = \<lparr>rfkillOpened = - 1, rfkillNonBlocking = False, rfkillEvents = []\<rparr>,
     hciEnv = \<lparr>rfkillEnv = \<lparr>rfkillOpened = - 1, rfkillNonBlocking = False, rfkillEvents = []\<rparr>,
       waitEnv = \<lparr>controlSocket = - 1, controlBound = False, commandWritten = False, controlEvents = []\<rparr>,
       rawSocket = - 1, rawBound = False\<rparr>,
     devicePathFd = fd, boardName = Some ''cheets'', resetWrites = [], resetReads = []\<rparr>"

lemma initialize_reports_success_witness:
  "\<exists>s' acts. btInitialize (Some 7) (pathOnly (- 1)) newBluetoothHci = Some (s', acts) \<and> mState s' = ONE_CLIENT \<and>
     mFd s' < 0 \<and> WatchFd (mFd s') \<in> set acts \<and> InitializationComplete 7 UNABLE_TO_OPEN_INTERFACE \<in> set acts \<and>
     last acts = InitializationComplete 7 SUCCESS"
proof -
  have "map_option (\<lambda>(s', acts). mFd s' < 0) (btInitialize (Some 7) (pathOnly (- 1)) newBluetoothHci) = Some True"
    by code_simp
  then obtain s' acts where init: "btInitialize (Some 7) (pathOnly (- 1)) newBluetoothHci = Some (s', acts)" and "mFd s' < 0"
    by auto
  then show ?thesis using initialize_reports_success [OF init] by auto
qed

lemma session_packets_witness:
  "\<exists>s' acts. btRun [Initialize (Some 7) (pathOnly 5), Readable (Read [4, 14]), Send [Room 9] COMMAND [3, 12, 0],
       Readable (Read [1, 7, 0])] newBluetoothHci = Some (s', acts) \<and>
     filter isPacket acts = [PacketReceived 7 4 [14, 1, 7]]"
proof -
  let ?ops = "[Readable (Read [4, 14]), Send [Room 9] COMMAND [3, 12, 0], Readable (Read [1, 7, 0])]"
  have "btRun (Initialize (Some 7) (pathOnly 5) # ?ops) newBluetoothHci \<noteq> None" by code_simp
  then obtain s' acts where run: "btRun (Initialize (Some 7) (pathOnly 5) # ?ops) newBluetoothHci = Some (s', acts)" by auto
  have "receive Idle (stream (readOutcomes ?ops)) = Some (Idle, [(4, [14, 1, 7])])" by code_simp
  then show ?thesis using session_packets [OF run] run by auto
qed

text \<open>A second \<^verbatim>\<open>close\<close> closes the descriptor of the device path again, whatever it stands for by then.\<close>

lemma second_close_closes_again:
  assumes "management s = None" and "mState s \<noteq> INITIALIZING"
  shows "\<exists>s'. btRun [Close env, Close env'] s =
     Some (s', [StopWatching, Mgmt (CloseFd (mFd s)), StopWatching, Mgmt (CloseFd (mFd s))])"
  using assms by (simp add: bindActs_def btClose_def)

end
