(* ===== verification/Hci_Legacy.thy ===== *)
theory Hci_Legacy
  imports H4_Protocol
begin

text \<open>
  The transport of the HIDL service, \<^verbatim>\<open>bluetooth/1.0/default\<close>: \<^verbatim>\<open>hci_packetizer.cc\<close>, which reads from the descriptor itself and
  as many bytes as it needs next, \<^verbatim>\<open>h4_protocol.cc\<close>, \<^verbatim>\<open>mct_protocol.cc\<close> and \<^verbatim>\<open>hci_protocol.cc\<close>. \<open>None\<close> is an abort by
  \<^verbatim>\<open>LOG_ALWAYS_FATAL\<close> and an access outside of a table.
\<close>

section \<open>The packetizer\<close>

text \<open>
  What a \<^verbatim>\<open>read\<close> finds: up to a number of bytes of those sent to the descriptor, or an error. A read of no bytes, and one at
  the end of the stream, gives no bytes.
\<close>

datatype fd_outcome = Upto nat | ReadFails

definition readFd :: "nat \<Rightarrow> nat \<Rightarrow> byte list \<Rightarrow> byte list \<times> byte list" where
  "readFd limit count unread = (take (min limit count) unread, drop (min limit count) unread)"

definition overwrite :: "nat \<Rightarrow> 'a list \<Rightarrow> 'a list \<Rightarrow> 'a list" where
  "overwrite i bytes xs = take i xs @ bytes @ drop (i + length bytes) xs"

datatype legacy_state = PREAMBLE | PAYLOAD

record legacy_packetizer =
  legacy_state_of :: legacy_state
  preamble :: "byte list"
  legacy_packet :: "byte list"
  legacy_remaining :: nat
  bytes_read :: nat

definition legacyPacketizer :: legacy_packetizer where
  "legacyPacketizer = \<lparr>legacy_state_of = PREAMBLE, preamble = replicate 4 0, legacy_packet = [],
     legacy_remaining = 0, bytes_read = 0\<rparr>"

definition legacyPacketLength :: "PacketType \<Rightarrow> byte list \<Rightarrow> nat option" where
  "legacyPacketLength type preamble_bytes =
     (case element packet_length_offset_for_type (unat type) of
        None \<Rightarrow> None
      | Some offset \<Rightarrow>
          if type = ACL_DATA then
            (case element preamble_bytes (offset + 1) of
               None \<Rightarrow> None
             | Some high \<Rightarrow> map_option (\<lambda>low. 256 * unat high + unat low) (element preamble_bytes offset))
          else if type = ISO_DATA then
            (case element preamble_bytes (offset + 1) of
               None \<Rightarrow> None
             | Some high \<Rightarrow> map_option (\<lambda>low. 256 * (unat high mod 64) + unat low) (element preamble_bytes offset))
          else map_option unat (element preamble_bytes offset))"

text \<open>\<^verbatim>\<open>packet_.resize\<close>: the bytes that a vector gains are overwritten before the packet is used.\<close>

definition resize :: "nat \<Rightarrow> byte list \<Rightarrow> byte list" where
  "resize n bytes = take n bytes @ replicate (n - length bytes) 0"

text \<open>
  \<^verbatim>\<open>OnDataReady\<close>: the bytes left to read, the packetizer, and the packet for which \<^verbatim>\<open>packet_ready_cb_\<close> was called, if any. After
  a read without bytes the code sleeps and returns.
\<close>

definition legacyPacketizerOnDataReady ::
  "fd_outcome \<Rightarrow> PacketType \<Rightarrow> byte list \<Rightarrow> legacy_packetizer \<Rightarrow>
     (byte list \<times> legacy_packetizer \<times> byte list option) option" where
  "legacyPacketizerOnDataReady outcome type unread p =
     (case (element header_size_for_type (unat type), outcome) of
        (None, _) \<Rightarrow> None
      | (_, ReadFails) \<Rightarrow> None
      | (Some preamble_size, Upto limit) \<Rightarrow>
          (case legacy_state_of p of
             PREAMBLE \<Rightarrow>
               let (bytes, unread) = readFd limit (preamble_size - bytes_read p) unread
               in if bytes = [] then Some (unread, p, None)
                  else
                    let p = p\<lparr>preamble := overwrite (bytes_read p) bytes (preamble p),
                              bytes_read := bytes_read p + length bytes\<rparr>
                    in if bytes_read p = preamble_size then
                         (case legacyPacketLength type (preamble p) of
                            None \<Rightarrow> None
                          | Some packet_length \<Rightarrow>
                              Some (unread, p\<lparr>legacy_packet :=
                                  overwrite 0 (take preamble_size (preamble p)) (resize (preamble_size + packet_length) (legacy_packet p)),
                                legacy_remaining := packet_length, legacy_state_of := PAYLOAD, bytes_read := 0\<rparr>, None))
                       else Some (unread, p, None)
           | PAYLOAD \<Rightarrow>
               let (bytes, unread) = readFd limit (legacy_remaining p) unread
               in if bytes = [] then Some (unread, p, None)
                  else
                    let p = p\<lparr>legacy_packet := overwrite (preamble_size + bytes_read p) bytes (legacy_packet p),
                              legacy_remaining := legacy_remaining p - length bytes,
                              bytes_read := bytes_read p + length bytes\<rparr>
                    in if legacy_remaining p = 0 then
                         Some (unread, p\<lparr>legacy_state_of := PREAMBLE, bytes_read := 0\<rparr>, Some (legacy_packet p))
                       else Some (unread, p, None)))"

section \<open>The H4 protocol\<close>

record legacy_h4 =
  legacy_type :: PacketType
  legacy_packets :: legacy_packetizer

definition legacyH4 :: legacy_h4 where
  "legacyH4 = \<lparr>legacy_type = UNKNOWN, legacy_packets = legacyPacketizer\<rparr>"

text \<open>\<^verbatim>\<open>OnPacketReady\<close>: there is no callback for commands.\<close>

definition legacyOnPacketReady :: "PacketType \<Rightarrow> byte list \<Rightarrow> delivery list option" where
  "legacyOnPacketReady type packet =
     (if type \<in> {EVENT, ACL_DATA, SCO_DATA, ISO_DATA} then Some [(type, packet)]
      else if type = UNKNOWN then Some []
      else None)"

definition legacyH4OnDataReady ::
  "fd_outcome \<Rightarrow> byte list \<Rightarrow> legacy_h4 \<Rightarrow> (byte list \<times> legacy_h4 \<times> delivery list) option" where
  "legacyH4OnDataReady outcome unread h =
     (if legacy_type h = UNKNOWN then
        (case outcome of
           ReadFails \<Rightarrow> None
         | Upto limit \<Rightarrow>
             (case readFd limit 1 unread of
                ([], unread) \<Rightarrow> Some (unread, h, [])
              | (b # _, unread) \<Rightarrow>
                  if b = UNKNOWN \<or> b \<in> {ACL_DATA, SCO_DATA, ISO_DATA, EVENT} then Some (unread, h\<lparr>legacy_type := b\<rparr>, [])
                  else None))
      else
        (case legacyPacketizerOnDataReady outcome (legacy_type h) unread (legacy_packets h) of
           None \<Rightarrow> None
         | Some (unread, p, None) \<Rightarrow> Some (unread, h\<lparr>legacy_packets := p\<rparr>, [])
         | Some (unread, p, Some packet) \<Rightarrow>
             map_option (\<lambda>ds. (unread, h\<lparr>legacy_packets := p, legacy_type := UNKNOWN\<rparr>, ds))
               (legacyOnPacketReady (legacy_type h) packet)))"

fun legacyRun :: "fd_outcome list \<Rightarrow> byte list \<Rightarrow> legacy_h4 \<Rightarrow> (byte list \<times> legacy_h4 \<times> delivery list) option" where
  "legacyRun [] unread h = Some (unread, h, [])"
| "legacyRun (outcome # outcomes) unread h =
     (case legacyH4OnDataReady outcome unread h of
        None \<Rightarrow> None
      | Some (unread, h, ds) \<Rightarrow> map_option (\<lambda>(u, h', ds'). (u, h', ds @ ds')) (legacyRun outcomes unread h))"

text \<open>\<^verbatim>\<open>Send\<close> has the loop of the later file, but returns the bytes that it counted.\<close>

definition legacyH4Send :: "write_outcome list \<Rightarrow> PacketType \<Rightarrow> byte list \<Rightarrow> send_answer" where
  "legacyH4Send ws type data =
     (let total_bytes = 1 + length data
      in case writevLoop ws [[type], data] total_bytes 0 [] of
           Sent remaining_bytes bytes_written wire \<Rightarrow> Returned bytes_written wire
         | Waiting wire \<Rightarrow> NotReturned wire
         | Undefined \<Rightarrow> SendUndefined)"

section \<open>The protocol with one descriptor for each kind of packet\<close>

fun WriteSafely :: "write_outcome list \<Rightarrow> byte list \<Rightarrow> nat \<Rightarrow> nat \<Rightarrow> byte list \<Rightarrow> send_answer" where
  "WriteSafely [] data transmitted_length n wire = (if n > 0 then NotReturned wire else Returned transmitted_length wire)"
| "WriteSafely (w # ws) data transmitted_length n wire =
     (if n > 0 then
        (case w of
           WriteAgain \<Rightarrow> WriteSafely ws data transmitted_length n wire
         | WriteError \<Rightarrow> Returned transmitted_length wire
         | Room k \<Rightarrow>
             let ret = min k n
             in if ret = 0 then Returned transmitted_length wire
                else WriteSafely ws data (transmitted_length + ret) (n - ret)
                       (wire @ take ret (drop transmitted_length data)))
      else Returned transmitted_length wire)"

datatype mct_channel = CH_CMD | CH_ACL_OUT

text \<open>\<^verbatim>\<open>MctProtocol::Send\<close>: the channel that was written and what the writing gave; nothing is written for \<open>UNKNOWN\<close>.\<close>

definition mctSend :: "write_outcome list \<Rightarrow> PacketType \<Rightarrow> byte list \<Rightarrow> (mct_channel option \<times> send_answer) option" where
  "mctSend ws type data =
     (if type = COMMAND then Some (Some CH_CMD, WriteSafely ws data 0 (length data) [])
      else if type = ACL_DATA then Some (Some CH_ACL_OUT, WriteSafely ws data 0 (length data) [])
      else if type = UNKNOWN then Some (None, Returned 0 [])
      else None)"

record mct_protocol =
  event_packetizer :: legacy_packetizer
  acl_packetizer :: legacy_packetizer

definition OnEventDataReady :: "fd_outcome \<Rightarrow> byte list \<Rightarrow> mct_protocol \<Rightarrow> (byte list \<times> mct_protocol \<times> byte list option) option" where
  "OnEventDataReady outcome unread m =
     map_option (\<lambda>(unread, p, ready). (unread, m\<lparr>event_packetizer := p\<rparr>, ready))
       (legacyPacketizerOnDataReady outcome EVENT unread (event_packetizer m))"

definition OnAclDataReady :: "fd_outcome \<Rightarrow> byte list \<Rightarrow> mct_protocol \<Rightarrow> (byte list \<times> mct_protocol \<times> byte list option) option" where
  "OnAclDataReady outcome unread m =
     map_option (\<lambda>(unread, p, ready). (unread, m\<lparr>acl_packetizer := p\<rparr>, ready))
       (legacyPacketizerOnDataReady outcome ACL_DATA unread (acl_packetizer m))"

text \<open>Both ways of sending put the bytes on the descriptor in order, and return how many.\<close>

lemma legacy_send_counts:
  "case legacyH4Send ws type data of
     Returned n wire \<Rightarrow> prefix wire (type # data) \<and> n = length wire
   | NotReturned wire \<Rightarrow> strict_prefix wire (type # data)
   | SendUndefined \<Rightarrow> False"
  using h4Send_invariant [of type data ws]
  by (auto simp: legacyH4Send_def send_invariant_def Let_def split: send_result.splits)

lemma WriteSafely_invariant:
  "wire = take transmitted data \<Longrightarrow> transmitted \<le> length data \<Longrightarrow> n = length data - transmitted \<Longrightarrow>
   case WriteSafely ws data transmitted n wire of
     Returned k wire' \<Rightarrow> k \<le> length data \<and> wire' = take k data
   | NotReturned wire' \<Rightarrow> strict_prefix wire' data
   | SendUndefined \<Rightarrow> False"
proof (induction ws arbitrary: transmitted n wire)
  case (Cons w ws)
  show ?case
  proof (cases w)
    case (Room k)
    have "case WriteSafely ws data (transmitted + min k n) (n - min k n) (wire @ take (min k n) (drop transmitted data)) of
       Returned k wire' \<Rightarrow> k \<le> length data \<and> wire' = take k data
     | NotReturned wire' \<Rightarrow> strict_prefix wire' data
     | SendUndefined \<Rightarrow> False"
      by (rule Cons.IH) (use Cons.prems in \<open>auto simp: take_add\<close>)
    then show ?thesis using Room Cons.prems by (auto simp: Let_def)
  qed (use Cons in auto)
qed (auto simp: strict_prefix_def take_is_prefix dest: arg_cong [where f = length])

section \<open>Receiving frames\<close>

lemma overwrite_inside:
  assumes "i + length bytes \<le> length xs"
  shows "length (overwrite i bytes xs) = length xs"
    and "take (i + length bytes) (overwrite i bytes xs) = take i xs @ bytes"
  using assms by (simp_all add: overwrite_def)

lemma length_payload_resize [simp]: "length (resize n bytes) = n"
  by (simp add: resize_def)

text \<open>A packet that the controller may send: its length is read with the mask of the ISO packets.\<close>

definition legacy_packet_ok :: "delivery \<Rightarrow> bool" where
  "legacy_packet_ok d \<longleftrightarrow> (case d of (t, p) \<Rightarrow>
     t \<in> {EVENT, ACL_DATA, SCO_DATA, ISO_DATA} \<and>
     (let n = header_size_for_type ! unat t
      in n \<le> length p \<and> legacyPacketLength t (take n p) = Some (length p - n)))"

definition has_payload :: "delivery \<Rightarrow> bool" where
  "has_payload d \<longleftrightarrow> header_size_for_type ! unat (fst d) < length (snd d)"

text \<open>The receiver between two frames, and within the frame of the packet \<open>p\<close>.\<close>

definition between_frames :: "legacy_h4 \<Rightarrow> bool" where
  "between_frames h \<longleftrightarrow> legacy_type h = UNKNOWN \<and> legacy_state_of (legacy_packets h) = PREAMBLE \<and>
     bytes_read (legacy_packets h) = 0 \<and> length (preamble (legacy_packets h)) = 4"

definition within_frame :: "PacketType \<Rightarrow> byte list \<Rightarrow> byte list \<Rightarrow> byte list \<Rightarrow> legacy_packetizer \<Rightarrow> bool" where
  "within_frame t p rest unread q \<longleftrightarrow> length (preamble q) = 4 \<and>
     (let n = header_size_for_type ! unat t; m = n + bytes_read q
      in case legacy_state_of q of
           PREAMBLE \<Rightarrow> bytes_read q < n \<and> take (bytes_read q) (preamble q) = take (bytes_read q) p \<and>
             unread = drop (bytes_read q) p @ rest
         | PAYLOAD \<Rightarrow> m \<le> length p \<and> length (legacy_packet q) = length p \<and> take m (legacy_packet q) = take m p \<and>
             legacy_remaining q = length p - m \<and> unread = drop m p @ rest)"

lemma legacy_types:
  assumes "t \<in> {EVENT, ACL_DATA, SCO_DATA, ISO_DATA}"
  shows "t \<noteq> UNKNOWN" and "element header_size_for_type (unat t) = Some (header_size_for_type ! unat t)"
    and "2 \<le> header_size_for_type ! unat t" and "header_size_for_type ! unat t \<le> 4"
  using assms
  by (auto simp: UNKNOWN_def EVENT_def ACL_DATA_def SCO_DATA_def ISO_DATA_def element_def header_size_for_type_def)

text \<open>The length is read from the bytes of the header alone.\<close>

lemma legacyPacketLength_header:
  assumes "t \<in> {EVENT, ACL_DATA, SCO_DATA, ISO_DATA}" and "header_size_for_type ! unat t \<le> length xs"
  shows "legacyPacketLength t xs = legacyPacketLength t (take (header_size_for_type ! unat t) xs)"
  using assms
  by (auto simp: legacyPacketLength_def element_def header_size_for_type_def packet_length_offset_for_type_def
      EVENT_def ACL_DATA_def SCO_DATA_def ISO_DATA_def)

lemma readFd_frame:
  assumes "m + count \<le> length p"
  shows "readFd limit count (drop m p @ rest) = (take (min limit count) (drop m p), drop (m + min limit count) p @ rest)"
  using assms by (simp add: readFd_def add.commute)

lemma preamble_step:
  assumes ok: "legacy_packet_ok (t, p)" and frame: "within_frame t p rest unread q" and state: "legacy_state_of q = PREAMBLE"
  shows "\<exists>unread' q'. legacyPacketizerOnDataReady (Upto k) t unread q = Some (unread', q', None) \<and>
    within_frame t p rest unread' q' \<and> (legacy_state_of q' = PAYLOAD \<longrightarrow> bytes_read q' = 0) \<and>
    (0 < k \<longrightarrow> length unread' < length unread)"
proof -
  define n where "n = header_size_for_type ! unat t"
  define i where "i = bytes_read q"
  define j where "j = min k (n - i)"
  have t: "t \<in> {EVENT, ACL_DATA, SCO_DATA, ISO_DATA}" and np: "n \<le> length p"
    and len: "legacyPacketLength t (take n p) = Some (length p - n)"
    using ok by (auto simp: legacy_packet_ok_def n_def Let_def)
  note size = legacy_types [OF t, folded n_def]
  have i: "i < n" and pre: "take i (preamble q) = take i p" "length (preamble q) = 4" and u: "unread = drop i p @ rest"
    using frame state by (auto simp: within_frame_def n_def i_def)
  have j: "i + j \<le> n" "j \<le> k" using i by (auto simp: j_def)
  have read: "readFd k (n - i) unread = (take j (drop i p), drop (i + j) p @ rest)"
    using readFd_frame [of i "n - i" p k rest] i np by (simp add: u j_def)
  have bytes: "length (take j (drop i p)) = j" using j np by simp
  define pre' where "pre' = overwrite i (take j (drop i p)) (preamble q)"
  have pre': "length pre' = 4" "take (i + j) pre' = take (i + j) p"
    using overwrite_inside [of i "take j (drop i p)" "preamble q"] j size pre bytes by (simp_all add: pre'_def take_add)
  show ?thesis
  proof (cases "j = 0")
    case True
    then have "k = 0" using i by (simp add: j_def min_def split: if_splits)
    then show ?thesis
      using True frame state size read u by (simp add: legacyPacketizerOnDataReady_def i_def)
  next
    case False
    then have ne: "take j (drop i p) \<noteq> []" using bytes by (metis length_0_conv)
    show ?thesis
    proof (cases "i + j = n")
      case True
      have "legacyPacketLength t pre' = Some (length p - n)"
        using legacyPacketLength_header [OF t, of pre'] size pre' len True by (simp add: n_def)
      moreover have "length (overwrite 0 (take n pre') (resize (length p) (legacy_packet q))) = length p"
        and "take n (overwrite 0 (take n pre') (resize (length p) (legacy_packet q))) = take n p"
        using overwrite_inside [of 0 "take n pre'" "resize (length p) (legacy_packet q)"] pre' size np True by simp_all
      ultimately show ?thesis
        using state size read ne True pre' np False
        by (auto simp: legacyPacketizerOnDataReady_def i_def [symmetric] pre'_def [symmetric] bytes within_frame_def n_def [symmetric] u Let_def)
    next
      case part: False
      then show ?thesis
        using state size read ne pre' np j i False
        by (auto simp: legacyPacketizerOnDataReady_def i_def [symmetric] pre'_def [symmetric] bytes within_frame_def n_def [symmetric] u Let_def)
    qed
  qed
qed

text \<open>With an empty payload, the read of no bytes is taken for the end of the stream, and nothing changes.\<close>

lemma empty_payload_step:
  assumes ok: "legacy_packet_ok (t, p)" and frame: "within_frame t p rest unread q" and state: "legacy_state_of q = PAYLOAD"
    and empty: "\<not> has_payload (t, p)"
  shows "legacyPacketizerOnDataReady (Upto k) t unread q = Some (unread, q, None)"
proof -
  have "t \<in> {EVENT, ACL_DATA, SCO_DATA, ISO_DATA}" using ok by (auto simp: legacy_packet_ok_def)
  then show ?thesis
    using legacy_types [of t] frame state empty
    by (auto simp: legacyPacketizerOnDataReady_def within_frame_def has_payload_def readFd_def Let_def)
qed

definition frame_read :: "byte list \<Rightarrow> byte list \<Rightarrow> byte list \<times> legacy_packetizer \<times> byte list option \<Rightarrow> bool" where
  "frame_read p rest result \<longleftrightarrow> (case result of (unread, q, ready) \<Rightarrow>
     ready = Some p \<and> unread = rest \<and> legacy_state_of q = PREAMBLE \<and> bytes_read q = 0 \<and> length (preamble q) = 4)"

lemma payload_read_step:
  assumes ok: "legacy_packet_ok (t, p)" and frame: "within_frame t p rest unread q" and state: "legacy_state_of q = PAYLOAD"
    and more: "header_size_for_type ! unat t + bytes_read q < length p"
  shows "\<exists>unread' q' ready. legacyPacketizerOnDataReady (Upto k) t unread q = Some (unread', q', ready) \<and>
    (if ready = None then within_frame t p rest unread' q' \<and>
        (legacy_state_of q' = PAYLOAD \<longrightarrow> header_size_for_type ! unat t + bytes_read q' < length p)
     else frame_read p rest (unread', q', ready)) \<and>
    (0 < k \<longrightarrow> length unread' < length unread)"
proof -
  define n where "n = header_size_for_type ! unat t"
  define m where "m = n + bytes_read q"
  define j where "j = min k (length p - m)"
  have t: "t \<in> {EVENT, ACL_DATA, SCO_DATA, ISO_DATA}" using ok by (auto simp: legacy_packet_ok_def)
  note size = legacy_types [OF t, folded n_def]
  have m: "m < length p" using more by (simp add: m_def n_def)
  have pac: "length (legacy_packet q) = length p" "take m (legacy_packet q) = take m p" "legacy_remaining q = length p - m"
    and u: "unread = drop m p @ rest" and pre: "length (preamble q) = 4"
    using frame state by (auto simp: within_frame_def n_def m_def Let_def)
  have read: "readFd k (length p - m) unread = (take j (drop m p), drop (m + j) p @ rest)"
    using readFd_frame [of m "length p - m" p k rest] m by (simp add: u j_def)
  have j: "m + j \<le> length p" "j \<le> k" using m by (auto simp: j_def)
  then have bytes: "length (take j (drop m p)) = j" by simp
  define pac' where "pac' = overwrite m (take j (drop m p)) (legacy_packet q)"
  have pac': "length pac' = length p" "take (m + j) pac' = take (m + j) p"
    using overwrite_inside [of m "take j (drop m p)" "legacy_packet q"] j pac bytes by (simp_all add: pac'_def take_add)
  show ?thesis
  proof (cases "j = 0")
    case True
    then have "k = 0" using m by (simp add: j_def min_def split: if_splits)
    then show ?thesis
      using True frame state size read u pac m by (simp add: legacyPacketizerOnDataReady_def m_def n_def)
  next
    case False
    then have ne: "take j (drop m p) \<noteq> []" using bytes by (metis length_0_conv)
    show ?thesis
    proof (cases "m + j = length p")
      case True
      then have "take j (drop m p) = drop m p" by simp
      moreover have "pac' = p" using True pac' by simp
      ultimately have "overwrite m (drop m p) (legacy_packet q) = p" by (simp add: pac'_def)
      then show ?thesis
        using state size read ne True pre pac False u
        by (auto simp: legacyPacketizerOnDataReady_def m_def [symmetric] pac'_def [symmetric] bytes frame_read_def Let_def)
    next
      case part: False
      then show ?thesis
        using state size read ne pre pac pac' j m False u
        by (auto simp: legacyPacketizerOnDataReady_def m_def [symmetric] pac'_def [symmetric] bytes within_frame_def
            n_def [symmetric] add.assoc [symmetric] Let_def)
    qed
  qed
qed

section \<open>Receiving a stream of frames\<close>

text \<open>
  The receiver, the packets whose last byte it has not read yet, and what follows them in the stream. \<open>unread\<close> are the bytes
  that were not read.
\<close>

definition receives :: "delivery list \<Rightarrow> byte list \<Rightarrow> byte list \<Rightarrow> legacy_h4 \<Rightarrow> bool" where
  "receives ds rest unread h \<longleftrightarrow>
     (between_frames h \<and> unread = frames ds @ rest) \<or>
     (\<exists>p ds'. ds = (legacy_type h, p) # ds' \<and> within_frame (legacy_type h) p (frames ds' @ rest) unread (legacy_packets h) \<and>
        (legacy_state_of (legacy_packets h) = PAYLOAD \<and> has_payload (legacy_type h, p) \<longrightarrow>
           header_size_for_type ! unat (legacy_type h) + bytes_read (legacy_packets h) < length p))"

lemma between_step:
  assumes "between_frames h" and "legacy_packet_ok (t, p)"
  shows "\<exists>unread' h'. legacyH4OnDataReady (Upto k) (frames ((t, p) # ds) @ rest) h = Some (unread', h', []) \<and>
     receives ((t, p) # ds) rest unread' h' \<and> (0 < k \<longrightarrow> length unread' < length (frames ((t, p) # ds) @ rest))"
proof (cases k)
  case 0
  then show ?thesis using assms by (auto simp: legacyH4OnDataReady_def between_frames_def readFd_def receives_def)
next
  case (Suc k')
  have t: "t \<in> {EVENT, ACL_DATA, SCO_DATA, ISO_DATA}" using assms by (auto simp: legacy_packet_ok_def)
  let ?h = "h\<lparr>legacy_type := t\<rparr>"
  have "receives ((t, p) # ds) rest (p @ frames ds @ rest) ?h"
    using assms(1) legacy_types [OF t] by (auto simp: receives_def between_frames_def within_frame_def Let_def)
  then show ?thesis
    using assms(1) t Suc by (auto simp: legacyH4OnDataReady_def between_frames_def readFd_def frames_def)
qed

lemma within_step:
  assumes ok: "legacy_packet_ok (t, p)" and type: "legacy_type h = t"
    and frame: "within_frame t p (frames ds @ rest) unread (legacy_packets h)"
    and more: "legacy_state_of (legacy_packets h) = PAYLOAD \<and> has_payload (t, p) \<longrightarrow>
      header_size_for_type ! unat t + bytes_read (legacy_packets h) < length p"
  shows "\<exists>unread' h' out. legacyH4OnDataReady (Upto k) unread h = Some (unread', h', out) \<and>
     (out = [] \<and> receives ((t, p) # ds) rest unread' h' \<or>
      has_payload (t, p) \<and> out = [(t, p)] \<and> receives ds rest unread' h') \<and>
     (0 < k \<and> has_payload (t, p) \<longrightarrow> length unread' < length unread)"
proof -
  have t: "t \<in> {EVENT, ACL_DATA, SCO_DATA, ISO_DATA}" using ok by (auto simp: legacy_packet_ok_def)
  note known = legacy_types(1) [OF t]
  show ?thesis
  proof (cases "legacy_state_of (legacy_packets h)")
    case PREAMBLE
    obtain unread' q' where q: "legacyPacketizerOnDataReady (Upto k) t unread (legacy_packets h) = Some (unread', q', None)"
      and r: "within_frame t p (frames ds @ rest) unread' q'" "legacy_state_of q' = PAYLOAD \<longrightarrow> bytes_read q' = 0"
      and dec: "0 < k \<longrightarrow> length unread' < length unread"
      using preamble_step [OF ok frame PREAMBLE, of k] by blast
    have "receives ((t, p) # ds) rest unread' (h\<lparr>legacy_packets := q'\<rparr>)"
      using r type by (simp add: receives_def has_payload_def)
    then show ?thesis using q dec known type by (simp add: legacyH4OnDataReady_def)
  next
    case PAYLOAD
    show ?thesis
    proof (cases "has_payload (t, p)")
      case False
      have "receives ((t, p) # ds) rest unread h" using frame type False by (simp add: receives_def)
      then show ?thesis
        using empty_payload_step [OF ok frame PAYLOAD False, of k] known type False
        by (simp add: legacyH4OnDataReady_def)
    next
      case True
      obtain unread' q' ready where q: "legacyPacketizerOnDataReady (Upto k) t unread (legacy_packets h) = Some (unread', q', ready)"
        and r: "if ready = None then within_frame t p (frames ds @ rest) unread' q' \<and>
            (legacy_state_of q' = PAYLOAD \<longrightarrow> header_size_for_type ! unat t + bytes_read q' < length p)
          else frame_read p (frames ds @ rest) (unread', q', ready)"
        and dec: "0 < k \<longrightarrow> length unread' < length unread"
        using payload_read_step [OF ok frame PAYLOAD, of k] more PAYLOAD True by blast
      show ?thesis
        using q r dec type known t True
        by (cases ready) (auto simp: legacyH4OnDataReady_def receives_def frame_read_def between_frames_def legacyOnPacketReady_def)
    qed
  qed
qed

lemma receives_step:
  assumes "receives (d # ds) rest unread h" and "legacy_packet_ok d"
  shows "\<exists>unread' h' out. legacyH4OnDataReady (Upto k) unread h = Some (unread', h', out) \<and>
     (out = [] \<and> receives (d # ds) rest unread' h' \<or> has_payload d \<and> out = [d] \<and> receives ds rest unread' h') \<and>
     (0 < k \<and> has_payload d \<longrightarrow> length unread' < length unread)"
proof (cases "between_frames h \<and> unread = frames (d # ds) @ rest")
  case True
  then show ?thesis using between_step [of h "fst d" "snd d" k ds rest] assms(2) by auto
next
  case False
  then obtain p where d: "d = (legacy_type h, p)"
    and frame: "within_frame (legacy_type h) p (frames ds @ rest) unread (legacy_packets h)"
    and more: "legacy_state_of (legacy_packets h) = PAYLOAD \<and> has_payload (legacy_type h, p) \<longrightarrow>
           header_size_for_type ! unat (legacy_type h) + bytes_read (legacy_packets h) < length p"
    using assms(1) unfolding receives_def by blast
  show ?thesis unfolding d by (rule within_step [OF assms(2) [unfolded d] refl frame more])
qed

lemma receives_init: "receives ds rest (frames ds @ rest) legacyH4"
  by (simp add: receives_def between_frames_def legacyH4_def legacyPacketizer_def)

text \<open>While a packet is expected, bytes of it are left to read.\<close>

lemma receives_unread:
  assumes "receives (d # ds) rest unread h" and "legacy_packet_ok d" and "has_payload d"
  shows "unread \<noteq> []"
  using receives_step [OF assms(1,2), of 1] assms(3) by fastforce

text \<open>Every read that gives at least a byte gets closer to the end, where all packets have been delivered.\<close>

lemma receives_all:
  "receives ds [] unread h \<Longrightarrow> list_all (\<lambda>d. legacy_packet_ok d \<and> has_payload d) ds \<Longrightarrow>
     list_all (\<lambda>k. 0 < k) ks \<Longrightarrow> length unread \<le> length ks \<Longrightarrow>
     \<exists>h'. legacyRun (map Upto ks) unread h = Some ([], h', ds)"
proof (induction ks arbitrary: ds unread h)
  case Nil
  then show ?case
  proof (cases ds)
    case (Cons d ds')
    then show ?thesis using receives_unread [of d ds' "[]" unread h] Nil by simp
  qed (auto simp: receives_def frames_def)
next
  case (Cons k ks)
  show ?case
  proof (cases ds)
    case Nil
    then have "between_frames h" "unread = []" using Cons.prems(1) by (auto simp: receives_def frames_def)
    moreover from this have "legacyH4OnDataReady (Upto k) unread h = Some ([], h, [])"
      by (simp add: legacyH4OnDataReady_def between_frames_def readFd_def)
    ultimately show ?thesis using Cons.IH [of "[]" "[]" h] Cons.prems Nil by auto
  next
    case d: (Cons d ds')
    then have ok: "legacy_packet_ok d" "has_payload d" using Cons.prems(2) by auto
    obtain unread' h' out where step: "legacyH4OnDataReady (Upto k) unread h = Some (unread', h', out)"
      and r: "out = [] \<and> receives (d # ds') [] unread' h' \<or> has_payload d \<and> out = [d] \<and> receives ds' [] unread' h'"
      and dec: "0 < k \<and> has_payload d \<longrightarrow> length unread' < length unread"
      using receives_step [OF Cons.prems(1) [unfolded d] ok(1), of k] by blast
    have less: "length unread' \<le> length ks" using dec ok Cons.prems(3,4) by simp
    from r show ?thesis
    proof (elim disjE conjE)
      assume "out = []" and "receives (d # ds') [] unread' h'"
      then show ?thesis using Cons.IH [of "d # ds'" unread' h'] Cons.prems d step less by auto
    next
      assume "out = [d]" and "receives ds' [] unread' h'"
      then show ?thesis using Cons.IH [of ds' unread' h'] Cons.prems d step less by auto
    qed
  qed
qed

text \<open>No read gets past a packet with an empty payload.\<close>

lemma receives_stuck:
  "receives (ds @ [d]) rest unread h \<Longrightarrow> list_all legacy_packet_ok (ds @ [d]) \<Longrightarrow> \<not> has_payload d \<Longrightarrow>
     \<exists>unread' h' out. legacyRun (map Upto ks) unread h = Some (unread', h', out) \<and> prefix out ds"
proof (induction ks arbitrary: ds unread h)
  case (Cons k ks)
  obtain e es where e: "ds @ [d] = e # es" by (cases "ds @ [d]") auto
  have "legacy_packet_ok e" using Cons.prems(2) e by simp
  with receives_step [OF Cons.prems(1) [unfolded e], of k]
  obtain unread' h' out where step: "legacyH4OnDataReady (Upto k) unread h = Some (unread', h', out)"
    and r: "out = [] \<and> receives (e # es) rest unread' h' \<or> has_payload e \<and> out = [e] \<and> receives es rest unread' h'" by blast
  from r show ?case
  proof (elim disjE conjE)
    assume "out = []" and "receives (e # es) rest unread' h'"
    then show ?thesis using Cons.IH [of ds unread' h'] Cons.prems e step by auto
  next
    assume out: "out = [e]" "has_payload e" and rec: "receives es rest unread' h'"
    then obtain ds' where ds: "ds = e # ds'" "es = ds' @ [d]"
      using e Cons.prems(3) by (cases ds) auto
    then show ?thesis using Cons.IH [of ds' unread' h'] Cons.prems rec step out by auto
  qed
qed simp

text \<open>Packets with payloads are received, unchanged and in order, when each read gives at least a byte.\<close>

lemma legacy_frames_received:
  assumes "list_all (\<lambda>d. legacy_packet_ok d \<and> has_payload d) ds" and "list_all (\<lambda>k. 0 < k) ks"
    and "length (frames ds) \<le> length ks"
  shows "\<exists>h. legacyRun (map Upto ks) (frames ds) legacyH4 = Some ([], h, ds)"
  by (rule receives_all [OF _ assms]) (use receives_init [of ds "[]"] in simp)

text \<open>
  Claim C36 (empty_payload_blocks). In the receiver of the HIDL service, a packet with an empty payload, which the later receiver
  delivers, is never delivered, and neither is any packet that follows it: however often the descriptor is
  ready, only packets before it are.
\<close>

theorem empty_payload_blocks:
  assumes "list_all legacy_packet_ok (ds @ [d])" and "\<not> has_payload d"
  shows "\<exists>unread h out. legacyRun (map Upto ks) (frames (ds @ [d]) @ rest) legacyH4 = Some (unread, h, out) \<and> prefix out ds"
  by (rule receives_stuck [OF receives_init assms])

lemma empty_payload_blocks_witness:
  "\<exists>unread h out. legacyRun (map Upto [1, 9, 9, 9, 9, 9, 9, 9, 9]) (frames ([(4, [14, 1, 7])] @ [(2, [1, 0, 0, 0])]) @ [4, 14, 1, 7])
     legacyH4 = Some (unread, h, out) \<and> prefix out [(4, [14, 1, 7])]"
proof (rule empty_payload_blocks)
  show "list_all legacy_packet_ok ([(4, [14, 1, 7])] @ [(2, [1, 0, 0, 0])])" by code_simp
  show "\<not> has_payload (2, [1, 0, 0, 0])" by code_simp
qed

end
