(* ===== verification/Vendor_Interface.thy ===== *)
theory Vendor_Interface
  imports Hci_Legacy
begin

text \<open>
  The HIDL service \<^verbatim>\<open>bluetooth/1.0/default/bluetooth_hci.cc\<close> and \<^verbatim>\<open>vendor_interface.cc\<close>, over the vendor's library, which is a
  parameter: what its calls give. The callbacks that the library makes are operations of their own. \<open>None\<close> is an abort or the use of
  a null pointer or of an element outside of a vector. The actions list what the service does to the library, to the transport and
  to its client, which is a number.
\<close>

section \<open>State\<close>

datatype bt_vendor_op =
    PowerCtrl bool
  | UserialOpen
  | UserialClose
  | FwCfg
  | LpmSetMode bool
  | GetLpmIdleTimeout
  | WakeAssert
  | WakeDeassert

datatype vendor_action =
    LibInit
  | LibOp bt_vendor_op
  | LibCleanup
  | Dlclose
  | WatchFds "int list"
  | StopWatchingFds
  | HciSend PacketType "byte list" "byte list"
  | InternalCallback nat "byte list"
  | EventReceived nat "byte list"
  | InitComplete nat bool

datatype transport = H4 | Mct

text \<open>The object that \<^verbatim>\<open>g_vendor_interface\<close> points to; the client of the callbacks is the one of \<^verbatim>\<open>initialize\<close>.\<close>

record vendor_interface =
  lib_handle :: bool
  lib_interface :: bool
  hci :: "transport option"
  initialize_complete_cb :: "nat option"
  event_cb :: "nat option"
  watch_timeout :: "nat option"

definition newVendorInterface :: vendor_interface where
  "newVendorInterface = \<lparr>lib_handle = False, lib_interface = False, hci = None,
     initialize_complete_cb = None, event_cb = None, watch_timeout = None\<rparr>"

text \<open>The globals of the file, and the fields of \<^verbatim>\<open>BluetoothHci\<close>: the client that \<^verbatim>\<open>unlink_cb_\<close> is for, and whether it died.\<close>

record vendor_state =
  g_vendor_interface :: "vendor_interface option"
  internal_cb :: "nat option"
  internal_opcode :: "16 word"
  lpm_wake_deasserted :: bool
  lpm_timeout_ms :: nat
  recent_activity_flag :: bool
  unlink_cb :: "nat option"

definition vendorStart :: vendor_state where
  "vendorStart = \<lparr>g_vendor_interface = None, internal_cb = None, internal_opcode = 0, lpm_wake_deasserted = False,
     lpm_timeout_ms = 0, recent_activity_flag = False, unlink_cb = None\<rparr>"

section \<open>Opening and closing\<close>

record open_env =
  libraryOpened :: bool
  symbolFound :: bool
  hasAddress :: bool
  initStatus :: int
  fdCount :: int
  fdSlots :: "int list"

definition CH_MAX :: nat where "CH_MAX = 4"
definition CH_EVT :: nat where "CH_EVT = 1"
definition CH_ACL_IN :: nat where "CH_ACL_IN = 3"

text \<open>
  \<^verbatim>\<open>Open\<close>, with the answer and what was done. The library returns a number of descriptors and fills slots of \<^verbatim>\<open>fd_list\<close>, from the
  start; the others keep their zero.
\<close>

definition fd_list :: "open_env \<Rightarrow> int list" where
  "fd_list env = take CH_MAX (fdSlots env @ replicate CH_MAX 0)"

definition vendorOpen ::
  "nat \<Rightarrow> open_env \<Rightarrow> vendor_state \<Rightarrow> vendor_interface \<Rightarrow> (bool \<times> vendor_state \<times> vendor_interface \<times> vendor_action list) option" where
  "vendorOpen c env g v =
     (let v = v\<lparr>initialize_complete_cb := Some c\<rparr>
      in if \<not> libraryOpened env then Some (False, g, v, [])
         else let v = v\<lparr>lib_handle := True\<rparr>
         in if \<not> symbolFound env then Some (False, g, v, [])
            else let v = v\<lparr>lib_interface := True\<rparr>
            in if \<not> hasAddress env then None
               else if initStatus env \<noteq> 0 then Some (False, g, v, [LibInit])
               else let opened = [LibInit, LibOp (PowerCtrl True), LibOp UserialOpen]; fd_count = fdCount env
               in if fd_count < 1 \<or> fd_count > int (CH_MAX - 1) then Some (False, g, v, opened)
                  else if - 1 \<in> set (take (nat fd_count) (fd_list env)) then Some (False, g, v, opened)
                  else let watched = (if fd_count = 1 then [fd_list env ! 0] else [fd_list env ! CH_EVT, fd_list env ! CH_ACL_IN])
                       in Some (True, g\<lparr>lpm_wake_deasserted := True\<rparr>,
                            v\<lparr>event_cb := Some c, hci := Some (if fd_count = 1 then H4 else Mct)\<rparr>,
                            opened @ [WatchFds watched, LibOp FwCfg]))"

definition vendorInitialize :: "nat \<Rightarrow> open_env \<Rightarrow> vendor_state \<Rightarrow> (bool \<times> vendor_state \<times> vendor_action list) option" where
  "vendorInitialize c env g =
     (case g_vendor_interface g of
        Some _ \<Rightarrow> Some (False, g, [])
      | None \<Rightarrow> map_option (\<lambda>(rc, g, v, acts). (rc, g\<lparr>g_vendor_interface := Some v\<rparr>, acts))
          (vendorOpen c env g newVendorInterface))"

definition vendorClose :: "vendor_interface \<Rightarrow> vendor_action list" where
  "vendorClose v =
     (if lib_interface v then [LibOp (LpmSetMode False)] else []) @ [StopWatchingFds] @
     (if lib_interface v then [LibOp UserialClose, LibOp (PowerCtrl False), LibCleanup] else []) @
     (if lib_handle v then [Dlclose] else [])"

definition vendorShutdown :: "vendor_state \<Rightarrow> (vendor_state \<times> vendor_action list) option" where
  "vendorShutdown g =
     (case g_vendor_interface g of
        None \<Rightarrow> None
      | Some v \<Rightarrow> Some (g\<lparr>g_vendor_interface := None\<rparr>, vendorClose v))"

section \<open>Sending and the low power mode\<close>

text \<open>The transport writes the packet, with the outcomes that its descriptor has.\<close>

definition transportSend :: "transport \<Rightarrow> write_outcome list \<Rightarrow> PacketType \<Rightarrow> byte list \<Rightarrow> byte list option" where
  "transportSend tr ws type data =
     (case tr of
        H4 \<Rightarrow> Some (sentBytes (legacyH4Send ws type data))
      | Mct \<Rightarrow> map_option (\<lambda>(channel, answer). sentBytes answer) (mctSend ws type data))"

definition vendorSend ::
  "write_outcome list \<Rightarrow> PacketType \<Rightarrow> byte list \<Rightarrow> vendor_state \<Rightarrow> (vendor_state \<times> vendor_action list) option" where
  "vendorSend ws type data g =
     (case g_vendor_interface g of
        None \<Rightarrow> None
      | Some v \<Rightarrow>
          let g = g\<lparr>recent_activity_flag := True\<rparr>;
              (g, v, wake) =
                (if lpm_wake_deasserted g then
                   (g\<lparr>lpm_wake_deasserted := False\<rparr>, v\<lparr>watch_timeout := Some (lpm_timeout_ms g)\<rparr>, [LibOp WakeAssert])
                 else (g, v, []))
          in case hci v of
               None \<Rightarrow> None
             | Some tr \<Rightarrow>
                 map_option (\<lambda>wire. (g\<lparr>g_vendor_interface := Some v\<rparr>, wake @ [HciSend type data wire]))
                   (transportSend tr ws type data))"

definition OnFirmwareConfigured :: "byte \<Rightarrow> nat \<Rightarrow> vendor_state \<Rightarrow> (vendor_state \<times> vendor_action list) option" where
  "OnFirmwareConfigured result idle_timeout g =
     (case g_vendor_interface g of
        None \<Rightarrow> None
      | Some v \<Rightarrow>
          if \<not> lib_interface v then None
          else
            let complete = (case initialize_complete_cb v of None \<Rightarrow> [] | Some c \<Rightarrow> [InitComplete c (result = 0)])
            in Some (g\<lparr>g_vendor_interface := Some (v\<lparr>initialize_complete_cb := None, watch_timeout := Some idle_timeout\<rparr>),
                      lpm_timeout_ms := idle_timeout\<rparr>,
                 complete @ [LibOp GetLpmIdleTimeout, LibOp (LpmSetMode True)]))"

definition OnTimeout :: "vendor_state \<Rightarrow> (vendor_state \<times> vendor_action list) option" where
  "OnTimeout g =
     (case g_vendor_interface g of
        None \<Rightarrow> None
      | Some v \<Rightarrow>
          if \<not> recent_activity_flag g then
            Some (g\<lparr>g_vendor_interface := Some (v\<lparr>watch_timeout := Some 0\<rparr>), lpm_wake_deasserted := True,
                    recent_activity_flag := False\<rparr>, [LibOp WakeDeassert])
          else Some (g\<lparr>recent_activity_flag := False\<rparr>, []))"

text \<open>The watcher calls the callback of a timeout only when a positive one is configured.\<close>

definition watcherTimeout :: "vendor_state \<Rightarrow> (vendor_state \<times> vendor_action list) option" where
  "watcherTimeout g =
     (case g_vendor_interface g of
        None \<Rightarrow> Some (g, [])
      | Some v \<Rightarrow>
          (case watch_timeout v of
             None \<Rightarrow> Some (g, [])
           | Some t \<Rightarrow> if t > 0 then OnTimeout g else Some (g, [])))"

section \<open>Commands of the library\<close>

definition transmit_cb ::
  "16 word \<Rightarrow> nat option \<Rightarrow> write_outcome list \<Rightarrow> byte list \<Rightarrow> vendor_state \<Rightarrow> (vendor_state \<times> vendor_action list) option" where
  "transmit_cb opcode cb ws data g = vendorSend ws COMMAND data (g\<lparr>internal_cb := cb, internal_opcode := opcode\<rparr>)"

definition HCI_COMMAND_COMPLETE_EVENT :: byte where "HCI_COMMAND_COMPLETE_EVENT = 0x0E"

definition internal_command_event_match :: "16 word \<Rightarrow> byte list \<Rightarrow> bool option" where
  "internal_command_event_match opcode packet =
     (case element packet 0 of
        None \<Rightarrow> None
      | Some event_code \<Rightarrow>
          if event_code \<noteq> HCI_COMMAND_COMPLETE_EVENT then Some False
          else (case (element packet 3, element packet 4) of
              (Some low, Some high) \<Rightarrow> Some (word_of_nat (unat low + 256 * unat high) = opcode)
            | _ \<Rightarrow> None))"

definition HandleIncomingEvent :: "byte list \<Rightarrow> vendor_state \<Rightarrow> (vendor_state \<times> vendor_action list) option" where
  "HandleIncomingEvent packet g =
     (case g_vendor_interface g of
        None \<Rightarrow> None
      | Some v \<Rightarrow>
          (case (case internal_cb g of None \<Rightarrow> Some False | Some _ \<Rightarrow> internal_command_event_match (internal_opcode g) packet) of
             None \<Rightarrow> None
           | Some matched \<Rightarrow>
               (case (matched, internal_cb g) of
                  (True, Some saved_cb) \<Rightarrow> Some (g\<lparr>internal_cb := None\<rparr>, [InternalCallback saved_cb packet])
                | _ \<Rightarrow> map_option (\<lambda>c. (g, [EventReceived c packet])) (event_cb v))))"

section \<open>The service\<close>

text \<open>A null callback is refused; linking to the death of the client has no effect on the state here.\<close>

definition legacyInitialize :: "nat option \<Rightarrow> open_env \<Rightarrow> vendor_state \<Rightarrow> (vendor_state \<times> vendor_action list) option" where
  "legacyInitialize cb env g =
     (case cb of
        None \<Rightarrow> Some (g, [])
      | Some c \<Rightarrow>
          if g_vendor_interface g \<noteq> None then Some (g, [InitComplete c False])
          else map_option (\<lambda>(rc, g, acts). (g\<lparr>unlink_cb := Some c\<rparr>, acts @ (if rc then [] else [InitComplete c False])))
            (vendorInitialize c env g))"

definition legacyClose :: "vendor_state \<Rightarrow> (vendor_state \<times> vendor_action list) option" where
  "legacyClose g = (if unlink_cb g = None then None else vendorShutdown g)"

definition serviceDied :: "vendor_state \<Rightarrow> (vendor_state \<times> vendor_action list) option" where
  "serviceDied g = legacyClose g"

definition legacySendHciCommand where "legacySendHciCommand ws data = vendorSend ws COMMAND data"
definition legacySendAclData where "legacySendAclData ws data = vendorSend ws ACL_DATA data"
definition legacySendScoData where "legacySendScoData ws data = vendorSend ws SCO_DATA data"

section \<open>Runs\<close>

datatype vendor_operation =
    LInitialize "nat option" open_env
  | LClose
  | LDied
  | LSend "write_outcome list" PacketType "byte list"
  | LFirmware byte nat
  | LTimeout
  | LTransmit "16 word" "nat option" "write_outcome list" "byte list"
  | LEvent "byte list"

fun vendorStep :: "vendor_operation \<Rightarrow> vendor_state \<Rightarrow> (vendor_state \<times> vendor_action list) option" where
  "vendorStep (LInitialize cb env) = legacyInitialize cb env"
| "vendorStep LClose = legacyClose"
| "vendorStep LDied = serviceDied"
| "vendorStep (LSend ws type data) = vendorSend ws type data"
| "vendorStep (LFirmware result idle_timeout) = OnFirmwareConfigured result idle_timeout"
| "vendorStep LTimeout = watcherTimeout"
| "vendorStep (LTransmit opcode cb ws data) = transmit_cb opcode cb ws data"
| "vendorStep (LEvent packet) = HandleIncomingEvent packet"

fun vendorRun :: "vendor_operation list \<Rightarrow> vendor_state \<Rightarrow> (vendor_state \<times> vendor_action list) option" where
  "vendorRun [] g = Some (g, [])"
| "vendorRun (op # ops) g =
     (case vendorStep op g of
        None \<Rightarrow> None
      | Some (g', acts) \<Rightarrow> map_option (\<lambda>(g'', acts'). (g'', acts @ acts')) (vendorRun ops g'))"

section \<open>The wake line\<close>

text \<open>What the actions make of the wake line of the controller, which is down when it is powered on.\<close>

fun wakeLine :: "bool \<Rightarrow> vendor_action list \<Rightarrow> bool" where
  "wakeLine up [] = up"
| "wakeLine up (LibOp WakeAssert # acts) = wakeLine True acts"
| "wakeLine up (LibOp WakeDeassert # acts) = wakeLine False acts"
| "wakeLine up (LibOp (PowerCtrl on) # acts) = wakeLine False acts"
| "wakeLine up (_ # acts) = wakeLine up acts"

fun sentAwake :: "bool \<Rightarrow> vendor_action list \<Rightarrow> bool" where
  "sentAwake up [] = True"
| "sentAwake up (HciSend t d w # acts) = (up \<and> sentAwake up acts)"
| "sentAwake up (LibOp WakeAssert # acts) = sentAwake True acts"
| "sentAwake up (LibOp WakeDeassert # acts) = sentAwake False acts"
| "sentAwake up (LibOp (PowerCtrl on) # acts) = sentAwake False acts"
| "sentAwake up (_ # acts) = sentAwake up acts"

lemma wakeLine_append: "wakeLine up (acts @ acts') = wakeLine (wakeLine up acts) acts'"
  by (induction up acts rule: wakeLine.induct) simp_all

lemma sentAwake_append: "sentAwake up (acts @ acts') \<longleftrightarrow> sentAwake up acts \<and> sentAwake (wakeLine up acts) acts'"
  by (induction up acts rule: sentAwake.induct) simp_all

text \<open>The flag of the code follows the line while there is a transport.\<close>

definition wake_known :: "bool \<Rightarrow> vendor_state \<Rightarrow> bool" where
  "wake_known up g \<longleftrightarrow> (\<forall>v. g_vendor_interface g = Some v \<and> hci v \<noteq> None \<longrightarrow> up = (\<not> lpm_wake_deasserted g))"

lemma legacyInitialize_wake:
  "legacyInitialize cb env g = Some (g', acts) \<Longrightarrow> wake_known up g \<Longrightarrow> wake_known (wakeLine up acts) g' \<and> sentAwake up acts"
  by (auto simp: legacyInitialize_def vendorInitialize_def vendorOpen_def wake_known_def newVendorInterface_def Let_def
      split: option.splits if_splits)

lemma legacyClose_wake:
  "legacyClose g = Some (g', acts) \<Longrightarrow> wake_known up g \<Longrightarrow> wake_known (wakeLine up acts) g' \<and> sentAwake up acts"
  by (auto simp: legacyClose_def vendorShutdown_def vendorClose_def wake_known_def split: option.splits if_splits)

lemma vendorSend_wake:
  "vendorSend ws type data g = Some (g', acts) \<Longrightarrow> wake_known up g \<Longrightarrow> wake_known (wakeLine up acts) g' \<and> sentAwake up acts"
  by (auto simp: vendorSend_def wake_known_def Let_def split: option.splits if_splits)

lemma watcherTimeout_wake:
  "watcherTimeout g = Some (g', acts) \<Longrightarrow> wake_known up g \<Longrightarrow> wake_known (wakeLine up acts) g' \<and> sentAwake up acts"
  by (auto simp: watcherTimeout_def OnTimeout_def wake_known_def split: option.splits if_splits)

lemma OnFirmwareConfigured_wake:
  "OnFirmwareConfigured result t g = Some (g', acts) \<Longrightarrow> wake_known up g \<Longrightarrow>
     wake_known (wakeLine up acts) g' \<and> sentAwake up acts"
  by (auto simp: OnFirmwareConfigured_def wake_known_def Let_def split: option.splits if_splits)

lemma HandleIncomingEvent_wake:
  "HandleIncomingEvent packet g = Some (g', acts) \<Longrightarrow> wake_known up g \<Longrightarrow>
     wake_known (wakeLine up acts) g' \<and> sentAwake up acts"
  by (auto simp: HandleIncomingEvent_def wake_known_def split: option.splits if_splits bool.splits)

lemma transmit_wake:
  "transmit_cb opcode cb ws data g = Some (g', acts) \<Longrightarrow> wake_known up g \<Longrightarrow>
     wake_known (wakeLine up acts) g' \<and> sentAwake up acts"
  unfolding transmit_cb_def by (erule vendorSend_wake) (simp add: wake_known_def)

lemma vendorStep_wake:
  "vendorStep op g = Some (g', acts) \<Longrightarrow> wake_known up g \<Longrightarrow> wake_known (wakeLine up acts) g' \<and> sentAwake up acts"
  by (cases op)
    (simp_all add: serviceDied_def legacyInitialize_wake legacyClose_wake vendorSend_wake watcherTimeout_wake
      OnFirmwareConfigured_wake HandleIncomingEvent_wake transmit_wake)

lemma vendorRun_wake:
  "vendorRun ops g = Some (g', acts) \<Longrightarrow> wake_known up g \<Longrightarrow> wake_known (wakeLine up acts) g' \<and> sentAwake up acts"
proof (induction ops arbitrary: g acts up)
  case (Cons op ops)
  obtain g1 acts1 acts2 where "vendorStep op g = Some (g1, acts1)" and "vendorRun ops g1 = Some (g', acts2)"
    and "acts = acts1 @ acts2" using Cons.prems(1) by (auto split: option.splits)
  then show ?case
    using vendorStep_wake [of op g g1 acts1 up] Cons.IH [of g1 acts2 "wakeLine up acts1"] Cons.prems(2)
    by (simp add: wakeLine_append sentAwake_append)
qed simp

text \<open>After a packet, the line stays up over the next timeout and goes down at the one after it.\<close>

lemma idle_controller_sleeps:
  assumes "g_vendor_interface g = Some v" and "hci v = Some H4" and "0 < lpm_timeout_ms g"
    and "\<not> lpm_wake_deasserted g \<longrightarrow> watch_timeout v = Some (lpm_timeout_ms g)"
  shows "\<exists>g1 acts g' . vendorRun [LSend ws type data, LTimeout] g = Some (g1, acts) \<and> LibOp WakeDeassert \<notin> set acts \<and>
     vendorRun [LTimeout] g1 = Some (g', [LibOp WakeDeassert])"
  using assms by (auto simp: vendorSend_def transportSend_def watcherTimeout_def OnTimeout_def Let_def)

text \<open>A callback of the library is called at most once for each command that asked for one.\<close>

fun isInternal :: "vendor_action \<Rightarrow> bool" where
  "isInternal (InternalCallback cb p) = True"
| "isInternal _ = False"

fun asksCallback :: "vendor_operation \<Rightarrow> bool" where
  "asksCallback (LTransmit opcode cb ws data) = (cb \<noteq> None)"
| "asksCallback _ = False"

definition awaited :: "vendor_state \<Rightarrow> nat" where
  "awaited g = (if internal_cb g = None then 0 else 1)"

lemma initialize_internal:
  "legacyInitialize cb env g = Some (g', acts) \<Longrightarrow> internal_cb g' = internal_cb g \<and> filter isInternal acts = []"
  by (auto simp: legacyInitialize_def vendorInitialize_def vendorOpen_def Let_def split: option.splits if_splits)

lemma close_internal:
  "legacyClose g = Some (g', acts) \<Longrightarrow> internal_cb g' = internal_cb g \<and> filter isInternal acts = []"
  by (auto simp: legacyClose_def vendorShutdown_def vendorClose_def split: option.splits if_splits)

lemma send_internal:
  "vendorSend ws type data g = Some (g', acts) \<Longrightarrow> internal_cb g' = internal_cb g \<and> filter isInternal acts = []"
  by (auto simp: vendorSend_def Let_def split: option.splits if_splits)

lemma firmware_internal:
  "OnFirmwareConfigured result t g = Some (g', acts) \<Longrightarrow> internal_cb g' = internal_cb g \<and> filter isInternal acts = []"
  by (auto simp: OnFirmwareConfigured_def Let_def split: option.splits if_splits)

lemma timeout_internal:
  "watcherTimeout g = Some (g', acts) \<Longrightarrow> internal_cb g' = internal_cb g \<and> filter isInternal acts = []"
  by (auto simp: watcherTimeout_def OnTimeout_def split: option.splits if_splits)

lemma event_internal:
  "HandleIncomingEvent packet g = Some (g', acts) \<Longrightarrow> length (filter isInternal acts) + awaited g' \<le> awaited g"
  by (auto simp: HandleIncomingEvent_def awaited_def split: option.splits if_splits bool.splits)

lemma transmit_internal:
  "transmit_cb opcode cb ws data g = Some (g', acts) \<Longrightarrow> filter isInternal acts = [] \<and> internal_cb g' = cb"
  unfolding transmit_cb_def by (drule send_internal) simp

lemma vendorStep_internal:
  "vendorStep op g = Some (g', acts) \<Longrightarrow>
     length (filter isInternal acts) + awaited g' \<le> awaited g + (if asksCallback op then 1 else 0)"
proof (cases op)
  case (LEvent packet)
  moreover assume "vendorStep op g = Some (g', acts)"
  ultimately show ?thesis using event_internal [of packet g g' acts] by simp
next
  case (LTransmit opcode cb ws data)
  moreover assume "vendorStep op g = Some (g', acts)"
  ultimately show ?thesis using transmit_internal [of opcode cb ws data g g' acts] by (auto simp: awaited_def)
qed (auto simp: serviceDied_def awaited_def dest: initialize_internal close_internal send_internal firmware_internal timeout_internal)

lemma internal_callbacks_once:
  "vendorRun ops g = Some (g', acts) \<Longrightarrow>
     length (filter isInternal acts) + awaited g' \<le> awaited g + length (filter asksCallback ops)"
proof (induction ops arbitrary: g acts)
  case (Cons op ops)
  obtain g1 acts1 acts2 where "vendorStep op g = Some (g1, acts1)" and "vendorRun ops g1 = Some (g', acts2)"
    and "acts = acts1 @ acts2" using Cons.prems(1) by (auto split: option.splits)
  then show ?case using vendorStep_internal [of op g g1 acts1] Cons.IH [of g1 acts2] by (auto split: if_splits)
qed simp

lemma four_descriptors_refused:
  "vendorOpen c env g newVendorInterface = Some (rc, g', v, acts) \<Longrightarrow> fdCount env = 4 \<Longrightarrow> \<not> rc \<and> hci v = None"
  by (auto simp: vendorOpen_def newVendorInterface_def CH_MAX_def Let_def split: if_splits)

section \<open>The properties\<close>

text \<open>
  Claim C38 (packets_sent_awake). In every run of the service, whatever the client, the library, the timeouts and the controller do,
  no packet is written to the controller while its wake line is down.
\<close>

theorem packets_sent_awake:
  assumes "vendorRun ops vendorStart = Some (g, acts)"
  shows "sentAwake False acts"
  using vendorRun_wake [OF assms, of False] by (simp add: wake_known_def vendorStart_def)

text \<open>
  A library that opens a descriptor for each channel and says four, as its interface asks for, is refused:
  the client is told that the initialization failed. From then on, until the service is closed, every initialization is
  refused, whatever the library would say, and a packet that a client sends ends the process.
\<close>

theorem separate_channels_refused:
  assumes "g_vendor_interface g = None" and "fdCount env = 4"
    and "legacyInitialize (Some c) env g = Some (g', acts)"
  shows "last acts = InitComplete c False \<and>
     legacyInitialize (Some c') env' g' = Some (g', [InitComplete c' False]) \<and> legacySendHciCommand ws data g' = None"
proof -
  obtain rc g1 v acts1 where opened: "vendorOpen c env g newVendorInterface = Some (rc, g1, v, acts1)"
    and g': "g' = g1\<lparr>g_vendor_interface := Some v, unlink_cb := Some c\<rparr>"
    and acts: "acts = acts1 @ (if rc then [] else [InitComplete c False])"
    using assms(1,3) by (auto simp: legacyInitialize_def vendorInitialize_def split: option.splits)
  have "\<not> rc \<and> hci v = None" by (rule four_descriptors_refused [OF opened assms(2)])
  then show ?thesis
    by (simp add: g' acts legacyInitialize_def legacySendHciCommand_def vendorSend_def Let_def)
qed

text \<open>A library with one descriptor, and one with four.\<close>

definition exampleLibrary :: "int \<Rightarrow> open_env" where
  "exampleLibrary count = \<lparr>libraryOpened = True, symbolFound = True, hasAddress = True, initStatus = 0,
     fdCount = count, fdSlots = [11, 12, 13, 14]\<rparr>"

lemma packets_sent_awake_witness:
  "\<exists>g acts. vendorRun [LInitialize (Some 7) (exampleLibrary 1), LFirmware 0 100, LSend [Room 9] 1 [3, 12, 0], LTimeout, LTimeout,
     LSend [Room 9] 1 [3, 12, 0]] vendorStart = Some (g, acts) \<and> sentAwake False acts"
proof -
  let ?ops = "[LInitialize (Some 7) (exampleLibrary 1), LFirmware 0 100, LSend [Room 9] 1 [3, 12, 0], LTimeout, LTimeout,
     LSend [Room 9] 1 [3, 12, 0]]"
  have "vendorRun ?ops vendorStart \<noteq> None" by code_simp
  then obtain g acts where run: "vendorRun ?ops vendorStart = Some (g, acts)" by auto
  then show ?thesis using packets_sent_awake [OF run] by blast
qed

lemma separate_channels_refused_witness:
  "\<exists>g acts. legacyInitialize (Some 7) (exampleLibrary 4) vendorStart = Some (g, acts) \<and> last acts = InitComplete 7 False \<and>
     legacyInitialize (Some 8) (exampleLibrary 1) g = Some (g, [InitComplete 8 False])"
proof -
  have "legacyInitialize (Some 7) (exampleLibrary 4) vendorStart \<noteq> None" by code_simp
  then obtain g acts where init: "legacyInitialize (Some 7) (exampleLibrary 4) vendorStart = Some (g, acts)" by auto
  have "g_vendor_interface vendorStart = None" "fdCount (exampleLibrary 4) = 4"
    by (simp_all add: vendorStart_def exampleLibrary_def)
  from separate_channels_refused [OF this init] init show ?thesis by blast
qed

end
