(* ===== verification/Value_Generators.thy ===== *)
theory Value_Generators
  imports Fake_Obd2
begin

text \<open>
  The generators of fake values of \<^verbatim>\<open>fake_impl/GeneratorHub\<close>: \<^verbatim>\<open>LinearFakeValueGenerator.cpp\<close>, and \<^verbatim>\<open>JsonFakeValueGenerator.cpp\<close>
  from the events on that it parsed; reading the JSON text is left to the third-party parser. The clock \<^verbatim>\<open>elapsedRealtimeNano()\<close> is
  an argument. \<open>None\<close> is undefined behaviour: an overflow of a signed integer or a cast of a float out of the
  range of the type. The assertions of the code are compiled out.

  The locale \<open>event_source\<close> states what the hub needs of a generator, the interface \<^verbatim>\<open>FakeValueGenerator\<close>: its events do not go back in time.
\<close>

section \<open>The interface\<close>

locale event_source =
  fixes nextEvent :: "int \<Rightarrow> 'g \<Rightarrow> (VehiclePropValue option \<times> 'g) option"
    and steady :: "'g \<Rightarrow> bool"
    and lastTime :: "'g \<Rightarrow> int"
  assumes next_steady: "steady g \<Longrightarrow> nextEvent now g = Some (e, g') \<Longrightarrow> steady g'"
    and next_time: "steady g \<Longrightarrow> nextEvent now g = Some (Some v, g') \<Longrightarrow>
      pv_timestamp v = lastTime g' \<and> (if lastTime g = 0 then lastTime g' = now else lastTime g \<le> lastTime g')"
begin

text \<open>The events of a run of the generator, by the times at which it is asked.\<close>

fun events :: "int list \<Rightarrow> 'g \<Rightarrow> VehiclePropValue list" where
  "events [] g = []"
| "events (now # ticks) g =
     (case nextEvent now g of
        Some (Some v, g') \<Rightarrow> v # events ticks g'
      | _ \<Rightarrow> [])"

lemma events_from:
  "steady g \<Longrightarrow> lastTime g \<noteq> 0 \<Longrightarrow> 0 < lastTime g \<Longrightarrow>
     sorted (map pv_timestamp (events ticks g)) \<and> (\<forall>v \<in> set (events ticks g). lastTime g \<le> pv_timestamp v)"
proof (induction ticks arbitrary: g)
  case (Cons now ticks)
  show ?case
  proof (cases "\<exists>v g'. nextEvent now g = Some (Some v, g')")
    case True
    then obtain v g' where step: "nextEvent now g = Some (Some v, g')" by blast
    have t: "pv_timestamp v = lastTime g'" "lastTime g \<le> lastTime g'"
      using next_time [OF Cons.prems(1) step] Cons.prems(2) by simp_all
    have "sorted (map pv_timestamp (events ticks g')) \<and> (\<forall>v \<in> set (events ticks g'). lastTime g' \<le> pv_timestamp v)"
      by (rule Cons.IH [OF next_steady [OF Cons.prems(1) step]]) (use t Cons.prems in simp_all)
    then show ?thesis using step t by auto
  qed (auto split: option.splits)
qed simp

lemma events_sorted:
  assumes "steady g" and "0 \<le> lastTime g" and "list_all (\<lambda>now. 0 < now) ticks"
  shows "sorted (map pv_timestamp (events ticks g))"
proof (cases "lastTime g = 0")
  case False
  then show ?thesis using events_from [of g ticks] assms by simp
next
  case start: True
  show ?thesis
  proof (cases ticks)
    case (Cons now ticks')
    show ?thesis
    proof (cases "\<exists>v g'. nextEvent now g = Some (Some v, g')")
      case True
      then obtain v g' where step: "nextEvent now g = Some (Some v, g')" by blast
      have "pv_timestamp v = lastTime g'" "lastTime g' = now" using next_time [OF assms(1) step] start by simp_all
      then show ?thesis
        using events_from [of g' ticks'] next_steady [OF assms(1) step] assms(3) Cons step by simp
    qed (use Cons in \<open>auto split: option.splits\<close>)
  qed simp
qed

end

section \<open>The linear generator\<close>

record GeneratorCfg =
  gc_propId :: int32
  gc_middleValue :: fp
  gc_currentValue :: fp
  gc_dispersion :: fp
  gc_increment :: fp
  gc_interval :: int
  gc_lastEventTimestamp :: int

definition float_add :: "fp \<Rightarrow> fp \<Rightarrow> fp" where
  "float_add a b = fp_sub binary32 a (fp_neg b)"

definition initGenCfg :: "int32 \<Rightarrow> fp \<Rightarrow> fp \<Rightarrow> fp \<Rightarrow> fp \<Rightarrow> int \<Rightarrow> GeneratorCfg" where
  "initGenCfg genPropId middleValue initValue dispersion increment interval =
     (let initValue =
        (if fp_lt initValue (fp_sub binary32 middleValue dispersion) \<or> fp_le (float_add middleValue dispersion) initValue
         then middleValue else initValue)
      in \<lparr>gc_propId = genPropId, gc_middleValue = middleValue, gc_currentValue = initValue, gc_dispersion = dispersion,
          gc_increment = increment, gc_interval = interval, gc_lastEventTimestamp = 0\<rparr>)"

text \<open>The constructor from a request reads elements that the request may not have: \<open>None\<close>.\<close>

definition linearOfRequest :: "VehiclePropValue \<Rightarrow> GeneratorCfg option" where
  "linearOfRequest request =
     (let v = pv_value request
      in if 1 < length (int32Values v) \<and> 2 < length (floatValues v) \<and> 0 < length (int64Values v) then
           Some (initGenCfg (word_of_int (int32Values v ! 1)) (floatValues v ! 0) (floatValues v ! 0) (floatValues v ! 1)
             (floatValues v ! 2) (int64Values v ! 0))
         else None)"

text \<open>A signed sum and difference of 64 bits.\<close>

definition in_int64 :: "int \<Rightarrow> bool" where
  "in_int64 i \<longleftrightarrow> - (2 ^ 63) \<le> i \<and> i < 2 ^ 63"

definition linearValue :: "GeneratorCfg \<Rightarrow> RawPropValues option" where
  "linearValue g =
     (case getPropType (gc_propId g) of
           T_INT32 \<Rightarrow> map_option (\<lambda>i. raw_default\<lparr>int32Values := [i]\<rparr>) (fp_to_int 32 (gc_currentValue g))
         | T_INT64 \<Rightarrow> map_option (\<lambda>i. raw_default\<lparr>int64Values := [i]\<rparr>) (fp_to_int 64 (gc_currentValue g))
         | T_FLOAT \<Rightarrow> Some (raw_default\<lparr>floatValues := [gc_currentValue g]\<rparr>)
         | _ \<Rightarrow> Some raw_default)"

definition linearStep :: "GeneratorCfg \<Rightarrow> fp" where
  "linearStep g =
     (let currentValue = float_add (gc_currentValue g) (gc_increment g)
      in if fp_le (float_add (gc_middleValue g) (gc_dispersion g)) currentValue
         then fp_sub binary32 currentValue (fp_mul binary32 (FFin 2) (gc_dispersion g)) else currentValue)"

definition linearNextEvent :: "int \<Rightarrow> GeneratorCfg \<Rightarrow> (VehiclePropValue option \<times> GeneratorCfg) option" where
  "linearNextEvent now g =
     (let time = (if gc_lastEventTimestamp g = 0 then now else gc_lastEventTimestamp g + gc_interval g)
      in if \<not> in_int64 time then None
         else map_option (\<lambda>value.
             (Some \<lparr>pv_timestamp = time, pv_areaId = 0, pv_prop = gc_propId g, pv_status = AVAILABLE, pv_value = value\<rparr>,
              g\<lparr>gc_lastEventTimestamp := time, gc_currentValue := linearStep g\<rparr>))
           (linearValue g))"

section \<open>The generator of recorded events\<close>

record json_generator =
  mEventIndex :: nat
  mEvents :: "VehiclePropValue list"
  mLastEventTimestamp :: int
  mNumOfIterations :: int

definition newJsonGenerator :: "VehiclePropValue list \<Rightarrow> int \<Rightarrow> json_generator" where
  "newJsonGenerator parsed iteration =
     \<lparr>mEventIndex = 0, mEvents = parsed, mLastEventTimestamp = 0, mNumOfIterations = iteration\<rparr>"

definition hasNext :: "json_generator \<Rightarrow> bool" where
  "hasNext g \<longleftrightarrow> mNumOfIterations g \<noteq> 0 \<and> mEvents g \<noteq> []"

text \<open>The time of the next event: the first one now, then the recorded distances, and a millisecond between two iterations.\<close>

definition jsonNextTime :: "int \<Rightarrow> json_generator \<Rightarrow> int option" where
  "jsonNextTime now g =
     (if mLastEventTimestamp g = 0 then Some now
      else if mEventIndex g > 0 then
        let delay = pv_timestamp (mEvents g ! mEventIndex g) - pv_timestamp (mEvents g ! (mEventIndex g - 1))
        in if in_int64 delay \<and> in_int64 (mLastEventTimestamp g + delay) then Some (mLastEventTimestamp g + delay) else None
      else if in_int64 (mLastEventTimestamp g + 1000000) then Some (mLastEventTimestamp g + 1000000) else None)"

definition jsonNextEvent :: "int \<Rightarrow> json_generator \<Rightarrow> (VehiclePropValue option \<times> json_generator) option" where
  "jsonNextEvent now g =
     (if mNumOfIterations g = 0 \<or> mEvents g = [] then Some (None, g)
      else if \<not> mEventIndex g < length (mEvents g) then None
      else (case jsonNextTime now g of
          None \<Rightarrow> None
        | Some time \<Rightarrow>
            let index = mEventIndex g + 1;
                g' = (if index = length (mEvents g)
                  then g\<lparr>mEventIndex := 0,
                    mNumOfIterations := (if mNumOfIterations g > 0 then mNumOfIterations g - 1 else mNumOfIterations g)\<rparr>
                  else g\<lparr>mEventIndex := index\<rparr>)
            in Some (Some ((mEvents g ! mEventIndex g)\<lparr>pv_timestamp := time\<rparr>), g'\<lparr>mLastEventTimestamp := time\<rparr>)))"

text \<open>The bytes of a diagnostic frame: the bits of the sensors whose value is not zero; \<open>None\<close> is a bit outside of the bytes.\<close>

definition setBit :: "8 word list \<Rightarrow> nat \<Rightarrow> 8 word list option" where
  "setBit bytes idx =
     (if idx div 8 < length bytes then Some (bytes[idx div 8 := bytes ! (idx div 8) OR push_bit (idx mod 8) 1]) else None)"

fun setBits :: "nat \<Rightarrow> bool list \<Rightarrow> 8 word list \<Rightarrow> 8 word list option" where
  "setBits i [] bytes = Some bytes"
| "setBits i (b # bs) bytes = (case (if b then setBit bytes i else Some bytes) of None \<Rightarrow> None | Some bytes \<Rightarrow> setBits (i + 1) bs bytes)"

definition generateDiagnosticBytes :: "RawPropValues \<Rightarrow> 8 word list option" where
  "generateDiagnosticBytes v =
     (let byteSize = lastIntegerSensorIndex + lastFloatSensorIndex + 2;
          bytes = replicate ((byteSize + 7) div 8) 0
      in case setBits 0 (map (\<lambda>i. i \<noteq> 0) (int32Values v)) bytes of
           None \<Rightarrow> None
         | Some bytes \<Rightarrow> setBits (lastIntegerSensorIndex + 1) (map (\<lambda>x. \<not> fp_eq x (FFin 0)) (floatValues v)) bytes)"

text \<open>The bits are those of the values that are not zero: the integer sensors first, then the float sensors.\<close>

lemma setBits_bits:
  "setBits i bs bytes = Some out \<Longrightarrow> length out = length bytes \<and>
     (\<forall>j < 8 * length bytes. frame_bit out j \<longleftrightarrow> frame_bit bytes j \<or> (i \<le> j \<and> j < i + length bs \<and> bs ! (j - i)))"
proof (induction i bs bytes rule: setBits.induct)
  case (2 i b bs bytes)
  obtain bytes' where step: "(if b then setBit bytes i else Some bytes) = Some bytes'" and rest: "setBits (i + 1) bs bytes' = Some out"
    using 2(2) by (auto split: option.splits)
  have inside: "b \<Longrightarrow> i < 8 * length bytes" using step by (auto simp: setBit_def split: if_splits)
  have bits: "length bytes' = length bytes \<and> (\<forall>j < 8 * length bytes. frame_bit bytes' j \<longleftrightarrow> frame_bit bytes j \<or> (b \<and> j = i))"
    using step inside frame_bit_set [of i bytes] by (auto simp: setBit_def split: if_splits)
  have "(i + 1 \<le> j \<and> j < i + 1 + length bs \<and> bs ! (j - (i + 1)) \<or> b \<and> j = i) \<longleftrightarrow>
      (i \<le> j \<and> j < i + length (b # bs) \<and> (b # bs) ! (j - i))" for j
    by (cases "j = i") (auto simp: nth_Cons' Suc_le_eq)
  then show ?case using 2(1) [OF step rest] bits by (metis (no_types, opaque_lifting))
qed auto

lemma diagnostic_bits:
  assumes "generateDiagnosticBytes v = Some out"
  shows "\<forall>j < 8 * length out. frame_bit out j \<longleftrightarrow>
     j < length (int32Values v) \<and> int32Values v ! j \<noteq> 0 \<or>
     lastIntegerSensorIndex < j \<and> j \<le> lastIntegerSensorIndex + length (floatValues v) \<and>
       \<not> fp_eq (floatValues v ! (j - (lastIntegerSensorIndex + 1))) (FFin 0)"
proof -
  let ?zero = "replicate ((lastIntegerSensorIndex + lastFloatSensorIndex + 2 + 7) div 8) (0 :: 8 word)"
  obtain mid where ints: "setBits 0 (map (\<lambda>i. i \<noteq> 0) (int32Values v)) ?zero = Some mid"
    and floats: "setBits (lastIntegerSensorIndex + 1) (map (\<lambda>x. \<not> fp_eq x (FFin 0)) (floatValues v)) mid = Some out"
    using assms by (auto simp: generateDiagnosticBytes_def Let_def split: option.splits)
  have zero: "j < 8 * length ?zero \<Longrightarrow> \<not> frame_bit ?zero j" for j
    by (simp add: frame_bit_def less_mult_imp_div_less mult.commute)
  show ?thesis
    using setBits_bits [OF ints] setBits_bits [OF floats] zero by (auto simp: less_Suc_eq_le)
qed

section \<open>The generators of the hub\<close>

datatype FakeValueGenerator = LinearGenerator GeneratorCfg | JsonGenerator json_generator

fun generatorNext :: "int \<Rightarrow> FakeValueGenerator \<Rightarrow> (VehiclePropValue option \<times> FakeValueGenerator) option" where
  "generatorNext now (LinearGenerator g) = map_option (map_prod id LinearGenerator) (linearNextEvent now g)"
| "generatorNext now (JsonGenerator g) = map_option (map_prod id JsonGenerator) (jsonNextEvent now g)"

text \<open>Generators whose events do not go back: an interval that is not negative, recorded times in order.\<close>

definition linear_steady :: "GeneratorCfg \<Rightarrow> bool" where
  "linear_steady g \<longleftrightarrow> 0 \<le> gc_interval g"

definition json_steady :: "json_generator \<Rightarrow> bool" where
  "json_steady g \<longleftrightarrow> sorted (map pv_timestamp (mEvents g))"

fun generator_steady :: "FakeValueGenerator \<Rightarrow> bool" where
  "generator_steady (LinearGenerator g) = linear_steady g"
| "generator_steady (JsonGenerator g) = json_steady g"

fun generatorTime :: "FakeValueGenerator \<Rightarrow> int" where
  "generatorTime (LinearGenerator g) = gc_lastEventTimestamp g"
| "generatorTime (JsonGenerator g) = mLastEventTimestamp g"

interpretation linear: event_source linearNextEvent linear_steady gc_lastEventTimestamp
  by unfold_locales (auto simp: linearNextEvent_def linear_steady_def Let_def split: if_splits)

lemma jsonNextTime_steady:
  assumes "json_steady g" and "mEventIndex g < length (mEvents g)" and "jsonNextTime now g = Some time"
  shows "if mLastEventTimestamp g = 0 then time = now else mLastEventTimestamp g \<le> time"
proof -
  have "mEventIndex g > 0 \<Longrightarrow> pv_timestamp (mEvents g ! (mEventIndex g - 1)) \<le> pv_timestamp (mEvents g ! mEventIndex g)"
    using sorted_nth_mono [of "map pv_timestamp (mEvents g)" "mEventIndex g - 1" "mEventIndex g"] assms(1,2)
    by (simp add: json_steady_def)
  then show ?thesis using assms(3) by (auto simp: jsonNextTime_def Let_def split: if_splits)
qed

interpretation json: event_source jsonNextEvent json_steady mLastEventTimestamp
proof (unfold_locales, goal_cases)
  case (1 g now v g')
  then show ?case by (auto simp: jsonNextEvent_def json_steady_def Let_def split: if_splits option.splits)
next
  case (2 g now v g')
  then show ?case
    using jsonNextTime_steady [of g now] by (auto simp: jsonNextEvent_def Let_def split: if_splits option.splits)
qed

interpretation source: event_source generatorNext generator_steady generatorTime
proof (unfold_locales, goal_cases)
  case (1 g now v g')
  then show ?case by (cases g) (auto dest: linear.next_steady json.next_steady)
next
  case (2 g now v g')
  then show ?case by (cases g) (auto dest: linear.next_time json.next_time)
qed

end
