(* ===== verification/Generator_Hub.thy ===== *)
theory Generator_Hub
  imports Value_Generators "HOL-Library.Multiset" "HOL-Library.Sublist"
begin

text \<open>
  \<^verbatim>\<open>fake_impl/GeneratorHub/src/GeneratorHub.cpp\<close>: the generators by id, the queue of their next events, and the thread that emits
  them. A step of the thread runs from a point where it holds the lock to the next one where it waits; registrations happen in between.
  \<^verbatim>\<open>std::priority_queue\<close> leaves open which of the events of the same time is on top: \<open>pick\<close> is that choice.

  While the thread waits for the time of an event it keeps a reference to the top of the queue. A push may move the elements: \<open>None\<close>
  is the use of the reference after one, which happens when the wait ends by its time just as a generator is registered.
\<close>

type_synonym VhalEvent = "int32 \<times> VehiclePropValue"

abbreviation eventTime :: "VhalEvent \<Rightarrow> int" where
  "eventTime e \<equiv> pv_timestamp (snd e)"

definition soonest :: "(VhalEvent list \<Rightarrow> nat) \<Rightarrow> bool" where
  "soonest pick \<longleftrightarrow> (\<forall>q. q \<noteq> [] \<longrightarrow> pick q < length q \<and> (\<forall>e \<in> set q. eventTime (q ! pick q) \<le> eventTime e))"

definition queueTop :: "(VhalEvent list \<Rightarrow> nat) \<Rightarrow> VhalEvent list \<Rightarrow> VhalEvent" where
  "queueTop pick q = q ! pick q"

definition queuePop :: "(VhalEvent list \<Rightarrow> nat) \<Rightarrow> VhalEvent list \<Rightarrow> VhalEvent list" where
  "queuePop pick q = take (pick q) q @ drop (Suc (pick q)) q"

section \<open>State\<close>

text \<open>The thread at the start of its loop, waiting for a non-empty queue, waiting for the time of an event, or ended.\<close>

datatype hub_thread =
    Looping
  | WaitingNonEmpty
  | WaitingUntil VhalEvent bool
  | Ended

record GeneratorHub =
  mEventQueue :: "VhalEvent list"
  mGenerators :: "(int32, FakeValueGenerator) umap"
  mThread :: hub_thread
  mShuttingDownFlag :: bool

definition newGeneratorHub :: GeneratorHub where
  "newGeneratorHub = \<lparr>mEventQueue = [], mGenerators = [], mThread = Looping, mShuttingDownFlag = False\<rparr>"

section \<open>Registering\<close>

definition registerGenerator :: "int \<Rightarrow> int32 \<Rightarrow> FakeValueGenerator \<Rightarrow> GeneratorHub \<Rightarrow> GeneratorHub option" where
  "registerGenerator now gid generator hub =
     (case generatorNext now generator of
        None \<Rightarrow> None
      | Some (None, _) \<Rightarrow> Some hub
      | Some (Some event, generator') \<Rightarrow>
          let hub = (if map_of (mGenerators hub) gid = None
                then hub\<lparr>mEventQueue := mEventQueue hub @ [(gid, event)],
                  mThread := (case mThread hub of WaitingUntil e pushed \<Rightarrow> WaitingUntil e True | t \<Rightarrow> t)\<rparr>
                else hub)
          in Some (hub\<lparr>mGenerators := umap_put gid generator' (mGenerators hub)\<rparr>))"

definition unregisterGenerator :: "int32 \<Rightarrow> GeneratorHub \<Rightarrow> bool \<times> GeneratorHub" where
  "unregisterGenerator gid hub =
     (map_of (mGenerators hub) gid \<noteq> None, hub\<lparr>mGenerators := umap_erase gid (mGenerators hub)\<rparr>)"

definition shutDown :: "GeneratorHub \<Rightarrow> GeneratorHub" where
  "shutDown hub = hub\<lparr>mShuttingDownFlag := True\<rparr>"

section \<open>The thread\<close>

text \<open>Popping the events on top whose generator is gone.\<close>

function prune :: "(VhalEvent list \<Rightarrow> nat) \<Rightarrow> (int32, FakeValueGenerator) umap \<Rightarrow> VhalEvent list \<Rightarrow> VhalEvent list" where
  "prune pick generators q =
     (if q \<noteq> [] \<and> pick q < length q \<and> map_of generators (fst (queueTop pick q)) = None
      then prune pick generators (queuePop pick q) else q)"
  by pat_completeness auto

termination
  by (relation "measure (\<lambda>(pick, generators, q). length q)") (auto simp: queuePop_def)

declare prune.simps [simp del]

text \<open>Emitting the top of the queue, and pushing the next event of its generator.\<close>

definition handleEvent ::
  "(VhalEvent list \<Rightarrow> nat) \<Rightarrow> int \<Rightarrow> VhalEvent \<Rightarrow> GeneratorHub \<Rightarrow> (GeneratorHub \<times> VehiclePropValue list) option" where
  "handleEvent pick now curEvent hub =
     (let gid = fst curEvent;
          hub = hub\<lparr>mEventQueue := queuePop pick (mEventQueue hub), mThread := Looping\<rparr>
      in case map_of (mGenerators hub) gid of
           None \<Rightarrow> Some (hub, [snd curEvent])
         | Some generator \<Rightarrow>
             (case generatorNext now generator of
                None \<Rightarrow> None
              | Some (None, _) \<Rightarrow> Some (hub\<lparr>mGenerators := umap_erase gid (mGenerators hub)\<rparr>, [snd curEvent])
              | Some (Some event, generator') \<Rightarrow>
                  Some (hub\<lparr>mGenerators := umap_put gid generator' (mGenerators hub),
                    mEventQueue := mEventQueue hub @ [(gid, event)]\<rparr>, [snd curEvent])))"

definition nextWait ::
  "(VhalEvent list \<Rightarrow> nat) \<Rightarrow> int \<Rightarrow> GeneratorHub \<Rightarrow> (GeneratorHub \<times> VehiclePropValue list) option" where
  "nextWait pick now hub =
     (if mShuttingDownFlag hub then Some (hub\<lparr>mThread := Ended\<rparr>, [])
      else if mEventQueue hub = [] then Some (hub\<lparr>mThread := WaitingNonEmpty\<rparr>, [])
      else
        let curEvent = queueTop pick (mEventQueue hub)
        in if eventTime curEvent > now then Some (hub\<lparr>mThread := WaitingUntil curEvent False\<rparr>, [])
           else handleEvent pick now curEvent hub)"

text \<open>
  A step of the thread: after a wait for a time, \<open>timeout\<close> says whether the wait ended by its time, which is not before that of the event,
  or by a notification, which may also be spurious.
\<close>

definition threadStep ::
  "(VhalEvent list \<Rightarrow> nat) \<Rightarrow> int \<Rightarrow> bool \<Rightarrow> GeneratorHub \<Rightarrow> (GeneratorHub \<times> VehiclePropValue list) option" where
  "threadStep pick now timeout hub =
     (case mThread hub of
        Ended \<Rightarrow> Some (hub, [])
      | Looping \<Rightarrow>
          if mShuttingDownFlag hub then Some (hub\<lparr>mThread := Ended\<rparr>, [])
          else nextWait pick now (hub\<lparr>mEventQueue := prune pick (mGenerators hub) (mEventQueue hub)\<rparr>)
      | WaitingNonEmpty \<Rightarrow> nextWait pick now hub
      | WaitingUntil curEvent pushed \<Rightarrow>
          if \<not> timeout \<or> now < eventTime curEvent then Some (hub\<lparr>mThread := Looping\<rparr>, [])
          else if pushed then None
          else handleEvent pick now curEvent hub)"

section \<open>Runs\<close>

datatype hub_operation =
    Register int32 FakeValueGenerator
  | Unregister int32
  | ThreadRuns bool
  | ShutDown

text \<open>Each operation with the time at which it takes the lock; the events are emitted with the time of their step.\<close>

fun hubStep :: "(VhalEvent list \<Rightarrow> nat) \<Rightarrow> int \<times> hub_operation \<Rightarrow> GeneratorHub \<Rightarrow> (GeneratorHub \<times> VehiclePropValue list) option" where
  "hubStep pick (now, Register gid generator) hub = map_option (\<lambda>hub. (hub, [])) (registerGenerator now gid generator hub)"
| "hubStep pick (now, Unregister gid) hub = Some (snd (unregisterGenerator gid hub), [])"
| "hubStep pick (now, ThreadRuns timeout) hub = threadStep pick now timeout hub"
| "hubStep pick (now, ShutDown) hub = Some (shutDown hub, [])"

fun hubRun ::
  "(VhalEvent list \<Rightarrow> nat) \<Rightarrow> (int \<times> hub_operation) list \<Rightarrow> GeneratorHub \<Rightarrow>
     (GeneratorHub \<times> (int \<times> VehiclePropValue) list) option" where
  "hubRun pick [] hub = Some (hub, [])"
| "hubRun pick (op # ops) hub =
     (case hubStep pick op hub of
        None \<Rightarrow> None
      | Some (hub', vs) \<Rightarrow> map_option (\<lambda>(hub'', es). (hub'', map (Pair (fst op)) vs @ es)) (hubRun pick ops hub'))"

section \<open>The queue\<close>

lemma soonestD: "soonest pick \<Longrightarrow> q \<noteq> [] \<Longrightarrow> pick q < length q \<and> (\<forall>e \<in> set q. eventTime (queueTop pick q) \<le> eventTime e)"
  by (auto simp: soonest_def queueTop_def)

lemma queue_split:
  assumes "pick q < length q"
  shows "mset q = add_mset (queueTop pick q) (mset (queuePop pick q))"
proof -
  have "q = take (pick q) q @ q ! pick q # drop (Suc (pick q)) q" using assms by (rule id_take_nth_drop)
  then have "mset q = mset (take (pick q) q @ q ! pick q # drop (Suc (pick q)) q)" by simp
  then show ?thesis by (simp add: queueTop_def queuePop_def)
qed

lemma queue_members:
  assumes "pick q < length q"
  shows "set q = insert (queueTop pick q) (set (queuePop pick q))"
    and "distinct (map fst q) \<longleftrightarrow> fst (queueTop pick q) \<notin> fst ` set (queuePop pick q) \<and> distinct (map fst (queuePop pick q))"
proof -
  note split = queue_split [of pick q, OF assms]
  show "set q = insert (queueTop pick q) (set (queuePop pick q))"
    using arg_cong [OF split, of set_mset] by simp
  have "mset (map fst q) = mset (map fst (queueTop pick q # queuePop pick q))" using split by simp
  then have "distinct (map fst q) \<longleftrightarrow> distinct (map fst (queueTop pick q # queuePop pick q))"
    by (rule mset_eq_imp_distinct_iff)
  then show "distinct (map fst q) \<longleftrightarrow> fst (queueTop pick q) \<notin> fst ` set (queuePop pick q) \<and> distinct (map fst (queuePop pick q))"
    by simp
qed

text \<open>Pruning keeps the events of the generators that are registered.\<close>

lemma prune_facts:
  "set (prune pick gens q) \<subseteq> set q \<and> {e \<in> set q. map_of gens (fst e) \<noteq> None} \<subseteq> set (prune pick gens q) \<and>
     (distinct (map fst q) \<longrightarrow> distinct (map fst (prune pick gens q)))"
proof (induction pick gens q rule: prune.induct)
  case (1 pick gens q)
  show ?case
  proof (cases "q \<noteq> [] \<and> pick q < length q \<and> map_of gens (fst (queueTop pick q)) = None")
    case True
    then have step: "prune pick gens q = prune pick gens (queuePop pick q)" by (simp add: prune.simps [of pick gens q])
    show ?thesis
      using 1 [OF True] queue_members [of pick q] True unfolding step by auto
  qed (auto simp: prune.simps [of pick gens q])
qed

section \<open>No generator is forgotten\<close>

text \<open>The reference that the thread waits with is the top of the queue until something is pushed.\<close>

definition waiting_ok :: "(VhalEvent list \<Rightarrow> nat) \<Rightarrow> GeneratorHub \<Rightarrow> bool" where
  "waiting_ok pick hub \<longleftrightarrow>
     (\<forall>e. mThread hub = WaitingUntil e False \<longrightarrow> mEventQueue hub \<noteq> [] \<and> e = queueTop pick (mEventQueue hub))"

definition covered :: "GeneratorHub \<Rightarrow> bool" where
  "covered hub \<longleftrightarrow> (\<forall>gid gen. map_of (mGenerators hub) gid = Some gen \<longrightarrow> gid \<in> fst ` set (mEventQueue hub))"

lemma registered:
  assumes "registerGenerator now gid gen hub = Some hub'"
  obtains "hub' = hub"
  | v gen' where "generatorNext now gen = Some (Some v, gen')" and "map_of (mGenerators hub) gid \<noteq> None"
    and "hub' = hub\<lparr>mGenerators := umap_put gid gen' (mGenerators hub)\<rparr>"
  | v gen' where "generatorNext now gen = Some (Some v, gen')" and "map_of (mGenerators hub) gid = None"
    and "mGenerators hub' = umap_put gid gen' (mGenerators hub)" and "mEventQueue hub' = mEventQueue hub @ [(gid, v)]"
    and "\<forall>e. mThread hub' \<noteq> WaitingUntil e False"
proof (cases "generatorNext now gen")
  case None
  then show ?thesis using assms by (simp add: registerGenerator_def)
next
  case (Some result)
  obtain event gen' where result: "result = (event, gen')" by (cases result)
  show ?thesis
  proof (cases event)
    case None
    then show ?thesis using that(1) assms Some result by (simp add: registerGenerator_def)
  next
    case event: (Some v)
    note gen = Some [unfolded result event]
    show ?thesis
    proof (cases "map_of (mGenerators hub) gid")
      case None
      then show ?thesis
        using that(3) [OF gen None] assms gen None
        by (cases "mThread hub") (auto simp: registerGenerator_def Let_def)
    next
      case (Some old)
      then show ?thesis using that(2) [OF gen] Some assms gen by (simp add: registerGenerator_def Let_def)
    qed
  qed
qed

lemma register_covered:
  assumes "registerGenerator now gid gen hub = Some hub'" and "waiting_ok pick hub" and "covered hub"
  shows "waiting_ok pick hub' \<and> covered hub'"
  using assms(1)
proof (cases rule: registered)
  case 1
  then show ?thesis using assms by simp
next
  case (2 v gen')
  then show ?thesis using assms(2,3) by (auto simp: waiting_ok_def covered_def split: if_splits)
next
  case (3 v gen')
  then show ?thesis using assms(3) by (auto simp: waiting_ok_def covered_def split: if_splits)
qed

lemma handled:
  assumes "handleEvent pick now e hub = Some (hub', vs)"
  obtains "vs = [snd e]" and "mThread hub' = Looping" and "map_of (mGenerators hub) (fst e) = None"
    and "mGenerators hub' = mGenerators hub" and "mEventQueue hub' = queuePop pick (mEventQueue hub)"
  | gen gen' where "vs = [snd e]" and "mThread hub' = Looping" and "map_of (mGenerators hub) (fst e) = Some gen"
    and "generatorNext now gen = Some (None, gen')"
    and "mGenerators hub' = umap_erase (fst e) (mGenerators hub)" and "mEventQueue hub' = queuePop pick (mEventQueue hub)"
  | gen gen' v where "vs = [snd e]" and "mThread hub' = Looping" and "map_of (mGenerators hub) (fst e) = Some gen"
    and "generatorNext now gen = Some (Some v, gen')" and "mGenerators hub' = umap_put (fst e) gen' (mGenerators hub)"
    and "mEventQueue hub' = queuePop pick (mEventQueue hub) @ [(fst e, v)]"
proof (cases "map_of (mGenerators hub) (fst e)")
  case None
  then show ?thesis using that(1) assms by (auto simp: handleEvent_def Let_def)
next
  case (Some gen)
  then obtain event gen' where step: "generatorNext now gen = Some (event, gen')"
    using assms by (cases "generatorNext now gen") (auto simp: handleEvent_def Let_def)
  show ?thesis
  proof (cases event)
    case None
    show ?thesis by (rule that(2) [OF _ _ Some step [unfolded None]]) (use assms Some step None in \<open>auto simp: handleEvent_def Let_def\<close>)
  next
    case (Some v)
    note gen = \<open>map_of (mGenerators hub) (fst e) = Some gen\<close>
    show ?thesis by (rule that(3) [OF _ _ gen step [unfolded Some]]) (use assms Some step gen in \<open>auto simp: handleEvent_def Let_def\<close>)
  qed
qed

lemma handleEvent_covered:
  assumes handle: "handleEvent pick now (queueTop pick (mEventQueue hub)) hub = Some (hub', vs)"
    and "soonest pick" and "mEventQueue hub \<noteq> []" and "covered hub"
  shows "waiting_ok pick hub' \<and> covered hub'"
proof -
  let ?q = "mEventQueue hub"
  have members: "set ?q = insert (queueTop pick ?q) (set (queuePop pick ?q))"
    using queue_members(1) soonestD [OF assms(2,3)] by blast
  have keys: "gid = fst (queueTop pick ?q) \<or> gid \<in> fst ` set (queuePop pick ?q)"
    if "map_of (mGenerators hub) gid = Some gen" for gid gen
    using assms(4) that unfolding covered_def members by blast
  from handle show ?thesis
  proof (cases rule: handled)
    case 1
    then show ?thesis using keys unfolding covered_def waiting_ok_def by (metis hub_thread.distinct(3) option.distinct(1))
  next
    case (2 gen gen')
    then show ?thesis using keys unfolding covered_def waiting_ok_def
      by (metis fun_upd_apply hub_thread.distinct(3) map_of_umap_erase option.distinct(1))
  next
    case (3 gen gen' v)
    have "gid \<in> fst ` set (queuePop pick ?q @ [(fst (queueTop pick ?q), v)])"
      if "map_of (umap_put (fst (queueTop pick ?q)) gen' (mGenerators hub)) gid = Some g" for gid g
      using keys [of gid g] that by (cases "gid = fst (queueTop pick ?q)") auto
    then show ?thesis using 3 by (simp add: covered_def waiting_ok_def)
  qed
qed

text \<open>What the part of a step after a wait does.\<close>

lemma waited:
  assumes "nextWait pick now hub = Some (hub', vs)"
  obtains t where "hub' = hub\<lparr>mThread := t\<rparr>" and "vs = []"
    and "\<forall>e. t = WaitingUntil e False \<longrightarrow> mEventQueue hub \<noteq> [] \<and> e = queueTop pick (mEventQueue hub)"
  | "mEventQueue hub \<noteq> []" and "eventTime (queueTop pick (mEventQueue hub)) \<le> now"
    and "handleEvent pick now (queueTop pick (mEventQueue hub)) hub = Some (hub', vs)"
proof (cases "mShuttingDownFlag hub \<or> mEventQueue hub = [] \<or> now < eventTime (queueTop pick (mEventQueue hub))")
  case True
  then show ?thesis using that(1) assms by (auto simp: nextWait_def Let_def split: if_splits)
next
  case False
  then show ?thesis using that(2) assms by (auto simp: nextWait_def Let_def)
qed

lemma nextWait_covered:
  assumes "nextWait pick now hub = Some (hub', vs)" and "soonest pick" and "covered hub"
  shows "waiting_ok pick hub' \<and> covered hub'"
  using assms(1)
proof (cases rule: waited)
  case (1 t)
  then show ?thesis using assms(3) by (simp add: waiting_ok_def covered_def)
next
  case 2
  then show ?thesis using handleEvent_covered assms(2,3) by blast
qed

lemma threadStep_covered:
  assumes step: "threadStep pick now timeout hub = Some (hub', vs)" and pick: "soonest pick"
    and ok: "waiting_ok pick hub" "covered hub"
  shows "waiting_ok pick hub' \<and> covered hub'"
proof (cases "mThread hub")
  case Looping
  let ?hub = "hub\<lparr>mEventQueue := prune pick (mGenerators hub) (mEventQueue hub)\<rparr>"
  have "covered ?hub" using ok(2) prune_facts [of pick "mGenerators hub" "mEventQueue hub"]
    unfolding covered_def by force
  then show ?thesis
    using step Looping ok nextWait_covered [OF _ pick, of now ?hub hub' vs]
    by (auto simp: threadStep_def waiting_ok_def covered_def split: if_splits)
next
  case WaitingNonEmpty
  then show ?thesis using step nextWait_covered [OF _ pick ok(2)] by (simp add: threadStep_def)
next
  case (WaitingUntil e pushed)
  show ?thesis
  proof (cases "\<not> timeout \<or> now < eventTime e")
    case True
    then show ?thesis using step WaitingUntil ok by (auto simp: threadStep_def waiting_ok_def covered_def)
  next
    case False
    then have "\<not> pushed" and handled: "handleEvent pick now e hub = Some (hub', vs)"
      using step WaitingUntil by (auto simp: threadStep_def split: if_splits)
    then have "mEventQueue hub \<noteq> []" and "e = queueTop pick (mEventQueue hub)"
      using ok(1) WaitingUntil by (auto simp: waiting_ok_def)
    then show ?thesis using handleEvent_covered [of pick now hub hub' vs] handled pick ok(2) by simp
  qed
next
  case Ended
  then show ?thesis using step ok by (simp add: threadStep_def)
qed

lemma hubStep_covered:
  "hubStep pick op hub = Some (hub', vs) \<Longrightarrow> soonest pick \<Longrightarrow> waiting_ok pick hub \<Longrightarrow> covered hub \<Longrightarrow>
     waiting_ok pick hub' \<and> covered hub'"
proof (cases "(pick, op, hub)" rule: hubStep.cases)
  case (1 pick' now gid gen hub'')
  moreover assume "hubStep pick op hub = Some (hub', vs)" "waiting_ok pick hub" "covered hub"
  ultimately show ?thesis using register_covered by auto
next
  case (3 pick' now timeout hub'')
  moreover assume "hubStep pick op hub = Some (hub', vs)" "soonest pick" "waiting_ok pick hub" "covered hub"
  ultimately show ?thesis using threadStep_covered by simp
qed (auto simp: unregisterGenerator_def shutDown_def waiting_ok_def covered_def split: if_splits)

lemma hubRun_covered:
  "hubRun pick ops hub = Some (hub', es) \<Longrightarrow> soonest pick \<Longrightarrow> waiting_ok pick hub \<Longrightarrow> covered hub \<Longrightarrow>
     waiting_ok pick hub' \<and> covered hub'"
proof (induction ops arbitrary: hub es)
  case (Cons op ops)
  obtain hub1 vs es' where "hubStep pick op hub = Some (hub1, vs)" and "hubRun pick ops hub1 = Some (hub', es')"
    using Cons.prems(1) by (auto split: option.splits)
  then show ?case using hubStep_covered [of pick op hub hub1 vs] Cons by blast
qed simp

section \<open>The events that a generator still has to emit\<close>

text \<open>The ids that a run registers, and the events that a generator makes when it is asked at some times.\<close>

fun registeredIds :: "(int \<times> hub_operation) list \<Rightarrow> int32 list" where
  "registeredIds [] = []"
| "registeredIds ((now, Register gid gen) # ops) = gid # registeredIds ops"
| "registeredIds (_ # ops) = registeredIds ops"

fun generates :: "FakeValueGenerator \<Rightarrow> int list \<Rightarrow> (VehiclePropValue list \<times> FakeValueGenerator) option" where
  "generates gen [] = Some ([], gen)"
| "generates gen (now # nows) =
     (case generatorNext now gen of
        Some (Some v, gen') \<Rightarrow> map_option (\<lambda>(vs, gen''). (v # vs, gen'')) (generates gen' nows)
      | _ \<Rightarrow> None)"

lemma generates_snoc:
  "generates gen nows = Some (vs, gen') \<Longrightarrow> generatorNext now gen' = Some (Some v, gen'') \<Longrightarrow>
     generates gen (nows @ [now]) = Some (vs @ [v], gen'')"
  by (induction gen nows arbitrary: vs rule: generates.induct) (auto split: option.splits)

lemma registeredIds_append [simp]: "registeredIds (ops @ ops') = registeredIds ops @ registeredIds ops'"
  by (induction ops rule: registeredIds.induct) simp_all

lemma registeredIds_member: "(now, Register gid gen) \<in> set ops \<Longrightarrow> gid \<in> set (registeredIds ops)"
  by (induction ops rule: registeredIds.induct) auto

lemma filter_pop:
  assumes "pick q < length q"
  shows "\<not> P (queueTop pick q) \<Longrightarrow> filter P (queuePop pick q) = filter P q"
    and "P (queueTop pick q) \<Longrightarrow> filter P q = [e] \<Longrightarrow> queueTop pick q = e \<and> filter P (queuePop pick q) = []"
proof -
  have "q = take (pick q) q @ q ! pick q # drop (Suc (pick q)) q" using assms by (rule id_take_nth_drop)
  then have q: "filter P q = filter P (take (pick q) q) @ filter P [queueTop pick q] @ filter P (drop (Suc (pick q)) q)"
    unfolding queueTop_def filter_append [symmetric] by simp
  show "filter P (queuePop pick q) = filter P q" if "\<not> P (queueTop pick q)" using q that by (simp add: queuePop_def)
  show "queueTop pick q = e \<and> filter P (queuePop pick q) = []" if "P (queueTop pick q)" "filter P q = [e]"
    using q that by (auto simp: queuePop_def append_eq_Cons_conv Cons_eq_append_conv)
qed

lemma filter_prune:
  "map_of gens gid \<noteq> None \<Longrightarrow> filter (\<lambda>e. fst e = gid) (prune pick gens q) = filter (\<lambda>e. fst e = gid) q"
proof (induction pick gens q rule: prune.induct)
  case (1 pick gens q)
  show ?case
  proof (cases "q \<noteq> [] \<and> pick q < length q \<and> map_of gens (fst (queueTop pick q)) = None")
    case True
    then have "fst (queueTop pick q) \<noteq> gid" using 1(2) by auto
    then have "filter (\<lambda>e. fst e = gid) (queuePop pick q) = filter (\<lambda>e. fst e = gid) q" using True by (simp add: filter_pop(1))
    then show ?thesis using 1(1) [OF True 1(2)] True by (simp add: prune.simps [of pick gens q])
  qed (auto simp: prune.simps [of pick gens q])
qed

text \<open>
  A generator registered by the operations \<open>ops\<close> has been asked when it was registered and each time one of its events was
  emitted; its events were emitted in order, all but the last, which is its only event in the queue.
\<close>

definition followed ::
  "(int \<times> hub_operation) list \<Rightarrow> (int \<times> VehiclePropValue) list \<Rightarrow> int32 \<Rightarrow> FakeValueGenerator \<Rightarrow> VhalEvent list \<Rightarrow> bool" where
  "followed ops es gid gen q \<longleftrightarrow> (\<exists>start gen0 emitted v. (start, Register gid gen0) \<in> set ops \<and> subseq emitted es \<and>
     generates gen0 (start # map fst emitted) = Some (map snd emitted @ [v], gen) \<and>
     filter (\<lambda>e. fst e = gid) q = [(gid, v)])"

definition all_followed ::
  "(int \<times> hub_operation) list \<Rightarrow> (int \<times> VehiclePropValue) list \<Rightarrow> GeneratorHub \<Rightarrow> bool" where
  "all_followed ops es hub \<longleftrightarrow> fst ` set (mEventQueue hub) \<subseteq> set (registeredIds ops) \<and>
     (\<forall>gid gen. map_of (mGenerators hub) gid = Some gen \<longrightarrow> followed ops es gid gen (mEventQueue hub))"

lemma followed_later: "followed ops es gid gen q \<Longrightarrow> filter (\<lambda>e. fst e = gid) q' = filter (\<lambda>e. fst e = gid) q \<Longrightarrow>
    followed (ops @ ops') (es @ es') gid gen q'"
  unfolding followed_def by (metis UnI1 set_append subseq_rev_drop_many)

lemma all_followed_later:
  "all_followed ops es hub \<Longrightarrow> mEventQueue hub' = mEventQueue hub \<Longrightarrow>
     (\<And>gid gen. map_of (mGenerators hub') gid = Some gen \<Longrightarrow> map_of (mGenerators hub) gid = Some gen) \<Longrightarrow>
     all_followed (ops @ ops') (es @ es') hub'"
  unfolding all_followed_def using followed_later [where q = "mEventQueue hub" and q' = "mEventQueue hub"]
  by (simp add: le_supI1)

lemma register_followed:
  assumes "registerGenerator now gid gen hub = Some hub'" and fol: "all_followed ops es hub"
    and new: "gid \<notin> set (registeredIds ops)"
  shows "all_followed (ops @ [(now, Register gid gen)]) es hub'"
  using assms(1)
proof (cases rule: registered)
  case 1
  then show ?thesis using all_followed_later [OF fol, of hub' _ "[]"] by simp
next
  case (2 v gen')
  then obtain old where "map_of (mGenerators hub) gid = Some old" by blast
  then have "followed ops es gid old (mEventQueue hub)" using fol by (simp add: all_followed_def)
  then show ?thesis using new registeredIds_member by (auto simp: followed_def)
next
  case (3 v gen')
  let ?ops = "ops @ [(now, Register gid gen)]"
  have q: "filter (\<lambda>e. fst e = gid) (mEventQueue hub) = []"
    using fol new by (auto simp: all_followed_def filter_empty_conv)
  have "followed ?ops es gid gen' (mEventQueue hub')"
    unfolding followed_def
    by (rule exI [of _ now], rule exI [of _ gen], rule exI [of _ "[]"], rule exI [of _ v]) (simp add: 3(1,4) q)
  moreover have "followed ?ops es g x (mEventQueue hub')" if "g \<noteq> gid" "map_of (mGenerators hub) g = Some x" for g x
    using fol that followed_later [of ops es g x "mEventQueue hub" _ "[(now, Register gid gen)]" "[]"]
    by (simp add: all_followed_def 3(4))
  moreover have "fst ` set (mEventQueue hub') \<subseteq> set (registeredIds ?ops)"
    using fol by (auto simp: all_followed_def 3(4))
  ultimately show ?thesis unfolding all_followed_def 3(3) map_of_umap_put fun_upd_apply by (metis option.inject)
qed

lemma handle_followed:
  assumes handle: "handleEvent pick now (queueTop pick (mEventQueue hub)) hub = Some (hub', vs)"
    and "soonest pick" and "mEventQueue hub \<noteq> []" and fol: "all_followed ops es hub"
  shows "all_followed ops (es @ map (Pair now) vs) hub'"
proof -
  let ?q = "mEventQueue hub" and ?e = "queueTop pick (mEventQueue hub)"
  have pick: "pick ?q < length ?q" using soonestD [OF assms(2,3)] by blast
  have members: "set ?q = insert ?e (set (queuePop pick ?q))" using queue_members(1) [of pick ?q] pick by blast
  have ids: "fst ` set (queuePop pick ?q) \<subseteq> set (registeredIds ops)" "fst ?e \<in> set (registeredIds ops)"
    using fol members by (auto simp: all_followed_def)
  have other: "followed ops (es @ es') g x (queuePop pick ?q @ q')"
    if "map_of (mGenerators hub) g = Some x" "g \<noteq> fst ?e" "\<forall>e \<in> set q'. fst e \<noteq> g" for g x es' q'
    using followed_later [of ops es g x ?q "queuePop pick ?q @ q'" "[]" es'] fol that filter_pop(1) [of pick ?q] pick
    by (simp add: all_followed_def filter_empty_conv)
  have result: ?thesis
    if "set (mEventQueue hub') = set (queuePop pick ?q @ q')" and "mEventQueue hub' = queuePop pick ?q @ q'" and "fst ` set q' \<subseteq> {fst ?e}"
      and "\<And>g x. map_of (mGenerators hub') g = Some x \<Longrightarrow> g \<noteq> fst ?e \<Longrightarrow> map_of (mGenerators hub) g = Some x"
      and "\<And>x. map_of (mGenerators hub') (fst ?e) = Some x \<Longrightarrow>
        followed ops (es @ map (Pair now) vs) (fst ?e) x (queuePop pick ?q @ q')" for q'
    unfolding all_followed_def that(2)
  proof (intro conjI allI impI)
    show "fst ` set (queuePop pick ?q @ q') \<subseteq> set (registeredIds ops)" using ids that(3) by auto
    fix g x assume x: "map_of (mGenerators hub') g = Some x"
    show "followed ops (es @ map (Pair now) vs) g x (queuePop pick ?q @ q')"
    proof (cases "g = fst ?e")
      case True
      then show ?thesis using that(5) x by simp
    next
      case False
      then have "\<forall>e \<in> set q'. fst e \<noteq> g" using that(3) by auto
      then show ?thesis using other that(4) x False by blast
    qed
  qed
  from handle show ?thesis
  proof (cases rule: handled)
    case 1
    show ?thesis by (rule result [of "[]"]) (simp_all add: 1)
  next
    case (2 gen gen')
    show ?thesis by (rule result [of "[]"]) (simp_all add: 2)
  next
    case (3 gen gen' v)
    obtain start gen0 emitted u where old: "(start, Register (fst ?e) gen0) \<in> set ops" "subseq emitted es"
      "generates gen0 (start # map fst emitted) = Some (map snd emitted @ [u], gen)"
      "filter (\<lambda>e. fst e = fst ?e) ?q = [(fst ?e, u)]"
      using fol 3(3) unfolding all_followed_def followed_def by blast
    have top: "?e = (fst ?e, u)" "filter (\<lambda>e. fst e = fst ?e) (queuePop pick ?q) = []"
      using filter_pop(2) [where pick = pick and q = ?q and P = "\<lambda>e. fst e = fst ?e" and e = "(fst ?e, u)"] pick old(4) by simp_all
    then have vs: "map (Pair now) vs = [(now, u)]" using 3(1) by (metis list.simps(8,9) snd_conv)
    have "subseq (emitted @ [(now, u)]) (es @ [(now, u)])" using old(2) by (simp add: list_emb_append_mono)
    moreover have "generates gen0 (start # map fst (emitted @ [(now, u)])) = Some (map snd (emitted @ [(now, u)]) @ [v], gen')"
      using generates_snoc [OF old(3) 3(4)] by simp
    ultimately have "followed ops (es @ [(now, u)]) (fst ?e) gen' (queuePop pick ?q @ [(fst ?e, v)])"
      unfolding followed_def
      by (intro exI [of _ start] exI [of _ gen0] exI [of _ "emitted @ [(now, u)]"] exI [of _ v]) (simp add: old(1) top(2))
    then show ?thesis by (intro result [of "[(fst ?e, v)]"]) (simp_all add: 3(5,6) vs)
  qed
qed

lemma nextWait_followed:
  assumes "nextWait pick now hub = Some (hub', vs)" and "soonest pick" and "all_followed ops es hub"
  shows "all_followed ops (es @ map (Pair now) vs) hub'"
  using assms(1)
proof (cases rule: waited)
  case (1 t)
  then show ?thesis using all_followed_later [OF assms(3), of hub' "[]" "[]"] by simp
next
  case 2
  then show ?thesis using handle_followed assms(2,3) by blast
qed

lemma threadStep_followed:
  assumes step: "threadStep pick now timeout hub = Some (hub', vs)" and pick: "soonest pick" and ok: "waiting_ok pick hub"
    and fol: "all_followed ops es hub"
  shows "all_followed ops (es @ map (Pair now) vs) hub'"
proof (cases "mThread hub")
  case Looping
  let ?hub = "hub\<lparr>mEventQueue := prune pick (mGenerators hub) (mEventQueue hub)\<rparr>"
  have "set (prune pick (mGenerators hub) (mEventQueue hub)) \<subseteq> set (mEventQueue hub)" using prune_facts by blast
  then have ids: "fst ` set (mEventQueue ?hub) \<subseteq> set (registeredIds ops)"
    using fol by (auto simp: all_followed_def)
  have "followed ops es gid gen (mEventQueue ?hub)" if "map_of (mGenerators hub) gid = Some gen" for gid gen
    using followed_later [of ops es gid gen "mEventQueue hub" "mEventQueue ?hub" "[]" "[]"] fol that
      filter_prune [of "mGenerators hub" gid pick "mEventQueue hub"] by (simp add: all_followed_def)
  with ids have fol': "all_followed ops es ?hub" by (simp add: all_followed_def)
  show ?thesis
  proof (cases "mShuttingDownFlag hub")
    case True
    then show ?thesis using step Looping all_followed_later [OF fol, of hub' "[]" "[]"] by (auto simp: threadStep_def)
  next
    case False
    then show ?thesis using step Looping nextWait_followed [OF _ pick fol'] by (simp add: threadStep_def)
  qed
next
  case WaitingNonEmpty
  then show ?thesis using step nextWait_followed [OF _ pick fol] by (simp add: threadStep_def)
next
  case (WaitingUntil e pushed)
  show ?thesis
  proof (cases "\<not> timeout \<or> now < eventTime e")
    case True
    then show ?thesis using step WaitingUntil all_followed_later [OF fol, of hub' "[]" "[]"] by (auto simp: threadStep_def)
  next
    case False
    then have "\<not> pushed" and handled: "handleEvent pick now e hub = Some (hub', vs)"
      using step WaitingUntil by (auto simp: threadStep_def split: if_splits)
    then have "mEventQueue hub \<noteq> []" and "e = queueTop pick (mEventQueue hub)"
      using ok WaitingUntil by (auto simp: waiting_ok_def)
    then show ?thesis using handle_followed [of pick now hub hub' vs] handled pick fol by simp
  qed
next
  case Ended
  then show ?thesis using step fol by (simp add: threadStep_def)
qed

lemma hubStep_followed:
  assumes step: "hubStep pick (now, operation) hub = Some (hub', vs)" and pick: "soonest pick" and ok: "waiting_ok pick hub"
    and fol: "all_followed ops es hub" and new: "distinct (registeredIds (ops @ [(now, operation)]))"
  shows "all_followed (ops @ [(now, operation)]) (es @ map (Pair now) vs) hub'"
proof (cases operation)
  case (Register gid gen)
  then show ?thesis using register_followed [OF _ fol, of now gid gen hub'] step new by auto
next
  case (Unregister gid)
  then have "hub' = hub\<lparr>mGenerators := umap_erase gid (mGenerators hub)\<rparr>" using step by (simp add: unregisterGenerator_def)
  then show ?thesis by (intro all_followed_later [OF fol]) (simp_all split: if_splits)
next
  case (ThreadRuns timeout)
  then have "all_followed ops (es @ map (Pair now) vs) hub'"
    using threadStep_followed [OF _ pick ok fol, of now timeout hub' vs] step by simp
  from all_followed_later [OF this, of hub' _ "[]"] show ?thesis by simp
next
  case ShutDown
  then have "hub' = shutDown hub" using step by simp
  then show ?thesis by (intro all_followed_later [OF fol]) (simp_all add: shutDown_def)
qed

lemma hubRun_followed:
  "hubRun pick ops hub = Some (hub', es) \<Longrightarrow> soonest pick \<Longrightarrow> waiting_ok pick hub \<Longrightarrow> covered hub \<Longrightarrow>
     all_followed before es0 hub \<Longrightarrow> distinct (registeredIds (before @ ops)) \<Longrightarrow> all_followed (before @ ops) (es0 @ es) hub'"
proof (induction ops arbitrary: hub es before es0)
  case (Cons op ops)
  obtain now operation where op: "op = (now, operation)" by (cases op)
  obtain hub1 vs es' where step: "hubStep pick op hub = Some (hub1, vs)" and run: "hubRun pick ops hub1 = Some (hub', es')"
    and es: "es = map (Pair now) vs @ es'" using Cons.prems(1) op by (auto split: option.splits)
  have "distinct (registeredIds (before @ [op]))"
    using Cons.prems(6) registeredIds_append [of "before @ [op]" ops] by (metis append_Cons append_Nil append_assoc distinct_append)
  then have "all_followed (before @ [op]) (es0 @ map (Pair now) vs) hub1"
    using hubStep_followed [of pick now operation hub hub1 vs before es0] step Cons.prems(2,3,5) op by simp
  moreover have "waiting_ok pick hub1 \<and> covered hub1" using hubStep_covered [OF step Cons.prems(2-4)] .
  ultimately show ?case
    using Cons.IH [OF run Cons.prems(2), of "before @ [op]" "es0 @ map (Pair now) vs"] Cons.prems(6) es by simp
qed simp

section \<open>The order of the events\<close>

text \<open>
  What holds while no id is registered a second time: \<open>R\<close> are the ids registered so far, \<open>L\<close> is the time of the last event. The queue has
  at most one event of a generator, which is the last one that the generator made, and none before \<open>L\<close>.
\<close>

definition hub_ordered :: "(VhalEvent list \<Rightarrow> nat) \<Rightarrow> int32 set \<Rightarrow> int \<Rightarrow> GeneratorHub \<Rightarrow> bool" where
  "hub_ordered pick R L hub \<longleftrightarrow> waiting_ok pick hub \<and>
     distinct (map fst (mEventQueue hub)) \<and> fst ` set (mEventQueue hub) \<subseteq> R \<and>
     (\<forall>e \<in> set (mEventQueue hub). L \<le> eventTime e) \<and>
     (\<forall>gid gen. map_of (mGenerators hub) gid = Some gen \<longrightarrow> gid \<in> R \<and> generator_steady gen \<and> 0 < generatorTime gen \<and>
        (\<forall>v. (gid, v) \<in> set (mEventQueue hub) \<longrightarrow> generatorTime gen = pv_timestamp v))"

lemma hub_ordered_start: "hub_ordered pick {} L newGeneratorHub"
  by (simp add: hub_ordered_def waiting_ok_def newGeneratorHub_def)

lemma hub_ordered_thread:
  "hub_ordered pick R L hub \<Longrightarrow> \<forall>e. t \<noteq> WaitingUntil e False \<Longrightarrow> hub_ordered pick R L (hub\<lparr>mThread := t\<rparr>)"
  by (simp add: hub_ordered_def waiting_ok_def)

lemma hub_ordered_shutDown: "hub_ordered pick R L hub \<Longrightarrow> hub_ordered pick R L (shutDown hub)"
  by (simp add: hub_ordered_def waiting_ok_def shutDown_def)

lemma hub_ordered_unregister:
  "hub_ordered pick R L hub \<Longrightarrow> hub_ordered pick R L (hub\<lparr>mGenerators := umap_erase gid (mGenerators hub)\<rparr>)"
  by (simp add: hub_ordered_def waiting_ok_def)

lemma register_ordered:
  assumes ord: "hub_ordered pick R L hub" and reg: "registerGenerator now gid gen hub = Some hub'"
    and fresh: "gid \<notin> R" and new: "generator_steady gen" "generatorTime gen = 0" and time: "L \<le> now" "0 < now"
  shows "hub_ordered pick (insert gid R) L hub'"
  using reg
proof (cases rule: registered)
  case 1
  then show ?thesis using ord by (auto simp: hub_ordered_def)
next
  case (2 v gen')
  then show ?thesis using ord fresh by (auto simp: hub_ordered_def)
next
  case (3 v gen')
  have t: "pv_timestamp v = now" "generatorTime gen' = now"
    using source.next_time [OF new(1) 3(1)] new(2) by simp_all
  have st: "generator_steady gen'" by (rule source.next_steady [OF new(1) 3(1)])
  have notin: "gid \<notin> fst ` set (mEventQueue hub)" using ord fresh by (auto simp: hub_ordered_def)
  have gens: "g \<in> insert gid R \<and> generator_steady x \<and> 0 < generatorTime x \<and>
      (\<forall>u. (g, u) \<in> set (mEventQueue hub @ [(gid, v)]) \<longrightarrow> generatorTime x = pv_timestamp u)"
    if "map_of (umap_put gid gen' (mGenerators hub)) g = Some x" for g x
  proof (cases "g = gid")
    case True
    then have "x = gen'" using that by simp
    moreover have "(gid, u) \<notin> set (mEventQueue hub)" for u using notin by (metis fst_conv image_eqI)
    ultimately show ?thesis using True t st time by auto
  next
    case False
    then have "map_of (mGenerators hub) g = Some x" using that by simp
    then show ?thesis using ord False by (auto simp: hub_ordered_def)
  qed
  have "waiting_ok pick hub'" using 3(5) by (simp add: waiting_ok_def)
  moreover have "distinct (map fst (mEventQueue hub @ [(gid, v)]))" using ord notin by (simp add: hub_ordered_def)
  moreover have "fst ` set (mEventQueue hub @ [(gid, v)]) \<subseteq> insert gid R" using ord by (auto simp: hub_ordered_def)
  moreover have "\<forall>e \<in> set (mEventQueue hub @ [(gid, v)]). L \<le> eventTime e" using ord t time by (auto simp: hub_ordered_def)
  ultimately show ?thesis using gens 3(3,4) unfolding hub_ordered_def by simp
qed

lemma handle_ordered:
  assumes ord: "hub_ordered pick R L hub" and pick: "soonest pick" and ne: "mEventQueue hub \<noteq> []"
    and handle: "handleEvent pick now (queueTop pick (mEventQueue hub)) hub = Some (hub', vs)"
  shows "\<exists>v. vs = [v] \<and> L \<le> pv_timestamp v \<and> v = snd (queueTop pick (mEventQueue hub)) \<and> hub_ordered pick R (pv_timestamp v) hub'"
proof -
  let ?q = "mEventQueue hub" and ?e = "queueTop pick (mEventQueue hub)"
  note top = soonestD [OF pick ne]
  have members: "set ?q = insert ?e (set (queuePop pick ?q))" by (rule queue_members(1)) (use top in blast)
  have dist: "fst ?e \<notin> fst ` set (queuePop pick ?q)" "distinct (map fst (queuePop pick ?q))"
    using queue_members(2) [of pick ?q] top ord by (auto simp: hub_ordered_def)
  have e: "?e \<in> set ?q" using members by blast
  have sub: "set (queuePop pick ?q) \<subseteq> set ?q" using members by blast
  have least: "eventTime ?e \<le> eventTime f" if "f \<in> set (queuePop pick ?q)" for f using top sub that by blast
  have L: "L \<le> eventTime ?e" and R: "fst ` set ?q \<subseteq> R" using ord e by (auto simp: hub_ordered_def)
  have gens: "g \<in> R \<and> generator_steady x \<and> 0 < generatorTime x \<and> (\<forall>u. (g, u) \<in> set ?q \<longrightarrow> generatorTime x = pv_timestamp u)"
    if "map_of (mGenerators hub) g = Some x" for g x using ord that by (simp add: hub_ordered_def)
  have popped: "hub_ordered pick R (eventTime ?e) (hub\<lparr>mEventQueue := queuePop pick ?q, mThread := Looping\<rparr>)"
    unfolding hub_ordered_def
  proof (intro conjI)
    let ?hub = "hub\<lparr>mEventQueue := queuePop pick ?q, mThread := Looping\<rparr>"
    show "waiting_ok pick ?hub" by (simp add: waiting_ok_def)
    show "distinct (map fst (mEventQueue ?hub))" using dist by simp
    show "fst ` set (mEventQueue ?hub) \<subseteq> R" using R sub by auto
    show "\<forall>f \<in> set (mEventQueue ?hub). eventTime ?e \<le> eventTime f" using least by simp
    show "\<forall>g x. map_of (mGenerators ?hub) g = Some x \<longrightarrow> g \<in> R \<and> generator_steady x \<and> 0 < generatorTime x \<and>
        (\<forall>u. (g, u) \<in> set (mEventQueue ?hub) \<longrightarrow> generatorTime x = pv_timestamp u)"
      using gens sub by simp blast
  qed
  from handle show ?thesis
  proof (cases rule: handled)
    case 1
    then have "hub_ordered pick R (eventTime ?e) hub'" using popped by (simp add: hub_ordered_def waiting_ok_def)
    then show ?thesis using 1 L by simp
  next
    case (2 gen gen')
    then have "hub_ordered pick R (eventTime ?e) hub'" using popped by (simp add: hub_ordered_def waiting_ok_def)
    then show ?thesis using 2 L by simp
  next
    case (3 gen gen' v)
    note gen = gens [OF 3(3)]
    have "generatorTime gen = eventTime ?e" using gen e by (metis prod.collapse)
    then have t: "pv_timestamp v = generatorTime gen'" "eventTime ?e \<le> generatorTime gen'"
      using source.next_time [of gen now v gen'] gen 3(4) by auto
    have st: "generator_steady gen'" using source.next_steady gen 3(4) by blast
    have keep: "g \<in> R \<and> generator_steady x \<and> 0 < generatorTime x \<and>
        (\<forall>u. (g, u) \<in> set (queuePop pick ?q @ [(fst ?e, v)]) \<longrightarrow> generatorTime x = pv_timestamp u)"
      if x: "map_of (umap_put (fst ?e) gen' (mGenerators hub)) g = Some x" for g x
    proof (cases "g = fst ?e")
      case True
      then have "x = gen'" using x by simp
      moreover have "(g, u) \<notin> set (queuePop pick ?q)" for u using dist(1) True by (metis fst_conv image_eqI)
      ultimately show ?thesis using True t st gen by (auto simp: \<open>generatorTime gen = eventTime ?e\<close>)
    next
      case False
      then have "map_of (mGenerators hub) g = Some x" using x by simp
      then show ?thesis using gens [of g x] sub False by auto
    qed
    have "hub_ordered pick R (eventTime ?e) hub'"
      unfolding hub_ordered_def
    proof (intro conjI)
      show "waiting_ok pick hub'" using 3(2) by (simp add: waiting_ok_def)
      show "distinct (map fst (mEventQueue hub'))" using dist by (simp add: 3(6))
      show "fst ` set (mEventQueue hub') \<subseteq> R" using R sub e by (auto simp: 3(6))
      show "\<forall>f \<in> set (mEventQueue hub'). eventTime ?e \<le> eventTime f" using least t by (auto simp: 3(6))
      show "\<forall>g x. map_of (mGenerators hub') g = Some x \<longrightarrow> g \<in> R \<and> generator_steady x \<and> 0 < generatorTime x \<and>
          (\<forall>u. (g, u) \<in> set (mEventQueue hub') \<longrightarrow> generatorTime x = pv_timestamp u)"
        using keep unfolding 3(5,6) by blast
    qed
    then show ?thesis using 3 L by simp
  qed
qed

lemma prune_ordered:
  assumes "hub_ordered pick R L hub" and "mThread hub = Looping"
  shows "hub_ordered pick R L (hub\<lparr>mEventQueue := prune pick gens (mEventQueue hub)\<rparr>)"
proof -
  have "set (prune pick gens (mEventQueue hub)) \<subseteq> set (mEventQueue hub)"
    and "distinct (map fst (prune pick gens (mEventQueue hub)))"
    using prune_facts [of pick gens "mEventQueue hub"] assms(1) by (auto simp: hub_ordered_def)
  then show ?thesis using assms unfolding hub_ordered_def waiting_ok_def by simp blast
qed

definition in_order :: "int \<Rightarrow> int \<Rightarrow> VehiclePropValue list \<Rightarrow> int \<Rightarrow> bool" where
  "in_order L now vs L' \<longleftrightarrow> L \<le> L' \<and> L' \<le> now \<and> (vs = [] \<and> L' = L \<or> (\<exists>v. vs = [v] \<and> L' = pv_timestamp v))"

lemma nextWait_ordered:
  assumes "nextWait pick now hub = Some (hub', vs)" and "soonest pick" and ord: "hub_ordered pick R L hub" and time: "L \<le> now"
  shows "\<exists>L'. in_order L now vs L' \<and> hub_ordered pick R L' hub'"
  using assms(1)
proof (cases rule: waited)
  case (1 t)
  then have "hub_ordered pick R L hub'" using ord by (simp add: hub_ordered_def waiting_ok_def)
  then show ?thesis using 1 time by (auto simp: in_order_def)
next
  case 2
  then show ?thesis using handle_ordered [OF ord assms(2) 2(1,3)] by (auto simp: in_order_def)
qed

lemma threadStep_ordered:
  assumes step: "threadStep pick now timeout hub = Some (hub', vs)" and pick: "soonest pick"
    and ord: "hub_ordered pick R L hub" and time: "L \<le> now"
  shows "\<exists>L'. in_order L now vs L' \<and> hub_ordered pick R L' hub'"
proof (cases "mThread hub")
  case Looping
  show ?thesis
  proof (cases "mShuttingDownFlag hub")
    case True
    then have "vs = []" and "hub_ordered pick R L hub'"
      using step Looping hub_ordered_thread [OF ord, of Ended] by (auto simp: threadStep_def)
    then show ?thesis using time by (auto simp: in_order_def)
  next
    case False
    then show ?thesis
      using step Looping nextWait_ordered [OF _ pick prune_ordered [OF ord Looping] time] by (simp add: threadStep_def)
  qed
next
  case WaitingNonEmpty
  then show ?thesis using step nextWait_ordered [OF _ pick ord time] by (simp add: threadStep_def)
next
  case (WaitingUntil e pushed)
  show ?thesis
  proof (cases "\<not> timeout \<or> now < eventTime e")
    case True
    then have "vs = []" and "hub_ordered pick R L hub'"
      using step WaitingUntil hub_ordered_thread [OF ord, of Looping] by (auto simp: threadStep_def)
    then show ?thesis using time by (auto simp: in_order_def)
  next
    case False
    then have "\<not> pushed" and handle: "handleEvent pick now e hub = Some (hub', vs)"
      using step WaitingUntil by (auto simp: threadStep_def split: if_splits)
    then have ne: "mEventQueue hub \<noteq> []" and e: "e = queueTop pick (mEventQueue hub)"
      using ord WaitingUntil by (auto simp: hub_ordered_def waiting_ok_def)
    show ?thesis
      using handle_ordered [OF ord pick ne handle [unfolded e]] False e by (auto simp: in_order_def)
  qed
next
  case Ended
  then show ?thesis using step ord time by (auto simp: threadStep_def in_order_def)
qed

section \<open>The properties\<close>

text \<open>Runs whose generators are new and steady.\<close>

fun new_generator :: "hub_operation \<Rightarrow> bool" where
  "new_generator (Register gid gen) = (generator_steady gen \<and> generatorTime gen = 0)"
| "new_generator _ = True"

lemma hubRun_ordered:
  assumes "soonest pick"
  shows "hubRun pick ops hub = Some (hub', es) \<Longrightarrow> hub_ordered pick R L hub \<Longrightarrow> sorted (L # map fst ops) \<Longrightarrow>
     0 \<le> L \<Longrightarrow> list_all (\<lambda>(now, op). 0 < now \<and> new_generator op) ops \<Longrightarrow> distinct (registeredIds ops) \<Longrightarrow>
     R \<inter> set (registeredIds ops) = {} \<Longrightarrow>
     sorted (L # map (pv_timestamp \<circ> snd) es) \<and> (\<forall>(now, v) \<in> set es. pv_timestamp v \<le> now)"
proof (induction ops arbitrary: hub es R L)
  case (Cons op ops)
  obtain now operation where op: "op = (now, operation)" by (cases op)
  obtain hub1 vs es' where step: "hubStep pick op hub = Some (hub1, vs)" and run: "hubRun pick ops hub1 = Some (hub', es')"
    and es: "es = map (Pair now) vs @ es'" using Cons.prems(1) op by (auto split: option.splits)
  have now: "L \<le> now" "0 < now" "sorted (now # map fst ops)" using Cons.prems(3,5) op by auto
  define R' where "R' = R \<union> (case operation of Register gid gen \<Rightarrow> {gid} | _ \<Rightarrow> {})"
  have "\<exists>L'. in_order L now vs L' \<and> hub_ordered pick R' L' hub1"
  proof (cases operation)
    case (Register gid gen)
    then have "registerGenerator now gid gen hub = Some hub1" and vs: "vs = []" using step op by auto
    then have "hub_ordered pick (insert gid R) L hub1"
      by (intro register_ordered [OF Cons.prems(2)]) (use Cons.prems op Register now in auto)
    then show ?thesis using now vs Register by (auto simp: in_order_def R'_def)
  next
    case (Unregister gid)
    then have "hub_ordered pick R L hub1" and "vs = []"
      using step op hub_ordered_unregister [OF Cons.prems(2)] by (auto simp: unregisterGenerator_def)
    then show ?thesis using now Unregister by (auto simp: in_order_def R'_def)
  next
    case (ThreadRuns timeout)
    then show ?thesis
      using threadStep_ordered [OF _ assms Cons.prems(2) now(1), of timeout hub1 vs] step op by (simp add: R'_def)
  next
    case ShutDown
    then have "hub_ordered pick R L hub1" and "vs = []"
      using step op hub_ordered_shutDown [OF Cons.prems(2)] by auto
    then show ?thesis using now ShutDown by (auto simp: in_order_def R'_def)
  qed
  then obtain L' where L': "in_order L now vs L'" and ord: "hub_ordered pick R' L' hub1" by blast
  have "sorted (L' # map fst ops)" using now L' by (cases "map fst ops") (auto simp: in_order_def)
  moreover have "R' \<inter> set (registeredIds ops) = {}" and "distinct (registeredIds ops)"
    using Cons.prems(6,7) op by (cases operation; auto simp: R'_def)+
  moreover have "0 \<le> L'" and "list_all (\<lambda>(now, op). 0 < now \<and> new_generator op) ops"
    using L' Cons.prems(4,5) by (auto simp: in_order_def)
  ultimately have rest: "sorted (L' # map (pv_timestamp \<circ> snd) es') \<and> (\<forall>(now, v) \<in> set es'. pv_timestamp v \<le> now)"
    by (intro Cons.IH [OF run ord])
  from L' [unfolded in_order_def] show ?case
  proof (elim conjE disjE exE)
    assume "vs = []" and "L' = L"
    then show ?thesis using rest [unfolded comp_def] es by (simp add: comp_def)
  next
    fix v
    assume "vs = [v]" and "L' = pv_timestamp v" and "L \<le> L'" and "L' \<le> now"
    then show ?thesis using rest [unfolded comp_def] es by (auto simp: comp_def)
  qed
qed simp

text \<open>
  Claim C40 (generators_covered). In every run of the hub, whatever is registered and unregistered and however the thread is woken, each registered
  generator has an event in the queue. If no id is registered twice in the run, that event is the only one with its id, and it is the
  next event of the generator: the generator was asked for an event when it was registered and each time that one of its events was
  emitted, it answered with its events so far and then the one in the queue, and the hub has emitted the former, in this order.
  (When an id is registered again, the event in the queue can be one of the generator that was replaced.)
\<close>

theorem generators_covered:
  assumes "hubRun pick ops newGeneratorHub = Some (hub, es)" and "soonest pick"
  shows "(\<forall>gid \<in> umap_keys (mGenerators hub). \<exists>v. (gid, v) \<in> set (mEventQueue hub)) \<and>
    (distinct (registeredIds ops) \<longrightarrow> (\<forall>gid gen. map_of (mGenerators hub) gid = Some gen \<longrightarrow>
       (\<exists>start gen0 emitted v. (start, Register gid gen0) \<in> set ops \<and> subseq emitted es \<and>
          generates gen0 (start # map fst emitted) = Some (map snd emitted @ [v], gen) \<and>
          filter (\<lambda>e. fst e = gid) (mEventQueue hub) = [(gid, v)])))"
proof (intro conjI impI)
  have new: "waiting_ok pick newGeneratorHub" "covered newGeneratorHub" "all_followed [] [] newGeneratorHub"
    by (simp_all add: waiting_ok_def covered_def all_followed_def newGeneratorHub_def)
  have "covered hub" using hubRun_covered [OF assms new(1,2)] by simp
  then show "\<forall>gid \<in> umap_keys (mGenerators hub). \<exists>v. (gid, v) \<in> set (mEventQueue hub)" unfolding covered_def by force
  assume "distinct (registeredIds ops)"
  then have "all_followed ops es hub" using hubRun_followed [OF assms new] by simp
  then show "\<forall>gid gen. map_of (mGenerators hub) gid = Some gen \<longrightarrow>
      (\<exists>start gen0 emitted v. (start, Register gid gen0) \<in> set ops \<and> subseq emitted es \<and>
         generates gen0 (start # map fst emitted) = Some (map snd emitted @ [v], gen) \<and>
         filter (\<lambda>e. fst e = gid) (mEventQueue hub) = [(gid, v)])"
    unfolding all_followed_def followed_def by blast
qed

text \<open>
  Claim C39 (events_in_order). When no id is registered twice, and each generator is new and does not go back in time,
  the hub emits the events of all generators in the order of their times, and none before its time.
\<close>

theorem events_in_order:
  assumes "hubRun pick ops newGeneratorHub = Some (hub, es)" and "soonest pick"
    and "sorted (map fst ops)" and "list_all (\<lambda>(now, op). 0 < now \<and> new_generator op) ops"
    and "distinct (registeredIds ops)"
  shows "sorted (map (pv_timestamp \<circ> snd) es) \<and> (\<forall>(now, v) \<in> set es. pv_timestamp v \<le> now)"
proof -
  have "sorted (0 # map fst ops)" using assms(3,4) by (auto simp: list_all_iff less_imp_le)
  then show ?thesis
    using hubRun_ordered [OF assms(2,1) hub_ordered_start [of pick 0]] assms(4,5) by simp
qed

text \<open>A queue with the first of the soonest events on top, and generators of recorded events.\<close>

fun firstSoonest :: "VhalEvent list \<Rightarrow> nat" where
  "firstSoonest [] = 0"
| "firstSoonest [e] = 0"
| "firstSoonest (e # f # q) =
     (let i = firstSoonest (f # q) in if eventTime e \<le> eventTime ((f # q) ! i) then 0 else Suc i)"

lemma soonest_firstSoonest: "soonest firstSoonest"
proof -
  have "q \<noteq> [] \<Longrightarrow> firstSoonest q < length q \<and> (\<forall>e \<in> set q. eventTime (q ! firstSoonest q) \<le> eventTime e)" for q
  proof (induction q rule: firstSoonest.induct)
    case (3 e f q)
    then have "firstSoonest (f # q) < length (f # q)"
      and "\<forall>x \<in> set (f # q). eventTime ((f # q) ! firstSoonest (f # q)) \<le> eventTime x" by simp_all
    then show ?case by (auto simp: Let_def)
  qed simp_all
  then show ?thesis by (simp add: soonest_def)
qed

definition everyTicks :: "int \<Rightarrow> FakeValueGenerator" where
  "everyTicks interval = JsonGenerator (newJsonGenerator
     (map (\<lambda>i. \<lparr>pv_timestamp = i * interval, pv_areaId = 0, pv_prop = 0x21400000, pv_status = AVAILABLE, pv_value = raw_default\<rparr>)
       [0, 1, 2, 3, 4]) 1)"

definition twoGenerators :: "(int \<times> hub_operation) list" where
  "twoGenerators = [(1, Register 7 (everyTicks 3)), (1, ThreadRuns False), (2, Register 8 (everyTicks 1)), (2, ThreadRuns False),
     (2, ThreadRuns False), (3, ThreadRuns True), (3, ThreadRuns False), (4, ThreadRuns True), (4, ThreadRuns False)]"

lemma generators_covered_witness:
  "\<exists>hub es gen. hubRun firstSoonest twoGenerators newGeneratorHub = Some (hub, es) \<and> map_of (mGenerators hub) 8 = Some gen \<and>
     (\<exists>start gen0 emitted v. (start, Register 8 gen0) \<in> set twoGenerators \<and> subseq emitted es \<and>
        generates gen0 (start # map fst emitted) = Some (map snd emitted @ [v], gen) \<and>
        filter (\<lambda>e. fst e = 8) (mEventQueue hub) = [(8, v)])"
proof -
  have "map_option (\<lambda>(hub, es). Option.is_none (map_of (mGenerators hub) 8)) (hubRun firstSoonest twoGenerators newGeneratorHub) = Some False"
    by code_simp
  then obtain hub es gen where run: "hubRun firstSoonest twoGenerators newGeneratorHub = Some (hub, es)"
    and gen: "map_of (mGenerators hub) 8 = Some gen" by (auto simp: Option.is_none_def)
  have "distinct (registeredIds twoGenerators)" by code_simp
  then show ?thesis using generators_covered [OF run soonest_firstSoonest] run gen by blast
qed

lemma events_in_order_witness:
  "\<exists>hub es. hubRun firstSoonest twoGenerators newGeneratorHub = Some (hub, es) \<and> map (pv_timestamp \<circ> snd) es = [1, 2, 3, 4, 4] \<and>
     sorted (map (pv_timestamp \<circ> snd) es)"
proof -
  have "map_option (\<lambda>(hub, es). map (pv_timestamp \<circ> snd) es) (hubRun firstSoonest twoGenerators newGeneratorHub) =
      Some [1, 2, 3, 4, 4]" by code_simp
  then obtain hub es where run: "hubRun firstSoonest twoGenerators newGeneratorHub = Some (hub, es)"
    and es: "map (pv_timestamp \<circ> snd) es = [1, 2, 3, 4, 4]" by auto
  have "sorted (map fst twoGenerators)" and "list_all (\<lambda>(now, op). 0 < now \<and> new_generator op) twoGenerators"
    and "distinct (registeredIds twoGenerators)"
    by code_simp+
  from events_in_order [OF run soonest_firstSoonest this] have "sorted (map (pv_timestamp \<circ> snd) es)" by (rule conjunct1)
  with run es show ?thesis by (intro exI [of _ hub] exI [of _ es] conjI)
qed

text \<open>
  A generator that overrides another one waits for the event of the one that it replaced: its first event is lost, and after
  the old event its next ones come late and out of order.
\<close>

lemma override_breaks_order:
  "map_option (\<lambda>(hub, es). map (\<lambda>(now, v). (now, pv_timestamp v)) es)
     (hubRun firstSoonest [(1, Register 7 (everyTicks 100)), (1, ThreadRuns False), (2, Register 7 (everyTicks 1)),
        (2, ThreadRuns False), (101, ThreadRuns True), (101, ThreadRuns False), (101, ThreadRuns False)] newGeneratorHub) =
   Some [(1, 1), (101, 101), (101, 3), (101, 4)]"
  by code_simp

text \<open>The event of a generator that is unregistered and registered again before the thread looked at the queue is still emitted.\<close>

lemma stale_event_emitted:
  "map_option (\<lambda>(hub, es). map (\<lambda>(now, v). (now, pv_timestamp v)) es)
     (hubRun firstSoonest [(1, Register 7 (everyTicks 5)), (2, Unregister 7), (3, Register 7 (everyTicks 5)),
        (3, ThreadRuns False), (3, ThreadRuns False)] newGeneratorHub) =
   Some [(3, 1), (3, 3)]"
  by code_simp

end
