(* ===== verification/Spec2Isabelle.thy ===== *)
theory Spec2Isabelle
  imports Prelude Vehicle_Utils Fake_Hardware Pending_Requests Hal_Clients User_Hal Value_Pool Driver_Assistance Request_Handlers Reboot_Escrow Boot_Services Bluetooth_Service Vendor_Interface Generator_Hub
begin

text \<open>
  A model of four services of the Android hardware interfaces, and the theorems that make them correct: the reference
  implementation of the vehicle HAL, \<^verbatim>\<open>automotive/vehicle/aidl/impl/current\<close>; the boot control services, \<^verbatim>\<open>boot\<close>; the
  reboot escrow, \<^verbatim>\<open>rebootescrow/aidl/default\<close>; and the Bluetooth HCI services with their transport, \<^verbatim>\<open>bluetooth/hci\<close>,
  \<^verbatim>\<open>bluetooth/1.0/default\<close> and \<^verbatim>\<open>bluetooth/aidl/default\<close>. All paths are under \<^verbatim>\<open>src/\<close>.

  The vehicle HAL:

  \<^item> \<open>Vehicle_Types\<close>: the parcelables and enumerations of the AIDL interface, property and area
    identifiers (\<^verbatim>\<open>PropIdAreaId\<close>), result codes. \<open>Float_Model\<close>: IEEE 754 \<^verbatim>\<open>float\<close> and \<^verbatim>\<open>double\<close> as exact
    rationals rounded to nearest even, with infinities and NaN.
  \<^item> \<open>Vehicle_Utils\<close> (\<^verbatim>\<open>utils/common/VehicleUtils\<close>): bit fields of a property identifier, validation of
    values, rounding to a resolution. \<open>Value_Pool\<close> (\<^verbatim>\<open>utils/common/VehicleObjectPool\<close>): recycled values.
  \<^item> \<open>Property_Store\<close> (\<^verbatim>\<open>utils/common/VehiclePropertyStore\<close>): the values of the properties, with their
    timestamps, statuses and change events.
  \<^item> \<open>Pending_Requests\<close> (\<^verbatim>\<open>utils/common/PendingRequestPool\<close>): the requests of each client that wait for a
    result, and their timeouts.
  \<^item> \<open>Recurrent_Timer\<close> (\<^verbatim>\<open>utils/common/RecurrentTimer\<close>) and \<open>Concurrent_Queue\<close>
    (\<^verbatim>\<open>utils/common/ConcurrentQueue.h\<close>): periodic callbacks over a looper, and a queue drained by a thread.
  \<^item> \<open>Hardware_Interface\<close> (\<^verbatim>\<open>hardware/include/IVehicleHardware.h\<close>): the operations of a vehicle hardware as
    a record, and what a client may rely on as the locale \<open>vehicle_hardware\<close>.
  \<^item> \<open>Subscription_Manager\<close> (\<^verbatim>\<open>vhal/SubscriptionManager\<close>): combines the subscriptions of all clients into
    those of the hardware and routes events; proved over any hardware that satisfies the locale.
    \<open>Subscription_Records\<close>: what its other maps record of a client is recorded with the client too.
  \<^item> \<open>Fake_Obd2\<close> (\<^verbatim>\<open>fake_impl/obd2frame\<close>): the sensor store and the diagnostic frames. \<open>User_Hal\<close>
    (\<^verbatim>\<open>fake_impl/userhal\<close>): the parser of the user messages and the emulated user HAL.
  \<^item> \<open>Fake_Hardware\<close> (\<^verbatim>\<open>fake_impl/hardware/FakeVehicleHardware\<close>): the configuration, subscriptions, refresh and queues of
    the reference hardware, which satisfies the locale (interpretation \<open>fake\<close>). \<open>Special_Values\<close>, \<open>Hvac_Power\<close> and
    \<open>Driver_Assistance\<close>: its gets and sets with all special properties; \<open>Request_Handlers\<close>: the handlers of its queues.
  \<^item> \<open>Value_Generators\<close> and \<open>Generator_Hub\<close> (\<^verbatim>\<open>fake_impl/GeneratorHub\<close>): the generators of fake events, and the thread that
    emits the events of all of them.
  \<^item> \<open>Connected_Client\<close> (\<^verbatim>\<open>vhal/ConnectedClient\<close>, \<^verbatim>\<open>ParcelableUtils.h\<close>): how results, timeouts and events reach
    the callback of a client.
  \<^item> \<open>Default_Vehicle_Hal\<close> (\<^verbatim>\<open>vhal/DefaultVehicleHal\<close>): the service, over any hardware: checks of requests and
    subscriptions, the configuration table, dispatch to the hardware, supported values, the events of the
    hardware and the heartbeat. \<open>Hal_Clients\<close>: the service as a step relation, and what it keeps for clients.

  Boot control and reboot escrow, both over \<open>File_Calls\<close>, the calls on files as a parameter with their contract:

  \<^item> \<open>Bootloader_Block\<close> and \<open>Boot_Control\<close> (\<^verbatim>\<open>boot/1.1/default/boot_control\<close>): the block of the misc partition with its checksum, and the
    operations on slots. \<open>Boot_Slots\<close>: what they do to the block on the device. \<open>Boot_Services\<close>: the AIDL and HIDL services and the
    legacy module over them.
  \<^item> \<open>Hadamard\<close> (\<^verbatim>\<open>HadamardUtils.cpp\<close>): the code that encodes and decodes the key; \<open>Hadamard_Encoding\<close>, \<open>Hadamard_Transform\<close>,
    \<open>Hadamard_Decoding\<close> and \<open>Hadamard_Shuffle\<close> prove that it corrects errors. \<open>Reboot_Escrow\<close> (\<^verbatim>\<open>RebootEscrow.cpp\<close>): the service.

  Bluetooth:

  \<^item> \<open>Hci_Packetizer\<close> (\<^verbatim>\<open>hci/hci_packetizer.cc\<close> and the loop of \<^verbatim>\<open>hci/h4_protocol.cc\<close>): packets cut out of buffers of bytes, as a refinement of a
    receiver of single bytes. \<open>H4_Protocol\<close> (\<^verbatim>\<open>hci/h4_protocol.cc\<close>): sending and receiving over a UART.
  \<^item> \<open>Net_Bluetooth_Mgmt\<close> and \<open>Bluetooth_Service\<close> (\<^verbatim>\<open>aidl/default\<close>): the Linux interface of the controller, and the AIDL service.
  \<^item> \<open>Hci_Legacy\<close> (\<^verbatim>\<open>1.0/default\<close>: \<^verbatim>\<open>hci_packetizer.cc\<close>, \<^verbatim>\<open>h4_protocol.cc\<close>, \<^verbatim>\<open>mct_protocol.cc\<close>, \<^verbatim>\<open>hci_protocol.cc\<close>) and \<open>Vendor_Interface\<close>
    (\<^verbatim>\<open>vendor_interface.cc\<close>, \<^verbatim>\<open>bluetooth_hci.cc\<close>): the transport of the HIDL service, the library of the vendor with its low power mode, and the
    service.

  Conventions. A method that changes its object takes the state as its last argument and returns
  the result and the new state. A \<^verbatim>\<open>Result\<close> or \<^verbatim>\<open>VhalResult\<close> is a sum whose left side is the error;
  \<open>option\<close> is used where the C++ code has undefined behaviour or ends the process, so a theorem that the result is \<open>Some\<close>
  says that the behaviour is defined. Mutexes make the operations atomic; threads become
  interleavings of operations (lists of operations, or a step relation). A \<^verbatim>\<open>std::unordered_map\<close> is
  an association list whose order stands for the iteration order of the container, and no theorem
  depends on that order. Clocks, the interval of undefined casts, \<^verbatim>\<open>log10f\<close>, the calls of the system, the library of the Bluetooth vendor and
  what devices answer are parameters. Integers
  are words where the code uses their bits or wraps them (the identifiers of timer callbacks) and integers with explicit wrap-around
  elsewhere; the sum of a clock and a timeout in the pending request pool is not wrapped.
  Operations that release their lock in the middle are one step where nothing else changes what they go on with: \<^verbatim>\<open>getValues\<close> and
  \<^verbatim>\<open>setValues\<close> up to the call of the hardware, and a flush of the batching consumer with the delivery of what it took. A timed wait ends
  by its time only when that time has come, as the library promises.
  A loop that waits for a device runs over the list of what it finds, which is its fuel: a result of its own says that
  it still waits when the list ends, and the properties hold for lists of any length.

  What the lemmas show. Each component has an invariant kept by all its operations, the exact
  behaviour of its operations, and a statement over all sequences of its operations: the store is a
  map of last writes whose times never go back; the pool reports each accepted request once; the
  timer is defined and calls only registered callbacks; the subscription manager and the hardware
  agree on what is subscribed (until an event of an on-change property is routed); no map of clients keeps a dead one; the events of the generators come in order and none is skipped; the slot that was set active is the one read
  back, and a damaged block is noticed; a key survives the errors the code corrects; a Bluetooth client is given exactly the packets
  of the bytes that were read, and packets are sent to a controller that is awake. Where the code does otherwise, the theorems state what it does,
  and the manifest lists the finding. The shared interfaces are the locales \<open>timed_store\<close>, \<open>request_pool\<close>,
  \<open>vehicle_hardware\<close>, \<open>prefix_parser\<close>, \<open>event_source\<close> and \<open>error_correcting\<close>, each interpreted on the definitions of the component that provides it.

  Not modelled: binder transport and linking to death, logging and printing, the JSON
  configuration loader and the reading of recorded events (a third-party parser), the shell-style debug commands, the generated table of the
  versions of properties (a parameter), the watcher of descriptors of the Bluetooth services except for its timeout, the reading of the
  Bluetooth address and of terminal settings, the other
  HAL implementations of the repository (independent services), and all tests.
\<close>

end
